(* ===== verification/Prelude.thy ===== *)
theory Prelude
  imports Main "HOL-Library.AList" "HOL-Library.List_Lexorder" "HOL-Library.Char_ord"
begin

text \<open>
  What the components share: the reading of a few JavaScript constructs and the generic lemmas
  about them.

  \<^item> A JavaScript \<^verbatim>\<open>Map\<close> iterates in insertion order: it is an association list, \<open>map_of\<close>
    reads it, \<open>AList.update\<close> is \<^verbatim>\<open>set\<close> (an existing key keeps its place, a new one goes to
    the end) and \<open>AList.delete\<close> is \<^verbatim>\<open>delete\<close>.
  \<^item> A string is a list of characters compared lexicographically, the order \<^verbatim>\<open>a < b\<close> has on
    strings in JavaScript (there on UTF-16 units, here on 8-bit ones).
  \<^item> \<open>x ?? d\<close> on an optional value is \<open>nullish\<close>.
  \<^item> A template literal that prints an integer uses \<open>nat_str\<close> or \<open>int_str\<close>.
\<close>

named_theorems prelude_simps \<open>equations every component rewrites with\<close>

section \<open>Optional values\<close>

definition nullish :: "'a option \<Rightarrow> 'a \<Rightarrow> 'a" where
  "nullish x d = (case x of None \<Rightarrow> d | Some v \<Rightarrow> v)"

lemma nullish_simps [simp, prelude_simps]:
  "nullish None d = d"
  "nullish (Some v) d = v"
  by (simp_all add: nullish_def)

section \<open>Insertion-ordered maps\<close>

text \<open>The keys of a map, in order, are its iteration order; a map holds each key once.\<close>

abbreviation keys_of :: "('k \<times> 'v) list \<Rightarrow> 'k list" where
  "keys_of m \<equiv> map fst m"

abbreviation wf_map :: "('k \<times> 'v) list \<Rightarrow> bool" where
  "wf_map m \<equiv> distinct (keys_of m)"

lemma map_of_update [simp]: "map_of (AList.update k v m) = (map_of m)(k \<mapsto> v)"
  by (rule update_conv')

lemma map_of_delete [simp]: "map_of (AList.delete k m) = (map_of m)(k := None)"
  by (rule delete_conv')

lemma wf_map_update [simp]: "wf_map m \<Longrightarrow> wf_map (AList.update k v m)"
  by (rule distinct_update)

lemma wf_map_delete [simp]: "wf_map m \<Longrightarrow> wf_map (AList.delete k m)"
  by (rule distinct_delete)

lemma keys_update_new: "k \<notin> set (keys_of m) \<Longrightarrow> AList.update k v m = m @ [(k, v)]"
  by (induction m) auto

lemma length_update:
  "length (AList.update k v m) = (if k \<in> set (keys_of m) then length m else Suc (length m))"
  by (induction m) auto

lemma set_update_subset: "set (AList.update k v m) \<subseteq> insert (k, v) (set m)"
  by (induction m) auto

lemma set_delete_subset: "set (AList.delete k m) \<subseteq> set m"
  by (auto simp: AList.delete_eq)

lemma length_delete_le: "length (AList.delete k m) \<le> length m"
  by (simp add: AList.delete_eq)

lemma map_of_eq_None_keys: "map_of m k = None \<longleftrightarrow> k \<notin> set (keys_of m)"
  by (simp add: map_of_eq_None_iff)

section \<open>Printing a non-negative integer\<close>

definition digit_char :: "nat \<Rightarrow> char" where
  "digit_char d = char_of (48 + d)"

fun nat_str :: "nat \<Rightarrow> string" where
  "nat_str n = (if n < 10 then [digit_char n] else nat_str (n div 10) @ [digit_char (n mod 10)])"

declare nat_str.simps [simp del]

definition str_nat :: "string \<Rightarrow> nat" where
  "str_nat s = foldl (\<lambda>a c. 10 * a + (of_char c - 48)) 0 s"

lemma of_digit_char: "d < 10 \<Longrightarrow> of_char (digit_char d) = (48 + d :: nat)"
  by (simp add: digit_char_def)

lemma str_nat_snoc: "str_nat (s @ [c]) = 10 * str_nat s + (of_char c - 48)"
  by (simp add: str_nat_def)

lemma str_nat_nat_str: "str_nat (nat_str n) = n"
proof (induction n rule: nat_str.induct)
  case (1 n)
  show ?case
  proof (cases "n < 10")
    case True
    then show ?thesis by (simp add: nat_str.simps [of n] str_nat_def of_digit_char)
  next
    case False
    with 1 have "str_nat (nat_str (n div 10)) = n div 10" by simp
    with False show ?thesis
      by (simp add: nat_str.simps [of n] str_nat_snoc of_digit_char)
  qed
qed

lemma nat_str_digits: "c \<in> set (nat_str n) \<Longrightarrow> \<exists>d < 10. c = digit_char d"
proof (induction n rule: nat_str.induct)
  case (1 n)
  show ?case
  proof (cases "n < 10")
    case True
    with 1(2) show ?thesis by (auto simp: nat_str.simps [of n])
  next
    case False
    with 1(2) have "c \<in> set (nat_str (n div 10)) \<or> c = digit_char (n mod 10)"
      by (auto simp: nat_str.simps [of n])
    with 1(1) False show ?thesis by (metis mod_less_divisor zero_less_numeral)
  qed
qed

lemma inj_nat_str: "nat_str m = nat_str n \<longleftrightarrow> m = n"
  by (metis str_nat_nat_str)

lemma digit_char_neq: "d < 10 \<Longrightarrow> of_char c < (48::nat) \<or> 57 < (of_char c :: nat) \<Longrightarrow> digit_char d \<noteq> c"
  using of_digit_char by fastforce

definition int_str :: "int \<Rightarrow> string" where
  "int_str i = (if i < 0 then ''-'' @ nat_str (nat (- i)) else nat_str (nat i))"

definition is_digit :: "char \<Rightarrow> bool" where
  "is_digit c \<longleftrightarrow> (48::nat) \<le> of_char c \<and> of_char c \<le> (57::nat)"

text \<open>\<^verbatim>\<open>s.split(c)\<close> for a separator of one character.\<close>

fun split_on :: "char \<Rightarrow> string \<Rightarrow> string list" where
  "split_on c [] = [[]]"
| "split_on c (x # xs) = (if x = c then [] # split_on c xs
     else (case split_on c xs of [] \<Rightarrow> [[x]] | w # ws \<Rightarrow> (x # w) # ws))"

lemma split_on_none: "c \<notin> set s \<Longrightarrow> split_on c s = [s]"
  by (induction s) auto

lemma split_on_append: "c \<notin> set s \<Longrightarrow> split_on c (s @ c # t) = s # split_on c t"
  by (induction s) auto

lemma append_sep_eq:
  assumes "c \<notin> set xs" "c \<notin> set us"
  shows "xs @ c # ys = us @ c # vs \<longleftrightarrow> xs = us \<and> ys = vs"
  using assms by (induction xs arbitrary: us) (case_tac us; auto)+

section \<open>Prefixes\<close>

text \<open>\<^verbatim>\<open>k.startsWith(p)\<close>.\<close>

definition starts_with :: "string \<Rightarrow> string \<Rightarrow> bool" where
  "starts_with p k \<longleftrightarrow> take (length p) k = p"

lemma starts_with_iff: "starts_with p k \<longleftrightarrow> (\<exists>i. k = p @ i)"
  by (auto simp: starts_with_def) (metis append_take_drop_id)

section \<open>Blanks\<close>

text \<open>\<^verbatim>\<open>s.trim()\<close>.\<close>

definition is_space :: "char \<Rightarrow> bool" where
  "is_space c \<longleftrightarrow> (of_char c :: nat) \<in> {9, 10, 11, 12, 13, 32, 160}"

definition trim :: "string \<Rightarrow> string" where
  "trim s = rev (dropWhile is_space (rev (dropWhile is_space s)))"

section \<open>Lists\<close>

text \<open>\<^verbatim>\<open>xs.splice(i, 0, x)\<close>: insert before position \<open>i\<close>.\<close>

definition splice_in :: "nat \<Rightarrow> 'a \<Rightarrow> 'a list \<Rightarrow> 'a list" where
  "splice_in i x xs = take i xs @ x # drop i xs"

lemma length_splice_in [simp]: "length (splice_in i x xs) = Suc (length xs)"
  by (simp add: splice_in_def)

lemma set_splice_in [simp]: "set (splice_in i x xs) = insert x (set xs)"
  by (simp add: splice_in_def) (metis Un_insert_right append_take_drop_id set_append)

lemma distinct_splice_in:
  "distinct (map f (splice_in i x xs)) \<longleftrightarrow> f x \<notin> f ` set xs \<and> distinct (map f xs)"
proof -
  have "distinct (map f xs) \<longleftrightarrow> distinct (map f (take i xs) @ map f (drop i xs))"
    by (metis append_take_drop_id map_append)
  moreover have "f ` set xs = set (map f (take i xs)) \<union> set (map f (drop i xs))"
    by (metis append_take_drop_id image_set map_append set_append)
  ultimately show ?thesis
    by (auto simp: splice_in_def)
qed

lemma find_SomeD: "find P xs = Some x \<Longrightarrow> x \<in> set xs \<and> P x"
  by (induction xs) (auto split: if_splits)

lemma find_append: "find P (xs @ ys) = (case find P xs of None \<Rightarrow> find P ys | Some x \<Rightarrow> Some x)"
  by (induction xs) auto

lemma set_map_filter: "set (List.map_filter f xs) = {y. \<exists>x\<in>set xs. f x = Some y}"
  by (induction xs) (auto simp: List.map_filter_def split: option.splits)

lemma map_insort_key: "map f (insort_key f x xs) = insort (f x) (map f xs)"
  by (induction xs) auto

lemma map_sort_key: "map f (sort_key f xs) = sort (map f xs)"
  by (induction xs) (auto simp: map_insort_key)

lemma sorted_wrt_append_iff:
  "sorted_wrt P (xs @ ys) \<longleftrightarrow> sorted_wrt P xs \<and> sorted_wrt P ys \<and> (\<forall>x\<in>set xs. \<forall>y\<in>set ys. P x y)"
  by (rule sorted_wrt_append)

end
