(* ===== verification/CausalLog.thy ===== *)
theory CausalLog
  imports Prelude
begin

text \<open>
  The interface between a replicated document and its operation log. A replica is a state that
  executes operations one at a time. Two operations are \<^emph>\<open>related\<close> when one must be executed
  before the other (an insert before the operations that refer to the element it creates); the
  law a document type promises is that unrelated operations commute. From that law alone follows
  what the co-editing documents claim: two logs with the same operations, each in an order that
  respects the relation, replay to the same state.
\<close>

locale causal_log =
  fixes exec :: "'s \<Rightarrow> 'o \<Rightarrow> 's"
    and before :: "'o \<Rightarrow> 'o \<Rightarrow> bool"
    and apart :: "'o \<Rightarrow> 'o \<Rightarrow> bool"
  assumes commute: "apart a b \<Longrightarrow> \<not> before a b \<Longrightarrow> \<not> before b a \<Longrightarrow>
      exec (exec s a) b = exec (exec s b) a"
begin

abbreviation in_order :: "'o list \<Rightarrow> bool" where
  "in_order xs \<equiv> sorted_wrt (\<lambda>x y. \<not> before y x) xs"

lemma exec_past:
  assumes "\<forall>a\<in>set as. apart x a \<and> \<not> before x a \<and> \<not> before a x"
  shows "foldl exec (exec s x) as = exec (foldl exec s as) x"
  using assms by (induction as arbitrary: s) (simp_all add: commute)

theorem replay_unique:
  assumes "distinct xs" "distinct ys" "set xs = set ys"
    and "in_order xs" "in_order ys"
    and "\<And>a b. a \<in> set xs \<Longrightarrow> b \<in> set xs \<Longrightarrow> a \<noteq> b \<Longrightarrow> apart a b"
  shows "foldl exec s xs = foldl exec s ys"
  using assms
proof (induction xs arbitrary: ys s)
  case Nil
  then show ?case by simp
next
  case (Cons x xs)
  from Cons.prems(3) have "x \<in> set ys" by auto
  then obtain as bs where ys: "ys = as @ x # bs" by (auto dest: split_list)
  from Cons.prems(2) ys have "set (as @ bs) = set ys - {x}" by auto
  with Cons.prems(1,3) have sub: "set (as @ bs) = set xs" by auto
  have front: "\<forall>a\<in>set as. apart x a \<and> \<not> before x a \<and> \<not> before a x"
  proof
    fix a assume a: "a \<in> set as"
    with sub have "a \<in> set xs" by auto
    moreover from a Cons.prems(5) ys have "\<not> before x a"
      by (auto simp: sorted_wrt_append_iff)
    moreover from a ys Cons.prems(2) have "a \<noteq> x" by auto
    ultimately show "apart x a \<and> \<not> before x a \<and> \<not> before a x"
      using Cons.prems(4,6) by auto
  qed
  have "foldl exec (exec s x) xs = foldl exec (exec s x) (as @ bs)"
  proof (rule Cons.IH)
    show "distinct xs" "distinct (as @ bs)" "set xs = set (as @ bs)" "in_order xs"
      using Cons.prems ys sub by auto
    show "in_order (as @ bs)"
      using Cons.prems(5) ys by (auto simp: sorted_wrt_append_iff)
    show "\<And>a b. a \<in> set xs \<Longrightarrow> b \<in> set xs \<Longrightarrow> a \<noteq> b \<Longrightarrow> apart a b"
      using Cons.prems(6) by auto
  qed
  also have "\<dots> = foldl exec s ys"
    using exec_past [OF front] ys by simp
  finally show ?case by simp
qed

end

end
