(* ===== verification/Rga.thy ===== *)
theory Rga
  imports Prelude CausalLog "HOL-Library.Word"
begin

text \<open>
  The text document of \<^verbatim>\<open>packages/collab/src/rga.ts\<close>: a replicated growable array with tombstones,
  causal buffering, a Lamport counter, a state vector and an operation log. The class
  \<^verbatim>\<open>RgaDoc\<close> is the record \<open>rga_doc\<close>, a field per private field; each method is a function from
  the document to the document and its result.

  Counters are natural numbers. The text an operation carries is a list of UTF-16 code units,
  as a JavaScript string is. Site ids that are names of members every JavaScript object
  inherits (\<^verbatim>\<open>constructor\<close>) are outside the model: the state vector is a plain object there.
\<close>

section \<open>Identifiers\<close>

datatype rga_id = RgaId (id_counter: nat) (id_site: string)

definition idGreater :: "rga_id \<Rightarrow> rga_id \<Rightarrow> bool" where
  "idGreater a b =
     (if id_counter a \<noteq> id_counter b then id_counter a > id_counter b
      else id_site a > id_site b)"

definition idEqual :: "rga_id \<Rightarrow> rga_id \<Rightarrow> bool" where
  "idEqual a b \<longleftrightarrow> id_counter a = id_counter b \<and> id_site a = id_site b"

definition idKey :: "rga_id \<Rightarrow> string" where
  "idKey i = nat_str (id_counter i) @ ''@'' @ id_site i"

lemma idGreater_iff:
  "idGreater a b \<longleftrightarrow> id_counter b < id_counter a \<or> id_counter a = id_counter b \<and> id_site b < id_site a"
  by (auto simp: idGreater_def)

text \<open>The order the document sorts by is a linear order, the one \<open>idGreater\<close> decides.\<close>

instantiation rga_id :: linorder
begin

definition less_rga_id :: "rga_id \<Rightarrow> rga_id \<Rightarrow> bool" where
  "less_rga_id a b \<longleftrightarrow> idGreater b a"

definition less_eq_rga_id :: "rga_id \<Rightarrow> rga_id \<Rightarrow> bool" where
  "less_eq_rga_id a b \<longleftrightarrow> a = b \<or> idGreater b a"

instance
proof
  fix x y z :: rga_id
  show "x < y \<longleftrightarrow> x \<le> y \<and> \<not> y \<le> x"
    by (cases x; cases y) (auto simp: less_rga_id_def less_eq_rga_id_def idGreater_iff)
  show "x \<le> x" by (simp add: less_eq_rga_id_def)
  show "x \<le> z" if "x \<le> y" "y \<le> z"
    using that by (cases x; cases y; cases z) (simp add: less_eq_rga_id_def idGreater_iff, meson less_trans)
  show "x = y" if "x \<le> y" "y \<le> x"
    using that by (cases x; cases y) (simp add: less_eq_rga_id_def idGreater_iff, meson less_asym)
  show "x \<le> y \<or> y \<le> x"
    by (cases x; cases y) (simp add: less_eq_rga_id_def idGreater_iff, meson less_linear)
qed

end

lemma less_rga_id_iff:
  "a < b \<longleftrightarrow> id_counter a < id_counter b \<or> id_counter b = id_counter a \<and> id_site a < id_site b"
  by (simp only: less_rga_id_def idGreater_iff)

lemma idGreater_less [simp]: "idGreater a b \<longleftrightarrow> b < a"
  by (simp add: less_rga_id_def)

lemma idEqual_eq [simp]: "idEqual a b \<longleftrightarrow> a = b"
  by (cases a; cases b) (simp add: idEqual_def)

lemma less_rga_id_counter: "id_counter a < id_counter b \<Longrightarrow> a < b"
  by (simp add: less_rga_id_iff)

lemma idKey_inj [simp]: "idKey a = idKey b \<longleftrightarrow> a = b"
proof -
  have at: "CHR ''@'' \<notin> set (nat_str n)" for n
    using nat_str_digits [of "CHR ''@''" n] digit_char_neq [of _ "CHR ''@''"] by force
  have "idKey a = idKey b \<longleftrightarrow> nat_str (id_counter a) = nat_str (id_counter b) \<and> id_site a = id_site b"
    using append_sep_eq [OF at at] by (simp add: idKey_def)
  then show ?thesis by (cases a; cases b) (simp add: inj_nat_str)
qed

section \<open>Operations, nodes and the document\<close>

type_synonym u16 = "16 word"

record ins_op =
  io_id :: rga_id
  io_origin :: "rga_id option"
  io_value :: "u16 list"

record del_op =
  do_opId :: rga_id
  do_target :: rga_id

datatype rga_op = Ins ins_op | Del del_op

fun opIdOf :: "rga_op \<Rightarrow> rga_id" where
  "opIdOf (Ins p) = io_id p"
| "opIdOf (Del p) = do_opId p"

record rga_node =
  rn_id :: rga_id
  rn_value :: "u16 list"
  rn_origin :: "rga_id option"
  rn_deleted :: bool

type_synonym state_vector = "string \<rightharpoonup> nat"

record rga_doc =
  rd_site :: string
  rd_counter :: nat
  rd_nodes :: "rga_node list"
  rd_byId :: "string \<rightharpoonup> nat"
  rd_buffer :: "ins_op list"
  rd_delBuffer :: "del_op list"
  rd_applied :: "string set"
  rd_seen :: state_vector
  rd_log :: "rga_op list"

datatype rga_error = EmptySiteId | NotOneCharacter

definition rga_empty :: "string \<Rightarrow> rga_doc" where
  "rga_empty site = \<lparr>rd_site = site, rd_counter = 0, rd_nodes = [], rd_byId = Map.empty,
     rd_buffer = [], rd_delBuffer = [], rd_applied = {}, rd_seen = Map.empty, rd_log = []\<rparr>"

definition rga_new :: "string \<Rightarrow> rga_error + rga_doc" where
  "rga_new site = (if site = [] then Inl EmptySiteId else Inr (rga_empty site))"

section \<open>Reads\<close>

definition rga_text :: "rga_doc \<Rightarrow> u16 list" where
  "rga_text d = concat (map rn_value (filter (\<lambda>n. \<not> rn_deleted n) (rd_nodes d)))"

definition rga_length :: "rga_doc \<Rightarrow> nat" where
  "rga_length d = length (filter (\<lambda>n. \<not> rn_deleted n) (rd_nodes d))"

text \<open>The first loop of \<^verbatim>\<open>idAtVisibleIndex\<close>, then its fallback from the right end.\<close>

fun visible_loop :: "rga_node list \<Rightarrow> int \<Rightarrow> int \<Rightarrow> rga_id option" where
  "visible_loop [] visible index = None"
| "visible_loop (n # ns) visible index =
     (if rn_deleted n then visible_loop ns visible index
      else if visible + 1 = index then Some (rn_id n)
      else visible_loop ns (visible + 1) index)"

definition last_visible :: "rga_node list \<Rightarrow> rga_id option" where
  "last_visible ns = map_option rn_id (find (\<lambda>n. \<not> rn_deleted n) (rev ns))"

definition idAtVisibleIndex :: "rga_doc \<Rightarrow> int \<Rightarrow> rga_id option" where
  "idAtVisibleIndex d index =
     (if index \<le> 0 then None
      else case visible_loop (rd_nodes d) 0 index of
          Some i \<Rightarrow> Some i
        | None \<Rightarrow> last_visible (rd_nodes d))"

definition rga_stateVector :: "rga_doc \<Rightarrow> state_vector" where
  "rga_stateVector d = rd_seen d"

definition rga_hasId :: "rga_doc \<Rightarrow> rga_id \<Rightarrow> bool" where
  "rga_hasId d i \<longleftrightarrow> rd_byId d (idKey i) \<noteq> None"

fun visible_upto :: "rga_node list \<Rightarrow> nat \<Rightarrow> nat \<Rightarrow> nat \<Rightarrow> nat" where
  "visible_upto [] i idx visible = visible"
| "visible_upto (n # ns) i idx visible =
     (if i = idx then visible + (if rn_deleted n then 0 else 1)
      else visible_upto ns (Suc i) idx (if rn_deleted n then visible else Suc visible))"

definition visibleIndexOfId :: "rga_doc \<Rightarrow> rga_id \<Rightarrow> nat" where
  "visibleIndexOfId d i =
     (case rd_byId d (idKey i) of
        None \<Rightarrow> rga_length d
      | Some idx \<Rightarrow> visible_upto (rd_nodes d) 0 idx 0)"

section \<open>Applying operations\<close>

fun reindex_from :: "nat \<Rightarrow> rga_node list \<Rightarrow> (string \<rightharpoonup> nat) \<Rightarrow> (string \<rightharpoonup> nat)" where
  "reindex_from i [] m = m"
| "reindex_from i (n # ns) m = reindex_from (Suc i) ns (m(idKey (rn_id n) \<mapsto> i))"

definition reindex :: "rga_node list \<Rightarrow> (string \<rightharpoonup> nat)" where
  "reindex ns = reindex_from 0 ns Map.empty"

text \<open>The scan of \<^verbatim>\<open>#integrate\<close>: walk right over the elements with a greater id.\<close>

function skip_greater :: "rga_node list \<Rightarrow> rga_id \<Rightarrow> nat \<Rightarrow> nat" where
  "skip_greater ns oid i =
     (if i < length ns \<and> idGreater (rn_id (ns ! i)) oid then skip_greater ns oid (Suc i) else i)"
  by pat_completeness auto
termination
  by (relation "measure (\<lambda>(ns, oid, i). length ns - i)") auto

declare skip_greater.simps [simp del]

definition new_node :: "ins_op \<Rightarrow> rga_node" where
  "new_node p = \<lparr>rn_id = io_id p, rn_value = io_value p, rn_origin = io_origin p, rn_deleted = False\<rparr>"

text \<open>
  The code reads the origin's index with a non-null assertion; every caller has checked that the
  origin is there. (Were it not, the index would be \<^verbatim>\<open>NaN\<close>, which \<^verbatim>\<open>splice\<close> reads as 0.)
\<close>

definition integrate :: "rga_doc \<Rightarrow> ins_op \<Rightarrow> rga_doc" where
  "integrate d p =
     (let start = (case io_origin p of
                     None \<Rightarrow> 0
                   | Some r \<Rightarrow> (case rd_byId d (idKey r) of None \<Rightarrow> 0 | Some j \<Rightarrow> j + 1));
          i = skip_greater (rd_nodes d) (io_id p) start;
          ns = splice_in i (new_node p) (rd_nodes d)
      in d\<lparr>rd_nodes := ns, rd_byId := reindex ns\<rparr>)"

definition rga_record :: "rga_doc \<Rightarrow> rga_op \<Rightarrow> rga_doc" where
  "rga_record d p =
     (let i = opIdOf p in
      d\<lparr>rd_applied := insert (idKey i) (rd_applied d),
        rd_seen := (rd_seen d)(id_site i \<mapsto> max (nullish (rd_seen d (id_site i)) 0) (id_counter i)),
        rd_counter := max (rd_counter d) (id_counter i),
        rd_log := rd_log d @ [p]\<rparr>)"

definition tombstone :: "rga_doc \<Rightarrow> nat \<Rightarrow> rga_doc" where
  "tombstone d idx = d\<lparr>rd_nodes := (rd_nodes d)[idx := (rd_nodes d ! idx)\<lparr>rn_deleted := True\<rparr>]\<rparr>"

definition origin_here :: "rga_doc \<Rightarrow> ins_op \<Rightarrow> bool" where
  "origin_here d p \<longleftrightarrow>
     (case io_origin p of None \<Rightarrow> True | Some r \<Rightarrow> rd_byId d (idKey r) \<noteq> None)"

text \<open>
  One pass of \<^verbatim>\<open>#drainBuffer\<close> over each buffer, front to back: the document, what stays buffered
  and whether something left the buffer.
\<close>

fun drain_ins :: "rga_doc \<Rightarrow> ins_op list \<Rightarrow> rga_doc \<times> ins_op list \<times> bool" where
  "drain_ins d [] = (d, [], False)"
| "drain_ins d (p # ps) =
     (if origin_here d p then
        let d' = (if idKey (io_id p) \<notin> rd_applied d \<and> rd_byId d (idKey (io_id p)) = None
                  then rga_record (integrate d p) (Ins p) else d);
            (d'', kept, _) = drain_ins d' ps
        in (d'', kept, True)
      else
        let (d'', kept, progressed) = drain_ins d ps in (d'', p # kept, progressed))"

fun drain_del :: "rga_doc \<Rightarrow> del_op list \<Rightarrow> rga_doc \<times> del_op list \<times> bool" where
  "drain_del d [] = (d, [], False)"
| "drain_del d (p # ps) =
     (case rd_byId d (idKey (do_target p)) of
        Some idx \<Rightarrow>
          let d' = (if idKey (do_opId p) \<notin> rd_applied d
                    then rga_record (tombstone d idx) (Del p) else d);
              (d'', kept, _) = drain_del d' ps
          in (d'', kept, True)
      | None \<Rightarrow>
          let (d'', kept, progressed) = drain_del d ps in (d'', p # kept, progressed))"

definition drain_pass :: "rga_doc \<Rightarrow> rga_doc \<times> bool" where
  "drain_pass d =
     (let (d1, ins, p1) = drain_ins d (rd_buffer d);
          d2 = d1\<lparr>rd_buffer := ins\<rparr>;
          (d3, dels, p2) = drain_del d2 (rd_delBuffer d2)
      in (d3\<lparr>rd_delBuffer := dels\<rparr>, p1 \<or> p2))"

lemma buffers_record [simp]:
  "rd_buffer (rga_record d p) = rd_buffer d" "rd_delBuffer (rga_record d p) = rd_delBuffer d"
  "rd_buffer (integrate d q) = rd_buffer d" "rd_delBuffer (integrate d q) = rd_delBuffer d"
  "rd_buffer (tombstone d i) = rd_buffer d" "rd_delBuffer (tombstone d i) = rd_delBuffer d"
  by (simp_all add: rga_record_def integrate_def tombstone_def Let_def)

lemma drain_ins_buffers:
  assumes "drain_ins d ps = (d', kept, pr)"
  shows "rd_buffer d' = rd_buffer d \<and> rd_delBuffer d' = rd_delBuffer d \<and>
    length kept \<le> length ps \<and> (pr \<longrightarrow> length kept < length ps) \<and> set kept \<subseteq> set ps"
  using assms
  by (induction d ps arbitrary: d' kept pr rule: drain_ins.induct)
     (fastforce simp: Let_def split: if_splits prod.splits)+

lemma drain_del_buffers:
  assumes "drain_del d ps = (d', kept, pr)"
  shows "rd_buffer d' = rd_buffer d \<and> rd_delBuffer d' = rd_delBuffer d \<and>
    length kept \<le> length ps \<and> (pr \<longrightarrow> length kept < length ps) \<and> set kept \<subseteq> set ps"
  using assms
  by (induction d ps arbitrary: d' kept pr rule: drain_del.induct)
     (fastforce simp: Let_def split: if_splits prod.splits option.splits)+

lemma drain_pass_shrinks:
  assumes "drain_pass d = (d', True)"
  shows "length (rd_buffer d') + length (rd_delBuffer d') < length (rd_buffer d) + length (rd_delBuffer d)"
proof -
  obtain d1 ins p1 where 1: "drain_ins d (rd_buffer d) = (d1, ins, p1)" by (metis prod_cases3)
  obtain d3 dels p2 where 3: "drain_del (d1\<lparr>rd_buffer := ins\<rparr>) (rd_delBuffer d1) = (d3, dels, p2)"
    by (metis prod_cases3)
  from assms 1 3 have "d' = d3\<lparr>rd_delBuffer := dels\<rparr>" "p1 \<or> p2"
    by (auto simp: drain_pass_def)
  with drain_ins_buffers [OF 1] drain_del_buffers [OF 3] show ?thesis by auto
qed

function drainBuffer :: "rga_doc \<Rightarrow> rga_doc" where
  "drainBuffer d = (let (d', progressed) = drain_pass d in if progressed then drainBuffer d' else d')"
  by pat_completeness auto
termination
  by (relation "measure (\<lambda>d. length (rd_buffer d) + length (rd_delBuffer d))")
     (auto dest: drain_pass_shrinks [OF sym])

declare drainBuffer.simps [simp del]

fun rga_apply :: "rga_doc \<Rightarrow> rga_op \<Rightarrow> rga_doc \<times> bool" where
  "rga_apply d (Del p) =
     (if idKey (do_opId p) \<in> rd_applied d then (d, False)
      else case rd_byId d (idKey (do_target p)) of
          None \<Rightarrow> (d\<lparr>rd_delBuffer := rd_delBuffer d @ [p]\<rparr>, False)
        | Some idx \<Rightarrow> (rga_record (tombstone d idx) (Del p), True))"
| "rga_apply d (Ins p) =
     (if idKey (io_id p) \<in> rd_applied d then (d, False)
      else if rd_byId d (idKey (io_id p)) \<noteq> None
      then (d\<lparr>rd_applied := insert (idKey (io_id p)) (rd_applied d)\<rparr>, False)
      else if \<not> origin_here d p then (d\<lparr>rd_buffer := rd_buffer d @ [p]\<rparr>, False)
      else (drainBuffer (rga_record (integrate d p) (Ins p)), True))"

fun applyMany :: "rga_doc \<Rightarrow> rga_op list \<Rightarrow> rga_doc \<times> nat" where
  "applyMany d [] = (d, 0)"
| "applyMany d (p # ps) =
     (let (d', landed) = rga_apply d p; (d'', n) = applyMany d' ps
      in (d'', (if landed then Suc n else n)))"

section \<open>Local edits\<close>

definition localInsert :: "rga_doc \<Rightarrow> int \<Rightarrow> u16 list \<Rightarrow> rga_doc \<times> (rga_error + ins_op)" where
  "localInsert d index value =
     (if length value \<noteq> 1 then (d, Inl NotOneCharacter)
      else let p = \<lparr>io_id = RgaId (rd_counter d + 1) (rd_site d),
                    io_origin = idAtVisibleIndex d index, io_value = value\<rparr>
           in (fst (rga_apply d (Ins p)), Inr p))"

text \<open>\<^verbatim>\<open>[...text]\<close> walks a string by code points: a surrogate pair is one element of two units.\<close>

definition high_surrogate :: "u16 \<Rightarrow> bool" where
  "high_surrogate u \<longleftrightarrow> 0xD800 \<le> u \<and> u < 0xDC00"

definition low_surrogate :: "u16 \<Rightarrow> bool" where
  "low_surrogate u \<longleftrightarrow> 0xDC00 \<le> u \<and> u < 0xE000"

fun code_points :: "u16 list \<Rightarrow> u16 list list" where
  "code_points [] = []"
| "code_points [u] = [[u]]"
| "code_points (u # v # us) =
     (if high_surrogate u \<and> low_surrogate v then [u, v] # code_points us
      else [u] # code_points (v # us))"

text \<open>An insertion that throws leaves the characters inserted before it in the document.\<close>

fun insert_chars :: "rga_doc \<Rightarrow> int \<Rightarrow> u16 list list \<Rightarrow> rga_op list \<Rightarrow> rga_doc \<times> (rga_error + rga_op list)" where
  "insert_chars d at [] ops = (d, Inr ops)"
| "insert_chars d at (ch # chs) ops =
     (case localInsert d at ch of
        (d', Inl e) \<Rightarrow> (d', Inl e)
      | (d', Inr p) \<Rightarrow> insert_chars d' (at + 1) chs (ops @ [Ins p]))"

definition localInsertText :: "rga_doc \<Rightarrow> int \<Rightarrow> u16 list \<Rightarrow> rga_doc \<times> (rga_error + rga_op list)" where
  "localInsertText d index text = insert_chars d index (code_points text) []"

definition localDelete :: "rga_doc \<Rightarrow> int \<Rightarrow> rga_doc \<times> del_op option" where
  "localDelete d index =
     (case idAtVisibleIndex d (index + 1) of
        None \<Rightarrow> (d, None)
      | Some target \<Rightarrow>
          let p = \<lparr>do_opId = RgaId (rd_counter d + 1) (rd_site d), do_target = target\<rparr>
          in (fst (rga_apply d (Del p)), Some p))"

section \<open>Sync and snapshots\<close>

definition rga_opsSince :: "rga_doc \<Rightarrow> state_vector \<Rightarrow> rga_op list" where
  "rga_opsSince d since =
     filter (\<lambda>p. id_counter (opIdOf p) > nullish (since (id_site (opIdOf p))) 0) (rd_log d)"

definition rga_snapshot :: "rga_doc \<Rightarrow> rga_node list" where
  "rga_snapshot d = rd_nodes d"

text \<open>The loop of \<^verbatim>\<open>fromSnapshot\<close>; its second component is \<^verbatim>\<open>snapDelCounter\<close>.\<close>

definition load_node :: "rga_doc \<times> nat \<Rightarrow> rga_node \<Rightarrow> rga_doc \<times> nat" where
  "load_node s n =
     (let (d, c) = s;
          i = rn_id n;
          d1 = d\<lparr>rd_applied := insert (idKey i) (rd_applied d),
                 rd_seen := (rd_seen d)(id_site i \<mapsto> max (nullish (rd_seen d (id_site i)) 0) (id_counter i)),
                 rd_counter := max (rd_counter d) (id_counter i),
                 rd_log := rd_log d @ [Ins \<lparr>io_id = i, io_origin = rn_origin n, io_value = rn_value n\<rparr>]\<rparr>;
          sid = RgaId (c + 1) (''__snap__:'' @ rd_site d)
      in if rn_deleted n
         then (d1\<lparr>rd_applied := insert (idKey sid) (rd_applied d1),
                  rd_seen := (rd_seen d1)(id_site sid \<mapsto> id_counter sid),
                  rd_log := rd_log d1 @ [Del \<lparr>do_opId = sid, do_target = i\<rparr>]\<rparr>, c + 1)
         else (d1, c))"

definition rga_fromSnapshot :: "string \<Rightarrow> rga_node list \<Rightarrow> rga_error + rga_doc" where
  "rga_fromSnapshot site snap =
     (case rga_new site of
        Inl e \<Rightarrow> Inl e
      | Inr d \<Rightarrow> Inr (fst (foldl load_node (d\<lparr>rd_nodes := snap, rd_byId := reindex snap\<rparr>, 0) snap)))"

end
