(* ===== verification/RgaLists.thy ===== *)
theory RgaLists
  imports Rga
begin

text \<open>
  The array of nodes as a list. \<open>place\<close> is the specification of \<open>integrate\<close> without indices:
  go to the origin, then past the greater ids. It and the tombstone commute the way the
  \<open>causal_log\<close> interface asks, whatever the list is.
\<close>

section \<open>Placing a node\<close>

fun skip_in :: "rga_node \<Rightarrow> rga_node list \<Rightarrow> rga_node list" where
  "skip_in n [] = [n]"
| "skip_in n (m # ms) = (if rn_id n < rn_id m then m # skip_in n ms else n # m # ms)"

fun place :: "rga_id option \<Rightarrow> rga_node \<Rightarrow> rga_node list \<Rightarrow> rga_node list" where
  "place None n ns = skip_in n ns"
| "place (Some r) n [] = []"
| "place (Some r) n (m # ms) = (if rn_id m = r then m # skip_in n ms else m # place (Some r) n ms)"

definition hide :: "rga_id \<Rightarrow> rga_node list \<Rightarrow> rga_node list" where
  "hide t ns = map (\<lambda>n. if rn_id n = t then n\<lparr>rn_deleted := True\<rparr> else n) ns"

fun rga_exec :: "rga_node list \<Rightarrow> rga_op \<Rightarrow> rga_node list" where
  "rga_exec ns (Ins p) = place (io_origin p) (new_node p) ns"
| "rga_exec ns (Del p) = hide (do_target p) ns"

text \<open>\<open>rga_before a b\<close>: \<open>b\<close> refers to the element \<open>a\<close> creates.\<close>

fun rga_before :: "rga_op \<Rightarrow> rga_op \<Rightarrow> bool" where
  "rga_before (Ins p) (Ins q) \<longleftrightarrow> io_origin q = Some (io_id p)"
| "rga_before (Ins p) (Del q) \<longleftrightarrow> do_target q = io_id p"
| "rga_before (Del p) b \<longleftrightarrow> False"

definition rga_apart :: "rga_op \<Rightarrow> rga_op \<Rightarrow> bool" where
  "rga_apart a b \<longleftrightarrow> opIdOf a \<noteq> opIdOf b"

lemma rn_id_new_node [simp]: "rn_id (new_node p) = io_id p"
  by (simp add: new_node_def)

lemma skip_in_commute:
  "rn_id n \<noteq> rn_id m \<Longrightarrow> skip_in n (skip_in m ns) = skip_in m (skip_in n ns)"
  by (induction ns) auto

lemma place_skip_in:
  "r \<noteq> Some (rn_id m) \<Longrightarrow> rn_id n \<noteq> rn_id m \<Longrightarrow>
   place r n (skip_in m ns) = skip_in m (place r n ns)"
  by (cases r; induction ns) (auto simp: skip_in_commute)

lemma place_commute:
  assumes ne: "rn_id n \<noteq> rn_id m" and r: "r \<noteq> Some (rn_id m)" and q: "q \<noteq> Some (rn_id n)"
  shows "place r n (place q m ns) = place q m (place r n ns)"
proof -
  note past_m = place_skip_in [OF r ne] and past_n = place_skip_in [OF q ne [symmetric]]
  show ?thesis
  proof (induction ns)
    case Nil
    from past_m [of "[]"] past_n [of "[]"] show ?case
      by (cases r; cases q) (simp_all add: skip_in_commute [OF ne])
  next
    case (Cons x ns)
    from past_m [of ns] past_n [of ns] past_m [of "x # ns"] past_n [of "x # ns"] Cons.IH show ?case
      by (cases r; cases q) (simp_all add: skip_in_commute [OF ne])
  qed
qed

lemma hide_Nil [simp]: "hide t [] = []"
  by (simp add: hide_def)

lemma hide_Cons:
  "hide t (n # ns) = (if rn_id n = t then n\<lparr>rn_deleted := True\<rparr> else n) # hide t ns"
  by (simp add: hide_def)

lemma hide_commute: "hide s (hide t ns) = hide t (hide s ns)"
  by (induction ns) (auto simp: hide_def)

lemma hide_skip_in: "rn_id n \<noteq> t \<Longrightarrow> hide t (skip_in n ns) = skip_in n (hide t ns)"
  by (induction ns) (auto simp: hide_def)

lemma hide_place: "rn_id n \<noteq> t \<Longrightarrow> hide t (place r n ns) = place r n (hide t ns)"
proof (induction r n ns rule: place.induct)
  case (3 i n m ns)
  then show ?case by (cases "rn_id m = t"; cases "rn_id m = i") (simp_all add: hide_Cons hide_skip_in)
qed (simp_all add: hide_skip_in hide_Nil)

interpretation rga_log: causal_log rga_exec rga_before rga_apart
proof
  fix a b s
  assume "rga_apart a b" "\<not> rga_before a b" "\<not> rga_before b a"
  then show "rga_exec (rga_exec s a) b = rga_exec (rga_exec s b) a"
    by (cases a; cases b) (auto simp: rga_apart_def place_commute hide_commute hide_place)
qed

section \<open>What placing keeps\<close>

lemma set_skip_in [simp]: "set (skip_in n ns) = insert n (set ns)"
  by (induction ns) auto

lemma set_place: "(case r of None \<Rightarrow> True | Some i \<Rightarrow> i \<in> rn_id ` set ns) \<Longrightarrow> set (place r n ns) = insert n (set ns)"
  by (induction r n ns rule: place.induct) auto

lemma distinct_skip_in: "distinct (map rn_id (skip_in n ns)) \<longleftrightarrow> rn_id n \<notin> rn_id ` set ns \<and> distinct (map rn_id ns)"
  by (induction ns) auto

lemma map_id_hide [simp]: "map rn_id (hide t ns) = map rn_id ns"
  by (simp add: hide_def)

lemma set_id_hide [simp]: "rn_id ` set (hide t ns) = rn_id ` set ns"
  by (metis image_set map_id_hide)

section \<open>The index\<close>

lemma reindex_from_other:
  "k \<notin> idKey ` rn_id ` set ns \<Longrightarrow> reindex_from i ns m k = m k"
  by (induction ns arbitrary: i m) auto

lemma reindex_from_nth:
  "\<lbrakk>distinct (map rn_id ns); j < length ns\<rbrakk> \<Longrightarrow>
   reindex_from i ns m (idKey (rn_id (ns ! j))) = Some (i + j)"
proof (induction ns arbitrary: i j m)
  case Nil
  then show ?case by simp
next
  case (Cons n ns)
  then show ?case by (cases j) (auto simp: reindex_from_other image_iff)
qed

lemma reindex_nth:
  "\<lbrakk>distinct (map rn_id ns); j < length ns\<rbrakk> \<Longrightarrow> reindex ns (idKey (rn_id (ns ! j))) = Some j"
  by (simp add: reindex_def reindex_from_nth)

lemma reindex_eq_None:
  assumes "distinct (map rn_id ns)"
  shows "reindex ns (idKey a) = None \<longleftrightarrow> a \<notin> rn_id ` set ns"
proof (cases "a \<in> rn_id ` set ns")
  case True
  then obtain j where "j < length ns" "a = rn_id (ns ! j)" by (metis imageE in_set_conv_nth)
  with True show ?thesis using reindex_nth [OF assms] by simp
next
  case False
  then show ?thesis by (auto simp: reindex_def reindex_from_other image_iff)
qed

lemma reindex_SomeD:
  assumes "distinct (map rn_id ns)" "reindex ns (idKey a) = Some j"
  shows "j < length ns \<and> rn_id (ns ! j) = a"
proof -
  from assms have "a \<in> rn_id ` set ns" by (metis option.distinct(1) reindex_eq_None)
  then obtain i where i: "i < length ns" "a = rn_id (ns ! i)" by (metis imageE in_set_conv_nth)
  with assms show ?thesis using reindex_nth [of ns i] by simp
qed

section \<open>The code's scan places the node\<close>

lemma skip_greater_takeWhile:
  "i \<le> length ns \<Longrightarrow>
   skip_greater ns oid i = i + length (takeWhile (\<lambda>m. oid < rn_id m) (drop i ns))"
proof (induction ns oid i rule: skip_greater.induct)
  case (1 ns oid i)
  show ?case
  proof (cases "i < length ns \<and> oid < rn_id (ns ! i)")
    case True
    with 1 show ?thesis
      by (simp add: skip_greater.simps [of ns oid i] Cons_nth_drop_Suc [symmetric])
  next
    case False
    then have "skip_greater ns oid i = i" by (auto simp: skip_greater.simps [of ns oid i])
    moreover have "takeWhile (\<lambda>m. oid < rn_id m) (drop i ns) = []"
      using False by (cases "i < length ns") (auto simp: Cons_nth_drop_Suc [symmetric])
    ultimately show ?thesis by simp
  qed
qed

lemma skip_in_eq:
  "skip_in n ns = takeWhile (\<lambda>m. rn_id n < rn_id m) ns @ n # dropWhile (\<lambda>m. rn_id n < rn_id m) ns"
  by (induction ns) auto

lemma splice_skip:
  assumes "i \<le> length ns"
  shows "splice_in (skip_greater ns (rn_id n) i) n ns = take i ns @ skip_in n (drop i ns)"
proof -
  define tw where "tw = takeWhile (\<lambda>m. rn_id n < rn_id m) (drop i ns)"
  have "take (i + length tw) ns = take i ns @ tw"
    unfolding take_add by (simp only: tw_def takeWhile_eq_take [symmetric])
  moreover have "drop (i + length tw) ns = dropWhile (\<lambda>m. rn_id n < rn_id m) (drop i ns)"
    unfolding dropWhile_eq_drop tw_def by (simp add: add.commute)
  moreover have "skip_greater ns (rn_id n) i = i + length tw"
    using assms by (simp only: skip_greater_takeWhile tw_def)
  moreover have "skip_in n (drop i ns) = tw @ n # dropWhile (\<lambda>m. rn_id n < rn_id m) (drop i ns)"
    by (simp only: skip_in_eq tw_def)
  ultimately show ?thesis
    by (simp only: splice_in_def append_assoc)
qed

lemma place_at:
  "\<lbrakk>j < length ns; distinct (map rn_id ns)\<rbrakk> \<Longrightarrow>
   place (Some (rn_id (ns ! j))) n ns = take (Suc j) ns @ skip_in n (drop (Suc j) ns)"
proof (induction ns arbitrary: j)
  case Nil
  then show ?case by simp
next
  case (Cons m ms)
  then show ?case by (cases j) auto
qed

lemma integrate_nodes:
  assumes "distinct (map rn_id (rd_nodes d))" "rd_byId d = reindex (rd_nodes d)" "origin_here d p"
  shows "rd_nodes (integrate d p) = place (io_origin p) (new_node p) (rd_nodes d)"
proof (cases "io_origin p")
  case None
  then show ?thesis
    using splice_skip [of 0 "rd_nodes d" "new_node p"] by (simp add: integrate_def Let_def)
next
  case (Some r)
  with assms(3) obtain j where j: "rd_byId d (idKey r) = Some j"
    by (auto simp: origin_here_def)
  with assms reindex_SomeD [of "rd_nodes d" r j] have jl: "j < length (rd_nodes d)" and r: "rn_id (rd_nodes d ! j) = r"
    by auto
  have "rd_nodes (integrate d p) = take (Suc j) (rd_nodes d) @ skip_in (new_node p) (drop (Suc j) (rd_nodes d))"
    using Some j jl splice_skip [of "Suc j" "rd_nodes d" "new_node p"]
    by (simp add: integrate_def Let_def)
  also have "\<dots> = place (Some r) (new_node p) (rd_nodes d)"
    using place_at [OF jl assms(1), of "new_node p"] r by simp
  finally show ?thesis by (simp add: Some)
qed

lemma tombstone_nodes:
  assumes "distinct (map rn_id (rd_nodes d))" "rd_byId d = reindex (rd_nodes d)"
    and "rd_byId d (idKey t) = Some j"
  shows "rd_nodes (tombstone d j) = hide t (rd_nodes d)"
proof -
  from assms reindex_SomeD [of "rd_nodes d" t j] have j: "j < length (rd_nodes d)" "rn_id (rd_nodes d ! j) = t"
    by auto
  show ?thesis
  proof (rule nth_equalityI)
    show "length (rd_nodes (tombstone d j)) = length (hide t (rd_nodes d))"
      by (simp add: tombstone_def hide_def)
    fix i assume "i < length (rd_nodes (tombstone d j))"
    then have i: "i < length (rd_nodes d)" by (simp add: tombstone_def)
    with assms(1) j have "rn_id (rd_nodes d ! i) = t \<longleftrightarrow> i = j"
      by (metis distinct_conv_nth length_map nth_map)
    with i j show "rd_nodes (tombstone d j) ! i = hide t (rd_nodes d) ! i"
      by (simp add: tombstone_def hide_def nth_list_update)
  qed
qed

end
