(* ===== verification/RgaConvergence.thy ===== *)
theory RgaConvergence
  imports RgaLists
begin

text \<open>
  Strong eventual consistency of the text document: the invariant every operation of a replica
  keeps, the set of operations a replica has carried out as a function of the set it was given,
  and from both, with the interface \<open>causal_log\<close>, that two replicas given the same operations in
  any order and any number of times hold the same elements.
\<close>

section \<open>The log\<close>

definition log_ids :: "rga_op list \<Rightarrow> rga_id set" where
  "log_ids ps = {io_id p | p. Ins p \<in> set ps}"

fun refers_into :: "rga_id set \<Rightarrow> rga_op \<Rightarrow> bool" where
  "refers_into A (Ins p) \<longleftrightarrow> (case io_origin p of None \<Rightarrow> True | Some r \<Rightarrow> r \<in> A)"
| "refers_into A (Del p) \<longleftrightarrow> do_target p \<in> A"

text \<open>Each operation of a causal log refers to an element the log has created before it.\<close>

definition causal :: "rga_op list \<Rightarrow> bool" where
  "causal ps \<longleftrightarrow> (\<forall>i < length ps. refers_into (log_ids (take i ps)) (ps ! i))"

lemma log_ids_simps [simp]:
  "log_ids [] = {}"
  "log_ids (ps @ qs) = log_ids ps \<union> log_ids qs"
  "log_ids [Ins p] = {io_id p}"
  "log_ids [Del q] = {}"
  by (auto simp: log_ids_def)

lemma log_idsI: "Ins p \<in> set ps \<Longrightarrow> io_id p \<in> log_ids ps"
  by (auto simp: log_ids_def)

lemma log_ids_opIds: "log_ids ps \<subseteq> opIdOf ` set ps"
  by (force simp: log_ids_def)

lemma causal_Nil [simp]: "causal []"
  by (simp add: causal_def)

lemma causal_snoc [simp]: "causal (ps @ [p]) \<longleftrightarrow> causal ps \<and> refers_into (log_ids ps) p"
  by (auto simp: causal_def nth_append less_Suc_eq)

lemma causal_in_order:
  "causal ps \<Longrightarrow> distinct (map opIdOf ps) \<Longrightarrow> rga_log.in_order ps"
proof (induction ps rule: rev_induct)
  case Nil
  then show ?case by simp
next
  case (snoc p ps)
  have "\<not> rga_before p q" if q: "q \<in> set ps" for q
  proof
    assume bef: "rga_before p q"
    from q obtain i where i: "i < length ps" "q = ps ! i" by (auto simp: in_set_conv_nth)
    with snoc.prems(1) have "refers_into (log_ids (take i ps)) q" by (simp only: causal_snoc) (simp add: causal_def)
    with bef have "opIdOf p \<in> log_ids (take i ps)"
      by (cases p; cases q) auto
    with log_ids_opIds [of "take i ps"] have "opIdOf p \<in> opIdOf ` set ps"
      by (auto dest: in_set_takeD)
    with snoc.prems(2) show False by auto
  qed
  with snoc show ?case by (simp add: sorted_wrt_append_iff)
qed

section \<open>The invariant of a replica\<close>

definition seen_ok :: "rga_op list \<Rightarrow> state_vector \<Rightarrow> bool" where
  "seen_ok ps v \<longleftrightarrow>
     (\<forall>s. (v s = None \<longleftrightarrow> (\<forall>p\<in>set ps. id_site (opIdOf p) \<noteq> s)) \<and>
          (\<forall>n. v s = Some n \<longrightarrow> (\<exists>p\<in>set ps. opIdOf p = RgaId n s) \<and>
             (\<forall>p\<in>set ps. id_site (opIdOf p) = s \<longrightarrow> id_counter (opIdOf p) \<le> n)))"

definition counter_ok :: "rga_op list \<Rightarrow> nat \<Rightarrow> bool" where
  "counter_ok ps c \<longleftrightarrow>
     (\<forall>p\<in>set ps. id_counter (opIdOf p) \<le> c) \<and> (c = 0 \<or> (\<exists>p\<in>set ps. id_counter (opIdOf p) = c))"

definition rga_core :: "rga_doc \<Rightarrow> bool" where
  "rga_core d \<longleftrightarrow>
     distinct (map rn_id (rd_nodes d)) \<and>
     rn_id ` set (rd_nodes d) = log_ids (rd_log d) \<and>
     rd_byId d = reindex (rd_nodes d) \<and>
     foldl rga_exec [] (rd_log d) = rd_nodes d \<and>
     distinct (map opIdOf (rd_log d)) \<and>
     causal (rd_log d) \<and>
     rd_applied d = idKey ` opIdOf ` set (rd_log d) \<and>
     seen_ok (rd_log d) (rd_seen d) \<and>
     counter_ok (rd_log d) (rd_counter d)"

definition pending :: "rga_doc \<Rightarrow> rga_op set" where
  "pending d = Ins ` set (rd_buffer d) \<union> Del ` set (rd_delBuffer d)"

text \<open>No buffered operation waits for an element that is there.\<close>

definition quiet :: "rga_doc \<Rightarrow> bool" where
  "quiet d \<longleftrightarrow> (\<forall>p\<in>set (rd_buffer d). \<not> origin_here d p) \<and>
     (\<forall>p\<in>set (rd_delBuffer d). rd_byId d (idKey (do_target p)) = None)"

definition rga_given :: "rga_op set \<Rightarrow> rga_doc \<Rightarrow> bool" where
  "rga_given S d \<longleftrightarrow> rga_core d \<and> set (rd_log d) \<subseteq> S \<and> pending d \<subseteq> S \<and>
     (\<forall>p\<in>S. opIdOf p \<in> opIdOf ` set (rd_log d) \<or> p \<in> pending d)"

lemma core_buffers [simp]:
  "rga_core (d\<lparr>rd_buffer := x\<rparr>) = rga_core d" "rga_core (d\<lparr>rd_delBuffer := y\<rparr>) = rga_core d"
  by (simp_all add: rga_core_def)

lemma core_byId: "rga_core d \<Longrightarrow> rd_byId d (idKey a) = None \<longleftrightarrow> a \<notin> log_ids (rd_log d)"
  by (simp add: rga_core_def reindex_eq_None)

lemma core_applied: "rga_core d \<Longrightarrow> idKey a \<in> rd_applied d \<longleftrightarrow> a \<in> opIdOf ` set (rd_log d)"
  by (auto simp: rga_core_def)

lemma core_origin_here:
  "rga_core d \<Longrightarrow> origin_here d p \<longleftrightarrow> refers_into (log_ids (rd_log d)) (Ins p)"
  by (auto simp: origin_here_def core_byId split: option.splits)

lemma record_simps [simp]:
  "rd_nodes (rga_record d p) = rd_nodes d" "rd_byId (rga_record d p) = rd_byId d"
  "rd_log (rga_record d p) = rd_log d @ [p]"
  "rd_applied (rga_record d p) = insert (idKey (opIdOf p)) (rd_applied d)"
  "rd_site (rga_record d p) = rd_site d"
  by (simp_all add: rga_record_def Let_def)

lemma integrate_simps [simp]:
  "rd_log (integrate d p) = rd_log d" "rd_applied (integrate d p) = rd_applied d"
  "rd_seen (integrate d p) = rd_seen d" "rd_counter (integrate d p) = rd_counter d"
  "rd_byId (integrate d p) = reindex (rd_nodes (integrate d p))" "rd_site (integrate d p) = rd_site d"
  by (simp_all add: integrate_def Let_def)

lemma tombstone_simps [simp]:
  "rd_log (tombstone d j) = rd_log d" "rd_applied (tombstone d j) = rd_applied d"
  "rd_seen (tombstone d j) = rd_seen d" "rd_counter (tombstone d j) = rd_counter d"
  "rd_byId (tombstone d j) = rd_byId d" "rd_site (tombstone d j) = rd_site d"
  by (simp_all add: tombstone_def)

lemma origin_here_simps [simp]:
  "origin_here (d\<lparr>rd_buffer := x\<rparr>) q \<longleftrightarrow> origin_here d q"
  "origin_here (d\<lparr>rd_delBuffer := y\<rparr>) q \<longleftrightarrow> origin_here d q"
  "origin_here (rga_record (tombstone d j) p) q \<longleftrightarrow> origin_here d q"
  by (simp_all add: origin_here_def split: option.split)

lemma quiet_simps:
  "quiet (d\<lparr>rd_buffer := rd_buffer d @ [q]\<rparr>) \<longleftrightarrow> quiet d \<and> \<not> origin_here d q"
  "quiet (d\<lparr>rd_delBuffer := rd_delBuffer d @ [r]\<rparr>) \<longleftrightarrow> quiet d \<and> rd_byId d (idKey (do_target r)) = None"
  "quiet (rga_record (tombstone d j) p) \<longleftrightarrow> quiet d"
  by (auto simp: quiet_def)

lemma core_empty: "rga_core (rga_empty s)"
  by (simp add: rga_core_def rga_empty_def reindex_def seen_ok_def counter_ok_def)

lemma seen_record:
  assumes "seen_ok (rd_log d) (rd_seen d)"
  shows "seen_ok (rd_log d @ [p]) (rd_seen (rga_record d p))"
proof -
  obtain c s where ps: "opIdOf p = RgaId c s" by (cases "opIdOf p") auto
  have upd: "rd_seen (rga_record d p) = (rd_seen d)(s \<mapsto> max (nullish (rd_seen d s) 0) c)"
    by (simp add: rga_record_def ps Let_def)
  show ?thesis
  proof (cases "rd_seen d s")
    case None
    with assms ps upd show ?thesis unfolding seen_ok_def by (auto simp: ball_Un)
  next
    case (Some n)
    with assms obtain q where q: "q \<in> set (rd_log d)" "opIdOf q = RgaId n s"
      and le: "\<And>q. q \<in> set (rd_log d) \<Longrightarrow> id_site (opIdOf q) = s \<Longrightarrow> id_counter (opIdOf q) \<le> n"
      unfolding seen_ok_def by blast
    have "\<exists>q\<in>set (rd_log d @ [p]). opIdOf q = RgaId (max n c) s"
      using q(1,2) ps by (cases "c \<le> n") (auto simp: max_def intro: bexI [of _ q])
    moreover have "id_counter (opIdOf q) \<le> max n c"
      if "q \<in> set (rd_log d @ [p])" "id_site (opIdOf q) = s" for q
      using that le [of q] by (cases "q = p") (auto simp: le_max_iff_disj ps)
    ultimately show ?thesis
      using assms ps upd Some q unfolding seen_ok_def by (auto simp: ball_Un)
  qed
qed

lemma counter_record:
  assumes "counter_ok (rd_log d) (rd_counter d)"
  shows "counter_ok (rd_log d @ [p]) (rd_counter (rga_record d p))"
  using assms by (cases "id_counter (opIdOf p) \<le> rd_counter d")
    (auto simp: counter_ok_def rga_record_def Let_def max_def intro: order_trans)

lemma core_insert:
  assumes core: "rga_core d" and here: "origin_here d p" and new: "io_id p \<notin> opIdOf ` set (rd_log d)"
  shows "rga_core (rga_record (integrate d p) (Ins p))"
proof -
  let ?d = "integrate d p"
  from core have dist: "distinct (map rn_id (rd_nodes d))" and ix: "rd_byId d = reindex (rd_nodes d)"
    and ids: "rn_id ` set (rd_nodes d) = log_ids (rd_log d)"
    by (auto simp: rga_core_def)
  have nodes: "rd_nodes ?d = place (io_origin p) (new_node p) (rd_nodes d)"
    by (rule integrate_nodes [OF dist ix here])
  have ref: "refers_into (log_ids (rd_log d)) (Ins p)"
    using core_origin_here [OF core] here by simp
  have fresh: "io_id p \<notin> rn_id ` set (rd_nodes d)"
    using new log_ids_opIds [of "rd_log d"] ids by blast
  have "distinct (map rn_id (rd_nodes ?d))"
    using dist fresh by (simp add: integrate_def Let_def distinct_splice_in)
  moreover have "rn_id ` set (rd_nodes ?d) = insert (io_id p) (log_ids (rd_log d))"
    using ids by (simp add: integrate_def Let_def)
  ultimately show ?thesis
    using core nodes ref new seen_record [of ?d "Ins p"] counter_record [of ?d "Ins p"]
    by (simp add: rga_core_def image_iff)
qed

lemma core_delete:
  assumes core: "rga_core d" and j: "rd_byId d (idKey (do_target p)) = Some j"
    and new: "do_opId p \<notin> opIdOf ` set (rd_log d)"
  shows "rga_core (rga_record (tombstone d j) (Del p))"
proof -
  let ?d = "tombstone d j"
  from core have dist: "distinct (map rn_id (rd_nodes d))" and ix: "rd_byId d = reindex (rd_nodes d)"
    by (auto simp: rga_core_def)
  have nodes: "rd_nodes ?d = hide (do_target p) (rd_nodes d)"
    by (rule tombstone_nodes [OF dist ix j])
  have same: "reindex (hide t ns) = reindex ns" for t ns
  proof -
    have "reindex_from i (hide t ns) m = reindex_from i ns m" for i m
      by (induction ns arbitrary: i m) (auto simp: hide_Cons)
    then show ?thesis by (simp add: reindex_def)
  qed
  have "do_target p \<in> log_ids (rd_log d)"
    using core_byId [OF core, of "do_target p"] j by auto
  then show ?thesis
    using core nodes same new seen_record [of ?d "Del p"] counter_record [of ?d "Del p"]
    by (simp add: rga_core_def image_iff)
qed

section \<open>Draining the buffers\<close>

lemma drain_ins_core:
  assumes "drain_ins d ps = (d', kept, pr)" "rga_core d"
  shows "rga_core d' \<and> set (rd_log d) \<subseteq> set (rd_log d') \<and> set (rd_log d') \<subseteq> set (rd_log d) \<union> Ins ` set ps \<and>
    (\<forall>p\<in>set ps. p \<in> set kept \<or> io_id p \<in> opIdOf ` set (rd_log d')) \<and>
    (\<not> pr \<longrightarrow> d' = d \<and> kept = ps \<and> (\<forall>p\<in>set ps. \<not> origin_here d p))"
  using assms
proof (induction d ps arbitrary: d' kept pr rule: drain_ins.induct)
  case (1 d)
  then show ?case by simp
next
  case (2 d p ps)
  show ?case
  proof (cases "origin_here d p")
    case here: True
    define d1 where "d1 = (if idKey (io_id p) \<notin> rd_applied d \<and> rd_byId d (idKey (io_id p)) = None
                  then rga_record (integrate d p) (Ins p) else d)"
    obtain d2 kept' pr' where rest: "drain_ins d1 ps = (d2, kept', pr')" by (metis prod_cases3)
    with here 2(3) have res: "d' = d2" "kept = kept'" "pr" by (auto simp: d1_def Let_def)
    have core1: "rga_core d1 \<and> io_id p \<in> opIdOf ` set (rd_log d1) \<and> set (rd_log d) \<subseteq> set (rd_log d1) \<and>
        set (rd_log d1) \<subseteq> insert (Ins p) (set (rd_log d))"
      using 2(4) here core_insert [of d p] log_ids_opIds [of "rd_log d"]
      by (auto simp: d1_def core_applied core_byId)
    with "2.IH"(1) [OF here d1_def rest] have "rga_core d2" "set (rd_log d1) \<subseteq> set (rd_log d2)"
      "set (rd_log d2) \<subseteq> set (rd_log d1) \<union> Ins ` set ps"
      "\<forall>q\<in>set ps. q \<in> set kept' \<or> io_id q \<in> opIdOf ` set (rd_log d2)"
      by auto
    with core1 res show ?thesis by auto
  next
    case False
    obtain d2 kept' pr' where rest: "drain_ins d ps = (d2, kept', pr')" by (metis prod_cases3)
    with False 2(3) have res: "d' = d2" "kept = p # kept'" "pr = pr'" by auto
    with "2.IH"(2) [OF False rest 2(4)] False show ?thesis by auto
  qed
qed

lemma drain_del_core:
  assumes "drain_del d ps = (d', kept, pr)" "rga_core d"
  shows "rga_core d' \<and> set (rd_log d) \<subseteq> set (rd_log d') \<and> set (rd_log d') \<subseteq> set (rd_log d) \<union> Del ` set ps \<and>
    (\<forall>p\<in>set ps. p \<in> set kept \<or> do_opId p \<in> opIdOf ` set (rd_log d')) \<and>
    (\<not> pr \<longrightarrow> d' = d \<and> kept = ps \<and> (\<forall>p\<in>set ps. rd_byId d (idKey (do_target p)) = None))"
  using assms
proof (induction d ps arbitrary: d' kept pr rule: drain_del.induct)
  case (1 d)
  then show ?case by simp
next
  case (2 d p ps)
  show ?case
  proof (cases "rd_byId d (idKey (do_target p))")
    case (Some idx)
    define d1 where "d1 = (if idKey (do_opId p) \<notin> rd_applied d
                    then rga_record (tombstone d idx) (Del p) else d)"
    obtain d2 kept' pr' where rest: "drain_del d1 ps = (d2, kept', pr')" by (metis prod_cases3)
    with Some 2(3) have res: "d' = d2" "kept = kept'" "pr" by (auto simp: d1_def Let_def)
    have core1: "rga_core d1 \<and> do_opId p \<in> opIdOf ` set (rd_log d1) \<and> set (rd_log d) \<subseteq> set (rd_log d1) \<and>
        set (rd_log d1) \<subseteq> insert (Del p) (set (rd_log d))"
      using 2(4) Some core_delete [of d p idx] by (auto simp: d1_def core_applied)
    with "2.IH"(2) [OF Some d1_def rest] have "rga_core d2" "set (rd_log d1) \<subseteq> set (rd_log d2)"
      "set (rd_log d2) \<subseteq> set (rd_log d1) \<union> Del ` set ps"
      "\<forall>q\<in>set ps. q \<in> set kept' \<or> do_opId q \<in> opIdOf ` set (rd_log d2)"
      by auto
    with core1 res show ?thesis by auto
  next
    case None
    obtain d2 kept' pr' where rest: "drain_del d ps = (d2, kept', pr')" by (metis prod_cases3)
    with None 2(3) have res: "d' = d2" "kept = p # kept'" "pr = pr'" by auto
    with "2.IH"(1) [OF None rest 2(4)] None show ?thesis by auto
  qed
qed

lemma drain_pass_given:
  assumes given: "rga_given S d" and pass: "drain_pass d = (d', pr)"
  shows "rga_given S d' \<and> (\<not> pr \<longrightarrow> quiet d')"
proof -
  obtain d1 ins p1 where 1: "drain_ins d (rd_buffer d) = (d1, ins, p1)" by (metis prod_cases3)
  define d2 where "d2 = d1\<lparr>rd_buffer := ins\<rparr>"
  obtain d3 dels p2 where 3: "drain_del d2 (rd_delBuffer d2) = (d3, dels, p2)" by (metis prod_cases3)
  from pass 1 3 have d': "d' = d3\<lparr>rd_delBuffer := dels\<rparr>" and pr: "pr \<longleftrightarrow> p1 \<or> p2"
    by (auto simp: drain_pass_def d2_def)
  note b1 = drain_ins_buffers [OF 1] and b3 = drain_del_buffers [OF 3]
  from given have core: "rga_core d" by (simp add: rga_given_def)
  note c1 = drain_ins_core [OF 1 core]
  have core2: "rga_core d2" using c1 by (simp add: d2_def)
  note c3 = drain_del_core [OF 3 core2]
  have log2: "rd_log d2 = rd_log d1" and db2: "rd_delBuffer d2 = rd_delBuffer d" and bf: "rd_buffer d3 = ins"
    using b1 b3 by (simp_all add: d2_def)
  have pend: "pending d' = Ins ` set ins \<union> Del ` set dels"
    using bf by (simp add: pending_def d')
  have log': "rd_log d' = rd_log d3" by (simp add: d')
  have sub: "pending d' \<subseteq> pending d"
    unfolding pend using b1 b3 db2 by (auto simp: pending_def)
  have grow: "set (rd_log d) \<subseteq> set (rd_log d3)" "set (rd_log d3) \<subseteq> set (rd_log d) \<union> pending d"
    using c1 c3 log2 db2 by (auto simp: pending_def)
  have "rga_given S d'"
    unfolding rga_given_def
  proof (intro conjI ballI)
    show "rga_core d'" using c3 by (simp add: d')
    show "set (rd_log d') \<subseteq> S" "pending d' \<subseteq> S"
      using given grow sub by (auto simp: rga_given_def d')
    fix p assume "p \<in> S"
    with given consider "opIdOf p \<in> opIdOf ` set (rd_log d)" | "p \<in> pending d"
      by (auto simp: rga_given_def)
    then show "opIdOf p \<in> opIdOf ` set (rd_log d') \<or> p \<in> pending d'"
    proof cases
      case 1
      with grow show ?thesis by (auto simp: d')
    next
      case 2
      then consider q where "p = Ins q" "q \<in> set (rd_buffer d)" | q where "p = Del q" "q \<in> set (rd_delBuffer d2)"
        using db2 by (auto simp: pending_def)
      then show ?thesis
      proof cases
        case 1
        with c1 have "q \<in> set ins \<or> io_id q \<in> opIdOf ` set (rd_log d1)" by blast
        with c3 log2 1 show ?thesis unfolding pend log' by auto
      next
        case 2
        with c3 have "q \<in> set dels \<or> do_opId q \<in> opIdOf ` set (rd_log d3)" by blast
        with 2 show ?thesis unfolding pend log' by auto
      qed
    qed
  qed
  moreover have "quiet d'" if "\<not> pr"
  proof -
    from that pr c1 c3 have "d1 = d" "ins = rd_buffer d" "d3 = d2" "dels = rd_delBuffer d2"
      and ni: "\<forall>p\<in>set (rd_buffer d). \<not> origin_here d p"
      and nd: "\<forall>p\<in>set (rd_delBuffer d2). rd_byId d2 (idKey (do_target p)) = None"
      by auto
    then have "d2 = d" "d' = d" by (simp_all add: d2_def d')
    with ni nd show ?thesis by (simp add: quiet_def)
  qed
  ultimately show ?thesis by blast
qed

lemma drainBuffer_given:
  "rga_given S d \<Longrightarrow> rga_given S (drainBuffer d) \<and> quiet (drainBuffer d)"
proof (induction d rule: drainBuffer.induct)
  case (1 d)
  obtain d' pr where pass: "drain_pass d = (d', pr)" by (metis surj_pair)
  from drain_pass_given [OF 1(2) pass] have g: "rga_given S d'" "\<not> pr \<Longrightarrow> quiet d'" by auto
  show ?case
  proof (cases pr)
    case True
    with 1(1) [OF pass [symmetric]] g pass show ?thesis by (simp add: drainBuffer.simps [of d])
  next
    case False
    with g pass show ?thesis by (simp add: drainBuffer.simps [of d])
  qed
qed

section \<open>Applying one operation, and many\<close>

lemma given_buffers:
  assumes "rga_given S d"
  shows "rga_given (insert (Ins p) S) (d\<lparr>rd_buffer := rd_buffer d @ [p]\<rparr>)"
    and "rga_given (insert (Del q) S) (d\<lparr>rd_delBuffer := rd_delBuffer d @ [q]\<rparr>)"
  using assms by (auto simp: rga_given_def pending_def)

lemma given_insert:
  assumes given: "rga_given S d" and here: "origin_here d p" and new: "io_id p \<notin> opIdOf ` set (rd_log d)"
  shows "rga_given (insert (Ins p) S) (rga_record (integrate d p) (Ins p))"
  using given core_insert [OF _ here new] by (auto simp: rga_given_def pending_def)

lemma given_delete:
  assumes given: "rga_given S d" and j: "rd_byId d (idKey (do_target p)) = Some j"
    and new: "do_opId p \<notin> opIdOf ` set (rd_log d)"
  shows "rga_given (insert (Del p) S) (rga_record (tombstone d j) (Del p))"
  using given core_delete [OF _ j new] by (auto simp: rga_given_def pending_def)

lemma apply_given:
  assumes given: "rga_given S d" and quiet: "quiet d"
  shows "rga_given (insert p S) (fst (rga_apply d p)) \<and> quiet (fst (rga_apply d p))"
proof -
  from given have core: "rga_core d" by (simp add: rga_given_def)
  have dup: "rga_given (insert p S) d" if "opIdOf p \<in> opIdOf ` set (rd_log d)"
    using given that by (auto simp: rga_given_def)
  show ?thesis
  proof (cases p)
    case (Ins q)
    show ?thesis
    proof (cases "io_id q \<in> opIdOf ` set (rd_log d)")
      case True
      with Ins dup quiet show ?thesis by (simp add: core_applied [OF core])
    next
      case new: False
      then have absent: "rd_byId d (idKey (io_id q)) = None"
        using core_byId [OF core] log_ids_opIds [of "rd_log d"] by auto
      show ?thesis
      proof (cases "origin_here d q")
        case True
        with Ins new absent drainBuffer_given [OF given_insert [OF given True new]] show ?thesis
          by (simp add: core_applied [OF core])
      next
        case False
        with Ins new absent quiet given_buffers(1) [OF given, of q] show ?thesis
          by (simp add: core_applied [OF core] quiet_simps)
      qed
    qed
  next
    case (Del q)
    show ?thesis
    proof (cases "do_opId q \<in> opIdOf ` set (rd_log d)")
      case True
      with Del dup quiet show ?thesis by (simp add: core_applied [OF core])
    next
      case new: False
      with Del quiet given_buffers(2) [OF given, of q] given_delete [OF given _ new] show ?thesis
        by (auto simp: core_applied [OF core] quiet_simps split: option.splits)
    qed
  qed
qed

lemma applyMany_given:
  "rga_given S d \<Longrightarrow> quiet d \<Longrightarrow>
   rga_given (S \<union> set ps) (fst (applyMany d ps)) \<and> quiet (fst (applyMany d ps))"
proof (induction ps arbitrary: S d)
  case Nil
  then show ?case by simp
next
  case (Cons p ps)
  obtain d' b where d': "rga_apply d p = (d', b)" by (metis surj_pair)
  obtain d'' n where d'': "applyMany d' ps = (d'', n)" by (metis surj_pair)
  from apply_given [OF Cons.prems, of p] d' have "rga_given (insert p S) d'" "quiet d'" by auto
  from Cons.IH [OF this] d' d'' show ?case by simp
qed

lemma given_empty: "rga_given {} (rga_empty s) \<and> quiet (rga_empty s)"
  by (simp add: rga_given_def core_empty pending_def quiet_def) (simp add: rga_empty_def)

section \<open>What a replica has carried out\<close>

text \<open>The operations of \<open>S\<close> whose chain of references is in \<open>S\<close>: those that can be delivered.\<close>

inductive_set deliverable :: "rga_op set \<Rightarrow> rga_op set" for S where
  first: "Ins p \<in> S \<Longrightarrow> io_origin p = None \<Longrightarrow> Ins p \<in> deliverable S"
| after: "Ins p \<in> S \<Longrightarrow> Ins q \<in> deliverable S \<Longrightarrow> io_origin p = Some (io_id q) \<Longrightarrow> Ins p \<in> deliverable S"
| gone: "Del p \<in> S \<Longrightarrow> Ins q \<in> deliverable S \<Longrightarrow> do_target p = io_id q \<Longrightarrow> Del p \<in> deliverable S"

lemma causal_deliverable: "causal ps \<Longrightarrow> set ps \<subseteq> S \<Longrightarrow> set ps \<subseteq> deliverable S"
proof (induction ps rule: rev_induct)
  case Nil
  then show ?case by simp
next
  case (snoc p ps)
  then have IH: "set ps \<subseteq> deliverable S" and ref: "refers_into (log_ids ps) p" and p: "p \<in> S" by auto
  have "p \<in> deliverable S"
  proof (cases p)
    case (Ins q)
    with ref p IH show ?thesis
      by (cases "io_origin q") (auto simp: log_ids_def intro: deliverable.first deliverable.after)
  next
    case (Del q)
    with ref p IH show ?thesis by (auto simp: log_ids_def intro: deliverable.gone)
  qed
  with IH show ?case by simp
qed

lemma log_deliverable:
  assumes given: "rga_given S d" and quiet: "quiet d" and inj: "inj_on opIdOf S"
  shows "set (rd_log d) = deliverable S"
proof
  from given have core: "rga_core d" and sub: "set (rd_log d) \<subseteq> S" by (auto simp: rga_given_def)
  then show "set (rd_log d) \<subseteq> deliverable S"
    by (intro causal_deliverable) (auto simp: rga_core_def)
  have logged: "p \<in> set (rd_log d)" if "p \<in> S" "p \<notin> pending d" for p
  proof -
    from that given obtain q where "q \<in> set (rd_log d)" "opIdOf p = opIdOf q"
      by (auto simp: rga_given_def)
    with inj that sub show ?thesis by (auto dest: inj_onD)
  qed
  show "deliverable S \<subseteq> set (rd_log d)"
  proof
    fix p assume "p \<in> deliverable S"
    then show "p \<in> set (rd_log d)"
    proof induction
      case (first p)
      with quiet show ?case by (intro logged) (auto simp: pending_def quiet_def origin_here_def)
    next
      case (after p q)
      then have "refers_into (log_ids (rd_log d)) (Ins p)" by (auto intro: log_idsI)
      with quiet after core show ?case
        by (intro logged) (auto simp: pending_def quiet_def core_origin_here)
    next
      case (gone p q)
      then have "do_target p \<in> log_ids (rd_log d)" by (auto intro: log_idsI)
      with quiet gone core show ?case
        by (intro logged) (auto simp: pending_def quiet_def core_byId)
    qed
  qed
qed

lemma seen_unique: "seen_ok ps v \<Longrightarrow> seen_ok qs w \<Longrightarrow> set ps = set qs \<Longrightarrow> v = w"
proof
  fix s assume v: "seen_ok ps v" and w: "seen_ok qs w" and eq: "set ps = set qs"
  show "v s = w s"
  proof (cases "v s")
    case None
    with v w eq have "w s = None" unfolding seen_ok_def by metis
    with None show ?thesis by simp
  next
    case (Some n)
    with v w eq obtain m where m: "w s = Some m" unfolding seen_ok_def by (metis option.exhaust)
    from v Some obtain p where "p \<in> set ps" "opIdOf p = RgaId n s" unfolding seen_ok_def by blast
    moreover from w m obtain q where "q \<in> set qs" "opIdOf q = RgaId m s" unfolding seen_ok_def by blast
    ultimately have "n \<le> m" "m \<le> n"
      using v w Some m eq unfolding seen_ok_def by (metis rga_id.sel)+
    with Some m show ?thesis by simp
  qed
qed

lemma counter_unique: "counter_ok ps c \<Longrightarrow> counter_ok qs e \<Longrightarrow> set ps = set qs \<Longrightarrow> c = e"
  unfolding counter_ok_def by (metis le_antisym le_zero_eq)

lemma same_log_same_state:
  assumes d: "rga_core d" and e: "rga_core e" and eq: "set (rd_log d) = set (rd_log e)"
  shows "rd_nodes d = rd_nodes e \<and> rd_byId d = rd_byId e \<and> rd_applied d = rd_applied e \<and>
    rd_seen d = rd_seen e \<and> rd_counter d = rd_counter e"
proof -
  have "foldl rga_exec [] (rd_log d) = foldl rga_exec [] (rd_log e)"
  proof (rule rga_log.replay_unique)
    show "distinct (rd_log d)" "distinct (rd_log e)"
      using d e by (auto simp: rga_core_def distinct_map)
    show "rga_log.in_order (rd_log d)" "rga_log.in_order (rd_log e)"
      using d e by (auto simp: rga_core_def intro: causal_in_order)
    show "rga_apart a b" if "a \<in> set (rd_log d)" "b \<in> set (rd_log d)" "a \<noteq> b" for a b
      using that d by (auto simp: rga_core_def rga_apart_def distinct_map dest: inj_onD)
  qed (rule eq)
  then have "rd_nodes d = rd_nodes e" using d e by (simp add: rga_core_def)
  with d e eq show ?thesis
    by (auto simp: rga_core_def intro: seen_unique counter_unique)
qed

section \<open>The promise\<close>

definition rga_replica :: "string \<Rightarrow> rga_op list \<Rightarrow> rga_doc" where
  "rga_replica site ps = fst (applyMany (rga_empty site) ps)"

lemma replica_given: "rga_given (set ps) (rga_replica s ps) \<and> quiet (rga_replica s ps)"
  using applyMany_given [of "{}" "rga_empty s" ps] given_empty by (simp add: rga_replica_def)

lemma replica_core: "rga_core (rga_replica s ps)"
  using replica_given by (simp add: rga_given_def)

lemma rga_consistency:
  assumes inj: "inj_on opIdOf (set ps)" and same: "set qs = set ps"
  shows "rd_nodes (rga_replica s ps) = rd_nodes (rga_replica t qs)" "rd_byId (rga_replica s ps) = rd_byId (rga_replica t qs)"
    "rd_seen (rga_replica s ps) = rd_seen (rga_replica t qs)" "rd_counter (rga_replica s ps) = rd_counter (rga_replica t qs)"
    "set (rd_log (rga_replica s ps)) = deliverable (set ps)"
proof -
  have logs: "set (rd_log (rga_replica s ps)) = deliverable (set ps)" "set (rd_log (rga_replica t qs)) = deliverable (set ps)"
    using replica_given [of ps s] replica_given [of qs t] same inj by (simp_all add: log_deliverable)
  with same_log_same_state [OF replica_core replica_core, of s ps t qs]
  show "rd_nodes (rga_replica s ps) = rd_nodes (rga_replica t qs)" "rd_byId (rga_replica s ps) = rd_byId (rga_replica t qs)"
    "rd_seen (rga_replica s ps) = rd_seen (rga_replica t qs)" "rd_counter (rga_replica s ps) = rd_counter (rga_replica t qs)"
    "set (rd_log (rga_replica s ps)) = deliverable (set ps)" by simp_all
qed

text \<open>
  Claim C29: Two replicas that were given the same operations, in whatever order and however often
  each, hold the same elements in the same order with the same tombstones, show the same text,
  have the same state vector and Lamport counter, and have carried out exactly the operations
  whose references can be resolved.
\<close>

theorem rga_strong_eventual_consistency:
  assumes inj: "inj_on opIdOf (set ps)" and same: "set qs = set ps"
  shows "rd_nodes (rga_replica s ps) = rd_nodes (rga_replica t qs) \<and>
    rga_text (rga_replica s ps) = rga_text (rga_replica t qs) \<and>
    rga_stateVector (rga_replica s ps) = rga_stateVector (rga_replica t qs) \<and>
    rd_counter (rga_replica s ps) = rd_counter (rga_replica t qs) \<and>
    set (rd_log (rga_replica s ps)) = deliverable (set ps)"
  using rga_consistency(1-4) [OF assms, of s t] rga_consistency(5) [OF assms, of s] by (simp add: rga_text_def rga_stateVector_def)

theorem rga_strong_eventual_consistency_witness:
  "let a = \<lparr>io_id = RgaId 1 ''x'', io_origin = None, io_value = [104]\<rparr>;
       b = \<lparr>io_id = RgaId 2 ''y'', io_origin = Some (RgaId 1 ''x''), io_value = [105]\<rparr>;
       c = \<lparr>do_opId = RgaId 2 ''x'', do_target = RgaId 1 ''x''\<rparr>
   in rga_text (rga_replica ''x'' [Ins a, Ins b, Del c]) = rga_text (rga_replica ''y'' [Del c, Ins b, Ins b, Ins a])"
proof -
  let ?a = "\<lparr>io_id = RgaId 1 ''x'', io_origin = None, io_value = [104]\<rparr>"
  let ?b = "\<lparr>io_id = RgaId 2 ''y'', io_origin = Some (RgaId 1 ''x''), io_value = [105]\<rparr>"
  let ?c = "\<lparr>do_opId = RgaId 2 ''x'', do_target = RgaId 1 ''x''\<rparr>"
  have inj: "inj_on opIdOf (set [Ins ?a, Ins ?b, Del ?c])" by simp
  have same: "set [Del ?c, Ins ?b, Ins ?b, Ins ?a] = set [Ins ?a, Ins ?b, Del ?c]" by auto
  from rga_strong_eventual_consistency [OF inj same, of "''x''" "''y''"] show ?thesis by simp
qed

end
