(* ===== verification/RgaEditing.thy ===== *)
theory RgaEditing
  imports RgaConvergence
begin

text \<open>
  What a local edit does to the text, and what state vectors and snapshots carry over.
\<close>

section \<open>Visible elements\<close>

definition rga_visible :: "rga_doc \<Rightarrow> rga_node list" where
  "rga_visible d = filter (\<lambda>n. \<not> rn_deleted n) (rd_nodes d)"

lemma rga_text_visible: "rga_text d = concat (map rn_value (rga_visible d))"
  by (simp add: rga_text_def rga_visible_def)

lemma rga_length_visible: "rga_length d = length (rga_visible d)"
  by (simp add: rga_length_def rga_visible_def)

lemma visible_nth:
  "j < length (rga_visible d) \<Longrightarrow> rga_visible d ! j \<in> set (rd_nodes d) \<and> \<not> rn_deleted (rga_visible d ! j)"
  using nth_mem [of j "rga_visible d"] by (simp add: rga_visible_def)

lemma visible_loop_eq:
  "v < i \<Longrightarrow> visible_loop ns v i =
     (let vs = filter (\<lambda>n. \<not> rn_deleted n) ns; k = nat (i - v)
      in if k \<le> length vs then Some (rn_id (vs ! (k - 1))) else None)"
proof (induction ns v i rule: visible_loop.induct)
  case (1 v i)
  then show ?case by simp
next
  case (2 n ns v i)
  show ?case
  proof (cases "rn_deleted n \<or> v + 1 = i")
    case True
    with 2 show ?thesis by (cases "rn_deleted n") (auto simp: Let_def)
  next
    case False
    with 2(3) have "nat (i - v) = Suc (nat (i - (v + 1)))" "0 < nat (i - (v + 1))" by auto
    with False 2(2,3) show ?thesis
      by (cases "nat (i - (v + 1))") (auto simp: Let_def)
  qed
qed

lemma last_visible_eq:
  "last_visible ns = (let vs = filter (\<lambda>n. \<not> rn_deleted n) ns
     in if vs = [] then None else Some (rn_id (last vs)))"
proof (induction ns rule: rev_induct)
  case (snoc n ns)
  then show ?case by (auto simp: last_visible_def Let_def)
qed (simp add: last_visible_def)

text \<open>An index out of range is read as the nearest end.\<close>

lemma idAtVisibleIndex_eq:
  "idAtVisibleIndex d i =
     (let k = min (nat i) (length (rga_visible d))
      in if k = 0 then None else Some (rn_id (rga_visible d ! (k - 1))))"
proof (cases "i \<le> 0")
  case True
  then show ?thesis by (simp add: idAtVisibleIndex_def)
next
  case False
  then have pos: "0 < nat i" by simp
  show ?thesis
  proof (cases "nat i \<le> length (rga_visible d)")
    case True
    with pos False show ?thesis
      by (simp add: idAtVisibleIndex_def visible_loop_eq rga_visible_def Let_def min_def)
  next
    case past: False
    then have len: "min (nat i) (length (rga_visible d)) = length (rga_visible d)" by simp
    from past False show ?thesis
      unfolding len
      by (auto simp: idAtVisibleIndex_def visible_loop_eq last_visible_eq rga_visible_def [symmetric] Let_def last_conv_nth)
  qed
qed

lemma filter_nth_split:
  assumes "k < length (filter P xs)"
  shows "\<exists>us vs. xs = us @ filter P xs ! k # vs \<and>
    filter P us = take k (filter P xs) \<and> filter P vs = drop (Suc k) (filter P xs)"
  using assms
proof (induction xs arbitrary: k)
  case Nil
  then show ?case by simp
next
  case (Cons x xs)
  show ?case
  proof (cases "P x")
    case False
    with Cons.prems have "k < length (filter P xs)" by simp
    from Cons.IH [OF this] obtain us vs where "xs = us @ filter P xs ! k # vs"
      "filter P us = take k (filter P xs)" "filter P vs = drop (Suc k) (filter P xs)" by blast
    with False show ?thesis by (intro exI [of _ "x # us"] exI [of _ vs]) simp
  next
    case True
    show ?thesis
    proof (cases k)
      case 0
      with True show ?thesis by (intro exI [of _ "[]"] exI [of _ xs]) simp
    next
      case (Suc j)
      with True Cons.prems have "j < length (filter P xs)" by simp
      from Cons.IH [OF this] obtain us vs where "xs = us @ filter P xs ! j # vs"
        "filter P us = take j (filter P xs)" "filter P vs = drop (Suc j) (filter P xs)" by blast
      with True Suc show ?thesis by (intro exI [of _ "x # us"] exI [of _ vs]) simp
    qed
  qed
qed

section \<open>Local insertion\<close>

definition next_id :: "rga_doc \<Rightarrow> rga_id" where
  "next_id d = RgaId (rd_counter d + 1) (rd_site d)"

text \<open>No operation that waits in a buffer refers to the id the replica will mint next.\<close>

definition next_unknown :: "rga_doc \<Rightarrow> bool" where
  "next_unknown d \<longleftrightarrow> (\<forall>p\<in>set (rd_buffer d). io_origin p \<noteq> Some (next_id d)) \<and>
     (\<forall>p\<in>set (rd_delBuffer d). do_target p \<noteq> next_id d)"

lemma next_id_fresh: "rga_core d \<Longrightarrow> next_id d \<notin> opIdOf ` set (rd_log d)"
proof
  assume core: "rga_core d" and "next_id d \<in> opIdOf ` set (rd_log d)"
  then obtain p where "p \<in> set (rd_log d)" "opIdOf p = next_id d" by force
  with core have "id_counter (next_id d) \<le> rd_counter d"
    unfolding rga_core_def counter_ok_def by metis
  then show False by (simp add: next_id_def)
qed

lemma next_id_greatest:
  assumes core: "rga_core d" and n: "n \<in> set (rd_nodes d)"
  shows "rn_id n < next_id d"
proof -
  from core n have "rn_id n \<in> log_ids (rd_log d)" by (auto simp: rga_core_def)
  then have "rn_id n \<in> opIdOf ` set (rd_log d)" using log_ids_opIds by blast
  with core have "id_counter (rn_id n) \<le> rd_counter d" by (auto simp: rga_core_def counter_ok_def)
  then show ?thesis by (intro less_rga_id_counter) (simp add: next_id_def)
qed

lemma skip_in_greatest: "\<forall>m\<in>set ns. rn_id m < rn_id n \<Longrightarrow> skip_in n ns = n # ns"
  by (cases ns) auto

lemma place_after:
  "distinct (map rn_id (us @ r # vs)) \<Longrightarrow> place (Some (rn_id r)) n (us @ r # vs) = us @ r # skip_in n vs"
  by (induction us) auto

lemma drain_quiet:
  assumes "quiet d"
  shows "drainBuffer d = d"
proof -
  have ins: "drain_ins d ps = (d, ps, False)" if "\<forall>p\<in>set ps. \<not> origin_here d p" for ps
    using that by (induction ps) auto
  have del: "drain_del d ps = (d, ps, False)" if "\<forall>p\<in>set ps. rd_byId d (idKey (do_target p)) = None" for ps
    using that by (induction ps) auto
  from assms have "drain_pass d = (d, False)"
    by (simp add: quiet_def drain_pass_def ins del)
  then show ?thesis by (simp add: drainBuffer.simps [of d])
qed

text \<open>An insertion puts its node after the visible element before the index, and nothing else moves.\<close>

lemma localInsert_visible:
  assumes core: "rga_core d" and quiet: "quiet d" and unknown: "next_unknown d"
    and ins: "localInsert d i value = (d', Inr p)"
  shows "rga_visible d' = take (nat i) (rga_visible d) @ new_node p # drop (nat i) (rga_visible d) \<and>
    io_value p = value \<and> io_id p = next_id d \<and> rga_core d' \<and> quiet d' \<and>
    rd_buffer d' = rd_buffer d \<and> rd_delBuffer d' = rd_delBuffer d \<and>
    rd_site d' = rd_site d \<and> rd_counter d' = Suc (rd_counter d) \<and> rd_log d' = rd_log d @ [Ins p]"
proof -
  let ?vs = "rga_visible d" and ?ns = "rd_nodes d"
  define k where "k = min (nat i) (length ?vs)"
  from ins have p: "p = \<lparr>io_id = next_id d, io_origin = idAtVisibleIndex d i, io_value = value\<rparr>"
    and d': "d' = fst (rga_apply d (Ins p))"
    by (auto simp: localInsert_def next_id_def Let_def split: if_splits)
  have origin: "io_origin p = (if k = 0 then None else Some (rn_id (?vs ! (k - 1))))"
    by (simp only: p idAtVisibleIndex_eq k_def Let_def ins_op.simps)
  from core have dist: "distinct (map rn_id ?ns)" and ix: "rd_byId d = reindex ?ns"
    and ids: "rn_id ` set ?ns = log_ids (rd_log d)" by (auto simp: rga_core_def)
  have fresh: "io_id p \<notin> opIdOf ` set (rd_log d)" using next_id_fresh [OF core] p by simp
  have "?vs ! (k - 1) \<in> set ?ns" if "k \<noteq> 0"
  proof -
    have "k \<le> length ?vs" unfolding k_def by simp
    with that have "k - 1 < length ?vs" by linarith
    then show ?thesis using visible_nth by blast
  qed
  then have here: "origin_here d p"
    using origin ids by (auto simp: core_origin_here [OF core])
  define e where "e = rga_record (integrate d p) (Ins p)"
  have core_e: "rga_core e" unfolding e_def by (rule core_insert [OF core here fresh])
  have "rd_byId e (idKey a) = None \<longleftrightarrow> rd_byId d (idKey a) = None \<and> a \<noteq> next_id d" for a
    using core_byId [OF core, of a] core_byId [OF core_e, of a] p by (auto simp: e_def)
  with quiet unknown have quiet_e: "quiet e"
    unfolding quiet_def next_unknown_def origin_here_def
    by (auto simp: e_def split: option.splits)
  have "d' = e"
    using d' fresh here drain_quiet [OF quiet_e] core_applied [OF core] core_byId [OF core]
      log_ids_opIds [of "rd_log d"] by (auto simp: e_def)
  have nodes: "rd_nodes e = place (io_origin p) (new_node p) ?ns"
    using integrate_nodes [OF dist ix here] by (simp add: e_def)
  have great: "\<forall>m\<in>set ?ns. rn_id m < rn_id (new_node p)"
    using next_id_greatest [OF core] p by simp
  have "rga_visible e = take k ?vs @ new_node p # drop k ?vs"
  proof (cases k)
    case 0
    with nodes origin great show ?thesis
      by (simp add: rga_visible_def skip_in_greatest) (simp add: new_node_def)
  next
    case (Suc j)
    then have j: "j < length ?vs" by (simp add: k_def)
    define r where r: "r = ?vs ! j"
    from filter_nth_split [OF j [unfolded rga_visible_def], folded rga_visible_def]
    obtain us ws where split: "?ns = us @ r # ws"
        "filter (\<lambda>n. \<not> rn_deleted n) us = take j ?vs" "filter (\<lambda>n. \<not> rn_deleted n) ws = drop (Suc j) ?vs"
      unfolding r by blast
    have "skip_in (new_node p) ws = new_node p # ws"
      using great split(1) by (intro skip_in_greatest) auto
    with nodes origin Suc split(1) dist have ns': "rd_nodes e = us @ r # new_node p # ws"
      by (metis r diff_Suc_1 nat.distinct(1) place_after)
    have "rga_visible e = filter (\<lambda>n. \<not> rn_deleted n) (rd_nodes e)"
      by (simp add: rga_visible_def)
    also have "\<dots> = take j ?vs @ r # new_node p # drop (Suc j) ?vs"
      using visible_nth [OF j] by (simp add: ns' split(2,3) r) (simp add: new_node_def)
    also have "\<dots> = take k ?vs @ new_node p # drop k ?vs"
      using j by (simp add: Suc r take_Suc_conv_app_nth)
    finally show ?thesis .
  qed
  moreover have "take k ?vs = take (nat i) ?vs" "drop k ?vs = drop (nat i) ?vs"
    by (simp_all add: k_def min_def)
  moreover have "rd_counter e = Suc (rd_counter d)"
    by (simp add: e_def rga_record_def p next_id_def Let_def)
  ultimately show ?thesis
    using \<open>d' = e\<close> core_e quiet_e p by (simp add: e_def)
qed

text \<open>A document every element of which carries one code unit, as \<open>localInsert\<close> makes them.\<close>

definition single_units :: "rga_doc \<Rightarrow> bool" where
  "single_units d \<longleftrightarrow> (\<forall>n\<in>set (rga_visible d). length (rn_value n) = 1)"

lemma concat_singles:
  assumes "\<forall>x\<in>set xs. length (f x) = 1"
  shows "take k (concat (map f xs)) = concat (map f (take k xs)) \<and>
    drop k (concat (map f xs)) = concat (map f (drop k xs)) \<and> length (concat (map f xs)) = length xs"
  using assms
proof (induction xs arbitrary: k)
  case (Cons x xs)
  then obtain u where "f x = [u]" by (auto simp: length_Suc_conv)
  with Cons show ?case by (cases k) auto
qed simp

lemma text_take_drop:
  "single_units d \<Longrightarrow> take k (rga_text d) = concat (map rn_value (take k (rga_visible d))) \<and>
   drop k (rga_text d) = concat (map rn_value (drop k (rga_visible d))) \<and> length (rga_text d) = rga_length d"
  unfolding single_units_def rga_text_visible rga_length_visible by (rule concat_singles)

text \<open>
  On a replica with nothing buffered against the id it mints next, inserting one code
  unit at a non-negative index puts it there (at the end when the index is past it), leaves the rest of the
  visible text as it was, and returns the operation that carries it.
\<close>

theorem localInsert_text:
  assumes "rga_core d" "quiet d" "next_unknown d" "single_units d" "length value = 1"
  shows "\<exists>d' p. localInsert d i value = (d', Inr p) \<and>
    rga_text d' = take (nat i) (rga_text d) @ value @ drop (nat i) (rga_text d) \<and>
    io_value p = value \<and> Ins p \<in> set (rd_log d')"
proof -
  define d' where "d' = fst (localInsert d i value)"
  from assms(5) obtain p where ins: "localInsert d i value = (d', Inr p)"
    by (simp add: localInsert_def d'_def Let_def)
  note vis = localInsert_visible [OF assms(1-3) ins]
  from text_take_drop [OF assms(4), of "nat i"] vis ins show ?thesis
    by (simp add: rga_text_visible) (simp add: new_node_def)
qed

section \<open>Local deletion\<close>

lemma hide_split:
  "distinct (map rn_id (us @ r # ws)) \<Longrightarrow> hide (rn_id r) (us @ r # ws) = us @ r\<lparr>rn_deleted := True\<rparr> # ws"
  by (auto simp: hide_def image_iff intro!: map_idI)

lemma localDelete_visible:
  fixes i :: int
  assumes core: "rga_core d"
  defines "k \<equiv> min (nat (i + 1)) (length (rga_visible d))"
  shows "if k = 0 then localDelete d i = (d, None)
    else \<exists>d' p. localDelete d i = (d', Some p) \<and> do_opId p = next_id d \<and>
      do_target p = rn_id (rga_visible d ! (k - 1)) \<and>
      rga_visible d' = take (k - 1) (rga_visible d) @ drop k (rga_visible d) \<and> rd_log d' = rd_log d @ [Del p]"
proof (cases "k = 0")
  case True
  then show ?thesis by (simp add: localDelete_def idAtVisibleIndex_eq k_def [symmetric] Let_def)
next
  case False
  let ?vs = "rga_visible d"
  have "k \<le> length ?vs" unfolding k_def by simp
  with False have len: "k - 1 < length ?vs" by linarith
  define r where r: "r = ?vs ! (k - 1)"
  from filter_nth_split [OF len [unfolded rga_visible_def], folded rga_visible_def] obtain us ws where
    split: "rd_nodes d = us @ r # ws" "filter (\<lambda>n. \<not> rn_deleted n) us = take (k - 1) ?vs"
      "filter (\<lambda>n. \<not> rn_deleted n) ws = drop (Suc (k - 1)) ?vs"
    unfolding r by blast
  from core have dist: "distinct (map rn_id (rd_nodes d))" and ix: "rd_byId d = reindex (rd_nodes d)"
    by (auto simp: rga_core_def)
  define p where "p = \<lparr>do_opId = next_id d, do_target = rn_id r\<rparr>"
  define d' where "d' = fst (rga_apply d (Del p))"
  have del: "localDelete d i = (d', Some p)"
    using False by (simp add: localDelete_def idAtVisibleIndex_eq k_def [symmetric] r p_def d'_def next_id_def Let_def)
  have "rn_id r \<in> rn_id ` set (rd_nodes d)" by (simp add: split(1))
  then obtain j where j: "rd_byId d (idKey (rn_id r)) = Some j"
    using reindex_eq_None [OF dist, of "rn_id r"] ix by auto
  then have d': "d' = rga_record (tombstone d j) (Del p)"
    using next_id_fresh [OF core] by (simp add: d'_def p_def core_applied [OF core])
  have "rd_nodes d' = us @ r\<lparr>rn_deleted := True\<rparr> # ws"
    using tombstone_nodes [OF dist ix j] hide_split dist by (simp add: d' split(1))
  then have "rga_visible d' = take (k - 1) ?vs @ drop k ?vs"
    using False split(2,3) by (simp add: rga_visible_def)
  with del False show ?thesis by (simp add: d' p_def r)
qed

text \<open>
  Deleting at an index inside the visible text removes exactly the code unit there and
  returns the operation; at a negative index nothing is deleted.
\<close>

theorem localDelete_text:
  assumes "rga_core d" "single_units d" "i < int (length (rga_text d))"
  shows "if i < 0 then localDelete d i = (d, None)
    else \<exists>d' p. localDelete d i = (d', Some p) \<and>
      rga_text d' = take (nat i) (rga_text d) @ drop (Suc (nat i)) (rga_text d)"
proof (cases "i < 0")
  case True
  then show ?thesis using localDelete_visible [OF assms(1), of i] by simp
next
  case False
  from text_take_drop [OF assms(2)] have len: "length (rga_text d) = length (rga_visible d)"
    by (simp add: rga_length_visible)
  with False assms(3) have "min (nat (i + 1)) (length (rga_visible d)) = Suc (nat i)" by auto
  with localDelete_visible [OF assms(1), of i] obtain d' p where "localDelete d i = (d', Some p)"
    and vis: "rga_visible d' = take (nat i) (rga_visible d) @ drop (Suc (nat i)) (rga_visible d)"
    by auto
  moreover have "rga_text d' = take (nat i) (rga_text d) @ drop (Suc (nat i)) (rga_text d)"
    using text_take_drop [OF assms(2), of "nat i"] text_take_drop [OF assms(2), of "Suc (nat i)"]
    by (simp add: rga_text_visible vis)
  ultimately show ?thesis using False by auto
qed

text \<open>
  Past the end of a text that is not empty, \<open>localDelete\<close> does not return null as its
  comment says: it deletes the last visible code unit and returns the operation for it.
\<close>

theorem localDelete_past_end:
  assumes "rga_core d" "single_units d" "rga_text d \<noteq> []" "int (length (rga_text d)) \<le> i"
  shows "\<exists>d' p. localDelete d i = (d', Some p) \<and> rga_text d' = butlast (rga_text d)"
proof -
  from text_take_drop [OF assms(2)] have len: "length (rga_text d) = length (rga_visible d)"
    by (simp add: rga_length_visible)
  let ?n = "length (rga_visible d)"
  from len assms(3,4) have pos: "?n \<noteq> 0" and k: "min (nat (i + 1)) ?n = ?n" by auto
  with localDelete_visible [OF assms(1), of i] obtain d' p where "localDelete d i = (d', Some p)"
    and vis: "rga_visible d' = take (?n - 1) (rga_visible d) @ drop ?n (rga_visible d)"
    by (auto split: if_splits)
  moreover have "rga_text d' = butlast (rga_text d)"
    using text_take_drop [OF assms(2), of "?n - 1"] len
    by (simp add: rga_text_visible vis butlast_conv_take)
  ultimately show ?thesis by blast
qed

section \<open>Inserting a string\<close>

lemma code_points_bmp: "\<forall>u\<in>set us. \<not> high_surrogate u \<Longrightarrow> code_points us = map (\<lambda>u. [u]) us"
  by (induction us rule: code_points.induct) auto

lemma insert_chars_fails:
  "\<exists>ch\<in>set chs. length ch \<noteq> 1 \<Longrightarrow> snd (insert_chars d at chs ops) = Inl NotOneCharacter"
proof (induction chs arbitrary: d at ops)
  case (Cons ch chs)
  then show ?case
    by (cases "length ch = 1") (auto simp: localInsert_def Let_def split: prod.splits)
qed simp

text \<open>
  Inserting a string that holds a surrogate pair throws: the code walks the string by
  code points, and \<open>localInsert\<close> refuses an element of two code units.
\<close>

theorem localInsertText_surrogates:
  assumes "high_surrogate u" "low_surrogate v" "\<forall>x\<in>set us. \<not> high_surrogate x"
  shows "snd (localInsertText d i (us @ u # v # ws)) = Inl NotOneCharacter"
proof -
  have "[u, v] \<in> set (code_points (us @ u # v # ws))"
    using assms
  proof (induction us)
    case (Cons x us)
    then show ?case by (cases us) auto
  qed simp
  then show ?thesis unfolding localInsertText_def by (intro insert_chars_fails) force
qed

lemma insert_chars_visible:
  assumes "rga_core d" "quiet d" "rd_buffer d = []" "rd_delBuffer d = []" "single_units d" "0 \<le> i"
    "\<forall>ch\<in>set chs. length ch = 1"
  shows "\<exists>d' ps. insert_chars d i chs ops = (d', Inr ps) \<and>
    rga_text d' = take (nat i) (rga_text d) @ concat chs @ drop (nat i) (rga_text d)"
  using assms
proof (induction chs arbitrary: d i ops)
  case Nil
  then show ?case by simp
next
  case (Cons ch chs)
  obtain d' p where ins: "localInsert d i ch = (d', Inr p)"
    using Cons.prems(7) by (simp add: localInsert_def Let_def)
  have unknown: "next_unknown d" using Cons.prems(3,4) by (simp add: next_unknown_def)
  note vis = localInsert_visible [OF Cons.prems(1,2) unknown ins]
  have "set (rga_visible d') \<subseteq> insert (new_node p) (set (rga_visible d))"
    using vis by (auto dest: in_set_takeD in_set_dropD)
  with vis Cons.prems(5,7) have single: "single_units d'"
    unfolding single_units_def by (auto simp: new_node_def dest!: subsetD)
  have text': "rga_text d' = take (nat i) (rga_text d) @ ch @ drop (nat i) (rga_text d)"
    using text_take_drop [OF Cons.prems(5), of "nat i"] vis
    by (simp add: rga_text_visible) (simp add: new_node_def)
  have "\<exists>d'' ps. insert_chars d' (i + 1) chs (ops @ [Ins p]) = (d'', Inr ps) \<and>
      rga_text d'' = take (nat (i + 1)) (rga_text d') @ concat chs @ drop (nat (i + 1)) (rga_text d')"
    using vis Cons.prems single by (intro Cons.IH) auto
  moreover have "take (nat (i + 1)) (rga_text d') @ concat chs @ drop (nat (i + 1)) (rga_text d') =
      take (nat i) (rga_text d) @ (ch @ concat chs) @ drop (nat i) (rga_text d)"
  proof (cases "nat i \<le> length (rga_text d)")
    case True
    obtain c where "ch = [c]" using Cons.prems(7) by (auto simp: length_Suc_conv)
    with True Cons.prems(6) show ?thesis by (simp add: text' nat_add_distrib)
  next
    case False
    with Cons.prems(6,7) show ?thesis by (simp add: text' nat_add_distrib)
  qed
  ultimately show ?case using ins by auto
qed

text \<open>
  Inserting a string without high surrogates at a non-negative index puts the whole
  string there, in order, on a replica with empty buffers.
\<close>

theorem localInsertText_text:
  assumes "rga_core d" "quiet d" "rd_buffer d = []" "rd_delBuffer d = []" "single_units d" "0 \<le> i"
    "\<forall>u\<in>set text. \<not> high_surrogate u"
  shows "\<exists>d' ps. localInsertText d i text = (d', Inr ps) \<and>
    rga_text d' = take (nat i) (rga_text d) @ text @ drop (nat i) (rga_text d)"
proof -
  have "code_points text = map (\<lambda>u. [u]) text" using assms(7) by (rule code_points_bmp)
  moreover have "concat (map (\<lambda>u. [u]) text) = text" by simp
  ultimately show ?thesis
    using insert_chars_visible [OF assms(1-6), of "code_points text" "[]"]
    unfolding localInsertText_def by simp
qed

section \<open>A concrete replica\<close>

text \<open>A replica of site \<open>a\<close> that shows two code units typed at site \<open>x\<close>.\<close>

definition demo_replica :: rga_doc where
  "demo_replica = rga_replica ''a''
     [Ins \<lparr>io_id = RgaId 1 ''x'', io_origin = None, io_value = [104]\<rparr>,
      Ins \<lparr>io_id = RgaId 2 ''x'', io_origin = Some (RgaId 1 ''x''), io_value = [105]\<rparr>]"

lemma demo_replica_text: "rga_text demo_replica = [104, 105]" and demo_replica_single: "single_units demo_replica"
  by code_simp+

lemma demo_replica_buffers: "rd_buffer demo_replica = []" "rd_delBuffer demo_replica = []"
  by code_simp+

lemma demo_replica_core: "rga_core demo_replica" and demo_replica_quiet: "quiet demo_replica"
  by (simp_all add: demo_replica_def replica_core replica_given)

lemma demo_replica_unknown: "next_unknown demo_replica"
  by (simp add: next_unknown_def demo_replica_buffers)

theorem localInsert_text_witness:
  "\<exists>d' p. localInsert demo_replica 1 [33] = (d', Inr p) \<and> rga_text d' = [104, 33, 105]"
  using localInsert_text [OF demo_replica_core demo_replica_quiet demo_replica_unknown demo_replica_single, of "[33]" 1]
  by (auto simp: demo_replica_text)

theorem localDelete_text_witness:
  "\<exists>d' p. localDelete demo_replica 0 = (d', Some p) \<and> rga_text d' = [105]"
  using localDelete_text [OF demo_replica_core demo_replica_single, of 0]
  by (auto simp: demo_replica_text)

theorem localDelete_past_end_witness:
  "\<exists>d' p. localDelete demo_replica 7 = (d', Some p) \<and> rga_text d' = [104]"
  using localDelete_past_end [OF demo_replica_core demo_replica_single, of 7]
  by (auto simp: demo_replica_text)

theorem localInsertText_surrogates_witness:
  "snd (localInsertText (rga_empty ''a'') 0 [104, 0xD83D, 0xDE00]) = Inl NotOneCharacter"
proof -
  have "high_surrogate 0xD83D" "low_surrogate 0xDE00" "\<forall>x\<in>set [104]. \<not> high_surrogate x" by code_simp+
  from localInsertText_surrogates [OF this, of "rga_empty ''a''" 0 "[]"] show ?thesis by simp
qed

theorem localInsertText_text_witness:
  "\<exists>d' ps. localInsertText demo_replica 1 [33, 34] = (d', Inr ps) \<and> rga_text d' = [104, 33, 34, 105]"
proof -
  have "\<forall>u\<in>set [33, 34]. \<not> high_surrogate u" by code_simp
  from localInsertText_text [OF demo_replica_core demo_replica_quiet demo_replica_buffers demo_replica_single _ this, of 1]
  show ?thesis by (auto simp: demo_replica_text)
qed

section \<open>Sync by state vector\<close>

text \<open>What \<open>d\<close> sends \<open>e\<close>: its operations after \<open>e\<close>'s state vector.\<close>

definition rga_sync :: "rga_doc \<Rightarrow> rga_doc \<Rightarrow> rga_doc" where
  "rga_sync d e = fst (applyMany e (rga_opsSince d (rga_stateVector e)))"

text \<open>
  The condition a state vector rests on: what \<open>e\<close> has from a site is everything \<open>d\<close> has from it
  up to the counter \<open>e\<close> has seen.
\<close>

definition gap_free :: "rga_doc \<Rightarrow> rga_doc \<Rightarrow> bool" where
  "gap_free d e \<longleftrightarrow> (\<forall>p\<in>set (rd_log d).
     id_counter (opIdOf p) \<le> nullish (rd_seen e (id_site (opIdOf p))) 0 \<longrightarrow> p \<in> set (rd_log e))"

lemma sync_given:
  assumes d: "rga_given (set (rd_log d)) d" and e: "rga_given (set (rd_log e)) e" "quiet e" and gap: "gap_free d e"
  shows "rga_given (set (rd_log d) \<union> set (rd_log e)) (rga_sync d e) \<and> quiet (rga_sync d e)"
proof -
  have "set (rd_log e) \<union> set (rga_opsSince d (rga_stateVector e)) = set (rd_log d) \<union> set (rd_log e)"
    using gap unfolding gap_free_def rga_opsSince_def rga_stateVector_def by (auto simp: not_less)
  with applyMany_given [OF e, of "rga_opsSince d (rga_stateVector e)"] show ?thesis
    by (simp add: rga_sync_def)
qed


definition demo_peer :: rga_doc where
  "demo_peer = rga_replica ''b'' [Ins \<lparr>io_id = RgaId 1 ''x'', io_origin = None, io_value = [104]\<rparr>,
      Del \<lparr>do_opId = RgaId 2 ''b'', do_target = RgaId 1 ''x''\<rparr>]"

lemma demo_logs:
  "rd_log demo_replica = [Ins \<lparr>io_id = RgaId 1 ''x'', io_origin = None, io_value = [104]\<rparr>,
      Ins \<lparr>io_id = RgaId 2 ''x'', io_origin = Some (RgaId 1 ''x''), io_value = [105]\<rparr>]"
  "rd_log demo_peer = [Ins \<lparr>io_id = RgaId 1 ''x'', io_origin = None, io_value = [104]\<rparr>,
      Del \<lparr>do_opId = RgaId 2 ''b'', do_target = RgaId 1 ''x''\<rparr>]"
  by code_simp+


text \<open>
  With a gap the exchange loses an operation: a peer that has a site's second operation
  and not its first is not sent the first, although it has never seen it.
\<close>

theorem rga_sync_gap:
  "let a = Ins \<lparr>io_id = RgaId 1 ''x'', io_origin = None, io_value = [104]\<rparr>;
       b = Ins \<lparr>io_id = RgaId 2 ''x'', io_origin = None, io_value = [105]\<rparr>;
       d = rga_replica ''x'' [a, b]; e = rga_replica ''y'' [b]
   in rga_opsSince d (rga_stateVector e) = [] \<and> rga_text (rga_sync d e) \<noteq> rga_text d"
  by code_simp

section \<open>Snapshots\<close>

lemma load_nodes_frame:
  "rd_nodes (fst (foldl load_node s ns)) = rd_nodes (fst s) \<and>
   rd_byId (fst (foldl load_node s ns)) = rd_byId (fst s) \<and>
   rd_site (fst (foldl load_node s ns)) = rd_site (fst s)"
  by (induction ns arbitrary: s) (simp_all add: load_node_def Let_def split: prod.split)

lemma load_nodes_counter:
  "rd_counter (fst s) \<le> rd_counter (fst (foldl load_node s ns)) \<and>
   (\<forall>n\<in>set ns. id_counter (rn_id n) \<le> rd_counter (fst (foldl load_node s ns))) \<and>
   rd_applied (fst s) \<union> idKey ` rn_id ` set ns \<subseteq> rd_applied (fst (foldl load_node s ns))"
proof (induction ns arbitrary: s)
  case (Cons n ns)
  have step: "rd_counter (fst s) \<le> rd_counter (fst (load_node s n)) \<and>
      id_counter (rn_id n) \<le> rd_counter (fst (load_node s n)) \<and>
      insert (idKey (rn_id n)) (rd_applied (fst s)) \<subseteq> rd_applied (fst (load_node s n))"
    by (simp add: load_node_def Let_def split: prod.split) auto
  with Cons.IH [of "load_node s n"] show ?case by (auto intro: order_trans)
qed simp

text \<open>
  A document loaded from a snapshot shows the text the snapshot was taken of, finds every
  element by its id, ignores the operations that inserted them when they arrive again, and mints
  ids above all of them.
\<close>

theorem rga_snapshot_roundtrip:
  assumes "rga_core d" "site \<noteq> []"
  shows "\<exists>e. rga_fromSnapshot site (rga_snapshot d) = Inr e \<and> rga_snapshot e = rga_snapshot d \<and>
    rga_text e = rga_text d \<and> rd_byId e = rd_byId d \<and>
    (\<forall>p. io_id p \<in> rn_id ` set (rd_nodes d) \<longrightarrow> rga_apply e (Ins p) = (e, False)) \<and>
    (\<forall>n\<in>set (rd_nodes d). rn_id n < next_id e)"
proof -
  let ?s = "((rga_empty site)\<lparr>rd_nodes := rd_nodes d, rd_byId := reindex (rd_nodes d)\<rparr>, 0 :: nat)"
  define e where "e = fst (foldl load_node ?s (rd_nodes d))"
  have from_e: "rga_fromSnapshot site (rga_snapshot d) = Inr e"
    using assms(2) by (simp add: rga_fromSnapshot_def rga_new_def rga_snapshot_def e_def)
  have frame: "rd_nodes e = rd_nodes d" "rd_byId e = reindex (rd_nodes d)" "rd_site e = site"
    using load_nodes_frame [of ?s "rd_nodes d"] by (simp_all add: e_def rga_empty_def)
  note cnt = load_nodes_counter [of ?s "rd_nodes d", folded e_def]
  have "rga_apply e (Ins p) = (e, False)" if "io_id p \<in> rn_id ` set (rd_nodes d)" for p
  proof -
    from cnt that have "idKey (io_id p) \<in> rd_applied e" by blast
    then show ?thesis by simp
  qed
  moreover have "rn_id n < next_id e" if "n \<in> set (rd_nodes d)" for n
    using cnt that by (intro less_rga_id_counter) (auto simp: next_id_def less_Suc_eq_le)
  ultimately show ?thesis
    using from_e frame assms(1) by (simp add: rga_snapshot_def rga_text_def rga_core_def)
qed

theorem rga_snapshot_roundtrip_witness:
  "\<exists>e. rga_fromSnapshot ''c'' (rga_snapshot demo_replica) = Inr e \<and> rga_text e = [104, 105]"
  using rga_snapshot_roundtrip [OF demo_replica_core, of "''c''"] by (auto simp: demo_replica_text)

text \<open>
  Two replicas that load one snapshot with a tombstone log deletes with different ids
  for it: the synthetic site holds the loading replica's own id, so the delete is not recognised
  as a duplicate when the replicas sync.
\<close>

theorem rga_snapshot_deletes_differ:
  "let snap = rga_snapshot demo_peer
   in case (rga_fromSnapshot ''c'' snap, rga_fromSnapshot ''d'' snap) of
        (Inr c, Inr d) \<Rightarrow> map opIdOf (rd_log c) = [RgaId 1 ''x'', RgaId 1 ''__snap__:c''] \<and>
           map opIdOf (rd_log d) = [RgaId 1 ''x'', RgaId 1 ''__snap__:d''] \<and>
           map opIdOf (rga_opsSince c (rga_stateVector d)) = [RgaId 1 ''__snap__:c'']
      | _ \<Rightarrow> False"
  by code_simp

end
