(* ===== verification/Json.thy ===== *)
theory Json
  imports Prelude Complex_Main
begin

text \<open>
  JSON values, the payloads several components move around, and the canonical form by which the
  program compares and hashes them. Numbers are rationals (no rounding, no \<^verbatim>\<open>NaN\<close>); an object is an
  association list in the order of its keys.
\<close>

datatype json =
    JNull
  | JBool bool
  | JNum rat
  | JStr string
  | JArr "json list"
  | JObj "(string \<times> json) list"

type_synonym payload = "(string \<times> json) list"

lemma size_snd_less: "p \<in> set kvs \<Longrightarrow> size (snd p) < size_list (\<lambda>x. Suc (size (snd x))) kvs"
  by (induction kvs) auto

text \<open>Sort the keys of every object, recursively (\<^verbatim>\<open>sortDeep\<close>, \<^verbatim>\<open>stable\<close>).\<close>

function sortDeep :: "json \<Rightarrow> json" where
  "sortDeep JNull = JNull"
| "sortDeep (JBool b) = JBool b"
| "sortDeep (JNum n) = JNum n"
| "sortDeep (JStr s) = JStr s"
| "sortDeep (JArr xs) = JArr (map sortDeep xs)"
| "sortDeep (JObj kvs) = JObj (sort_key fst (map (\<lambda>p. (fst p, sortDeep (snd p))) kvs))"
  by pat_completeness auto
termination
  by (relation "measure size") (auto simp: less_Suc_eq_le size_list_estimation' dest: size_snd_less)

section \<open>Objects\<close>

text \<open>The object spread \<^verbatim>\<open>{...a, ...b}\<close>: the keys of \<open>b\<close> overwrite those of \<open>a\<close> in place.\<close>

definition spread :: "payload \<Rightarrow> payload \<Rightarrow> payload" where
  "spread a b = fold (\<lambda>(k, v) m. AList.update k v m) b a"

lemma map_of_spread: "wf_map b \<Longrightarrow> map_of (spread a b) = map_of a ++ map_of b"
proof (induction b arbitrary: a)
  case Nil
  then show ?case by (simp add: spread_def)
next
  case (Cons p b)
  obtain k v where p: "p = (k, v)" by (cases p)
  have "spread a (p # b) = spread (AList.update k v a) b" by (simp add: spread_def p)
  with Cons p show ?case
    by (auto simp: map_add_def fun_eq_iff split: option.splits dest: map_of_SomeD) (force dest: map_of_SomeD)
qed

lemma wf_map_spread: "wf_map a \<Longrightarrow> wf_map (spread a b)"
  by (induction b arbitrary: a) (auto simp: spread_def distinct_update)

section \<open>The canonical form\<close>

text \<open>Two objects with the same members have the same canonical form, whatever the key order.\<close>

lemma sort_key_canonical:
  assumes "distinct (map fst xs)" "distinct (map fst ys)" "set xs = set ys"
  shows "sort_key fst xs = sort_key (fst :: 'a::linorder \<times> 'b \<Rightarrow> 'a) ys"
proof (rule map_sorted_distinct_set_unique [of fst])
  have d: "distinct (map fst (sort_key fst zs))" if "distinct (map fst zs)" for zs :: "('a \<times> 'b) list"
    using that by (simp add: distinct_map)
  show "distinct (map fst (sort_key fst xs))" "distinct (map fst (sort_key fst ys))"
    using assms d by blast+
  show "inj_on fst (set (sort_key fst xs) \<union> set (sort_key fst ys))"
    using assms by (simp add: distinct_map)
qed (use assms in auto)

lemma sortDeep_obj_cong:
  assumes "wf_map a" "wf_map b" "map_of a = map_of b"
  shows "sortDeep (JObj a) = sortDeep (JObj b)"
proof -
  let ?f = "\<lambda>p. (fst p, sortDeep (snd p))"
  have "set a = set b" using assms by (metis map_of_inject_set)
  then have "sort_key fst (map ?f a) = sort_key fst (map ?f b)"
    using assms by (intro sort_key_canonical) (simp_all add: comp_def)
  then show ?thesis by simp
qed

end
