(* ===== verification/BlockDoc.thy ===== *)
theory BlockDoc
  imports Rga Json "HOL-Library.Product_Lexorder"
begin

text \<open>
  Rich-text documents, \<^verbatim>\<open>packages/collab/src/block-doc.ts\<close>: one replicated sequence whose elements are
  characters and block markers, with two last-writer-wins layers on top, the attributes of a block and
  the inline marks over a range of characters. The class \<^verbatim>\<open>BlockDoc\<close> is the record \<open>block_doc\<close>.

  A block type and a mark type are the strings the code uses. Text is a list of UTF-16 code units.
\<close>

section \<open>Operations and state\<close>

datatype elem_kind = CharEl "u16 list" | BlockEl string

record block_ins =
  bi_id :: rga_id
  bi_origin :: "rga_id option"
  bi_kind :: elem_kind

record attr_op =
  ao_opId :: rga_id
  ao_block :: "rga_id option"
  ao_key :: string
  ao_value :: json

record mark_op =
  mo_opId :: rga_id
  mo_start :: rga_id
  mo_end :: rga_id
  mo_type :: string
  mo_value :: "string option"
  mo_remove :: bool

datatype block_op = BIns block_ins | BDel del_op | BAttr attr_op | BMark mark_op

fun blockOpId :: "block_op \<Rightarrow> rga_id" where
  "blockOpId (BIns p) = bi_id p"
| "blockOpId (BDel p) = do_opId p"
| "blockOpId (BAttr p) = ao_opId p"
| "blockOpId (BMark p) = mo_opId p"

record elem =
  el_id :: rga_id
  el_origin :: "rga_id option"
  el_deleted :: bool
  el_kind :: elem_kind

record lww =
  lw_value :: json
  lw_lamport :: nat
  lw_site :: string

record mark_entry =
  mk_start :: rga_id
  mk_end :: rga_id
  mk_type :: string
  mk_value :: "string option"
  mk_removed :: bool
  mk_lamport :: nat
  mk_site :: string

type_synonym attr_map = "(string \<times> (string \<times> lww) list) list"

record block_doc =
  bd_site :: string
  bd_counter :: nat
  bd_elems :: "elem list"
  bd_byId :: "string \<rightharpoonup> nat"
  bd_buffer :: "block_ins list"
  bd_delBuffer :: "del_op list"
  bd_applied :: "string set"
  bd_seen :: state_vector
  bd_log :: "block_op list"
  bd_attrs :: attr_map
  bd_marks :: "(string \<times> mark_entry) list"

definition block_empty :: "string \<Rightarrow> block_doc" where
  "block_empty site = \<lparr>bd_site = site, bd_counter = 0, bd_elems = [], bd_byId = Map.empty, bd_buffer = [],
     bd_delBuffer = [], bd_applied = {}, bd_seen = Map.empty, bd_log = [], bd_attrs = [], bd_marks = []\<rparr>"

definition LEADING :: string where
  "LEADING = ''__leading__''"

definition blockKey :: "rga_id option \<Rightarrow> string" where
  "blockKey i = (case i of None \<Rightarrow> LEADING | Some i \<Rightarrow> idKey i)"

definition lwwWins :: "lww \<Rightarrow> lww \<Rightarrow> bool" where
  "lwwWins a b \<longleftrightarrow> lw_lamport a > lw_lamport b \<or> (lw_lamport a = lw_lamport b \<and> lw_site a > lw_site b)"

definition markKey :: "mark_op \<Rightarrow> string" where
  "markKey p = idKey (mo_start p) @ ''|'' @ idKey (mo_end p) @ ''|'' @ mo_type p"

section \<open>Applying operations\<close>

fun bd_reindex_from :: "nat \<Rightarrow> elem list \<Rightarrow> (string \<rightharpoonup> nat) \<Rightarrow> (string \<rightharpoonup> nat)" where
  "bd_reindex_from i [] m = m"
| "bd_reindex_from i (e # es) m = bd_reindex_from (Suc i) es (m(idKey (el_id e) \<mapsto> i))"

definition bd_reindex :: "elem list \<Rightarrow> (string \<rightharpoonup> nat)" where
  "bd_reindex es = bd_reindex_from 0 es Map.empty"

function bd_skip :: "elem list \<Rightarrow> rga_id \<Rightarrow> nat \<Rightarrow> nat" where
  "bd_skip es oid i = (if i < length es \<and> idGreater (el_id (es ! i)) oid then bd_skip es oid (Suc i) else i)"
  by pat_completeness auto
termination
  by (relation "measure (\<lambda>(es, oid, i). length es - i)") auto

declare bd_skip.simps [simp del]

definition new_elem :: "block_ins \<Rightarrow> elem" where
  "new_elem p = \<lparr>el_id = bi_id p, el_origin = bi_origin p, el_deleted = False, el_kind = bi_kind p\<rparr>"

definition bd_integrate :: "block_doc \<Rightarrow> block_ins \<Rightarrow> block_doc" where
  "bd_integrate d p =
     (let start = (case bi_origin p of
                     None \<Rightarrow> 0
                   | Some r \<Rightarrow> (case bd_byId d (idKey r) of None \<Rightarrow> 0 | Some j \<Rightarrow> j + 1));
          i = bd_skip (bd_elems d) (bi_id p) start;
          es = splice_in i (new_elem p) (bd_elems d)
      in d\<lparr>bd_elems := es, bd_byId := bd_reindex es\<rparr>)"

definition bump :: "rga_id \<Rightarrow> block_doc \<Rightarrow> block_doc" where
  "bump i d =
     d\<lparr>bd_seen := (bd_seen d)(id_site i \<mapsto> max (nullish (bd_seen d (id_site i)) 0) (id_counter i)),
       bd_counter := max (bd_counter d) (id_counter i)\<rparr>"

definition bd_record :: "block_doc \<Rightarrow> block_op \<Rightarrow> block_doc" where
  "bd_record d p =
     (let d1 = bump (blockOpId p) (d\<lparr>bd_applied := insert (idKey (blockOpId p)) (bd_applied d)\<rparr>)
      in d1\<lparr>bd_log := bd_log d1 @ [p]\<rparr>)"

definition bd_tombstone :: "block_doc \<Rightarrow> nat \<Rightarrow> block_doc" where
  "bd_tombstone d idx = d\<lparr>bd_elems := (bd_elems d)[idx := (bd_elems d ! idx)\<lparr>el_deleted := True\<rparr>]\<rparr>"

definition bd_origin_here :: "block_doc \<Rightarrow> block_ins \<Rightarrow> bool" where
  "bd_origin_here d p \<longleftrightarrow> (case bi_origin p of None \<Rightarrow> True | Some r \<Rightarrow> bd_byId d (idKey r) \<noteq> None)"

fun bd_drain_ins :: "block_doc \<Rightarrow> block_ins list \<Rightarrow> block_doc \<times> block_ins list \<times> bool" where
  "bd_drain_ins d [] = (d, [], False)"
| "bd_drain_ins d (p # ps) =
     (if bd_origin_here d p then
        let d' = (if idKey (bi_id p) \<notin> bd_applied d \<and> bd_byId d (idKey (bi_id p)) = None
                  then bd_record (bd_integrate d p) (BIns p) else d);
            (d'', kept, _) = bd_drain_ins d' ps
        in (d'', kept, True)
      else
        let (d'', kept, progressed) = bd_drain_ins d ps in (d'', p # kept, progressed))"

fun bd_drain_del :: "block_doc \<Rightarrow> del_op list \<Rightarrow> block_doc \<times> del_op list \<times> bool" where
  "bd_drain_del d [] = (d, [], False)"
| "bd_drain_del d (p # ps) =
     (case bd_byId d (idKey (do_target p)) of
        Some idx \<Rightarrow>
          let d' = (if idKey (do_opId p) \<notin> bd_applied d
                    then bd_record (bd_tombstone d idx) (BDel p) else d);
              (d'', kept, _) = bd_drain_del d' ps
          in (d'', kept, True)
      | None \<Rightarrow>
          let (d'', kept, progressed) = bd_drain_del d ps in (d'', p # kept, progressed))"

definition bd_drain_pass :: "block_doc \<Rightarrow> block_doc \<times> bool" where
  "bd_drain_pass d =
     (let (d1, ins, p1) = bd_drain_ins d (bd_buffer d);
          d2 = d1\<lparr>bd_buffer := ins\<rparr>;
          (d3, dels, p2) = bd_drain_del d2 (bd_delBuffer d2)
      in (d3\<lparr>bd_delBuffer := dels\<rparr>, p1 \<or> p2))"

lemma bd_buffers [simp]:
  "bd_buffer (bd_record d p) = bd_buffer d" "bd_delBuffer (bd_record d p) = bd_delBuffer d"
  "bd_buffer (bd_integrate d q) = bd_buffer d" "bd_delBuffer (bd_integrate d q) = bd_delBuffer d"
  "bd_buffer (bd_tombstone d i) = bd_buffer d" "bd_delBuffer (bd_tombstone d i) = bd_delBuffer d"
  by (simp_all add: bd_record_def bump_def bd_integrate_def bd_tombstone_def Let_def)

lemma bd_drain_ins_buffers:
  assumes "bd_drain_ins d ps = (d', kept, pr)"
  shows "bd_buffer d' = bd_buffer d \<and> bd_delBuffer d' = bd_delBuffer d \<and>
    length kept \<le> length ps \<and> (pr \<longrightarrow> length kept < length ps)"
  using assms
  by (induction d ps arbitrary: d' kept pr rule: bd_drain_ins.induct)
     (fastforce simp: Let_def split: if_splits prod.splits)+

lemma bd_drain_del_buffers:
  assumes "bd_drain_del d ps = (d', kept, pr)"
  shows "bd_buffer d' = bd_buffer d \<and> bd_delBuffer d' = bd_delBuffer d \<and>
    length kept \<le> length ps \<and> (pr \<longrightarrow> length kept < length ps)"
  using assms
  by (induction d ps arbitrary: d' kept pr rule: bd_drain_del.induct)
     (fastforce simp: Let_def split: if_splits prod.splits option.splits)+

lemma bd_drain_pass_shrinks:
  assumes "bd_drain_pass d = (d', True)"
  shows "length (bd_buffer d') + length (bd_delBuffer d') < length (bd_buffer d) + length (bd_delBuffer d)"
proof -
  obtain d1 ins p1 where 1: "bd_drain_ins d (bd_buffer d) = (d1, ins, p1)" by (metis prod_cases3)
  obtain d3 dels p2 where 3: "bd_drain_del (d1\<lparr>bd_buffer := ins\<rparr>) (bd_delBuffer d1) = (d3, dels, p2)"
    by (metis prod_cases3)
  from assms 1 3 have "d' = d3\<lparr>bd_delBuffer := dels\<rparr>" "p1 \<or> p2"
    by (auto simp: bd_drain_pass_def)
  with bd_drain_ins_buffers [OF 1] bd_drain_del_buffers [OF 3] show ?thesis by auto
qed

function bd_drain :: "block_doc \<Rightarrow> block_doc" where
  "bd_drain d = (let (d', progressed) = bd_drain_pass d in if progressed then bd_drain d' else d')"
  by pat_completeness auto
termination
  by (relation "measure (\<lambda>d. length (bd_buffer d) + length (bd_delBuffer d))")
     (auto dest: bd_drain_pass_shrinks [OF sym])

declare bd_drain.simps [simp del]

definition set_attr :: "attr_op \<Rightarrow> attr_map \<Rightarrow> attr_map" where
  "set_attr p attrs =
     (let bk = blockKey (ao_block p);
          m = nullish (map_of attrs bk) [];
          cand = \<lparr>lw_value = ao_value p, lw_lamport = id_counter (ao_opId p), lw_site = id_site (ao_opId p)\<rparr>
      in if (case map_of m (ao_key p) of None \<Rightarrow> True | Some cur \<Rightarrow> lwwWins cand cur)
         then AList.update bk (AList.update (ao_key p) cand m) attrs else attrs)"

definition set_mark :: "mark_op \<Rightarrow> (string \<times> mark_entry) list \<Rightarrow> (string \<times> mark_entry) list" where
  "set_mark p marks =
     (let lamport = id_counter (mo_opId p); site = id_site (mo_opId p) in
      if (case map_of marks (markKey p) of None \<Rightarrow> True
          | Some cur \<Rightarrow> lamport > mk_lamport cur \<or> (lamport = mk_lamport cur \<and> site > mk_site cur))
      then AList.update (markKey p)
        \<lparr>mk_start = mo_start p, mk_end = mo_end p, mk_type = mo_type p, mk_value = mo_value p,
         mk_removed = mo_remove p, mk_lamport = lamport, mk_site = site\<rparr> marks
      else marks)"

fun bd_apply :: "block_doc \<Rightarrow> block_op \<Rightarrow> block_doc \<times> bool" where
  "bd_apply d (BIns p) =
     (if idKey (bi_id p) \<in> bd_applied d then (d, False)
      else if bd_byId d (idKey (bi_id p)) \<noteq> None
      then (d\<lparr>bd_applied := insert (idKey (bi_id p)) (bd_applied d)\<rparr>, False)
      else if \<not> bd_origin_here d p then (d\<lparr>bd_buffer := bd_buffer d @ [p]\<rparr>, False)
      else (bd_drain (bd_record (bd_integrate d p) (BIns p)), True))"
| "bd_apply d (BDel p) =
     (if idKey (do_opId p) \<in> bd_applied d then (d, False)
      else case bd_byId d (idKey (do_target p)) of
          None \<Rightarrow> (d\<lparr>bd_delBuffer := bd_delBuffer d @ [p]\<rparr>, False)
        | Some idx \<Rightarrow> (bd_record (bd_tombstone d idx) (BDel p), True))"
| "bd_apply d (BAttr p) =
     (if idKey (ao_opId p) \<in> bd_applied d then (d, False)
      else (bd_record (d\<lparr>bd_attrs := set_attr p (bd_attrs d)\<rparr>) (BAttr p), True))"
| "bd_apply d (BMark p) =
     (if idKey (mo_opId p) \<in> bd_applied d then (d, False)
      else (bd_record (d\<lparr>bd_marks := set_mark p (bd_marks d)\<rparr>) (BMark p), True))"

fun bd_applyMany :: "block_doc \<Rightarrow> block_op list \<Rightarrow> block_doc \<times> nat" where
  "bd_applyMany d [] = (d, 0)"
| "bd_applyMany d (p # ps) =
     (let (d', landed) = bd_apply d p; (d'', n) = bd_applyMany d' ps
      in (d'', (if landed then Suc n else n)))"

definition bd_stateVector :: "block_doc \<Rightarrow> state_vector" where
  "bd_stateVector d = bd_seen d"

definition bd_opsSince :: "block_doc \<Rightarrow> state_vector \<Rightarrow> block_op list" where
  "bd_opsSince d since =
     filter (\<lambda>p. id_counter (blockOpId p) > nullish (since (id_site (blockOpId p))) 0) (bd_log d)"

section \<open>Reads\<close>

record rendered_block =
  rb_id :: "rga_id option"
  rb_type :: json
  rb_attrs :: payload
  rb_text :: "u16 list"
  rb_marks :: "(nat \<times> nat \<times> string \<times> string option) list"

definition elemType :: "block_doc \<Rightarrow> rga_id \<Rightarrow> string option" where
  "elemType d i =
     (case bd_byId d (idKey i) of
        None \<Rightarrow> None
      | Some idx \<Rightarrow> (case el_kind (bd_elems d ! idx) of BlockEl bt \<Rightarrow> Some bt | CharEl _ \<Rightarrow> None))"

text \<open>The value of the attribute \<^verbatim>\<open>type\<close> unless absent or null.\<close>

definition effectiveType :: "block_doc \<Rightarrow> rga_id option \<Rightarrow> string \<Rightarrow> json" where
  "effectiveType d marker fallback =
     (case map_of (nullish (map_of (bd_attrs d) (blockKey marker)) []) ''type'' of
        None \<Rightarrow> JStr fallback
      | Some a \<Rightarrow> (if lw_value a = JNull then JStr fallback else lw_value a))"

definition effectiveAttrs :: "block_doc \<Rightarrow> rga_id option \<Rightarrow> payload" where
  "effectiveAttrs d marker =
     map (\<lambda>(k, v). (k, lw_value v))
       (filter (\<lambda>(k, v). k \<noteq> ''type'') (nullish (map_of (bd_attrs d) (blockKey marker)) []))"

definition char_pos :: "(rga_id \<times> u16 list) list \<Rightarrow> rga_id \<Rightarrow> nat option" where
  "char_pos chars i = map_of (rev (zip (map (idKey \<circ> fst) chars) [0..<length chars])) (idKey i)"

definition renderMark :: "(rga_id \<times> u16 list) list \<Rightarrow> mark_entry \<Rightarrow> (nat \<times> nat \<times> string \<times> string option) option" where
  "renderMark chars mk =
     (if mk_removed mk then None
      else case (char_pos chars (mk_start mk), char_pos chars (mk_end mk)) of
          (Some s, Some e) \<Rightarrow> Some (min s e, max s e + 1, mk_type mk, mk_value mk)
        | _ \<Rightarrow> None)"

definition renderBlock :: "block_doc \<Rightarrow> rga_id option \<times> (rga_id \<times> u16 list) list \<Rightarrow> rendered_block" where
  "renderBlock d cur =
     (let (i, chars) = cur;
          markerType = (case i of None \<Rightarrow> ''paragraph'' | Some i \<Rightarrow> nullish (elemType d i) ''paragraph'')
      in \<lparr>rb_id = i, rb_type = effectiveType d i markerType, rb_attrs = effectiveAttrs d i,
          rb_text = concat (map snd chars),
          rb_marks = sort_key (\<lambda>(f, t, _). (f, t)) (List.map_filter (renderMark chars) (map snd (bd_marks d)))\<rparr>)"

definition flush :: "block_doc \<Rightarrow> (rga_id option \<times> (rga_id \<times> u16 list) list) option \<Rightarrow> rendered_block list" where
  "flush d cur =
     (case cur of None \<Rightarrow> []
      | Some (i, chars) \<Rightarrow> if i \<noteq> None \<or> chars \<noteq> [] then [renderBlock d (i, chars)] else [])"

fun blocks_loop ::
  "block_doc \<Rightarrow> elem list \<Rightarrow> (rga_id option \<times> (rga_id \<times> u16 list) list) option \<Rightarrow> rendered_block list" where
  "blocks_loop d [] cur = flush d cur"
| "blocks_loop d (e # es) cur =
     (if el_deleted e then blocks_loop d es cur
      else case el_kind e of
          BlockEl _ \<Rightarrow> flush d cur @ blocks_loop d es (Some (Some (el_id e), []))
        | CharEl ch \<Rightarrow>
            (let (i, chars) = nullish cur (None, []) in blocks_loop d es (Some (i, chars @ [(el_id e, ch)]))))"

definition bd_blocks :: "block_doc \<Rightarrow> rendered_block list" where
  "bd_blocks d = blocks_loop d (bd_elems d) None"

text \<open>The blocks' texts joined by newlines.\<close>

fun join_lines :: "u16 list list \<Rightarrow> u16 list" where
  "join_lines [] = []"
| "join_lines [l] = l"
| "join_lines (l # ls) = l @ 10 # join_lines ls"

definition bd_text :: "block_doc \<Rightarrow> u16 list" where
  "bd_text d = join_lines (map rb_text (bd_blocks d))"

end
