(* ===== verification/BlockConvergence.thy ===== *)
theory BlockConvergence
  imports BlockDoc RgaConvergence
begin

text \<open>
  Convergence of block documents. The source says it is inherited from the text document: the
  sequence of a block document, with its buffers and the part of its log that inserts and deletes,
  is simulated step by step by an \<open>rga_doc\<close> whose characters encode the elements. The two
  last-writer-wins layers are functions of the set of operations carried out.
\<close>

section \<open>The sequence as a text document\<close>

definition enc_char :: "char \<Rightarrow> u16" where
  "enc_char c = of_nat (of_char c)"

fun enc_kind :: "elem_kind \<Rightarrow> u16 list" where
  "enc_kind (CharEl s) = 0 # s"
| "enc_kind (BlockEl bt) = 1 # map enc_char bt"

lemma enc_char_inj: "enc_char c = enc_char d \<longleftrightarrow> c = d"
proof -
  have less: "(of_char c :: nat) < 2 ^ LENGTH(16)" for c
    by (rule less_le_trans [OF nat_of_char_less_256]) simp
  have "(of_char c :: nat) = unat (enc_char c)" for c
    unfolding enc_char_def using less [of c] by (simp add: unsigned_of_nat take_bit_nat_eq_self)
  then show ?thesis by (metis of_char_eq_iff)
qed

lemma enc_kind_inj: "enc_kind a = enc_kind b \<longleftrightarrow> a = b"
  by (cases a; cases b) (auto simp: list.inj_map_strong enc_char_inj dest: map_injective [OF _ injI])

definition elem_node :: "elem \<Rightarrow> rga_node" where
  "elem_node e = \<lparr>rn_id = el_id e, rn_value = enc_kind (el_kind e), rn_origin = el_origin e, rn_deleted = el_deleted e\<rparr>"

lemma elem_node_inj: "elem_node a = elem_node b \<longleftrightarrow> a = b"
  by (cases a; cases b) (auto simp: elem_node_def enc_kind_inj)

definition ins_of :: "block_ins \<Rightarrow> ins_op" where
  "ins_of p = \<lparr>io_id = bi_id p, io_origin = bi_origin p, io_value = enc_kind (bi_kind p)\<rparr>"

lemma elem_node_simps [simp]:
  "rn_id (elem_node e) = el_id e" "rn_deleted (elem_node e) = el_deleted e"
  "elem_node (new_elem p) = new_node (ins_of p)" "elem_node (e\<lparr>el_deleted := True\<rparr>) = (elem_node e)\<lparr>rn_deleted := True\<rparr>"
  "io_id (ins_of p) = bi_id p" "io_origin (ins_of p) = bi_origin p"
  by (simp_all add: elem_node_def new_elem_def new_node_def ins_of_def)

fun struct_op :: "block_op \<Rightarrow> rga_op option" where
  "struct_op (BIns p) = Some (Ins (ins_of p))"
| "struct_op (BDel q) = Some (Del q)"
| "struct_op (BAttr _) = None"
| "struct_op (BMark _) = None"

lemma struct_op_id: "struct_op p = Some q \<Longrightarrow> opIdOf q = blockOpId p"
  by (cases p) auto

lemma struct_op_inj: "struct_op p = Some q \<Longrightarrow> struct_op p' = Some q \<Longrightarrow> p = p'"
  by (cases p; cases p') (auto simp: ins_of_def enc_kind_inj)

definition struct_ops :: "block_op list \<Rightarrow> rga_op list" where
  "struct_ops ps = List.map_filter struct_op ps"

lemma struct_ops_simps [simp]:
  "struct_ops [] = []" "struct_ops (p # ps) = (case struct_op p of None \<Rightarrow> struct_ops ps | Some q \<Rightarrow> q # struct_ops ps)"
  "struct_ops (ps @ qs) = struct_ops ps @ struct_ops qs"
  by (simp_all add: struct_ops_def map_filter_def split: option.split)

lemma set_struct_ops: "set (struct_ops ps) = {q. \<exists>p\<in>set ps. struct_op p = Some q}"
  by (simp add: struct_ops_def set_map_filter)

section \<open>Bookkeeping and layers\<close>

text \<open>A log entry with the same identifier, for the facts about state vectors and counters.\<close>

definition as_rga :: "block_op \<Rightarrow> rga_op" where
  "as_rga p = Del \<lparr>do_opId = blockOpId p, do_target = blockOpId p\<rparr>"

definition book_ok :: "block_doc \<Rightarrow> bool" where
  "book_ok d \<longleftrightarrow> seen_ok (map as_rga (bd_log d)) (bd_seen d) \<and> counter_ok (map as_rga (bd_log d)) (bd_counter d)"

lemma book_record: "book_ok d \<Longrightarrow> book_ok (bd_record d p)"
proof -
  assume ok: "book_ok d"
  let ?r = "(rga_empty [])\<lparr>rd_log := map as_rga (bd_log d), rd_seen := bd_seen d, rd_counter := bd_counter d\<rparr>"
  have "seen_ok (rd_log ?r) (rd_seen ?r)" "counter_ok (rd_log ?r) (rd_counter ?r)"
    using ok by (simp_all add: book_ok_def)
  from seen_record [OF this(1), of "as_rga p"] counter_record [OF this(2), of "as_rga p"]
  show ?thesis
    by (simp add: book_ok_def bd_record_def bump_def rga_record_def Let_def as_rga_def)
qed

text \<open>The winner of a set of writes: the one with the greatest identifier.\<close>

definition winner :: "('p \<Rightarrow> rga_id) \<Rightarrow> 'p set \<Rightarrow> 'p \<Rightarrow> bool" where
  "winner f A p \<longleftrightarrow> p \<in> A \<and> (\<forall>q\<in>A. f q \<le> f p)"

lemma winner_unique: "winner f A p \<Longrightarrow> winner f A q \<Longrightarrow> inj_on f A \<Longrightarrow> p = q"
  unfolding winner_def inj_on_def by (metis antisym)

definition attr_ops :: "block_op list \<Rightarrow> string \<Rightarrow> string \<Rightarrow> attr_op set" where
  "attr_ops ps bk k = {p. BAttr p \<in> set ps \<and> blockKey (ao_block p) = bk \<and> ao_key p = k}"

definition mark_ops :: "block_op list \<Rightarrow> string \<Rightarrow> mark_op set" where
  "mark_ops ps k = {p. BMark p \<in> set ps \<and> markKey p = k}"

definition attr_at :: "attr_map \<Rightarrow> string \<Rightarrow> string \<Rightarrow> lww option" where
  "attr_at attrs bk k = map_of (nullish (map_of attrs bk) []) k"

definition written :: "attr_op \<Rightarrow> lww" where
  "written p = \<lparr>lw_value = ao_value p, lw_lamport = id_counter (ao_opId p), lw_site = id_site (ao_opId p)\<rparr>"

definition marked :: "mark_op \<Rightarrow> mark_entry" where
  "marked p = \<lparr>mk_start = mo_start p, mk_end = mo_end p, mk_type = mo_type p, mk_value = mo_value p,
     mk_removed = mo_remove p, mk_lamport = id_counter (mo_opId p), mk_site = id_site (mo_opId p)\<rparr>"

text \<open>A cell of a layer holds what the winner wrote, or nothing when nobody wrote.\<close>

definition tracked :: "('p \<Rightarrow> rga_id) \<Rightarrow> ('p \<Rightarrow> 'c) \<Rightarrow> 'p set \<Rightarrow> 'c option \<Rightarrow> bool" where
  "tracked f g A w \<longleftrightarrow> (case w of None \<Rightarrow> A = {} | Some c \<Rightarrow> \<exists>p. winner f A p \<and> c = g p)"

definition attrs_ok :: "block_op list \<Rightarrow> attr_map \<Rightarrow> bool" where
  "attrs_ok ps attrs \<longleftrightarrow> wf_map attrs \<and> (\<forall>(bk, m)\<in>set attrs. wf_map m \<and> m \<noteq> []) \<and>
     (\<forall>bk k. tracked ao_opId written (attr_ops ps bk k) (attr_at attrs bk k))"

definition marks_ok :: "block_op list \<Rightarrow> (string \<times> mark_entry) list \<Rightarrow> bool" where
  "marks_ok ps marks \<longleftrightarrow> wf_map marks \<and> (\<forall>k. tracked mo_opId marked (mark_ops ps k) (map_of marks k))"

lemma attr_at_set:
  "attr_at (set_attr p attrs) bk k =
    (if bk = blockKey (ao_block p) \<and> k = ao_key p
     then (case attr_at attrs bk k of None \<Rightarrow> Some (written p)
           | Some c \<Rightarrow> Some (if lwwWins (written p) c then written p else c))
     else attr_at attrs bk k)"
  by (auto simp: attr_at_def set_attr_def Let_def written_def split: option.split)

lemma lwwWins_written: "lwwWins (written p) (written q) \<longleftrightarrow> ao_opId q < ao_opId p"
  by (auto simp: lwwWins_def written_def less_rga_id_iff)

lemma attr_ops_simps:
  "attr_ops (ps @ [BAttr p]) bk k =
    (if bk = blockKey (ao_block p) \<and> k = ao_key p then insert p (attr_ops ps bk k) else attr_ops ps bk k)"
  "attr_ops (ps @ [BIns i]) bk k = attr_ops ps bk k" "attr_ops (ps @ [BDel q]) bk k = attr_ops ps bk k"
  "attr_ops (ps @ [BMark m]) bk k = attr_ops ps bk k"
  by (auto simp: attr_ops_def)

lemma mark_ops_simps:
  "mark_ops (ps @ [BMark p]) k = (if k = markKey p then insert p (mark_ops ps k) else mark_ops ps k)"
  "mark_ops (ps @ [BIns i]) k = mark_ops ps k" "mark_ops (ps @ [BDel q]) k = mark_ops ps k"
  "mark_ops (ps @ [BAttr a]) k = mark_ops ps k"
  by (auto simp: mark_ops_def)

lemma winner_insert:
  assumes "winner f A q"
  shows "winner f (insert p A) (if f q < f p then p else q)"
  using assms unfolding winner_def by (auto intro: order_trans less_imp_le)

lemma tracked_insert:
  assumes "tracked f g A w" "\<And>q. beats (g q) \<longleftrightarrow> f q < f p"
  shows "tracked f g (insert p A) (case w of None \<Rightarrow> Some (g p) | Some c \<Rightarrow> Some (if beats c then g p else c))"
proof (cases w)
  case None
  with assms(1) show ?thesis by (simp add: tracked_def winner_def)
next
  case (Some c)
  with assms(1) obtain q where q: "winner f A q" "c = g q" by (auto simp: tracked_def)
  have "(if beats c then g p else c) = g (if f q < f p then p else q)" by (simp add: q(2) assms(2))
  with winner_insert [OF q(1), of p] Some show ?thesis by (simp only: tracked_def option.case) blast
qed

lemma tracked_unique:
  assumes "tracked f g A v" "tracked f g A w" "inj_on f A"
  shows "v = w"
  using assms winner_unique [of f A] by (cases v; cases w) (auto simp: tracked_def winner_def [of f "{}"])

lemma set_attr_wf:
  assumes "wf_map attrs" "\<forall>(bk, m)\<in>set attrs. wf_map m \<and> m \<noteq> []"
  shows "wf_map (set_attr p attrs)" "\<forall>(bk, m)\<in>set (set_attr p attrs). wf_map m \<and> m \<noteq> []"
proof -
  let ?bk = "blockKey (ao_block p)"
  have "wf_map (nullish (map_of attrs ?bk) [])" using assms(2) by (cases "map_of attrs ?bk") (auto dest: map_of_SomeD)
  then have m: "wf_map (AList.update (ao_key p) v (nullish (map_of attrs ?bk) []))" for v by (rule wf_map_update)
  show "wf_map (set_attr p attrs)" using assms(1) by (simp add: set_attr_def Let_def)
  show "\<forall>(bk, m)\<in>set (set_attr p attrs). wf_map m \<and> m \<noteq> []"
  proof -
    have "wf_map w \<and> w \<noteq> []" if "(bk, w) \<in> set (AList.update ?bk (AList.update (ao_key p) v (nullish (map_of attrs ?bk) [])) attrs)"
      for bk w v
    proof -
      let ?u = "AList.update (ao_key p) v (nullish (map_of attrs ?bk) [])"
      have "(bk, w) \<in> insert (?bk, ?u) (set attrs)" using that set_update_subset by (rule subsetD [rotated])
      moreover have "?u \<noteq> []" by (rule update_nonempty)
      ultimately show ?thesis using m [of v] assms(2) by (elim insertE) auto
    qed
    with assms(2) show ?thesis unfolding set_attr_def Let_def by auto
  qed
qed

lemma attrs_ok_set: "attrs_ok ps attrs \<Longrightarrow> attrs_ok (ps @ [BAttr p]) (set_attr p attrs)"
  using tracked_insert [of ao_opId written _ _ "lwwWins (written p)" p, OF _ lwwWins_written] set_attr_wf [of attrs p]
  unfolding attrs_ok_def attr_at_set attr_ops_simps by simp

lemma map_of_set_mark:
  "map_of (set_mark p marks) k =
     (if k = markKey p
      then (case map_of marks k of None \<Rightarrow> Some (marked p)
            | Some c \<Rightarrow> Some (if id_counter (mo_opId p) > mk_lamport c \<or>
                (id_counter (mo_opId p) = mk_lamport c \<and> id_site (mo_opId p) > mk_site c) then marked p else c))
      else map_of marks k)"
  by (auto simp: set_mark_def Let_def marked_def split: option.split)

lemma marks_ok_set: "marks_ok ps marks \<Longrightarrow> marks_ok (ps @ [BMark p]) (set_mark p marks)"
proof -
  have "(id_counter (mo_opId p) > mk_lamport (marked q) \<or>
      (id_counter (mo_opId p) = mk_lamport (marked q) \<and> id_site (mo_opId p) > mk_site (marked q))) \<longleftrightarrow> mo_opId q < mo_opId p" for q
    by (auto simp: marked_def less_rga_id_iff)
  note ins = tracked_insert [of mo_opId marked _ _ "\<lambda>c. id_counter (mo_opId p) > mk_lamport c \<or>
      (id_counter (mo_opId p) = mk_lamport c \<and> id_site (mo_opId p) > mk_site c)" p, OF _ this]
  assume "marks_ok ps marks"
  moreover from this have "wf_map (set_mark p marks)" by (simp add: marks_ok_def set_mark_def Let_def)
  ultimately show ?thesis
    using ins unfolding marks_ok_def map_of_set_mark mark_ops_simps by simp
qed

lemma attrs_ok_other:
  "attrs_ok (ps @ [BIns i]) attrs = attrs_ok ps attrs" "attrs_ok (ps @ [BDel q]) attrs = attrs_ok ps attrs"
  "attrs_ok (ps @ [BMark m]) attrs = attrs_ok ps attrs"
  by (simp_all add: attrs_ok_def attr_ops_simps)

lemma marks_ok_other:
  "marks_ok (ps @ [BIns i]) marks = marks_ok ps marks" "marks_ok (ps @ [BDel q]) marks = marks_ok ps marks"
  "marks_ok (ps @ [BAttr a]) marks = marks_ok ps marks"
  by (simp_all add: marks_ok_def mark_ops_simps)

end
