(* ===== verification/BlockReplica.thy ===== *)
theory BlockReplica
  imports BlockConvergence
begin

text \<open>
  The step-by-step simulation of a block document by a text document, and what follows: block
  replicas given the same operations agree.
\<close>

section \<open>The simulation\<close>

lemma bd_reindex_node: "bd_reindex es = reindex (map elem_node es)"
proof -
  have "bd_reindex_from i es m = reindex_from i (map elem_node es) m" for i m
    by (induction es arbitrary: i m) simp_all
  then show ?thesis by (simp add: bd_reindex_def reindex_def)
qed

lemma bd_skip_node: "bd_skip es oid i = skip_greater (map elem_node es) oid i"
proof (induction es oid i rule: bd_skip.induct)
  case (1 es oid i)
  then show ?case
    by (subst bd_skip.simps, subst skip_greater.simps) auto
qed

lemma map_splice_in: "map f (splice_in i x xs) = splice_in i (f x) (map f xs)"
  by (simp add: splice_in_def take_map drop_map)

definition bd_sim :: "block_op set \<Rightarrow> block_doc \<Rightarrow> rga_doc \<Rightarrow> bool" where
  "bd_sim S d r \<longleftrightarrow>
     rd_nodes r = map elem_node (bd_elems d) \<and> rd_byId r = bd_byId d \<and>
     rd_buffer r = map ins_of (bd_buffer d) \<and> rd_delBuffer r = bd_delBuffer d \<and> rd_log r = struct_ops (bd_log d) \<and>
     (\<forall>p\<in>S. struct_op p \<noteq> None \<longrightarrow> (idKey (blockOpId p) \<in> bd_applied d \<longleftrightarrow> idKey (blockOpId p) \<in> rd_applied r)) \<and>
     (\<forall>p\<in>S. struct_op p = None \<longrightarrow> (idKey (blockOpId p) \<in> bd_applied d \<longleftrightarrow> p \<in> set (bd_log d))) \<and>
     set (bd_log d) \<subseteq> S \<and> BIns ` set (bd_buffer d) \<subseteq> S \<and> BDel ` set (bd_delBuffer d) \<subseteq> S \<and>
     attrs_ok (bd_log d) (bd_attrs d) \<and> marks_ok (bd_log d) (bd_marks d) \<and> book_ok d"

lemma sim_applied:
  "bd_sim S d r \<Longrightarrow> BIns p \<in> S \<Longrightarrow> idKey (bi_id p) \<in> bd_applied d \<longleftrightarrow> idKey (bi_id p) \<in> rd_applied r"
  "bd_sim S d r \<Longrightarrow> BDel q \<in> S \<Longrightarrow> idKey (do_opId q) \<in> bd_applied d \<longleftrightarrow> idKey (do_opId q) \<in> rd_applied r"
  unfolding bd_sim_def by force+

lemma sim_byId: "bd_sim S d r \<Longrightarrow> rd_byId r = bd_byId d"
  by (simp add: bd_sim_def)

lemma sim_origin_here: "bd_sim S d r \<Longrightarrow> origin_here r (ins_of p) = bd_origin_here d p"
  by (simp add: origin_here_def bd_origin_here_def sim_byId split: option.split)

lemma bd_record_simps [simp]:
  "bd_elems (bd_record d p) = bd_elems d" "bd_byId (bd_record d p) = bd_byId d"
  "bd_log (bd_record d p) = bd_log d @ [p]" "bd_attrs (bd_record d p) = bd_attrs d" "bd_marks (bd_record d p) = bd_marks d"
  "bd_applied (bd_record d p) = insert (idKey (blockOpId p)) (bd_applied d)"
  by (simp_all add: bd_record_def bump_def Let_def)

lemma bd_integrate_simps [simp]:
  "bd_log (bd_integrate d p) = bd_log d" "bd_applied (bd_integrate d p) = bd_applied d"
  "bd_attrs (bd_integrate d p) = bd_attrs d" "bd_marks (bd_integrate d p) = bd_marks d"
  "book_ok (bd_integrate d p) = book_ok d"
  by (simp_all add: bd_integrate_def Let_def book_ok_def)

lemma bd_tombstone_simps [simp]:
  "bd_log (bd_tombstone d j) = bd_log d" "bd_applied (bd_tombstone d j) = bd_applied d"
  "bd_attrs (bd_tombstone d j) = bd_attrs d" "bd_marks (bd_tombstone d j) = bd_marks d"
  "bd_byId (bd_tombstone d j) = bd_byId d" "book_ok (bd_tombstone d j) = book_ok d"
  by (simp_all add: bd_tombstone_def book_ok_def)

lemma bd_integrate_byId: "bd_byId (bd_integrate d p) = reindex (map elem_node (bd_elems (bd_integrate d p)))"
  by (simp add: bd_integrate_def Let_def bd_reindex_node)

lemma sim_nodes_integrate:
  assumes "rd_nodes r = map elem_node (bd_elems d)" "rd_byId r = bd_byId d"
  shows "rd_nodes (integrate r (ins_of p)) = map elem_node (bd_elems (bd_integrate d p))"
    "rd_byId (integrate r (ins_of p)) = bd_byId (bd_integrate d p)"
proof -
  show nodes: "rd_nodes (integrate r (ins_of p)) = map elem_node (bd_elems (bd_integrate d p))"
    unfolding integrate_def bd_integrate_def Let_def assms(2) by (simp add: assms(1) bd_skip_node map_splice_in)
  show "rd_byId (integrate r (ins_of p)) = bd_byId (bd_integrate d p)"
    by (simp add: bd_integrate_byId nodes)
qed

lemma sim_nodes_tombstone:
  assumes "rd_nodes r = map elem_node (bd_elems d)"
  shows "rd_nodes (tombstone r j) = map elem_node (bd_elems (bd_tombstone d j))"
proof (cases "j < length (bd_elems d)")
  case True
  then show ?thesis by (simp add: tombstone_def bd_tombstone_def assms map_update)
qed (simp add: tombstone_def bd_tombstone_def assms list_update_beyond not_less)

text \<open>Recording an operation of \<open>S\<close> marks no other operation of \<open>S\<close> as applied.\<close>

lemma sim_record:
  assumes inj: "inj_on blockOpId S" and p: "p \<in> S" and q: "struct_op p = Some q"
    and elems: "rd_nodes r' = map elem_node (bd_elems d')" "rd_byId r' = bd_byId d'"
    and same: "bd_log d' = bd_log d" "bd_applied d' = bd_applied d" "bd_attrs d' = bd_attrs d" "bd_marks d' = bd_marks d"
      "book_ok d' = book_ok d" "bd_buffer d' = bd_buffer d" "bd_delBuffer d' = bd_delBuffer d"
      "rd_log r' = rd_log r" "rd_applied r' = rd_applied r" "rd_buffer r' = rd_buffer r" "rd_delBuffer r' = rd_delBuffer r"
    and sim: "bd_sim S d r"
  shows "bd_sim S (bd_record d' p) (rga_record r' q)"
proof -
  have id: "opIdOf q = blockOpId p" by (rule struct_op_id [OF q])
  have other: "idKey (blockOpId x) \<noteq> idKey (blockOpId p)" if "x \<in> S" "x \<noteq> p" for x
    using inj that p by (auto simp: inj_on_def)
  have layers: "attrs_ok (bd_log d @ [p]) (bd_attrs d)" "marks_ok (bd_log d @ [p]) (bd_marks d)"
    using sim q by (cases p; simp add: bd_sim_def attrs_ok_other marks_ok_other)+
  have plain: "struct_op x = None \<longrightarrow> x \<noteq> p" for x using q by auto
  show ?thesis
    unfolding bd_sim_def
  proof (intro conjI ballI impI)
    fix x assume x: "x \<in> S" "struct_op x \<noteq> None"
    with sim have "idKey (blockOpId x) \<in> bd_applied d \<longleftrightarrow> idKey (blockOpId x) \<in> rd_applied r" by (simp add: bd_sim_def)
    then show "idKey (blockOpId x) \<in> bd_applied (bd_record d' p) \<longleftrightarrow> idKey (blockOpId x) \<in> rd_applied (rga_record r' q)"
      by (simp add: same id)
  next
    fix x assume x: "x \<in> S" "struct_op x = None"
    with sim have "idKey (blockOpId x) \<in> bd_applied d \<longleftrightarrow> x \<in> set (bd_log d)" by (simp add: bd_sim_def)
    with plain x other [OF x(1)] show "idKey (blockOpId x) \<in> bd_applied (bd_record d' p) \<longleftrightarrow> x \<in> set (bd_log (bd_record d' p))"
      by (simp add: same)
  next
    show "book_ok (bd_record d' p)" using sim same(5) by (simp add: book_record bd_sim_def)
  qed (use sim p q layers in \<open>simp_all add: bd_sim_def same elems\<close>)
qed

lemma sim_insert:
  assumes "inj_on blockOpId S" "BIns p \<in> S" "bd_sim S d r"
  shows "bd_sim S (bd_record (bd_integrate d p) (BIns p)) (rga_record (integrate r (ins_of p)) (Ins (ins_of p)))"
  by (rule sim_record [OF assms(1,2) _ _ _ _ _ _ _ _ _ _ _ _ _ _ assms(3)])
    (use assms(3) in \<open>simp_all add: sim_nodes_integrate(1) bd_sim_def bd_integrate_byId\<close>)

lemma sim_delete:
  assumes "inj_on blockOpId S" "BDel p \<in> S" "bd_sim S d r"
  shows "bd_sim S (bd_record (bd_tombstone d j) (BDel p)) (rga_record (tombstone r j) (Del p))"
  by (rule sim_record [OF assms(1,2) _ _ _ _ _ _ _ _ _ _ _ _ _ _ assms(3)])
    (use assms(3) in \<open>simp_all add: sim_nodes_tombstone bd_sim_def\<close>)

lemma sim_buffer: "bd_sim S d r \<Longrightarrow> BIns ` set ps \<subseteq> S \<Longrightarrow> bd_sim S (d\<lparr>bd_buffer := ps\<rparr>) (r\<lparr>rd_buffer := map ins_of ps\<rparr>)"
  by (simp add: bd_sim_def book_ok_def)

lemma sim_delBuffer: "bd_sim S d r \<Longrightarrow> BDel ` set ps \<subseteq> S \<Longrightarrow> bd_sim S (d\<lparr>bd_delBuffer := ps\<rparr>) (r\<lparr>rd_delBuffer := ps\<rparr>)"
  by (simp add: bd_sim_def book_ok_def)

lemma sim_drain_ins:
  assumes "inj_on blockOpId S" "bd_sim S d r" "BIns ` set ps \<subseteq> S" "bd_drain_ins d ps = (d', kept, pr)"
  shows "\<exists>r'. drain_ins r (map ins_of ps) = (r', map ins_of kept, pr) \<and> bd_sim S d' r' \<and> set kept \<subseteq> set ps"
  using assms(2-)
proof (induction ps arbitrary: d r d' kept pr)
  case (Cons p ps)
  have p: "BIns p \<in> S" "BIns ` set ps \<subseteq> S" using Cons.prems(2) by auto
  show ?case
  proof (cases "bd_origin_here d p")
    case True
    define fresh where "fresh \<longleftrightarrow> idKey (bi_id p) \<notin> bd_applied d \<and> bd_byId d (idKey (bi_id p)) = None"
    let ?d = "if fresh then bd_record (bd_integrate d p) (BIns p) else d"
    let ?r = "if fresh then rga_record (integrate r (ins_of p)) (Ins (ins_of p)) else r"
    have sim: "bd_sim S ?d ?r" using sim_insert [OF assms(1) p(1) Cons.prems(1)] Cons.prems(1) by simp
    obtain d'' k q where rest: "bd_drain_ins ?d ps = (d'', k, q)" by (metis prod_cases3)
    obtain r' where r': "drain_ins ?r (map ins_of ps) = (r', map ins_of k, q)" "bd_sim S d'' r'" "set k \<subseteq> set ps"
      using Cons.IH [OF sim p(2) rest] by blast
    have "bd_drain_ins d (p # ps) = (d'', k, True)"
      using True rest by (simp add: fresh_def [symmetric])
    moreover have "drain_ins r (map ins_of (p # ps)) = (r', map ins_of k, True)"
      using True r'(1) sim_applied(1) [OF Cons.prems(1) p(1)] sim_byId [OF Cons.prems(1)]
      by (simp add: sim_origin_here [OF Cons.prems(1)] fresh_def)
    ultimately show ?thesis using Cons.prems(3) r' by auto
  next
    case False
    obtain d'' k q where rest: "bd_drain_ins d ps = (d'', k, q)" by (metis prod_cases3)
    obtain r' where r': "drain_ins r (map ins_of ps) = (r', map ins_of k, q)" "bd_sim S d'' r'" "set k \<subseteq> set ps"
      using Cons.IH [OF Cons.prems(1) p(2) rest] by blast
    then show ?thesis
      using False rest Cons.prems(3) by (auto simp: sim_origin_here [OF Cons.prems(1)])
  qed
qed auto

lemma sim_drain_del:
  assumes "inj_on blockOpId S" "bd_sim S d r" "BDel ` set ps \<subseteq> S" "bd_drain_del d ps = (d', kept, pr)"
  shows "\<exists>r'. drain_del r ps = (r', kept, pr) \<and> bd_sim S d' r' \<and> set kept \<subseteq> set ps"
  using assms(2-)
proof (induction ps arbitrary: d r d' kept pr)
  case (Cons p ps)
  have p: "BDel p \<in> S" "BDel ` set ps \<subseteq> S" using Cons.prems(2) by auto
  show ?case
  proof (cases "bd_byId d (idKey (do_target p))")
    case (Some j)
    define fresh where "fresh \<longleftrightarrow> idKey (do_opId p) \<notin> bd_applied d"
    let ?d = "if fresh then bd_record (bd_tombstone d j) (BDel p) else d"
    let ?r = "if fresh then rga_record (tombstone r j) (Del p) else r"
    have sim: "bd_sim S ?d ?r" using sim_delete [OF assms(1) p(1) Cons.prems(1)] Cons.prems(1) by simp
    obtain d'' k q where rest: "bd_drain_del ?d ps = (d'', k, q)" by (metis prod_cases3)
    obtain r' where r': "drain_del ?r ps = (r', k, q)" "bd_sim S d'' r'" "set k \<subseteq> set ps"
      using Cons.IH [OF sim p(2) rest] by blast
    have "bd_drain_del d (p # ps) = (d'', k, True)"
      using Some rest by (simp add: fresh_def [symmetric])
    moreover have "drain_del r (p # ps) = (r', k, True)"
      using Some r'(1) sim_applied(2) [OF Cons.prems(1) p(1)] sim_byId [OF Cons.prems(1)] by (simp add: fresh_def)
    ultimately show ?thesis using Cons.prems(3) r' by auto
  next
    case None
    obtain d'' k q where rest: "bd_drain_del d ps = (d'', k, q)" by (metis prod_cases3)
    obtain r' where r': "drain_del r ps = (r', k, q)" "bd_sim S d'' r'" "set k \<subseteq> set ps"
      using Cons.IH [OF Cons.prems(1) p(2) rest] by blast
    then show ?thesis
      using None rest Cons.prems(3) by (auto simp: sim_byId [OF Cons.prems(1)])
  qed
qed auto

lemma sim_drain_pass:
  assumes "inj_on blockOpId S" "bd_sim S d r" "bd_drain_pass d = (d', pr)"
  shows "\<exists>r'. drain_pass r = (r', pr) \<and> bd_sim S d' r'"
proof -
  have buf: "BIns ` set (bd_buffer d) \<subseteq> S" "rd_buffer r = map ins_of (bd_buffer d)" using assms(2) by (simp_all add: bd_sim_def)
  obtain d1 k1 p1 where 1: "bd_drain_ins d (bd_buffer d) = (d1, k1, p1)" by (metis prod_cases3)
  obtain r1 where r1: "drain_ins r (rd_buffer r) = (r1, map ins_of k1, p1)" "bd_sim S d1 r1" "set k1 \<subseteq> set (bd_buffer d)"
    using sim_drain_ins [OF assms(1,2) buf(1) 1] buf(2) by auto
  then have k1: "BIns ` set k1 \<subseteq> S" using buf(1) by auto
  let ?d2 = "d1\<lparr>bd_buffer := k1\<rparr>" and ?r2 = "r1\<lparr>rd_buffer := map ins_of k1\<rparr>"
  have sim2: "bd_sim S ?d2 ?r2" by (rule sim_buffer [OF r1(2) k1])
  have del: "BDel ` set (bd_delBuffer d1) \<subseteq> S" "rd_delBuffer r1 = bd_delBuffer d1" using r1(2) by (simp_all add: bd_sim_def)
  obtain d3 k3 p3 where 3: "bd_drain_del ?d2 (bd_delBuffer d1) = (d3, k3, p3)" by (metis prod_cases3)
  obtain r3 where r3: "drain_del ?r2 (bd_delBuffer d1) = (r3, k3, p3)" "bd_sim S d3 r3" "set k3 \<subseteq> set (bd_delBuffer d1)"
    using sim_drain_del [OF assms(1) sim2 del(1) 3] by blast
  then have "bd_sim S (d3\<lparr>bd_delBuffer := k3\<rparr>) (r3\<lparr>rd_delBuffer := k3\<rparr>)" using del(1) by (intro sim_delBuffer) auto
  moreover have "d' = d3\<lparr>bd_delBuffer := k3\<rparr>" "pr = (p1 \<or> p3)" using assms(3) 1 3 by (auto simp: bd_drain_pass_def)
  moreover have "drain_pass r = (r3\<lparr>rd_delBuffer := k3\<rparr>, p1 \<or> p3)" using r1(1) r3(1) del(2) by (simp add: drain_pass_def)
  ultimately show ?thesis by auto
qed

lemma sim_drain:
  assumes "inj_on blockOpId S" "bd_sim S d r"
  shows "bd_sim S (bd_drain d) (drainBuffer r)"
  using assms(2)
proof (induction d arbitrary: r rule: bd_drain.induct)
  case (1 d)
  obtain d' pr where pass: "bd_drain_pass d = (d', pr)" by (metis surj_pair)
  obtain r' where r': "drain_pass r = (r', pr)" "bd_sim S d' r'" using sim_drain_pass [OF assms(1) 1(2) pass] by blast
  show ?case
  proof (cases pr)
    case True
    have "bd_sim S (bd_drain d') (drainBuffer r')" using "1.IH" [OF refl _ _ r'(2), of pr] pass True by simp
    then show ?thesis using pass r'(1) True by (simp add: bd_drain.simps [of d] drainBuffer.simps [of r])
  next
    case False
    then show ?thesis using pass r' by (simp add: bd_drain.simps [of d] drainBuffer.simps [of r])
  qed
qed

lemma sim_apply_struct:
  assumes inj: "inj_on blockOpId S" and p: "p \<in> S" "struct_op p = Some q" and sim: "bd_sim S d r"
  shows "bd_sim S (fst (bd_apply d p)) (fst (rga_apply r q))"
proof (cases p)
  case (BIns i)
  with p have q: "q = Ins (ins_of i)" "BIns i \<in> S" by auto
  note ap = sim_applied(1) [OF sim q(2)] sim_byId [OF sim] sim_origin_here [OF sim, of i]
  have dup: "bd_sim S (d\<lparr>bd_applied := insert (idKey (bi_id i)) (bd_applied d)\<rparr>)
      (r\<lparr>rd_applied := insert (idKey (bi_id i)) (rd_applied r)\<rparr>)"
  proof -
    have "idKey (blockOpId x) \<noteq> idKey (bi_id i)" if "x \<in> S" "struct_op x = None" for x
      using inj that q(2) by (auto simp: inj_on_def)
    with sim show ?thesis by (simp add: bd_sim_def book_ok_def)
  qed
  have buf: "bd_sim S (d\<lparr>bd_buffer := bd_buffer d @ [i]\<rparr>) (r\<lparr>rd_buffer := rd_buffer r @ [ins_of i]\<rparr>)"
    using sim_buffer [OF sim, of "bd_buffer d @ [i]"] sim q(2) by (simp add: bd_sim_def image_subset_iff)
  have ins: "bd_sim S (bd_drain (bd_record (bd_integrate d i) (BIns i)))
      (drainBuffer (rga_record (integrate r (ins_of i)) (Ins (ins_of i))))"
    by (rule sim_drain [OF inj sim_insert [OF inj q(2) sim]])
  from sim dup buf ins show ?thesis unfolding BIns q(1) by (simp add: ap)
next
  case (BDel i)
  with p have q: "q = Del i" "BDel i \<in> S" by auto
  note ap = sim_applied(2) [OF sim q(2)] sim_byId [OF sim]
  have buf: "bd_sim S (d\<lparr>bd_delBuffer := bd_delBuffer d @ [i]\<rparr>) (r\<lparr>rd_delBuffer := rd_delBuffer r @ [i]\<rparr>)"
    using sim_delBuffer [OF sim, of "bd_delBuffer d @ [i]"] sim q(2) by (simp add: bd_sim_def image_subset_iff)
  from sim buf sim_delete [OF inj q(2) sim] show ?thesis unfolding BDel q(1) by (simp add: ap split: option.split)
qed (use p in simp_all)

lemma sim_record_plain:
  assumes inj: "inj_on blockOpId S" and p: "p \<in> S" "struct_op p = None"
    and same: "bd_elems d' = bd_elems d" "bd_byId d' = bd_byId d" "bd_log d' = bd_log d" "bd_applied d' = bd_applied d"
      "bd_buffer d' = bd_buffer d" "bd_delBuffer d' = bd_delBuffer d" "book_ok d' = book_ok d"
    and layers: "attrs_ok (bd_log d @ [p]) (bd_attrs d')" "marks_ok (bd_log d @ [p]) (bd_marks d')" and sim: "bd_sim S d r"
  shows "bd_sim S (bd_record d' p) r"
proof -
  have other: "idKey (blockOpId x) \<noteq> idKey (blockOpId p)" if "x \<in> S" "x \<noteq> p" for x
    using inj that p by (auto simp: inj_on_def)
  show ?thesis
    unfolding bd_sim_def
  proof (intro conjI ballI impI)
    fix x assume x: "x \<in> S" "struct_op x \<noteq> None"
    then have "x \<noteq> p" using p(2) by auto
    with x sim other [OF x(1)]
    show "idKey (blockOpId x) \<in> bd_applied (bd_record d' p) \<longleftrightarrow> idKey (blockOpId x) \<in> rd_applied r"
      by (simp add: same bd_sim_def)
  next
    fix x assume x: "x \<in> S" "struct_op x = None"
    with sim have "idKey (blockOpId x) \<in> bd_applied d \<longleftrightarrow> x \<in> set (bd_log d)" by (simp add: bd_sim_def)
    with other [OF x(1)] show "idKey (blockOpId x) \<in> bd_applied (bd_record d' p) \<longleftrightarrow> x \<in> set (bd_log (bd_record d' p))"
      by (cases "x = p") (simp_all add: same)
  next
    show "book_ok (bd_record d' p)" using sim same(7) by (simp add: book_record bd_sim_def)
  qed (use sim p layers in \<open>simp_all add: bd_sim_def same\<close>)
qed

lemma sim_apply_plain:
  assumes inj: "inj_on blockOpId S" and p: "p \<in> S" "struct_op p = None" and sim: "bd_sim S d r"
  shows "bd_sim S (fst (bd_apply d p)) r" "p \<in> set (bd_log (fst (bd_apply d p)))"
proof -
  have ap: "idKey (blockOpId p) \<in> bd_applied d \<longleftrightarrow> p \<in> set (bd_log d)" using sim p by (simp add: bd_sim_def)
  have layers: "attrs_ok (bd_log d) (bd_attrs d)" "marks_ok (bd_log d) (bd_marks d)" using sim by (simp_all add: bd_sim_def)
  show "bd_sim S (fst (bd_apply d p)) r"
  proof (cases p)
    case (BAttr a)
    have "bd_sim S (bd_record (d\<lparr>bd_attrs := set_attr a (bd_attrs d)\<rparr>) (BAttr a)) r"
      by (rule sim_record_plain [OF inj _ _ _ _ _ _ _ _ _ _ _ sim])
        (use p layers BAttr in \<open>simp_all add: attrs_ok_set marks_ok_other book_ok_def\<close>)
    with sim BAttr show ?thesis by simp
  next
    case (BMark m)
    have "bd_sim S (bd_record (d\<lparr>bd_marks := set_mark m (bd_marks d)\<rparr>) (BMark m)) r"
      by (rule sim_record_plain [OF inj _ _ _ _ _ _ _ _ _ _ _ sim])
        (use p layers BMark in \<open>simp_all add: marks_ok_set attrs_ok_other book_ok_def\<close>)
    with sim BMark show ?thesis by simp
  qed (use p in simp_all)
  show "p \<in> set (bd_log (fst (bd_apply d p)))" using ap p(2) by (cases p) auto
qed

end
