(* ===== verification/BlockEdit.thy ===== *)
theory BlockEdit
  imports BlockDoc
begin

text \<open>
  Local edits of a block document and its snapshots, \<^verbatim>\<open>packages/collab/src/block-doc.ts\<close>. An edit
  mints an operation, applies it and returns it for broadcast.
\<close>

section \<open>Addressing\<close>

definition mintId :: "block_doc \<Rightarrow> rga_id" where
  "mintId d = RgaId (bd_counter d + 1) (bd_site d)"

fun last_of_block :: "elem list \<Rightarrow> rga_id \<Rightarrow> rga_id" where
  "last_of_block [] l = l"
| "last_of_block (e # es) l = (case el_kind e of BlockEl _ \<Rightarrow> l | CharEl _ \<Rightarrow> last_of_block es (el_id e))"

definition lastElementOfBlock :: "block_doc \<Rightarrow> rga_id \<Rightarrow> rga_id option" where
  "lastElementOfBlock d b =
     (case bd_byId d (idKey b) of
        None \<Rightarrow> None
      | Some start \<Rightarrow> Some (last_of_block (drop (start + 1) (bd_elems d)) b))"

definition enters :: "rga_id option \<Rightarrow> elem \<Rightarrow> bool" where
  "enters b e \<longleftrightarrow> (case b of None \<Rightarrow> False | Some i \<Rightarrow> idKey (el_id e) = idKey i)"

fun char_loop :: "rga_id option \<Rightarrow> elem list \<Rightarrow> bool \<Rightarrow> int \<Rightarrow> int \<Rightarrow> rga_id option" where
  "char_loop b [] inBlock seen index = None"
| "char_loop b (e # es) inBlock seen index =
     (case el_kind e of
        BlockEl _ \<Rightarrow> char_loop b es (enters b e) seen index
      | CharEl _ \<Rightarrow>
          (if \<not> inBlock \<or> el_deleted e then char_loop b es inBlock seen index
           else if seen + 1 = index then Some (el_id e)
           else char_loop b es inBlock (seen + 1) index))"

fun char_last :: "rga_id option \<Rightarrow> elem list \<Rightarrow> bool \<Rightarrow> rga_id option \<Rightarrow> rga_id option" where
  "char_last b [] inBlock l = l"
| "char_last b (e # es) inBlock l =
     (case el_kind e of
        BlockEl _ \<Rightarrow> (if inBlock \<and> b \<noteq> None then l else char_last b es (enters b e) l)
      | CharEl _ \<Rightarrow> char_last b es inBlock (if inBlock \<and> \<not> el_deleted e then Some (el_id e) else l))"

definition charIdAtBlockIndex :: "block_doc \<Rightarrow> rga_id option \<Rightarrow> int \<Rightarrow> rga_id option" where
  "charIdAtBlockIndex d b index =
     (if index \<le> 0 then b
      else case char_loop b (bd_elems d) (b = None) 0 index of
          Some i \<Rightarrow> Some i
        | None \<Rightarrow> char_last b (bd_elems d) (b = None) b)"

section \<open>Edits\<close>

definition setBlockAttr :: "block_doc \<Rightarrow> rga_id option \<Rightarrow> string \<Rightarrow> json \<Rightarrow> block_doc \<times> block_op" where
  "setBlockAttr d b k v =
     (let p = BAttr \<lparr>ao_opId = mintId d, ao_block = b, ao_key = k, ao_value = v\<rparr> in (fst (bd_apply d p), p))"

definition setBlockType :: "block_doc \<Rightarrow> rga_id option \<Rightarrow> string \<Rightarrow> block_doc \<times> block_op" where
  "setBlockType d b t = setBlockAttr d b ''type'' (JStr t)"

fun set_attrs :: "block_doc \<Rightarrow> rga_id \<Rightarrow> payload \<Rightarrow> block_op list \<Rightarrow> block_doc \<times> block_op list" where
  "set_attrs d b [] ops = (d, ops)"
| "set_attrs d b ((k, v) # kvs) ops = (let (d', p) = setBlockAttr d (Some b) k v in set_attrs d' b kvs (ops @ [p]))"

definition insertBlock :: "block_doc \<Rightarrow> rga_id option \<Rightarrow> string \<Rightarrow> payload \<Rightarrow> block_doc \<times> block_op list \<times> rga_id" where
  "insertBlock d after t attrs =
     (let origin = (case after of None \<Rightarrow> None | Some b \<Rightarrow> lastElementOfBlock d b);
          i = mintId d;
          p = BIns \<lparr>bi_id = i, bi_origin = origin, bi_kind = BlockEl t\<rparr>;
          (d', ops) = set_attrs (fst (bd_apply d p)) i attrs [p]
      in (d', ops, i))"

fun insert_text_loop :: "block_doc \<Rightarrow> rga_id option \<Rightarrow> u16 list list \<Rightarrow> block_op list \<Rightarrow> block_doc \<times> block_op list" where
  "insert_text_loop d anchor [] ops = (d, ops)"
| "insert_text_loop d anchor (ch # chs) ops =
     (let i = mintId d; p = BIns \<lparr>bi_id = i, bi_origin = anchor, bi_kind = CharEl ch\<rparr>
      in insert_text_loop (fst (bd_apply d p)) (Some i) chs (ops @ [p]))"

definition insertText :: "block_doc \<Rightarrow> rga_id option \<Rightarrow> int \<Rightarrow> u16 list \<Rightarrow> block_doc \<times> block_op list" where
  "insertText d b index text =
     insert_text_loop d (if index \<le> 0 then b else charIdAtBlockIndex d b index) (code_points text) []"

fun delete_text_loop :: "block_doc \<Rightarrow> rga_id option \<Rightarrow> int \<Rightarrow> nat \<Rightarrow> block_op list \<Rightarrow> block_doc \<times> block_op list" where
  "delete_text_loop d b index 0 ops = (d, ops)"
| "delete_text_loop d b index (Suc n) ops =
     (case charIdAtBlockIndex d b (index + 1) of
        None \<Rightarrow> (d, ops)
      | Some i \<Rightarrow>
          (let p = BDel \<lparr>do_opId = mintId d, do_target = i\<rparr>
           in delete_text_loop (fst (bd_apply d p)) b index n (ops @ [p])))"

definition deleteText :: "block_doc \<Rightarrow> rga_id option \<Rightarrow> int \<Rightarrow> nat \<Rightarrow> block_doc \<times> block_op list" where
  "deleteText d b index count = delete_text_loop d b index count []"

definition splitBlock :: "block_doc \<Rightarrow> rga_id option \<Rightarrow> int \<Rightarrow> string \<Rightarrow> block_doc \<times> block_op list \<times> rga_id" where
  "splitBlock d b index t =
     (let anchor = (if index \<le> 0 then b else charIdAtBlockIndex d b index);
          i = mintId d; p = BIns \<lparr>bi_id = i, bi_origin = anchor, bi_kind = BlockEl t\<rparr>
      in (fst (bd_apply d p), [p], i))"

definition mergeBlock :: "block_doc \<Rightarrow> rga_id \<Rightarrow> block_doc \<times> block_op list" where
  "mergeBlock d b = (let p = BDel \<lparr>do_opId = mintId d, do_target = b\<rparr> in (fst (bd_apply d p), [p]))"

definition markOp ::
  "block_doc \<Rightarrow> rga_id option \<Rightarrow> int \<Rightarrow> int \<Rightarrow> string \<Rightarrow> string option \<Rightarrow> bool \<Rightarrow> block_doc \<times> block_op option" where
  "markOp d b f t ty v rm =
     (if f < 0 \<or> f \<ge> t then (d, None)
      else case (charIdAtBlockIndex d b (f + 1), charIdAtBlockIndex d b t) of
          (Some s, Some e) \<Rightarrow>
            (let p = BMark \<lparr>mo_opId = mintId d, mo_start = s, mo_end = e, mo_type = ty, mo_value = v, mo_remove = rm\<rparr>
             in (fst (bd_apply d p), Some p))
        | _ \<Rightarrow> (d, None))"

definition addMark :: "block_doc \<Rightarrow> rga_id option \<Rightarrow> int \<Rightarrow> int \<Rightarrow> string \<Rightarrow> string option \<Rightarrow> block_doc \<times> block_op option" where
  "addMark d b f t ty v = markOp d b f t ty v False"

definition removeMark :: "block_doc \<Rightarrow> rga_id option \<Rightarrow> int \<Rightarrow> int \<Rightarrow> string \<Rightarrow> block_doc \<times> block_op option" where
  "removeMark d b f t ty = markOp d b f t ty None True"

section \<open>Snapshots\<close>

text \<open>
  A block key parsed back: the counter is \<open>None\<close> where \<^verbatim>\<open>Number\<close> gives \<^verbatim>\<open>NaN\<close>. Keys are printed
  identifiers, so the part before the last \<^verbatim>\<open>@\<close> is a row of digits, or holds another \<^verbatim>\<open>@\<close>.
\<close>

record attr_snap =
  sa_block :: "(nat option \<times> string) option"
  sa_key :: string
  sa_value :: json
  sa_lamport :: nat
  sa_site :: string

record block_snapshot =
  sn_elements :: "elem list"
  sn_attrs :: "attr_snap list"
  sn_marks :: "mark_entry list"

definition parseBlockKey :: "string \<Rightarrow> (nat option \<times> string) option" where
  "parseBlockKey bk =
     (if bk = LEADING then None
      else let site = rev (takeWhile (\<lambda>c. c \<noteq> CHR ''@'') (rev bk));
               num = take (length bk - length site - 1) bk
           in Some (if CHR ''@'' \<in> set num then None else Some (str_nat num), site))"

definition snapKey :: "(nat option \<times> string) option \<Rightarrow> string" where
  "snapKey b =
     (case b of None \<Rightarrow> LEADING
      | Some (Some n, site) \<Rightarrow> idKey (RgaId n site)
      | Some (None, site) \<Rightarrow> ''NaN@'' @ site)"

definition bd_snapshot :: "block_doc \<Rightarrow> block_snapshot" where
  "bd_snapshot d =
     \<lparr>sn_elements = bd_elems d,
      sn_attrs = concat (map (\<lambda>(bk, m). map (\<lambda>(k, v). \<lparr>sa_block = parseBlockKey bk, sa_key = k, sa_value = lw_value v,
        sa_lamport = lw_lamport v, sa_site = lw_site v\<rparr>) m) (bd_attrs d)),
      sn_marks = map snd (bd_marks d)\<rparr>"

definition load_elem :: "block_doc \<Rightarrow> elem \<Rightarrow> block_doc" where
  "load_elem d e =
     (let d1 = bump (el_id e) (d\<lparr>bd_applied := insert (idKey (el_id e)) (bd_applied d)\<rparr>)
      in d1\<lparr>bd_log := bd_log d1 @ [BIns \<lparr>bi_id = el_id e, bi_origin = el_origin e, bi_kind = el_kind e\<rparr>]\<rparr>)"

definition load_attr :: "block_doc \<Rightarrow> attr_snap \<Rightarrow> block_doc" where
  "load_attr d a =
     (let bk = snapKey (sa_block a); m = nullish (map_of (bd_attrs d) bk) [];
          v = \<lparr>lw_value = sa_value a, lw_lamport = sa_lamport a, lw_site = sa_site a\<rparr>
      in bump (RgaId (sa_lamport a) (sa_site a))
           (d\<lparr>bd_attrs := AList.update bk (AList.update (sa_key a) v m) (bd_attrs d)\<rparr>))"

definition entryKey :: "mark_entry \<Rightarrow> string" where
  "entryKey m = idKey (mk_start m) @ ''|'' @ idKey (mk_end m) @ ''|'' @ mk_type m"

definition load_mark :: "block_doc \<Rightarrow> mark_entry \<Rightarrow> block_doc" where
  "load_mark d m =
     bump (RgaId (mk_lamport m) (mk_site m)) (d\<lparr>bd_marks := AList.update (entryKey m) m (bd_marks d)\<rparr>)"

definition bd_fromSnapshot :: "string \<Rightarrow> block_snapshot \<Rightarrow> rga_error + block_doc" where
  "bd_fromSnapshot site snap =
     (if site = [] then Inl EmptySiteId
      else let d0 = (block_empty site)\<lparr>bd_elems := sn_elements snap, bd_byId := bd_reindex (sn_elements snap)\<rparr>;
               d1 = foldl load_elem d0 (sn_elements snap);
               d2 = foldl load_attr d1 (sn_attrs snap)
           in Inr (foldl load_mark d2 (sn_marks snap)))"

section \<open>Building a document\<close>

record block_spec =
  bs_type :: string
  bs_attrs :: payload
  bs_text :: "u16 list"
  bs_marks :: "(int \<times> int \<times> string \<times> string option) list"

fun add_marks :: "block_doc \<Rightarrow> rga_id \<Rightarrow> (int \<times> int \<times> string \<times> string option) list \<Rightarrow> block_doc" where
  "add_marks d b [] = d"
| "add_marks d b ((f, t, ty, v) # ms) = add_marks (fst (addMark d (Some b) f t ty v)) b ms"

fun add_blocks :: "block_doc \<Rightarrow> rga_id option \<Rightarrow> block_spec list \<Rightarrow> block_doc" where
  "add_blocks d prev [] = d"
| "add_blocks d prev (sp # sps) =
     (let (d1, _, b) = insertBlock d prev (bs_type sp) (bs_attrs sp);
          d2 = (if bs_text sp = [] then d1 else fst (insertText d1 (Some b) 0 (bs_text sp)))
      in add_blocks (add_marks d2 b (bs_marks sp)) (Some b) sps)"

definition fromBlocks :: "string \<Rightarrow> block_spec list \<Rightarrow> rga_error + block_doc" where
  "fromBlocks site specs = (if site = [] then Inl EmptySiteId else Inr (add_blocks (block_empty site) None specs))"

end
