(* ===== verification/BlockProps.thy ===== *)
theory BlockProps
  imports BlockReplica BlockEdit
begin

text \<open>
  What block documents promise: replicas given the same operations show the same blocks.
\<close>

section \<open>Replicas\<close>

lemma log_mono_ins: "bd_drain_ins d ps = (d', kept, pr) \<Longrightarrow> set (bd_log d) \<subseteq> set (bd_log d')"
  by (induction d ps arbitrary: d' kept pr rule: bd_drain_ins.induct)
    (fastforce simp: Let_def split: if_splits prod.splits)+

lemma log_mono_del: "bd_drain_del d ps = (d', kept, pr) \<Longrightarrow> set (bd_log d) \<subseteq> set (bd_log d')"
  by (induction d ps arbitrary: d' kept pr rule: bd_drain_del.induct)
    (fastforce simp: Let_def split: if_splits prod.splits option.splits)+

lemma log_mono_pass: "bd_drain_pass d = (d', pr) \<Longrightarrow> set (bd_log d) \<subseteq> set (bd_log d')"
  by (fastforce simp: bd_drain_pass_def Let_def split: prod.splits dest: log_mono_ins log_mono_del)

lemma log_mono_drain: "set (bd_log d) \<subseteq> set (bd_log (bd_drain d))"
proof (induction d rule: bd_drain.induct)
  case (1 d)
  obtain d' pr where pass: "bd_drain_pass d = (d', pr)" by (metis surj_pair)
  from log_mono_pass [OF pass] 1 [OF refl, of d' pr] pass show ?case
    by (auto simp: bd_drain.simps [of d])
qed

lemma log_mono_apply: "set (bd_log d) \<subseteq> set (bd_log (fst (bd_apply d p)))"
  using log_mono_drain by (cases p) (fastforce split: option.split)+

definition bd_replica :: "string \<Rightarrow> block_op list \<Rightarrow> block_doc" where
  "bd_replica site ps = fst (bd_applyMany (block_empty site) ps)"

lemma sim_applyMany:
  assumes "inj_on blockOpId S" "bd_sim S d r" "set ps \<subseteq> S"
  shows "bd_sim S (fst (bd_applyMany d ps)) (fst (applyMany r (struct_ops ps))) \<and>
    (\<forall>p\<in>set (bd_log d) \<union> set ps. struct_op p = None \<longrightarrow> p \<in> set (bd_log (fst (bd_applyMany d ps))))"
  using assms(2,3)
proof (induction ps arbitrary: d r)
  case (Cons p ps)
  then have p: "p \<in> S" "set ps \<subseteq> S" by auto
  note mono = log_mono_apply [of d p]
  show ?case
  proof (cases "struct_op p")
    case None
    from Cons.IH [OF sim_apply_plain(1) [OF assms(1) p(1) None Cons.prems(1)] p(2)]
      sim_apply_plain(2) [OF assms(1) p(1) None Cons.prems(1)] mono None
    show ?thesis by (auto simp: Let_def split_beta)
  next
    case (Some q)
    from Cons.IH [OF sim_apply_struct [OF assms(1) p(1) Some Cons.prems(1)] p(2)] mono Some
    show ?thesis by (auto simp: Let_def split_beta)
  qed
qed simp

lemma sim_empty: "bd_sim S (block_empty s) (rga_empty s)"
  by (simp add: bd_sim_def block_empty_def rga_empty_def attrs_ok_def marks_ok_def tracked_def attr_at_def
      attr_ops_def mark_ops_def book_ok_def seen_ok_def counter_ok_def)

lemma replica_sim:
  assumes "inj_on blockOpId S" "set ps \<subseteq> S"
  shows "bd_sim S (bd_replica s ps) (rga_replica s (struct_ops ps))"
    "p \<in> set ps \<Longrightarrow> struct_op p = None \<Longrightarrow> p \<in> set (bd_log (bd_replica s ps))"
  using sim_applyMany [OF assms(1) sim_empty [of S s] assms(2)] by (auto simp: bd_replica_def rga_replica_def)

lemma struct_ops_inj: "inj_on blockOpId (set ps) \<Longrightarrow> inj_on opIdOf (set (struct_ops ps))"
proof (rule inj_onI)
  fix q q' assume inj: "inj_on blockOpId (set ps)" and q: "q \<in> set (struct_ops ps)" "q' \<in> set (struct_ops ps)" "opIdOf q = opIdOf q'"
  then obtain p p' where p: "p \<in> set ps" "struct_op p = Some q" "p' \<in> set ps" "struct_op p' = Some q'"
    by (auto simp: set_struct_ops)
  with q(3) have "blockOpId p = blockOpId p'" by (simp add: struct_op_id)
  with inj p have "p = p'" by (auto simp: inj_on_def)
  with p show "q = q'" by simp
qed

lemma replica_log:
  assumes inj: "inj_on blockOpId (set ps)"
  shows "set (bd_log (bd_replica s ps)) =
    {p \<in> set ps. case struct_op p of None \<Rightarrow> True | Some q \<Rightarrow> q \<in> deliverable (set (struct_ops ps))}"
proof -
  note sim = replica_sim [OF inj order_refl, where s = s]
  have sub: "set (bd_log (bd_replica s ps)) \<subseteq> set ps" using sim(1) by (simp add: bd_sim_def)
  have "set (struct_ops (bd_log (bd_replica s ps))) = deliverable (set (struct_ops ps))"
    using sim(1) rga_consistency(5) [OF struct_ops_inj [OF inj] refl, of s] by (simp add: bd_sim_def)
  then have struct: "p \<in> set (bd_log (bd_replica s ps)) \<longleftrightarrow> q \<in> deliverable (set (struct_ops ps))"
    if "struct_op p = Some q" for p q
    using that struct_op_inj unfolding set_struct_ops by blast
  show ?thesis
  proof (rule set_eqI)
    fix p
    show "p \<in> set (bd_log (bd_replica s ps)) \<longleftrightarrow>
      p \<in> {p \<in> set ps. case struct_op p of None \<Rightarrow> True | Some q \<Rightarrow> q \<in> deliverable (set (struct_ops ps))}"
      using sub sim(2) [of p] struct [of p] by (cases "struct_op p") auto
  qed
qed

text \<open>What a reader sees of a block, apart from the order in which marks and attributes are listed.\<close>

definition block_view :: "rendered_block \<Rightarrow> rga_id option \<times> json \<times> (string \<rightharpoonup> json) \<times> u16 list \<times> (nat \<times> nat \<times> string \<times> string option) set" where
  "block_view b = (rb_id b, rb_type b, map_of (rb_attrs b), rb_text b, set (rb_marks b))"

lemma map_of_filter_key: "map_of (map (\<lambda>(k, v). (k, f v)) (filter (\<lambda>(k, v). P k) xs)) k = (if P k then map_option f (map_of xs k) else None)"
  by (induction xs) auto

lemma effectiveAttrs_at:
  "map_of (effectiveAttrs d b) k = (if k = ''type'' then None else map_option lw_value (attr_at (bd_attrs d) (blockKey b) k))"
  unfolding effectiveAttrs_def attr_at_def by (subst map_of_filter_key) simp

lemma block_view_cong:
  assumes "bd_elems d = bd_elems e" "bd_byId d = bd_byId e" "\<And>bk k. attr_at (bd_attrs d) bk k = attr_at (bd_attrs e) bk k"
    "wf_map (bd_marks d)" "wf_map (bd_marks e)" "map_of (bd_marks d) = map_of (bd_marks e)"
  shows "map block_view (bd_blocks d) = map block_view (bd_blocks e)"
proof -
  have "set (map snd (bd_marks d)) = ran (map_of (bd_marks d))" "set (map snd (bd_marks e)) = ran (map_of (bd_marks e))"
    using assms(4,5) by (simp_all add: ran_distinct)
  then have marks: "snd ` set (bd_marks d) = snd ` set (bd_marks e)" using assms(6) by simp
  have ty: "effectiveType d i = effectiveType e i" for i
    using assms(3) by (intro ext) (simp add: effectiveType_def attr_at_def)
  have render: "block_view (renderBlock d c) = block_view (renderBlock e c)" for c
  proof -
    have "elemType d = elemType e" unfolding elemType_def assms(1,2) ..
    moreover have "map_of (effectiveAttrs d i) = map_of (effectiveAttrs e i)" for i
      using assms(3) by (intro ext) (simp add: effectiveAttrs_at)
    ultimately show ?thesis
      using marks ty by (cases c) (simp add: block_view_def renderBlock_def Let_def set_map_filter split: option.split)
  qed
  have "map block_view (blocks_loop d es cur) = map block_view (blocks_loop e es cur)" for es cur
  proof (induction es arbitrary: cur)
    case Nil
    then show ?case by (auto simp: flush_def render split: option.split)
  next
    case (Cons x es)
    then show ?case by (auto simp: flush_def render split_beta Let_def split: option.split elem_kind.split)
  qed
  with assms(1) show ?thesis by (simp add: bd_blocks_def)
qed

text \<open>
  Claim C4: two replicas of a block document that were given the same operations, in whatever order and
  however often each, hold the same sequence with the same tombstones, the same attributes and the same
  marks, and show the same blocks: type, attributes, text and the set of marks of each.
\<close>

theorem block_strong_eventual_consistency:
  assumes inj: "inj_on blockOpId (set ps)" and same: "set qs = set ps"
  shows "bd_elems (bd_replica s ps) = bd_elems (bd_replica t qs) \<and>
    map block_view (bd_blocks (bd_replica s ps)) = map block_view (bd_blocks (bd_replica t qs)) \<and>
    map_of (bd_marks (bd_replica s ps)) = map_of (bd_marks (bd_replica t qs)) \<and>
    bd_seen (bd_replica s ps) = bd_seen (bd_replica t qs) \<and> bd_counter (bd_replica s ps) = bd_counter (bd_replica t qs)"
proof -
  let ?d = "bd_replica s ps" and ?e = "bd_replica t qs"
  have inj': "inj_on blockOpId (set qs)" using inj same by simp
  have sim: "bd_sim (set ps) ?d (rga_replica s (struct_ops ps))" "bd_sim (set ps) ?e (rga_replica t (struct_ops qs))"
    using replica_sim(1) [OF inj] same by simp_all
  have structs: "set (struct_ops qs) = set (struct_ops ps)" by (simp add: set_struct_ops same)
  from rga_consistency(1,2) [OF struct_ops_inj [OF inj] structs, of s t] sim have nodes: "map elem_node (bd_elems ?d) = map elem_node (bd_elems ?e)"
    "bd_byId ?d = bd_byId ?e" by (simp_all add: bd_sim_def)
  from nodes(1) have elems: "bd_elems ?d = bd_elems ?e"
    by (rule map_injective) (simp add: inj_def elem_node_inj)
  have logs: "set (bd_log ?d) = set (bd_log ?e)"
    unfolding replica_log [OF inj] replica_log [OF inj'] structs same ..
  have sub: "set (bd_log ?d) \<subseteq> set ps" using sim(1) by (simp add: bd_sim_def)
  have ops: "attr_ops (bd_log ?d) bk k = attr_ops (bd_log ?e) bk k" "mark_ops (bd_log ?d) k = mark_ops (bd_log ?e) k" for bk k
    by (simp_all add: attr_ops_def mark_ops_def logs)
  have ia: "inj_on ao_opId (attr_ops (bd_log ?d) bk k)" "inj_on mo_opId (mark_ops (bd_log ?d) k)" for bk k
  proof -
    have "p = q" if "BAttr p \<in> set ps" "BAttr q \<in> set ps" "ao_opId p = ao_opId q" for p q
      using inj_onD [OF inj, of "BAttr p" "BAttr q"] that by simp
    then show "inj_on ao_opId (attr_ops (bd_log ?d) bk k)" using sub by (auto simp: inj_on_def attr_ops_def)
    have "p = q" if "BMark p \<in> set ps" "BMark q \<in> set ps" "mo_opId p = mo_opId q" for p q
      using inj_onD [OF inj, of "BMark p" "BMark q"] that by simp
    then show "inj_on mo_opId (mark_ops (bd_log ?d) k)" using sub by (auto simp: inj_on_def mark_ops_def)
  qed
  have attrs: "attr_at (bd_attrs ?d) bk k = attr_at (bd_attrs ?e) bk k" for bk k
    using sim tracked_unique [OF _ _ ia(1), of written bk k] ops(1) by (simp add: bd_sim_def attrs_ok_def)
  have "map_of (bd_marks ?d) k = map_of (bd_marks ?e) k" for k
  proof (rule tracked_unique [OF _ _ ia(2)])
    show "tracked mo_opId marked (mark_ops (bd_log ?d) k) (map_of (bd_marks ?d) k)"
      "tracked mo_opId marked (mark_ops (bd_log ?d) k) (map_of (bd_marks ?e) k)"
      using sim ops(2) by (simp_all add: bd_sim_def marks_ok_def)
  qed
  then have marks: "map_of (bd_marks ?d) = map_of (bd_marks ?e)" by (rule ext)
  have wf: "wf_map (bd_marks ?d)" "wf_map (bd_marks ?e)" using sim by (simp_all add: bd_sim_def marks_ok_def)
  have book: "book_ok ?d" "book_ok ?e" using sim by (simp_all add: bd_sim_def)
  have ids: "set (map as_rga (bd_log ?d)) = set (map as_rga (bd_log ?e))" by (simp add: logs)
  have "bd_seen ?d = bd_seen ?e" by (rule seen_unique [OF _ _ ids]) (use book in \<open>simp_all add: book_ok_def\<close>)
  moreover have "bd_counter ?d = bd_counter ?e"
    by (rule counter_unique [OF _ _ ids]) (use book in \<open>simp_all add: book_ok_def\<close>)
  ultimately show ?thesis using elems marks block_view_cong [OF elems nodes(2) attrs wf marks] by blast
qed

theorem block_strong_eventual_consistency_witness:
  "let m = BIns \<lparr>bi_id = RgaId 1 ''x'', bi_origin = None, bi_kind = BlockEl ''heading''\<rparr>;
       c = BIns \<lparr>bi_id = RgaId 2 ''y'', bi_origin = Some (RgaId 1 ''x''), bi_kind = CharEl [104]\<rparr>;
       a = BAttr \<lparr>ao_opId = RgaId 3 ''y'', ao_block = Some (RgaId 1 ''x''), ao_key = ''level'', ao_value = JNum 2\<rparr>;
       k = BMark \<lparr>mo_opId = RgaId 4 ''x'', mo_start = RgaId 2 ''y'', mo_end = RgaId 2 ''y'', mo_type = ''bold'', mo_value = None, mo_remove = False\<rparr>
   in bd_elems (bd_replica ''x'' [m, c, a, k]) = bd_elems (bd_replica ''y'' [k, c, a, a, m])"
proof -
  let ?m = "BIns \<lparr>bi_id = RgaId 1 ''x'', bi_origin = None, bi_kind = BlockEl ''heading''\<rparr>"
  let ?c = "BIns \<lparr>bi_id = RgaId 2 ''y'', bi_origin = Some (RgaId 1 ''x''), bi_kind = CharEl [104]\<rparr>"
  let ?a = "BAttr \<lparr>ao_opId = RgaId 3 ''y'', ao_block = Some (RgaId 1 ''x''), ao_key = ''level'', ao_value = JNum 2\<rparr>"
  let ?k = "BMark \<lparr>mo_opId = RgaId 4 ''x'', mo_start = RgaId 2 ''y'', mo_end = RgaId 2 ''y'', mo_type = ''bold'', mo_value = None, mo_remove = False\<rparr>"
  have inj: "inj_on blockOpId (set [?m, ?c, ?a, ?k])" by simp
  have same: "set [?k, ?c, ?a, ?a, ?m] = set [?m, ?c, ?a, ?k]" by auto
  from block_strong_eventual_consistency [OF inj same, of "''x''" "''y''"] show ?thesis by (simp add: Let_def)
qed

end
