(* ===== verification/BlockSnapshot.thy ===== *)
theory BlockSnapshot
  imports BlockProps
begin

text \<open>
  Snapshots of block documents: a replica's snapshot loads into a document with the same sequence,
  attributes and marks.
\<close>

section \<open>Parsing a block key\<close>

lemma at_not_digit: "CHR ''@'' \<notin> set (nat_str n)"
  using nat_str_digits [of "CHR ''@''" n] digit_char_neq [of _ "CHR ''@''"] by force

lemma idKey_not_leading: "idKey i \<noteq> LEADING"
proof
  assume "idKey i = LEADING"
  moreover have "CHR ''@'' \<in> set (idKey i)" by (simp add: idKey_def)
  ultimately show False by (simp add: LEADING_def)
qed

lemma parse_idKey:
  assumes "CHR ''@'' \<notin> set (id_site i)"
  shows "parseBlockKey (idKey i) = Some (Some (id_counter i), id_site i)"
proof -
  have "takeWhile (\<lambda>c. c \<noteq> CHR ''@'') (rev (id_site i) @ CHR ''@'' # rev (nat_str (id_counter i))) = rev (id_site i)"
    using assms by (subst takeWhile_append2) auto
  then have site: "rev (takeWhile (\<lambda>c. c \<noteq> CHR ''@'') (rev (idKey i))) = id_site i" by (simp add: idKey_def)
  have num: "take (length (idKey i) - length (id_site i) - 1) (idKey i) = nat_str (id_counter i)"
    by (simp add: idKey_def)
  show ?thesis
    unfolding parseBlockKey_def site Let_def num using idKey_not_leading by (simp add: at_not_digit str_nat_nat_str)
qed

definition plain_block :: "rga_id option \<Rightarrow> bool" where
  "plain_block b \<longleftrightarrow> (case b of None \<Rightarrow> True | Some i \<Rightarrow> CHR ''@'' \<notin> set (id_site i))"

lemma snapKey_parse: "plain_block b \<Longrightarrow> snapKey (parseBlockKey (blockKey b)) = blockKey b"
proof (cases b)
  case None
  then show ?thesis by (simp add: blockKey_def parseBlockKey_def snapKey_def)
next
  case (Some i)
  assume "plain_block b"
  with Some show ?thesis
    by (simp add: plain_block_def blockKey_def parse_idKey snapKey_def)
qed

section \<open>Loading\<close>

lemma bump_simps [simp]:
  "bd_elems (bump i d) = bd_elems d" "bd_byId (bump i d) = bd_byId d" "bd_attrs (bump i d) = bd_attrs d"
  "bd_marks (bump i d) = bd_marks d" "bd_counter (bump i d) = max (bd_counter d) (id_counter i)"
  "bd_site (bump i d) = bd_site d"
  by (simp_all add: bump_def)

lemma load_elems:
  "bd_elems (foldl load_elem d es) = bd_elems d \<and> bd_byId (foldl load_elem d es) = bd_byId d \<and>
   bd_attrs (foldl load_elem d es) = bd_attrs d \<and> bd_marks (foldl load_elem d es) = bd_marks d \<and>
   bd_site (foldl load_elem d es) = bd_site d \<and> bd_counter d \<le> bd_counter (foldl load_elem d es) \<and>
   (\<forall>e\<in>set es. id_counter (el_id e) \<le> bd_counter (foldl load_elem d es))"
proof (induction es arbitrary: d)
  case (Cons e es)
  have "bd_counter (load_elem d e) = max (bd_counter d) (id_counter (el_id e))" by (simp add: load_elem_def Let_def)
  with Cons [of "load_elem d e"] show ?case by (auto simp: load_elem_def Let_def)
qed simp

definition attr_snaps :: "string \<Rightarrow> (string \<times> lww) list \<Rightarrow> attr_snap list" where
  "attr_snaps bk m = map (\<lambda>(k, v). \<lparr>sa_block = parseBlockKey bk, sa_key = k, sa_value = lw_value v,
     sa_lamport = lw_lamport v, sa_site = lw_site v\<rparr>) m"

lemma load_attrs_other:
  "bd_elems (foldl load_attr d as) = bd_elems d \<and> bd_byId (foldl load_attr d as) = bd_byId d \<and>
   bd_marks (foldl load_attr d as) = bd_marks d \<and> bd_site (foldl load_attr d as) = bd_site d \<and>
   bd_counter d \<le> bd_counter (foldl load_attr d as) \<and> (\<forall>a\<in>set as. sa_lamport a \<le> bd_counter (foldl load_attr d as))"
proof (induction as arbitrary: d)
  case (Cons a as)
  have "bd_counter (load_attr d a) = max (bd_counter d) (sa_lamport a)" by (simp add: load_attr_def Let_def)
  with Cons [of "load_attr d a"] show ?case by (auto simp: load_attr_def Let_def)
qed simp

lemma load_one_attr:
  "bd_attrs (load_attr d \<lparr>sa_block = parseBlockKey bk, sa_key = k, sa_value = lw_value v, sa_lamport = lw_lamport v,
     sa_site = lw_site v\<rparr>) =
   (let key = snapKey (parseBlockKey bk) in AList.update key (AList.update k v (nullish (map_of (bd_attrs d) key) [])) (bd_attrs d))"
  by (cases v) (simp add: load_attr_def Let_def)

lemma update_last: "bk \<notin> set (keys_of A) \<Longrightarrow> AList.update bk y (A @ [(bk, x)]) = A @ [(bk, y)]"
  by (induction A) auto

lemma load_rest:
  assumes "snapKey (parseBlockKey bk) = bk" "bk \<notin> set (keys_of A)" "wf_map (m @ kvs)" "bd_attrs d = A @ [(bk, m)]"
  shows "bd_attrs (foldl load_attr d (attr_snaps bk kvs)) = A @ [(bk, m @ kvs)]"
  using assms(3,4)
proof (induction kvs arbitrary: m d)
  case (Cons kv kvs)
  obtain k v where kv: "kv = (k, v)" by (cases kv)
  have "map_of (A @ [(bk, m)]) bk = Some m" using assms(2) by (simp add: map_add_def map_of_eq_None_iff [THEN iffD2])
  moreover have "k \<notin> set (keys_of m)" using Cons.prems(1) kv by auto
  ultimately have "bd_attrs (load_attr d \<lparr>sa_block = parseBlockKey bk, sa_key = k, sa_value = lw_value v,
      sa_lamport = lw_lamport v, sa_site = lw_site v\<rparr>) = A @ [(bk, m @ [(k, v)])]"
    unfolding load_one_attr assms(1) Cons.prems(2) Let_def by (simp add: update_last [OF assms(2)] keys_update_new)
  with Cons.IH [of "m @ [(k, v)]"] Cons.prems(1) kv show ?case by (simp add: attr_snaps_def)
qed (simp add: attr_snaps_def)

lemma load_block_attrs:
  assumes "snapKey (parseBlockKey bk) = bk" "bk \<notin> set (keys_of (bd_attrs d))" "wf_map m" "m \<noteq> []"
  shows "bd_attrs (foldl load_attr d (attr_snaps bk m)) = bd_attrs d @ [(bk, m)]"
proof -
  obtain k v kvs where m: "m = (k, v) # kvs" using assms(4) by (metis list.exhaust surj_pair)
  let ?s = "\<lparr>sa_block = parseBlockKey bk, sa_key = k, sa_value = lw_value v, sa_lamport = lw_lamport v, sa_site = lw_site v\<rparr>"
  have none: "map_of (bd_attrs d) bk = None" using assms(2) by (simp add: map_of_eq_None_keys)
  have "bd_attrs (load_attr d ?s) = bd_attrs d @ [(bk, [(k, v)])]"
    unfolding load_one_attr assms(1) Let_def by (simp add: none keys_update_new [OF assms(2)])
  from load_rest [OF assms(1,2) _ this, of kvs] assms(3) m show ?thesis by (simp add: attr_snaps_def)
qed

lemma load_all_attrs:
  assumes "\<forall>(bk, m)\<in>set xs. snapKey (parseBlockKey bk) = bk \<and> wf_map m \<and> m \<noteq> []" "wf_map (bd_attrs d @ xs)"
  shows "bd_attrs (foldl load_attr d (concat (map (\<lambda>(bk, m). attr_snaps bk m) xs))) = bd_attrs d @ xs"
  using assms
proof (induction xs arbitrary: d)
  case (Cons x xs)
  obtain bk m where x: "x = (bk, m)" by (cases x)
  have "bd_attrs (foldl load_attr d (attr_snaps bk m)) = bd_attrs d @ [(bk, m)]"
    using Cons.prems x by (intro load_block_attrs) auto
  with Cons.IH [of "foldl load_attr d (attr_snaps bk m)"] Cons.prems x show ?case by simp
qed simp

lemma load_marks:
  assumes "\<forall>(k, m)\<in>set ms. entryKey m = k" "wf_map (bd_marks d @ ms)"
  shows "bd_marks (foldl load_mark d (map snd ms)) = bd_marks d @ ms"
  using assms
proof (induction ms arbitrary: d)
  case (Cons x ms)
  obtain k m where x: "x = (k, m)" by (cases x)
  have "bd_marks (load_mark d m) = bd_marks d @ [(k, m)]"
    using Cons.prems x by (simp add: load_mark_def keys_update_new)
  with Cons.IH [of "load_mark d m"] Cons.prems x show ?case by simp
qed simp

lemma load_marks_other:
  "bd_elems (foldl load_mark d ms) = bd_elems d \<and> bd_byId (foldl load_mark d ms) = bd_byId d \<and>
   bd_attrs (foldl load_mark d ms) = bd_attrs d \<and> bd_site (foldl load_mark d ms) = bd_site d \<and>
   bd_counter d \<le> bd_counter (foldl load_mark d ms) \<and> (\<forall>m\<in>set ms. mk_lamport m \<le> bd_counter (foldl load_mark d ms))"
proof (induction ms arbitrary: d)
  case (Cons m ms)
  have "bd_counter (load_mark d m) = max (bd_counter d) (mk_lamport m)" by (simp add: load_mark_def)
  with Cons [of "load_mark d m"] show ?case by (auto simp: load_mark_def)
qed simp

lemma blocks_loop_cong:
  assumes "bd_elems d = bd_elems e" "bd_byId d = bd_byId e" "bd_attrs d = bd_attrs e" "bd_marks d = bd_marks e"
  shows "bd_blocks d = bd_blocks e"
proof -
  have "elemType d = elemType e" unfolding elemType_def assms(1,2) ..
  then have "renderBlock d = renderBlock e"
    unfolding renderBlock_def effectiveType_def effectiveAttrs_def assms(3,4) by (simp only:)
  then have fl: "flush d = flush e" by (simp add: flush_def fun_eq_iff split: option.split)
  have "blocks_loop d es cur = blocks_loop e es cur" for es cur
    by (induction es arbitrary: cur) (simp_all add: fl split_beta Let_def split: elem_kind.split)
  with assms(1) show ?thesis by (simp add: bd_blocks_def)
qed

section \<open>The round trip\<close>



end
