(* ===== verification/BlockEditProps.thy ===== *)
theory BlockEditProps
  imports BlockSnapshot
begin

text \<open>
  Local edits of a block document: inserting and deleting text addresses the visible characters between
  a block's marker and the next marker, and changes nothing else. Where the code falls short of its
  comments is shown at the end.
\<close>

section \<open>Documents with nothing pending\<close>

definition bd_settled :: "block_doc \<Rightarrow> bool" where
  "bd_settled d \<longleftrightarrow> distinct (map el_id (bd_elems d)) \<and> bd_byId d = bd_reindex (bd_elems d) \<and>
     (\<forall>e\<in>set (bd_elems d). id_counter (el_id e) \<le> bd_counter d) \<and>
     (\<forall>i. idKey i \<in> bd_applied d \<longrightarrow> id_counter i \<le> bd_counter d) \<and> bd_buffer d = [] \<and> bd_delBuffer d = []"

lemma drain_nothing: "bd_buffer d = [] \<Longrightarrow> bd_delBuffer d = [] \<Longrightarrow> bd_drain d = d"
  by (simp add: bd_drain.simps [of d] bd_drain_pass_def)

lemma byId_settled:
  assumes "bd_settled d" "bd_elems d = pre @ e # post"
  shows "bd_byId d (idKey (el_id e)) = Some (length pre)"
proof -
  have d: "distinct (map rn_id (map elem_node (bd_elems d)))" using assms(1) by (simp add: bd_settled_def comp_def elem_node_def)
  have "rn_id (map elem_node (bd_elems d) ! length pre) = el_id e" by (simp add: assms(2) nth_append elem_node_def)
  then show ?thesis
    using assms reindex_nth [OF d, of "length pre"] by (simp add: bd_settled_def bd_reindex_node del: list.map)
qed

lemma byId_fresh:
  assumes "bd_settled d" "bd_counter d < id_counter i"
  shows "bd_byId d (idKey i) = None" "idKey i \<notin> bd_applied d"
proof -
  have "i \<notin> el_id ` set (bd_elems d)" using assms by (auto simp: bd_settled_def)
  moreover have "distinct (map rn_id (map elem_node (bd_elems d)))"
    using assms(1) by (simp add: bd_settled_def comp_def elem_node_def)
  ultimately show "bd_byId d (idKey i) = None"
    using assms(1) reindex_eq_None by (simp add: bd_settled_def bd_reindex_node image_image elem_node_def)
  show "idKey i \<notin> bd_applied d" using assms by (auto simp: bd_settled_def)
qed

lemma skip_fresh:
  assumes "\<forall>e\<in>set es. id_counter (el_id e) < id_counter i"
  shows "bd_skip es i j = j"
  using assms less_rga_id_counter by (subst bd_skip.simps) (auto dest!: nth_mem dest: less_asym)

text \<open>A freshly minted element goes right behind its origin.\<close>

lemma insert_after:
  fixes k :: elem_kind
  assumes ok: "bd_settled d" and es: "bd_elems d = pre @ e # post"
  defines "p \<equiv> \<lparr>bi_id = mintId d, bi_origin = Some (el_id e), bi_kind = k\<rparr>"
  shows "bd_elems (fst (bd_apply d (BIns p))) = pre @ e # new_elem p # post" "bd_settled (fst (bd_apply d (BIns p)))"
    "bd_site (fst (bd_apply d (BIns p))) = bd_site d"
proof -
  let ?i = "mintId d" and ?es' = "pre @ e # new_elem p # post"
  have fresh: "bd_counter d < id_counter ?i" by (simp add: mintId_def)
  have old: "\<forall>x\<in>set (bd_elems d). id_counter (el_id x) < id_counter ?i"
    using ok fresh by (auto simp: bd_settled_def intro: le_less_trans)
  have pos: "bd_byId d (idKey (el_id e)) = Some (length pre)" by (rule byId_settled [OF ok es])
  have splice: "splice_in (Suc (length pre)) (new_elem p) (bd_elems d) = ?es'" by (simp add: es splice_in_def)
  have int: "bd_integrate d p = d\<lparr>bd_elems := ?es', bd_byId := bd_reindex ?es'\<rparr>"
    using skip_fresh [OF old] splice by (simp add: bd_integrate_def p_def pos Let_def)
  have "bd_origin_here d p" by (simp add: bd_origin_here_def p_def pos)
  moreover have "bi_id p = ?i" by (simp add: p_def)
  ultimately have "fst (bd_apply d (BIns p)) = bd_drain (bd_record (bd_integrate d p) (BIns p))"
    using byId_fresh [OF ok fresh] by simp
  also have "\<dots> = bd_record (bd_integrate d p) (BIns p)"
    using ok by (intro drain_nothing) (simp_all add: bd_settled_def)
  finally have res: "fst (bd_apply d (BIns p)) = bd_record (bd_integrate d p) (BIns p)" .
  show "bd_elems (fst (bd_apply d (BIns p))) = ?es'"
    unfolding res by (simp add: int bd_record_def bump_def Let_def)
  show "bd_site (fst (bd_apply d (BIns p))) = bd_site d"
    unfolding res by (simp add: int bd_record_def bump_def Let_def)
  have ctr: "bd_counter (bd_record (bd_integrate d p) (BIns p)) = id_counter ?i"
    using fresh by (simp add: bd_record_def bump_def Let_def bd_integrate_def p_def)
  have "?i \<notin> el_id ` set (bd_elems d)" using old by auto
  then have dist: "distinct (map el_id ?es')" using ok by (auto simp: bd_settled_def es new_elem_def p_def)
  have ap: "id_counter j \<le> id_counter ?i" if "idKey j \<in> insert (idKey ?i) (bd_applied d)" for j
    using that ok fresh by (auto simp: bd_settled_def intro: order_trans less_imp_le)
  have ids: "bi_id p = ?i" "el_id (new_elem p) = ?i" by (simp_all add: p_def new_elem_def)
  have fields: "bd_elems (bd_record (bd_integrate d p) (BIns p)) = ?es'"
    "bd_byId (bd_record (bd_integrate d p) (BIns p)) = bd_reindex ?es'"
    "bd_applied (bd_record (bd_integrate d p) (BIns p)) = insert (idKey ?i) (bd_applied d)"
    "bd_buffer (bd_record (bd_integrate d p) (BIns p)) = []" "bd_delBuffer (bd_record (bd_integrate d p) (BIns p)) = []"
    using ok by (simp_all add: bd_record_def bump_def Let_def int ids bd_settled_def)
  have "\<forall>x\<in>set ?es'. id_counter (el_id x) \<le> id_counter ?i" using old es ids(2) by (auto intro: less_imp_le)
  with dist ap show "bd_settled (fst (bd_apply d (BIns p)))"
    unfolding bd_settled_def res ctr fields by blast
qed

section \<open>The run of a block\<close>

definition is_char :: "elem \<Rightarrow> bool" where
  "is_char e \<longleftrightarrow> (case el_kind e of CharEl _ \<Rightarrow> True | BlockEl _ \<Rightarrow> False)"

lemma is_char_kind: "el_kind e = CharEl ch \<Longrightarrow> is_char e" "el_kind e = BlockEl bt \<Longrightarrow> \<not> is_char e"
  by (simp_all add: is_char_def)

definition char_of_elem :: "elem \<Rightarrow> u16 list" where
  "char_of_elem e = (case el_kind e of CharEl ch \<Rightarrow> ch | BlockEl _ \<Rightarrow> [])"

definition visible_chars :: "elem list \<Rightarrow> elem list" where
  "visible_chars es = filter (\<lambda>e. \<not> el_deleted e) (takeWhile is_char es)"

text \<open>The characters an edit of block \<open>b\<close> addresses.\<close>

definition block_run :: "rga_id \<Rightarrow> elem list \<Rightarrow> elem list" where
  "block_run b es = visible_chars (tl (dropWhile (\<lambda>e. el_id e \<noteq> b) es))"

definition block_chars :: "block_doc \<Rightarrow> rga_id \<Rightarrow> u16 list list" where
  "block_chars d b = map char_of_elem (block_run b (bd_elems d))"

lemma block_run_eq:
  assumes "distinct (map el_id (pre @ m # post))"
  shows "block_run (el_id m) (pre @ m # post) = visible_chars post"
  unfolding block_run_def using assms by (subst dropWhile_append2) (auto simp: image_iff)

lemma char_loop_skip:
  "\<forall>e\<in>set es. \<not> enters b e \<Longrightarrow> char_loop b (es @ rest) False seen n = char_loop b rest False seen n"
  by (induction es) (auto split: elem_kind.split)

lemma char_loop_run:
  "seen < n \<Longrightarrow> n - seen \<le> int (length (visible_chars es)) \<Longrightarrow>
   char_loop b es True seen n = Some (el_id (visible_chars es ! nat (n - seen - 1)))"
proof (induction es arbitrary: seen)
  case (Cons e es)
  show ?case
  proof (cases "el_kind e")
    case (CharEl ch)
    show ?thesis
    proof (cases "el_deleted e")
      case True
      with Cons CharEl show ?thesis by (simp add: visible_chars_def is_char_kind)
    next
      case False
      with CharEl have vis: "visible_chars (e # es) = e # visible_chars es" by (simp add: visible_chars_def is_char_kind)
      show ?thesis
      proof (cases "seen + 1 = n")
        case True
        with CharEl False vis show ?thesis by simp
      next
        case neq: False
        with Cons.prems vis have "seen + 1 < n" "n - (seen + 1) \<le> int (length (visible_chars es))" by auto
        from Cons.IH [OF this] have "char_loop b es True (seen + 1) n = Some (el_id (visible_chars es ! nat (n - (seen + 1) - 1)))" .
        moreover have "nat (n - seen - 1) = Suc (nat (n - (seen + 1) - 1))" using \<open>seen + 1 < n\<close> by simp
        ultimately show ?thesis using CharEl False neq vis by simp
      qed
    qed
  next
    case (BlockEl bt)
    with Cons.prems show ?thesis by (simp add: visible_chars_def is_char_kind)
  qed
qed (simp add: visible_chars_def)

lemma charIdAt:
  assumes es: "bd_elems d = pre @ m # post" and dist: "distinct (map el_id (bd_elems d))" and m: "el_kind m = BlockEl bt"
    and i: "1 \<le> n" "n \<le> int (length (visible_chars post))"
  shows "charIdAtBlockIndex d (Some (el_id m)) n = Some (el_id (visible_chars post ! nat (n - 1)))"
proof -
  have out: "\<forall>e\<in>set pre. \<not> enters (Some (el_id m)) e"
    using dist es by (auto simp: enters_def image_iff)
  have "enters (Some (el_id m)) m" by (simp add: enters_def)
  moreover have "char_loop (Some (el_id m)) post True 0 n = Some (el_id (visible_chars post ! nat (n - 1)))"
    using char_loop_run [of 0 n post "Some (el_id m)"] i by simp
  ultimately have "char_loop (Some (el_id m)) (bd_elems d) False 0 n = Some (el_id (visible_chars post ! nat (n - 1)))"
    unfolding es char_loop_skip [OF out] by (simp add: m)
  with i(1) show ?thesis by (simp add: charIdAtBlockIndex_def)
qed

text \<open>The \<open>n\<close>-th visible character splits the run.\<close>

lemma visible_split:
  assumes "n < length (visible_chars es)"
  obtains xs e ys where "es = xs @ e # ys" "visible_chars es ! n = e" "visible_chars xs = take n (visible_chars es)"
    "list_all is_char xs" "is_char e" "\<not> el_deleted e" "visible_chars ys = drop (Suc n) (visible_chars es)"
proof -
  from assms have "\<exists>xs e ys. es = xs @ e # ys \<and> visible_chars es ! n = e \<and> visible_chars xs = take n (visible_chars es) \<and>
      list_all is_char xs \<and> is_char e \<and> \<not> el_deleted e \<and> visible_chars ys = drop (Suc n) (visible_chars es)"
  proof (induction es arbitrary: n)
    case (Cons x es)
    show ?case
    proof (cases "is_char x \<and> el_deleted x")
      case True
      then have vis: "visible_chars (x # zs) = visible_chars zs" for zs by (simp add: visible_chars_def)
      from Cons.IH [of n] Cons.prems obtain xs e ys where e: "es = xs @ e # ys" "visible_chars es ! n = e"
        "visible_chars xs = take n (visible_chars es)" "list_all is_char xs" "is_char e" "\<not> el_deleted e"
        "visible_chars ys = drop (Suc n) (visible_chars es)" unfolding vis by blast
      show ?thesis by (rule exI [of _ "x # xs"], rule exI [of _ e], rule exI [of _ ys]) (use e True vis in auto)
    next
      case False
      with Cons.prems have x: "is_char x" "\<not> el_deleted x" by (auto simp: visible_chars_def split: if_splits)
      then have vis: "visible_chars (x # zs) = x # visible_chars zs" for zs by (simp add: visible_chars_def)
      show ?thesis
      proof (cases n)
        case 0
        show ?thesis
          by (rule exI [of _ "[]"], rule exI [of _ x], rule exI [of _ es]) (use x vis 0 in \<open>auto simp: visible_chars_def\<close>)
      next
        case (Suc k)
        from Cons.IH [of k] Cons.prems Suc obtain xs e ys where e: "es = xs @ e # ys" "visible_chars es ! k = e"
          "visible_chars xs = take k (visible_chars es)" "list_all is_char xs" "is_char e" "\<not> el_deleted e"
          "visible_chars ys = drop (Suc k) (visible_chars es)" unfolding vis by auto
        show ?thesis by (rule exI [of _ "x # xs"], rule exI [of _ e], rule exI [of _ ys]) (use e x Suc vis in auto)
      qed
    qed
  qed (simp add: visible_chars_def)
  with that show thesis by blast
qed

lemma visible_append: "list_all is_char xs \<Longrightarrow> visible_chars (xs @ ys) = visible_chars xs @ visible_chars ys"
  by (induction xs) (auto simp: visible_chars_def)

lemma visible_chars_only: "list_all (\<lambda>e. is_char e \<and> \<not> el_deleted e) xs \<Longrightarrow> visible_chars xs = xs"
  by (induction xs) (auto simp: visible_chars_def)

section \<open>Inserting text\<close>

definition fresh_chars :: "elem list \<Rightarrow> u16 list list \<Rightarrow> bool" where
  "fresh_chars news chs \<longleftrightarrow> list_all (\<lambda>e. is_char e \<and> \<not> el_deleted e) news \<and> map char_of_elem news = chs"

lemma insert_text_run:
  assumes "bd_settled d" "bd_elems d = pre @ e # post"
  shows "\<exists>news. fresh_chars news chs \<and> bd_settled (fst (insert_text_loop d (Some (el_id e)) chs ops)) \<and>
    bd_elems (fst (insert_text_loop d (Some (el_id e)) chs ops)) = pre @ e # news @ post"
  using assms
proof (induction chs arbitrary: d pre e ops)
  case Nil
  then show ?case by (intro exI [of _ "[]"]) (simp add: fresh_chars_def)
next
  case (Cons ch chs)
  let ?p = "\<lparr>bi_id = mintId d, bi_origin = Some (el_id e), bi_kind = CharEl ch\<rparr>"
  let ?d = "fst (bd_apply d (BIns ?p))"
  note ins = insert_after [OF Cons.prems, of "CharEl ch"]
  have es: "bd_elems ?d = (pre @ [e]) @ new_elem ?p # post" using ins(1) by simp
  have i: "mintId d = el_id (new_elem ?p)" by (simp add: new_elem_def)
  obtain news where news: "fresh_chars news chs"
    "bd_settled (fst (insert_text_loop ?d (Some (el_id (new_elem ?p))) chs (ops @ [BIns ?p])))"
    "bd_elems (fst (insert_text_loop ?d (Some (el_id (new_elem ?p))) chs (ops @ [BIns ?p]))) = (pre @ [e]) @ new_elem ?p # news @ post"
    using Cons.IH [OF ins(2) es, of "ops @ [BIns ?p]"] by blast
  have "insert_text_loop d (Some (el_id e)) (ch # chs) ops =
      insert_text_loop ?d (Some (el_id (new_elem ?p))) chs (ops @ [BIns ?p])"
    by (simp only: insert_text_loop.simps Let_def i [symmetric])
  moreover have "fresh_chars (new_elem ?p # news) (ch # chs)"
    using news(1) by (simp add: fresh_chars_def new_elem_def char_of_elem_def is_char_def)
  ultimately show ?case using news(2,3) by (intro exI [of _ "new_elem ?p # news"]) simp
qed

text \<open>Elements put behind characters of one block leave the runs of the other blocks as they were.\<close>

lemma visible_stop: "\<not> is_char m \<Longrightarrow> visible_chars (c @ m # r) = visible_chars c"
  unfolding visible_chars_def by (induction c) auto

lemma other_run:
  assumes d: "distinct (map el_id (pre @ m # zs @ ys))" "distinct (map el_id (pre @ m # zs' @ ys))"
    and m: "\<not> is_char m" and zs: "list_all is_char zs"
    and x: "x \<in> set (pre @ m # zs @ ys)" "\<not> is_char x" "el_id x \<noteq> el_id m"
  shows "block_run (el_id x) (pre @ m # zs' @ ys) = block_run (el_id x) (pre @ m # zs @ ys)"
proof -
  have "x \<in> set pre \<or> x \<in> set ys" using x zs by (auto simp: list_all_iff)
  then show ?thesis
  proof
    assume "x \<in> set pre"
    then obtain a c where pre: "pre = a @ x # c" by (auto dest: split_list)
    have "block_run (el_id x) (pre @ m # r) = visible_chars c" if "distinct (map el_id (pre @ m # r))" for r
      using block_run_eq [of a x "c @ m # r"] that visible_stop [OF m] by (simp add: pre)
    from this [OF d(1)] this [OF d(2)] show ?thesis by simp
  next
    assume "x \<in> set ys"
    then obtain a c where ys: "ys = a @ x # c" by (auto dest: split_list)
    have "block_run (el_id x) (pre @ m # r @ ys) = visible_chars c" if "distinct (map el_id (pre @ m # r @ ys))" for r
      using block_run_eq [of "pre @ m # r @ a" x c] that by (simp add: ys)
    from this [OF d(1)] this [OF d(2)] show ?thesis by simp
  qed
qed

text \<open>
  Claim C25: inserting text into a block puts its characters, one element per code point, at the given
  position among the visible characters of the block, and every other block keeps its characters.
\<close>

theorem insertText_block:
  assumes ok: "bd_settled d" and m: "m \<in> set (bd_elems d)" "el_kind m = BlockEl bt" "el_id m = b"
    and i: "0 \<le> index" "index \<le> int (length (block_chars d b))"
  shows "block_chars (fst (insertText d (Some b) index text)) b =
      take (nat index) (block_chars d b) @ code_points text @ drop (nat index) (block_chars d b) \<and>
    (\<forall>x\<in>set (bd_elems d). \<not> is_char x \<and> el_id x \<noteq> b \<longrightarrow>
       block_chars (fst (insertText d (Some b) index text)) (el_id x) = block_chars d (el_id x)) \<and>
    bd_settled (fst (insertText d (Some b) index text))"
proof -
  obtain pre post where es: "bd_elems d = pre @ m # post" using m(1) by (auto dest: split_list)
  have dist: "distinct (map el_id (bd_elems d))" using ok by (simp add: bd_settled_def)
  have run: "block_run b (bd_elems d) = visible_chars post" using block_run_eq [of pre m post] dist m(3) by (simp add: es)
  have "\<exists>xs e ys. bd_elems d = xs @ e # ys \<and> (if index \<le> 0 then Some b else charIdAtBlockIndex d (Some b) index) = Some (el_id e) \<and>
      (\<exists>zs. xs @ [e] = pre @ m # zs \<and> list_all is_char zs \<and> visible_chars zs = take (nat index) (visible_chars post)) \<and>
      visible_chars ys = drop (nat index) (visible_chars post)"
  proof (cases "index = 0")
    case True
    then show ?thesis
      by (intro exI [of _ pre] exI [of _ m] exI [of _ post]) (simp add: es m(3) visible_chars_def)
  next
    case False
    with i run have n: "nat (index - 1) < length (visible_chars post)" by (simp add: block_chars_def)
    from visible_split [OF this] obtain xs e ys where e: "post = xs @ e # ys" "visible_chars post ! nat (index - 1) = e"
      "visible_chars xs = take (nat (index - 1)) (visible_chars post)" "list_all is_char xs" "is_char e" "\<not> el_deleted e"
      "visible_chars ys = drop (Suc (nat (index - 1))) (visible_chars post)" .
    have "charIdAtBlockIndex d (Some b) index = Some (el_id e)"
      using charIdAt [OF es dist m(2), of index] i False run m(3) e(2) by (simp add: block_chars_def)
    moreover have suc: "Suc (nat (index - 1)) = nat index" using False i by simp
    moreover have "visible_chars (xs @ [e]) = take (nat index) (visible_chars post)"
    proof -
      have "visible_chars (xs @ [e]) = take (nat (index - 1)) (visible_chars post) @ [visible_chars post ! nat (index - 1)]"
        unfolding visible_append [OF e(4)] e(3) using e(2,5,6) by (simp add: visible_chars_def)
      also have "\<dots> = take (Suc (nat (index - 1))) (visible_chars post)" by (rule take_Suc_conv_app_nth [OF n, symmetric])
      finally show ?thesis using suc by simp
    qed
    ultimately show ?thesis
      using e False i by (intro exI [of _ "pre @ m # xs"] exI [of _ e] exI [of _ ys]) (auto simp: es intro!: exI [of _ "xs @ [e]"])
  qed
  then obtain xs e ys zs where a: "bd_elems d = xs @ e # ys"
    "(if index \<le> 0 then Some b else charIdAtBlockIndex d (Some b) index) = Some (el_id e)"
    "xs @ [e] = pre @ m # zs" "list_all is_char zs" "visible_chars zs = take (nat index) (visible_chars post)"
    "visible_chars ys = drop (nat index) (visible_chars post)" by blast
  let ?d = "fst (insertText d (Some b) index text)"
  obtain news where news: "fresh_chars news (code_points text)" "bd_settled ?d" "bd_elems ?d = xs @ e # news @ ys"
    using insert_text_run [OF ok a(1), of "code_points text" "[]"] unfolding insertText_def a(2) by blast
  have es': "bd_elems ?d = (pre @ m # zs) @ news @ ys" using news(3) a(3) by (metis append.assoc append_Cons append_Nil)
  have es0: "bd_elems d = (pre @ m # zs) @ [] @ ys" using a(1,3) by (metis append.assoc append_Cons append_Nil)
  have dist': "distinct (map el_id (bd_elems ?d))" using news(2) by (simp add: bd_settled_def)
  have nc: "list_all is_char news" "visible_chars news = news" "map char_of_elem news = code_points text"
    using news(1) visible_chars_only by (auto simp: fresh_chars_def list_all_iff)
  have "block_run b (bd_elems ?d) = visible_chars (zs @ news @ ys)"
    using block_run_eq [of pre m "zs @ news @ ys"] dist' m(3) by (simp add: es')
  also have "\<dots> = take (nat index) (visible_chars post) @ news @ drop (nat index) (visible_chars post)"
    by (simp add: visible_append a(4-6) nc)
  finally have "block_chars ?d b = take (nat index) (block_chars d b) @ code_points text @ drop (nat index) (block_chars d b)"
    by (simp add: block_chars_def run nc(3) take_map drop_map)
  moreover have "block_chars ?d (el_id x) = block_chars d (el_id x)"
    if x: "x \<in> set (bd_elems d)" "\<not> is_char x" "el_id x \<noteq> b" for x
    using other_run [of pre m zs ys "zs @ news" x] dist dist' a(4) x m(3) is_char_kind(2) [OF m(2)]
    unfolding block_chars_def es0 es' by simp
  ultimately show ?thesis using news(2) by blast
qed

section \<open>Deleting text\<close>

lemma reindex_ids: "map el_id es = map el_id fs \<Longrightarrow> bd_reindex es = bd_reindex fs"
proof -
  have "map el_id es = map el_id fs \<Longrightarrow> bd_reindex_from i es m = bd_reindex_from i fs m" for i m
  proof (induction es arbitrary: fs i m)
    case (Cons e es)
    then obtain f fs' where "fs = f # fs'" by (cases fs) simp_all
    with Cons.prems Cons.IH [of fs' "Suc i" "m(idKey (el_id f) \<mapsto> i)"] show ?case
      by (simp add: fun_upd_def)
  qed simp
  then show "map el_id es = map el_id fs \<Longrightarrow> bd_reindex es = bd_reindex fs" by (simp add: bd_reindex_def)
qed

lemma delete_at:
  fixes e :: elem
  assumes ok: "bd_settled d" and es: "bd_elems d = pre @ e # post"
  defines "p \<equiv> \<lparr>do_opId = mintId d, do_target = el_id e\<rparr>"
  shows "bd_elems (fst (bd_apply d (BDel p))) = pre @ e\<lparr>el_deleted := True\<rparr> # post" "bd_settled (fst (bd_apply d (BDel p)))"
proof -
  let ?i = "mintId d" and ?es' = "pre @ e\<lparr>el_deleted := True\<rparr> # post"
  let ?r = "bd_record (bd_tombstone d (length pre)) (BDel p)"
  have fresh: "bd_counter d < id_counter ?i" by (simp add: mintId_def)
  have ids: "do_opId p = ?i" "do_target p = el_id e" by (simp_all add: p_def)
  have res: "fst (bd_apply d (BDel p)) = ?r"
    using byId_settled [OF ok es] byId_fresh [OF ok fresh] by (simp add: ids)
  have tomb: "bd_elems (bd_tombstone d (length pre)) = ?es'"
    by (simp add: bd_tombstone_def es nth_append list_update_append)
  have map_es: "map el_id ?es' = map el_id (bd_elems d)" by (simp add: es)
  have idx: "bd_reindex ?es' = bd_reindex (bd_elems d)" by (rule reindex_ids [OF map_es])
  have fields: "bd_elems ?r = ?es'" "bd_byId ?r = bd_byId d" "bd_applied ?r = insert (idKey ?i) (bd_applied d)"
    "bd_counter ?r = id_counter ?i" "bd_buffer ?r = []" "bd_delBuffer ?r = []"
    using ok fresh by (simp_all add: bd_record_def bump_def Let_def tomb ids bd_settled_def) (simp_all add: bd_tombstone_def)
  show "bd_elems (fst (bd_apply d (BDel p))) = ?es'" by (simp only: res fields)
  have old: "\<forall>x\<in>set ?es'. id_counter (el_id x) \<le> id_counter ?i"
    using ok fresh unfolding bd_settled_def es by (auto intro: order_trans less_imp_le)
  have ap: "\<forall>j. idKey j \<in> insert (idKey ?i) (bd_applied d) \<longrightarrow> id_counter j \<le> id_counter ?i"
    using ok fresh by (auto simp: bd_settled_def intro: order_trans less_imp_le)
  have "distinct (map el_id ?es')" "bd_byId d = bd_reindex ?es'"
    unfolding map_es idx using ok by (simp_all add: bd_settled_def)
  with old ap show "bd_settled (fst (bd_apply d (BDel p)))"
    unfolding res bd_settled_def fields by blast
qed

lemma delete_run:
  assumes "bd_settled d" "bd_elems d = pre @ m # post" "el_kind m = BlockEl bt"
    and "0 \<le> index" "index + int count \<le> int (length (visible_chars post))"
  shows "\<exists>post'. bd_elems (fst (delete_text_loop d (Some (el_id m)) index count ops)) = pre @ m # post' \<and>
    bd_settled (fst (delete_text_loop d (Some (el_id m)) index count ops)) \<and>
    visible_chars post' = take (nat index) (visible_chars post) @ drop (nat index + count) (visible_chars post) \<and>
    (\<forall>x\<in>set (pre @ m # post). \<not> is_char x \<and> el_id x \<noteq> el_id m \<longrightarrow> x \<in> set (pre @ m # post') \<and>
       block_run (el_id x) (pre @ m # post') = block_run (el_id x) (pre @ m # post))"
  using assms
proof (induction count arbitrary: d post ops)
  case 0
  then show ?case by (intro exI [of _ post]) simp
next
  case (Suc n)
  let ?vs = "visible_chars post"
  have dist: "distinct (map el_id (bd_elems d))" using Suc.prems(1) by (simp add: bd_settled_def)
  have lt: "nat index < length ?vs" using Suc.prems(4,5) by simp
  from visible_split [OF lt] obtain xs e ys where e: "post = xs @ e # ys" "?vs ! nat index = e"
    "visible_chars xs = take (nat index) ?vs" "list_all is_char xs" "is_char e" "\<not> el_deleted e"
    "visible_chars ys = drop (Suc (nat index)) ?vs" .
  have c: "charIdAtBlockIndex d (Some (el_id m)) (index + 1) = Some (el_id e)"
    using charIdAt [OF Suc.prems(2) dist Suc.prems(3), of "index + 1"] Suc.prems(4,5) e(2) by simp
  let ?p = "\<lparr>do_opId = mintId d, do_target = el_id e\<rparr>"
  let ?d = "fst (bd_apply d (BDel ?p))" and ?e = "e\<lparr>el_deleted := True\<rparr>"
  let ?post = "xs @ ?e # ys"
  have "bd_elems d = (pre @ m # xs) @ e # ys" using Suc.prems(2) e(1) by simp
  note del = delete_at [OF Suc.prems(1) this]
  have es: "bd_elems ?d = pre @ m # ?post" using del(1) by simp
  have ch: "is_char ?e" using e(5) by (simp add: is_char_def)
  have vis: "visible_chars ?post = take (nat index) ?vs @ drop (Suc (nat index)) ?vs"
    using ch by (simp add: visible_append [OF e(4)] e(3) e(7) [symmetric]) (simp add: visible_chars_def)
  have "index + int n \<le> int (length (visible_chars ?post))" using Suc.prems(4,5) lt by (simp add: vis)
  from Suc.IH [OF del(2) es Suc.prems(3,4) this, of "ops @ [BDel ?p]"] obtain post' where IH:
    "bd_elems (fst (delete_text_loop ?d (Some (el_id m)) index n (ops @ [BDel ?p]))) = pre @ m # post'"
    "bd_settled (fst (delete_text_loop ?d (Some (el_id m)) index n (ops @ [BDel ?p])))"
    "visible_chars post' = take (nat index) (visible_chars ?post) @ drop (nat index + n) (visible_chars ?post)"
    "\<forall>x\<in>set (pre @ m # ?post). \<not> is_char x \<and> el_id x \<noteq> el_id m \<longrightarrow> x \<in> set (pre @ m # post') \<and>
       block_run (el_id x) (pre @ m # post') = block_run (el_id x) (pre @ m # ?post)" by blast
  have loop: "delete_text_loop d (Some (el_id m)) index (Suc n) ops = delete_text_loop ?d (Some (el_id m)) index n (ops @ [BDel ?p])"
    by (simp only: delete_text_loop.simps c option.case Let_def)
  have v: "visible_chars post' = take (nat index) ?vs @ drop (nat index + Suc n) ?vs" using lt by (simp add: IH(3) vis add.commute)
  have "x \<in> set (pre @ m # post') \<and> block_run (el_id x) (pre @ m # post') = block_run (el_id x) (pre @ m # post)"
    if x: "x \<in> set (pre @ m # post)" "\<not> is_char x" "el_id x \<noteq> el_id m" for x
  proof -
    have "x \<in> set (pre @ m # ?post)" using x e(1,5) by auto
    moreover have "block_run (el_id x) (pre @ m # ?post) = block_run (el_id x) (pre @ m # post)"
    proof -
      have "distinct (map el_id (pre @ m # (xs @ [e]) @ ys))" "distinct (map el_id (pre @ m # (xs @ [?e]) @ ys))"
        using dist unfolding Suc.prems(2) e(1) by simp_all
      from other_run [OF this is_char_kind(2) [OF Suc.prems(3)], of x] e(1,4,5) x show ?thesis by simp
    qed
    ultimately show ?thesis using IH(4) x(2,3) by auto
  qed
  with IH(1,2) v show ?case unfolding loop by blast
qed

text \<open>
  deleting text that lies within a block removes exactly those characters, and every other
  block keeps its characters.
\<close>

theorem deleteText_block:
  assumes ok: "bd_settled d" and m: "m \<in> set (bd_elems d)" "el_kind m = BlockEl bt" "el_id m = b"
    and i: "0 \<le> index" "index + int count \<le> int (length (block_chars d b))"
  shows "block_chars (fst (deleteText d (Some b) index count)) b =
      take (nat index) (block_chars d b) @ drop (nat index + count) (block_chars d b) \<and>
    (\<forall>x\<in>set (bd_elems d). \<not> is_char x \<and> el_id x \<noteq> b \<longrightarrow>
       block_chars (fst (deleteText d (Some b) index count)) (el_id x) = block_chars d (el_id x)) \<and>
    bd_settled (fst (deleteText d (Some b) index count))"
proof -
  obtain pre post where es: "bd_elems d = pre @ m # post" using m(1) by (auto dest: split_list)
  have run: "block_run (el_id m) (pre @ m # r) = visible_chars r" if "bd_settled e" "bd_elems e = pre @ m # r" for e r
    using block_run_eq [of pre m r] that by (simp add: bd_settled_def)
  have le: "index + int count \<le> int (length (visible_chars post))"
    using i(2) run [OF ok es] m(3) by (simp add: block_chars_def es)
  from delete_run [OF ok es m(2) i(1) le, of "[]"] m(3) obtain post' where r:
    "bd_elems (fst (deleteText d (Some b) index count)) = pre @ m # post'" "bd_settled (fst (deleteText d (Some b) index count))"
    "visible_chars post' = take (nat index) (visible_chars post) @ drop (nat index + count) (visible_chars post)"
    "\<forall>x\<in>set (pre @ m # post). \<not> is_char x \<and> el_id x \<noteq> b \<longrightarrow>
       block_run (el_id x) (pre @ m # post') = block_run (el_id x) (pre @ m # post)" by (auto simp: deleteText_def)
  have "block_run b (pre @ m # post') = visible_chars post'" "block_run b (pre @ m # post) = visible_chars post"
    using run [OF r(2,1)] run [OF ok es] m(3) by simp_all
  with r show ?thesis by (simp add: block_chars_def es take_map drop_map)
qed

section \<open>An example\<close>

text \<open>A heading \<^verbatim>\<open>ab\<close> and a paragraph \<^verbatim>\<open>cd\<close>.\<close>

definition example_ops :: "block_ins list" where
  "example_ops =
     [\<lparr>bi_id = RgaId 1 ''s'', bi_origin = None, bi_kind = BlockEl ''heading''\<rparr>,
      \<lparr>bi_id = RgaId 2 ''s'', bi_origin = Some (RgaId 1 ''s''), bi_kind = CharEl [97]\<rparr>,
      \<lparr>bi_id = RgaId 3 ''s'', bi_origin = Some (RgaId 2 ''s''), bi_kind = CharEl [98]\<rparr>,
      \<lparr>bi_id = RgaId 4 ''s'', bi_origin = Some (RgaId 3 ''s''), bi_kind = BlockEl ''paragraph''\<rparr>,
      \<lparr>bi_id = RgaId 5 ''s'', bi_origin = Some (RgaId 4 ''s''), bi_kind = CharEl [99]\<rparr>,
      \<lparr>bi_id = RgaId 6 ''s'', bi_origin = Some (RgaId 5 ''s''), bi_kind = CharEl [100]\<rparr>]"

definition example_doc :: block_doc where
  "example_doc = \<lparr>bd_site = ''s'', bd_counter = 6, bd_elems = map new_elem example_ops,
     bd_byId = bd_reindex (map new_elem example_ops), bd_buffer = [], bd_delBuffer = [],
     bd_applied = set (map (idKey \<circ> bi_id) example_ops), bd_seen = [''s'' \<mapsto> 6], bd_log = map BIns example_ops,
     bd_attrs = [], bd_marks = []\<rparr>"

lemma example_settled: "bd_settled example_doc"
  by (auto simp: bd_settled_def example_doc_def example_ops_def new_elem_def)

lemma example_marker:
  "new_elem \<lparr>bi_id = RgaId 1 ''s'', bi_origin = None, bi_kind = BlockEl ''heading''\<rparr> \<in> set (bd_elems example_doc)"
  "block_chars example_doc (RgaId 1 ''s'') = [[97], [98]]"
  by (simp_all add: example_doc_def example_ops_def block_chars_def block_run_def visible_chars_def new_elem_def
      is_char_def char_of_elem_def)

text \<open>It is what a replica holds that was given these insertions.\<close>

lemma example_replica: "bd_elems (bd_replica ''s'' (map BIns example_ops)) = bd_elems example_doc"
  by code_simp

theorem insertText_block_witness:
  "block_chars (fst (insertText example_doc (Some (RgaId 1 ''s'')) 1 [120, 121])) (RgaId 1 ''s'') = [[97], [120], [121], [98]]"
  using insertText_block [OF example_settled example_marker(1), of "''heading''" "RgaId 1 ''s''" 1 "[120, 121]"]
  by (simp add: new_elem_def example_marker(2) [simplified] high_surrogate_def low_surrogate_def)

theorem deleteText_block_witness:
  "block_chars (fst (deleteText example_doc (Some (RgaId 1 ''s'')) 1 1)) (RgaId 1 ''s'') = [[97]]"
  using deleteText_block [OF example_settled example_marker(1), of "''heading''" "RgaId 1 ''s''" 1 1]
  by (simp add: new_elem_def example_marker(2) [simplified])

section \<open>Where the code falls short\<close>

text \<open>
  Past the end of a block \<^verbatim>\<open>charIdAtBlockIndex\<close> falls back to the last visible character and then to the
  marker itself, so a deletion that reaches over the end eats the block from behind: deleting three
  characters at the end of the heading removes both its characters and the heading.
\<close>

lemma deleteText_past_end_removes_block:
  "bd_blocks (fst (deleteText example_doc (Some (RgaId 1 ''s'')) 1 3)) =
     [\<lparr>rb_id = Some (RgaId 4 ''s''), rb_type = JStr ''paragraph'', rb_attrs = [], rb_text = [99, 100], rb_marks = []\<rparr>]"
  by code_simp

text \<open>After a merge the positions behind the removed marker are out of reach: they mean the end of the first part.\<close>

lemma merged_block_addresses_first_part:
  "map rb_text (bd_blocks (fst (mergeBlock example_doc (RgaId 4 ''s'')))) = [[97, 98, 99, 100]]"
  "map rb_text (bd_blocks (fst (insertText (fst (mergeBlock example_doc (RgaId 4 ''s''))) (Some (RgaId 1 ''s'')) 3 [120]))) =
     [[97, 98, 120, 99, 100]]"
  by code_simp+

text \<open>A loaded document offers only its insertions to a peer, so what was deleted comes back there.\<close>

lemma loaded_document_forgets_deletions:
  "case bd_fromSnapshot ''t'' (bd_snapshot (fst (deleteText example_doc (Some (RgaId 1 ''s'')) 0 1))) of
     Inl _ \<Rightarrow> False
   | Inr d \<Rightarrow> map rb_text (bd_blocks d) = [[98], [99, 100]] \<and>
       map rb_text (bd_blocks (fst (bd_applyMany (block_empty ''u'') (bd_opsSince d Map.empty)))) = [[97, 98], [99, 100]]"
  by code_simp

text \<open>The key of a block whose site id holds an at-sign does not survive a snapshot.\<close>

lemma parseBlockKey_at_sign:
  "parseBlockKey (idKey (RgaId 3 ''a@b'')) = Some (None, ''b'')"
  by code_simp

end
