(* ===== verification/StructuredMerge.thy ===== *)
theory StructuredMerge
  imports Json
begin

text \<open>
  The three-way merge of an id-keyed list, \<^verbatim>\<open>packages/upgrade/src/structured-merge.ts\<close>. The lists come
  as raw values: an array, or the JSON text of one, which \<^verbatim>\<open>JSON.parse\<close> reads; the parser of the
  standard library is the parameter \<open>parse\<close>. Equality of elements is equality of the canonical form:
  the code compares its JSON text, which determines it.
\<close>

section \<open>Parsing and indexing\<close>

definition stable :: "json \<Rightarrow> json" where
  "stable v = sortDeep v"

fun id_of :: "string \<Rightarrow> json \<Rightarrow> string option" where
  "id_of idk (JObj kvs) = (case map_of kvs idk of Some (JStr i) \<Rightarrow> Some i | _ \<Rightarrow> None)"
| "id_of idk _ = None"

fun parse_array :: "json \<Rightarrow> json list" where
  "parse_array (JArr xs) = xs"
| "parse_array _ = []"

fun parseList :: "(string \<Rightarrow> json option) \<Rightarrow> json \<Rightarrow> string \<Rightarrow> json list" where
  "parseList parse (JStr s) idk =
     (case parse s of None \<Rightarrow> [] | Some v \<Rightarrow> filter (\<lambda>x. id_of idk x \<noteq> None) (parse_array v))"
| "parseList parse v idk = filter (\<lambda>x. id_of idk x \<noteq> None) (parse_array v)"

text \<open>Every element a list keeps after parsing has a string id.\<close>

definition key_of :: "string \<Rightarrow> json \<Rightarrow> string" where
  "key_of idk x = nullish (id_of idk x) ''undefined''"

definition sm_byId :: "json list \<Rightarrow> string \<Rightarrow> (string \<times> json) list" where
  "sm_byId items idk = fold (\<lambda>x m. AList.update (key_of idk x) x m) items []"

section \<open>The merge\<close>

datatype conflict_reason = BothChanged | EditVsRemove

definition merge_eq :: "json option \<Rightarrow> json option \<Rightarrow> bool" where
  "merge_eq x y \<longleftrightarrow> stable (nullish x JNull) = stable (nullish y JNull)"

text \<open>The body of the loop for one id: what it pushes to the items and to the conflicts.\<close>

definition merge_one :: "json option \<Rightarrow> json option \<Rightarrow> json option \<Rightarrow> json option \<times> conflict_reason option" where
  "merge_one xb xl xr =
     (let inB = xb \<noteq> None; inL = xl \<noteq> None; inR = xr \<noteq> None in
      if inL \<and> inR then
        if merge_eq xl xr then (xl, None)
        else
          let localChanged = \<not> inB \<or> \<not> merge_eq xl xb;
              remoteChanged = \<not> inB \<or> \<not> merge_eq xr xb
          in if localChanged \<and> \<not> remoteChanged then (xl, None)
             else if \<not> localChanged \<and> remoteChanged then (xr, None)
             else (xl, Some BothChanged)
      else if inL \<and> \<not> inR then
        if inB \<and> \<not> merge_eq xl xb then (xl, Some EditVsRemove)
        else if inB \<and> merge_eq xl xb then (None, None)
        else (xl, None)
      else if \<not> inL \<and> inR then
        if inB \<and> \<not> merge_eq xr xb then (xr, Some EditVsRemove)
        else if inB \<and> merge_eq xr xb then (None, None)
        else (xr, None)
      else (None, None))"

definition push_order :: "string \<Rightarrow> string set \<Rightarrow> json list \<Rightarrow> string list \<Rightarrow> string list" where
  "push_order idk ids xs order =
     fold (\<lambda>x acc. if key_of idk x \<in> ids \<and> key_of idk x \<notin> set acc then acc @ [key_of idk x] else acc) xs order"

fun merge_loop :: "(string \<times> json) list \<Rightarrow> (string \<times> json) list \<Rightarrow> (string \<times> json) list \<Rightarrow> string list \<Rightarrow>
    json list \<times> (string \<times> conflict_reason) list" where
  "merge_loop b l r [] = ([], [])"
| "merge_loop b l r (i # is) =
     (let (item, reason) = merge_one (map_of b i) (map_of l i) (map_of r i);
          (items, conflicts) = merge_loop b l r is
      in ((case item of None \<Rightarrow> items | Some x \<Rightarrow> x # items),
          (case reason of None \<Rightarrow> conflicts | Some c \<Rightarrow> (i, c) # conflicts)))"

definition mergeKeyedList ::
  "(string \<Rightarrow> json option) \<Rightarrow> json \<Rightarrow> json \<Rightarrow> json \<Rightarrow> string \<Rightarrow> json list \<times> (string \<times> conflict_reason) list" where
  "mergeKeyedList parse base local remote idk =
     (let baseList = parseList parse base idk;
          localList = parseList parse local idk;
          remoteList = parseList parse remote idk;
          b = sm_byId baseList idk; l = sm_byId localList idk; r = sm_byId remoteList idk;
          ids = set (keys_of b) \<union> set (keys_of l) \<union> set (keys_of r);
          order = push_order idk ids remoteList (push_order idk ids localList (push_order idk ids baseList []))
      in merge_loop b l r order)"

section \<open>The index\<close>

lemma byId_find: "map_of (sm_byId xs idk) i = find (\<lambda>x. key_of idk x = i) (rev xs)"
proof -
  have "map_of (fold (\<lambda>x m. AList.update (key_of idk x) x m) xs m) i =
      (case find (\<lambda>x. key_of idk x = i) (rev xs) of None \<Rightarrow> map_of m i | Some x \<Rightarrow> Some x)" for m
    by (induction xs arbitrary: m) (auto simp: find_append split: option.splits)
  then show ?thesis by (simp add: sm_byId_def split: option.split)
qed

lemma wf_byId: "wf_map (sm_byId xs idk)"
proof -
  have "wf_map m \<Longrightarrow> wf_map (fold (\<lambda>x m. AList.update (key_of idk x) x m) xs m)" for m
    by (induction xs arbitrary: m) (auto simp: distinct_update)
  then show ?thesis by (simp add: sm_byId_def)
qed

lemma byId_SomeD: "map_of (sm_byId xs idk) i = Some x \<Longrightarrow> x \<in> set xs \<and> key_of idk x = i"
  unfolding byId_find by (drule find_SomeD) simp

lemma byId_None: "map_of (sm_byId xs idk) i = None \<longleftrightarrow> i \<notin> key_of idk ` set xs"
  by (simp add: byId_find find_None_iff) blast

lemma keys_byId: "set (keys_of (sm_byId xs idk)) = key_of idk ` set xs"
  using byId_None [of xs idk] unfolding map_of_eq_None_keys by blast

section \<open>The order\<close>

lemma push_order_set:
  "set (push_order idk ids xs acc) = set acc \<union> (key_of idk ` set xs \<inter> ids)"
  by (induction xs arbitrary: acc) (auto simp: push_order_def)

lemma push_order_distinct: "distinct acc \<Longrightarrow> distinct (push_order idk ids xs acc)"
  by (induction xs arbitrary: acc) (auto simp: push_order_def)

lemma merge_order:
  fixes bs ls rs idk
  defines "ids \<equiv> set (keys_of (sm_byId bs idk)) \<union> set (keys_of (sm_byId ls idk)) \<union> set (keys_of (sm_byId rs idk))"
  defines "order \<equiv> push_order idk ids rs (push_order idk ids ls (push_order idk ids bs []))"
  shows "set order = ids \<and> distinct order"
  unfolding order_def ids_def keys_byId by (auto simp: push_order_set push_order_distinct)

section \<open>The loop\<close>

lemma merge_loop_items:
  "fst (merge_loop b l r is) = List.map_filter (\<lambda>i. fst (merge_one (map_of b i) (map_of l i) (map_of r i))) is"
  by (induction "is") (auto simp: List.map_filter_def split: prod.splits option.splits)

lemma merge_loop_conflicts:
  "snd (merge_loop b l r is) = List.map_filter (\<lambda>i. map_option (Pair i) (snd (merge_one (map_of b i) (map_of l i) (map_of r i)))) is"
  by (induction "is") (auto simp: List.map_filter_def split: prod.splits option.splits)

lemma merge_one_source:
  "fst (merge_one xb xl xr) = Some x \<Longrightarrow> xl = Some x \<or> xr = Some x"
  by (auto simp: merge_one_def Let_def split: if_splits)

lemma merge_one_id:
  assumes "fst (merge_one (map_of (sm_byId bs idk) i) (map_of (sm_byId ls idk) i) (map_of (sm_byId rs idk) i)) = Some x"
  shows "key_of idk x = i"
  using merge_one_source [OF assms] byId_SomeD by fastforce

lemma parseList_objects: "x \<in> set (parseList parse v idk) \<Longrightarrow> \<exists>kvs. x = JObj kvs"
proof -
  have "id_of idk x \<noteq> None \<Longrightarrow> \<exists>kvs. x = JObj kvs" by (cases x) auto
  moreover assume "x \<in> set (parseList parse v idk)"
  then have "id_of idk x \<noteq> None" by (cases v) (auto split: option.splits)
  ultimately show ?thesis by blast
qed

lemma merge_eq_Some_None: "\<not> merge_eq (Some (JObj kvs)) None" "\<not> merge_eq None (Some (JObj kvs))"
  by (simp_all add: merge_eq_def stable_def)

lemma merge_eq_sym: "merge_eq x y = merge_eq y x"
  by (auto simp: merge_eq_def)

text \<open>A side's element for an id, as the merge reads it.\<close>

definition side :: "(string \<Rightarrow> json option) \<Rightarrow> json \<Rightarrow> string \<Rightarrow> string \<Rightarrow> json option" where
  "side parse v idk i = map_of (sm_byId (parseList parse v idk) idk) i"

lemma side_object: "side parse v idk i = Some x \<Longrightarrow> \<exists>kvs. x = JObj kvs"
  unfolding side_def by (metis byId_SomeD parseList_objects)

lemma mergeKeyedList_sets:
  fixes parse base local remote idk
  defines "m \<equiv> mergeKeyedList parse base local remote idk"
    and "one \<equiv> \<lambda>i. merge_one (side parse base idk i) (side parse local idk i) (side parse remote idk i)"
  shows "set (fst m) = {x. \<exists>i. fst (one i) = Some x}"
    and "set (snd m) = {(i, c). snd (one i) = Some c}"
    and "distinct (map (key_of idk) (fst m))"
proof -
  let ?B = "parseList parse base idk" and ?L = "parseList parse local idk" and ?R = "parseList parse remote idk"
  let ?ids = "set (keys_of (sm_byId ?B idk)) \<union> set (keys_of (sm_byId ?L idk)) \<union> set (keys_of (sm_byId ?R idk))"
  define order where "order = push_order idk ?ids ?R (push_order idk ?ids ?L (push_order idk ?ids ?B []))"
  have m: "m = merge_loop (sm_byId ?B idk) (sm_byId ?L idk) (sm_byId ?R idk) order"
    by (simp add: m_def mergeKeyedList_def order_def Let_def)
  have order: "set order = ?ids" "distinct order"
    using merge_order [of idk ?B ?L ?R] by (simp_all add: order_def)
  have one: "merge_one (map_of (sm_byId ?B idk) i) (map_of (sm_byId ?L idk) i) (map_of (sm_byId ?R idk) i) = one i" for i
    by (simp add: one_def side_def)
  have outside: "i \<in> ?ids" if "one i \<noteq> (None, None)" for i
  proof (rule ccontr)
    assume "i \<notin> ?ids"
    then have "map_of (sm_byId ?B idk) i = None" "map_of (sm_byId ?L idk) i = None" "map_of (sm_byId ?R idk) i = None"
      unfolding map_of_eq_None_keys by blast+
    with that show False unfolding one [symmetric] by (simp add: merge_one_def)
  qed
  show "set (fst m) = {x. \<exists>i. fst (one i) = Some x}"
  proof -
    have "i \<in> ?ids" if "fst (one i) = Some x" for i x
      using that by (intro outside) (cases "one i"; simp)
    then show ?thesis unfolding m merge_loop_items set_map_filter order(1) one by blast
  qed
  show "set (snd m) = {(i, c). snd (one i) = Some c}"
  proof -
    have "i \<in> ?ids" if "snd (one i) = Some c" for i c
      using that by (intro outside) (cases "one i"; simp)
    moreover have "map_option (Pair i) c = Some y \<longleftrightarrow> (\<exists>z. c = Some z \<and> y = (i, z))" for i y and c :: "conflict_reason option"
      by (cases c) auto
    ultimately show ?thesis unfolding m merge_loop_conflicts set_map_filter order(1) one by blast
  qed
  have "key_of idk x = i" if "fst (one i) = Some x" for i x
    using that merge_one_id [of ?B idk i ?L ?R x] unfolding one by blast
  then have "map (key_of idk) (fst m) = filter (\<lambda>i. fst (one i) \<noteq> None) order"
    unfolding m merge_loop_items one
    by (induction order) (auto simp: List.map_filter_def)
  with order(2) show "distinct (map (key_of idk) (fst m))" by simp
qed

text \<open>
  Claim C34: The operator's work is never lost: every element of the local list that is new or
  differs from its base is in the merged list, whatever the release did to it, and the merged list
  has each id once.
\<close>

theorem merge_keeps_operator_edits:
  assumes "side parse local idk i = Some x"
    and "side parse base idk i = None \<or> \<not> merge_eq (Some x) (side parse base idk i)"
  shows "x \<in> set (fst (mergeKeyedList parse base local remote idk)) \<and>
    distinct (map (key_of idk) (fst (mergeKeyedList parse base local remote idk)))"
proof -
  have "fst (merge_one (side parse base idk i) (side parse local idk i) (side parse remote idk i)) = Some x"
    using assms by (auto simp: merge_one_def Let_def)
  then show ?thesis unfolding mergeKeyedList_sets(1) using mergeKeyedList_sets(3) by blast
qed

theorem merge_keeps_operator_edits_witness:
  "let node = \<lambda>i n. JObj [(''id'', JStr i), (''n'', JNum n)] in
   node ''a'' 2 \<in> set (fst (mergeKeyedList (\<lambda>_. None) (JArr [node ''a'' 1]) (JArr [node ''a'' 2]) (JArr []) ''id''))"
proof -
  have "side (\<lambda>_. None) (JArr [JObj [(''id'', JStr ''a''), (''n'', JNum 2)]]) ''id'' ''a'' =
      Some (JObj [(''id'', JStr ''a''), (''n'', JNum 2)])"
    by (simp add: side_def sm_byId_def key_of_def)
  moreover have "\<not> merge_eq (Some (JObj [(''id'', JStr ''a''), (''n'', JNum 2)]))
      (side (\<lambda>_. None) (JArr [JObj [(''id'', JStr ''a''), (''n'', JNum 1)]]) ''id'' ''a'')"
    by (simp add: side_def sm_byId_def key_of_def merge_eq_def stable_def)
  ultimately show ?thesis
    using merge_keeps_operator_edits by (simp add: Let_def)
qed

text \<open>
  The merge asks a human about an id exactly when base, local and remote are pairwise
  different there; an element only the release changed is taken from the release, and one only the
  operator changed from the operator.
\<close>

theorem merge_conflict_iff:
  fixes parse base local remote idk i
  defines "B \<equiv> side parse base idk i" and "L \<equiv> side parse local idk i" and "R \<equiv> side parse remote idk i"
    and "m \<equiv> mergeKeyedList parse base local remote idk"
  shows "(i \<in> fst ` set (snd m) \<longleftrightarrow> \<not> merge_eq L B \<and> \<not> merge_eq R B \<and> \<not> merge_eq L R) \<and>
    (\<forall>x. merge_eq L B \<and> \<not> merge_eq R B \<and> R = Some x \<longrightarrow> x \<in> set (fst m)) \<and>
    (\<forall>x. merge_eq R B \<and> \<not> merge_eq L B \<and> L = Some x \<longrightarrow> x \<in> set (fst m))"
proof -
  have obj: "(B = None \<or> (\<exists>k. B = Some (JObj k))) \<and> (L = None \<or> (\<exists>k. L = Some (JObj k))) \<and> (R = None \<or> (\<exists>k. R = Some (JObj k)))"
    unfolding B_def L_def R_def using side_object by (metis option.exhaust)
  note sets = mergeKeyedList_sets [where parse = parse and base = base and local = local and remote = remote and idk = idk, folded m_def]
  have conf: "i \<in> fst ` set (snd m) \<longleftrightarrow> snd (merge_one B L R) \<noteq> None"
    unfolding sets(2) B_def L_def R_def by force
  have 1: "i \<in> fst ` set (snd m) \<longleftrightarrow> \<not> merge_eq L B \<and> \<not> merge_eq R B \<and> \<not> merge_eq L R"
    unfolding conf using obj by (auto simp: merge_one_def Let_def merge_eq_def stable_def)
  have 2: "fst (merge_one B L R) = Some x" if "merge_eq L B" "\<not> merge_eq R B" "R = Some x" for x
    using that obj by (auto simp: merge_one_def Let_def merge_eq_def stable_def)
  have 3: "fst (merge_one B L R) = Some x" if "merge_eq R B" "\<not> merge_eq L B" "L = Some x" for x
    using that obj by (auto simp: merge_one_def Let_def merge_eq_def stable_def)
  have items: "x \<in> set (fst m)" if "fst (merge_one B L R) = Some x" for x
    using that unfolding sets(1) B_def L_def R_def by blast
  show ?thesis using 1 2 3 items by blast
qed

theorem merge_conflict_iff_witness:
  "let node = \<lambda>i n. JObj [(''id'', JStr i), (''n'', JNum n)] in
   ''a'' \<in> fst ` set (snd (mergeKeyedList (\<lambda>_. None) (JArr [node ''a'' 1]) (JArr [node ''a'' 2]) (JArr [node ''a'' 3]) ''id'')) \<and>
   node ''b'' 1 \<in> set (fst (mergeKeyedList (\<lambda>_. None) (JArr [node ''b'' 0]) (JArr [node ''b'' 0]) (JArr [node ''b'' 1]) ''id''))"
proof -
  have side: "side (\<lambda>_. None) (JArr [JObj [(''id'', JStr i), (''n'', JNum n)]]) ''id'' i =
      Some (JObj [(''id'', JStr i), (''n'', JNum n)])" for i n
    by (simp add: side_def sm_byId_def key_of_def)
  have neq: "merge_eq (Some (JObj [(''id'', JStr i), (''n'', JNum n)])) (Some (JObj [(''id'', JStr i), (''n'', JNum m)])) \<longleftrightarrow> n = m" for i n m
    by (simp add: merge_eq_def stable_def)
  show ?thesis
    using merge_conflict_iff [where parse = "\<lambda>_. None" and idk = "''id''" and i = "''a''" and base = "JArr [JObj [(''id'', JStr ''a''), (''n'', JNum 1)]]"
        and local = "JArr [JObj [(''id'', JStr ''a''), (''n'', JNum 2)]]" and remote = "JArr [JObj [(''id'', JStr ''a''), (''n'', JNum 3)]]"]
      merge_conflict_iff [where parse = "\<lambda>_. None" and idk = "''id''" and i = "''b''" and base = "JArr [JObj [(''id'', JStr ''b''), (''n'', JNum 0)]]"
        and local = "JArr [JObj [(''id'', JStr ''b''), (''n'', JNum 0)]]" and remote = "JArr [JObj [(''id'', JStr ''b''), (''n'', JNum 1)]]"]
    unfolding side by (simp add: neq Let_def)
qed

end
