(* ===== verification/RealmRecord.thy ===== *)
theory RealmRecord
  imports Json
begin

text \<open>
  The rows of a realm-enabled configuration family and the asking tenant's place in the tree
  (\<^verbatim>\<open>packages/realm/src/realm-record.ts\<close>, \<^verbatim>\<open>context.ts\<close>).

  A row is the app's payload plus the realm columns. The code keeps both in one flat object; the
  model keeps the payload in a field of its own, so a payload that uses the name of a realm column
  is outside it. The SHA-256 of \<^verbatim>\<open>node:crypto\<close> is the parameter \<open>digest\<close>, a function of the
  canonical value whose text the code hashes.
\<close>

datatype realm_class = Global | Tenant
datatype share_mode = Private | Children | Subtree
datatype track_mode = Pin | TrackLatest
datatype archetype = GlobalOriginal | TenantOverride | TenantNative

record realm_row =
  rr_id :: string
  rr_realm :: realm_class
  rr_owner :: "string option"
  rr_key :: string
  rr_originId :: "string option"
  rr_originHash :: "string option"
  rr_hash :: string
  rr_track :: track_mode
  rr_share :: share_mode
  rr_payload :: payload
  rr_updatedAt :: "int option"

definition archetypeOf :: "realm_class \<Rightarrow> string option \<Rightarrow> archetype" where
  "archetypeOf realm originId =
     (if realm = Global then GlobalOriginal
      else if originId = None then TenantNative else TenantOverride)"

definition computeContentHash :: "(json \<Rightarrow> string) \<Rightarrow> payload \<Rightarrow> string" where
  "computeContentHash digest semantic = ''sha256:'' @ digest (sortDeep (JObj semantic))"

text \<open>The three-way drift check; \<open>None\<close> is \<^verbatim>\<open>not_a_fork\<close>.\<close>

datatype drift_state = InSync | Customized | Stale | Diverged

definition driftState :: "string option \<Rightarrow> string \<Rightarrow> string option \<Rightarrow> drift_state option" where
  "driftState base local remote =
     (case (base, remote) of
        (Some b, Some r) \<Rightarrow>
          (let localChanged = local \<noteq> b; remoteChanged = r \<noteq> b in
           if \<not> localChanged \<and> \<not> remoteChanged then Some InSync
           else if localChanged \<and> \<not> remoteChanged then Some Customized
           else if \<not> localChanged \<and> remoteChanged then Some Stale
           else Some Diverged)
      | _ \<Rightarrow> None)"

definition globalOriginalRow :: "string \<Rightarrow> string \<Rightarrow> string \<Rightarrow> payload \<Rightarrow> realm_row" where
  "globalOriginalRow i logicalKey hash p =
     \<lparr>rr_id = i, rr_realm = Global, rr_owner = None, rr_key = logicalKey, rr_originId = None,
      rr_originHash = None, rr_hash = hash, rr_track = Pin, rr_share = Private,
      rr_payload = p, rr_updatedAt = None\<rparr>"

lemma driftState_Some: "driftState (Some b) l (Some r) = Some s \<longleftrightarrow>
    s = (if l = b then (if r = b then InSync else Stale) else (if r = b then Customized else Diverged))"
  by (auto simp: driftState_def Let_def)

text \<open>The hash does not depend on the order of the keys.\<close>

lemma computeContentHash_cong:
  "wf_map a \<Longrightarrow> wf_map b \<Longrightarrow> map_of a = map_of b \<Longrightarrow> computeContentHash dg a = computeContentHash dg b"
  unfolding computeContentHash_def using sortDeep_obj_cong by metis

section \<open>The asking tenant\<close>

record lineage_node =
  ln_tenant :: string
  ln_depth :: int

record realm_ctx =
  rc_tenant :: "string option"
  rc_depth :: int
  rc_lineage :: "lineage_node list"

definition GLOBAL_CONTEXT :: realm_ctx where
  "GLOBAL_CONTEXT = \<lparr>rc_tenant = None, rc_depth = -1, rc_lineage = []\<rparr>"

definition parentTenantId :: "realm_ctx \<Rightarrow> string option" where
  "parentTenantId ctx =
     (if 2 \<le> length (rc_lineage ctx)
      then Some (ln_tenant (rc_lineage ctx ! (length (rc_lineage ctx) - 2))) else None)"

definition strictGrandAncestorIds :: "realm_ctx \<Rightarrow> string list" where
  "strictGrandAncestorIds ctx = map ln_tenant (take (length (rc_lineage ctx) - 2) (rc_lineage ctx))"

definition ownerDepth :: "realm_ctx \<Rightarrow> string option \<Rightarrow> int option" where
  "ownerDepth ctx owner =
     (case owner of None \<Rightarrow> None
      | Some t \<Rightarrow> map_option ln_depth (find (\<lambda>n. ln_tenant n = t) (rc_lineage ctx)))"

datatype ctx_error = TenantNotFound string

text \<open>The tenant hierarchy store is an interface of another package: its \<open>get\<close> and \<open>ancestors\<close>.\<close>

definition buildRealmContext ::
  "(string \<Rightarrow> lineage_node option) \<Rightarrow> (string \<Rightarrow> lineage_node list) \<Rightarrow> string option \<Rightarrow> ctx_error + realm_ctx" where
  "buildRealmContext get ancestors tenantId =
     (case tenantId of
        None \<Rightarrow> Inr GLOBAL_CONTEXT
      | Some t \<Rightarrow>
          (case get t of
             None \<Rightarrow> Inl (TenantNotFound t)
           | Some self \<Rightarrow>
               Inr \<lparr>rc_tenant = Some t, rc_depth = ln_depth self,
                    rc_lineage = ancestors t @ [\<lparr>ln_tenant = ln_tenant self, ln_depth = ln_depth self\<rparr>]\<rparr>))"

text \<open>
  A context of a tenant in a tree: the lineage ends in the tenant, holds each tenant once, and
  goes down one level at a time from a root.
\<close>

definition tree_ctx :: "realm_ctx \<Rightarrow> bool" where
  "tree_ctx ctx \<longleftrightarrow> rc_lineage ctx \<noteq> [] \<and>
     rc_tenant ctx = Some (ln_tenant (last (rc_lineage ctx))) \<and> rc_depth ctx = ln_depth (last (rc_lineage ctx)) \<and>
     distinct (map ln_tenant (rc_lineage ctx)) \<and>
     (\<forall>i < length (rc_lineage ctx). ln_depth (rc_lineage ctx ! i) = int i)"

lemma ownerDepth_nth:
  assumes "tree_ctx ctx" "i < length (rc_lineage ctx)"
  shows "ownerDepth ctx (Some (ln_tenant (rc_lineage ctx ! i))) = Some (int i)"
proof -
  have "find (\<lambda>n. ln_tenant n = ln_tenant (rc_lineage ctx ! i)) (rc_lineage ctx) = Some (rc_lineage ctx ! i)"
    unfolding find_Some_iff
    using assms by (intro exI [of _ i]) (auto simp: tree_ctx_def distinct_conv_nth)
  with assms show ?thesis by (simp add: ownerDepth_def tree_ctx_def)
qed

lemma ownerDepth_SomeD:
  assumes "ownerDepth ctx (Some t) = Some d"
  shows "\<exists>n\<in>set (rc_lineage ctx). ln_tenant n = t \<and> ln_depth n = d"
  using assms find_SomeD [of "\<lambda>n. ln_tenant n = t" "rc_lineage ctx"] by (auto simp: ownerDepth_def)

lemma ownerDepth_None: "ownerDepth ctx (Some t) = None \<longleftrightarrow> t \<notin> ln_tenant ` set (rc_lineage ctx)"
  by (auto simp: ownerDepth_def find_None_iff)

section \<open>What a context asks of the hierarchy\<close>

text \<open>
  The hierarchy answers \<open>get\<close> with a node of the tenant asked for, and \<open>ancestors\<close> with the tenants
  above it from the root down, one level at a time.
\<close>

locale lineage_source =
  fixes ok :: "'h \<Rightarrow> bool"
    and get :: "'h \<Rightarrow> string \<Rightarrow> lineage_node option"
    and ancestors :: "'h \<Rightarrow> string \<Rightarrow> lineage_node list"
  assumes get_tenant: "ok h \<Longrightarrow> get h t = Some n \<Longrightarrow> ln_tenant n = t"
    and ancestors_distinct: "ok h \<Longrightarrow> get h t = Some n \<Longrightarrow> distinct (map ln_tenant (ancestors h t @ [n]))"
    and ancestors_depth: "ok h \<Longrightarrow> get h t = Some n \<Longrightarrow>
      map ln_depth (ancestors h t @ [n]) = map int [0..<Suc (length (ancestors h t))]"
begin

lemma context_of:
  assumes "ok h" "get h t = Some n"
  shows "\<exists>ctx. buildRealmContext (get h) (ancestors h) (Some t) = Inr ctx \<and> tree_ctx ctx \<and> rc_tenant ctx = Some t \<and>
    rc_lineage ctx = ancestors h t @ [n]"
proof -
  note laws = get_tenant [OF assms] ancestors_distinct [OF assms] ancestors_depth [OF assms]
  have last: "ln_depth n = int (length (ancestors h t))" using laws(3) by simp
  have depth: "ln_depth ((ancestors h t @ [n]) ! i) = int i" if "i < Suc (length (ancestors h t))" for i
  proof -
    have "map ln_depth (ancestors h t @ [n]) ! i = int i" unfolding laws(3) using that by (simp del: upt_Suc)
    with that show ?thesis by (simp only: nth_map length_append_singleton)
  qed
  let ?ctx = "\<lparr>rc_tenant = Some t, rc_depth = ln_depth n, rc_lineage = ancestors h t @ [n]\<rparr>"
  have "\<lparr>ln_tenant = ln_tenant n, ln_depth = ln_depth n\<rparr> = n" by simp
  then have "buildRealmContext (get h) (ancestors h) (Some t) = Inr ?ctx"
    using assms(2) by (simp only: buildRealmContext_def option.case)
  moreover have "tree_ctx ?ctx" using laws(1,2) depth by (simp add: tree_ctx_def)
  ultimately show ?thesis by simp
qed

lemma context_missing: "get h t = None \<Longrightarrow> buildRealmContext (get h) (ancestors h) (Some t) = Inl (TenantNotFound t)"
  by (simp add: buildRealmContext_def)

lemma context_Inr:
  assumes "ok h" "buildRealmContext (get h) (ancestors h) (Some t) = Inr ctx"
  obtains n where "get h t = Some n" "tree_ctx ctx" "rc_tenant ctx = Some t" "rc_lineage ctx = ancestors h t @ [n]"
proof (cases "get h t")
  case None
  with assms(2) show thesis by (simp add: context_missing)
next
  case (Some n)
  from context_of [OF assms(1) Some] assms(2) that Some show thesis by auto
qed

end

end
