(* ===== verification/RealmResolve.thy ===== *)
theory RealmResolve
  imports RealmRecord
begin

text \<open>
  Resolution, \<^verbatim>\<open>packages/realm/src/resolve.ts\<close>: of the copies of a configuration key a tenant may
  see, the nearest owner's wins, and the result says where it came from.
\<close>

section \<open>The code\<close>

text \<open>The distance of an inherited record; \<open>None\<close> is \<^verbatim>\<open>Infinity\<close>.\<close>

datatype provenance =
    PGlobal
  | PNative string
  | POwnOverride string "drift_state option"
  | PInherited string "int option"

definition isVisible :: "realm_row \<Rightarrow> realm_ctx \<Rightarrow> bool" where
  "isVisible r ctx =
     (if rr_realm r = Global then True
      else if rc_tenant ctx = None then False
      else if rr_owner r = rc_tenant ctx then True
      else if rr_owner r = parentTenantId ctx then rr_share r = Children \<or> rr_share r = Subtree
      else if (case rr_owner r of None \<Rightarrow> False | Some t \<Rightarrow> t \<in> set (strictGrandAncestorIds ctx))
      then rr_share r = Subtree
      else False)"

definition provenanceOf :: "realm_row \<Rightarrow> realm_ctx \<Rightarrow> (string \<Rightarrow> string option) \<Rightarrow> provenance" where
  "provenanceOf r ctx remoteHashOf =
     (if rr_realm r = Global then PGlobal
      else let owner = nullish (rr_owner r) ''null'' in
        if rr_owner r = rc_tenant ctx then
          (case rr_originId r of
             None \<Rightarrow> PNative owner
           | Some o' \<Rightarrow> POwnOverride owner (driftState (rr_originHash r) (rr_hash r) (remoteHashOf o')))
        else PInherited owner (map_option (\<lambda>d. rc_depth ctx - d) (ownerDepth ctx (rr_owner r))))"

text \<open>\<open>None\<close> is \<^verbatim>\<open>-Infinity\<close>.\<close>

definition nearness :: "realm_row \<Rightarrow> realm_ctx \<Rightarrow> int option" where
  "nearness r ctx = (if rr_realm r = Global then None else ownerDepth ctx (rr_owner r))"

text \<open>
  The test \<^verbatim>\<open>better > 0 || (better === 0 && r.id < cur.id)\<close> on the difference of two scores. The
  difference of two negative infinities is \<^verbatim>\<open>NaN\<close>, for which both comparisons are false.
\<close>

definition replaces :: "realm_ctx \<Rightarrow> realm_row \<Rightarrow> realm_row \<Rightarrow> bool" where
  "replaces ctx r cur =
     (case (nearness r ctx, nearness cur ctx) of
        (None, _) \<Rightarrow> False
      | (Some _, None) \<Rightarrow> True
      | (Some a, Some b) \<Rightarrow> a - b > 0 \<or> (a - b = 0 \<and> rr_id r < rr_id cur))"

fun best_loop :: "realm_ctx \<Rightarrow> realm_row list \<Rightarrow> (string \<times> realm_row) list \<Rightarrow> (string \<times> realm_row) list" where
  "best_loop ctx [] best = best"
| "best_loop ctx (r # rs) best =
     (if \<not> isVisible r ctx then best_loop ctx rs best
      else case map_of best (rr_key r) of
          None \<Rightarrow> best_loop ctx rs (AList.update (rr_key r) r best)
        | Some cur \<Rightarrow> best_loop ctx rs (if replaces ctx r cur then AList.update (rr_key r) r best else best))"

definition hash_by_id :: "realm_row list \<Rightarrow> string \<Rightarrow> string option" where
  "hash_by_id records i = map_option rr_hash (find (\<lambda>r. rr_id r = i) (rev records))"

definition resolveEffective ::
  "realm_row list \<Rightarrow> realm_ctx \<Rightarrow> (string \<Rightarrow> string option) option \<Rightarrow> (realm_row \<times> provenance) list" where
  "resolveEffective records ctx remoteHashOf =
     (let lookupRemote = nullish remoteHashOf (hash_by_id records);
          best = best_loop ctx records []
      in sort_key (\<lambda>e. rr_key (fst e)) (map (\<lambda>(k, r). (r, provenanceOf r ctx lookupRemote)) best))"

definition resolveOne ::
  "realm_row list \<Rightarrow> string \<Rightarrow> realm_ctx \<Rightarrow> (string \<Rightarrow> string option) option \<Rightarrow> (realm_row \<times> provenance) option" where
  "resolveOne records logicalKey ctx remoteHashOf =
     (case resolveEffective (filter (\<lambda>r. rr_key r = logicalKey) records) ctx remoteHashOf of
        [] \<Rightarrow> None | e # _ \<Rightarrow> Some e)"

section \<open>The loop keeps the nearest\<close>

text \<open>At least as near: the order on scores with negative infinity below every depth.\<close>

definition as_near :: "realm_ctx \<Rightarrow> realm_row \<Rightarrow> realm_row \<Rightarrow> bool" where
  "as_near ctx a b \<longleftrightarrow> (case (nearness a ctx, nearness b ctx) of
     (_, None) \<Rightarrow> True | (None, Some _) \<Rightarrow> False | (Some x, Some y) \<Rightarrow> x \<ge> y)"

lemma as_near_trans: "as_near ctx a b \<Longrightarrow> as_near ctx b c \<Longrightarrow> as_near ctx a c"
  by (auto simp: as_near_def split: option.splits)

lemma as_near_refl [simp]: "as_near ctx a a"
  by (auto simp: as_near_def split: option.splits)

lemma replaces_near: "replaces ctx r cur \<Longrightarrow> as_near ctx r cur"
  "\<not> replaces ctx r cur \<Longrightarrow> as_near ctx cur r"
  by (auto simp: replaces_def as_near_def split: option.splits)

text \<open>\<open>best\<close> holds, for each key of the rows seen so far, a visible row no other one is nearer than.\<close>

definition best_of :: "realm_ctx \<Rightarrow> realm_row set \<Rightarrow> (string \<times> realm_row) list \<Rightarrow> bool" where
  "best_of ctx S best \<longleftrightarrow> wf_map best \<and>
     (\<forall>k r. map_of best k = Some r \<longrightarrow> r \<in> S \<and> isVisible r ctx \<and> rr_key r = k \<and>
        (\<forall>s\<in>S. isVisible s ctx \<and> rr_key s = k \<longrightarrow> as_near ctx r s)) \<and>
     (\<forall>s\<in>S. isVisible s ctx \<longrightarrow> map_of best (rr_key s) \<noteq> None)"

lemma best_of_skip: "best_of ctx S best \<Longrightarrow> \<not> isVisible r ctx \<Longrightarrow> best_of ctx (insert r S) best"
  unfolding best_of_def by blast

lemma best_of_new:
  "best_of ctx S best \<Longrightarrow> isVisible r ctx \<Longrightarrow> map_of best (rr_key r) = None \<Longrightarrow>
   best_of ctx (insert r S) (AList.update (rr_key r) r best)"
  unfolding best_of_def by (auto simp: distinct_update split: if_splits)

lemma best_of_replace:
  assumes "best_of ctx S best" "isVisible r ctx" "map_of best (rr_key r) = Some cur" "replaces ctx r cur"
  shows "best_of ctx (insert r S) (AList.update (rr_key r) r best)"
  using assms replaces_near(1) [OF assms(4)] unfolding best_of_def
  by (auto simp: distinct_update split: if_splits intro: as_near_trans)

lemma best_of_keep:
  assumes "best_of ctx S best" "isVisible r ctx" "map_of best (rr_key r) = Some cur" "\<not> replaces ctx r cur"
  shows "best_of ctx (insert r S) best"
  using assms replaces_near(2) [OF assms(4)] unfolding best_of_def by (auto dest: eq_key_imp_eq_value)

lemma best_loop_best_of: "best_of ctx S best \<Longrightarrow> best_of ctx (S \<union> set rs) (best_loop ctx rs best)"
proof (induction rs arbitrary: S best)
  case (Cons r rs)
  have "best_of ctx (insert r S \<union> set rs) (best_loop ctx (r # rs) best)"
  proof (cases "isVisible r ctx")
    case False
    with Cons.IH [OF best_of_skip [OF Cons.prems]] show ?thesis by simp
  next
    case True
    show ?thesis
    proof (cases "map_of best (rr_key r)")
      case None
      with True Cons.IH [OF best_of_new [OF Cons.prems True None]] show ?thesis by simp
    next
      case (Some cur)
      with True Cons.IH [OF best_of_replace [OF Cons.prems True Some]]
        Cons.IH [OF best_of_keep [OF Cons.prems True Some]] show ?thesis by simp
    qed
  qed
  then show ?case by simp
qed simp

lemma best_loop_spec: "best_of ctx (set rs) (best_loop ctx rs [])"
proof -
  have "best_of ctx {} []" unfolding best_of_def by simp
  from best_loop_best_of [OF this] show ?thesis by simp
qed

lemma best_loopD:
  "map_of (best_loop ctx rs []) k = Some r \<Longrightarrow>
     r \<in> set rs \<and> isVisible r ctx \<and> rr_key r = k \<and> (\<forall>s\<in>set rs. isVisible s ctx \<and> rr_key s = k \<longrightarrow> as_near ctx r s)"
  "s \<in> set rs \<Longrightarrow> isVisible s ctx \<Longrightarrow> map_of (best_loop ctx rs []) (rr_key s) \<noteq> None"
  "wf_map (best_loop ctx rs [])"
  using best_loop_spec [of ctx rs] unfolding best_of_def by blast+

lemma best_of_mem:
  assumes "best_of ctx S best"
  shows "(k, r) \<in> set best \<longleftrightarrow> map_of best k = Some r"
  using assms unfolding best_of_def by simp

lemma best_of_keys:
  assumes "best_of ctx S best" "(k, r) \<in> set best"
  shows "rr_key r = k"
  using assms best_of_mem [OF assms(1)] unfolding best_of_def by metis

lemma effective_eq:
  "resolveEffective rs ctx h =
   sort_key (\<lambda>e. rr_key (fst e))
     (map (\<lambda>(k, r). (r, provenanceOf r ctx (nullish h (hash_by_id rs)))) (best_loop ctx rs []))"
  by (simp add: resolveEffective_def)

lemma effective_mem:
  "(r, p) \<in> set (resolveEffective rs ctx h) \<longleftrightarrow>
   map_of (best_loop ctx rs []) (rr_key r) = Some r \<and> p = provenanceOf r ctx (nullish h (hash_by_id rs))"
proof -
  have "(r, p) \<in> set (resolveEffective rs ctx h) \<longleftrightarrow>
      (\<exists>k. (k, r) \<in> set (best_loop ctx rs [])) \<and> p = provenanceOf r ctx (nullish h (hash_by_id rs))"
    unfolding effective_eq by (force simp: image_iff)
  also have "(\<exists>k. (k, r) \<in> set (best_loop ctx rs [])) \<longleftrightarrow> (rr_key r, r) \<in> set (best_loop ctx rs [])"
    using best_of_keys [OF best_loop_spec, of _ r] by blast
  finally show ?thesis using best_of_mem [OF best_loop_spec] by blast
qed

lemma effective_keys:
  "map (\<lambda>e. rr_key (fst e)) (resolveEffective rs ctx h) = sort (keys_of (best_loop ctx rs []))"
proof -
  let ?best = "best_loop ctx rs []"
  let ?out = "map (\<lambda>(k, r). (r, provenanceOf r ctx (nullish h (hash_by_id rs)))) ?best"
  have "map (\<lambda>e. rr_key (fst e)) ?out = keys_of ?best"
    using best_of_keys [OF best_loop_spec] by (auto simp: comp_def split_beta)
  then show ?thesis
    unfolding effective_eq map_sort_key by (rule arg_cong)
qed

section \<open>What a tenant resolves to\<close>

text \<open>The rows a tenant may see, by their origin in the tree.\<close>

lemma isVisible_own: "rc_tenant ctx = Some t \<Longrightarrow> rr_owner r = Some t \<Longrightarrow> isVisible r ctx"
  by (simp add: isVisible_def)

lemma isVisible_global: "rr_realm r = Global \<Longrightarrow> isVisible r ctx"
  by (simp add: isVisible_def)

lemma isVisible_Private:
  "rr_realm r = Tenant \<Longrightarrow> rr_share r = Private \<Longrightarrow>
   isVisible r ctx \<longleftrightarrow> rc_tenant ctx \<noteq> None \<and> rr_owner r = rc_tenant ctx"
  by (simp add: isVisible_def)

text \<open>The lineage, read from the tenant upwards: itself, its parent, the ancestors above.\<close>

lemma lineage_index:
  assumes "tree_ctx ctx" "rr_owner r = Some (ln_tenant (rc_lineage ctx ! i))" "i < length (rc_lineage ctx)"
    "rr_realm r = Tenant"
  shows "isVisible r ctx \<longleftrightarrow>
    (let d = length (rc_lineage ctx) - 1 - i in
     d = 0 \<or> (d = 1 \<and> rr_share r \<noteq> Private) \<or> rr_share r = Subtree)"
proof -
  let ?n = "length (rc_lineage ctx)"
  have inj: "ln_tenant (rc_lineage ctx ! i) = ln_tenant (rc_lineage ctx ! j) \<longleftrightarrow> i = j" if "j < ?n" for j
    using assms(1,3) that by (auto simp: tree_ctx_def distinct_conv_nth)
  have t: "rc_tenant ctx = Some (ln_tenant (rc_lineage ctx ! (?n - 1)))"
    using assms(1) by (simp add: tree_ctx_def last_conv_nth)
  have own: "rr_owner r = rc_tenant ctx \<longleftrightarrow> i = ?n - 1"
    using assms t inj [of "?n - 1"] by simp
  have par: "rr_owner r = parentTenantId ctx \<longleftrightarrow> 2 \<le> ?n \<and> i = ?n - 2"
    using assms inj [of "?n - 2"] by (auto simp: parentTenantId_def)
  have anc: "ln_tenant (rc_lineage ctx ! i) \<in> set (strictGrandAncestorIds ctx) \<longleftrightarrow> i < ?n - 2"
  proof -
    have "x \<in> set (take k xs) \<longleftrightarrow> (\<exists>j < k. j < length xs \<and> x = xs ! j)" for x k and xs :: "string list"
      by (auto simp: in_set_conv_nth)
    then have "ln_tenant (rc_lineage ctx ! i) \<in> set (strictGrandAncestorIds ctx) \<longleftrightarrow>
        (\<exists>j < ?n - 2. j < ?n \<and> ln_tenant (rc_lineage ctx ! i) = map ln_tenant (rc_lineage ctx) ! j)"
      unfolding strictGrandAncestorIds_def take_map [symmetric] by simp
    also have "\<dots> \<longleftrightarrow> (\<exists>j < ?n - 2. j < ?n \<and> i = j)" by (simp only: nth_map inj cong: conj_cong)
    also have "\<dots> \<longleftrightarrow> i < ?n - 2" by auto
    finally show ?thesis .
  qed
  have anc': "(case rr_owner r of None \<Rightarrow> False | Some t \<Rightarrow> t \<in> set (strictGrandAncestorIds ctx)) \<longleftrightarrow> i < ?n - 2"
    using anc assms(2) by simp
  have share: "(rr_share r = Children \<or> rr_share r = Subtree) \<longleftrightarrow> rr_share r \<noteq> Private"
    by (cases "rr_share r") simp_all
  have "isVisible r ctx \<longleftrightarrow> i = ?n - 1 \<or>
      (if 2 \<le> ?n \<and> i = ?n - 2 then rr_share r \<noteq> Private else rr_share r = Subtree)"
  proof -
    have "isVisible r ctx \<longleftrightarrow>
        (if i = ?n - 1 then True
         else if 2 \<le> ?n \<and> i = ?n - 2 then rr_share r \<noteq> Private
         else if i < ?n - 2 then rr_share r = Subtree else False)"
      unfolding isVisible_def own par share anc' by (simp add: t assms(4))
    moreover have "i = ?n - 1 \<or> (2 \<le> ?n \<and> i = ?n - 2) \<or> i < ?n - 2" using assms(3) by linarith
    ultimately show ?thesis by (simp split: if_splits)
  qed
  moreover have "i = ?n - 1 \<longleftrightarrow> ?n - 1 - i = 0" "2 \<le> ?n \<and> i = ?n - 2 \<longleftrightarrow> ?n - 1 - i = 1"
    using assms(3) by linarith+
  ultimately show ?thesis unfolding Let_def by auto
qed

section \<open>The specification: climb the tree\<close>

text \<open>A share mode reaches the owner itself, its children, or every descendant.\<close>

definition reaches :: "nat \<Rightarrow> share_mode \<Rightarrow> bool" where
  "reaches d s \<longleftrightarrow> d = 0 \<or> (d = 1 \<and> s \<noteq> Private) \<or> s = Subtree"

definition copy_of :: "realm_row list \<Rightarrow> string \<Rightarrow> string \<Rightarrow> realm_row option" where
  "copy_of rows k t = find (\<lambda>r. rr_realm r = Tenant \<and> rr_owner r = Some t \<and> rr_key r = k) rows"

definition global_of :: "realm_row list \<Rightarrow> string \<Rightarrow> realm_row option" where
  "global_of rows k = find (\<lambda>r. rr_realm r = Global \<and> rr_key r = k) rows"

text \<open>The first copy on the way up that reaches down to the tenant, or the global default.\<close>

fun climb :: "realm_row list \<Rightarrow> string \<Rightarrow> nat \<Rightarrow> string list \<Rightarrow> realm_row option" where
  "climb rows k d [] = global_of rows k"
| "climb rows k d (t # ts) =
     (case copy_of rows k t of
        Some r \<Rightarrow> if reaches d (rr_share r) then Some r else climb rows k (Suc d) ts
      | None \<Rightarrow> climb rows k (Suc d) ts)"

text \<open>One row per owner and key, the global default owned by nobody.\<close>

definition wf_rows :: "realm_row list \<Rightarrow> bool" where
  "wf_rows rows \<longleftrightarrow> distinct (map (\<lambda>r. (rr_owner r, rr_key r)) rows) \<and>
     (\<forall>r\<in>set rows. rr_realm r = Global \<longleftrightarrow> rr_owner r = None)"

lemma wf_rows_eq:
  "wf_rows rows \<Longrightarrow> r \<in> set rows \<Longrightarrow> s \<in> set rows \<Longrightarrow> rr_owner r = rr_owner s \<Longrightarrow> rr_key r = rr_key s \<Longrightarrow> r = s"
  unfolding wf_rows_def distinct_map inj_on_def by blast

lemma copy_of_iff:
  assumes "wf_rows rows"
  shows "copy_of rows k t = Some r \<longleftrightarrow> r \<in> set rows \<and> rr_owner r = Some t \<and> rr_key r = k"
proof
  assume "copy_of rows k t = Some r"
  then show "r \<in> set rows \<and> rr_owner r = Some t \<and> rr_key r = k"
    unfolding copy_of_def by (auto dest: find_SomeD)
next
  assume r: "r \<in> set rows \<and> rr_owner r = Some t \<and> rr_key r = k"
  moreover from this assms have "rr_realm r = Tenant" by (cases "rr_realm r") (auto simp: wf_rows_def)
  ultimately obtain s where s: "copy_of rows k t = Some s"
    unfolding copy_of_def
    by (cases "find (\<lambda>r. rr_realm r = Tenant \<and> rr_owner r = Some t \<and> rr_key r = k) rows") (auto simp: find_None_iff)
  then have "s \<in> set rows \<and> rr_owner s = Some t \<and> rr_key s = k"
    unfolding copy_of_def by (auto dest: find_SomeD)
  with r have "s = r" using wf_rows_eq [OF assms, of s r] by simp
  with s show "copy_of rows k t = Some r" by simp
qed

lemma global_of_iff:
  assumes "wf_rows rows"
  shows "global_of rows k = Some r \<longleftrightarrow> r \<in> set rows \<and> rr_owner r = None \<and> rr_key r = k"
proof
  assume "global_of rows k = Some r"
  then show "r \<in> set rows \<and> rr_owner r = None \<and> rr_key r = k"
    unfolding global_of_def using find_SomeD assms by (force simp: wf_rows_def)
next
  assume r: "r \<in> set rows \<and> rr_owner r = None \<and> rr_key r = k"
  with assms have "rr_realm r = Global" by (simp add: wf_rows_def)
  with r obtain s where s: "global_of rows k = Some s"
    unfolding global_of_def
    by (cases "find (\<lambda>r. rr_realm r = Global \<and> rr_key r = k) rows") (auto simp: find_None_iff)
  then have "s \<in> set rows \<and> rr_owner s = None \<and> rr_key s = k"
    unfolding global_of_def using find_SomeD assms by (force simp: wf_rows_def)
  with r have "s = r" using wf_rows_eq [OF assms, of s r] by simp
  with s show "global_of rows k = Some r" by simp
qed

section \<open>Resolution climbs the tree\<close>

text \<open>The rows a context sees of a key.\<close>

definition sees :: "realm_row list \<Rightarrow> string \<Rightarrow> realm_ctx \<Rightarrow> realm_row set" where
  "sees rows k ctx = {r \<in> set rows. rr_key r = k \<and> isVisible r ctx}"

lemma sees_cases:
  assumes "tree_ctx ctx" "wf_rows rows" "r \<in> sees rows k ctx"
  obtains "rr_owner r = None" "nearness r ctx = None"
  | i where "i < length (rc_lineage ctx)" "rr_owner r = Some (ln_tenant (rc_lineage ctx ! i))"
      "nearness r ctx = Some (int i)" "reaches (length (rc_lineage ctx) - 1 - i) (rr_share r)"
proof (cases "rr_owner r")
  case None
  with assms(2,3) have "nearness r ctx = None" by (auto simp: nearness_def sees_def wf_rows_def)
  with None that(1) show thesis by blast
next
  case (Some t)
  with assms(2,3) have real: "rr_realm r = Tenant"
    by (cases "rr_realm r") (auto simp: sees_def wf_rows_def)
  have "t \<in> set (map ln_tenant (rc_lineage ctx))"
    using assms(1,3) real Some in_set_takeD [of t _ "map ln_tenant (rc_lineage ctx)"]
    by (auto simp: sees_def isVisible_def tree_ctx_def parentTenantId_def strictGrandAncestorIds_def
        take_map split: if_splits)
  then obtain i where i: "i < length (rc_lineage ctx)" "t = ln_tenant (rc_lineage ctx ! i)"
    by (auto simp: in_set_conv_nth)
  moreover have "nearness r ctx = Some (int i)"
    using ownerDepth_nth [OF assms(1) i(1)] Some i(2) real by (simp add: nearness_def)
  moreover have "reaches (length (rc_lineage ctx) - 1 - i) (rr_share r)"
    using lineage_index [OF assms(1) _ i(1) real] Some i(2) assms(3)
    by (simp add: sees_def reaches_def Let_def)
  ultimately show thesis using that(2) Some by blast
qed

text \<open>Among the rows at most \<open>i\<close> levels down from the root, the climb that starts there finds the nearest.\<close>

definition below_level :: "realm_ctx \<Rightarrow> nat \<Rightarrow> realm_row \<Rightarrow> bool" where
  "below_level ctx i r \<longleftrightarrow> (case nearness r ctx of None \<Rightarrow> True | Some d \<Rightarrow> d < int i)"

definition nearest_in :: "realm_ctx \<Rightarrow> realm_row set \<Rightarrow> realm_row option \<Rightarrow> bool" where
  "nearest_in ctx S res \<longleftrightarrow>
     (case res of None \<Rightarrow> S = {} | Some r \<Rightarrow> r \<in> S \<and> (\<forall>s\<in>S. as_near ctx r s))"

lemma copy_sees:
  assumes "tree_ctx ctx" "wf_rows rows" "i < length (rc_lineage ctx)"
    "copy_of rows k (ln_tenant (rc_lineage ctx ! i)) = Some r"
    "reaches (length (rc_lineage ctx) - 1 - i) (rr_share r)"
  shows "r \<in> sees rows k ctx" "nearness r ctx = Some (int i)"
proof -
  have r: "r \<in> set rows" "rr_owner r = Some (ln_tenant (rc_lineage ctx ! i))" "rr_key r = k"
    using assms(4) copy_of_iff [OF assms(2)] by blast+
  then have real: "rr_realm r = Tenant" using assms(2) by (cases "rr_realm r") (auto simp: wf_rows_def)
  show "r \<in> sees rows k ctx"
    using r lineage_index [OF assms(1) r(2) assms(3) real] assms(5) by (simp add: sees_def reaches_def Let_def)
  show "nearness r ctx = Some (int i)"
    using ownerDepth_nth [OF assms(1,3)] r(2) real by (simp add: nearness_def)
qed

lemma sees_at:
  assumes "tree_ctx ctx" "wf_rows rows" "s \<in> sees rows k ctx" "nearness s ctx = Some (int i)"
  shows "copy_of rows k (ln_tenant (rc_lineage ctx ! i)) = Some s \<and>
    reaches (length (rc_lineage ctx) - 1 - i) (rr_share s)"
proof (rule sees_cases [OF assms(1-3)])
  assume "nearness s ctx = None"
  with assms(4) show ?thesis by simp
next
  fix j
  assume "rr_owner s = Some (ln_tenant (rc_lineage ctx ! j))" "nearness s ctx = Some (int j)"
    "reaches (length (rc_lineage ctx) - 1 - j) (rr_share s)"
  moreover from this assms(4) have "j = i" by simp
  ultimately show ?thesis using assms(3) copy_of_iff [OF assms(2)] by (simp add: sees_def)
qed

lemma climb_nearest:
  assumes "tree_ctx ctx" "wf_rows rows" "i \<le> length (rc_lineage ctx)"
  shows "nearest_in ctx {r \<in> sees rows k ctx. below_level ctx i r}
    (climb rows k (length (rc_lineage ctx) - i) (map ln_tenant (rev (take i (rc_lineage ctx)))))"
  using assms(3)
proof (induction i)
  case 0
  have none: "nearness r ctx = None \<longleftrightarrow> rr_owner r = None" if "r \<in> sees rows k ctx" for r
    by (rule sees_cases [OF assms(1,2) that]) simp_all
  have "below_level ctx 0 r \<longleftrightarrow> rr_owner r = None" if "r \<in> sees rows k ctx" for r
    by (rule sees_cases [OF assms(1,2) that]) (simp_all add: below_level_def)
  then have "{r \<in> sees rows k ctx. below_level ctx 0 r} = {r \<in> sees rows k ctx. rr_owner r = None}" by blast
  also have "\<dots> = {r. r \<in> set rows \<and> rr_owner r = None \<and> rr_key r = k}"
    using assms(2) by (auto simp: sees_def wf_rows_def intro: isVisible_global)
  finally have S: "{r \<in> sees rows k ctx. below_level ctx 0 r} = {r. global_of rows k = Some r}"
    unfolding global_of_iff [OF assms(2)] .
  show ?case
    unfolding S using none by (auto simp: nearest_in_def split: option.split)
next
  case (Suc i)
  let ?n = "length (rc_lineage ctx)" and ?t = "ln_tenant (rc_lineage ctx ! i)"
  let ?rest = "climb rows k (?n - i) (map ln_tenant (rev (take i (rc_lineage ctx))))"
  from Suc have IH: "nearest_in ctx {r \<in> sees rows k ctx. below_level ctx i r} ?rest" by simp
  have i: "i < ?n" and d: "?n - Suc i = ?n - 1 - i" "Suc (?n - Suc i) = ?n - i" using Suc.prems by auto
  have climb: "climb rows k (?n - Suc i) (map ln_tenant (rev (take (Suc i) (rc_lineage ctx)))) =
      (case copy_of rows k ?t of
         Some r \<Rightarrow> if reaches (?n - 1 - i) (rr_share r) then Some r else ?rest | None \<Rightarrow> ?rest)"
    using i d by (simp add: take_Suc_conv_app_nth split: option.split)
  show ?case
  proof (cases "\<exists>r. copy_of rows k ?t = Some r \<and> reaches (?n - 1 - i) (rr_share r)")
    case True
    then obtain r where r: "copy_of rows k ?t = Some r" "reaches (?n - 1 - i) (rr_share r)" by blast
    note sees = copy_sees [OF assms(1,2) i r]
    have "as_near ctx r s" if "below_level ctx (Suc i) s" for s
      using that sees(2) by (auto simp: as_near_def below_level_def split: option.splits)
    then show ?thesis
      unfolding climb using r sees by (simp add: nearest_in_def below_level_def)
  next
    case False
    have "{r \<in> sees rows k ctx. below_level ctx (Suc i) r} = {r \<in> sees rows k ctx. below_level ctx i r}"
    proof (intro Collect_cong conj_cong refl)
      fix s assume s: "s \<in> sees rows k ctx"
      have "nearness s ctx \<noteq> Some (int i)" using False sees_at [OF assms(1,2) s] by blast
      then show "below_level ctx (Suc i) s \<longleftrightarrow> below_level ctx i s"
        by (auto simp: below_level_def split: option.splits)
    qed
    then show ?thesis unfolding climb using False IH by (auto split: option.splits)
  qed
qed

lemma resolve_nearest: "nearest_in ctx (sees rows k ctx) (map_option fst (resolveOne rows k ctx h))"
proof -
  let ?rs = "filter (\<lambda>r. rr_key r = k) rows"
  have sees: "sees rows k ctx = {r \<in> set ?rs. isVisible r ctx}" by (auto simp: sees_def)
  show ?thesis
  proof (cases "resolveEffective ?rs ctx h")
    case Nil
    then have "best_loop ctx ?rs [] = []"
      using arg_cong [OF effective_eq [of ?rs ctx h], of length] by simp
    then have "sees rows k ctx = {}" unfolding sees using best_loopD(2) [of _ ?rs ctx] by fastforce
    with Nil show ?thesis by (simp add: resolveOne_def nearest_in_def)
  next
    case (Cons e es)
    obtain r p where e: "e = (r, p)" by (cases e)
    with Cons have r: "map_of (best_loop ctx ?rs []) (rr_key r) = Some r"
      using effective_mem [of r p ?rs ctx h] by simp
    then have "r \<in> sees rows k ctx" "\<forall>s\<in>sees rows k ctx. as_near ctx r s"
      using best_loopD(1) [OF r] unfolding sees by auto
    with Cons e show ?thesis by (simp add: resolveOne_def nearest_in_def)
  qed
qed

text \<open>Two rows a tenant sees of one key are never equally near.\<close>

lemma nearest_unique:
  assumes "tree_ctx ctx" "wf_rows rows"
    "nearest_in ctx (sees rows k ctx) a" "nearest_in ctx (sees rows k ctx) b"
  shows "a = b"
proof (cases a)
  case None
  with assms(3,4) show ?thesis by (auto simp: nearest_in_def split: option.splits)
next
  case (Some r)
  with assms(3,4) obtain s where s: "b = Some s" "r \<in> sees rows k ctx" "s \<in> sees rows k ctx"
    "as_near ctx r s" "as_near ctx s r" by (auto simp: nearest_in_def split: option.splits)
  then have "nearness r ctx = nearness s ctx" by (auto simp: as_near_def split: option.splits)
  then have "rr_owner r = rr_owner s"
    by (rule_tac sees_cases [OF assms(1,2) s(2)]; rule_tac sees_cases [OF assms(1,2) s(3)]) simp_all
  with s have "r = s" using wf_rows_eq [OF assms(2)] by (auto simp: sees_def)
  with Some s show ?thesis by simp
qed

lemma climb_eq:
  assumes "tree_ctx ctx" "wf_rows rows"
  shows "map_option fst (resolveOne rows k ctx h) = climb rows k 0 (map ln_tenant (rev (rc_lineage ctx)))"
proof (rule nearest_unique [OF assms])
  let ?n = "length (rc_lineage ctx)"
  have "below_level ctx ?n r" if "r \<in> sees rows k ctx" for r
    by (rule sees_cases [OF assms that]) (simp_all add: below_level_def)
  then have "{r \<in> sees rows k ctx. below_level ctx ?n r} = sees rows k ctx" by blast
  then show "nearest_in ctx (sees rows k ctx) (climb rows k 0 (map ln_tenant (rev (rc_lineage ctx))))"
    using climb_nearest [OF assms, of ?n k] by simp
qed (rule resolve_nearest)

section \<open>Properties\<close>

text \<open>
  \<^verbatim>\<open>resolveOne\<close> is the climb up the tree. For a tenant whose context is its path from the
  root, and a table with one row per owner and key, the winner is the first copy found on the way
  from the tenant to the root whose owner shares it far enough down (its own in any case, its
  parent's unless private, a higher ancestor's only when shared to the subtree), else the global
  default, else nothing. In particular nobody sees another tenant's private row, and nothing of a
  tenant outside the path.
\<close>

theorem resolveOne_climbs:
  assumes "tree_ctx ctx" "wf_rows rows"
  shows "map_option fst (resolveOne rows k ctx h) = climb rows k 0 (map ln_tenant (rev (rc_lineage ctx)))"
  using assms by (rule climb_eq)

text \<open>A company, a team below it and a user below the team; the company shares with its subtree.\<close>

definition demo_ctx :: realm_ctx where
  "demo_ctx = \<lparr>rc_tenant = Some ''user'', rc_depth = 2,
     rc_lineage = [\<lparr>ln_tenant = ''acme'', ln_depth = 0\<rparr>, \<lparr>ln_tenant = ''team'', ln_depth = 1\<rparr>,
                   \<lparr>ln_tenant = ''user'', ln_depth = 2\<rparr>]\<rparr>"

definition demo_row :: "string \<Rightarrow> string option \<Rightarrow> share_mode \<Rightarrow> string \<Rightarrow> realm_row" where
  "demo_row i owner share hash =
     \<lparr>rr_id = i, rr_realm = (if owner = None then Global else Tenant), rr_owner = owner, rr_key = ''prompt'',
      rr_originId = (if owner = None then None else Some ''g''),
      rr_originHash = (if owner = None then None else Some ''h0''), rr_hash = hash,
      rr_track = Pin, rr_share = share, rr_payload = [], rr_updatedAt = None\<rparr>"

definition demo_rows :: "realm_row list" where
  "demo_rows = [demo_row ''g'' None Private ''h0'', demo_row ''a'' (Some ''acme'') Subtree ''h1'',
     demo_row ''t'' (Some ''team'') Private ''h2'', demo_row ''x'' (Some ''other'') Subtree ''h3'']"

lemma demo_tree: "tree_ctx demo_ctx" "wf_rows demo_rows"
  by (auto simp: tree_ctx_def demo_ctx_def less_Suc_eq numeral_3_eq_3)
    (simp_all add: wf_rows_def demo_rows_def demo_row_def)

lemma resolveOne_climbs_witness:
  "map_option (rr_id \<circ> fst) (resolveOne demo_rows ''prompt'' demo_ctx None) = Some ''a''"
proof -
  have "map_option fst (resolveOne demo_rows ''prompt'' demo_ctx None) = Some (demo_row ''a'' (Some ''acme'') Subtree ''h1'')"
    unfolding resolveOne_climbs [OF demo_tree]
    by (simp add: demo_ctx_def demo_rows_def demo_row_def copy_of_def reaches_def)
  then show ?thesis by (auto simp: demo_row_def)
qed

text \<open>
  \<^verbatim>\<open>resolveEffective\<close> returns exactly one record for every logical key of which the
  tenant can see some copy, in the order of the keys, and no record for any other key.
\<close>

theorem resolveEffective_keys:
  "map (\<lambda>e. rr_key (fst e)) (resolveEffective rows ctx h) =
   sorted_list_of_set (rr_key ` {r \<in> set rows. isVisible r ctx})"
proof -
  have "set (keys_of (best_loop ctx rows [])) = rr_key ` {r \<in> set rows. isVisible r ctx}"
  proof (intro set_eqI iffI)
    fix k assume "k \<in> set (keys_of (best_loop ctx rows []))"
    then obtain r where "map_of (best_loop ctx rows []) k = Some r"
      by (metis map_of_eq_None_keys not_None_eq)
    then show "k \<in> rr_key ` {r \<in> set rows. isVisible r ctx}" using best_loopD(1) by blast
  next
    fix k assume "k \<in> rr_key ` {r \<in> set rows. isVisible r ctx}"
    then obtain s where "s \<in> set rows" "isVisible s ctx" "k = rr_key s" by blast
    with best_loopD(2) [of s rows ctx] show "k \<in> set (keys_of (best_loop ctx rows []))"
      unfolding map_of_eq_None_keys by simp
  qed
  moreover note best_loopD(3) [of ctx rows]
  ultimately show ?thesis
    unfolding effective_keys using sorted_list_of_set_sort_remdups [of "keys_of (best_loop ctx rows [])"] by (simp only: distinct_remdups_id)
qed

text \<open>
  the record \<^verbatim>\<open>resolveEffective\<close> returns for a key is a visible one, no visible copy of the
  key has a nearer owner, and the provenance is the one \<^verbatim>\<open>provenanceOf\<close> gives the winner. Stated for
  every table, well-formed or not.
\<close>

theorem resolveEffective_nearest:
  assumes "(r, p) \<in> set (resolveEffective rows ctx h)" "s \<in> set rows" "isVisible s ctx" "rr_key s = rr_key r"
  shows "r \<in> set rows \<and> isVisible r ctx \<and> as_near ctx r s \<and>
    p = provenanceOf r ctx (nullish h (hash_by_id rows))"
  using assms effective_mem [of r p rows ctx h] best_loopD(1) [of ctx rows "rr_key r" r] by blast

lemma resolveEffective_nearest_witness:
  "nearness (demo_row ''a'' (Some ''acme'') Subtree ''h1'') demo_ctx = Some 0 \<and>
   as_near demo_ctx (demo_row ''a'' (Some ''acme'') Subtree ''h1'') (demo_row ''g'' None Private ''h0'')"
proof -
  let ?a = "demo_row ''a'' (Some ''acme'') Subtree ''h1''" and ?g = "demo_row ''g'' None Private ''h0''"
  have "(?a, PInherited ''acme'' (Some 2)) \<in> set (resolveEffective demo_rows demo_ctx None)" by code_simp
  moreover have "?g \<in> set demo_rows" "isVisible ?g demo_ctx" "rr_key ?g = rr_key ?a" by code_simp+
  ultimately have "as_near demo_ctx ?a ?g" using resolveEffective_nearest by blast
  moreover have "nearness ?a demo_ctx = Some 0" by code_simp
  ultimately show ?thesis by blast
qed

text \<open>
  between two global rows of one key the order of the input decides, not the identifier:
  the difference of their scores is \<^verbatim>\<open>NaN\<close>, so neither replaces the other, although the comment
  promises a deterministic tie-break by id.
\<close>

theorem resolve_global_tie:
  "map_option (rr_id \<circ> fst) (resolveOne [demo_row ''1'' None Private h, demo_row ''2'' None Private h'] ''prompt'' ctx None) = Some ''1'' \<and>
   map_option (rr_id \<circ> fst) (resolveOne [demo_row ''2'' None Private h', demo_row ''1'' None Private h] ''prompt'' ctx None) = Some ''2''"
  by (simp add: resolveOne_def effective_eq demo_row_def isVisible_def replaces_def nearness_def)

end
