(* ===== verification/RealmStore.thy ===== *)
theory RealmStore
  imports RealmResolve
begin

text \<open>
  The in-memory realm store and the resolver over it (\<^verbatim>\<open>packages/realm/src/realm-store.ts\<close>).

  The rows are the insertion-ordered \<^verbatim>\<open>Map\<close> by id, with the last tick of the monotonic clock. The
  identifier \<^verbatim>\<open>newUUIDv7()\<close> draws and the reading of \<^verbatim>\<open>Date.now()\<close> are arguments of the operations.
\<close>

section \<open>The code\<close>

datatype store_error = RecordNotFound string | NothingToCustomize string

record realm_store =
  rs_rows :: "(string \<times> realm_row) list"
  rs_last :: int

definition emptyRealmStore :: realm_store where
  "emptyRealmStore = \<lparr>rs_rows = [], rs_last = 0\<rparr>"

definition store_rows :: "realm_store \<Rightarrow> realm_row list" where
  "store_rows s = map snd (rs_rows s)"

definition set_row :: "realm_row \<Rightarrow> realm_store \<Rightarrow> realm_store" where
  "set_row r s = s\<lparr>rs_rows := AList.update (rr_id r) r (rs_rows s)\<rparr>"

definition monotonicClock :: "int \<Rightarrow> realm_store \<Rightarrow> int \<times> realm_store" where
  "monotonicClock date s = (let t = max date (rs_last s + 1) in (t, s\<lparr>rs_last := t\<rparr>))"

definition globalOf :: "realm_store \<Rightarrow> string \<Rightarrow> realm_row option" where
  "globalOf s k = find (\<lambda>r. rr_realm r = Global \<and> rr_key r = k) (store_rows s)"

definition ownedOf :: "realm_store \<Rightarrow> string \<Rightarrow> string \<Rightarrow> realm_row option" where
  "ownedOf s k t = find (\<lambda>r. rr_key r = k \<and> rr_owner r = Some t) (store_rows s)"

definition publishGlobal ::
  "(json \<Rightarrow> string) \<Rightarrow> string \<Rightarrow> string \<Rightarrow> payload \<Rightarrow> track_mode option \<Rightarrow> realm_store \<Rightarrow> realm_row \<times> realm_store" where
  "publishGlobal dg uuid k p track s =
     (let hash = computeContentHash dg p in
      case globalOf s k of
        Some ex \<Rightarrow>
          (let r = ex\<lparr>rr_payload := spread (rr_payload ex) p, rr_hash := hash, rr_track := nullish track (rr_track ex)\<rparr>
           in (r, set_row r s))
      | None \<Rightarrow>
          (let g = globalOriginalRow uuid k hash p; r = g\<lparr>rr_track := nullish track (rr_track g)\<rparr>
           in (r, set_row r s)))"

definition customize ::
  "(json \<Rightarrow> string) \<Rightarrow> string \<Rightarrow> int \<Rightarrow> string \<Rightarrow> realm_ctx \<Rightarrow> payload \<Rightarrow> realm_store \<Rightarrow>
     (store_error + realm_row) \<times> realm_store" where
  "customize dg uuid date k ctx p s =
     (case rc_tenant ctx of
        None \<Rightarrow> (Inl (NothingToCustomize k), s)
      | Some t \<Rightarrow>
          let visible = filter (\<lambda>r. isVisible r ctx \<and> rr_key r = k) (store_rows s) in
          case resolveOne visible k ctx None of
            None \<Rightarrow> (Inl (NothingToCustomize k), s)
          | Some (base, _) \<Rightarrow>
              let hash = computeContentHash dg p in
              case ownedOf s k t of
                Some own \<Rightarrow>
                  (let (now, s') = monotonicClock date s;
                       r = own\<lparr>rr_payload := spread (rr_payload own) p, rr_hash := hash, rr_updatedAt := Some now\<rparr>
                   in (Inr r, set_row r s'))
              | None \<Rightarrow>
                  (let r = \<lparr>rr_id = uuid, rr_realm = Tenant, rr_owner = Some t, rr_key = k,
                            rr_originId = Some (rr_id base), rr_originHash = Some (rr_hash base), rr_hash = hash,
                            rr_track = Pin, rr_share = Private, rr_payload = p, rr_updatedAt = None\<rparr>
                   in (Inr r, set_row r s)))"

definition putNative ::
  "(json \<Rightarrow> string) \<Rightarrow> string \<Rightarrow> string \<Rightarrow> string \<Rightarrow> payload \<Rightarrow> realm_store \<Rightarrow> realm_row \<times> realm_store" where
  "putNative dg uuid k t p s =
     (let hash = computeContentHash dg p in
      case ownedOf s k t of
        Some ex \<Rightarrow>
          (let r = ex\<lparr>rr_payload := spread (rr_payload ex) p, rr_hash := hash\<rparr> in (r, set_row r s))
      | None \<Rightarrow>
          (let r = \<lparr>rr_id = uuid, rr_realm = Tenant, rr_owner = Some t, rr_key = k, rr_originId = None,
                    rr_originHash = None, rr_hash = hash, rr_track = Pin, rr_share = Private,
                    rr_payload = p, rr_updatedAt = None\<rparr>
           in (r, set_row r s)))"

definition setShareMode ::
  "string \<Rightarrow> share_mode \<Rightarrow> realm_store \<Rightarrow> (store_error + realm_row) \<times> realm_store" where
  "setShareMode i m s =
     (case map_of (rs_rows s) i of
        None \<Rightarrow> (Inl (RecordNotFound i), s)
      | Some r \<Rightarrow> (Inr (r\<lparr>rr_share := m\<rparr>), s\<lparr>rs_rows := AList.update i (r\<lparr>rr_share := m\<rparr>) (rs_rows s)\<rparr>))"

definition deleteRow :: "string \<Rightarrow> realm_store \<Rightarrow> (store_error + unit) \<times> realm_store" where
  "deleteRow i s =
     (case map_of (rs_rows s) i of
        None \<Rightarrow> (Inl (RecordNotFound i), s)
      | Some _ \<Rightarrow> (Inr (), s\<lparr>rs_rows := AList.delete i (rs_rows s)\<rparr>))"

definition getRow :: "realm_store \<Rightarrow> string \<Rightarrow> realm_row option" where
  "getRow s i = map_of (rs_rows s) i"

definition listAll :: "realm_store \<Rightarrow> string list option \<Rightarrow> realm_row list" where
  "listAll s keys =
     (case keys of None \<Rightarrow> store_rows s | Some ks \<Rightarrow> filter (\<lambda>r. rr_key r \<in> set ks) (store_rows s))"

definition listVisible :: "realm_store \<Rightarrow> realm_ctx \<Rightarrow> string list option \<Rightarrow> realm_row list" where
  "listVisible s ctx keys = filter (\<lambda>r. isVisible r ctx) (listAll s keys)"

definition countRows :: "realm_store \<Rightarrow> nat" where
  "countRows s = length (rs_rows s)"

text \<open>The resolver: every visible copy, plus the global original for drift.\<close>

definition buildRemoteHash :: "realm_row list \<Rightarrow> string \<Rightarrow> string option" where
  "buildRemoteHash records i = map_option rr_hash (find (\<lambda>r. rr_id r = i) (rev records))"

definition resolverResolve :: "realm_store \<Rightarrow> string \<Rightarrow> realm_ctx \<Rightarrow> (realm_row \<times> provenance) option" where
  "resolverResolve s k ctx =
     (let candidates = listVisible s ctx (Some [k]);
          globals = filter (\<lambda>r. rr_realm r = Global) (listAll s (Some [k]))
      in resolveOne candidates k ctx (Some (buildRemoteHash (candidates @ globals))))"

definition resolverListEffective ::
  "realm_store \<Rightarrow> realm_ctx \<Rightarrow> string list option \<Rightarrow> (realm_row \<times> provenance) list" where
  "resolverListEffective s ctx keys =
     (let candidates = listVisible s ctx keys;
          globals = filter (\<lambda>r. rr_realm r = Global) (listAll s keys)
      in resolveEffective candidates ctx (Some (buildRemoteHash (candidates @ globals))))"

section \<open>One step of the store\<close>

datatype store_op =
    OPublish string string payload "track_mode option"
  | OCustomize string int string realm_ctx payload
  | ONative string string string payload
  | OShare string share_mode
  | ODelete string

fun exec_store :: "(json \<Rightarrow> string) \<Rightarrow> store_op \<Rightarrow> realm_store \<Rightarrow> realm_store" where
  "exec_store dg (OPublish uuid k p track) s = snd (publishGlobal dg uuid k p track s)"
| "exec_store dg (OCustomize uuid date k ctx p) s = snd (customize dg uuid date k ctx p s)"
| "exec_store dg (ONative uuid k t p) s = snd (putNative dg uuid k t p s)"
| "exec_store dg (OShare i m) s = snd (setShareMode i m s)"
| "exec_store dg (ODelete i) s = snd (deleteRow i s)"

text \<open>An identifier is fresh when no row has it: what \<^verbatim>\<open>newUUIDv7\<close> provides.\<close>

fun fresh_op :: "store_op \<Rightarrow> realm_store \<Rightarrow> bool" where
  "fresh_op (OPublish uuid _ _ _) s \<longleftrightarrow> getRow s uuid = None"
| "fresh_op (OCustomize uuid _ _ _ _) s \<longleftrightarrow> getRow s uuid = None"
| "fresh_op (ONative uuid _ _ _) s \<longleftrightarrow> getRow s uuid = None"
| "fresh_op (OShare _ _) s \<longleftrightarrow> True"
| "fresh_op (ODelete _) s \<longleftrightarrow> True"

inductive realm_reachable :: "(json \<Rightarrow> string) \<Rightarrow> realm_store \<Rightarrow> bool" for dg where
  realm_init: "realm_reachable dg emptyRealmStore"
| realm_step: "realm_reachable dg s \<Longrightarrow> fresh_op op s \<Longrightarrow> realm_reachable dg (exec_store dg op s)"

section \<open>The shape of the table\<close>

definition wf_store :: "realm_store \<Rightarrow> bool" where
  "wf_store s \<longleftrightarrow> wf_map (rs_rows s) \<and> (\<forall>(i, r)\<in>set (rs_rows s). rr_id r = i) \<and> wf_rows (store_rows s)"

lemma getRow_None: "wf_store s \<Longrightarrow> getRow s i = None \<longleftrightarrow> i \<notin> rr_id ` set (store_rows s)"
  unfolding getRow_def map_of_eq_None_keys store_rows_def wf_store_def by force

lemma getRow_Some: "wf_store s \<Longrightarrow> getRow s i = Some r \<longleftrightarrow> r \<in> set (store_rows s) \<and> rr_id r = i"
  unfolding getRow_def store_rows_def wf_store_def by force

lemma update_rows:
  assumes "\<forall>(i, x)\<in>set m. rr_id x = i" "wf_map m" "i \<in> set (keys_of m)" "rr_id r = i"
  shows "map snd (AList.update i r m) = map (\<lambda>x. if rr_id x = i then r else x) (map snd m)"
  using assms
proof (induction m)
  case (Cons p m)
  show ?case
  proof (cases "fst p = i")
    case True
    then have "map (\<lambda>x. if rr_id x = i then r else x) (map snd m) = map snd m"
      using Cons.prems by (intro map_idI) (force split: if_splits)
    with True Cons.prems show ?thesis by (cases p) auto
  next
    case False
    with Cons show ?thesis by (cases p) auto
  qed
qed simp

lemma set_row_simps [simp]: "rs_rows (set_row r s) = AList.update (rr_id r) r (rs_rows s)" "rs_last (set_row r s) = rs_last s"
  by (simp_all add: set_row_def)

lemma store_rows_set_row:
  assumes "wf_store s"
  shows "store_rows (set_row r s) =
    (if getRow s (rr_id r) = None then store_rows s @ [r]
     else map (\<lambda>x. if rr_id x = rr_id r then r else x) (store_rows s))"
proof (cases "getRow s (rr_id r) = None")
  case True
  then show ?thesis unfolding getRow_def map_of_eq_None_keys by (simp add: store_rows_def keys_update_new)
next
  case False
  then have "rr_id r \<in> set (keys_of (rs_rows s))" unfolding getRow_def map_of_eq_None_keys by simp
  with assms False update_rows [of "rs_rows s" "rr_id r" r] show ?thesis
    by (simp add: store_rows_def wf_store_def)
qed

lemma wf_store_update:
  assumes "wf_store s" "wf_rows (store_rows (set_row r s))"
  shows "wf_store (set_row r s)"
proof -
  show ?thesis
    using assms set_update_subset [of "rr_id r" r "rs_rows s"] by (auto simp: wf_store_def distinct_update)
qed

text \<open>Replacing a row keeps the table in shape if its identity, owner, key and realm stay.\<close>

definition same_place :: "realm_row \<Rightarrow> realm_row \<Rightarrow> bool" where
  "same_place r x \<longleftrightarrow> rr_id r = rr_id x \<and> rr_owner r = rr_owner x \<and> rr_key r = rr_key x \<and> rr_realm r = rr_realm x"

lemma wf_store_replace:
  assumes "wf_store s" "x \<in> set (store_rows s)" "same_place r x"
  shows "wf_store (set_row r s)"
proof (rule wf_store_update [OF assms(1)])
  let ?g = "\<lambda>y. if rr_id y = rr_id r then r else y"
  have uniq: "y = x" if "y \<in> set (store_rows s)" "rr_id y = rr_id r" for y
  proof -
    have "getRow s (rr_id r) = Some y" "getRow s (rr_id r) = Some x"
      using that assms(2,3) by (simp_all add: getRow_Some [OF assms(1)] same_place_def)
    then show ?thesis by simp
  qed
  have rows: "store_rows (set_row r s) = map ?g (store_rows s)"
    using store_rows_set_row [OF assms(1), of r] assms(2,3) getRow_None [OF assms(1)]
    by (auto simp: same_place_def)
  have "map (\<lambda>y. (rr_owner y, rr_key y)) (map ?g (store_rows s)) = map (\<lambda>y. (rr_owner y, rr_key y)) (store_rows s)"
    using uniq assms(3) by (auto simp: same_place_def)
  moreover have "\<forall>y\<in>set (map ?g (store_rows s)). rr_realm y = Global \<longleftrightarrow> rr_owner y = None"
    using assms by (auto simp: same_place_def wf_store_def wf_rows_def)
  ultimately show "wf_rows (store_rows (set_row r s))"
    using assms(1) unfolding rows wf_rows_def wf_store_def by (simp only:)
qed

lemma wf_store_append:
  assumes "wf_store s" "getRow s (rr_id r) = None" "rr_realm r = Global \<longleftrightarrow> rr_owner r = None"
    "\<forall>x\<in>set (store_rows s). \<not> (rr_owner x = rr_owner r \<and> rr_key x = rr_key r)"
  shows "wf_store (set_row r s)"
  using assms store_rows_set_row [OF assms(1), of r]
  by (intro wf_store_update) (auto simp: wf_store_def wf_rows_def)

lemma globalOf_eq: "globalOf s k = global_of (store_rows s) k"
  by (simp add: globalOf_def global_of_def)

lemma ownedOf_iff:
  assumes "wf_store s"
  shows "ownedOf s k t = Some r \<longleftrightarrow> r \<in> set (store_rows s) \<and> rr_owner r = Some t \<and> rr_key r = k"
proof -
  have "rr_realm x = Tenant \<longleftrightarrow> rr_owner x \<noteq> None" if "x \<in> set (store_rows s)" for x
    using that assms by (cases "rr_realm x") (auto simp: wf_store_def wf_rows_def)
  then have "find (\<lambda>r. rr_key r = k \<and> rr_owner r = Some t) (store_rows s) = copy_of (store_rows s) k t"
    unfolding copy_of_def by (intro find_cong refl) auto
  then show ?thesis using copy_of_iff [of "store_rows s" k t r] assms by (simp add: ownedOf_def wf_store_def)
qed

lemma ownedOf_None:
  assumes "wf_store s"
  shows "ownedOf s k t = None \<longleftrightarrow> (\<forall>x\<in>set (store_rows s). \<not> (rr_owner x = Some t \<and> rr_key x = k))"
  using ownedOf_iff [OF assms] by (metis not_None_eq)

lemma globalOf_None:
  assumes "wf_store s"
  shows "globalOf s k = None \<longleftrightarrow> (\<forall>x\<in>set (store_rows s). \<not> (rr_owner x = None \<and> rr_key x = k))"
  using global_of_iff [of "store_rows s" k] assms unfolding globalOf_eq wf_store_def by (metis not_None_eq)

section \<open>What one operation changes\<close>

text \<open>The owner whose rows an operation writes; \<open>None\<close> is the global owner.\<close>

fun writes_for :: "store_op \<Rightarrow> realm_store \<Rightarrow> string option" where
  "writes_for (OPublish _ _ _ _) s = None"
| "writes_for (OCustomize _ _ _ ctx _) s = rc_tenant ctx"
| "writes_for (ONative _ _ t _) s = Some t"
| "writes_for (OShare i _) s = (case getRow s i of None \<Rightarrow> None | Some r \<Rightarrow> rr_owner r)"
| "writes_for (ODelete i) s = (case getRow s i of None \<Rightarrow> None | Some r \<Rightarrow> rr_owner r)"

inductive row_edit :: "string option \<Rightarrow> realm_store \<Rightarrow> realm_store \<Rightarrow> bool" for w s s' where
  edit_none: "rs_rows s' = rs_rows s \<Longrightarrow> row_edit w s s'"
| edit_replace: "x \<in> set (store_rows s) \<Longrightarrow> same_place r x \<Longrightarrow> rr_owner x = w \<Longrightarrow>
    rs_rows s' = rs_rows (set_row r s) \<Longrightarrow> row_edit w s s'"
| edit_append: "getRow s (rr_id r) = None \<Longrightarrow> rr_owner r = w \<Longrightarrow> (rr_realm r = Global \<longleftrightarrow> w = None) \<Longrightarrow>
    \<forall>x\<in>set (store_rows s). \<not> (rr_owner x = w \<and> rr_key x = rr_key r) \<Longrightarrow>
    rs_rows s' = rs_rows (set_row r s) \<Longrightarrow> row_edit w s s'"
| edit_delete: "getRow s i = Some x \<Longrightarrow> rr_owner x = w \<Longrightarrow> rs_rows s' = AList.delete i (rs_rows s) \<Longrightarrow>
    row_edit w s s'"

lemma publishGlobal_edit:
  assumes "wf_store s" "getRow s uuid = None"
  shows "row_edit None s (snd (publishGlobal dg uuid k p track s))"
proof (cases "globalOf s k")
  case None
  note none = None [unfolded globalOf_None [OF assms(1)]]
  show ?thesis
    by (rule edit_append [where r = "fst (publishGlobal dg uuid k p track s)"])
      (use none assms(2) in \<open>simp_all add: None publishGlobal_def Let_def globalOriginalRow_def\<close>)
next
  case (Some x)
  with assms have "x \<in> set (store_rows s)" "rr_owner x = None"
    using global_of_iff [of "store_rows s" k x] unfolding globalOf_eq wf_store_def by simp_all
  with Some show ?thesis
    by (intro edit_replace [where r = "fst (publishGlobal dg uuid k p track s)" and x = x])
      (simp_all add: publishGlobal_def Let_def same_place_def)
qed

lemma putNative_edit:
  assumes "wf_store s" "getRow s uuid = None"
  shows "row_edit (Some t) s (snd (putNative dg uuid k t p s))"
proof (cases "ownedOf s k t")
  case None
  note none = None [unfolded ownedOf_None [OF assms(1)]]
  show ?thesis
    by (rule edit_append [where r = "fst (putNative dg uuid k t p s)"])
      (use none assms(2) in \<open>simp_all add: None putNative_def Let_def\<close>)
next
  case (Some x)
  with assms have "x \<in> set (store_rows s)" "rr_owner x = Some t" by (simp_all add: ownedOf_iff)
  with Some show ?thesis
    by (intro edit_replace [where r = "fst (putNative dg uuid k t p s)" and x = x])
      (simp_all add: putNative_def Let_def same_place_def)
qed

text \<open>The two ways \<^verbatim>\<open>customize\<close> succeeds: a new fork of the base, or an edit of the own row.\<close>

lemma customize_cases:
  assumes "customize dg uuid date k ctx p s = (Inr r, s')"
  obtains t base q where "rc_tenant ctx = Some t"
    "resolveOne (filter (\<lambda>r. isVisible r ctx \<and> rr_key r = k) (store_rows s)) k ctx None = Some (base, q)"
    "ownedOf s k t = None" "rs_rows s' = rs_rows (set_row r s)"
    "r = \<lparr>rr_id = uuid, rr_realm = Tenant, rr_owner = Some t, rr_key = k,
       rr_originId = Some (rr_id base), rr_originHash = Some (rr_hash base), rr_hash = computeContentHash dg p,
       rr_track = Pin, rr_share = Private, rr_payload = p, rr_updatedAt = None\<rparr>"
  | t own now where "rc_tenant ctx = Some t" "ownedOf s k t = Some own" "rs_rows s' = rs_rows (set_row r s)"
    "r = own\<lparr>rr_payload := spread (rr_payload own) p, rr_hash := computeContentHash dg p, rr_updatedAt := Some now\<rparr>"
  using assms
  by (auto simp: customize_def Let_def monotonicClock_def split: option.splits prod.splits)

lemma customize_edit:
  assumes "wf_store s" "getRow s uuid = None"
  shows "row_edit (rc_tenant ctx) s (snd (customize dg uuid date k ctx p s))"
proof (cases "customize dg uuid date k ctx p s")
  case (Pair res s')
  show ?thesis
  proof (cases res)
    case (Inl e)
    with Pair have "s' = s"
      by (auto simp: customize_def Let_def monotonicClock_def split: option.splits prod.splits)
    with Pair show ?thesis by (simp add: edit_none)
  next
    case (Inr r)
    with Pair have c: "customize dg uuid date k ctx p s = (Inr r, s')" by simp
    show ?thesis
    proof (rule customize_cases [OF c])
      fix t base q
      assume "rc_tenant ctx = Some t" "ownedOf s k t = None" "rs_rows s' = rs_rows (set_row r s)"
        "r = \<lparr>rr_id = uuid, rr_realm = Tenant, rr_owner = Some t, rr_key = k,
          rr_originId = Some (rr_id base), rr_originHash = Some (rr_hash base), rr_hash = computeContentHash dg p,
          rr_track = Pin, rr_share = Private, rr_payload = p, rr_updatedAt = None\<rparr>"
      with assms Pair show ?thesis
        by (intro edit_append [where r = r]) (simp_all add: ownedOf_None)
    next
      fix t own now
      assume "rc_tenant ctx = Some t" "ownedOf s k t = Some own" "rs_rows s' = rs_rows (set_row r s)"
        "r = own\<lparr>rr_payload := spread (rr_payload own) p, rr_hash := computeContentHash dg p, rr_updatedAt := Some now\<rparr>"
      with assms Pair show ?thesis
        by (intro edit_replace [where r = r and x = own]) (simp_all add: ownedOf_iff same_place_def)
    qed
  qed
qed

lemma setShareMode_edit:
  assumes "wf_store s"
  shows "row_edit (writes_for (OShare i m) s) s (snd (setShareMode i m s))"
proof (cases "getRow s i")
  case None
  then show ?thesis by (intro edit_none) (simp add: setShareMode_def getRow_def)
next
  case (Some x)
  with assms have "x \<in> set (store_rows s)" "rr_id x = i" by (simp_all add: getRow_Some)
  with Some show ?thesis
    by (intro edit_replace [where r = "x\<lparr>rr_share := m\<rparr>" and x = x])
      (simp_all add: setShareMode_def getRow_def same_place_def)
qed

lemma deleteRow_edit: "row_edit (writes_for (ODelete i) s) s (snd (deleteRow i s))"
proof (cases "getRow s i")
  case None
  then show ?thesis by (intro edit_none) (simp add: deleteRow_def getRow_def)
next
  case (Some x)
  then show ?thesis by (intro edit_delete [where i = i and x = x]) (simp_all add: deleteRow_def getRow_def)
qed

lemma exec_store_edit: "wf_store s \<Longrightarrow> fresh_op op s \<Longrightarrow> row_edit (writes_for op s) s (exec_store dg op s)"
  by (cases op)
    (simp_all add: publishGlobal_edit customize_edit putNative_edit setShareMode_edit deleteRow_edit
      del: writes_for.simps(4,5))

lemma wf_store_cong: "rs_rows s = rs_rows s' \<Longrightarrow> wf_store s \<longleftrightarrow> wf_store s'"
  by (simp add: wf_store_def store_rows_def)

lemma store_rows_delete:
  assumes "wf_store s" "rs_rows s' = AList.delete i (rs_rows s)"
  shows "store_rows s' = filter (\<lambda>x. rr_id x \<noteq> i) (store_rows s)"
proof -
  have "map snd (filter (\<lambda>p. i \<noteq> fst p) m) = filter (\<lambda>x. rr_id x \<noteq> i) (map snd m)"
    if "\<forall>(j, x)\<in>set m. rr_id x = j" for m :: "(string \<times> realm_row) list"
    using that by (induction m) auto
  with assms show ?thesis by (simp add: store_rows_def wf_store_def AList.delete_eq case_prod_unfold)
qed

lemma wf_store_edit: "row_edit w s s' \<Longrightarrow> wf_store s \<Longrightarrow> wf_store s'"
proof (induction rule: row_edit.induct)
  case edit_none
  then show ?case using wf_store_cong by blast
next
  case (edit_replace x r)
  then show ?case using wf_store_replace wf_store_cong by blast
next
  case (edit_append r)
  then show ?case using wf_store_append [of s r] wf_store_cong [of s' "set_row r s"] by simp
next
  case (edit_delete i x)
  then show ?case
    using store_rows_delete [OF edit_delete.prems edit_delete.hyps(3)] set_delete_subset [of i "rs_rows s"]
    by (auto simp: wf_store_def wf_rows_def distinct_map_filter)
qed

lemma realm_reachable_wf: "realm_reachable dg s \<Longrightarrow> wf_store s"
proof (induction rule: realm_reachable.induct)
  case realm_init
  then show ?case by (simp add: wf_store_def emptyRealmStore_def store_rows_def wf_rows_def)
next
  case (realm_step s op)
  then show ?case using wf_store_edit exec_store_edit by blast
qed

section \<open>The resolver over the table\<close>

lemma find_unique: "(\<And>x. x \<in> set xs \<Longrightarrow> P x \<Longrightarrow> x = g) \<Longrightarrow>
    find P xs = (if g \<in> set xs \<and> P g then Some g else None)"
  by (induction xs) auto

lemma wf_rows_filter: "wf_rows rows \<Longrightarrow> wf_rows (filter P rows)"
  by (simp add: wf_rows_def distinct_map_filter)

lemma resolveOne_prov:
  assumes "resolveOne rows k ctx (Some f) = Some (r, p)"
  shows "p = provenanceOf r ctx f"
proof -
  have "(r, p) \<in> set (resolveEffective (filter (\<lambda>r. rr_key r = k) rows) ctx (Some f))"
    using assms by (auto simp: resolveOne_def split: list.splits)
  then show ?thesis by (simp add: effective_mem)
qed

lemma listAll_one: "listAll s (Some [k]) = filter (\<lambda>r. rr_key r = k) (store_rows s)"
  by (simp add: listAll_def)

lemma sees_candidates: "sees (listVisible s ctx (Some [k])) k ctx = sees (store_rows s) k ctx"
  by (auto simp: sees_def listVisible_def listAll_one)

lemma resolver_climbs:
  assumes "tree_ctx ctx" "wf_store s"
  shows "map_option fst (resolverResolve s k ctx) = climb (store_rows s) k 0 (map ln_tenant (rev (rc_lineage ctx)))"
proof -
  have wf: "wf_rows (store_rows s)" using assms(2) by (simp add: wf_store_def)
  have "map_option fst (resolverResolve s k ctx) = map_option fst (resolveOne (store_rows s) k ctx None)"
    unfolding resolverResolve_def Let_def
    by (rule nearest_unique [OF assms(1) wf resolve_nearest [of ctx "listVisible s ctx (Some [k])" k, unfolded sees_candidates]
        resolve_nearest])
  with climb_eq [OF assms(1) wf] show ?thesis by simp
qed

lemma climb_own:
  assumes "tree_ctx ctx" "wf_rows rows" "r \<in> set rows" "rr_owner r = rc_tenant ctx" "rr_key r = k"
  shows "climb rows k 0 (map ln_tenant (rev (rc_lineage ctx))) = Some r"
proof -
  obtain ns n where l: "rc_lineage ctx = ns @ [n]"
    using assms(1) unfolding tree_ctx_def by (metis append_butlast_last_id)
  then have "rc_tenant ctx = Some (ln_tenant n)" using assms(1) by (simp add: tree_ctx_def)
  then have "copy_of rows k (ln_tenant n) = Some r" using assms copy_of_iff by simp
  with l show ?thesis by (simp add: reaches_def)
qed

text \<open>The current hash of an origin, as far as the resolver looks.\<close>

definition origin_hash :: "realm_store \<Rightarrow> string \<Rightarrow> realm_ctx \<Rightarrow> string \<Rightarrow> string option" where
  "origin_hash s k ctx i =
     (case getRow s i of None \<Rightarrow> None
      | Some g \<Rightarrow> if rr_key g = k \<and> isVisible g ctx then Some (rr_hash g) else None)"

lemma buildRemoteHash_origin:
  assumes "wf_store s"
  shows "buildRemoteHash (listVisible s ctx (Some [k]) @ filter (\<lambda>r. rr_realm r = Global) (listAll s (Some [k]))) i =
    origin_hash s k ctx i"
proof -
  let ?xs = "rev (listVisible s ctx (Some [k]) @ filter (\<lambda>r. rr_realm r = Global) (listAll s (Some [k])))"
  have mem: "x \<in> set ?xs \<longleftrightarrow> x \<in> set (store_rows s) \<and> rr_key x = k \<and> isVisible x ctx" for x
    by (auto simp: listVisible_def listAll_one isVisible_global)
  show ?thesis
  proof (cases "getRow s i")
    case None
    then have "find (\<lambda>r. rr_id r = i) ?xs = None"
      using mem getRow_None [OF assms] by (auto simp: find_None_iff)
    with None show ?thesis by (simp add: buildRemoteHash_def origin_hash_def)
  next
    case (Some g)
    have "find (\<lambda>r. rr_id r = i) ?xs = (if g \<in> set ?xs \<and> rr_id g = i then Some g else None)"
    proof (rule find_unique)
      fix x assume "x \<in> set ?xs" "rr_id x = i"
      then have "getRow s i = Some x" using mem getRow_Some [OF assms] by blast
      with Some show "x = g" by simp
    qed
    moreover have "g \<in> set (store_rows s)" "rr_id g = i" using Some getRow_Some [OF assms] by blast+
    ultimately show ?thesis using mem Some by (simp add: buildRemoteHash_def origin_hash_def)
  qed
qed

text \<open>What is outside the path is invisible, and edits of invisible rows filter out.\<close>

lemma not_visible_outside:
  assumes "tree_ctx ctx" "t \<notin> ln_tenant ` set (rc_lineage ctx)" "rr_owner r = Some t" "rr_realm r = Tenant"
  shows "\<not> isVisible r ctx"
  using assms in_set_takeD [of t _ "map ln_tenant (rc_lineage ctx)"]
  by (auto simp: isVisible_def tree_ctx_def parentTenantId_def strictGrandAncestorIds_def take_map)

lemma edit_filter:
  assumes "row_edit (Some t) s s'" "wf_store s"
    "\<And>r. rr_owner r = Some t \<Longrightarrow> rr_realm r = Tenant \<Longrightarrow> \<not> P r"
  shows "filter P (store_rows s') = filter P (store_rows s)"
  using assms(1)
proof cases
  case edit_none
  then show ?thesis by (simp add: store_rows_def)
next
  case (edit_replace x r)
  have tenant: "rr_realm x = Tenant" using edit_replace assms(2) by (cases "rr_realm x") (auto simp: wf_store_def wf_rows_def)
  have "y = x" if "y \<in> set (store_rows s)" "rr_id y = rr_id r" for y
  proof -
    have "getRow s (rr_id r) = Some y" "getRow s (rr_id r) = Some x"
      using that edit_replace by (simp_all add: getRow_Some [OF assms(2)] same_place_def)
    then show ?thesis by simp
  qed
  then have "\<not> P y \<and> \<not> P r" if "y \<in> set (store_rows s)" "rr_id y = rr_id r" for y
    using that edit_replace tenant assms(3) by (metis same_place_def)
  then have "filter P (map (\<lambda>y. if rr_id y = rr_id r then r else y) xs) = filter P xs"
    if "set xs \<subseteq> set (store_rows s)" for xs
    using that by (induction xs) auto
  moreover have "store_rows s' = map (\<lambda>y. if rr_id y = rr_id r then r else y) (store_rows s)"
    using store_rows_set_row [OF assms(2), of r] edit_replace getRow_None [OF assms(2)]
    by (auto simp: same_place_def store_rows_def)
  ultimately show ?thesis by simp
next
  case (edit_append r)
  then have "store_rows s' = store_rows s @ [r]"
    using store_rows_set_row [OF assms(2), of r] by (simp add: store_rows_def)
  moreover have "rr_realm r = Tenant" using edit_append by (cases "rr_realm r") auto
  ultimately show ?thesis using assms(3) edit_append by simp
next
  case (edit_delete i x)
  have x: "x \<in> set (store_rows s)" using edit_delete getRow_Some [OF assms(2)] by blast
  then have tenant: "rr_realm x = Tenant" using edit_delete assms(2) by (cases "rr_realm x") (auto simp: wf_store_def wf_rows_def)
  have "y = x" if "y \<in> set (store_rows s)" "rr_id y = i" for y
  proof -
    have "getRow s i = Some y" using that by (simp add: getRow_Some [OF assms(2)])
    then show ?thesis using edit_delete by simp
  qed
  then have "\<not> P y" if "y \<in> set (store_rows s)" "rr_id y = i" for y
    using that edit_delete tenant assms(3) by metis
  then show ?thesis
    unfolding store_rows_delete [OF assms(2) edit_delete(3)] filter_filter by (intro filter_cong refl) blast
qed

section \<open>Properties\<close>

text \<open>
  Claim C31: every reachable store is well-formed: the map's key is the row's id, a row belongs to
  the global realm exactly when it has no owner, and there is at most one row per owner and logical
  key, so at most one global default per key and one copy per tenant and key, whatever the sequence of
  operations, failed ones included.
\<close>

theorem realm_store_wf:
  assumes "realm_reachable dg s"
  shows "wf_store s"
  using assms by (rule realm_reachable_wf)

definition demo_ops :: "store_op list" where
  "demo_ops = [OPublish ''g'' ''prompt'' [(''a'', JNum 1)] None,
     ONative ''a'' ''prompt'' ''acme'' [(''a'', JNum 2)], OShare ''a'' Subtree,
     OCustomize ''u'' 5 ''prompt'' demo_ctx [(''a'', JNum 3)]]"

definition demo_store :: "(json \<Rightarrow> string) \<Rightarrow> realm_store" where
  "demo_store dg = fold (exec_store dg) demo_ops emptyRealmStore"

lemma demo_reachable: "realm_reachable (\<lambda>_. []) (demo_store (\<lambda>_. []))"
proof -
  let ?e = "exec_store (\<lambda>_. [])"
  let ?s1 = "?e (demo_ops ! 0) emptyRealmStore"
  let ?s2 = "?e (demo_ops ! 1) ?s1"
  let ?s3 = "?e (demo_ops ! 2) ?s2"
  have "fresh_op (demo_ops ! 0) emptyRealmStore" "fresh_op (demo_ops ! 1) ?s1" "fresh_op (demo_ops ! 2) ?s2"
    "fresh_op (demo_ops ! 3) ?s3" by code_simp+
  then have "realm_reachable (\<lambda>_. []) (?e (demo_ops ! 3) ?s3)"
    by (blast intro: realm_init realm_step)
  then show ?thesis by (simp add: demo_store_def demo_ops_def)
qed

lemma realm_store_wf_witness:
  "wf_store (demo_store (\<lambda>_. [])) \<and> countRows (demo_store (\<lambda>_. [])) = 3"
proof -
  have "countRows (demo_store (\<lambda>_. [])) = 3" by code_simp
  with realm_store_wf [OF demo_reachable] show ?thesis by blast
qed

text \<open>
  the resolver a choke point calls returns the climb up the tree over the whole table: its
  prefiltering by key and visibility loses nothing.
\<close>

theorem resolver_resolves:
  assumes "tree_ctx ctx" "wf_store s"
  shows "map_option fst (resolverResolve s k ctx) = climb (store_rows s) k 0 (map ln_tenant (rev (rc_lineage ctx)))"
  using assms by (rule resolver_climbs)

lemma resolver_resolves_witness:
  "map_option (rr_id \<circ> fst) (resolverResolve (demo_store (\<lambda>_. [])) ''prompt'' demo_ctx) = Some ''u''"
proof -
  have "map_option fst (resolverResolve (demo_store (\<lambda>_. [])) ''prompt'' demo_ctx) =
      climb (store_rows (demo_store (\<lambda>_. []))) ''prompt'' 0 (map ln_tenant (rev (rc_lineage demo_ctx)))"
    by (rule resolver_resolves [OF demo_tree(1) realm_reachable_wf [OF demo_reachable]])
  moreover have "map_option rr_id (climb (store_rows (demo_store (\<lambda>_. []))) ''prompt'' 0
      (map ln_tenant (rev (rc_lineage demo_ctx)))) = Some ''u''" by code_simp
  ultimately have "map_option rr_id (map_option fst (resolverResolve (demo_store (\<lambda>_. [])) ''prompt'' demo_ctx)) = Some ''u''"
    by (simp only:)
  then show ?thesis by (simp only: option.map_comp)
qed

text \<open>
  a tenant's own copy always wins, and its provenance is live: a native record says so, a
  fork reports the three-way drift of its recorded base hash, its own hash and the hash its origin has
  now, or no drift when the origin is gone or no longer visible.
\<close>

theorem resolver_own_copy:
  assumes "tree_ctx ctx" "wf_store s" "r \<in> set (store_rows s)" "rr_owner r = Some t" "rc_tenant ctx = Some t" "rr_key r = k"
  shows "resolverResolve s k ctx =
    Some (r, case rr_originId r of None \<Rightarrow> PNative t
      | Some i \<Rightarrow> POwnOverride t (driftState (rr_originHash r) (rr_hash r) (origin_hash s k ctx i)))"
proof -
  have wf: "wf_rows (store_rows s)" using assms(2) by (simp add: wf_store_def)
  have "map_option fst (resolverResolve s k ctx) = Some r"
    using climb_own [OF assms(1) wf assms(3)] assms resolver_climbs by simp
  then obtain p where p: "resolverResolve s k ctx = Some (r, p)" by auto
  have "buildRemoteHash (listVisible s ctx (Some [k]) @ filter (\<lambda>r. rr_realm r = Global) (listAll s (Some [k]))) =
      origin_hash s k ctx"
    by (rule ext) (rule buildRemoteHash_origin [OF assms(2)])
  then have "p = provenanceOf r ctx (origin_hash s k ctx)"
    using resolveOne_prov p unfolding resolverResolve_def Let_def by simp
  moreover have "rr_realm r \<noteq> Global" using assms(3,4) wf by (auto simp: wf_rows_def)
  ultimately show ?thesis using p assms(4,5) by (simp add: provenanceOf_def split: option.split)
qed

lemma resolver_own_copy_witness:
  "map_option snd (resolverResolve (demo_store (\<lambda>_. [])) ''prompt'' demo_ctx) = Some (POwnOverride ''user'' (Some InSync))"
proof -
  let ?s = "demo_store (\<lambda>_. [])"
  obtain r where r: "getRow ?s ''u'' = Some r" "rr_owner r = Some ''user''" "rr_key r = ''prompt''"
    "rr_originId r = Some ''a''" "driftState (rr_originHash r) (rr_hash r) (origin_hash ?s ''prompt'' demo_ctx ''a'') = Some InSync"
  proof -
    have "(case getRow ?s ''u'' of None \<Rightarrow> False | Some r \<Rightarrow> rr_owner r = Some ''user'' \<and> rr_key r = ''prompt'' \<and>
        rr_originId r = Some ''a'' \<and>
        driftState (rr_originHash r) (rr_hash r) (origin_hash ?s ''prompt'' demo_ctx ''a'') = Some InSync)" by code_simp
    with that show thesis by (auto split: option.splits)
  qed
  note wf = realm_reachable_wf [OF demo_reachable]
  have "r \<in> set (store_rows ?s)" using r(1) getRow_Some [OF wf] by blast
  moreover have "rc_tenant demo_ctx = Some ''user''" by (simp add: demo_ctx_def)
  ultimately show ?thesis using resolver_own_copy [OF demo_tree(1) wf _ r(2) _ r(3)] r(4,5) by simp
qed

text \<open>
  after a tenant customizes a key, the tenant resolves the key to the row it wrote, with
  the hash of the new payload.
\<close>

theorem customize_read_your_write:
  assumes "customize dg uuid date k ctx p s = (Inr r, s')" "tree_ctx ctx" "wf_store s" "getRow s uuid = None"
  shows "map_option fst (resolverResolve s' k ctx) = Some r \<and> rr_hash r = computeContentHash dg p \<and>
    rr_owner r = rc_tenant ctx \<and> rr_key r = k"
proof -
  have "row_edit (rc_tenant ctx) s s'" using customize_edit [OF assms(3,4)] assms(1) by (metis snd_conv)
  then have wf': "wf_store s'" using assms(3) wf_store_edit by blast
  have r: "rs_rows s' = rs_rows (set_row r s) \<and> rr_owner r = rc_tenant ctx \<and> rr_key r = k \<and>
      rr_hash r = computeContentHash dg p"
    by (rule customize_cases [OF assms(1)]) (simp_all add: ownedOf_iff [OF assms(3)])
  then have "getRow s' (rr_id r) = Some r" by (simp add: getRow_def)
  then have "r \<in> set (store_rows s')" using getRow_Some [OF wf'] by blast
  then show ?thesis
    using resolver_climbs [OF assms(2) wf'] climb_own [OF assms(2), of "store_rows s'" r k] wf' r
    by (simp add: wf_store_def)
qed

definition fork_again :: "(store_error + realm_row) \<times> realm_store" where
  "fork_again = customize (\<lambda>_. []) ''v'' 6 ''prompt'' demo_ctx [(''a'', JNum 4)] (demo_store (\<lambda>_. []))"

lemma customize_read_your_write_witness:
  "case fork_again of (res, s') \<Rightarrow> (case res of Inl _ \<Rightarrow> False
     | Inr r \<Rightarrow> map_option fst (resolverResolve s' ''prompt'' demo_ctx) = Some r \<and> rr_id r = ''u'')"
proof -
  obtain res s' where f: "fork_again = (res, s')" by (cases fork_again)
  have "(case fst fork_again of Inl _ \<Rightarrow> False | Inr r \<Rightarrow> rr_id r = ''u'')" by code_simp
  then obtain r where "res = Inr r" "rr_id r = ''u''" unfolding f by (cases res) simp_all
  with f have r: "fork_again = (Inr r, s')" "rr_id r = ''u''" by simp_all
  have "getRow (demo_store (\<lambda>_. [])) ''v'' = None" by code_simp
  note customize_read_your_write [OF r(1) [unfolded fork_again_def] demo_tree(1) realm_reachable_wf [OF demo_reachable] this]
  with r(2) show ?thesis unfolding r(1) by simp
qed



text \<open>
  republishing a global default keeps the payload fields the new payload dropped but hashes
  the new payload alone, so the recorded content hash is not the hash of the stored content.
\<close>

theorem publishGlobal_stale_fields:
  "rr_payload (fst (publishGlobal dg u2 k [(''b'', JNum 2)] None
      (snd (publishGlobal dg u1 k [(''a'', JNum 1)] None emptyRealmStore)))) = [(''a'', JNum 1), (''b'', JNum 2)] \<and>
   rr_hash (fst (publishGlobal dg u2 k [(''b'', JNum 2)] None
      (snd (publishGlobal dg u1 k [(''a'', JNum 1)] None emptyRealmStore)))) = computeContentHash dg [(''b'', JNum 2)]"
  by (simp add: publishGlobal_def globalOf_def store_rows_def emptyRealmStore_def globalOriginalRow_def spread_def Let_def)

end
