(* ===== verification/RealmVersion.thy ===== *)
theory RealmVersion
  imports RealmRecord
begin

text \<open>
  The append-only version log of published global defaults
  (\<^verbatim>\<open>packages/realm/src/realm-version.ts\<close>), the baseline of drift detection.
\<close>

section \<open>The code\<close>

record realm_version =
  rv_id :: string
  rv_family :: string
  rv_key :: string
  rv_version :: nat
  rv_hash :: string
  rv_payload :: payload
  rv_at :: string
  rv_by :: "string option"
  rv_note :: "string option"

record publish_input =
  pi_family :: string
  pi_key :: string
  pi_payload :: payload
  pi_by :: "string option"
  pi_note :: "string option"
  pi_at :: "string option"

definition DEFAULT_AT :: string where
  "DEFAULT_AT = ''1970-01-01T00:00:00.000Z''"

definition keyFilter :: "string \<Rightarrow> string \<Rightarrow> realm_version \<Rightarrow> bool" where
  "keyFilter f k r \<longleftrightarrow> rv_family r = f \<and> rv_key r = k"

text \<open>\<^verbatim>\<open>history\<close>: the versions of a key, newest first; JavaScript's sort is stable.\<close>

definition history :: "realm_version list \<Rightarrow> string \<Rightarrow> string \<Rightarrow> realm_version list" where
  "history vl f k = sort_key (\<lambda>r. - int (rv_version r)) (filter (keyFilter f k) vl)"

definition latest :: "realm_version list \<Rightarrow> string \<Rightarrow> string \<Rightarrow> realm_version option" where
  "latest vl f k = (case history vl f k of [] \<Rightarrow> None | v # _ \<Rightarrow> Some v)"

definition append_version ::
  "(json \<Rightarrow> string) \<Rightarrow> string \<Rightarrow> publish_input \<Rightarrow> realm_version list \<Rightarrow> realm_version \<times> realm_version list" where
  "append_version dg uuid i vl =
     (let hash = computeContentHash dg (pi_payload i);
          lat = latest vl (pi_family i) (pi_key i);
          v = \<lparr>rv_id = uuid, rv_family = pi_family i, rv_key = pi_key i,
               rv_version = (case lat of None \<Rightarrow> 0 | Some l \<Rightarrow> rv_version l) + 1, rv_hash = hash,
               rv_payload = pi_payload i, rv_at = nullish (pi_at i) DEFAULT_AT, rv_by = pi_by i, rv_note = pi_note i\<rparr>
      in case lat of
           Some l \<Rightarrow> if rv_hash l = hash then (l, vl) else (v, vl @ [v])
         | None \<Rightarrow> (v, vl @ [v]))"

definition version_at :: "realm_version list \<Rightarrow> string \<Rightarrow> string \<Rightarrow> nat \<Rightarrow> realm_version option" where
  "version_at vl f k n = find (\<lambda>r. keyFilter f k r \<and> rv_version r = n) vl"

fun latest_loop :: "realm_version list \<Rightarrow> (string \<times> realm_version) list \<Rightarrow> (string \<times> realm_version) list" where
  "latest_loop [] out = out"
| "latest_loop (r # rs) out =
     (case map_of out (rv_key r) of
        None \<Rightarrow> latest_loop rs (AList.update (rv_key r) r out)
      | Some cur \<Rightarrow> latest_loop rs (if rv_version r > rv_version cur then AList.update (rv_key r) r out else out))"

definition latestAll :: "realm_version list \<Rightarrow> string \<Rightarrow> (string \<times> realm_version) list" where
  "latestAll vl f = latest_loop (filter (\<lambda>r. rv_family r = f) vl) []"

section \<open>The shape of the log\<close>

text \<open>The versions of a key are 1, 2, 3, \<dots> in order of publication, each with the hash of its payload.\<close>

definition wf_log :: "(json \<Rightarrow> string) \<Rightarrow> realm_version list \<Rightarrow> bool" where
  "wf_log dg vl \<longleftrightarrow>
     (\<forall>f k. map rv_version (filter (keyFilter f k) vl) = [1..<Suc (length (filter (keyFilter f k) vl))]) \<and>
     (\<forall>r\<in>set vl. rv_hash r = computeContentHash dg (rv_payload r))"

lemma wf_log_versions:
  "wf_log dg vl \<Longrightarrow> map rv_version (filter (keyFilter f k) vl) = [1..<Suc (length (filter (keyFilter f k) vl))]"
  by (simp add: wf_log_def)

lemma sorted_down: "sorted (map (\<lambda>n. - int n) (rev [a..<b]))"
  by (induction b) auto

lemma history_rev:
  assumes "wf_log dg vl"
  shows "history vl f k = rev (filter (keyFilter f k) vl)"
proof -
  let ?xs = "filter (keyFilter f k) vl"
  have v: "map rv_version ?xs = [1..<Suc (length ?xs)]" using wf_log_versions [OF assms] .
  have "sorted (map (\<lambda>r. - int (rv_version r)) (rev ?xs))"
  proof -
    have "map (\<lambda>r. - int (rv_version r)) (rev ?xs) = map (\<lambda>n. - int n) (rev (map rv_version ?xs))"
      by (simp add: rev_map)
    also have "sorted \<dots>" unfolding v by (rule sorted_down)
    finally show ?thesis .
  qed
  moreover have inj: "inj_on (\<lambda>r. - int (rv_version r)) (set ?xs)"
  proof -
    have "distinct (map rv_version ?xs)" unfolding v by simp
    then show ?thesis by (auto simp: distinct_map inj_on_def)
  qed
  moreover have "distinct ?xs" using v by (metis distinct_map distinct_upt)
  ultimately show ?thesis
    unfolding history_def
    by (intro map_sorted_distinct_set_unique [where f = "\<lambda>r. - int (rv_version r)"])
      (auto simp: distinct_map inj_on_def)
qed

lemma latest_last:
  assumes "wf_log dg vl"
  shows "latest vl f k = (if filter (keyFilter f k) vl = [] then None else Some (last (filter (keyFilter f k) vl)))"
  using history_rev [OF assms, of f k] unfolding latest_def
  by (cases "filter (keyFilter f k) vl" rule: rev_cases) auto

lemma latest_version:
  assumes "wf_log dg vl"
  shows "(case latest vl f k of None \<Rightarrow> 0 | Some l \<Rightarrow> rv_version l) = length (filter (keyFilter f k) vl)"
proof (cases "filter (keyFilter f k) vl" rule: rev_cases)
  case Nil
  then show ?thesis using latest_last [OF assms] by simp
next
  case (snoc ys y)
  then have "rv_version y = Suc (length ys)" using wf_log_versions [OF assms, of f k] by simp
  then show ?thesis using latest_last [OF assms, of f k] snoc by simp
qed

lemma latest_mem: "wf_log dg vl \<Longrightarrow> latest vl f k = Some v \<Longrightarrow> v \<in> set vl \<and> keyFilter f k v"
  using latest_last [of dg vl f k] last_in_set [of "filter (keyFilter f k) vl"] by (auto split: if_splits)

text \<open>What \<^verbatim>\<open>append\<close> returns and what it leaves behind.\<close>

lemma append_version_cases:
  assumes "wf_log dg vl"
  obtains (old) v where "latest vl (pi_family i) (pi_key i) = Some v" "rv_hash v = computeContentHash dg (pi_payload i)"
      "append_version dg uuid i vl = (v, vl)"
  | (new) v where "append_version dg uuid i vl = (v, vl @ [v])" "rv_hash v = computeContentHash dg (pi_payload i)"
      "rv_payload v = pi_payload i" "rv_family v = pi_family i" "rv_key v = pi_key i"
      "rv_version v = Suc (length (filter (keyFilter (pi_family i) (pi_key i)) vl))"
      "\<forall>l. latest vl (pi_family i) (pi_key i) = Some l \<longrightarrow> rv_hash l \<noteq> rv_hash v"
proof (cases "\<exists>v. latest vl (pi_family i) (pi_key i) = Some v \<and> rv_hash v = computeContentHash dg (pi_payload i)")
  case True
  then show thesis using old by (auto simp: append_version_def Let_def)
next
  case False
  let ?v = "fst (append_version dg uuid i vl)"
  have "append_version dg uuid i vl = (?v, vl @ [?v])"
    using False by (auto simp: append_version_def Let_def split: option.splits)
  moreover have "rv_version ?v = Suc (length (filter (keyFilter (pi_family i) (pi_key i)) vl))"
    using False latest_version [OF assms, of "pi_family i" "pi_key i"]
    by (auto simp: append_version_def Let_def split: option.splits)
  moreover have "rv_hash ?v = computeContentHash dg (pi_payload i) \<and> rv_payload ?v = pi_payload i \<and>
      rv_family ?v = pi_family i \<and> rv_key ?v = pi_key i"
    using False by (auto simp: append_version_def Let_def split: option.splits)
  ultimately show thesis using False new [of ?v] by auto
qed

lemma append_version_wf: "wf_log dg vl \<Longrightarrow> wf_log dg (snd (append_version dg uuid i vl))"
proof (rule append_version_cases [where dg = dg and i = i and uuid = uuid], assumption)
  fix v assume "wf_log dg vl" "append_version dg uuid i vl = (v, vl)"
  then show ?thesis by simp
next
  fix v assume wf: "wf_log dg vl" and v: "append_version dg uuid i vl = (v, vl @ [v])"
    "rv_hash v = computeContentHash dg (pi_payload i)" "rv_payload v = pi_payload i"
    "rv_family v = pi_family i" "rv_key v = pi_key i"
    "rv_version v = Suc (length (filter (keyFilter (pi_family i) (pi_key i)) vl))"
  have "map rv_version (filter (keyFilter f k) (vl @ [v])) = [1..<Suc (length (filter (keyFilter f k) (vl @ [v])))]" for f k
    using wf_log_versions [OF wf, of f k] v by (auto simp: keyFilter_def)
  with wf v show ?thesis by (auto simp: wf_log_def)
qed

lemma append_version_latest:
  assumes "wf_log dg vl"
  shows "latest (snd (append_version dg uuid i vl)) f k =
    (if f = pi_family i \<and> k = pi_key i then Some (fst (append_version dg uuid i vl)) else latest vl f k)"
proof -
  note wf' = append_version_wf [OF assms, of uuid i]
  show ?thesis
  proof (rule append_version_cases [OF assms, of i uuid])
    fix v assume "latest vl (pi_family i) (pi_key i) = Some v" "append_version dg uuid i vl = (v, vl)"
    then show ?thesis by simp
  next
    fix v assume v: "append_version dg uuid i vl = (v, vl @ [v])" "rv_family v = pi_family i" "rv_key v = pi_key i"
    with wf' have "wf_log dg (vl @ [v])" by simp
    from latest_last [OF this, of f k] latest_last [OF assms, of f k] v show ?thesis
      by (auto simp: keyFilter_def)
  qed
qed

text \<open>The snapshot of a family is the latest version of every key.\<close>

lemma latest_loop_snoc:
  "latest_loop (rs @ [r]) out =
   (let m = latest_loop rs out in
    case map_of m (rv_key r) of
      None \<Rightarrow> AList.update (rv_key r) r m
    | Some cur \<Rightarrow> if rv_version r > rv_version cur then AList.update (rv_key r) r m else m)"
  by (induction rs out rule: latest_loop.induct) (auto simp: Let_def split: option.split)

lemma latest_loop_map:
  assumes "\<And>k. sorted_wrt (\<lambda>a b. rv_version a < rv_version b) (filter (\<lambda>r. rv_key r = k) rs)"
  shows "map_of (latest_loop rs []) k =
    (if filter (\<lambda>r. rv_key r = k) rs = [] then None else Some (last (filter (\<lambda>r. rv_key r = k) rs)))"
  using assms
proof (induction rs arbitrary: k rule: rev_induct)
  case (snoc r rs)
  have mono: "sorted_wrt (\<lambda>a b. rv_version a < rv_version b) (filter (\<lambda>r. rv_key r = k') rs)" for k'
    using snoc.prems [of k'] by (simp add: sorted_wrt_append_iff split: if_splits)
  have lt: "\<forall>x\<in>set (filter (\<lambda>x. rv_key x = rv_key r) rs). rv_version x < rv_version r"
    using snoc.prems [of "rv_key r"] by (simp add: sorted_wrt_append_iff)
  have "map_of (latest_loop (rs @ [r]) []) = (map_of (latest_loop rs []))(rv_key r \<mapsto> r)"
  proof (cases "map_of (latest_loop rs []) (rv_key r)")
    case None
    then show ?thesis by (simp add: latest_loop_snoc)
  next
    case (Some cur)
    then have "filter (\<lambda>x. rv_key x = rv_key r) rs \<noteq> []" "cur = last (filter (\<lambda>x. rv_key x = rv_key r) rs)"
      using snoc.IH [OF mono, of "rv_key r"] by (auto split: if_splits)
    then have "rv_version cur < rv_version r" using lt last_in_set by metis
    with Some show ?thesis by (simp add: latest_loop_snoc)
  qed
  with snoc.IH [OF mono, of k] show ?case by auto
qed simp

lemma latestAll_map:
  assumes "wf_log dg vl"
  shows "map_of (latestAll vl f) k = latest vl f k"
proof -
  have eq: "filter (\<lambda>r. rv_key r = k') (filter (\<lambda>r. rv_family r = f) vl) = filter (keyFilter f k') vl" for k'
    by (auto simp: keyFilter_def intro: filter_cong)
  have "sorted_wrt (\<lambda>a b. rv_version a < rv_version b) (filter (keyFilter f k') vl)" for k'
  proof -
    have "sorted_wrt (<) (map rv_version (filter (keyFilter f k') vl))"
      unfolding wf_log_versions [OF assms] by (rule sorted_wrt_upt)
    then show ?thesis by (simp add: sorted_wrt_map)
  qed
  then show ?thesis
    unfolding latestAll_def latest_last [OF assms] by (subst latest_loop_map) (simp_all only: eq)
qed

section \<open>Properties\<close>

text \<open>
  the version log stays content-addressed and gap-free under every publication: appending
  keeps the versions of each key exactly 1 to n in order with the hash of their payload; the appended
  payload's hash is then the latest of its key and no other key's latest changed.
\<close>

theorem version_log_append:
  assumes "wf_log dg vl" "append_version dg uuid i vl = (v, vl')"
  shows "wf_log dg vl' \<and> rv_hash v = computeContentHash dg (pi_payload i) \<and>
    latest vl' f k = (if f = pi_family i \<and> k = pi_key i then Some v else latest vl f k)"
proof -
  have "rv_hash v = computeContentHash dg (pi_payload i)"
    by (rule append_version_cases [OF assms(1), of i uuid]) (use assms(2) in auto)
  then show ?thesis
    using append_version_wf [OF assms(1), of uuid i] append_version_latest [OF assms(1), of uuid i f k] assms(2) by simp
qed

definition demo_input :: "rat \<Rightarrow> publish_input" where
  "demo_input n = \<lparr>pi_family = ''prompts'', pi_key = ''p'', pi_payload = [(''a'', JNum n)], pi_by = None,
     pi_note = None, pi_at = None\<rparr>"

lemma version_log_append_witness:
  "wf_log (\<lambda>_. ''x'') (snd (append_version (\<lambda>_. ''x'') ''1'' (demo_input 1) []))"
proof (cases "append_version (\<lambda>_. ''x'') ''1'' (demo_input 1) []")
  case (Pair v vl')
  have "wf_log (\<lambda>_. ''x'') []" by (simp add: wf_log_def)
  from version_log_append [OF this Pair] Pair show ?thesis by simp
qed

text \<open>
  the readers of the log agree: \<^verbatim>\<open>history\<close> lists all versions of a key newest first,
  numbered n down to 1, and \<^verbatim>\<open>latestAll\<close> maps every key of a family to what \<^verbatim>\<open>latest\<close> returns for it.
\<close>

theorem version_log_readers:
  assumes "wf_log dg vl"
  shows "map rv_version (history vl f k) = rev [1..<Suc (length (history vl f k))] \<and>
    map_of (latestAll vl f) k = latest vl f k"
  using history_rev [OF assms, of f k] wf_log_versions [OF assms, of f k] latestAll_map [OF assms]
  by (simp add: rev_map [symmetric] del: upt_Suc)

lemma version_log_readers_witness:
  "map rv_version (history (snd (append_version (\<lambda>_. ''x'') ''1'' (demo_input 1) [])) ''prompts'' ''p'') = [1]"
proof -
  let ?vl = "snd (append_version (\<lambda>_. ''x'') ''1'' (demo_input 1) [])"
  have "wf_log (\<lambda>_. ''x'') []" by (simp add: wf_log_def)
  then have "wf_log (\<lambda>_. ''x'') ?vl" by (rule append_version_wf)
  note version_log_readers [OF this, of "''prompts''" "''p''"]
  moreover have "length (history ?vl ''prompts'' ''p'') = 1" by code_simp
  ultimately show ?thesis by simp
qed

end
