(* ===== verification/RealmReconcile.thy ===== *)
theory RealmReconcile
  imports RealmStore RealmVersion
begin

text \<open>
  Reconciling shipped defaults with the store, the self-upgrade engine
  (\<^verbatim>\<open>packages/realm/src/reconcile.ts\<close>).

  The backend is the pair of store and version log the code passes around, with a counter into the
  sequence of identifiers \<^verbatim>\<open>newUUIDv7\<close> yields (a parameter \<open>gen\<close>); each publication reserves one.
  A current row's payload is the payload field of the row (the code hands the whole row over).
\<close>

section \<open>The code\<close>

record desired_default =
  dd_key :: string
  dd_payload :: payload

datatype reconcile_state = RDrift drift_state | RNew | RRemoved

record drift_entry =
  de_key :: string
  de_state :: reconcile_state
  de_base :: "string option"
  de_local :: "string option"
  de_remote :: "string option"
  de_basePayload :: "payload option"
  de_localPayload :: "payload option"
  de_remotePayload :: "payload option"

record drift_report =
  dr_entries :: "drift_entry list"
  dr_summary :: "reconcile_state \<Rightarrow> nat"

definition classifyDrift :: "string option \<Rightarrow> string option \<Rightarrow> string option \<Rightarrow> reconcile_state" where
  "classifyDrift base local remote =
     (case local of
        None \<Rightarrow> if remote \<noteq> None then RNew else RDrift InSync
      | Some l \<Rightarrow>
          (case remote of
             None \<Rightarrow> RRemoved
           | Some r \<Rightarrow>
               if base = None then (if l = r then RDrift InSync else RDrift Diverged)
               else (case driftState base l remote of None \<Rightarrow> RDrift Diverged | Some d \<Rightarrow> RDrift d)))"

text \<open>\<^verbatim>\<open>new Map(list)\<close>: a later entry of a key overwrites an earlier one in its place.\<close>

definition to_map :: "('k \<times> 'v) list \<Rightarrow> ('k \<times> 'v) list" where
  "to_map kvs = fold (\<lambda>(k, v) m. AList.update k v m) kvs []"

text \<open>The three inputs of the planner: hash and payload of Local and Base, the desired defaults.\<close>

definition plan_entry ::
  "(json \<Rightarrow> string) \<Rightarrow> (string \<times> string \<times> payload) list \<Rightarrow> (string \<times> string \<times> payload) list \<Rightarrow>
     (string \<times> desired_default) list \<Rightarrow> string \<Rightarrow> drift_entry" where
  "plan_entry dg current baseline byKey k =
     (let cur = map_of current k; base = map_of baseline k; des = map_of byKey k;
          lh = map_option fst cur; bh = map_option fst base;
          rh = map_option (\<lambda>d. computeContentHash dg (dd_payload d)) des
      in \<lparr>de_key = k, de_state = classifyDrift bh lh rh, de_base = bh, de_local = lh, de_remote = rh,
          de_basePayload = map_option snd base, de_localPayload = map_option snd cur,
          de_remotePayload = map_option dd_payload des\<rparr>)"

definition planReconcile ::
  "(json \<Rightarrow> string) \<Rightarrow> (string \<times> string \<times> payload) list \<Rightarrow> (string \<times> string \<times> payload) list \<Rightarrow>
     desired_default list \<Rightarrow> drift_report" where
  "planReconcile dg current baseline desired =
     (let byKey = to_map (map (\<lambda>d. (dd_key d, d)) desired);
          keys = sort (remdups (keys_of current @ keys_of baseline @ keys_of byKey));
          entries = map (plan_entry dg current baseline byKey) keys
      in \<lparr>dr_entries = entries,
          dr_summary = foldl (\<lambda>s e. s(de_state e := s (de_state e) + 1)) (\<lambda>_. 0) entries\<rparr>)"

record realm_backend =
  bk_store :: realm_store
  bk_log :: "realm_version list"
  bk_next :: nat

datatype applied_action = Published | Adopted

record reconcile_opts =
  ro_autoAdoptStale :: "bool option"
  ro_publishNew :: "bool option"
  ro_publishedBy :: "string option"
  ro_at :: "string option"

text \<open>The two writes every path makes: the row, then the version.\<close>

definition ship ::
  "(json \<Rightarrow> string) \<Rightarrow> (nat \<Rightarrow> string) \<Rightarrow> publish_input \<Rightarrow> realm_backend \<Rightarrow> realm_row \<times> realm_backend" where
  "ship dg gen i b =
     (let (r, st) = publishGlobal dg (gen (bk_next b)) (pi_key i) (pi_payload i) None (bk_store b);
          (v, vl) = append_version dg (gen (Suc (bk_next b))) i (bk_log b)
      in (r, \<lparr>bk_store = st, bk_log = vl, bk_next = bk_next b + 2\<rparr>))"

record reconcile_acc =
  ra_backend :: realm_backend
  ra_applied :: "(string \<times> applied_action) list"
  ra_review :: "(string \<times> reconcile_state) list"

definition reconcile_entry ::
  "(json \<Rightarrow> string) \<Rightarrow> (nat \<Rightarrow> string) \<Rightarrow> string \<Rightarrow> reconcile_opts \<Rightarrow> (string \<times> desired_default) list \<Rightarrow>
     reconcile_acc \<Rightarrow> drift_entry \<Rightarrow> reconcile_acc" where
  "reconcile_entry dg gen family opts byKey acc e =
     (let des = map_of byKey (de_key e);
          autoAdoptStale = nullish (ro_autoAdoptStale opts) True;
          publishNew = nullish (ro_publishNew opts) True;
          inp = (\<lambda>d note. \<lparr>pi_family = family, pi_key = de_key e, pi_payload = dd_payload d,
                   pi_by = ro_publishedBy opts, pi_note = Some note, pi_at = ro_at opts\<rparr>)
      in if de_state e = RNew \<and> des \<noteq> None \<and> publishNew then
           acc\<lparr>ra_backend := snd (ship dg gen (inp (the des) ''publish'') (ra_backend acc)),
               ra_applied := ra_applied acc @ [(de_key e, Published)]\<rparr>
         else if de_state e = RDrift Stale \<and> des \<noteq> None \<and> autoAdoptStale then
           acc\<lparr>ra_backend := snd (ship dg gen (inp (the des) ''adopt'') (ra_backend acc)),
               ra_applied := ra_applied acc @ [(de_key e, Adopted)]\<rparr>
         else if de_state e = RDrift Customized \<or> de_state e = RDrift Diverged \<or> de_state e = RRemoved then
           acc\<lparr>ra_review := ra_review acc @ [(de_key e, de_state e)]\<rparr>
         else acc)"

definition snapshot_current :: "realm_store \<Rightarrow> desired_default list \<Rightarrow> (string \<times> string \<times> payload) list" where
  "snapshot_current s desired =
     to_map (map (\<lambda>r. (rr_key r, rr_hash r, rr_payload r))
       (filter (\<lambda>r. rr_realm r = Global) (listAll s (Some (map dd_key desired)))))"

definition snapshot_baseline :: "realm_version list \<Rightarrow> string \<Rightarrow> (string \<times> string \<times> payload) list" where
  "snapshot_baseline vl family = map (\<lambda>(k, v). (k, rv_hash v, rv_payload v)) (latestAll vl family)"

definition reconcile ::
  "(json \<Rightarrow> string) \<Rightarrow> (nat \<Rightarrow> string) \<Rightarrow> realm_backend \<Rightarrow> string \<Rightarrow> desired_default list \<Rightarrow> reconcile_opts \<Rightarrow>
     drift_report \<times> reconcile_acc" where
  "reconcile dg gen b family desired opts =
     (let report = planReconcile dg (snapshot_current (bk_store b) desired) (snapshot_baseline (bk_log b) family) desired;
          byKey = to_map (map (\<lambda>d. (dd_key d, d)) desired)
      in (report, foldl (reconcile_entry dg gen family opts byKey)
            \<lparr>ra_backend = b, ra_applied = [], ra_review = []\<rparr> (dr_entries report)))"

definition resyncToDesired ::
  "(json \<Rightarrow> string) \<Rightarrow> (nat \<Rightarrow> string) \<Rightarrow> realm_backend \<Rightarrow> string \<Rightarrow> string \<Rightarrow> payload \<Rightarrow> string option \<Rightarrow>
     string option \<Rightarrow> realm_backend" where
  "resyncToDesired dg gen b family k p by ts =
     snd (ship dg gen \<lparr>pi_family = family, pi_key = k, pi_payload = p, pi_by = by, pi_note = Some ''resync'', pi_at = ts\<rparr> b)"

definition publishToRealm ::
  "(json \<Rightarrow> string) \<Rightarrow> (nat \<Rightarrow> string) \<Rightarrow> realm_backend \<Rightarrow> string \<Rightarrow> string \<Rightarrow> payload \<Rightarrow> string option \<Rightarrow>
     string option \<Rightarrow> string option \<Rightarrow> string \<times> realm_backend" where
  "publishToRealm dg gen b family k p by note ts =
     (let (r, b') = ship dg gen \<lparr>pi_family = family, pi_key = k, pi_payload = p, pi_by = by,
                        pi_note = Some (nullish note ''publish''), pi_at = ts\<rparr> b
      in (rr_hash r, b'))"

section \<open>The interface: publishing a default\<close>

text \<open>
  What reconciliation relies on: publishing an input makes its hash both the row's hash and the
  baseline of its key, and touches no other key.
\<close>

locale default_publisher =
  fixes ok :: "'s \<Rightarrow> bool"
    and fits :: "'i \<Rightarrow> bool"
    and key :: "'i \<Rightarrow> string"
    and hash :: "'i \<Rightarrow> string"
    and glob :: "'s \<Rightarrow> string \<Rightarrow> 'row option"
    and rowhash :: "'row \<Rightarrow> string"
    and base :: "'s \<Rightarrow> string \<Rightarrow> string option"
    and pub :: "'i \<Rightarrow> 's \<Rightarrow> 's"
  assumes ok_pub: "ok s \<Longrightarrow> fits i \<Longrightarrow> ok (pub i s)"
    and glob_pub: "ok s \<Longrightarrow> fits i \<Longrightarrow> map_option rowhash (glob (pub i s) (key i)) = Some (hash i)"
    and glob_other: "ok s \<Longrightarrow> fits i \<Longrightarrow> k \<noteq> key i \<Longrightarrow> glob (pub i s) k = glob s k"
    and base_pub: "ok s \<Longrightarrow> fits i \<Longrightarrow> base (pub i s) k = (if k = key i then Some (hash i) else base s k)"
begin

lemma publish_all_ok: "ok s \<Longrightarrow> \<forall>i\<in>set is. fits i \<Longrightarrow> ok (fold pub is s)"
  by (induction "is" arbitrary: s) (auto simp: ok_pub)

lemma publish_all_other:
  "ok s \<Longrightarrow> \<forall>i\<in>set is. fits i \<Longrightarrow> k \<notin> key ` set is \<Longrightarrow>
   glob (fold pub is s) k = glob s k \<and> base (fold pub is s) k = base s k"
  by (induction "is" arbitrary: s) (auto simp: ok_pub glob_other base_pub)

lemma publish_all_key:
  assumes "ok s" "\<forall>i\<in>set is. fits i" "distinct (map key is)" "i \<in> set is"
  shows "map_option rowhash (glob (fold pub is s) (key i)) = Some (hash i) \<and>
    base (fold pub is s) (key i) = Some (hash i)"
  using assms
proof (induction "is" arbitrary: s)
  case (Cons j js)
  then have "ok (pub j s)" by (simp add: ok_pub)
  then show ?case
    using Cons publish_all_other [of "pub j s" js "key j"] glob_pub [of s j] base_pub [of s j] by auto
qed simp

end

section \<open>The store and the log are such a publisher\<close>

definition wf_backend :: "(json \<Rightarrow> string) \<Rightarrow> (nat \<Rightarrow> string) \<Rightarrow> realm_backend \<Rightarrow> bool" where
  "wf_backend dg gen b \<longleftrightarrow> inj gen \<and> wf_store (bk_store b) \<and> wf_log dg (bk_log b) \<and>
     (\<forall>n \<ge> bk_next b. getRow (bk_store b) (gen n) = None)"

lemma mem_set_row:
  assumes "wf_store s"
  shows "x \<in> set (store_rows (set_row r s)) \<longleftrightarrow> x = r \<or> (x \<in> set (store_rows s) \<and> rr_id x \<noteq> rr_id r)"
proof (cases "getRow s (rr_id r) = None")
  case True
  then have "\<forall>y\<in>set (store_rows s). rr_id y \<noteq> rr_id r" using getRow_None [OF assms, of "rr_id r"] by (metis imageI)
  with True store_rows_set_row [OF assms, of r] show ?thesis by auto
next
  case False
  with store_rows_set_row [OF assms, of r] getRow_None [OF assms, of "rr_id r"] show ?thesis by (auto simp: image_iff)
qed

lemma publishGlobal_row:
  assumes "wf_store s" "getRow s uuid = None"
  obtains r s' where "publishGlobal dg uuid k p tr s = (r, s')" "s' = set_row r s" "wf_store s'"
    "rr_owner r = None" "rr_key r = k" "rr_hash r = computeContentHash dg p"
    "(rr_id r = uuid \<and> globalOf s k = None) \<or> (\<exists>x. globalOf s k = Some x \<and> rr_id x = rr_id r)"
proof -
  obtain r s' where rs: "publishGlobal dg uuid k p tr s = (r, s')" by (cases "publishGlobal dg uuid k p tr s")
  have "s' = set_row r s \<and> rr_owner r = None \<and> rr_key r = k \<and> rr_hash r = computeContentHash dg p \<and>
      ((rr_id r = uuid \<and> globalOf s k = None) \<or> (\<exists>x. globalOf s k = Some x \<and> rr_id x = rr_id r))"
  proof (cases "globalOf s k")
    case None
    with rs show ?thesis by (auto simp: publishGlobal_def Let_def globalOriginalRow_def)
  next
    case (Some x)
    with assms(1) have "rr_owner x = None" "rr_key x = k"
      using global_of_iff [of "store_rows s" k x] unfolding globalOf_eq wf_store_def by simp_all
    with rs Some show ?thesis by (auto simp: publishGlobal_def Let_def)
  qed
  moreover have "wf_store s'"
    using wf_store_edit [OF publishGlobal_edit [OF assms, of dg k p tr] assms(1)] rs by simp
  ultimately show thesis using that rs by blast
qed

lemma globalOf_iff:
  "wf_store s \<Longrightarrow> globalOf s k = Some r \<longleftrightarrow> r \<in> set (store_rows s) \<and> rr_owner r = None \<and> rr_key r = k"
  unfolding globalOf_eq wf_store_def by (intro global_of_iff) simp

lemma publishGlobal_globalOf:
  assumes "wf_store s" "getRow s uuid = None"
  shows "globalOf (snd (publishGlobal dg uuid k p tr s)) k' =
    (if k' = k then Some (fst (publishGlobal dg uuid k p tr s)) else globalOf s k')"
proof -
  obtain r s' where r: "publishGlobal dg uuid k p tr s = (r, s')" "s' = set_row r s" "wf_store s'"
    "rr_owner r = None" "rr_key r = k" "rr_hash r = computeContentHash dg p"
    "(rr_id r = uuid \<and> globalOf s k = None) \<or> (\<exists>x. globalOf s k = Some x \<and> rr_id x = rr_id r)"
    by (rule publishGlobal_row [OF assms])
  have keep: "rr_id x \<noteq> rr_id r" if "x \<in> set (store_rows s)" "rr_key x \<noteq> k" for x
  proof
    assume id: "rr_id x = rr_id r"
    then have "getRow s (rr_id r) = Some x" using that getRow_Some [OF assms(1)] by blast
    with r(7) assms(2) obtain y where "globalOf s k = Some y" "rr_id y = rr_id r" by auto
    moreover from this have "getRow s (rr_id r) = Some y" "rr_key y = k"
      using getRow_Some [OF assms(1)] globalOf_iff [OF assms(1)] by auto
    ultimately show False using \<open>getRow s (rr_id r) = Some x\<close> that by simp
  qed
  have new: "globalOf s' k = Some r" using r globalOf_iff [OF r(3)] mem_set_row [OF assms(1)] by auto
  have old: "globalOf s' k' = Some x \<longleftrightarrow> globalOf s k' = Some x" if "k' \<noteq> k" for x
    using that r keep [of x] mem_set_row [OF assms(1), of x r]
    unfolding globalOf_iff [OF r(3)] globalOf_iff [OF assms(1)] by auto
  have "globalOf s' k' = globalOf s k'" if "k' \<noteq> k" using old [OF that] by (metis not_None_eq)
  with new r(1) show ?thesis by simp
qed

lemma ship_simps:
  "bk_store (snd (ship dg gen i b)) = snd (publishGlobal dg (gen (bk_next b)) (pi_key i) (pi_payload i) None (bk_store b))"
  "bk_log (snd (ship dg gen i b)) = snd (append_version dg (gen (Suc (bk_next b))) i (bk_log b))"
  "bk_next (snd (ship dg gen i b)) = bk_next b + 2"
  "fst (ship dg gen i b) = fst (publishGlobal dg (gen (bk_next b)) (pi_key i) (pi_payload i) None (bk_store b))"
  by (simp_all add: ship_def split: prod.splits)

lemma wf_backend_ship:
  assumes "wf_backend dg gen b"
  shows "wf_backend dg gen (snd (ship dg gen i b))"
proof -
  have s: "wf_store (bk_store b)" "getRow (bk_store b) (gen (bk_next b)) = None"
    using assms by (simp_all add: wf_backend_def)
  obtain r s' where r: "publishGlobal dg (gen (bk_next b)) (pi_key i) (pi_payload i) None (bk_store b) = (r, s')"
    "s' = set_row r (bk_store b)" "wf_store s'" "rr_owner r = None" "rr_key r = pi_key i"
    "rr_hash r = computeContentHash dg (pi_payload i)"
    "(rr_id r = gen (bk_next b) \<and> globalOf (bk_store b) (pi_key i) = None) \<or>
     (\<exists>x. globalOf (bk_store b) (pi_key i) = Some x \<and> rr_id x = rr_id r)"
    by (rule publishGlobal_row [OF s])
  have "getRow s' (gen n) = None" if "bk_next b + 2 \<le> n" for n
  proof -
    have n: "getRow (bk_store b) (gen n) = None" "gen n \<noteq> gen (bk_next b)"
      using assms that by (auto simp: wf_backend_def inj_eq)
    have "rr_id r \<noteq> gen n"
      using r(7) n globalOf_iff [OF s(1)] getRow_None [OF s(1)] by force
    with n(1) r(2) show ?thesis by (simp add: getRow_def)
  qed
  with assms r show ?thesis
    by (simp add: wf_backend_def ship_simps append_version_wf)
qed

interpretation shipping: default_publisher "wf_backend dg gen" "\<lambda>i :: publish_input. pi_family i = family" "pi_key :: publish_input \<Rightarrow> string"
  "\<lambda>i :: publish_input. computeContentHash dg (pi_payload i)" "\<lambda>b. globalOf (bk_store b)" rr_hash
  "\<lambda>b k. map_option rv_hash (latest (bk_log b) family k)" "\<lambda>i b. snd (ship dg gen i b)"
  for dg gen family
proof
  fix b k and i :: publish_input assume b: "wf_backend dg gen b" and i: "pi_family i = family"
  then have wf: "wf_store (bk_store b)" "getRow (bk_store b) (gen (bk_next b)) = None" "wf_log dg (bk_log b)"
    by (simp_all add: wf_backend_def)
  show "wf_backend dg gen (snd (ship dg gen i b))" using b by (rule wf_backend_ship)
  show "map_option rr_hash (globalOf (bk_store (snd (ship dg gen i b))) (pi_key i)) = Some (computeContentHash dg (pi_payload i))"
    using publishGlobal_globalOf [OF wf(1,2), of dg "pi_key i" "pi_payload i" None "pi_key i"]
    by (rule_tac publishGlobal_row [OF wf(1,2), of dg "pi_key i" "pi_payload i" None]) (simp add: ship_simps)
  show "map_option rv_hash (latest (bk_log (snd (ship dg gen i b))) family k) =
      (if k = pi_key i then Some (computeContentHash dg (pi_payload i)) else map_option rv_hash (latest (bk_log b) family k))"
    by (rule append_version_cases [OF wf(3), of i "gen (Suc (bk_next b))"])
      (use append_version_latest [OF wf(3), of "gen (Suc (bk_next b))" i family k] i in \<open>auto simp: ship_simps\<close>)
next
  fix b k and i :: publish_input assume b: "wf_backend dg gen b" and k: "k \<noteq> pi_key i"
  then have wf: "wf_store (bk_store b)" "getRow (bk_store b) (gen (bk_next b)) = None"
    by (simp_all add: wf_backend_def)
  show "globalOf (bk_store (snd (ship dg gen i b))) k = globalOf (bk_store b) k"
    using publishGlobal_globalOf [OF wf] k by (simp add: ship_simps)
qed

section \<open>The run is a sequence of publications\<close>

lemma to_map_snoc: "to_map (kvs @ [(k, v)]) = AList.update k v (to_map kvs)"
  by (simp add: to_map_def)

lemma map_of_to_map: "map_of (to_map kvs) k = map_of (rev kvs) k"
  by (induction kvs rule: rev_induct) (auto simp: to_map_snoc, simp add: to_map_def)

lemma keys_to_map: "set (keys_of (to_map kvs)) = fst ` set kvs"
proof (induction kvs rule: rev_induct)
  case (snoc p kvs)
  obtain k v where "p = (k, v)" by (cases p)
  with snoc show ?case using dom_update [of k v "to_map kvs"] by (simp add: to_map_snoc)
qed (simp add: to_map_def)

text \<open>The desired default of a key, as the code looks it up.\<close>

definition desired_of :: "desired_default list \<Rightarrow> string \<Rightarrow> desired_default option" where
  "desired_of desired k = map_of (to_map (map (\<lambda>d. (dd_key d, d)) desired)) k"

lemma desired_of_None: "desired_of desired k = None \<longleftrightarrow> k \<notin> dd_key ` set desired"
  unfolding desired_of_def map_of_eq_None_keys keys_to_map by force

text \<open>The snapshots, read back.\<close>

lemma snapshot_current_map:
  assumes "wf_store s"
  shows "map_of (snapshot_current s desired) k =
    (if k \<in> dd_key ` set desired then map_option (\<lambda>r. (rr_hash r, rr_payload r)) (globalOf s k) else None)"
proof -
  let ?rows = "rev (filter (\<lambda>r. rr_realm r = Global) (listAll s (Some (map dd_key desired))))"
  let ?f = "\<lambda>r. (rr_key r, rr_hash r, rr_payload r)"
  have find: "map_of (map ?f rs) k = map_option (\<lambda>r. (rr_hash r, rr_payload r)) (find (\<lambda>r. rr_key r = k) rs)" for rs
    by (induction rs) auto
  have mem: "r \<in> set ?rows \<and> rr_key r = k \<longleftrightarrow> k \<in> dd_key ` set desired \<and> globalOf s k = Some r" for r
    using assms globalOf_iff [OF assms, of k r] by (auto simp: listAll_def wf_store_def wf_rows_def)
  have "find (\<lambda>r. rr_key r = k) ?rows = (if k \<in> dd_key ` set desired then globalOf s k else None)"
  proof (cases "find (\<lambda>r. rr_key r = k) ?rows")
    case None
    then have "\<not> (\<exists>r. r \<in> set ?rows \<and> rr_key r = k)" unfolding find_None_iff by blast
    then have "k \<in> dd_key ` set desired \<longrightarrow> globalOf s k = None" using mem by (metis not_None_eq)
    with None show ?thesis by simp
  next
    case (Some r)
    then have "r \<in> set ?rows \<and> rr_key r = k" by (rule find_SomeD)
    with Some show ?thesis using mem by simp
  qed
  then show ?thesis
    by (simp add: snapshot_current_def map_of_to_map rev_map find)
qed

lemma snapshot_baseline_map:
  "wf_log dg vl \<Longrightarrow> map_of (snapshot_baseline vl f) k = map_option (\<lambda>v. (rv_hash v, rv_payload v)) (latest vl f k)"
  using latestAll_map [of dg vl f k] by (simp add: snapshot_baseline_def map_of_map)

text \<open>The state a run assigns to a key.\<close>

definition local_hash :: "realm_backend \<Rightarrow> desired_default list \<Rightarrow> string \<Rightarrow> string option" where
  "local_hash b desired k =
     (if k \<in> dd_key ` set desired then map_option rr_hash (globalOf (bk_store b) k) else None)"

definition base_hash :: "realm_backend \<Rightarrow> string \<Rightarrow> string \<Rightarrow> string option" where
  "base_hash b family k = map_option rv_hash (latest (bk_log b) family k)"

definition key_state :: "(json \<Rightarrow> string) \<Rightarrow> realm_backend \<Rightarrow> string \<Rightarrow> desired_default list \<Rightarrow> string \<Rightarrow> reconcile_state" where
  "key_state dg b family desired k =
     classifyDrift (base_hash b family k) (local_hash b desired k)
       (map_option (\<lambda>d. computeContentHash dg (dd_payload d)) (desired_of desired k))"

lemma reconcile_entries:
  assumes "wf_backend dg gen b" "e \<in> set (dr_entries (fst (reconcile dg gen b family desired opts)))"
  shows "de_state e = key_state dg b family desired (de_key e)"
proof -
  have wf: "wf_store (bk_store b)" "wf_log dg (bk_log b)" using assms(1) by (simp_all add: wf_backend_def)
  show ?thesis
    using assms(2)
    by (auto simp: reconcile_def planReconcile_def Let_def plan_entry_def key_state_def desired_of_def base_hash_def
        local_hash_def snapshot_current_map [OF wf(1)] snapshot_baseline_map [OF wf(2)] option.map_comp comp_def)
qed

lemma plan_keys:
  "map de_key (dr_entries (planReconcile dg cur bas desired)) =
   sorted_list_of_set (set (keys_of cur) \<union> set (keys_of bas) \<union> dd_key ` set desired)"
proof -
  have "map de_key (dr_entries (planReconcile dg cur bas desired)) =
      sort (remdups (keys_of cur @ keys_of bas @ keys_of (to_map (map (\<lambda>d. (dd_key d, d)) desired))))"
    by (simp add: planReconcile_def Let_def plan_entry_def comp_def)
  also have "\<dots> = sorted_list_of_set (set (keys_of cur @ keys_of bas @ keys_of (to_map (map (\<lambda>d. (dd_key d, d)) desired))))"
    by (simp only: sorted_list_of_set_sort_remdups)
  also have "set (keys_of cur @ keys_of bas @ keys_of (to_map (map (\<lambda>d. (dd_key d, d)) desired))) =
      set (keys_of cur) \<union> set (keys_of bas) \<union> dd_key ` set desired"
    unfolding set_append keys_to_map by (simp add: image_image Un_assoc)
  finally show ?thesis .
qed

text \<open>The publications of a run, and the run as their fold.\<close>

definition entry_input :: "string \<Rightarrow> reconcile_opts \<Rightarrow> desired_default list \<Rightarrow> drift_entry \<Rightarrow> publish_input option" where
  "entry_input family opts desired e =
     (case desired_of desired (de_key e) of
        None \<Rightarrow> None
      | Some d \<Rightarrow>
          (let inp = (\<lambda>note. \<lparr>pi_family = family, pi_key = de_key e, pi_payload = dd_payload d,
                   pi_by = ro_publishedBy opts, pi_note = Some note, pi_at = ro_at opts\<rparr>) in
           if de_state e = RNew \<and> nullish (ro_publishNew opts) True then Some (inp ''publish'')
           else if de_state e = RDrift Stale \<and> nullish (ro_autoAdoptStale opts) True then Some (inp ''adopt'')
           else None))"

abbreviation run_entries ::
  "(json \<Rightarrow> string) \<Rightarrow> (nat \<Rightarrow> string) \<Rightarrow> string \<Rightarrow> reconcile_opts \<Rightarrow> desired_default list \<Rightarrow>
     drift_entry list \<Rightarrow> reconcile_acc \<Rightarrow> reconcile_acc" where
  "run_entries dg gen family opts desired es acc \<equiv>
     foldl (reconcile_entry dg gen family opts (to_map (map (\<lambda>d. (dd_key d, d)) desired))) acc es"

lemma run_entries_backend:
  "ra_backend (run_entries dg gen family opts desired es acc) =
   fold (\<lambda>i b. snd (ship dg gen i b)) (List.map_filter (entry_input family opts desired) es) (ra_backend acc)"
proof (induction es arbitrary: acc)
  case (Cons e es)
  have "ra_backend (reconcile_entry dg gen family opts (to_map (map (\<lambda>d. (dd_key d, d)) desired)) acc e) =
      (case entry_input family opts desired e of None \<Rightarrow> ra_backend acc
       | Some i \<Rightarrow> snd (ship dg gen i (ra_backend acc)))"
    by (auto simp: reconcile_entry_def entry_input_def desired_of_def Let_def split: option.split)
  with Cons show ?case by (simp add: List.map_filter_simps split: option.split)
qed (simp add: List.map_filter_simps)

lemma run_entries_applied:
  "ra_applied (run_entries dg gen family opts desired es acc) =
   ra_applied acc @ List.map_filter (\<lambda>e. map_option (\<lambda>_. (de_key e, if de_state e = RNew then Published else Adopted))
     (entry_input family opts desired e)) es"
proof (induction es arbitrary: acc)
  case (Cons e es)
  have "ra_applied (reconcile_entry dg gen family opts (to_map (map (\<lambda>d. (dd_key d, d)) desired)) acc e) =
      ra_applied acc @ (case entry_input family opts desired e of None \<Rightarrow> []
        | Some i \<Rightarrow> [(de_key e, if de_state e = RNew then Published else Adopted)])"
    by (auto simp: reconcile_entry_def entry_input_def desired_of_def Let_def split: option.split)
  with Cons show ?case by (simp add: List.map_filter_simps split: option.split)
qed (simp add: List.map_filter_simps)

definition inputs_of ::
  "(json \<Rightarrow> string) \<Rightarrow> (nat \<Rightarrow> string) \<Rightarrow> realm_backend \<Rightarrow> string \<Rightarrow> desired_default list \<Rightarrow> reconcile_opts \<Rightarrow>
     publish_input list" where
  "inputs_of dg gen b family desired opts =
     List.map_filter (entry_input family opts desired) (dr_entries (fst (reconcile dg gen b family desired opts)))"

lemma reconcile_backend:
  "ra_backend (snd (reconcile dg gen b family desired opts)) =
   fold (\<lambda>i b. snd (ship dg gen i b)) (inputs_of dg gen b family desired opts) b"
  by (simp add: reconcile_def Let_def run_entries_backend inputs_of_def)

lemma entry_input_SomeD:
  assumes "entry_input family opts desired e = Some i"
  shows "pi_family i = family \<and> pi_key i = de_key e \<and> (de_state e = RNew \<or> de_state e = RDrift Stale) \<and>
    (\<exists>d. desired_of desired (de_key e) = Some d \<and> pi_payload i = dd_payload d)"
  using assms by (auto simp: entry_input_def Let_def split: option.splits if_splits)

lemma entries_distinct: "distinct (map de_key (dr_entries (fst (reconcile dg gen b family desired opts))))"
  by (simp add: reconcile_def Let_def plan_keys)

lemma inputs_fit: "\<forall>i\<in>set (inputs_of dg gen b family desired opts). pi_family i = family"
  using entry_input_SomeD by (auto simp: inputs_of_def set_map_filter)

lemma inputs_distinct: "distinct (map pi_key (inputs_of dg gen b family desired opts))"
proof -
  have "distinct (map pi_key (List.map_filter (entry_input family opts desired) es)) \<and>
      set (map pi_key (List.map_filter (entry_input family opts desired) es)) \<subseteq> set (map de_key es)"
    if "distinct (map de_key es)" for es
    using that
  proof (induction es)
    case (Cons e es)
    then have IH: "distinct (map pi_key (List.map_filter (entry_input family opts desired) es))"
        "pi_key ` set (List.map_filter (entry_input family opts desired) es) \<subseteq> de_key ` set es"
        "de_key e \<notin> de_key ` set es" by simp_all
    then show ?case
    proof (cases "entry_input family opts desired e")
      case None
      with IH show ?thesis by (auto simp: List.map_filter_simps)
    next
      case (Some i)
      with IH entry_input_SomeD [OF Some] show ?thesis
        by (simp add: List.map_filter_simps subset_insertI2) blast
    qed
  qed (simp add: List.map_filter_simps)
  with entries_distinct show ?thesis unfolding inputs_of_def by blast
qed

lemma inputs_mem:
  assumes "wf_backend dg gen b" "desired_of desired k = Some d"
  shows "k \<in> pi_key ` set (inputs_of dg gen b family desired opts) \<longleftrightarrow>
    (key_state dg b family desired k = RNew \<and> nullish (ro_publishNew opts) True) \<or>
    (key_state dg b family desired k = RDrift Stale \<and> nullish (ro_autoAdoptStale opts) True)"
proof -
  let ?es = "dr_entries (fst (reconcile dg gen b family desired opts))"
  have "k \<in> dd_key ` set desired" using assms(2) desired_of_None by (metis option.distinct(1))
  then have "k \<in> set (map de_key ?es)" by (simp add: reconcile_def Let_def plan_keys del: set_map)
  then obtain e where e: "e \<in> set ?es" "de_key e = k" by auto
  have uniq: "x = e" if "x \<in> set ?es" "de_key x = k" for x
    using that e entries_distinct [of dg gen b family desired opts] by (auto simp: distinct_map inj_on_def)
  have "k \<in> pi_key ` set (inputs_of dg gen b family desired opts) \<longleftrightarrow> entry_input family opts desired e \<noteq> None"
  proof
    assume "k \<in> pi_key ` set (inputs_of dg gen b family desired opts)"
    then obtain x i where x: "x \<in> set ?es" "entry_input family opts desired x = Some i" "pi_key i = k"
      by (auto simp: inputs_of_def set_map_filter)
    then have "de_key x = k" using entry_input_SomeD [OF x(2)] by simp
    with uniq x(1) have "x = e" by simp
    with x show "entry_input family opts desired e \<noteq> None" by simp
  next
    assume "entry_input family opts desired e \<noteq> None"
    then obtain i where "entry_input family opts desired e = Some i" by blast
    moreover from this have "pi_key i = k" using entry_input_SomeD e(2) by simp
    ultimately show "k \<in> pi_key ` set (inputs_of dg gen b family desired opts)"
      using e(1) by (auto simp: inputs_of_def set_map_filter)
  qed
  then show ?thesis
    using reconcile_entries [OF assms(1) e(1)] e(2) assms(2) by (auto simp: entry_input_def Let_def)
qed

lemma input_payload:
  "i \<in> set (inputs_of dg gen b family desired opts) \<Longrightarrow> desired_of desired (pi_key i) = Some d \<Longrightarrow> pi_payload i = dd_payload d"
  using entry_input_SomeD by (fastforce simp: inputs_of_def set_map_filter)

text \<open>After a run: a published key has the shipped hash on both sides, every other key is as before.\<close>

lemma after_run:
  fixes opts :: reconcile_opts and family :: string
  assumes "wf_backend dg gen b" "desired_of desired k = Some d"
  defines "b' \<equiv> ra_backend (snd (reconcile dg gen b family desired opts))"
  shows "if k \<in> pi_key ` set (inputs_of dg gen b family desired opts)
    then local_hash b' desired k = Some (computeContentHash dg (dd_payload d)) \<and>
      base_hash b' family k = Some (computeContentHash dg (dd_payload d))
    else globalOf (bk_store b') k = globalOf (bk_store b) k \<and> base_hash b' family k = base_hash b family k"
proof (cases "k \<in> pi_key ` set (inputs_of dg gen b family desired opts)")
  case True
  then obtain i where i: "i \<in> set (inputs_of dg gen b family desired opts)" "pi_key i = k" by blast
  moreover have "k \<in> dd_key ` set desired" using assms(2) desired_of_None by (metis option.distinct(1))
  ultimately show ?thesis
    using shipping.publish_all_key [OF assms(1) inputs_fit inputs_distinct i(1)] input_payload [OF i(1)] assms(2) True
    by (simp add: b'_def reconcile_backend local_hash_def base_hash_def)
next
  case False
  then show ?thesis
    using shipping.publish_all_other [OF assms(1) inputs_fit False]
    by (simp add: b'_def reconcile_backend base_hash_def)
qed

lemma classify_shipped: "classifyDrift (Some h) (Some h) (Some h) = RDrift InSync"
  by (simp add: classifyDrift_def driftState_def)

lemma after_run_state:
  fixes opts :: reconcile_opts and family :: string
  assumes "wf_backend dg gen b" "desired_of desired k = Some d"
  defines "b' \<equiv> ra_backend (snd (reconcile dg gen b family desired opts))"
  shows "key_state dg b' family desired k =
    (if k \<in> pi_key ` set (inputs_of dg gen b family desired opts) then RDrift InSync
     else key_state dg b family desired k)"
proof (cases "k \<in> pi_key ` set (inputs_of dg gen b family desired opts)")
  case True
  with after_run [OF assms(1,2), of family opts] assms(2) show ?thesis
    by (simp only: key_state_def b'_def if_True classify_shipped option.map)
next
  case False
  with after_run [OF assms(1,2), of family opts] show ?thesis
    by (simp add: key_state_def b'_def local_hash_def)
qed

lemma wf_backend_run:
  "wf_backend dg gen b \<Longrightarrow> wf_backend dg gen (ra_backend (snd (reconcile dg gen b family desired opts)))"
  unfolding reconcile_backend by (rule shipping.publish_all_ok [OF _ inputs_fit])

section \<open>Properties\<close>

text \<open>A release that ships one prompt, an empty installation, and one whose prompt was never recorded.\<close>

definition demo_digest :: "json \<Rightarrow> string" where
  "demo_digest j = (if j = JObj [(''a'', JNum 1)] then ''1'' else ''2'')"

definition demo_opts :: reconcile_opts where
  "demo_opts = \<lparr>ro_autoAdoptStale = None, ro_publishNew = None, ro_publishedBy = None, ro_at = None\<rparr>"

definition demo_desired :: "desired_default list" where
  "demo_desired = [\<lparr>dd_key = ''p'', dd_payload = [(''a'', JNum 1)]\<rparr>]"

definition fresh_backend :: realm_backend where
  "fresh_backend = \<lparr>bk_store = emptyRealmStore, bk_log = [], bk_next = 0\<rparr>"

definition edited_backend :: realm_backend where
  "edited_backend = \<lparr>bk_store = snd (publishGlobal demo_digest (nat_str 0) ''p'' [(''a'', JNum 2)] None emptyRealmStore),
     bk_log = [], bk_next = 1\<rparr>"

lemma wf_fresh_backend: "wf_backend dg nat_str fresh_backend"
  by (auto simp: wf_backend_def fresh_backend_def wf_log_def getRow_def inj_def inj_nat_str
      emptyRealmStore_def wf_store_def store_rows_def wf_rows_def)

lemma wf_edited_backend: "wf_backend demo_digest nat_str edited_backend"
proof -
  have wf: "wf_store emptyRealmStore" "getRow emptyRealmStore (nat_str 0) = None"
    by (simp_all add: emptyRealmStore_def wf_store_def store_rows_def wf_rows_def getRow_def)
  have "wf_store (bk_store edited_backend)"
    unfolding edited_backend_def using wf_store_edit [OF publishGlobal_edit [OF wf] wf(1)] by simp
  moreover have "nat_str n \<noteq> nat_str 0" if "1 \<le> n" for n using that inj_nat_str [of n 0] by simp
  then have "\<forall>n \<ge> bk_next edited_backend. getRow (bk_store edited_backend) (nat_str n) = None"
    by (simp add: edited_backend_def getRow_def publishGlobal_def
        globalOf_def store_rows_def emptyRealmStore_def Let_def globalOriginalRow_def)
  ultimately show ?thesis
    by (simp add: wf_backend_def wf_log_def inj_def inj_nat_str) (simp add: edited_backend_def)
qed

text \<open>
  Claim C33: reconciliation never overwrites an operator: a global default whose hash differs from the
  recorded baseline (edited in place, or never recorded) is the same row after the run, whatever the
  shipped defaults and the options.
\<close>

theorem reconcile_keeps_edits:
  assumes "wf_backend dg gen b" "globalOf (bk_store b) k = Some r"
    "map_option rv_hash (latest (bk_log b) family k) \<noteq> Some (rr_hash r)"
  shows "globalOf (bk_store (ra_backend (snd (reconcile dg gen b family desired opts)))) k = Some r"
proof (cases "desired_of desired k")
  case None
  have "k \<notin> pi_key ` set (inputs_of dg gen b family desired opts)"
    using None entry_input_SomeD by (fastforce simp: inputs_of_def set_map_filter)
  with shipping.publish_all_other [OF assms(1) inputs_fit] assms(2) show ?thesis by (simp add: reconcile_backend)
next
  case (Some d)
  then have "k \<in> dd_key ` set desired" using desired_of_None by (metis option.distinct(1))
  then have "key_state dg b family desired k \<noteq> RNew \<and> key_state dg b family desired k \<noteq> RDrift Stale"
    using assms(2,3) Some
    by (auto simp: key_state_def local_hash_def base_hash_def classifyDrift_def driftState_def Let_def split: option.splits)
  then show ?thesis
    using inputs_mem [OF assms(1) Some] after_run [OF assms(1) Some, of family opts] assms(2) by simp
qed

lemma reconcile_keeps_edits_witness:
  "map_option rr_hash (globalOf (bk_store (ra_backend (snd (reconcile demo_digest nat_str edited_backend ''prompts''
     demo_desired demo_opts)))) ''p'') = Some ''sha256:2''"
proof -
  have "map_option rr_hash (globalOf (bk_store edited_backend) ''p'') = Some ''sha256:2''" by code_simp
  then obtain r where r: "globalOf (bk_store edited_backend) ''p'' = Some r" "rr_hash r = ''sha256:2''" by auto
  have "map_option rv_hash (latest (bk_log edited_backend) ''prompts'' ''p'') \<noteq> Some (rr_hash r)"
    by (simp add: edited_backend_def latest_def history_def)
  from reconcile_keeps_edits [OF wf_edited_backend r(1) this] r(2) show ?thesis by simp
qed

text \<open>
  reconciliation is idempotent: running it again with the same shipped defaults and options
  applies nothing.
\<close>

theorem reconcile_idempotent:
  assumes "wf_backend dg gen b"
  shows "ra_applied (snd (reconcile dg gen (ra_backend (snd (reconcile dg gen b family desired opts))) family desired opts)) = []"
proof -
  let ?b' = "ra_backend (snd (reconcile dg gen b family desired opts))"
  have "entry_input family opts desired e = None"
    if e: "e \<in> set (dr_entries (fst (reconcile dg gen ?b' family desired opts)))" for e
  proof (cases "desired_of desired (de_key e)")
    case None
    then show ?thesis by (simp add: entry_input_def)
  next
    case (Some d)
    then show ?thesis
      using reconcile_entries [OF wf_backend_run [OF assms] e] after_run_state [OF assms Some, of family opts]
        inputs_mem [OF assms Some, of family opts]
      by (auto simp: entry_input_def Let_def)
  qed
  then show ?thesis
    by (simp add: reconcile_def Let_def run_entries_applied List.map_filter_def)
qed

lemma reconcile_idempotent_witness:
  "ra_applied (snd (reconcile demo_digest nat_str fresh_backend ''prompts'' demo_desired demo_opts)) = [(''p'', Published)] \<and>
   ra_applied (snd (reconcile demo_digest nat_str
     (ra_backend (snd (reconcile demo_digest nat_str fresh_backend ''prompts'' demo_desired demo_opts)))
     ''prompts'' demo_desired demo_opts)) = []"
proof -
  have "ra_applied (snd (reconcile demo_digest nat_str fresh_backend ''prompts'' demo_desired demo_opts)) = [(''p'', Published)]"
    by code_simp
  with reconcile_idempotent [OF wf_fresh_backend] show ?thesis by simp
qed

text \<open>
  a run with the default options leaves every shipped default in sync or flagged: a key
  that was new or stale is in sync after it, and any other shipped key keeps its state, which is in
  sync, customized or diverged.
\<close>

theorem reconcile_settles:
  assumes "wf_backend dg gen b" "desired_of desired k = Some d"
    "ro_publishNew opts = None" "ro_autoAdoptStale opts = None"
  shows "key_state dg (ra_backend (snd (reconcile dg gen b family desired opts))) family desired k =
    (if key_state dg b family desired k = RNew \<or> key_state dg b family desired k = RDrift Stale then RDrift InSync
     else key_state dg b family desired k) \<and>
    key_state dg b family desired k \<in> {RNew, RDrift Stale, RDrift InSync, RDrift Customized, RDrift Diverged}"
proof -
  have "key_state dg b family desired k \<noteq> RRemoved"
    using assms(2) by (auto simp: key_state_def classifyDrift_def split: option.splits if_splits)
  then have "key_state dg b family desired k \<in> {RNew, RDrift Stale, RDrift InSync, RDrift Customized, RDrift Diverged}"
  proof (cases "key_state dg b family desired k")
    case (RDrift d)
    then show ?thesis by (cases d) simp_all
  qed simp_all
  then show ?thesis
    using after_run_state [OF assms(1,2), of family opts] inputs_mem [OF assms(1,2), of family opts] assms(3,4) by simp
qed

lemma reconcile_settles_witness:
  "key_state demo_digest (ra_backend (snd (reconcile demo_digest nat_str fresh_backend ''prompts'' demo_desired demo_opts)))
     ''prompts'' demo_desired ''p'' = RDrift InSync"
proof -
  have "desired_of demo_desired ''p'' = Some (hd demo_desired)" by code_simp
  moreover have "key_state demo_digest fresh_backend ''prompts'' demo_desired ''p'' = RNew" by code_simp
  moreover have "ro_publishNew demo_opts = None" "ro_autoAdoptStale demo_opts = None" by (simp_all add: demo_opts_def)
  ultimately show ?thesis using reconcile_settles [OF wf_fresh_backend] by simp
qed

text \<open>
  \<^verbatim>\<open>reconcile\<close> never reports a removed default, although its contract is to flag a managed
  default the release no longer ships: it reads only the global rows of the shipped keys, so a dropped
  key has no local row and is classified in sync.
\<close>

theorem reconcile_never_removed:
  assumes "wf_backend dg gen b" "e \<in> set (dr_entries (fst (reconcile dg gen b family desired opts)))"
  shows "de_state e \<noteq> RRemoved \<and> (de_key e \<notin> dd_key ` set desired \<longrightarrow> de_state e = RDrift InSync)"
  using reconcile_entries [OF assms] desired_of_None [of desired "de_key e"]
  by (auto simp: key_state_def local_hash_def classifyDrift_def split: option.splits if_splits)

text \<open>An installation that has a prompt the release dropped: the run reports nothing to review.\<close>

lemma reconcile_never_removed_witness:
  "\<exists>e. dr_entries (fst (reconcile demo_digest nat_str
      (snd (ship demo_digest nat_str (demo_input 1) fresh_backend)) ''prompts'' [] demo_opts)) = [e] \<and>
    de_state e = RDrift InSync"
proof -
  let ?es = "dr_entries (fst (reconcile demo_digest nat_str
      (snd (ship demo_digest nat_str (demo_input 1) fresh_backend)) ''prompts'' [] demo_opts))"
  have "map de_key ?es = [''p'']" by code_simp
  then obtain e where e: "?es = [e]" by auto
  then have "e \<in> set ?es" by simp
  from reconcile_never_removed [OF wf_backend_ship [OF wf_fresh_backend] this] e show ?thesis by simp
qed

text \<open>
  the plan has exactly one entry for each key present on any side, in the order of the keys,
  and its summary counts the entries of each state.
\<close>

theorem plan_complete:
  "map de_key (dr_entries (planReconcile dg cur bas desired)) =
     sorted_list_of_set (set (keys_of cur) \<union> set (keys_of bas) \<union> dd_key ` set desired) \<and>
   dr_summary (planReconcile dg cur bas desired) st =
     length (filter (\<lambda>e. de_state e = st) (dr_entries (planReconcile dg cur bas desired)))"
proof -
  have "foldl (\<lambda>s e. s(de_state e := s (de_state e) + 1)) f es st = f st + length (filter (\<lambda>e. de_state e = st) es)"
    for f :: "reconcile_state \<Rightarrow> nat" and es :: "drift_entry list"
    by (induction es arbitrary: f) auto
  then show ?thesis using plan_keys by (simp add: planReconcile_def Let_def)
qed

end
