(* ===== verification/RealmState.thy ===== *)
theory RealmState
  imports RealmRecord
begin

text \<open>
  The state overlay, \<^verbatim>\<open>packages/realm/src/realm-state.ts\<close>: per tenant, family and key a sparse patch of
  three fields, merged along the lineage with the nearest tenant first.
\<close>

section \<open>The code\<close>

record state_overlay =
  so_enabled :: "bool option"
  so_priority :: "rat option"
  so_pinned :: "rat option"

record state_row = state_overlay +
  sr_id :: string
  sr_tenant :: string
  sr_family :: string
  sr_key :: string
  sr_updatedAt :: string

record resolved_state = state_overlay +
  rsv_enabledBy :: "string option"
  rsv_priorityBy :: "string option"
  rsv_pinnedBy :: "string option"
  rsv_active :: bool

fun pick :: "('r \<Rightarrow> 'a option) \<Rightarrow> (string \<times> 'r) list \<Rightarrow> string list \<Rightarrow> 'a option \<times> string option" where
  "pick field ovs [] = (None, None)"
| "pick field ovs (t # ts) =
     (case Option.bind (map_of ovs t) field of
        Some v \<Rightarrow> (Some v, Some t)
      | None \<Rightarrow> pick field ovs ts)"

definition resolveState :: "realm_ctx \<Rightarrow> (string \<times> 'a state_overlay_scheme) list \<Rightarrow> resolved_state" where
  "resolveState ctx ovs =
     (let nearestFirst = map ln_tenant (rev (rc_lineage ctx));
          enabled = pick so_enabled ovs nearestFirst;
          priority = pick so_priority ovs nearestFirst;
          pinned = pick so_pinned ovs nearestFirst
      in \<lparr>so_enabled = fst enabled, so_priority = fst priority, so_pinned = fst pinned,
          rsv_enabledBy = snd enabled, rsv_priorityBy = snd priority, rsv_pinnedBy = snd pinned,
          rsv_active = (fst enabled \<noteq> Some False)\<rparr>)"

text \<open>The in-memory store: rows by \<^verbatim>\<open>clk\<close>. A patch leaves out a field (\<open>None\<close>) or sets it.\<close>

type_synonym state_store = "(string \<times> state_row) list"

record state_patch =
  sp_enabled :: "bool option option"
  sp_priority :: "rat option option"
  sp_pinned :: "rat option option"

definition clk :: "string \<Rightarrow> string \<Rightarrow> string \<Rightarrow> string" where
  "clk f k t = f @ '' '' @ k @ '' '' @ t"

definition patched :: "'a option option \<Rightarrow> 'a option \<Rightarrow> 'a option" where
  "patched p prev = (case p of Some v \<Rightarrow> v | None \<Rightarrow> prev)"

definition setState ::
  "string \<Rightarrow> string \<Rightarrow> string \<Rightarrow> string \<Rightarrow> string \<Rightarrow> state_patch \<Rightarrow> state_store \<Rightarrow> state_row \<times> state_store" where
  "setState uuid now f k t p st =
     (let key = clk f k t; prev = map_of st key;
          merged = \<lparr>so_enabled = patched (sp_enabled p) (Option.bind prev so_enabled),
                    so_priority = patched (sp_priority p) (Option.bind prev so_priority),
                    so_pinned = patched (sp_pinned p) (Option.bind prev so_pinned),
                    sr_id = nullish (map_option sr_id prev) uuid, sr_tenant = t, sr_family = f, sr_key = k,
                    sr_updatedAt = now\<rparr>
      in if so_enabled merged = None \<and> so_priority merged = None \<and> so_pinned merged = None
         then (merged, AList.delete key st) else (merged, AList.update key merged st))"

definition clearState :: "string \<Rightarrow> string \<Rightarrow> string \<Rightarrow> state_store \<Rightarrow> state_store" where
  "clearState f k t st = AList.delete (clk f k t) st"

definition getOwn :: "state_store \<Rightarrow> string \<Rightarrow> string \<Rightarrow> string \<Rightarrow> state_row option" where
  "getOwn st f k t = map_of st (clk f k t)"

fun overlaysForKey ::
  "state_store \<Rightarrow> string \<Rightarrow> string \<Rightarrow> string list \<Rightarrow> (string \<times> state_row) list \<Rightarrow> (string \<times> state_row) list" where
  "overlaysForKey st f k [] out = out"
| "overlaysForKey st f k (t # ts) out =
     overlaysForKey st f k ts (case map_of st (clk f k t) of None \<Rightarrow> out | Some r \<Rightarrow> AList.update t r out)"

definition listForTenant :: "state_store \<Rightarrow> string \<Rightarrow> string \<Rightarrow> state_row list" where
  "listForTenant st f t = filter (\<lambda>r. sr_family r = f \<and> sr_tenant r = t) (map snd st)"

definition resolveStateFor :: "state_store \<Rightarrow> string \<Rightarrow> string \<Rightarrow> realm_ctx \<Rightarrow> resolved_state" where
  "resolveStateFor st f k ctx =
     (let ids = map ln_tenant (rc_lineage ctx)
      in resolveState ctx (if ids \<noteq> [] then overlaysForKey st f k ids [] else []))"

section \<open>Lemmas\<close>

lemma overlaysForKey_map:
  "map_of (overlaysForKey st f k ts out) t =
   (if t \<in> set ts \<and> getOwn st f k t \<noteq> None then getOwn st f k t else map_of out t)"
  by (induction ts arbitrary: out) (auto simp: getOwn_def split: option.split)

lemma pick_find:
  assumes "\<forall>t\<in>set ts. map_of ovs t = own t"
  shows "pick field ovs ts = (case find (\<lambda>t. Option.bind (own t) field \<noteq> None) ts of
    None \<Rightarrow> (None, None) | Some t \<Rightarrow> (Option.bind (own t) field, Some t))"
  using assms by (induction ts) (auto split: option.split)

lemma clk_inj:
  assumes "CHR '' '' \<notin> set f" "CHR '' '' \<notin> set f'" "CHR '' '' \<notin> set k" "CHR '' '' \<notin> set k'"
  shows "clk f k t = clk f' k' t' \<longleftrightarrow> f = f' \<and> k = k' \<and> t = t'"
  using append_sep_eq [OF assms(1,2), of "k @ '' '' @ t" "k' @ '' '' @ t'"] append_sep_eq [OF assms(3,4), of t t']
  by (auto simp: clk_def)

section \<open>Properties\<close>

text \<open>
  the disposition of a key is decided field by field by the nearest tenant: each field is
  the value of the first tenant on the way from the asking tenant to the root whose own overlay sets
  it, the source names that tenant, and the record is inactive only on an explicit false.
\<close>

theorem resolveState_nearest:
  "resolveStateFor st f k ctx =
   (let up = map ln_tenant (rev (rc_lineage ctx)); own = getOwn st f k;
        decide = (\<lambda>has. find has up)
    in \<lparr>so_enabled = Option.bind (decide (\<lambda>t. Option.bind (own t) so_enabled \<noteq> None)) (\<lambda>t. Option.bind (own t) so_enabled),
        so_priority = Option.bind (decide (\<lambda>t. Option.bind (own t) so_priority \<noteq> None)) (\<lambda>t. Option.bind (own t) so_priority),
        so_pinned = Option.bind (decide (\<lambda>t. Option.bind (own t) so_pinned \<noteq> None)) (\<lambda>t. Option.bind (own t) so_pinned),
        rsv_enabledBy = decide (\<lambda>t. Option.bind (own t) so_enabled \<noteq> None),
        rsv_priorityBy = decide (\<lambda>t. Option.bind (own t) so_priority \<noteq> None),
        rsv_pinnedBy = decide (\<lambda>t. Option.bind (own t) so_pinned \<noteq> None),
        rsv_active = (Option.bind (decide (\<lambda>t. Option.bind (own t) so_enabled \<noteq> None))
          (\<lambda>t. Option.bind (own t) so_enabled) \<noteq> Some False)\<rparr>)"
proof -
  let ?up = "map ln_tenant (rev (rc_lineage ctx))"
  let ?ovs = "if map ln_tenant (rc_lineage ctx) \<noteq> [] then overlaysForKey st f k (map ln_tenant (rc_lineage ctx)) [] else []"
  have own: "\<forall>t\<in>set ?up. map_of ?ovs t = getOwn st f k t"
    by (auto simp: overlaysForKey_map)
  have pick: "pick field ?ovs ?up = (Option.bind (find (\<lambda>t. Option.bind (getOwn st f k t) field \<noteq> None) ?up)
      (\<lambda>t. Option.bind (getOwn st f k t) field), find (\<lambda>t. Option.bind (getOwn st f k t) field \<noteq> None) ?up)"
    for field :: "state_row \<Rightarrow> 'b option"
    unfolding pick_find [OF own] by (auto split: option.split)
  show ?thesis unfolding resolveStateFor_def resolveState_def Let_def pick by simp
qed

text \<open>
  writing an overlay changes that tenant's own overlay of that key only, field by field,
  and an overlay with nothing set disappears, for family and key names without spaces.
\<close>

theorem setState_getOwn:
  assumes "CHR '' '' \<notin> set f" "CHR '' '' \<notin> set f'" "CHR '' '' \<notin> set k" "CHR '' '' \<notin> set k'"
  shows "getOwn (snd (setState uuid now f k t p st)) f' k' t' =
    (if (f', k', t') = (f, k, t)
     then (let m = fst (setState uuid now f k t p st) in
           if so_enabled m = None \<and> so_priority m = None \<and> so_pinned m = None then None else Some m)
     else getOwn st f' k' t')"
  using clk_inj [OF assms, of t t'] by (auto simp: setState_def getOwn_def Let_def)

definition disable_patch :: state_patch where
  "disable_patch = \<lparr>sp_enabled = Some (Some False), sp_priority = None, sp_pinned = None\<rparr>"

lemma setState_getOwn_witness:
  "getOwn (snd (setState ''1'' ''now'' ''prompts'' ''p'' ''acme'' disable_patch [])) ''prompts'' ''q'' ''acme'' = None"
proof -
  have "getOwn (snd (setState ''1'' ''now'' ''prompts'' ''p'' ''acme'' disable_patch [])) ''prompts'' ''q'' ''acme'' =
      getOwn [] ''prompts'' ''q'' ''acme''"
    by (subst setState_getOwn) simp_all
  then show ?thesis by (simp add: getOwn_def)
qed

text \<open>
  the composite key of the store joins its parts with spaces, so names that contain spaces
  collide: disabling key \<^verbatim>\<open>c\<close> of family \<^verbatim>\<open>a b\<close> disables key \<^verbatim>\<open>b c\<close> of family \<^verbatim>\<open>a\<close>.
\<close>

theorem clk_collision:
  "rsv_active (resolveStateFor (snd (setState uuid now ''a b'' ''c'' t disable_patch [])) ''a'' ''b c''
     \<lparr>rc_tenant = Some t, rc_depth = 0, rc_lineage = [\<lparr>ln_tenant = t, ln_depth = 0\<rparr>]\<rparr>) = False"
  by (simp add: resolveStateFor_def resolveState_def setState_def clk_def disable_patch_def patched_def Let_def)

end
