(* ===== verification/HierarchyPath.thy ===== *)
theory HierarchyPath
  imports Prelude "HOL-Library.Sublist"
begin

text \<open>
  Materialized paths, \<^verbatim>\<open>packages/identity/src/tenancy/hierarchy-path.ts\<close>: the lineage of a tenant
  as a string \<^verbatim>\<open>/acme/emea/uk/\<close>. The functions work on strings, by splitting, prefix tests and
  slices; the lemmas show that on the path of a list of ids they compute the tree operations on
  that list.
\<close>

section \<open>The code\<close>

datatype tenant_error =
    InvalidTenantId string
  | MalformedPath string
  | PathOutside string string
  | NoSuchTenant string
  | DuplicateTenant string
  | TenantCycle string string
  | TenantHasChildren string

definition PATH_SEPARATOR :: char where
  "PATH_SEPARATOR = CHR ''/''"

definition usableTenantId :: "string \<Rightarrow> bool" where
  "usableTenantId i \<longleftrightarrow> i \<noteq> [] \<and> PATH_SEPARATOR \<notin> set i"

definition buildPath :: "string option \<Rightarrow> string \<Rightarrow> tenant_error + string" where
  "buildPath parentPath i =
     (if \<not> usableTenantId i then Inl (InvalidTenantId i)
      else case parentPath of
          None \<Rightarrow> Inr (PATH_SEPARATOR # i @ [PATH_SEPARATOR])
        | Some p \<Rightarrow>
            if p = [] then Inr (PATH_SEPARATOR # i @ [PATH_SEPARATOR])
            else if hd p \<noteq> PATH_SEPARATOR \<or> last p \<noteq> PATH_SEPARATOR then Inl (MalformedPath p)
            else Inr (p @ i @ [PATH_SEPARATOR]))"

text \<open>\<^verbatim>\<open>path.split('/')\<close>.\<close>

fun split_path :: "string \<Rightarrow> string list" where
  "split_path [] = [[]]"
| "split_path (c # cs) =
     (if c = PATH_SEPARATOR then [] # split_path cs
      else (c # hd (split_path cs)) # tl (split_path cs))"

definition segmentsOf :: "string \<Rightarrow> string list" where
  "segmentsOf p = filter (\<lambda>s. length s > 0) (split_path p)"

definition depthOf :: "string \<Rightarrow> nat" where
  "depthOf p = length (segmentsOf p) - 1"

definition idOf :: "string \<Rightarrow> string" where
  "idOf p = (if segmentsOf p = [] then [] else last (segmentsOf p))"

fun join_path :: "string list \<Rightarrow> string" where
  "join_path [] = []"
| "join_path [s] = s"
| "join_path (s # ss) = s @ PATH_SEPARATOR # join_path ss"

definition parentPathOf :: "string \<Rightarrow> string option" where
  "parentPathOf p =
     (let segs = segmentsOf p in
      if length segs \<le> 1 then None
      else Some (PATH_SEPARATOR # join_path (butlast segs) @ [PATH_SEPARATOR]))"

fun ancestor_loop :: "string list \<Rightarrow> string \<Rightarrow> string list" where
  "ancestor_loop [] acc = []"
| "ancestor_loop (s # ss) acc = (acc @ s @ [PATH_SEPARATOR]) # ancestor_loop ss (acc @ s @ [PATH_SEPARATOR])"

definition ancestorPaths :: "string \<Rightarrow> string list" where
  "ancestorPaths p = ancestor_loop (butlast (segmentsOf p)) [PATH_SEPARATOR]"

definition ancestorIds :: "string \<Rightarrow> string list" where
  "ancestorIds p = butlast (segmentsOf p)"

definition isStrictAncestor :: "string \<Rightarrow> string \<Rightarrow> bool" where
  "isStrictAncestor a p \<longleftrightarrow> length p > length a \<and> take (length a) p = a"

definition wouldCreateCycle :: "string \<Rightarrow> string option \<Rightarrow> bool" where
  "wouldCreateCycle moving newParent =
     (case newParent of
        None \<Rightarrow> False
      | Some q \<Rightarrow> q \<noteq> [] \<and> (q = moving \<or> isStrictAncestor moving q))"

definition rebasePath :: "string \<Rightarrow> string \<Rightarrow> string \<Rightarrow> tenant_error + string" where
  "rebasePath old new p =
     (if p \<noteq> old \<and> \<not> isStrictAncestor old p then Inl (PathOutside p old)
      else Inr (new @ drop (length old) p))"

definition depthDelta :: "string \<Rightarrow> string \<Rightarrow> int" where
  "depthDelta old new = int (depthOf new) - int (depthOf old)"

definition escapeLikePrefix :: "string \<Rightarrow> string" where
  "escapeLikePrefix p = concat (map (\<lambda>c. if c \<in> set [CHR 0x5C, CHR ''%'', CHR ''_''] then [CHR 0x5C, c] else [c]) p)"

section \<open>The path of a list of ids\<close>

definition path_of :: "string list \<Rightarrow> string" where
  "path_of ss = PATH_SEPARATOR # concat (map (\<lambda>s. s @ [PATH_SEPARATOR]) ss)"

named_theorems path_simps \<open>the string functions on the path of a list of ids\<close>

lemma path_of_append: "path_of (a @ r) = path_of a @ concat (map (\<lambda>s. s @ [PATH_SEPARATOR]) r)"
  by (simp add: path_of_def)

lemma path_of_nonempty [simp]: "path_of ss \<noteq> []" "hd (path_of ss) = PATH_SEPARATOR" "last (path_of ss) = PATH_SEPARATOR"
  by (simp add: path_of_def, simp add: path_of_def, induction ss rule: rev_induct) (simp_all add: path_of_def)

lemma split_path_nonempty [simp]: "split_path p \<noteq> []"
  by (cases p) simp_all

lemma split_path_segment:
  "PATH_SEPARATOR \<notin> set s \<Longrightarrow> split_path (s @ PATH_SEPARATOR # r) = s # split_path r"
  by (induction s) auto

lemma segmentsOf_path_of [path_simps]:
  assumes "\<forall>s\<in>set ss. usableTenantId s"
  shows "segmentsOf (path_of ss) = ss"
proof -
  have "filter (\<lambda>s. length s > 0) (split_path (concat (map (\<lambda>s. s @ [PATH_SEPARATOR]) ss))) = ss"
    using assms by (induction ss) (auto simp: split_path_segment usableTenantId_def)
  then show ?thesis by (simp add: segmentsOf_def path_of_def)
qed

lemma path_of_inj:
  "\<forall>s\<in>set a. usableTenantId s \<Longrightarrow> \<forall>s\<in>set b. usableTenantId s \<Longrightarrow> path_of a = path_of b \<longleftrightarrow> a = b"
  using segmentsOf_path_of by metis

lemma buildPath_root [path_simps]: "usableTenantId i \<Longrightarrow> buildPath None i = Inr (path_of [i])"
  by (simp add: buildPath_def path_of_def)

lemma buildPath_child [path_simps]: "usableTenantId i \<Longrightarrow> buildPath (Some (path_of ss)) i = Inr (path_of (ss @ [i]))"
  by (simp add: buildPath_def path_of_append)

lemma depthOf_path_of [path_simps]: "\<forall>s\<in>set ss. usableTenantId s \<Longrightarrow> depthOf (path_of ss) = length ss - 1"
  by (simp add: depthOf_def segmentsOf_path_of)

lemma idOf_path_of [path_simps]: "\<forall>s\<in>set ss. usableTenantId s \<Longrightarrow> usableTenantId i \<Longrightarrow> idOf (path_of (ss @ [i])) = i"
  by (simp add: idOf_def segmentsOf_path_of)

lemma ancestorIds_path_of [path_simps]: "\<forall>s\<in>set ss. usableTenantId s \<Longrightarrow> ancestorIds (path_of ss) = butlast ss"
  by (simp add: ancestorIds_def segmentsOf_path_of)

lemma join_path_of: "ss \<noteq> [] \<Longrightarrow> join_path ss @ [PATH_SEPARATOR] = concat (map (\<lambda>s. s @ [PATH_SEPARATOR]) ss)"
  by (induction ss rule: join_path.induct) auto

lemma parentPathOf_path_of [path_simps]:
  assumes "\<forall>s\<in>set ss. usableTenantId s"
  shows "parentPathOf (path_of ss) = (if length ss \<le> 1 then None else Some (path_of (butlast ss)))"
proof (cases "length ss \<le> 1")
  case False
  then have "butlast ss \<noteq> []" by (cases ss rule: rev_cases) auto
  from join_path_of [OF this] False show ?thesis
    unfolding parentPathOf_def segmentsOf_path_of [OF assms] by (simp add: path_of_def)
qed (simp add: parentPathOf_def segmentsOf_path_of [OF assms])

lemma ancestor_loop_eq:
  "ancestor_loop ss (path_of a) = map (\<lambda>n. path_of (a @ take (Suc n) ss)) [0..<length ss]"
proof (induction ss arbitrary: a)
  case (Cons s ss)
  have "ancestor_loop ss (path_of (a @ [s])) = map (\<lambda>n. path_of (a @ take (Suc n) (s # ss))) [1..<Suc (length ss)]"
    unfolding Cons.IH map_Suc_upt [symmetric] One_nat_def by (simp add: comp_def)
  then show ?case by (simp add: path_of_append upt_conv_Cons del: upt_Suc)
qed simp

lemma ancestorPaths_path_of [path_simps]:
  assumes "\<forall>s\<in>set ss. usableTenantId s"
  shows "ancestorPaths (path_of ss) = map (\<lambda>n. path_of (take (Suc n) ss)) [0..<length ss - 1]"
proof -
  have "ancestorPaths (path_of ss) = ancestor_loop (butlast ss) (path_of [])"
    unfolding ancestorPaths_def segmentsOf_path_of [OF assms] by (simp add: path_of_def)
  also have "\<dots> = map (\<lambda>n. path_of (take (Suc n) ss)) [0..<length ss - 1]"
    unfolding ancestor_loop_eq by (auto simp: take_butlast)
  finally show ?thesis .
qed

lemma prefix_segments:
  assumes "\<forall>s\<in>set a. usableTenantId s" "\<forall>s\<in>set b. usableTenantId s"
  shows "prefix (path_of a) (path_of b) \<longleftrightarrow> prefix a b"
proof -
  have "prefix (concat (map (\<lambda>s. s @ [PATH_SEPARATOR]) a)) (concat (map (\<lambda>s. s @ [PATH_SEPARATOR]) b)) \<longleftrightarrow> prefix a b"
    using assms
  proof (induction a arbitrary: b)
    case (Cons x a)
    show ?case
    proof (cases b)
      case Nil
      then show ?thesis by simp
    next
      case (Cons y b')
      have sep: "PATH_SEPARATOR \<notin> set x" "PATH_SEPARATOR \<notin> set y"
        using Cons.prems Cons by (auto simp: usableTenantId_def)
      have "prefix (x @ PATH_SEPARATOR # u) (y @ PATH_SEPARATOR # v) \<longleftrightarrow> x = y \<and> prefix u v" for u v
      proof -
        have "x @ PATH_SEPARATOR # u @ w = y @ PATH_SEPARATOR # v \<longleftrightarrow> x = y \<and> u @ w = v" for w
          by (rule append_sep_eq [OF sep])
        then show ?thesis unfolding prefix_def by (metis append.assoc append_Cons)
      qed
      with Cons.IH [of b'] Cons.prems Cons show ?thesis by simp
    qed
  qed simp
  then show ?thesis by (simp add: path_of_def)
qed

lemma isStrictAncestor_prefix: "isStrictAncestor a p \<longleftrightarrow> strict_prefix a p"
  unfolding isStrictAncestor_def strict_prefix_def prefix_def
  by (metis append_eq_conv_conj append_take_drop_id length_append less_add_same_cancel1 length_greater_0_conv append_Nil2
      nat_less_le take_all_iff linorder_not_le)

lemma isStrictAncestor_path_of [path_simps]:
  "\<forall>s\<in>set a. usableTenantId s \<Longrightarrow> \<forall>s\<in>set b. usableTenantId s \<Longrightarrow>
   isStrictAncestor (path_of a) (path_of b) \<longleftrightarrow> strict_prefix a b"
  by (simp add: isStrictAncestor_prefix strict_prefix_def prefix_segments path_of_inj)

lemma rebasePath_path_of [path_simps]: "rebasePath (path_of a) (path_of n) (path_of (a @ r)) = Inr (path_of (n @ r))"
proof -
  have "path_of (a @ r) = path_of a \<or> isStrictAncestor (path_of a) (path_of (a @ r))"
    by (auto simp: isStrictAncestor_def path_of_append)
  then show ?thesis by (auto simp: rebasePath_def path_of_append)
qed

text \<open>Unescaping recovers the prefix, so the escaped pattern matches it and nothing else literally.\<close>

fun unescape :: "string \<Rightarrow> string" where
  "unescape (a # c # cs) = (if a = CHR 0x5C then c # unescape cs else a # unescape (c # cs))"
| "unescape cs = cs"

lemma unescape_escape: "unescape (escapeLikePrefix p) = p"
proof (induction p)
  case (Cons c p)
  show ?case
  proof (cases "c \<in> set [CHR 0x5C, CHR ''%'', CHR ''_'']")
    case True
    with Cons show ?thesis by (auto simp: escapeLikePrefix_def)
  next
    case False
    have "unescape (c # escapeLikePrefix p) = c # unescape (escapeLikePrefix p)"
      using False by (cases "escapeLikePrefix p") auto
    with False Cons show ?thesis by (simp add: escapeLikePrefix_def)
  qed
qed (simp add: escapeLikePrefix_def)

end
