(* ===== verification/TenantHierarchy.thy ===== *)
theory TenantHierarchy
  imports HierarchyPath Json "HOL-Library.Product_Lexorder" "HOL-Library.Multiset"
begin

text \<open>
  The in-memory tenant hierarchy, \<^verbatim>\<open>packages/identity/src/tenancy/tenant-hierarchy.ts\<close>: the store
  keeps for each tenant its parent and its materialized path. The specification is the lineage that
  the parent pointers give; the invariant says the path spells it out.
\<close>

section \<open>The code\<close>

record tenant =
  tn_id :: string
  tn_name :: string
  tn_parent :: "string option"
  tn_path :: string
  tn_depth :: nat
  tn_status :: string
  tn_metadata :: payload
  tn_createdAt :: int
  tn_updatedAt :: int

record create_tenant_input =
  ct_id :: "string option"
  ct_name :: string
  ct_parent :: "string option"
  ct_status :: "string option"
  ct_metadata :: "payload option"

record subtree_options =
  so_maxDepth :: "int option"
  so_statuses :: "string list option"

type_synonym tenant_map = "(string \<times> tenant) list"

record hierarchy =
  hi_tenants :: tenant_map
  hi_last :: int

definition createInMemoryTenantHierarchy :: hierarchy where
  "createInMemoryTenantHierarchy = \<lparr>hi_tenants = [], hi_last = 0\<rparr>"

definition hierarchyClock :: "int \<Rightarrow> hierarchy \<Rightarrow> int \<times> hierarchy" where
  "hierarchyClock date h = (let t = max date (hi_last h + 1) in (t, h\<lparr>hi_last := t\<rparr>))"

definition set_tenant :: "tenant \<Rightarrow> hierarchy \<Rightarrow> hierarchy" where
  "set_tenant t h = h\<lparr>hi_tenants := AList.update (tn_id t) t (hi_tenants h)\<rparr>"

definition requireTenant :: "hierarchy \<Rightarrow> string \<Rightarrow> tenant_error + tenant" where
  "requireTenant h i = (case map_of (hi_tenants h) i of None \<Rightarrow> Inl (NoSuchTenant i) | Some t \<Rightarrow> Inr t)"

definition sortTenants :: "tenant list \<Rightarrow> tenant list" where
  "sortTenants ts = sort_key (\<lambda>t. (tn_depth t, tn_path t)) ts"

abbreviation tenants_of :: "hierarchy \<Rightarrow> tenant list" where
  "tenants_of h \<equiv> map snd (hi_tenants h)"

definition createTenant :: "string \<Rightarrow> int \<Rightarrow> create_tenant_input \<Rightarrow> hierarchy \<Rightarrow> (tenant_error + tenant) \<times> hierarchy" where
  "createTenant uuid date inp h =
     (let i = nullish (ct_id inp) uuid in
      if \<not> usableTenantId i then (Inl (InvalidTenantId i), h)
      else if map_of (hi_tenants h) i \<noteq> None then (Inl (DuplicateTenant i), h)
      else case (case ct_parent inp of None \<Rightarrow> Inr None | Some p \<Rightarrow> map_sum id Some (requireTenant h p)) of
          Inl e \<Rightarrow> (Inl e, h)
        | Inr parent \<Rightarrow>
            (case buildPath (map_option tn_path parent) i of
               Inl e \<Rightarrow> (Inl e, h)
             | Inr p \<Rightarrow>
                 (let (ts, h') = hierarchyClock date h;
                      t = \<lparr>tn_id = i, tn_name = ct_name inp, tn_parent = ct_parent inp, tn_path = p,
                           tn_depth = depthOf p, tn_status = nullish (ct_status inp) ''active'',
                           tn_metadata = nullish (ct_metadata inp) [], tn_createdAt = ts, tn_updatedAt = ts\<rparr>
                  in (Inr t, set_tenant t h'))))"

definition getTenant :: "hierarchy \<Rightarrow> string \<Rightarrow> tenant option" where
  "getTenant h i = map_of (hi_tenants h) i"

definition getByPath :: "hierarchy \<Rightarrow> string \<Rightarrow> tenant option" where
  "getByPath h p = find (\<lambda>t. tn_path t = p) (tenants_of h)"

definition rootTenants :: "hierarchy \<Rightarrow> tenant list" where
  "rootTenants h = sortTenants (filter (\<lambda>t. tn_parent t = None) (tenants_of h))"

definition childTenants :: "hierarchy \<Rightarrow> string \<Rightarrow> tenant_error + tenant list" where
  "childTenants h i =
     map_sum id (\<lambda>_. sortTenants (filter (\<lambda>t. tn_parent t = Some i) (tenants_of h))) (requireTenant h i)"

definition ancestorTenants :: "hierarchy \<Rightarrow> string \<Rightarrow> tenant_error + tenant list" where
  "ancestorTenants h i =
     map_sum id (\<lambda>t. let ps = set (ancestorPaths (tn_path t)) in
       sortTenants (filter (\<lambda>x. tn_path x \<in> ps) (tenants_of h))) (requireTenant h i)"

definition selected :: "subtree_options \<Rightarrow> tenant \<Rightarrow> tenant \<Rightarrow> bool" where
  "selected opts t x \<longleftrightarrow>
     (case so_maxDepth opts of None \<Rightarrow> True | Some d \<Rightarrow> int (tn_depth x) - int (tn_depth t) \<le> d) \<and>
     (case so_statuses opts of None \<Rightarrow> True | Some sts \<Rightarrow> tn_status x \<in> set sts)"

definition descendantTenants :: "hierarchy \<Rightarrow> string \<Rightarrow> subtree_options \<Rightarrow> tenant_error + tenant list" where
  "descendantTenants h i opts =
     map_sum id (\<lambda>t. sortTenants (filter (\<lambda>x. isStrictAncestor (tn_path t) (tn_path x) \<and> selected opts t x) (tenants_of h)))
       (requireTenant h i)"

definition in_subtree :: "string \<Rightarrow> tenant \<Rightarrow> bool" where
  "in_subtree top_path x \<longleftrightarrow> tn_path x = top_path \<or> isStrictAncestor top_path (tn_path x)"

definition subtreeTenants :: "hierarchy \<Rightarrow> string \<Rightarrow> subtree_options \<Rightarrow> tenant_error + tenant list" where
  "subtreeTenants h i opts =
     map_sum id (\<lambda>t. sortTenants (filter (\<lambda>x. in_subtree (tn_path t) x \<and> selected opts t x) (tenants_of h)))
       (requireTenant h i)"

text \<open>The loop of \<^verbatim>\<open>reparent\<close> over a snapshot of the nodes; a failing rebase leaves what was already moved.\<close>

fun move_each ::
  "string \<Rightarrow> string option \<Rightarrow> string \<Rightarrow> string \<Rightarrow> int \<Rightarrow> tenant list \<Rightarrow> hierarchy \<Rightarrow> tenant_error option \<times> hierarchy" where
  "move_each i newParent old new ts [] h = (None, h)"
| "move_each i newParent old new ts (n # ns) h =
     (if in_subtree old n then
        case rebasePath old new (tn_path n) of
          Inl e \<Rightarrow> (Some e, h)
        | Inr p \<Rightarrow>
            move_each i newParent old new ts ns
              (set_tenant (n\<lparr>tn_path := p, tn_depth := depthOf p,
                 tn_parent := if tn_id n = i then newParent else tn_parent n, tn_updatedAt := ts\<rparr>) h)
      else move_each i newParent old new ts ns h)"

definition reparent :: "int \<Rightarrow> string \<Rightarrow> string option \<Rightarrow> hierarchy \<Rightarrow> (tenant_error + tenant) \<times> hierarchy" where
  "reparent date i newParentId h =
     (case requireTenant h i of
        Inl e \<Rightarrow> (Inl e, h)
      | Inr t \<Rightarrow>
          (case (case newParentId of None \<Rightarrow> Inr None | Some p \<Rightarrow> map_sum id Some (requireTenant h p)) of
             Inl e \<Rightarrow> (Inl e, h)
           | Inr newParent \<Rightarrow>
               if wouldCreateCycle (tn_path t) (map_option tn_path newParent)
               then (Inl (TenantCycle i (the newParentId)), h)
               else (case buildPath (map_option tn_path newParent) i of
                       Inl e \<Rightarrow> (Inl e, h)
                     | Inr new \<Rightarrow>
                         (let (ts, h1) = hierarchyClock date h;
                              (err, h2) = move_each i newParentId (tn_path t) new ts (tenants_of h) h1
                          in (case err of Some e \<Rightarrow> Inl e | None \<Rightarrow> requireTenant h2 i, h2)))))"

definition update_tenant ::
  "int \<Rightarrow> string \<Rightarrow> (tenant \<Rightarrow> tenant) \<Rightarrow> hierarchy \<Rightarrow> (tenant_error + tenant) \<times> hierarchy" where
  "update_tenant date i f h =
     (case requireTenant h i of
        Inl e \<Rightarrow> (Inl e, h)
      | Inr t \<Rightarrow>
          (let (ts, h') = hierarchyClock date h; u = (f t)\<lparr>tn_updatedAt := ts\<rparr>
           in (Inr u, h'\<lparr>hi_tenants := AList.update i u (hi_tenants h')\<rparr>)))"

definition renameTenant :: "int \<Rightarrow> string \<Rightarrow> string \<Rightarrow> hierarchy \<Rightarrow> (tenant_error + tenant) \<times> hierarchy" where
  "renameTenant date i nm = update_tenant date i (tn_name_update (\<lambda>_. nm))"

definition setTenantStatus :: "int \<Rightarrow> string \<Rightarrow> string \<Rightarrow> hierarchy \<Rightarrow> (tenant_error + tenant) \<times> hierarchy" where
  "setTenantStatus date i st = update_tenant date i (tn_status_update (\<lambda>_. st))"

definition setTenantMetadata :: "int \<Rightarrow> string \<Rightarrow> payload \<Rightarrow> hierarchy \<Rightarrow> (tenant_error + tenant) \<times> hierarchy" where
  "setTenantMetadata date i md = update_tenant date i (tn_metadata_update (\<lambda>old. spread old md))"

fun delete_each :: "string \<Rightarrow> tenant list \<Rightarrow> tenant_map \<Rightarrow> tenant_map" where
  "delete_each top_path [] ts = ts"
| "delete_each top_path (n # ns) ts =
     delete_each top_path ns (if in_subtree top_path n then AList.delete (tn_id n) ts else ts)"

definition deleteTenant :: "string \<Rightarrow> bool \<Rightarrow> hierarchy \<Rightarrow> tenant_error option \<times> hierarchy" where
  "deleteTenant i cascade h =
     (case requireTenant h i of
        Inl e \<Rightarrow> (Some e, h)
      | Inr t \<Rightarrow>
          if filter (\<lambda>x. tn_parent x = Some i) (tenants_of h) \<noteq> [] \<and> \<not> cascade then (Some (TenantHasChildren i), h)
          else (None, h\<lparr>hi_tenants := delete_each (tn_path t) (tenants_of h) (hi_tenants h)\<rparr>))"

definition countTenants :: "hierarchy \<Rightarrow> nat" where
  "countTenants h = length (hi_tenants h)"

definition ensureDefault ::
  "string \<Rightarrow> int \<Rightarrow> string option \<Rightarrow> string option \<Rightarrow> hierarchy \<Rightarrow> (tenant_error + tenant) \<times> hierarchy" where
  "ensureDefault uuid date i nm h =
     (let i' = nullish i ''default'' in
      case map_of (hi_tenants h) i' of
        Some t \<Rightarrow> (Inr t, h)
      | None \<Rightarrow> createTenant uuid date
          \<lparr>ct_id = Some i', ct_name = nullish nm ''Default'', ct_parent = None, ct_status = None, ct_metadata = None\<rparr> h)"

section \<open>Histories\<close>

datatype tenant_op =
    TCreate string create_tenant_input
  | TReparent string "string option"
  | TRename string string
  | TStatus string string
  | TMetadata string payload
  | TDelete string bool
  | TEnsureDefault string "string option" "string option"

fun exec_tenant :: "int \<Rightarrow> tenant_op \<Rightarrow> hierarchy \<Rightarrow> hierarchy" where
  "exec_tenant date (TCreate uuid inp) h = snd (createTenant uuid date inp h)"
| "exec_tenant date (TReparent i p) h = snd (reparent date i p h)"
| "exec_tenant date (TRename i nm) h = snd (renameTenant date i nm h)"
| "exec_tenant date (TStatus i st) h = snd (setTenantStatus date i st h)"
| "exec_tenant date (TMetadata i md) h = snd (setTenantMetadata date i md h)"
| "exec_tenant date (TDelete i cascade) h = snd (deleteTenant i cascade h)"
| "exec_tenant date (TEnsureDefault uuid i nm) h = snd (ensureDefault uuid date i nm h)"

definition tenant_history :: "(int \<times> tenant_op) list \<Rightarrow> hierarchy" where
  "tenant_history ops = fold (\<lambda>(date, op). exec_tenant date op) ops createInMemoryTenantHierarchy"

end
