(* ===== verification/TenantLineage.thy ===== *)
theory TenantLineage
  imports TenantHierarchy
begin

text \<open>
  The tree a tenant hierarchy stands for: the lineage of a tenant, read off the parent pointers, and
  the invariant that the stored path and depth agree with it. Every operation keeps the invariant;
  \<^verbatim>\<open>reparent\<close> splices the lineage of the new parent in front of the moved subtree.
\<close>

section \<open>Lineage\<close>

inductive lineage :: "tenant_map \<Rightarrow> string \<Rightarrow> string list \<Rightarrow> bool" for m where
  lineage_root: "map_of m i = Some t \<Longrightarrow> tn_parent t = None \<Longrightarrow> lineage m i [i]"
| lineage_child: "map_of m i = Some t \<Longrightarrow> tn_parent t = Some p \<Longrightarrow> lineage m p ss \<Longrightarrow> lineage m i (ss @ [i])"

inductive_cases lineageE: "lineage m i ss"

lemma lineage_snoc: "lineage m i ss \<Longrightarrow> \<exists>a. ss = a @ [i]"
  by (erule lineageE) auto

lemma lineage_nonempty: "lineage m i ss \<Longrightarrow> ss \<noteq> []"
  by (auto dest: lineage_snoc)

lemma lineage_unique: "lineage m i ss \<Longrightarrow> lineage m i ss' \<Longrightarrow> ss = ss'"
proof (induction arbitrary: ss' rule: lineage.induct)
  case (lineage_root i t)
  from lineage_root(3,1,2) show ?case by (cases rule: lineage.cases) auto
next
  case (lineage_child i t p ss)
  from lineage_child(5,1,2,4) show ?case by (cases rule: lineage.cases) auto
qed

lemma lineage_stored: "lineage m i ss \<Longrightarrow> x \<in> set ss \<Longrightarrow> map_of m x \<noteq> None"
  by (induction rule: lineage.induct) auto

lemma lineage_upto: "lineage m i ss \<Longrightarrow> ss = a @ x # b \<Longrightarrow> lineage m x (a @ [x])"
proof (induction arbitrary: b rule: lineage.induct)
  case (lineage_root i t)
  then show ?case by (auto simp: Cons_eq_append_conv intro: lineage.lineage_root)
next
  case (lineage_child i t p ss)
  show ?case
  proof (cases b rule: rev_cases)
    case Nil
    with lineage_child show ?thesis by (auto intro: lineage.lineage_child)
  next
    case (snoc b' z)
    with lineage_child.prems have "ss = a @ x # b'" by simp
    then show ?thesis by (rule lineage_child.IH)
  qed
qed

lemma lineage_distinct: "lineage m i ss \<Longrightarrow> distinct ss"
proof (rule ccontr)
  assume l: "lineage m i ss" and "\<not> distinct ss"
  then obtain a b c x where ss: "ss = a @ x # b @ x # c" by (metis not_distinct_decomp append_Cons append_Nil append_assoc)
  with l have "lineage m x (a @ [x])" "lineage m x ((a @ x # b) @ [x])"
    using lineage_upto [OF l, of a x "b @ x # c"] lineage_upto [OF l, of "a @ x # b" x c] by simp_all
  from lineage_unique [OF this] show False by simp
qed

lemma lineage_parent: "lineage m i ss \<Longrightarrow> map_of m i = Some t \<Longrightarrow>
    (case tn_parent t of None \<Rightarrow> ss = [i] | Some p \<Rightarrow> \<exists>ps. lineage m p ps \<and> ss = ps @ [i])"
  by (erule lineageE) auto

lemma lineage_frame:
  assumes "lineage m i ss" "\<And>x. x \<in> set ss \<Longrightarrow> map_option tn_parent (map_of m' x) = map_option tn_parent (map_of m x)"
  shows "lineage m' i ss"
  using assms
proof (induction rule: lineage.induct)
  case (lineage_root i t)
  then obtain u where "map_of m' i = Some u" "tn_parent u = None" by (auto simp: map_option_eq_Some)
  then show ?case by (rule lineage.lineage_root)
next
  case (lineage_child i t p ss)
  then have "map_option tn_parent (map_of m' i) = Some (Some p)" by simp
  then obtain u where "map_of m' i = Some u" "tn_parent u = Some p" by (auto simp: map_option_eq_Some)
  moreover have "lineage m' p ss" using lineage_child by auto
  ultimately show ?case by (rule lineage.lineage_child)
qed

section \<open>The invariant\<close>

definition placed :: "tenant_map \<Rightarrow> string \<Rightarrow> tenant \<Rightarrow> bool" where
  "placed m i t \<longleftrightarrow> tn_id t = i \<and> usableTenantId i \<and>
     (\<exists>ss. lineage m i ss \<and> tn_path t = path_of ss \<and> tn_depth t = length ss - 1)"

definition wf_tenants :: "tenant_map \<Rightarrow> bool" where
  "wf_tenants m \<longleftrightarrow> wf_map m \<and> (\<forall>i t. map_of m i = Some t \<longrightarrow> placed m i t)"

lemma wf_tenants_id: "wf_tenants m \<Longrightarrow> map_of m i = Some t \<Longrightarrow> tn_id t = i"
  by (auto simp: wf_tenants_def placed_def)

lemma lineage_usable: "wf_tenants m \<Longrightarrow> lineage m i ss \<Longrightarrow> \<forall>s\<in>set ss. usableTenantId s"
  using lineage_stored by (fastforce simp: wf_tenants_def placed_def)

lemma wf_tenants_lineage:
  assumes "wf_tenants m" "map_of m i = Some t"
  obtains ss where "lineage m i ss" "tn_path t = path_of ss" "tn_depth t = length ss - 1" "\<forall>s\<in>set ss. usableTenantId s"
  using assms lineage_usable unfolding wf_tenants_def placed_def by blast

lemma wf_tenants_path:
  assumes "wf_tenants m" "map_of m i = Some t" "lineage m i ss"
  shows "tn_path t = path_of ss" "tn_depth t = length ss - 1"
  using assms(1,2) by (rule wf_tenants_lineage, use lineage_unique [OF assms(3)] in blast)+

lemma wf_tenants_values: "wf_tenants m \<Longrightarrow> t \<in> set (map snd m) \<longleftrightarrow> map_of m (tn_id t) = Some t"
proof
  assume wf: "wf_tenants m" and "t \<in> set (map snd m)"
  then obtain i where i: "(i, t) \<in> set m" by auto
  then have "map_of m i = Some t" using wf by (simp add: wf_tenants_def)
  with wf_tenants_id [OF wf] show "map_of m (tn_id t) = Some t" by metis
qed (force dest: map_of_SomeD)

lemma wf_tenants_ids: "wf_tenants m \<Longrightarrow> map tn_id (map snd m) = keys_of m"
  by (auto simp: wf_tenants_def placed_def)

lemma in_subtree_iff:
  assumes "wf_tenants m" "map_of m i = Some t" "lineage m i a" "map_of m j = Some u" "lineage m j b"
  shows "in_subtree (tn_path t) u \<longleftrightarrow> prefix a b" "isStrictAncestor (tn_path t) (tn_path u) \<longleftrightarrow> strict_prefix a b"
proof -
  note ok = lineage_usable [OF assms(1,3)] lineage_usable [OF assms(1,5)]
  note p = wf_tenants_path(1) [OF assms(1,2,3)] wf_tenants_path(1) [OF assms(1,4,5)]
  show strict: "isStrictAncestor (tn_path t) (tn_path u) \<longleftrightarrow> strict_prefix a b"
    unfolding p by (rule isStrictAncestor_path_of [OF ok])
  have "tn_path u = tn_path t \<longleftrightarrow> b = a" unfolding p by (rule path_of_inj [OF ok(2,1)])
  with strict have "in_subtree (tn_path t) u \<longleftrightarrow> b = a \<or> strict_prefix a b" by (simp only: in_subtree_def)
  then show "in_subtree (tn_path t) u \<longleftrightarrow> prefix a b"
    by (simp only: strict_prefix_def) auto
qed

text \<open>A tenant is below another one exactly when that one is on its lineage.\<close>

lemma lineage_prefix_iff:
  assumes "lineage m i a" "lineage m j b"
  shows "prefix a b \<longleftrightarrow> i \<in> set b" "strict_prefix a b \<longleftrightarrow> i \<in> set (butlast b)"
proof -
  obtain a' where a: "a = a' @ [i]" using lineage_snoc [OF assms(1)] by auto
  obtain b' where b: "b = b' @ [j]" using lineage_snoc [OF assms(2)] by auto
  show pre: "prefix a b \<longleftrightarrow> i \<in> set b"
  proof
    assume "i \<in> set b"
    then obtain c d where c: "b = c @ i # d" by (meson split_list)
    with lineage_upto [OF assms(2) c] assms(1) have "a = c @ [i]" by (metis lineage_unique)
    with c show "prefix a b" by auto
  qed (use a in \<open>auto simp: prefix_def\<close>)
  show "strict_prefix a b \<longleftrightarrow> i \<in> set (butlast b)"
  proof (cases "i = j")
    case True
    with assms have "a = b" using lineage_unique by blast
    moreover have "i \<notin> set b'" using True lineage_distinct [OF assms(2)] b by simp
    ultimately show ?thesis using b by simp
  next
    case False
    then have "a \<noteq> b" using a b by simp
    moreover have "i \<in> set b \<longleftrightarrow> i \<in> set (butlast b)" using False b by simp
    ultimately show ?thesis unfolding strict_prefix_def pre by simp
  qed
qed

section \<open>Operations keep the invariant\<close>

lemma wf_tenants_empty: "wf_tenants []"
  by (simp add: wf_tenants_def)

text \<open>An update that leaves the parent, the path and the depth of the stored tenants.\<close>

lemma wf_tenants_update:
  assumes "wf_tenants m" "map_of m i = Some t" "tn_id u = i" "tn_parent u = tn_parent t" "tn_path u = tn_path t"
    "tn_depth u = tn_depth t"
  shows "wf_tenants (AList.update i u m)"
proof -
  have same: "map_option tn_parent (map_of (AList.update i u m) x) = map_option tn_parent (map_of m x)" for x
    using assms(2,4) by simp
  have "placed (AList.update i u m) j v" if v: "map_of (AList.update i u m) j = Some v" for j v
  proof -
    obtain w where w: "map_of m j = Some w" "tn_path v = tn_path w" "tn_depth v = tn_depth w" "tn_id v = j"
      using v assms(2-6) wf_tenants_id [OF assms(1)] by (cases "j = i") simp_all
    obtain ss where "lineage m j ss" "tn_path w = path_of ss" "tn_depth w = length ss - 1" "\<forall>s\<in>set ss. usableTenantId s"
      by (rule wf_tenants_lineage [OF assms(1) w(1)])
    moreover from this lineage_snoc have "usableTenantId j" by fastforce
    ultimately show ?thesis using w lineage_frame [OF _ same] unfolding placed_def by metis
  qed
  with assms(1) show ?thesis by (simp add: wf_tenants_def)
qed

lemma wf_tenants_add:
  assumes "wf_tenants m" "map_of m i = None" "usableTenantId i" "tn_id t = i"
    "tn_parent t = p" "case p of None \<Rightarrow> ss = [] | Some q \<Rightarrow> lineage m q ss"
    "tn_path t = path_of (ss @ [i])" "tn_depth t = length ss"
  shows "wf_tenants (AList.update i t m) \<and> lineage (AList.update i t m) i (ss @ [i])"
proof -
  let ?m = "AList.update i t m"
  have keep: "lineage ?m j b" if "lineage m j b" for j b
    using that
  proof (rule lineage_frame)
    fix x assume "x \<in> set b"
    then have "x \<noteq> i" using lineage_stored [OF that, of x] assms(2) by (cases "x = i") simp_all
    then show "map_option tn_parent (map_of ?m x) = map_option tn_parent (map_of m x)" by simp
  qed
  have new: "lineage ?m i (ss @ [i])"
  proof (cases p)
    case None
    with assms(5,6) show ?thesis by (auto intro: lineage_root)
  next
    case (Some q)
    with assms(6) keep have "lineage ?m q ss" by simp
    then show ?thesis using assms(5) Some by (auto intro: lineage_child)
  qed
  have "placed ?m j v" if "map_of ?m j = Some v" for j v
  proof (cases "j = i")
    case True
    with that assms new show ?thesis unfolding placed_def by (intro conjI exI [of _ "ss @ [i]"]) auto
  next
    case False
    with that assms(1) have "placed m j v" by (auto simp: wf_tenants_def)
    then show ?thesis using keep unfolding placed_def by blast
  qed
  with new assms(1) show ?thesis by (simp add: wf_tenants_def)
qed

lemma hierarchyClock_simps [simp]: "hi_tenants (snd (hierarchyClock date h)) = hi_tenants h"
  by (simp add: hierarchyClock_def Let_def)

lemma requireTenant_simps:
  "requireTenant h i = Inr t \<longleftrightarrow> map_of (hi_tenants h) i = Some t"
  "requireTenant h i = Inl e \<longleftrightarrow> map_of (hi_tenants h) i = None \<and> e = NoSuchTenant i"
  by (auto simp: requireTenant_def split: option.splits)

text \<open>The path of the parent asked for, if any.\<close>

lemma find_parent:
  assumes "(case q of None \<Rightarrow> Inr None | Some p \<Rightarrow> map_sum id Some (requireTenant h p)) = Inr parent"
    "wf_tenants (hi_tenants h)"
  obtains ss where "case q of None \<Rightarrow> ss = [] | Some p \<Rightarrow> lineage (hi_tenants h) p ss"
    "map_option tn_path parent = map_option (\<lambda>_. path_of ss) q" "\<forall>s\<in>set ss. usableTenantId s"
    "\<And>i. usableTenantId i \<Longrightarrow> buildPath (map_option tn_path parent) i = Inr (path_of (ss @ [i]))"
proof (cases q)
  case None
  with assms(1) that [of "[]"] show thesis by (simp add: buildPath_root)
next
  case (Some p)
  with assms(1) obtain u where u: "parent = Some u" "map_of (hi_tenants h) p = Some u"
    by (cases "requireTenant h p") (auto simp: requireTenant_simps)
  obtain ps where ps: "lineage (hi_tenants h) p ps" "tn_path u = path_of ps" "tn_depth u = length ps - 1"
      "\<forall>s\<in>set ps. usableTenantId s"
    by (rule wf_tenants_lineage [OF assms(2) u(2)])
  show thesis
  proof (rule that)
    show "case q of None \<Rightarrow> ps = [] | Some p \<Rightarrow> lineage (hi_tenants h) p ps" using ps(1) Some by simp
    show "map_option tn_path parent = map_option (\<lambda>_. path_of ps) q" using ps(2) Some u(1) by simp
    show "\<forall>s\<in>set ps. usableTenantId s" by (rule ps(4))
    show "buildPath (map_option tn_path parent) i = Inr (path_of (ps @ [i]))" if "usableTenantId i" for i
      using buildPath_child [OF that] ps(2) u(1) by simp
  qed
qed

lemma createTenant_cases:
  assumes "wf_tenants (hi_tenants h)"
  obtains e where "createTenant uuid date inp h = (Inl e, h)"
  | t ss where "createTenant uuid date inp h = (Inr t, set_tenant t (snd (hierarchyClock date h)))"
      "map_of (hi_tenants h) (tn_id t) = None" "usableTenantId (tn_id t)" "tn_id t = nullish (ct_id inp) uuid"
      "tn_parent t = ct_parent inp" "case ct_parent inp of None \<Rightarrow> ss = [] | Some p \<Rightarrow> lineage (hi_tenants h) p ss"
      "tn_path t = path_of (ss @ [tn_id t])" "tn_depth t = length ss"
proof -
  let ?i = "nullish (ct_id inp) uuid"
  let ?q = "case ct_parent inp of None \<Rightarrow> Inr None | Some p \<Rightarrow> map_sum id Some (requireTenant h p)"
  show thesis
  proof (cases "usableTenantId ?i \<and> map_of (hi_tenants h) ?i = None")
    case False
    then have "createTenant uuid date inp h =
        (Inl (if usableTenantId ?i then DuplicateTenant ?i else InvalidTenantId ?i), h)"
      by (auto simp: createTenant_def Let_def)
    then show thesis by (rule that(1))
  next
    case ok: True
    show thesis
    proof (cases ?q)
      case (Inl e)
      with ok that(1) show thesis by (simp add: createTenant_def Let_def)
    next
      case (Inr parent)
      obtain ss where ss: "case ct_parent inp of None \<Rightarrow> ss = [] | Some p \<Rightarrow> lineage (hi_tenants h) p ss"
          "buildPath (map_option tn_path parent) ?i = Inr (path_of (ss @ [?i]))" "\<forall>s\<in>set ss. usableTenantId s"
        using find_parent [OF Inr assms] ok by metis
      let ?ts = "fst (hierarchyClock date h)"
      let ?t = "\<lparr>tn_id = ?i, tn_name = ct_name inp, tn_parent = ct_parent inp, tn_path = path_of (ss @ [?i]),
                 tn_depth = depthOf (path_of (ss @ [?i])), tn_status = nullish (ct_status inp) ''active'',
                 tn_metadata = nullish (ct_metadata inp) [], tn_createdAt = ?ts, tn_updatedAt = ?ts\<rparr>"
      have "createTenant uuid date inp h = (Inr ?t, set_tenant ?t (snd (hierarchyClock date h)))"
        using ok Inr ss(2) by (simp add: createTenant_def Let_def split_beta)
      moreover have "depthOf (path_of (ss @ [?i])) = length ss" using ok ss(3) by (simp add: depthOf_path_of)
      ultimately show thesis using that(2) [of ?t ss] ok ss(1) by simp
    qed
  qed
qed

lemma createTenant_wf:
  assumes "wf_tenants (hi_tenants h)"
  shows "wf_tenants (hi_tenants (snd (createTenant uuid date inp h)))"
  using assms
proof (cases rule: createTenant_cases [OF assms, of uuid date inp])
  case (2 t ss)
  with wf_tenants_add [OF assms, of "tn_id t" t "ct_parent inp" ss] show ?thesis by (simp add: set_tenant_def)
qed simp

lemma update_tenant_wf:
  assumes "wf_tenants (hi_tenants h)"
    "\<And>t. tn_id (f t) = tn_id t \<and> tn_parent (f t) = tn_parent t \<and> tn_path (f t) = tn_path t \<and> tn_depth (f t) = tn_depth t"
  shows "wf_tenants (hi_tenants (snd (update_tenant date i f h)))"
  using assms wf_tenants_id [OF assms(1), of i]
  by (auto simp: update_tenant_def Let_def split_beta requireTenant_simps split: sum.split intro!: wf_tenants_update)

end
