(* ===== verification/TenantMoves.thy ===== *)
theory TenantMoves
  imports TenantLineage
begin

text \<open>
  What the structural operations of the tenant hierarchy do to the tree: moving a subtree, deleting
  one, listing what is above and below a tenant.
\<close>

section \<open>Moving a subtree\<close>

definition moved :: "string \<Rightarrow> string option \<Rightarrow> string \<Rightarrow> string \<Rightarrow> int \<Rightarrow> tenant \<Rightarrow> tenant" where
  "moved i q old new ts n =
     (let p = new @ drop (length old) (tn_path n) in
      n\<lparr>tn_path := p, tn_depth := depthOf p, tn_parent := if tn_id n = i then q else tn_parent n, tn_updatedAt := ts\<rparr>)"

lemma moved_simps [simp]:
  "tn_id (moved i q old new ts n) = tn_id n"
  "tn_path (moved i q old new ts n) = new @ drop (length old) (tn_path n)"
  "tn_parent (moved i q old new ts n) = (if tn_id n = i then q else tn_parent n)"
  "tn_depth (moved i q old new ts n) = depthOf (new @ drop (length old) (tn_path n))"
  by (simp_all add: moved_def Let_def)

lemma move_each_step:
  "move_each i q old new ts (n # ns) h =
   move_each i q old new ts ns (if in_subtree old n then set_tenant (moved i q old new ts n) h else h)"
  by (simp add: rebasePath_def in_subtree_def moved_def Let_def)

lemma move_each_eq:
  assumes "distinct (map tn_id ns)"
  shows "fst (move_each i q old new ts ns h) = None \<and>
    (wf_map (hi_tenants h) \<longrightarrow> wf_map (hi_tenants (snd (move_each i q old new ts ns h)))) \<and>
    map_of (hi_tenants (snd (move_each i q old new ts ns h))) x =
      (case find (\<lambda>n. tn_id n = x \<and> in_subtree old n) ns of
         Some n \<Rightarrow> Some (moved i q old new ts n) | None \<Rightarrow> map_of (hi_tenants h) x)"
  using assms
proof (induction ns arbitrary: h)
  case (Cons n ns)
  have gone: "find (\<lambda>m. tn_id m = tn_id n \<and> in_subtree old m) ns = None"
    using Cons.prems by (auto simp: find_None_iff) (metis imageI)
  show ?case
    using Cons.IH [of "if in_subtree old n then set_tenant (moved i q old new ts n) h else h"] Cons.prems gone
    unfolding move_each_step
    by (auto simp: set_tenant_def split: option.split)
qed simp

lemma find_in_subtree:
  assumes "wf_tenants m"
  shows "find (\<lambda>n. tn_id n = x \<and> P n) (map snd m) =
    (case map_of m x of Some n \<Rightarrow> if P n then Some n else None | None \<Rightarrow> None)"
proof (cases "find (\<lambda>n. tn_id n = x \<and> P n) (map snd m)")
  case None
  then have "\<not> P n" if "map_of m x = Some n" for n
    using wf_tenants_id [OF assms that] wf_tenants_values [OF assms, of n] that by (auto simp: find_None_iff)
  with None show ?thesis by (auto split: option.split)
next
  case (Some n)
  then have "n \<in> set (map snd m)" "tn_id n = x" "P n" by (auto dest: find_SomeD)
  moreover from this wf_tenants_values [OF assms, of n] have "map_of m x = Some n" by simp
  ultimately show ?thesis using Some by simp
qed

definition new_lineage :: "string \<Rightarrow> string list \<Rightarrow> string list \<Rightarrow> string list" where
  "new_lineage i ss b = (if i \<in> set b then ss @ dropWhile (\<lambda>x. x \<noteq> i) b else b)"

lemma new_lineage_below: "i \<notin> set a \<Longrightarrow> new_lineage i ss (a @ i # r) = ss @ i # r"
  by (simp add: new_lineage_def) (subst dropWhile_append2, auto)

text \<open>The parent of the moved tenant is the new one; no other parent changes.\<close>

lemma lineage_moved:
  assumes "lineage m i a" "case q of None \<Rightarrow> ss = [] | Some p \<Rightarrow> lineage m p ss" "i \<notin> set ss"
    "\<And>x. map_option tn_parent (map_of m' x) = (if x = i then Some q else map_option tn_parent (map_of m x))"
    "lineage m j b"
  shows "lineage m' j (new_lineage i ss b)"
proof -
  have keep: "lineage m' j b" if "lineage m j b" "i \<notin> set b" for j b
    using that(1) by (rule lineage_frame) (use that(2) assms(4) in auto)
  have top: "lineage m' i (ss @ [i])"
  proof -
    from assms(4) [of i] obtain t where t: "map_of m' i = Some t" "tn_parent t = q" by (auto simp: map_option_eq_Some)
    show ?thesis
    proof (cases q)
      case None
      with assms(2) t show ?thesis by (auto intro: lineage_root)
    next
      case (Some p)
      with assms(2,3) have "lineage m' p ss" by (auto intro: keep)
      with t Some show ?thesis by (auto intro: lineage_child)
    qed
  qed
  show ?thesis
  proof (cases "i \<in> set b")
    case False
    with keep [OF assms(5)] show ?thesis by (simp add: new_lineage_def)
  next
    case True
    with split_list_first obtain c r where b: "b = c @ i # r" "i \<notin> set c" by metis
    have "lineage m' j (ss @ i # r)"
      using assms(5) unfolding b(1)
    proof (induction r arbitrary: j rule: rev_induct)
      case Nil
      from lineage_snoc [OF Nil] have "j = i" by simp
      with top show ?case by simp
    next
      case (snoc x r)
      from lineage_snoc [OF snoc.prems] have x: "x = j" by auto
      from lineage_distinct [OF snoc.prems] have "j \<noteq> i" using x by auto
      have "lineage m' j ((ss @ i # r) @ [j])"
        using snoc.prems
      proof (cases rule: lineage.cases)
        case (lineage_child t p ps)
        with x have "lineage m p (c @ i # r)" by simp
        then have "lineage m' p (ss @ i # r)" by (rule snoc.IH)
        moreover from assms(4) [of j] \<open>j \<noteq> i\<close> lineage_child obtain u where "map_of m' j = Some u" "tn_parent u = Some p"
          by (auto simp: map_option_eq_Some)
        ultimately show ?thesis by (intro lineage.lineage_child)
      qed simp
      with x show ?case by simp
    qed
    with b show ?thesis by (simp add: new_lineage_below)
  qed
qed

lemma reparent_cases:
  assumes wf: "wf_tenants (hi_tenants h)"
    and i: "map_of (hi_tenants h) i = Some t" "lineage (hi_tenants h) i a"
    and q: "case q of None \<Rightarrow> ss = [] | Some p \<Rightarrow> lineage (hi_tenants h) p ss"
  shows "i \<in> set ss \<Longrightarrow> reparent date i q h = (Inl (TenantCycle i (the q)), h)"
    and "i \<notin> set ss \<Longrightarrow> \<exists>ts u. fst (reparent date i q h) = Inr u \<and> wf_map (hi_tenants (snd (reparent date i q h))) \<and>
      (\<forall>x. map_of (hi_tenants (snd (reparent date i q h))) x =
        map_option (\<lambda>n. if in_subtree (tn_path t) n then moved i q (tn_path t) (path_of (ss @ [i])) ts n else n)
          (map_of (hi_tenants h) x))"
proof -
  let ?m = "hi_tenants h"
  obtain parent where parent: "(case q of None \<Rightarrow> Inr None | Some p \<Rightarrow> map_sum id Some (requireTenant h p)) = Inr parent"
    "map_option tn_path parent = map_option (\<lambda>_. path_of ss) q" "\<forall>s\<in>set ss. usableTenantId s"
  proof (cases q)
    case None
    with q that [of None] show thesis by simp
  next
    case (Some p)
    with q have l: "lineage ?m p ss" by simp
    then obtain u where u: "map_of ?m p = Some u" using lineage_stored lineage_snoc by fastforce
    show thesis
      by (rule that [of "Some u"]) (use Some u wf_tenants_path(1) [OF wf u l] lineage_usable [OF wf l] in \<open>simp_all add: requireTenant_def\<close>)
  qed
  have req: "requireTenant h i = Inr t" using i(1) by (simp add: requireTenant_def)
  have ua: "\<forall>s\<in>set a. usableTenantId s" by (rule lineage_usable [OF wf i(2)])
  have ui: "usableTenantId i" using ua lineage_snoc [OF i(2)] by auto
  have cyc: "wouldCreateCycle (tn_path t) (map_option tn_path parent) \<longleftrightarrow> i \<in> set ss"
  proof (cases q)
    case None
    with q parent(2) show ?thesis by (simp add: wouldCreateCycle_def)
  next
    case (Some p)
    with q have l: "lineage ?m p ss" by simp
    have "map_option tn_path parent = Some (path_of ss)" using Some parent(2) by simp
    then have "wouldCreateCycle (tn_path t) (map_option tn_path parent) \<longleftrightarrow> wouldCreateCycle (path_of a) (Some (path_of ss))"
      by (simp only: wf_tenants_path(1) [OF wf i])
    also have "\<dots> \<longleftrightarrow> ss = a \<or> strict_prefix a ss"
      by (simp add: wouldCreateCycle_def path_of_inj [OF parent(3) ua]
          isStrictAncestor_path_of [OF ua parent(3)])
    also have "\<dots> \<longleftrightarrow> prefix a ss" by (simp only: strict_prefix_def) auto
    also have "\<dots> \<longleftrightarrow> i \<in> set ss" by (rule lineage_prefix_iff(1) [OF i(2) l])
    finally show ?thesis .
  qed
  show "reparent date i q h = (Inl (TenantCycle i (the q)), h)" if "i \<in> set ss"
    using that cyc req parent(1) by (simp add: reparent_def)
  assume "i \<notin> set ss"
  let ?new = "path_of (ss @ [i])" and ?ts = "fst (hierarchyClock date h)" and ?h1 = "snd (hierarchyClock date h)"
  have new: "buildPath (map_option tn_path parent) i = Inr ?new"
    unfolding parent(2) using q by (cases q) (simp_all add: buildPath_root [OF ui] buildPath_child [OF ui])
  let ?h2 = "snd (move_each i q (tn_path t) ?new ?ts (tenants_of h) ?h1)"
  have dist: "distinct (map tn_id (tenants_of h))"
    unfolding wf_tenants_ids [OF wf] using wf by (simp add: wf_tenants_def)
  note mv = move_each_eq [OF dist, of i q "tn_path t" ?new ?ts ?h1, unfolded find_in_subtree [OF wf] hierarchyClock_simps]
  have map2: "map_of (hi_tenants ?h2) x =
      map_option (\<lambda>n. if in_subtree (tn_path t) n then moved i q (tn_path t) ?new ?ts n else n) (map_of ?m x)" for x
    using mv [of x] by (cases "map_of ?m x") (simp_all split: if_splits)
  have "reparent date i q h = (requireTenant ?h2 i, ?h2)"
    using cyc \<open>i \<notin> set ss\<close> req parent(1) new mv by (simp add: reparent_def Let_def split_beta)
  moreover have "\<exists>u. requireTenant ?h2 i = Inr u" using map2 [of i] i(1) by (simp add: requireTenant_def)
  moreover have "wf_map (hi_tenants ?h2)" using mv wf by (simp add: wf_tenants_def)
  ultimately show "\<exists>ts u. fst (reparent date i q h) = Inr u \<and> wf_map (hi_tenants (snd (reparent date i q h))) \<and>
      (\<forall>x. map_of (hi_tenants (snd (reparent date i q h))) x =
        map_option (\<lambda>n. if in_subtree (tn_path t) n then moved i q (tn_path t) ?new ts n else n) (map_of ?m x))"
    using map2 by auto
qed

lemma reparent_tree:
  fixes date :: int
  assumes wf: "wf_tenants (hi_tenants h)"
    and i: "map_of (hi_tenants h) i = Some t" "lineage (hi_tenants h) i a"
    and q: "case q of None \<Rightarrow> ss = [] | Some p \<Rightarrow> lineage (hi_tenants h) p ss" and free: "i \<notin> set ss"
  defines "m' \<equiv> hi_tenants (snd (reparent date i q h))"
  shows "wf_tenants m'" "dom (map_of m') = dom (map_of (hi_tenants h))"
    "lineage (hi_tenants h) j b \<Longrightarrow> lineage m' j (new_lineage i ss b)"
proof -
  let ?m = "hi_tenants h"
  obtain ts where m': "wf_map m'" "\<And>x. map_of m' x =
      map_option (\<lambda>n. if in_subtree (tn_path t) n then moved i q (tn_path t) (path_of (ss @ [i])) ts n else n) (map_of ?m x)"
  proof -
    have "\<exists>ts. wf_map m' \<and> (\<forall>x. map_of m' x =
        map_option (\<lambda>n. if in_subtree (tn_path t) n then moved i q (tn_path t) (path_of (ss @ [i])) ts n else n) (map_of ?m x))"
      using reparent_cases(2) [OF wf i q free, of date] unfolding m'_def by blast
    then obtain ts where "wf_map m' \<and> (\<forall>x. map_of m' x =
        map_option (\<lambda>n. if in_subtree (tn_path t) n then moved i q (tn_path t) (path_of (ss @ [i])) ts n else n) (map_of ?m x))" ..
    then show thesis by - (rule that, simp_all)
  qed
  have "in_subtree (tn_path t) t" by (simp add: in_subtree_def)
  then have par: "map_option tn_parent (map_of m' x) = (if x = i then Some q else map_option tn_parent (map_of ?m x))" for x
    using i(1) wf_tenants_id [OF wf] by (cases "map_of ?m x") (auto simp: m'(2))
  show lin: "lineage m' j (new_lineage i ss b)" if "lineage ?m j b" for j b
    by (rule lineage_moved [OF i(2) q free par that])
  show "dom (map_of m') = dom (map_of ?m)" by (auto simp: m'(2))
  have uss: "\<forall>s\<in>set ss. usableTenantId s" using q lineage_usable [OF wf] by (cases q) auto
  have "placed m' j u" if "map_of m' j = Some u" for j u
  proof -
    from that m'(2) obtain n where n: "map_of ?m j = Some n"
      "u = (if in_subtree (tn_path t) n then moved i q (tn_path t) (path_of (ss @ [i])) ts n else n)" by auto
    obtain b where b: "lineage ?m j b" "tn_path n = path_of b" "tn_depth n = length b - 1" "\<forall>s\<in>set b. usableTenantId s"
      by (rule wf_tenants_lineage [OF wf n(1)])
    have ub: "\<forall>s\<in>set (new_lineage i ss b). usableTenantId s"
      using b(4) uss by (auto simp: new_lineage_def dest: set_dropWhileD)
    have inside: "in_subtree (tn_path t) n \<longleftrightarrow> i \<in> set b"
      using in_subtree_iff(1) [OF wf i n(1) b(1)] lineage_prefix_iff(1) [OF i(2) b(1)] by simp
    have "tn_path u = path_of (new_lineage i ss b) \<and> tn_depth u = length (new_lineage i ss b) - 1 \<and> tn_id u = j"
    proof (cases "i \<in> set b")
      case True
      with split_list_first obtain c r where c: "b = c @ i # r" "i \<notin> set c" by metis
      from lineage_upto [OF b(1) c(1)] i(2) have "a = c @ [i]" by (metis lineage_unique)
      then have "path_of (ss @ [i]) @ drop (length (tn_path t)) (tn_path n) = path_of (ss @ i # r)"
        by (simp add: b(2) c wf_tenants_path(1) [OF wf i] path_of_append)
      with True n(2) inside ub c wf_tenants_id [OF wf n(1)] show ?thesis
        by (simp add: new_lineage_below depthOf_path_of)
    next
      case False
      with n(2) inside b wf_tenants_id [OF wf n(1)] show ?thesis by (simp add: new_lineage_def)
    qed
    moreover have "usableTenantId j" using b(4) lineage_snoc [OF b(1)] by auto
    ultimately show ?thesis using lin [OF b(1)] unfolding placed_def by blast
  qed
  with m'(1) show "wf_tenants m'" by (simp add: wf_tenants_def)
qed

lemma reparent_wf:
  assumes "wf_tenants (hi_tenants h)"
  shows "wf_tenants (hi_tenants (snd (reparent date i q h)))"
proof (cases "\<exists>t. map_of (hi_tenants h) i = Some t \<and> (\<forall>p. q = Some p \<longrightarrow> map_of (hi_tenants h) p \<noteq> None)")
  case False
  then have "snd (reparent date i q h) = h"
    by (cases q) (auto simp: reparent_def requireTenant_def split: option.splits)
  with assms show ?thesis by simp
next
  case True
  then obtain t where t: "map_of (hi_tenants h) i = Some t" by blast
  obtain a where a: "lineage (hi_tenants h) i a" by (rule wf_tenants_lineage [OF assms t])
  obtain ss where ss: "case q of None \<Rightarrow> ss = [] | Some p \<Rightarrow> lineage (hi_tenants h) p ss"
  proof (cases q)
    case (Some p)
    with True obtain u where "map_of (hi_tenants h) p = Some u" by auto
    then obtain ps where "lineage (hi_tenants h) p ps" by (rule wf_tenants_lineage [OF assms])
    with that Some show thesis by simp
  qed (use that in simp)
  show ?thesis
  proof (cases "i \<in> set ss")
    case True
    with reparent_cases(1) [OF assms t a ss] assms show ?thesis by simp
  next
    case False
    from reparent_tree(1) [OF assms t a ss this] show ?thesis .
  qed
qed

section \<open>Deleting a subtree\<close>

lemma delete_each_eq:
  "map_of (delete_each r ns m) x = (if \<exists>n\<in>set ns. tn_id n = x \<and> in_subtree r n then None else map_of m x)"
  "wf_map m \<Longrightarrow> wf_map (delete_each r ns m)"
  by (induction ns arbitrary: m) auto

lemma deleteTenant_tree:
  assumes wf: "wf_tenants (hi_tenants h)" and i: "map_of (hi_tenants h) i = Some t"
    and ok: "fst (deleteTenant i c h) = None"
  defines "m' \<equiv> hi_tenants (snd (deleteTenant i c h))"
  shows "wf_tenants m'" "lineage (hi_tenants h) j b \<Longrightarrow> map_of m' j = (if i \<in> set b then None else map_of (hi_tenants h) j)"
    "lineage (hi_tenants h) j b \<Longrightarrow> i \<notin> set b \<Longrightarrow> lineage m' j b"
proof -
  let ?m = "hi_tenants h"
  obtain a where a: "lineage ?m i a" by (rule wf_tenants_lineage [OF wf i])
  have m': "m' = delete_each (tn_path t) (map snd ?m) ?m"
    using ok i by (auto simp: m'_def deleteTenant_def requireTenant_def split: if_splits)
  show del: "map_of m' j = (if i \<in> set b then None else map_of ?m j)" if l: "lineage ?m j b" for j b
  proof -
    from lineage_stored [OF l] lineage_snoc [OF l] obtain n where n: "map_of ?m j = Some n" by fastforce
    have "(\<exists>n\<in>set (map snd ?m). tn_id n = j \<and> in_subtree (tn_path t) n) \<longleftrightarrow> in_subtree (tn_path t) n"
      using n wf_tenants_values [OF wf] wf_tenants_id [OF wf n] by fastforce
    also have "\<dots> \<longleftrightarrow> i \<in> set b"
      using in_subtree_iff(1) [OF wf i a n l] lineage_prefix_iff(1) [OF a l] by simp
    finally show ?thesis unfolding m' delete_each_eq(1) by simp
  qed
  show keep: "lineage m' j b" if l: "lineage ?m j b" "i \<notin> set b" for j b
    using l(1)
  proof (rule lineage_frame)
    fix x assume "x \<in> set b"
    then obtain c d where b: "b = c @ x # d" by (meson split_list)
    from del [OF lineage_upto [OF l(1) b]] b l(2) show "map_option tn_parent (map_of m' x) = map_option tn_parent (map_of ?m x)"
      by simp
  qed
  have "placed m' j u" if "map_of m' j = Some u" for j u
  proof -
    have u: "map_of ?m j = Some u" using that unfolding m' delete_each_eq(1) by (simp split: if_splits)
    obtain b where b: "lineage ?m j b" "tn_path u = path_of b" "tn_depth u = length b - 1" "\<forall>s\<in>set b. usableTenantId s"
      by (rule wf_tenants_lineage [OF wf u])
    with that del [OF b(1)] have "i \<notin> set b" by auto
    with keep b wf_tenants_id [OF wf u] lineage_snoc [OF b(1)] show ?thesis unfolding placed_def by fastforce
  qed
  moreover have "wf_map m'" unfolding m' by (rule delete_each_eq(2)) (use wf in \<open>simp add: wf_tenants_def\<close>)
  ultimately show "wf_tenants m'" by (simp add: wf_tenants_def)
qed

lemma deleteTenant_wf:
  assumes "wf_tenants (hi_tenants h)"
  shows "wf_tenants (hi_tenants (snd (deleteTenant i c h)))"
proof (cases "fst (deleteTenant i c h)")
  case (Some e)
  then show ?thesis using assms by (auto simp: deleteTenant_def split: sum.splits if_splits)
next
  case None
  then obtain t where "map_of (hi_tenants h) i = Some t"
    by (auto simp: deleteTenant_def requireTenant_simps split: sum.splits)
  from deleteTenant_tree(1) [OF assms this None] show ?thesis .
qed

section \<open>Histories\<close>

lemma exec_tenant_wf: "wf_tenants (hi_tenants h) \<Longrightarrow> wf_tenants (hi_tenants (exec_tenant date op h))"
  by (cases op)
    (auto simp: createTenant_wf reparent_wf deleteTenant_wf renameTenant_def setTenantStatus_def setTenantMetadata_def
      update_tenant_wf ensureDefault_def Let_def split: option.split)

lemma tenant_history_wf: "wf_tenants (hi_tenants (tenant_history ops))"
proof -
  have "wf_tenants (hi_tenants h) \<Longrightarrow> wf_tenants (hi_tenants (fold (\<lambda>(date, op). exec_tenant date op) ops h))" for h
    by (induction ops arbitrary: h) (auto simp: exec_tenant_wf)
  then show ?thesis
    by (simp add: tenant_history_def createInMemoryTenantHierarchy_def wf_tenants_empty)
qed

end
