(* ===== verification/RealmShare.thy ===== *)
theory RealmShare
  imports RealmReconcile
begin

text \<open>
  Sharing a customization down the tree and promoting one to the global default,
  \<^verbatim>\<open>packages/realm/src/realm-share.ts\<close>. The payload of a row is a field of its own here, so
  \<^verbatim>\<open>payloadOf\<close>, which strips the realm columns off the flat object, is that field.
\<close>

section \<open>The code\<close>

record blast_radius =
  br_shareMode :: share_mode
  br_inheriting :: "string list"
  br_shadowed :: "string list"
  br_outOfScope :: nat
  br_total :: nat

definition inScope :: "int \<Rightarrow> share_mode \<Rightarrow> lineage_node \<Rightarrow> bool" where
  "inScope ownerDep mode d =
     (if mode = Private then False
      else if mode = Children then ln_depth d = ownerDep + 1
      else ln_depth d > ownerDep)"

fun blast_loop ::
  "int \<Rightarrow> share_mode \<Rightarrow> string list \<Rightarrow> lineage_node list \<Rightarrow> string list \<times> string list \<times> nat \<Rightarrow>
     string list \<times> string list \<times> nat" where
  "blast_loop o' mode forked [] acc = acc"
| "blast_loop o' mode forked (d # ds) (inh, shad, out) =
     blast_loop o' mode forked ds
       (if \<not> inScope o' mode d then (inh, shad, out + 1)
        else if ln_tenant d \<in> set forked then (inh, shad @ [ln_tenant d], out)
        else (inh @ [ln_tenant d], shad, out))"

definition blastRadius :: "int \<Rightarrow> lineage_node list \<Rightarrow> share_mode \<Rightarrow> string list \<Rightarrow> blast_radius" where
  "blastRadius ownerDep descendants mode forked =
     (let (inh, shad, out) = blast_loop ownerDep mode forked descendants ([], [], 0)
      in \<lparr>br_shareMode = mode, br_inheriting = sort inh, br_shadowed = sort shad, br_outOfScope = out,
          br_total = length descendants\<rparr>)"

definition payloadOf :: "realm_row \<Rightarrow> payload" where
  "payloadOf r = rr_payload r"

definition promoteFork ::
  "(json \<Rightarrow> string) \<Rightarrow> (nat \<Rightarrow> string) \<Rightarrow> realm_backend \<Rightarrow> string \<Rightarrow> realm_row \<Rightarrow> string option \<Rightarrow>
     string option \<Rightarrow> string option \<Rightarrow> string \<times> realm_backend" where
  "promoteFork dg gen b family fork by note ts =
     publishToRealm dg gen b family (rr_key fork) (payloadOf fork) by (Some (nullish note ''promote'')) ts"

section \<open>Properties\<close>

lemma blast_loop_eq:
  "blast_loop o' mode forked ds (inh, shad, out) =
   (inh @ map ln_tenant (filter (\<lambda>d. inScope o' mode d \<and> ln_tenant d \<notin> set forked) ds),
    shad @ map ln_tenant (filter (\<lambda>d. inScope o' mode d \<and> ln_tenant d \<in> set forked) ds),
    out + length (filter (\<lambda>d. \<not> inScope o' mode d) ds))"
  by (induction ds arbitrary: inh shad out) auto

lemma blast_radius_exact:
  assumes "tree_ctx ctx" "i + 1 < length (rc_lineage ctx)" "rr_realm r = Tenant"
    "rr_owner r = Some (ln_tenant (rc_lineage ctx ! i))" "last (rc_lineage ctx) \<in> set ds"
    "distinct (map ln_tenant ds)"
  shows "isVisible (r\<lparr>rr_share := mode\<rparr>) ctx \<longleftrightarrow>
    ln_tenant (last (rc_lineage ctx)) \<in>
      set (br_inheriting (blastRadius (int i) ds mode forked)) \<union> set (br_shadowed (blastRadius (int i) ds mode forked))"
proof -
  let ?n = "length (rc_lineage ctx)" and ?d = "last (rc_lineage ctx)"
  have depth: "ln_depth ?d = int (?n - 1)" using assms(1) by (simp add: tree_ctx_def last_conv_nth)
  have uniq: "d = ?d" if "d \<in> set ds" "ln_tenant d = ln_tenant ?d" for d
    using that assms(5,6) by (auto simp: distinct_map inj_on_def)
  have "isVisible (r\<lparr>rr_share := mode\<rparr>) ctx \<longleftrightarrow> (let k = ?n - 1 - i in k = 0 \<or> (k = 1 \<and> mode \<noteq> Private) \<or> mode = Subtree)"
    using lineage_index [OF assms(1), of "r\<lparr>rr_share := mode\<rparr>" i] assms(2-4) by simp
  also have "\<dots> \<longleftrightarrow> inScope (int i) mode ?d"
    using assms(2) unfolding inScope_def depth Let_def by (cases mode) (simp_all, linarith?)
  also have "\<dots> \<longleftrightarrow> ln_tenant ?d \<in> ln_tenant ` {d \<in> set ds. inScope (int i) mode d}"
  proof
    assume "inScope (int i) mode ?d"
    with assms(5) show "ln_tenant ?d \<in> ln_tenant ` {d \<in> set ds. inScope (int i) mode d}" by blast
  next
    assume "ln_tenant ?d \<in> ln_tenant ` {d \<in> set ds. inScope (int i) mode d}"
    then obtain d where "d \<in> set ds" "ln_tenant d = ln_tenant ?d" "inScope (int i) mode d" by auto
    with uniq show "inScope (int i) mode ?d" by metis
  qed
  also have "\<dots> \<longleftrightarrow> ln_tenant ?d \<in>
      set (br_inheriting (blastRadius (int i) ds mode forked)) \<union> set (br_shadowed (blastRadius (int i) ds mode forked))"
    by (auto simp: blastRadius_def blast_loop_eq)
  finally show ?thesis .
qed

text \<open>
  the preview of a share predicts visibility exactly: a descendant is in the blast radius of
  a share mode (as inheriting or shadowed) if and only if, with that mode set, the descendant sees the
  owner's row.
\<close>

theorem blast_radius_visible:
  assumes "tree_ctx ctx" "i + 1 < length (rc_lineage ctx)" "rr_realm r = Tenant"
    "rr_owner r = Some (ln_tenant (rc_lineage ctx ! i))" "last (rc_lineage ctx) \<in> set ds"
    "distinct (map ln_tenant ds)"
  shows "isVisible (r\<lparr>rr_share := mode\<rparr>) ctx \<longleftrightarrow>
    ln_tenant (last (rc_lineage ctx)) \<in>
      set (br_inheriting (blastRadius (int i) ds mode forked)) \<union> set (br_shadowed (blastRadius (int i) ds mode forked))"
  using assms by (rule blast_radius_exact)

lemma blast_radius_visible_witness:
  "isVisible (demo_row ''a'' (Some ''acme'') Subtree ''h1'') demo_ctx"
proof -
  let ?r = "demo_row ''a'' (Some ''acme'') Private ''h1''"
  have ctx: "rc_lineage demo_ctx ! 0 = \<lparr>ln_tenant = ''acme'', ln_depth = 0\<rparr>"
      "last (rc_lineage demo_ctx) = \<lparr>ln_tenant = ''user'', ln_depth = 2\<rparr>" "length (rc_lineage demo_ctx) = 3"
    by (simp_all add: demo_ctx_def)
  have "isVisible (?r\<lparr>rr_share := Subtree\<rparr>) demo_ctx"
    by (subst blast_radius_visible [OF demo_tree(1), where i = 0 and forked = "[]" and
          ds = "[\<lparr>ln_tenant = ''team'', ln_depth = 1\<rparr>, \<lparr>ln_tenant = ''user'', ln_depth = 2\<rparr>]"])
      (simp_all add: ctx demo_row_def blastRadius_def inScope_def)
  then show ?thesis by (simp add: demo_row_def)
qed

text \<open>
  the preview overstates who will use the shared row: it lists a descendant without a fork
  of its own as inheriting although a nearer ancestor's shared copy shadows the row for it.
\<close>

theorem blast_radius_overstates:
  "br_inheriting (blastRadius 0 [\<lparr>ln_tenant = ''team'', ln_depth = 1\<rparr>, \<lparr>ln_tenant = ''user'', ln_depth = 2\<rparr>] Subtree [''team'']) = [''user''] \<and>
   map_option (rr_id \<circ> fst) (resolveOne
     [demo_row ''a'' (Some ''acme'') Subtree ''h1'', demo_row ''t'' (Some ''team'') Children ''h2''] ''prompt'' demo_ctx None) = Some ''t''"
  by code_simp

text \<open>
  promoting a tenant's fork makes its content the global default, at the hash of the fork's
  payload and with a baseline of the same hash, and changes no row of any tenant.
\<close>

theorem promoteFork_publishes:
  assumes "wf_backend dg gen b" "promoteFork dg gen b family fork by note ts = (h, b')" "x \<in> set (store_rows (bk_store b))"
    "rr_owner x = Some t"
  shows "h = computeContentHash dg (rr_payload fork) \<and>
    map_option rr_hash (globalOf (bk_store b') (rr_key fork)) = Some h \<and>
    map_option rv_hash (latest (bk_log b') family (rr_key fork)) = Some h \<and> x \<in> set (store_rows (bk_store b'))"
proof -
  define i where "i = \<lparr>pi_family = family, pi_key = rr_key fork, pi_payload = payloadOf fork, pi_by = by,
    pi_note = Some (nullish note ''promote''), pi_at = ts\<rparr>"
  have wf: "wf_store (bk_store b)" "getRow (bk_store b) (gen (bk_next b)) = None"
    using assms(1) by (simp_all add: wf_backend_def)
  have res: "h = rr_hash (fst (ship dg gen i b))" "b' = snd (ship dg gen i b)"
    using assms(2) by (auto simp: promoteFork_def publishToRealm_def i_def split: prod.splits)
  obtain r s' where r: "publishGlobal dg (gen (bk_next b)) (pi_key i) (pi_payload i) None (bk_store b) = (r, s')"
    "s' = set_row r (bk_store b)" "wf_store s'" "rr_owner r = None" "rr_key r = pi_key i"
    "rr_hash r = computeContentHash dg (pi_payload i)"
    "(rr_id r = gen (bk_next b) \<and> globalOf (bk_store b) (pi_key i) = None) \<or>
     (\<exists>x. globalOf (bk_store b) (pi_key i) = Some x \<and> rr_id x = rr_id r)"
    by (rule publishGlobal_row [OF wf])
  have "rr_id x \<noteq> rr_id r"
  proof
    assume id: "rr_id x = rr_id r"
    then have gx: "getRow (bk_store b) (rr_id r) = Some x" using assms(3) getRow_Some [OF wf(1)] by blast
    with r(7) wf(2) obtain y where y: "globalOf (bk_store b) (pi_key i) = Some y" "rr_id y = rr_id r" by auto
    then have "y \<in> set (store_rows (bk_store b))" "rr_owner y = None" using globalOf_iff [OF wf(1)] by blast+
    then have "getRow (bk_store b) (rr_id r) = Some y" using y(2) getRow_Some [OF wf(1)] by blast
    with gx \<open>rr_owner y = None\<close> assms(4) show False by simp
  qed
  then have "x \<in> set (store_rows (bk_store b'))"
    using assms(3) r(1,2) mem_set_row [OF wf(1)] by (simp add: res ship_simps)
  moreover have "h = computeContentHash dg (rr_payload fork)"
    using r(1,6) by (simp add: res ship_simps i_def payloadOf_def)
  ultimately show ?thesis
    using shipping.glob_pub [OF assms(1), of i family] shipping.base_pub [OF assms(1), of i family "rr_key fork"]
    by (simp add: res i_def payloadOf_def)
qed

lemma promoteFork_publishes_witness:
  "fst (promoteFork demo_digest nat_str
      \<lparr>bk_store = demo_store (\<lambda>_. []), bk_log = [], bk_next = 0\<rparr> ''prompts''
      (demo_row ''u'' (Some ''user'') Private ''h'') None None None) = ''sha256:2''"
proof -
  let ?b = "\<lparr>bk_store = demo_store (\<lambda>_. []), bk_log = [], bk_next = 0\<rparr>"
  let ?res = "promoteFork demo_digest nat_str ?b ''prompts'' (demo_row ''u'' (Some ''user'') Private ''h'') None None None"
  have wfs: "wf_store (demo_store (\<lambda>_. []))" by (rule realm_reachable_wf [OF demo_reachable])
  have "map rr_id (store_rows (demo_store (\<lambda>_. []))) = [''g'', ''a'', ''u'']" by code_simp
  then have ids: "rr_id ` set (store_rows (demo_store (\<lambda>_. []))) = {''g'', ''a'', ''u''}"
    by (metis list.set_map list.simps(15) empty_set)
  have "hd (nat_str n) \<notin> {CHR ''g'', CHR ''a'', CHR ''u''} \<and> nat_str n \<noteq> []" for n
  proof -
    have ne: "nat_str n \<noteq> []" by (simp add: nat_str.simps [of n])
    then obtain d where "d < 10" "hd (nat_str n) = digit_char d" using nat_str_digits [OF hd_in_set] by blast
    then show ?thesis using ne digit_char_neq [of d] by auto
  qed
  then have "getRow (demo_store (\<lambda>_. [])) (nat_str n) = None" for n
    unfolding getRow_None [OF wfs] ids by (metis insert_iff empty_iff list.sel(1))
  then have wf: "wf_backend demo_digest nat_str ?b"
    using wfs by (simp add: wf_backend_def wf_log_def inj_def inj_nat_str)
  obtain x where x: "x \<in> set (store_rows (bk_store ?b))" "rr_owner x = Some ''acme''"
  proof -
    have "map rr_owner (store_rows (demo_store (\<lambda>_. []))) = [None, Some ''acme'', Some ''user'']" by code_simp
    then have "set (map rr_owner (store_rows (demo_store (\<lambda>_. [])))) = {None, Some ''acme'', Some ''user''}"
      by (simp only:) auto
    then have "Some ''acme'' \<in> rr_owner ` set (store_rows (demo_store (\<lambda>_. [])))" by (simp only: set_map) simp
    then show thesis using that by auto
  qed
  obtain h b' where res: "?res = (h, b')" by (cases ?res)
  have "computeContentHash demo_digest [] = ''sha256:2''" by code_simp
  with promoteFork_publishes [OF wf res x] res show ?thesis by (simp add: demo_row_def)
qed

end
