(* ===== verification/TenantRealm.thy ===== *)
theory TenantRealm
  imports TenantMoves RealmShare
begin

text \<open>
  The tenant hierarchy as the source of realm contexts: its listings follow the lineage, so the
  contexts it gives are chains of the tree, and what the realm components prove about such contexts
  holds for every history of the hierarchy.
\<close>

section \<open>Listings\<close>

lemma sortTenants_eq:
  assumes "mset xs = mset ys" "inj_on tn_path (set xs)" "sorted (map tn_depth ys)" "distinct (map tn_depth ys)"
  shows "sortTenants xs = ys"
  unfolding sortTenants_def
proof (rule sort_key_inj_key_eq [OF assms(1)])
  show "inj_on (\<lambda>t. (tn_depth t, tn_path t)) (set xs)" using assms(2) by (auto simp: inj_on_def)
  have "sorted_wrt (<) (map tn_depth ys)" using assms(3,4) by (simp add: strict_sorted_iff)
  then show "sorted (map (\<lambda>t. (tn_depth t, tn_path t)) ys)"
    by (auto simp: sorted_wrt_map less_prod_def' elim!: sorted_wrt_mono_rel [rotated] intro: less_imp_le)
qed

lemma paths_inj:
  assumes "wf_tenants m"
  shows "inj_on tn_path (set (map snd m))"
proof (rule inj_onI)
  fix t u assume t: "t \<in> set (map snd m)" and u: "u \<in> set (map snd m)" and eq: "tn_path t = tn_path u"
  have st: "map_of m (tn_id t) = Some t" and su: "map_of m (tn_id u) = Some u"
    using t u wf_tenants_values [OF assms] by blast+
  obtain a where a: "lineage m (tn_id t) a" by (rule wf_tenants_lineage [OF assms st])
  obtain b where b: "lineage m (tn_id u) b" by (rule wf_tenants_lineage [OF assms su])
  have "a = b"
    using eq path_of_inj [OF lineage_usable [OF assms a] lineage_usable [OF assms b]]
    by (simp add: wf_tenants_path(1) [OF assms st a] wf_tenants_path(1) [OF assms su b])
  moreover have "last a = tn_id t" "last b = tn_id u" using lineage_snoc [OF a] lineage_snoc [OF b] by auto
  ultimately have "tn_id t = tn_id u" by metis
  with st su show "t = u" by (metis option.inject)
qed

lemma ancestors_lineage:
  assumes wf: "wf_tenants (hi_tenants h)" and l: "lineage (hi_tenants h) i ss"
  shows "ancestorTenants h i = Inr (map (\<lambda>x. the (map_of (hi_tenants h) x)) (butlast ss))"
proof -
  let ?m = "hi_tenants h" and ?the = "\<lambda>x. the (map_of (hi_tenants h) x)"
  obtain a where ss: "ss = a @ [i]" using lineage_snoc [OF l] by auto
  obtain t where t: "map_of ?m i = Some t" using lineage_stored [OF l, of i] ss by auto
  have up: "map_of ?m (a ! n) = Some (?the (a ! n))" "lineage ?m (a ! n) (take (Suc n) a)" if "n < length a" for n
  proof -
    from that have "ss = take n a @ a ! n # (drop (Suc n) a @ [i])" unfolding ss by (simp add: id_take_nth_drop [symmetric])
    from lineage_upto [OF l this] that show up2: "lineage ?m (a ! n) (take (Suc n) a)" by (simp add: take_Suc_conv_app_nth)
    from lineage_stored [OF up2, of "a ! n"] that show "map_of ?m (a ! n) = Some (?the (a ! n))"
      by (auto simp: take_Suc_conv_app_nth)
  qed
  have path: "tn_path (?the (a ! n)) = path_of (take (Suc n) ss)" "tn_depth (?the (a ! n)) = n" "tn_id (?the (a ! n)) = a ! n"
    if "n < length a" for n
    using wf_tenants_path [OF wf up [OF that]] wf_tenants_id [OF wf up(1) [OF that]] that ss by simp_all
  have aps: "ancestorPaths (tn_path t) = map (\<lambda>n. path_of (take (Suc n) ss)) [0..<length a]"
    unfolding wf_tenants_path(1) [OF wf t l] ancestorPaths_path_of [OF lineage_usable [OF wf l]] by (simp add: ss)
  let ?P = "\<lambda>x. tn_path x \<in> set (ancestorPaths (tn_path t))"
  have sel: "{x \<in> set (map snd ?m). ?P x} = set (map ?the a)"
  proof (rule set_eqI)
    fix x
    have "x \<in> set (map snd ?m) \<and> ?P x \<longleftrightarrow> x \<in> set (map snd ?m) \<and> (\<exists>n < length a. tn_path x = tn_path (?the (a ! n)))"
      unfolding aps using path(1) by (auto simp: image_iff)
    also have "\<dots> \<longleftrightarrow> (\<exists>n < length a. x = ?the (a ! n))"
    proof -
      have "?the (a ! n) \<in> set (map snd ?m)" if "n < length a" for n
        using up(1) [OF that] path(3) [OF that] wf_tenants_values [OF wf, of "?the (a ! n)"] by simp
      then show ?thesis using paths_inj [OF wf] unfolding inj_on_def by blast
    qed
    also have "\<dots> \<longleftrightarrow> x \<in> set (map ?the a)"
      unfolding in_set_conv_nth [of x "map ?the a"] length_map by (auto simp only: nth_map)
    finally show "x \<in> {x \<in> set (map snd ?m). ?P x} \<longleftrightarrow> x \<in> set (map ?the a)" by simp
  qed
  have "distinct (map snd ?m)"
    using wf_tenants_ids [OF wf] wf by (metis distinct_map wf_tenants_def)
  moreover have depths: "map tn_depth (map ?the a) = [0..<length a]" by (rule nth_equalityI) (simp_all add: path(2))
  moreover from depths have "distinct (map ?the a)" by (metis distinct_map distinct_upt)
  ultimately have "mset (filter ?P (map snd ?m)) = mset (map ?the a)"
    using sel by (intro set_eq_iff_mset_eq_distinct [THEN iffD1]) simp_all
  then have "sortTenants (filter ?P (tenants_of h)) = map ?the a"
  proof (rule sortTenants_eq)
    show "inj_on tn_path (set (filter ?P (tenants_of h)))" by (rule inj_on_subset [OF paths_inj [OF wf]]) auto
  qed (use depths in simp_all)
  then show ?thesis using t by (simp add: ancestorTenants_def requireTenant_def Let_def ss)
qed

lemma descendants_below:
  assumes wf: "wf_tenants (hi_tenants h)" and t: "map_of (hi_tenants h) i = Some t"
  shows "\<exists>ds. descendantTenants h i opts = Inr ds \<and> distinct (map tn_id ds) \<and>
    (\<forall>x. x \<in> set ds \<longleftrightarrow> map_of (hi_tenants h) (tn_id x) = Some x \<and> selected opts t x \<and>
       (\<exists>b. lineage (hi_tenants h) (tn_id x) b \<and> i \<in> set (butlast b)))"
proof -
  let ?m = "hi_tenants h"
  let ?ds = "sortTenants (filter (\<lambda>x. isStrictAncestor (tn_path t) (tn_path x) \<and> selected opts t x) (tenants_of h))"
  obtain a where a: "lineage ?m i a" by (rule wf_tenants_lineage [OF wf t])
  have below: "isStrictAncestor (tn_path t) (tn_path x) \<longleftrightarrow> (\<exists>b. lineage ?m (tn_id x) b \<and> i \<in> set (butlast b))"
    if x: "map_of ?m (tn_id x) = Some x" for x
  proof -
    obtain b where b: "lineage ?m (tn_id x) b" by (rule wf_tenants_lineage [OF wf x])
    with in_subtree_iff(2) [OF wf t a x b] lineage_prefix_iff(2) [OF a b] show ?thesis
      using lineage_unique by blast
  qed
  have "descendantTenants h i opts = Inr ?ds" using t by (simp add: descendantTenants_def requireTenant_def)
  moreover have "distinct (map tn_id ?ds)"
  proof -
    have "distinct (map tn_id (tenants_of h))" unfolding wf_tenants_ids [OF wf] using wf by (simp add: wf_tenants_def)
    then have "distinct (tenants_of h)" "inj_on tn_id (set (tenants_of h))" by (simp_all only: distinct_map)
    then show ?thesis by (auto simp: sortTenants_def distinct_map [of tn_id] intro: inj_on_subset)
  qed
  moreover have "x \<in> set ?ds \<longleftrightarrow> map_of ?m (tn_id x) = Some x \<and> selected opts t x \<and>
      (\<exists>b. lineage ?m (tn_id x) b \<and> i \<in> set (butlast b))" for x
  proof -
    have "x \<in> set ?ds \<longleftrightarrow> x \<in> set (map snd ?m) \<and> isStrictAncestor (tn_path t) (tn_path x) \<and> selected opts t x"
      by (auto simp: sortTenants_def)
    with below wf_tenants_values [OF wf, of x] show ?thesis by blast
  qed
  ultimately show ?thesis by blast
qed

section \<open>The hierarchy gives contexts\<close>

definition node_of :: "tenant \<Rightarrow> lineage_node" where
  "node_of t = \<lparr>ln_tenant = tn_id t, ln_depth = int (tn_depth t)\<rparr>"

definition getNode :: "hierarchy \<Rightarrow> string \<Rightarrow> lineage_node option" where
  "getNode h i = map_option node_of (getTenant h i)"

definition ancestorNodes :: "hierarchy \<Rightarrow> string \<Rightarrow> lineage_node list" where
  "ancestorNodes h i = (case ancestorTenants h i of Inl _ \<Rightarrow> [] | Inr ts \<Rightarrow> map node_of ts)"

definition tenantContext :: "hierarchy \<Rightarrow> string option \<Rightarrow> ctx_error + realm_ctx" where
  "tenantContext h i = buildRealmContext (getNode h) (ancestorNodes h) i"

lemma ancestorNodes_lineage:
  assumes wf: "wf_tenants (hi_tenants h)" and t: "map_of (hi_tenants h) i = Some t" and l: "lineage (hi_tenants h) i ss"
  shows "map ln_tenant (ancestorNodes h i @ [node_of t]) = ss"
    "map ln_depth (ancestorNodes h i @ [node_of t]) = map int [0..<length ss]"
proof -
  obtain a where ss: "ss = a @ [i]" using lineage_snoc [OF l] by auto
  have node: "ln_tenant (node_of (the (map_of (hi_tenants h) (ss ! n)))) = ss ! n \<and>
      ln_depth (node_of (the (map_of (hi_tenants h) (ss ! n)))) = int n" if "n < length ss" for n
  proof -
    from that have "ss = take n ss @ ss ! n # drop (Suc n) ss" by (rule id_take_nth_drop)
    from lineage_upto [OF l this] have up: "lineage (hi_tenants h) (ss ! n) (take n ss @ [ss ! n])" .
    then obtain u where u: "map_of (hi_tenants h) (ss ! n) = Some u" using lineage_stored [OF up, of "ss ! n"] by auto
    with wf_tenants_path(2) [OF wf u up] wf_tenants_id [OF wf u] that show ?thesis by (simp add: node_of_def)
  qed
  have eq: "ancestorNodes h i @ [node_of t] = map (\<lambda>x. node_of (the (map_of (hi_tenants h) x))) ss"
    unfolding ancestorNodes_def ancestors_lineage [OF wf l] ss using t by (simp add: comp_def)
  show "map ln_tenant (ancestorNodes h i @ [node_of t]) = ss"
    unfolding eq by (rule nth_equalityI) (simp_all add: node)
  show "map ln_depth (ancestorNodes h i @ [node_of t]) = map int [0..<length ss]"
    unfolding eq by (rule nth_equalityI) (simp_all add: node)
qed

interpretation tenants: lineage_source "\<lambda>h. wf_tenants (hi_tenants h)" getNode ancestorNodes
proof
  fix h t n assume wf: "wf_tenants (hi_tenants h)" and "getNode h t = Some n"
  then obtain u where u: "map_of (hi_tenants h) t = Some u" "n = node_of u" by (auto simp: getNode_def getTenant_def)
  obtain ss where ss: "lineage (hi_tenants h) t ss" by (rule wf_tenants_lineage [OF wf u(1)])
  note nodes = ancestorNodes_lineage [OF wf u(1) ss]
  show "ln_tenant n = t" using wf_tenants_id [OF wf u(1)] by (simp add: u(2) node_of_def)
  show "distinct (map ln_tenant (ancestorNodes h t @ [n]))" unfolding u(2) nodes(1) by (rule lineage_distinct [OF ss])
  have "length ss = Suc (length (ancestorNodes h t))" using arg_cong [OF nodes(1), of length] by simp
  then show "map ln_depth (ancestorNodes h t @ [n]) = map int [0..<Suc (length (ancestorNodes h t))]"
    unfolding u(2) nodes(2) by (simp only:)
qed

lemma tenantContext_lineage:
  assumes "wf_tenants (hi_tenants h)" "lineage (hi_tenants h) i ss"
  obtains ctx where "tenantContext h (Some i) = Inr ctx" "tree_ctx ctx" "rc_tenant ctx = Some i"
    "map ln_tenant (rc_lineage ctx) = ss"
proof -
  from lineage_stored [OF assms(2)] lineage_snoc [OF assms(2)] obtain t where t: "map_of (hi_tenants h) i = Some t" by fastforce
  then have "getNode h i = Some (node_of t)" by (simp add: getNode_def getTenant_def)
  from tenants.context_of [OF assms(1) this] obtain ctx where
    "tenantContext h (Some i) = Inr ctx" "tree_ctx ctx" "rc_tenant ctx = Some i" "rc_lineage ctx = ancestorNodes h i @ [node_of t]"
    by (auto simp: tenantContext_def)
  with ancestorNodes_lineage(1) [OF assms(1) t assms(2)] that show thesis by simp
qed

end
