(* ===== verification/TenantProps.thy ===== *)
theory TenantProps
  imports TenantRealm
begin

text \<open>
  The properties of the tenant hierarchy, for every history of creates, moves, deletes and edits,
  alone and as the source of the contexts the realm resolves in.
\<close>

definition whole_subtree :: subtree_options where
  "whole_subtree = \<lparr>so_maxDepth = None, so_statuses = None\<rparr>"

lemma selected_whole [simp]: "selected whole_subtree t x"
  by (simp add: selected_def whole_subtree_def)

text \<open>A company with two regions and an office below the first.\<close>

definition demo_create :: "string \<Rightarrow> string option \<Rightarrow> int \<times> tenant_op" where
  "demo_create i p = (7, TCreate ''uuid''
     \<lparr>ct_id = Some i, ct_name = i, ct_parent = p, ct_status = None, ct_metadata = None\<rparr>)"

definition demo_org :: "(int \<times> tenant_op) list" where
  "demo_org = [demo_create ''acme'' None, demo_create ''emea'' (Some ''acme''), demo_create ''apac'' (Some ''acme''),
     demo_create ''uk'' (Some ''emea'')]"

lemma demo_parents:
  "map (\<lambda>i. map_option tn_parent (map_of (hi_tenants (tenant_history demo_org)) i)) [''acme'', ''emea'', ''apac'', ''uk''] =
   [Some None, Some (Some ''acme''), Some (Some ''acme''), Some (Some ''emea'')]"
  by code_simp

lemma demo_lineages:
  "lineage (hi_tenants (tenant_history demo_org)) ''acme'' [''acme'']"
  "lineage (hi_tenants (tenant_history demo_org)) ''emea'' [''acme'', ''emea'']"
  "lineage (hi_tenants (tenant_history demo_org)) ''apac'' [''acme'', ''apac'']"
  "lineage (hi_tenants (tenant_history demo_org)) ''uk'' [''acme'', ''emea'', ''uk'']"
proof -
  let ?m = "hi_tenants (tenant_history demo_org)"
  from demo_parents obtain a e p u where s: "map_of ?m ''acme'' = Some a" "tn_parent a = None"
    "map_of ?m ''emea'' = Some e" "tn_parent e = Some ''acme''" "map_of ?m ''apac'' = Some p" "tn_parent p = Some ''acme''"
    "map_of ?m ''uk'' = Some u" "tn_parent u = Some ''emea''" by (auto simp: map_option_eq_Some)
  show acme: "lineage ?m ''acme'' [''acme'']" using s(1,2) by (rule lineage_root)
  show emea: "lineage ?m ''emea'' [''acme'', ''emea'']" using lineage_child [OF s(3,4) acme] by simp
  show "lineage ?m ''apac'' [''acme'', ''apac'']" using lineage_child [OF s(5,6) acme] by simp
  show "lineage ?m ''uk'' [''acme'', ''emea'', ''uk'']" using lineage_child [OF s(7,8) emea] by simp
qed

text \<open>
  Claim C5: whatever operations a hierarchy has been through, the tenants form a forest: following the
  parent pointers from any stored tenant reaches a root without meeting a tenant twice, and the
  materialized path and the depth the store keeps are exactly those of that lineage.
\<close>

theorem tenant_forest:
  assumes "map_of (hi_tenants (tenant_history ops)) i = Some t"
  shows "\<exists>ss. lineage (hi_tenants (tenant_history ops)) i ss \<and> distinct ss \<and> tn_id t = i \<and>
    tn_path t = path_of ss \<and> tn_depth t + 1 = length ss"
proof -
  note wf = tenant_history_wf [of ops]
  obtain ss where ss: "lineage (hi_tenants (tenant_history ops)) i ss" "tn_path t = path_of ss" "tn_depth t = length ss - 1"
    by (rule wf_tenants_lineage [OF wf assms])
  moreover from lineage_snoc [OF ss(1)] ss(3) have "tn_depth t + 1 = length ss" by auto
  ultimately show ?thesis using lineage_distinct wf_tenants_id [OF wf assms] by blast
qed

lemma tenant_forest_witness:
  "map_option tn_path (map_of (hi_tenants (tenant_history demo_org)) ''uk'') = Some (path_of [''acme'', ''emea'', ''uk''])"
proof -
  obtain u where u: "map_of (hi_tenants (tenant_history demo_org)) ''uk'' = Some u"
    using lineage_stored [OF demo_lineages(4), of "''uk''"] by auto
  from tenant_forest [OF u] lineage_unique [OF demo_lineages(4)] u show ?thesis by auto
qed

text \<open>
  Claim C23: moving a tenant under a new parent either is refused, exactly when the new parent lies in
  the tenant's own subtree, and then changes nothing; or it replaces, in the lineage of the tenant and
  of everything below it, the part above the tenant by the lineage of the new parent, and leaves every
  other lineage and the set of tenants as they were.
\<close>

theorem reparent_moves_subtree:
  assumes "lineage (hi_tenants (tenant_history ops)) i a"
    and "case q of None \<Rightarrow> ss = [] | Some p \<Rightarrow> lineage (hi_tenants (tenant_history ops)) p ss"
  shows "if i \<in> set ss then reparent date i q (tenant_history ops) = (Inl (TenantCycle i (the q)), tenant_history ops)
    else let m' = hi_tenants (snd (reparent date i q (tenant_history ops))) in
      dom (map_of m') = dom (map_of (hi_tenants (tenant_history ops))) \<and>
      (\<forall>j b. lineage (hi_tenants (tenant_history ops)) j b \<longrightarrow>
         lineage m' j (if i \<in> set b then ss @ dropWhile (\<lambda>x. x \<noteq> i) b else b))"
proof -
  note wf = tenant_history_wf [of ops]
  obtain t where t: "map_of (hi_tenants (tenant_history ops)) i = Some t"
    using lineage_stored [OF assms(1), of i] lineage_snoc [OF assms(1)] by auto
  show ?thesis
    using reparent_cases(1) [OF wf t assms] reparent_tree(2,3) [OF wf t assms]
    unfolding new_lineage_def Let_def by (cases "i \<in> set ss") simp_all
qed

lemma reparent_moves_subtree_witness:
  "lineage (hi_tenants (snd (reparent 9 ''emea'' (Some ''apac'') (tenant_history demo_org)))) ''uk''
     [''acme'', ''apac'', ''emea'', ''uk'']"
  using reparent_moves_subtree [OF demo_lineages(2), of "[''acme'', ''apac'']" "Some ''apac''" 9] demo_lineages(3,4)
  by (simp add: Let_def) force

text \<open>
  the listings are those of the tree: the ancestors of a tenant are the tenants of its
  lineage above it, root first, and a tenant is listed below another exactly when that one is listed
  above it.
\<close>

theorem tenant_listings:
  assumes "map_of (hi_tenants (tenant_history ops)) i = Some t" "map_of (hi_tenants (tenant_history ops)) j = Some u"
  shows "\<exists>above below. ancestorTenants (tenant_history ops) j = Inr above \<and>
    descendantTenants (tenant_history ops) i whole_subtree = Inr below \<and>
    lineage (hi_tenants (tenant_history ops)) j (map tn_id above @ [j]) \<and> (u \<in> set below \<longleftrightarrow> t \<in> set above)"
proof -
  let ?h = "tenant_history ops" and ?the = "\<lambda>x. the (map_of (hi_tenants (tenant_history ops)) x)"
  note wf = tenant_history_wf [of ops]
  obtain ss where ss: "lineage (hi_tenants ?h) j ss" by (rule wf_tenants_lineage [OF wf assms(2)])
  then obtain b where b: "ss = b @ [j]" using lineage_snoc by blast
  have the: "tn_id (?the x) = x" if "x \<in> set b" for x
    using lineage_stored [OF ss] that b wf_tenants_id [OF wf] by fastforce
  obtain below where below: "descendantTenants ?h i whole_subtree = Inr below"
    "u \<in> set below \<longleftrightarrow> (\<exists>c. lineage (hi_tenants ?h) (tn_id u) c \<and> i \<in> set (butlast c))"
    using descendants_below [OF wf assms(1), of whole_subtree] assms(2) wf_tenants_id [OF wf assms(2)] by auto
  have "(\<exists>c. lineage (hi_tenants ?h) (tn_id u) c \<and> i \<in> set (butlast c)) \<longleftrightarrow> i \<in> set b"
  proof -
    have "lineage (hi_tenants ?h) j c \<longleftrightarrow> c = b @ [j]" for c using ss b lineage_unique by blast
    then show ?thesis by (simp add: wf_tenants_id [OF wf assms(2)])
  qed
  also have "\<dots> \<longleftrightarrow> t \<in> set (map ?the b)"
    using assms(1) the wf_tenants_id [OF wf assms(1)] by force
  finally have "u \<in> set below \<longleftrightarrow> t \<in> set (map ?the b)" using below(2) by simp
  moreover have "map tn_id (map ?the b) = b" using the by (simp add: map_idI)
  moreover have "ancestorTenants ?h j = Inr (map ?the b)" using ancestors_lineage [OF wf ss] b by simp
  ultimately show ?thesis using below(1) ss b by (intro exI [of _ "map ?the b"] exI [of _ below]) simp
qed

lemma tenant_listings_witness:
  "\<exists>above. ancestorTenants (tenant_history demo_org) ''uk'' = Inr above \<and> map tn_id above = [''acme'', ''emea'']"
proof -
  obtain t u where "map_of (hi_tenants (tenant_history demo_org)) ''acme'' = Some t"
    "map_of (hi_tenants (tenant_history demo_org)) ''uk'' = Some u"
    using lineage_stored [OF demo_lineages(4)] by fastforce
  from tenant_listings [OF this] lineage_unique [OF demo_lineages(4)] show ?thesis by fastforce
qed

text \<open>
  a delete that succeeds removes the tenant and exactly the tenants below it; every other
  tenant keeps its record and its lineage. Without \<^verbatim>\<open>cascade\<close> a tenant with children is not deleted.
\<close>

theorem delete_removes_subtree:
  assumes "map_of (hi_tenants (tenant_history ops)) i = Some t" "lineage (hi_tenants (tenant_history ops)) j b"
  shows "case deleteTenant i cascade (tenant_history ops) of
      (None, h') \<Rightarrow> map_of (hi_tenants h') j = (if i \<in> set b then None else map_of (hi_tenants (tenant_history ops)) j) \<and>
        (i \<notin> set b \<longrightarrow> lineage (hi_tenants h') j b)
    | (Some e, h') \<Rightarrow> h' = tenant_history ops \<and> \<not> cascade \<and> e = TenantHasChildren i \<and>
        (\<exists>k u. map_of (hi_tenants (tenant_history ops)) k = Some u \<and> tn_parent u = Some i)"
proof (cases "fst (deleteTenant i cascade (tenant_history ops))")
  case None
  note tree = deleteTenant_tree(2,3) [OF tenant_history_wf assms(1) None assms(2)]
  show ?thesis
    using None tree by (cases "deleteTenant i cascade (tenant_history ops)") simp
next
  case (Some e)
  note wf = tenant_history_wf [of ops]
  from Some assms(1) have "\<exists>u \<in> set (tenants_of (tenant_history ops)). tn_parent u = Some i"
    "\<not> cascade \<and> e = TenantHasChildren i \<and> snd (deleteTenant i cascade (tenant_history ops)) = tenant_history ops"
    by (auto simp: deleteTenant_def requireTenant_def filter_empty_conv split: if_splits)
  with Some wf_tenants_values [OF wf] show ?thesis
    by (cases "deleteTenant i cascade (tenant_history ops)") auto
qed

lemma delete_removes_subtree_witness:
  "map_of (hi_tenants (snd (deleteTenant ''emea'' True (tenant_history demo_org)))) ''uk'' = None"
proof -
  obtain t where "map_of (hi_tenants (tenant_history demo_org)) ''emea'' = Some t"
    using lineage_stored [OF demo_lineages(2), of "''emea''"] by auto
  from delete_removes_subtree [OF this demo_lineages(4), of True] show ?thesis by (auto split: prod.splits option.splits)
qed

section \<open>Together with the realm\<close>

text \<open>
  Claim C1: what a tenant resolves is read off the hierarchy: the resolver, in the context built from the
  hierarchy, returns the first copy that reaches the tenant on the way up its parent pointers, or the
  global default.
\<close>

theorem tenant_resolution:
  assumes "lineage (hi_tenants (tenant_history ops)) i ss" "realm_reachable dg s"
  shows "\<exists>ctx. tenantContext (tenant_history ops) (Some i) = Inr ctx \<and>
    map_option fst (resolverResolve s k ctx) = climb (store_rows s) k 0 (rev ss)"
proof -
  obtain ctx where ctx: "tenantContext (tenant_history ops) (Some i) = Inr ctx" "tree_ctx ctx"
    "map ln_tenant (rc_lineage ctx) = ss"
    by (rule tenantContext_lineage [OF tenant_history_wf assms(1)])
  have "map ln_tenant (rev (rc_lineage ctx)) = rev ss" unfolding ctx(3) [symmetric] by (simp add: rev_map)
  with resolver_climbs [OF ctx(2) realm_reachable_wf [OF assms(2)]] ctx(1) show ?thesis by auto
qed

lemma tenant_resolution_witness:
  "\<exists>ctx. tenantContext (tenant_history demo_org) (Some ''uk'') = Inr ctx \<and>
    map_option (rr_id \<circ> fst) (resolverResolve (demo_store (\<lambda>_. [])) ''prompt'' ctx) = Some ''a''"
proof -
  obtain ctx where ctx: "tenantContext (tenant_history demo_org) (Some ''uk'') = Inr ctx"
    "map_option fst (resolverResolve (demo_store (\<lambda>_. [])) ''prompt'' ctx) =
       climb (store_rows (demo_store (\<lambda>_. []))) ''prompt'' 0 (rev [''acme'', ''emea'', ''uk''])"
    using tenant_resolution [OF demo_lineages(4) demo_reachable] by blast
  have "map_option rr_id (climb (store_rows (demo_store (\<lambda>_. []))) ''prompt'' 0 (rev [''acme'', ''emea'', ''uk''])) = Some ''a''"
    by code_simp
  with ctx(2) have "map_option rr_id (map_option fst (resolverResolve (demo_store (\<lambda>_. [])) ''prompt'' ctx)) = Some ''a''"
    by (simp only:)
  with ctx(1) show ?thesis by (simp only: option.map_comp) blast
qed



text \<open>
  the preview of a share over the descendants the hierarchy lists is exact: a tenant below the
  owner is counted as reached if and only if, in the context the hierarchy gives for it, it sees the row
  with that share mode.
\<close>

theorem share_preview_exact:
  assumes "map_of (hi_tenants (tenant_history ops)) i = Some t" "lineage (hi_tenants (tenant_history ops)) j b"
    and "i \<in> set (butlast b)" "rr_realm r = Tenant" "rr_owner r = Some i"
  shows "\<exists>ctx ds. tenantContext (tenant_history ops) (Some j) = Inr ctx \<and>
    descendantTenants (tenant_history ops) i whole_subtree = Inr ds \<and>
    (isVisible (r\<lparr>rr_share := mode\<rparr>) ctx \<longleftrightarrow>
     j \<in> set (br_inheriting (blastRadius (int (tn_depth t)) (map node_of ds) mode forked)) \<union>
         set (br_shadowed (blastRadius (int (tn_depth t)) (map node_of ds) mode forked)))"
proof -
  let ?h = "tenant_history ops"
  note wf = tenant_history_wf [of ops]
  obtain u where u: "map_of (hi_tenants ?h) j = Some u"
    using lineage_stored [OF assms(2), of j] lineage_snoc [OF assms(2)] by auto
  obtain b' where b: "b = b' @ [j]" using lineage_snoc [OF assms(2)] by auto
  with assms(3) obtain c d where c: "b' = c @ i # d" by (auto dest: split_list)
  then have "lineage (hi_tenants ?h) i (c @ [i])" using lineage_upto [OF assms(2), of c i "d @ [j]"] b by simp
  then have dep: "tn_depth t = length c" using wf_tenants_path(2) [OF wf assms(1)] by simp
  have "getNode ?h j = Some (node_of u)" using u by (simp add: getNode_def getTenant_def)
  from tenants.context_of [OF wf this] obtain ctx where ctx: "tenantContext ?h (Some j) = Inr ctx" "tree_ctx ctx"
    "rc_lineage ctx = ancestorNodes ?h j @ [node_of u]" by (auto simp: tenantContext_def)
  have ids: "map ln_tenant (rc_lineage ctx) = b" using ancestorNodes_lineage(1) [OF wf u assms(2)] ctx(3) by simp
  have len: "length c + 1 < length (rc_lineage ctx)" using arg_cong [OF ids, of length] b c by simp
  have own: "rr_owner r = Some (ln_tenant (rc_lineage ctx ! length c))"
  proof -
    have "map ln_tenant (rc_lineage ctx) ! length c = i" unfolding ids b c by (simp add: nth_append)
    with len assms(5) show ?thesis by simp
  qed
  obtain ds where ds: "descendantTenants ?h i whole_subtree = Inr ds" "distinct (map tn_id ds)" "u \<in> set ds"
    using descendants_below [OF wf assms(1), of whole_subtree] u wf_tenants_id [OF wf u] assms(2,3) by auto
  have last: "last (rc_lineage ctx) = node_of u" "ln_tenant (node_of u) = j"
    using ctx(3) wf_tenants_id [OF wf u] by (simp_all add: node_of_def)
  have dist: "distinct (map ln_tenant (map node_of ds))" using ds(2) by (simp add: comp_def node_of_def)
  have mem: "last (rc_lineage ctx) \<in> set (map node_of ds)" using last(1) ds(3) by simp
  show ?thesis
    using blast_radius_exact [OF ctx(2) len assms(4) own mem dist, of mode forked] ctx(1) ds(1) last dep by auto
qed

lemma share_preview_exact_witness:
  "\<exists>ctx. tenantContext (tenant_history demo_org) (Some ''uk'') = Inr ctx \<and>
     isVisible (demo_row ''a'' (Some ''acme'') Subtree ''h'') ctx"
proof -
  let ?r = "demo_row ''a'' (Some ''acme'') Private ''h''"
  obtain t where t: "map_of (hi_tenants (tenant_history demo_org)) ''acme'' = Some t"
    using lineage_stored [OF demo_lineages(1), of "''acme''"] by auto
  have depth: "tn_depth t = 0" using wf_tenants_path(2) [OF tenant_history_wf t demo_lineages(1)] by simp
  obtain ctx ds where c: "tenantContext (tenant_history demo_org) (Some ''uk'') = Inr ctx"
    "descendantTenants (tenant_history demo_org) ''acme'' whole_subtree = Inr ds"
    "isVisible (?r\<lparr>rr_share := Subtree\<rparr>) ctx \<longleftrightarrow>
     ''uk'' \<in> set (br_inheriting (blastRadius 0 (map node_of ds) Subtree [])) \<union>
       set (br_shadowed (blastRadius 0 (map node_of ds) Subtree []))"
    using share_preview_exact [OF t demo_lineages(4), of ?r Subtree "[]"] depth by (auto simp: demo_row_def)
  have "(case descendantTenants (tenant_history demo_org) ''acme'' whole_subtree of Inl _ \<Rightarrow> False | Inr ds \<Rightarrow>
      ''uk'' \<in> set (br_inheriting (blastRadius 0 (map node_of ds) Subtree [])))" by code_simp
  with c(2,3) have "isVisible (?r\<lparr>rr_share := Subtree\<rparr>) ctx" by simp
  with c(1) show ?thesis by (auto simp: demo_row_def)
qed

end
