(* ===== verification/CircuitBreaker.thy ===== *)
theory CircuitBreaker
  imports Prelude
begin

text \<open>
  The circuit breaker of an endpoint, \<^verbatim>\<open>packages/resilience/src/circuit-breaker.ts\<close>. Every reading
  of \<^verbatim>\<open>Date.now()\<close> is the argument \<open>now\<close>, in milliseconds.
\<close>

section \<open>The code\<close>

datatype circuit_state = Closed | Open | HalfOpen

record breaker =
  cb_threshold :: int
  cb_cooldown :: int
  cb_state :: circuit_state
  cb_failures :: int
  cb_openedAt :: int

datatype breaker_error = BadThreshold | BadCooldown

definition createCircuitBreaker :: "int \<Rightarrow> int \<Rightarrow> breaker_error + breaker" where
  "createCircuitBreaker failureThreshold cooldownMs =
     (if failureThreshold \<le> 0 then Inl BadThreshold
      else if cooldownMs \<le> 0 then Inl BadCooldown
      else Inr \<lparr>cb_threshold = failureThreshold, cb_cooldown = cooldownMs, cb_state = Closed,
                cb_failures = 0, cb_openedAt = 0\<rparr>)"

definition maybeTransitionToHalfOpen :: "int \<Rightarrow> breaker \<Rightarrow> breaker" where
  "maybeTransitionToHalfOpen now b =
     (if cb_state b \<noteq> Open then b
      else if now \<ge> cb_openedAt b + cb_cooldown b then b\<lparr>cb_state := HalfOpen\<rparr> else b)"

datatype pass = Allowed | Rejected int

definition canPass :: "int \<Rightarrow> breaker \<Rightarrow> pass \<times> breaker" where
  "canPass now b =
     (let b' = maybeTransitionToHalfOpen now b
      in (if cb_state b' = Open then Rejected (cb_openedAt b' + cb_cooldown b') else Allowed, b'))"

definition recordSuccess :: "breaker \<Rightarrow> breaker" where
  "recordSuccess b =
     (let b' = b\<lparr>cb_failures := 0\<rparr>
      in if cb_state b' \<noteq> Closed then b'\<lparr>cb_state := Closed, cb_openedAt := 0\<rparr> else b')"

record failure_report =
  fr_state :: circuit_state
  fr_opened :: bool
  fr_failures :: int

definition recordFailure :: "int \<Rightarrow> breaker \<Rightarrow> failure_report \<times> breaker" where
  "recordFailure now b =
     (let b1 = b\<lparr>cb_failures := cb_failures b + 1\<rparr>;
          trip = cb_state b1 = HalfOpen \<or> (cb_state b1 = Closed \<and> cb_failures b1 \<ge> cb_threshold b1);
          b2 = (if trip then b1\<lparr>cb_state := Open, cb_openedAt := now\<rparr> else b1)
      in (\<lparr>fr_state = cb_state b2, fr_opened = trip, fr_failures = cb_failures b2\<rparr>, b2))"

definition stateNow :: "int \<Rightarrow> breaker \<Rightarrow> circuit_state \<times> breaker" where
  "stateNow now b = (let b' = maybeTransitionToHalfOpen now b in (cb_state b', b'))"

text \<open>The snapshot is the record itself after the transition check.\<close>

definition snapshotBreaker :: "int \<Rightarrow> breaker \<Rightarrow> breaker \<times> breaker" where
  "snapshotBreaker now b = (let b' = maybeTransitionToHalfOpen now b in (b', b'))"

definition resetBreaker :: "breaker \<Rightarrow> breaker" where
  "resetBreaker b = b\<lparr>cb_state := Closed, cb_failures := 0, cb_openedAt := 0\<rparr>"

section \<open>Runs\<close>

datatype breaker_op = BPass int | BSuccess | BFailure int | BState int | BSnapshot int | BReset

fun exec_breaker :: "breaker_op \<Rightarrow> breaker \<Rightarrow> breaker" where
  "exec_breaker (BPass now) b = snd (canPass now b)"
| "exec_breaker BSuccess b = recordSuccess b"
| "exec_breaker (BFailure now) b = snd (recordFailure now b)"
| "exec_breaker (BState now) b = snd (stateNow now b)"
| "exec_breaker (BSnapshot now) b = snd (snapshotBreaker now b)"
| "exec_breaker BReset b = resetBreaker b"

text \<open>The failures counted since the last success or reset, read off a run.\<close>

fun failures_since :: "breaker_op list \<Rightarrow> int \<Rightarrow> int" where
  "failures_since [] n = n"
| "failures_since (BFailure _ # ops) n = failures_since ops (n + 1)"
| "failures_since (BSuccess # ops) n = failures_since ops 0"
| "failures_since (BReset # ops) n = failures_since ops 0"
| "failures_since (_ # ops) n = failures_since ops n"

definition wf_breaker :: "breaker \<Rightarrow> bool" where
  "wf_breaker b \<longleftrightarrow> 0 < cb_threshold b \<and> 0 < cb_cooldown b \<and> 0 \<le> cb_failures b \<and>
     (cb_state b = Closed \<longleftrightarrow> cb_failures b < cb_threshold b)"

lemma wf_breaker_create: "createCircuitBreaker n c = Inr b \<Longrightarrow> wf_breaker b"
  by (auto simp: createCircuitBreaker_def wf_breaker_def split: if_splits)

lemma wf_breaker_exec: "wf_breaker b \<Longrightarrow> wf_breaker (exec_breaker op b)"
  by (cases op)
    (auto simp: wf_breaker_def canPass_def recordSuccess_def recordFailure_def stateNow_def snapshotBreaker_def
      resetBreaker_def maybeTransitionToHalfOpen_def Let_def)

lemma wf_breaker_run: "wf_breaker b \<Longrightarrow> wf_breaker (fold exec_breaker ops b)"
  by (induction ops arbitrary: b) (auto simp: wf_breaker_exec)

lemma exec_breaker_params:
  "cb_threshold (exec_breaker op b) = cb_threshold b" "cb_cooldown (exec_breaker op b) = cb_cooldown b"
  by (cases op; simp add: canPass_def recordSuccess_def recordFailure_def stateNow_def snapshotBreaker_def
      resetBreaker_def maybeTransitionToHalfOpen_def Let_def)+

lemma failures_run: "cb_failures (fold exec_breaker ops b) = failures_since ops (cb_failures b)"
proof (induction ops arbitrary: b)
  case (Cons op ops)
  then show ?case
    by (cases op)
      (simp_all add: canPass_def recordSuccess_def recordFailure_def stateNow_def snapshotBreaker_def
        resetBreaker_def maybeTransitionToHalfOpen_def Let_def)
qed simp

lemma params_run:
  "cb_threshold (fold exec_breaker ops b) = cb_threshold b \<and> cb_cooldown (fold exec_breaker ops b) = cb_cooldown b"
  by (induction ops arbitrary: b) (simp_all add: exec_breaker_params)

section \<open>Properties\<close>


definition demo_breaker :: breaker where
  "demo_breaker = \<lparr>cb_threshold = 2, cb_cooldown = 100, cb_state = Closed, cb_failures = 0, cb_openedAt = 0\<rparr>"

lemma demo_breaker_create: "createCircuitBreaker 2 100 = Inr demo_breaker"
  by (simp add: createCircuitBreaker_def demo_breaker_def)


definition quiet_op :: "int \<Rightarrow> breaker_op \<Rightarrow> bool" where
  "quiet_op until op = (case op of BFailure _ \<Rightarrow> True | BPass t \<Rightarrow> t < until | BState t \<Rightarrow> t < until
     | BSnapshot t \<Rightarrow> t < until | _ \<Rightarrow> False)"

lemma quiet_run:
  assumes "cb_state b = Open" "list_all (quiet_op (cb_openedAt b + cb_cooldown b)) ops"
  shows "cb_state (fold exec_breaker ops b) = Open \<and> cb_openedAt (fold exec_breaker ops b) = cb_openedAt b"
  using assms
proof (induction ops arbitrary: b)
  case (Cons op ops)
  from Cons.prems have op: "cb_state (exec_breaker op b) = Open" "cb_openedAt (exec_breaker op b) = cb_openedAt b"
    by (cases op; auto simp: quiet_op_def canPass_def recordFailure_def stateNow_def snapshotBreaker_def
        maybeTransitionToHalfOpen_def Let_def)+
  with Cons show ?case by (simp add: exec_breaker_params)
qed simp

text \<open>
  a failure that opens the breaker keeps every later call out until exactly the cooldown has
  passed: whatever further failures and reads follow, a call at time \<open>t\<close> is rejected, with the time
  the circuit reopens, if and only if \<open>t\<close> is before the end of the cooldown, as long as no reader came
  after that end.
\<close>
theorem breaker_cooldown:
  assumes "recordFailure now b = (rep, b')" "fr_opened rep" "list_all (quiet_op (now + cb_cooldown b)) ops"
  shows "fst (canPass t (fold exec_breaker ops b')) =
    (if t < now + cb_cooldown b then Rejected (now + cb_cooldown b) else Allowed)"
proof -
  have b': "cb_state b' = Open" "cb_openedAt b' = now" "cb_cooldown b' = cb_cooldown b"
    using assms(1,2) by (auto simp: recordFailure_def Let_def)
  with assms(3) quiet_run [of b' ops] params_run [of ops b'] show ?thesis
    by (simp add: canPass_def maybeTransitionToHalfOpen_def Let_def)
qed

lemma breaker_cooldown_witness:
  "fst (canPass 149 (snd (recordFailure 50 (snd (recordFailure 10 demo_breaker))))) = Rejected 150 \<and>
   fst (canPass 150 (snd (recordFailure 50 (snd (recordFailure 10 demo_breaker))))) = Allowed"
proof (cases "recordFailure 50 (snd (recordFailure 10 demo_breaker))")
  case (Pair rep b')
  then have "fr_opened rep" by (auto simp: recordFailure_def demo_breaker_def Let_def)
  from breaker_cooldown [OF Pair this, of "[]"] Pair show ?thesis
    by (simp add: recordFailure_def demo_breaker_def Let_def)
qed

text \<open>
  the half-open state does not admit a single probe, as its documentation says: after the
  cooldown every call passes until one of them reports back.
\<close>

theorem half_open_admits_all:
  assumes "cb_state b = Open" "cb_openedAt b + cb_cooldown b \<le> t"
  shows "fst (canPass t' (fold exec_breaker (map BPass (t # ts)) b)) = Allowed"
proof -
  have "cb_state (fold exec_breaker (map BPass ts) b') = HalfOpen" if "cb_state b' = HalfOpen" for b'
    using that by (induction ts arbitrary: b') (simp_all add: canPass_def maybeTransitionToHalfOpen_def Let_def)
  moreover have "cb_state (exec_breaker (BPass t) b) = HalfOpen"
    using assms by (simp add: canPass_def maybeTransitionToHalfOpen_def Let_def)
  ultimately show ?thesis by (simp add: canPass_def [of t'] maybeTransitionToHalfOpen_def Let_def)
qed

lemma half_open_admits_all_witness:
  "fst (canPass 103 (fold exec_breaker (map BPass [101, 102])
     \<lparr>cb_threshold = 1, cb_cooldown = 100, cb_state = Open, cb_failures = 1, cb_openedAt = 0\<rparr>)) = Allowed"
  by (rule half_open_admits_all) simp_all

end
