(* ===== verification/RateLimit.thy ===== *)
theory RateLimit
  imports Prelude Complex_Main
begin

text \<open>
  The token bucket (\<^verbatim>\<open>packages/resilience/src/token-bucket.ts\<close>) and the per-subject limiter over it
  (\<^verbatim>\<open>keyed-rate-limiter.ts\<close>). Times are integer milliseconds, tokens and rates rationals; every reading
  of \<^verbatim>\<open>Date.now()\<close> is an argument. Of the waiting \<^verbatim>\<open>acquire\<close>, one turn of its loop is modelled.
\<close>

section \<open>The token bucket\<close>

record bucket =
  tb_tokens :: rat
  tb_lastRefill :: int
  tb_pausedUntil :: int
  tb_capacity :: rat
  tb_rate :: rat

datatype bucket_error = BadCapacity | BadRate | AcquireTimeout

definition createTokenBucket :: "rat \<Rightarrow> rat \<Rightarrow> int \<Rightarrow> bucket_error + bucket" where
  "createTokenBucket capacity refillPerSec now =
     (if capacity \<le> 0 then Inl BadCapacity
      else if refillPerSec \<le> 0 then Inl BadRate
      else Inr \<lparr>tb_tokens = capacity, tb_lastRefill = now, tb_pausedUntil = 0,
                tb_capacity = capacity, tb_rate = refillPerSec\<rparr>)"

definition refill :: "int \<Rightarrow> bucket \<Rightarrow> bucket" where
  "refill now b =
     (let elapsedSec = of_int (now - tb_lastRefill b) / 1000
      in if elapsedSec \<le> 0 then b
         else b\<lparr>tb_tokens := min (tb_capacity b) (tb_tokens b + elapsedSec * tb_rate b), tb_lastRefill := now\<rparr>)"

definition msUntilAvailable :: "int \<Rightarrow> bucket \<Rightarrow> int \<times> bucket" where
  "msUntilAvailable now b =
     (if now < tb_pausedUntil b then (tb_pausedUntil b - now, b)
      else let b' = refill now b in
        if tb_tokens b' \<ge> 1 then (0, b')
        else (\<lceil>((1 - tb_tokens b') / tb_rate b') * 1000\<rceil>, b'))"

definition tryAcquire :: "int \<Rightarrow> bucket \<Rightarrow> bool \<times> bucket" where
  "tryAcquire now b =
     (if now < tb_pausedUntil b then (False, b)
      else let b' = refill now b in
        if tb_tokens b' \<ge> 1 then (True, b'\<lparr>tb_tokens := tb_tokens b' - 1\<rparr>) else (False, b'))"

text \<open>
  One turn of \<^verbatim>\<open>acquire\<close> at time \<open>now\<close> with its deadline (\<open>None\<close> is infinity): a token, an error, or
  the milliseconds to sleep before the next turn.
\<close>

datatype acquire_turn = Acquired | TimedOut | SleepFor int

definition acquire_step :: "int \<Rightarrow> int option \<Rightarrow> bucket \<Rightarrow> acquire_turn \<times> bucket" where
  "acquire_step now deadline b =
     (case tryAcquire now b of
        (True, b') \<Rightarrow> (Acquired, b')
      | (False, b') \<Rightarrow>
          (let (ms, b2) = msUntilAvailable now b';
               ms' = (if ms = 0 then 10 else ms);
               wait = (case deadline of None \<Rightarrow> ms' | Some d \<Rightarrow> min ms' (d - now))
           in if wait \<le> 0 then (TimedOut, b2) else (SleepFor (max 1 wait), b2)))"

definition pauseFor :: "int \<Rightarrow> int \<Rightarrow> bucket \<Rightarrow> bucket" where
  "pauseFor now ms b =
     (let until = now + max 0 ms in if until > tb_pausedUntil b then b\<lparr>tb_pausedUntil := until\<rparr> else b)"

definition snapshotBucket :: "int \<Rightarrow> bucket \<Rightarrow> bucket" where
  "snapshotBucket now b = refill now b"

section \<open>The per-subject limiter\<close>

record keyed_limiter =
  kl_rate :: rat
  kl_burst :: rat
  kl_maxKeys :: int
  kl_refill :: rat
  kl_buckets :: "(string \<times> bucket) list"

definition windowToRefillPerSec :: "rat \<Rightarrow> rat \<Rightarrow> rat" where
  "windowToRefillPerSec ratePerWindow windowMs = ratePerWindow / (windowMs / 1000)"

definition createKeyedRateLimiter ::
  "rat \<Rightarrow> rat option \<Rightarrow> rat option \<Rightarrow> int option \<Rightarrow> keyed_limiter" where
  "createKeyedRateLimiter ratePerWindow windowMs burst maxKeys =
     (let w = nullish windowMs 60000; r = max 1 ratePerWindow
      in \<lparr>kl_rate = r, kl_burst = max 1 (nullish burst r), kl_maxKeys = max 1 (nullish maxKeys 10000),
          kl_refill = windowToRefillPerSec r w, kl_buckets = []\<rparr>)"

text \<open>Evict from the front while over the cap.\<close>

fun evict :: "int \<Rightarrow> (string \<times> bucket) list \<Rightarrow> (string \<times> bucket) list" where
  "evict cap [] = []"
| "evict cap (p # ps) = (if int (length (p # ps)) > cap then evict cap ps else p # ps)"

definition touch :: "int \<Rightarrow> string \<Rightarrow> keyed_limiter \<Rightarrow> bucket_error + (bucket \<times> keyed_limiter)" where
  "touch now key l =
     (case map_of (kl_buckets l) key of
        Some b \<Rightarrow> Inr (b, l\<lparr>kl_buckets := AList.update key b (AList.delete key (kl_buckets l))\<rparr>)
      | None \<Rightarrow>
          (case createTokenBucket (kl_burst l) (kl_refill l) now of
             Inl e \<Rightarrow> Inl e
           | Inr b \<Rightarrow> Inr (b, l\<lparr>kl_buckets := evict (kl_maxKeys l) (AList.update key b (kl_buckets l))\<rparr>)))"

record rate_decision =
  rd_allowed :: bool
  rd_retryAfter :: int
  rd_limit :: rat

text \<open>The bucket is shared by reference: what \<^verbatim>\<open>tryAcquire\<close> does to it is seen through the map.\<close>

definition put_bucket :: "string \<Rightarrow> bucket \<Rightarrow> keyed_limiter \<Rightarrow> keyed_limiter" where
  "put_bucket key b l =
     (if map_of (kl_buckets l) key = None then l else l\<lparr>kl_buckets := AList.update key b (kl_buckets l)\<rparr>)"

definition check :: "int \<Rightarrow> string \<Rightarrow> keyed_limiter \<Rightarrow> bucket_error + (rate_decision \<times> keyed_limiter)" where
  "check now key l =
     (case touch now key l of
        Inl e \<Rightarrow> Inl e
      | Inr (b, l') \<Rightarrow>
          (case tryAcquire now b of
             (True, b') \<Rightarrow> Inr (\<lparr>rd_allowed = True, rd_retryAfter = 0, rd_limit = kl_rate l'\<rparr>, put_bucket key b' l')
           | (False, b') \<Rightarrow>
               (let (ms, b2) = msUntilAvailable now b'
                in Inr (\<lparr>rd_allowed = False, rd_retryAfter = ms, rd_limit = kl_rate l'\<rparr>, put_bucket key b2 l'))))"

definition limiterSize :: "keyed_limiter \<Rightarrow> nat" where
  "limiterSize l = length (kl_buckets l)"

definition resetKey :: "string \<Rightarrow> keyed_limiter \<Rightarrow> keyed_limiter" where
  "resetKey key l = l\<lparr>kl_buckets := AList.delete key (kl_buckets l)\<rparr>"

definition clearKeys :: "keyed_limiter \<Rightarrow> keyed_limiter" where
  "clearKeys l = l\<lparr>kl_buckets := []\<rparr>"

section \<open>The bucket's invariant\<close>

definition wf_bucket :: "bucket \<Rightarrow> bool" where
  "wf_bucket b \<longleftrightarrow> 0 \<le> tb_tokens b \<and> tb_tokens b \<le> tb_capacity b \<and> 0 < tb_capacity b \<and> 0 < tb_rate b"

lemma wf_bucket_create: "createTokenBucket c r now = Inr b \<Longrightarrow> wf_bucket b"
  by (auto simp: createTokenBucket_def wf_bucket_def split: if_splits)

lemma refill_simps [simp]:
  "tb_capacity (refill now b) = tb_capacity b" "tb_rate (refill now b) = tb_rate b"
  "tb_pausedUntil (refill now b) = tb_pausedUntil b"
  by (simp_all add: refill_def Let_def)

lemma wf_bucket_refill: "wf_bucket b \<Longrightarrow> wf_bucket (refill now b)"
  by (auto simp: wf_bucket_def refill_def Let_def intro!: add_nonneg_nonneg mult_nonneg_nonneg)

lemma wf_bucket_tryAcquire: "wf_bucket b \<Longrightarrow> wf_bucket (snd (tryAcquire now b))"
  using wf_bucket_refill [of b now] by (auto simp: tryAcquire_def Let_def wf_bucket_def)

lemma wf_bucket_ms: "wf_bucket b \<Longrightarrow> wf_bucket (snd (msUntilAvailable now b))"
  using wf_bucket_refill [of b now] by (auto simp: msUntilAvailable_def Let_def)

text \<open>The credit: what a bucket could issue by time \<open>t\<close> at most.\<close>

definition credit :: "int \<Rightarrow> bucket \<Rightarrow> rat" where
  "credit t b = tb_tokens b + of_int (t - tb_lastRefill b) / 1000 * tb_rate b"

lemma credit_refill:
  assumes "0 < tb_rate b"
  shows "credit t (refill now b) \<le> credit t b"
proof (cases "of_int (now - tb_lastRefill b) / (1000::rat) \<le> 0")
  case False
  have "min (tb_capacity b) (tb_tokens b + of_int (now - tb_lastRefill b) / 1000 * tb_rate b) \<le>
      tb_tokens b + of_int (now - tb_lastRefill b) / 1000 * tb_rate b" by simp
  with False show ?thesis by (simp add: credit_def refill_def Let_def field_simps)
qed (simp add: credit_def refill_def)

lemma credit_tryAcquire:
  assumes "0 < tb_rate b" "tryAcquire now b = (ok, b')"
  shows "credit t b' + (if ok then 1 else 0) \<le> credit t b \<and> tb_rate b' = tb_rate b \<and> tb_capacity b' = tb_capacity b"
  using assms credit_refill [OF assms(1), of t now]
  by (auto simp: tryAcquire_def Let_def credit_def split: if_splits)

lemma lastRefill_refill: "tb_lastRefill b \<le> now \<Longrightarrow> tb_lastRefill (refill now b) = now"
  by (auto simp: refill_def Let_def)

fun grants :: "int list \<Rightarrow> bucket \<Rightarrow> nat" where
  "grants [] b = 0"
| "grants (t # ts) b = (case tryAcquire t b of (ok, b') \<Rightarrow> (if ok then 1 else 0) + grants ts b')"

lemma tryAcquire_last:
  "tryAcquire now b = (ok, b') \<Longrightarrow> tb_lastRefill b \<le> now \<Longrightarrow> tb_lastRefill b' \<le> now"
  using lastRefill_refill [of b now] by (auto simp: tryAcquire_def Let_def split: if_splits)

lemma grants_credit:
  assumes "wf_bucket b" "sorted (tb_lastRefill b # ts)" "\<forall>t\<in>set ts. t \<le> T" "tb_lastRefill b \<le> T"
  shows "of_nat (grants ts b) \<le> credit T b"
  using assms
proof (induction ts arbitrary: b)
  case Nil
  then show ?case by (simp add: credit_def wf_bucket_def)
next
  case (Cons t ts)
  obtain ok b' where b': "tryAcquire t b = (ok, b')" by (cases "tryAcquire t b")
  have last: "tb_lastRefill b' \<le> t" using tryAcquire_last [OF b'] Cons.prems(2) by simp
  have "of_nat (grants ts b') \<le> credit T b'"
  proof (rule Cons.IH)
    show "wf_bucket b'" using wf_bucket_tryAcquire [OF Cons.prems(1), of t] b' by simp
    show "sorted (tb_lastRefill b' # ts)" using Cons.prems(2) last by auto
    show "tb_lastRefill b' \<le> T" using last Cons.prems(3) by auto
  qed (use Cons.prems in simp)
  moreover have "credit T b' + (if ok then 1 else 0) \<le> credit T b"
    using credit_tryAcquire [OF _ b'] Cons.prems(1) by (simp add: wf_bucket_def)
  ultimately show ?case using b' by (auto split: if_splits)
qed

section \<open>Properties\<close>


definition demo_bucket :: bucket where
  "demo_bucket = \<lparr>tb_tokens = 2, tb_lastRefill = 0, tb_pausedUntil = 0, tb_capacity = 2, tb_rate = 1\<rparr>"

lemma demo_bucket_create: "createTokenBucket 2 1 0 = Inr demo_bucket"
  by (simp add: createTokenBucket_def demo_bucket_def)


text \<open>
  the wait the limiter reports is enough: a caller that comes back after it, with nobody
  else served or pausing in between, gets a token, if the bucket can hold one at all.
\<close>

theorem retry_after_suffices:
  assumes "wf_bucket b" "1 \<le> tb_capacity b" "tb_lastRefill b \<le> now" "msUntilAvailable now b = (ms, b')"
    "\<not> now < tb_pausedUntil b"
  shows "fst (tryAcquire (now + ms) b')"
proof -
  have rate: "0 < tb_rate b" using assms(1) by (simp add: wf_bucket_def)
  let ?r = "refill now b"
  have r: "tb_lastRefill ?r = now" using lastRefill_refill [OF assms(3)] .
  show ?thesis
  proof (cases "tb_tokens ?r \<ge> 1")
    case True
    then have ms: "ms = 0" "b' = ?r" using assms(4,5) by (simp_all add: msUntilAvailable_def Let_def)
    have "refill now ?r = ?r" using r by (simp add: refill_def)
    then show ?thesis using True ms assms(5) by (simp add: tryAcquire_def Let_def)
  next
    case False
    let ?need = "((1 - tb_tokens ?r) / tb_rate b) * 1000"
    have ms: "ms = \<lceil>?need\<rceil>" "b' = ?r" using False assms(4,5) by (auto simp: msUntilAvailable_def Let_def)
    have pos: "0 < ?need" using False rate by simp
    then have "0 < ms" unfolding ms(1) by simp
    have "?need \<le> of_int ms" unfolding ms(1) by (rule le_of_int_ceiling)
    then have "1 \<le> tb_tokens ?r + of_int ms / 1000 * tb_rate b" using rate by (simp add: field_simps)
    with \<open>0 < ms\<close> r assms(2,5) rate show ?thesis
      unfolding ms(2) by (simp add: tryAcquire_def refill_def [of "now + ms"] Let_def)
  qed
qed

lemma retry_after_suffices_witness:
  "fst (tryAcquire (0 + fst (msUntilAvailable 0 (demo_bucket\<lparr>tb_tokens := 1 / 2\<rparr>)))
     (snd (msUntilAvailable 0 (demo_bucket\<lparr>tb_tokens := 1 / 2\<rparr>))))"
  by (rule retry_after_suffices [of "demo_bucket\<lparr>tb_tokens := 1 / 2\<rparr>"]) (simp_all add: wf_bucket_def demo_bucket_def)

text \<open>
  the constructor accepts a capacity below one, and such a bucket never issues a token,
  at whatever times it is asked.
\<close>

theorem small_bucket_starves:
  assumes "createTokenBucket c r now = Inr b" "c < 1"
  shows "grants ts b = 0"
proof -
  have "grants ts b = 0" if "wf_bucket b" "tb_capacity b < 1" for b
    using that
  proof (induction ts arbitrary: b)
    case (Cons t ts)
    have "tb_tokens (refill t b) < 1"
      using wf_bucket_refill [OF Cons.prems(1), of t] Cons.prems(2) by (simp add: wf_bucket_def)
    then show ?case
      using Cons wf_bucket_tryAcquire [OF Cons.prems(1), of t]
      by (auto simp: tryAcquire_def Let_def wf_bucket_refill split: prod.split)
  qed simp
  moreover have "tb_capacity b = c" using assms(1) by (auto simp: createTokenBucket_def split: if_splits)
  ultimately show ?thesis using wf_bucket_create [OF assms(1)] assms(2) by simp
qed

lemma small_bucket_starves_witness:
  "grants [0, 1000000] \<lparr>tb_tokens = 1 / 2, tb_lastRefill = 0, tb_pausedUntil = 0, tb_capacity = 1 / 2, tb_rate = 1\<rparr> = 0"
  by (rule small_bucket_starves [of "1 / 2" 1 0]) (simp_all add: createTokenBucket_def)

lemma evict_length: "0 \<le> cap \<Longrightarrow> int (length (evict cap ps)) \<le> max 0 cap"
  by (induction ps) auto

lemma evict_snoc: "1 \<le> cap \<Longrightarrow> \<exists>qs. evict cap (ps @ [p]) = qs @ [p] \<and> set qs \<subseteq> set ps"
  by (induction ps) auto

lemma evict_suffix: "wf_map ps \<Longrightarrow> wf_map (evict cap ps)"
  by (induction ps) auto

definition wf_limiter :: "keyed_limiter \<Rightarrow> bool" where
  "wf_limiter l \<longleftrightarrow> 1 \<le> kl_maxKeys l \<and> wf_map (kl_buckets l) \<and> int (limiterSize l) \<le> kl_maxKeys l"

lemma touch_wf:
  assumes "wf_limiter l" "touch now key l = Inr (b, l')"
  shows "wf_limiter l' \<and> map_of (kl_buckets l') key = Some b"
proof (cases "map_of (kl_buckets l) key")
  case (Some b0)
  then have l': "l' = l\<lparr>kl_buckets := AList.update key b (AList.delete key (kl_buckets l))\<rparr>"
    using assms(2) by (auto simp: touch_def)
  have "key \<in> set (keys_of (kl_buckets l))" using Some map_of_eq_None_keys by (metis option.distinct(1))
  then have "length (AList.delete key (kl_buckets l)) < length (kl_buckets l)"
    unfolding AList.delete_eq by (auto intro: length_filter_less)
  moreover have "length (AList.update key b (AList.delete key (kl_buckets l))) = Suc (length (AList.delete key (kl_buckets l)))"
    using delete_notin_dom [of key "kl_buckets l"] by (simp add: length_update)
  ultimately show ?thesis
    using assms(1) unfolding l' by (simp add: wf_limiter_def limiterSize_def)
next
  case None
  then obtain b1 where b1: "b = b1"
    "l' = l\<lparr>kl_buckets := evict (kl_maxKeys l) (kl_buckets l @ [(key, b1)])\<rparr>" "key \<notin> set (keys_of (kl_buckets l))"
    using assms(2) map_of_eq_None_keys [of "kl_buckets l" key]
    by (auto simp: touch_def keys_update_new split: sum.splits)
  obtain qs where qs: "evict (kl_maxKeys l) (kl_buckets l @ [(key, b1)]) = qs @ [(key, b1)]" "set qs \<subseteq> set (kl_buckets l)"
    using evict_snoc [of "kl_maxKeys l" "kl_buckets l" "(key, b1)"] assms(1) by (auto simp: wf_limiter_def)
  have wf: "wf_map (evict (kl_maxKeys l) (kl_buckets l @ [(key, b1)]))"
    using assms(1) b1(3) by (intro evict_suffix) (auto simp: wf_limiter_def)
  have "map_of qs key = None" using qs(2) b1(3) unfolding map_of_eq_None_keys by auto
  with qs(1) wf evict_length [of "kl_maxKeys l" "kl_buckets l @ [(key, b1)]"] assms(1) b1 show ?thesis
    by (simp add: wf_limiter_def limiterSize_def map_add_def)
qed

text \<open>
  the limiter never holds more buckets than its cap, each key once, and the key just checked
  is among them, so memory stays bounded and the current subject is never the one evicted.
\<close>
theorem limiter_bounded:
  assumes "wf_limiter l" "check now key l = Inr (d, l')"
  shows "wf_limiter l' \<and> key \<in> set (keys_of (kl_buckets l'))"
proof -
  obtain b l1 b' where t: "touch now key l = Inr (b, l1)" "l' = put_bucket key b' l1"
    using assms(2) by (auto simp: check_def split: sum.splits prod.splits bool.splits)
  note l1 = touch_wf [OF assms(1) t(1)]
  then have key: "key \<in> set (keys_of (kl_buckets l1))" using map_of_eq_None_keys by (metis option.distinct(1))
  then have "length (AList.update key b' (kl_buckets l1)) = length (kl_buckets l1)" by (simp add: length_update)
  with l1 key t(2) show ?thesis
    by (simp add: put_bucket_def wf_limiter_def limiterSize_def dom_update)
qed

definition demo_limiter :: keyed_limiter where
  "demo_limiter = createKeyedRateLimiter 2 None None (Some 1)"

lemma limiter_bounded_witness:
  "case check 0 ''u1'' demo_limiter of Inl _ \<Rightarrow> False | Inr (d, l) \<Rightarrow> rd_allowed d \<and> wf_limiter l"
proof (cases "check 0 ''u1'' demo_limiter")
  case (Inl e)
  have "(case check 0 ''u1'' demo_limiter of Inl _ \<Rightarrow> False | Inr _ \<Rightarrow> True)" by code_simp
  with Inl show ?thesis by simp
next
  case (Inr p)
  obtain d l where p: "p = (d, l)" by (cases p)
  have "wf_limiter demo_limiter" by (simp add: demo_limiter_def createKeyedRateLimiter_def Let_def wf_limiter_def limiterSize_def)
  note limiter_bounded [OF this Inr [unfolded p]]
  moreover have "(case check 0 ''u1'' demo_limiter of Inl _ \<Rightarrow> False | Inr (d, l) \<Rightarrow> rd_allowed d)" by code_simp
  ultimately show ?thesis using Inr p by simp
qed

end
