(* ===== verification/Concurrency.thy ===== *)
theory Concurrency
  imports Prelude Complex_Main
begin

text \<open>
  The in-flight limiter of the resilience pipeline (\<^verbatim>\<open>packages/resilience/src/concurrency.ts\<close>), the
  operational one with a queue or reject strategy (\<^verbatim>\<open>durable-concurrency.ts\<close>), and the backpressure
  monitor (\<^verbatim>\<open>backpressure.ts\<close>). A waiter is the name of the caller whose promise is queued.
\<close>

datatype verdict = Granted | Queued | Refused

section \<open>The pipeline limiter\<close>

record 'w limiter =
  li_max :: int
  li_maxQueue :: "int option"
  li_active :: int
  li_waiters :: "'w list"

definition createConcurrencyLimiter :: "int \<Rightarrow> int option \<Rightarrow> 'w limiter option" where
  "createConcurrencyLimiter maxConcurrent maxQueue =
     (if maxConcurrent \<le> 0 then None
      else Some \<lparr>li_max = maxConcurrent, li_maxQueue = maxQueue, li_active = 0, li_waiters = []\<rparr>)"

definition limiter_acquire :: "'w \<Rightarrow> 'w limiter \<Rightarrow> verdict \<times> 'w limiter" where
  "limiter_acquire w l =
     (if li_active l < li_max l then (Granted, l\<lparr>li_active := li_active l + 1\<rparr>)
      else if (case li_maxQueue l of None \<Rightarrow> False | Some q \<Rightarrow> int (length (li_waiters l)) \<ge> q) then (Refused, l)
      else (Queued, l\<lparr>li_waiters := li_waiters l @ [w]\<rparr>))"

text \<open>\<^verbatim>\<open>release\<close> hands the slot to the first waiter, whose promise it resolves.\<close>

definition limiter_release :: "'w limiter \<Rightarrow> 'w option \<times> 'w limiter" where
  "limiter_release l =
     (let l1 = l\<lparr>li_active := li_active l - 1\<rparr>
      in case li_waiters l1 of
           [] \<Rightarrow> (None, l1)
         | w # ws \<Rightarrow> (Some w, l1\<lparr>li_waiters := ws, li_active := li_active l1 + 1\<rparr>))"

section \<open>The operational limiter\<close>

datatype strategy = QueueStrategy | RejectStrategy

record 'w durable_limiter =
  du_max :: int
  du_maxQueued :: "int option"
  du_strategy :: strategy
  du_active :: int
  du_queue :: "'w list"

definition createDurableConcurrencyLimiter :: "int \<Rightarrow> int option \<Rightarrow> strategy option \<Rightarrow> 'w durable_limiter" where
  "createDurableConcurrencyLimiter m q st =
     \<lparr>du_max = m, du_maxQueued = q, du_strategy = nullish st QueueStrategy, du_active = 0, du_queue = []\<rparr>"

definition durable_acquire :: "'w \<Rightarrow> 'w durable_limiter \<Rightarrow> verdict \<times> 'w durable_limiter" where
  "durable_acquire w d =
     (if du_active d < du_max d then (Granted, d\<lparr>du_active := du_active d + 1\<rparr>)
      else if du_strategy d = RejectStrategy then (Refused, d)
      else if (case du_maxQueued d of None \<Rightarrow> False | Some q \<Rightarrow> int (length (du_queue d)) \<ge> q) then (Refused, d)
      else (Queued, d\<lparr>du_queue := du_queue d @ [w]\<rparr>))"

definition durable_release :: "'w durable_limiter \<Rightarrow> 'w option \<times> 'w durable_limiter" where
  "durable_release d =
     (case du_queue d of
        w # ws \<Rightarrow> (Some w, d\<lparr>du_queue := ws\<rparr>)
      | [] \<Rightarrow> (None, if du_active d > 0 then d\<lparr>du_active := du_active d - 1\<rparr> else d))"

record durable_status =
  ds_active :: int
  ds_queued :: nat
  ds_available :: int

definition getStatus :: "'w durable_limiter \<Rightarrow> durable_status" where
  "getStatus d = \<lparr>ds_active = du_active d, ds_queued = length (du_queue d),
                  ds_available = max 0 (du_max d - du_active d)\<rparr>"

section \<open>Backpressure\<close>

datatype bp_signal = BpOk | BpWarning | BpCritical | BpOverloaded

record backpressure =
  bp_maxDepth :: rat
  bp_warning :: rat
  bp_critical :: rat
  bp_depth :: rat

definition createBackpressureMonitor :: "rat \<Rightarrow> rat option \<Rightarrow> rat option \<Rightarrow> backpressure" where
  "createBackpressureMonitor m w c =
     \<lparr>bp_maxDepth = m, bp_warning = nullish w (7 / 10), bp_critical = nullish c (9 / 10), bp_depth = 0\<rparr>"

definition bp_record :: "rat \<Rightarrow> backpressure \<Rightarrow> backpressure" where
  "bp_record depth b = b\<lparr>bp_depth := depth\<rparr>"

definition bp_signal :: "backpressure \<Rightarrow> bp_signal" where
  "bp_signal b =
     (if bp_depth b \<ge> bp_maxDepth b then BpOverloaded
      else let ratio = bp_depth b / bp_maxDepth b in
        if ratio \<ge> bp_critical b then BpCritical
        else if ratio \<ge> bp_warning b then BpWarning
        else BpOk)"

definition bp_shouldAccept :: "backpressure \<Rightarrow> bool" where
  "bp_shouldAccept b \<longleftrightarrow> bp_depth b < bp_maxDepth b"

definition bp_reset :: "backpressure \<Rightarrow> backpressure" where
  "bp_reset b = b\<lparr>bp_depth := 0\<rparr>"

lemma bp_overloaded_iff: "bp_signal b = BpOverloaded \<longleftrightarrow> \<not> bp_shouldAccept b"
  by (auto simp: bp_signal_def bp_shouldAccept_def Let_def)

section \<open>The contract of a slot limiter\<close>

locale slot_limiter =
  fixes cap :: "'s \<Rightarrow> int"
    and active :: "'s \<Rightarrow> int"
    and waiting :: "'s \<Rightarrow> 'w list"
    and acquire :: "'w \<Rightarrow> 's \<Rightarrow> verdict \<times> 's"
    and release :: "'s \<Rightarrow> 'w option \<times> 's"
  assumes cap_acquire: "cap (snd (acquire w s)) = cap s"
    and cap_release: "cap (snd (release s)) = cap s"
    and acquire_free: "active s < cap s \<Longrightarrow>
      fst (acquire w s) = Granted \<and> active (snd (acquire w s)) = active s + 1 \<and> waiting (snd (acquire w s)) = waiting s"
    and acquire_full: "\<not> active s < cap s \<Longrightarrow>
      (fst (acquire w s) = Refused \<and> active (snd (acquire w s)) = active s \<and> waiting (snd (acquire w s)) = waiting s) \<or>
      (fst (acquire w s) = Queued \<and> active (snd (acquire w s)) = active s \<and> waiting (snd (acquire w s)) = waiting s @ [w])"
    and release_next: "waiting s = w # ws \<Longrightarrow>
      fst (release s) = Some w \<and> active (snd (release s)) = active s \<and> waiting (snd (release s)) = ws"
    and release_none: "waiting s = [] \<Longrightarrow> 0 < active s \<Longrightarrow>
      fst (release s) = None \<and> active (snd (release s)) = active s - 1 \<and> waiting (snd (release s)) = []"
begin

text \<open>The holders of a slot, the callers that were granted one and have not released it.\<close>

definition sound :: "'s \<Rightarrow> 'w list \<Rightarrow> bool" where
  "sound s holders \<longleftrightarrow> active s = int (length holders) \<and> int (length holders) \<le> cap s \<and>
     (waiting s \<noteq> [] \<longrightarrow> int (length holders) = cap s)"

lemma sound_acquire:
  assumes "sound s hs"
  shows "sound (snd (acquire w s)) (if fst (acquire w s) = Granted then hs @ [w] else hs)"
proof (cases "active s < cap s")
  case True
  with assms acquire_free [OF True, of w] show ?thesis by (auto simp: sound_def cap_acquire)
next
  case False
  with assms acquire_full [OF False, of w] show ?thesis by (auto simp: sound_def cap_acquire)
qed

lemma sound_release:
  assumes "sound s hs" "h \<in> set hs"
  shows "sound (snd (release s)) (remove1 h hs @ (case fst (release s) of None \<Rightarrow> [] | Some w \<Rightarrow> [w]))"
proof -
  have len: "Suc (length (remove1 h hs)) = length hs" using assms(2) by (simp add: length_remove1) (metis Suc_pred length_pos_if_in_set)
  show ?thesis
  proof (cases "waiting s")
    case Nil
    have "0 < active s" using assms by (cases hs) (auto simp: sound_def)
    with release_none [OF Nil] assms(1) len show ?thesis by (auto simp: sound_def cap_release)
  next
    case (Cons w ws)
    with release_next [OF Cons] assms(1) len show ?thesis by (auto simp: sound_def cap_release)
  qed
qed

end

interpretation pipe: slot_limiter li_max li_active li_waiters limiter_acquire limiter_release
proof
  fix s :: "'w limiter" and w :: 'w
  show "\<not> li_active s < li_max s \<Longrightarrow>
      (fst (limiter_acquire w s) = Refused \<and> li_active (snd (limiter_acquire w s)) = li_active s \<and>
        li_waiters (snd (limiter_acquire w s)) = li_waiters s) \<or>
      (fst (limiter_acquire w s) = Queued \<and> li_active (snd (limiter_acquire w s)) = li_active s \<and>
        li_waiters (snd (limiter_acquire w s)) = li_waiters s @ [w])"
    by (auto simp: limiter_acquire_def split: option.split)
qed (auto simp: limiter_acquire_def limiter_release_def Let_def split: list.split option.split)

interpretation oper: slot_limiter du_max du_active du_queue durable_acquire durable_release
proof
  fix s :: "'w durable_limiter" and w :: 'w
  show "\<not> du_active s < du_max s \<Longrightarrow>
      (fst (durable_acquire w s) = Refused \<and> du_active (snd (durable_acquire w s)) = du_active s \<and>
        du_queue (snd (durable_acquire w s)) = du_queue s) \<or>
      (fst (durable_acquire w s) = Queued \<and> du_active (snd (durable_acquire w s)) = du_active s \<and>
        du_queue (snd (durable_acquire w s)) = du_queue s @ [w])"
    by (auto simp: durable_acquire_def split: option.split)
qed (auto simp: durable_acquire_def durable_release_def split: list.split option.split)

section \<open>Reachable states of the pipeline limiter\<close>

text \<open>Callers acquire at any time; a holder releases its slot once, waking the next waiter.\<close>

inductive limiter_run :: "int \<Rightarrow> int option \<Rightarrow> 'w limiter \<Rightarrow> 'w list \<Rightarrow> bool" for m q where
  lr_create: "createConcurrencyLimiter m q = Some l \<Longrightarrow> limiter_run m q l []"
| lr_acquire: "limiter_run m q l hs \<Longrightarrow> limiter_acquire w l = (v, l') \<Longrightarrow>
    limiter_run m q l' (if v = Granted then hs @ [w] else hs)"
| lr_release: "limiter_run m q l hs \<Longrightarrow> h \<in> set hs \<Longrightarrow> limiter_release l = (woken, l') \<Longrightarrow>
    limiter_run m q l' (remove1 h hs @ (case woken of None \<Rightarrow> [] | Some w \<Rightarrow> [w]))"

inductive durable_run :: "int \<Rightarrow> int option \<Rightarrow> strategy option \<Rightarrow> 'w durable_limiter \<Rightarrow> 'w list \<Rightarrow> bool" for m q st where
  dr_create: "0 \<le> m \<Longrightarrow> durable_run m q st (createDurableConcurrencyLimiter m q st) []"
| dr_acquire: "durable_run m q st l hs \<Longrightarrow> durable_acquire w l = (v, l') \<Longrightarrow>
    durable_run m q st l' (if v = Granted then hs @ [w] else hs)"
| dr_release: "durable_run m q st l hs \<Longrightarrow> h \<in> set hs \<Longrightarrow> durable_release l = (woken, l') \<Longrightarrow>
    durable_run m q st l' (remove1 h hs @ (case woken of None \<Rightarrow> [] | Some w \<Rightarrow> [w]))"

lemma limiter_run_sound: "limiter_run m q l hs \<Longrightarrow> pipe.sound l hs \<and> li_max l = m \<and> li_maxQueue l = q"
proof (induction rule: limiter_run.induct)
  case (lr_create l)
  then show ?case by (auto simp: createConcurrencyLimiter_def pipe.sound_def split: if_splits)
next
  case (lr_acquire l hs w v l')
  then show ?case using pipe.sound_acquire [of l hs w] by (auto simp: limiter_acquire_def split: if_splits option.splits)
next
  case (lr_release l hs h woken l')
  then show ?case using pipe.sound_release [of l hs h] by (auto simp: limiter_release_def Let_def split: list.splits)
qed

lemma durable_run_sound: "durable_run m q st l hs \<Longrightarrow> oper.sound l hs \<and> du_max l = m"
proof (induction rule: durable_run.induct)
  case dr_create
  then show ?case by (simp add: createDurableConcurrencyLimiter_def oper.sound_def)
next
  case (dr_acquire l hs w v l')
  then show ?case using oper.sound_acquire [of l hs w] by (auto simp: durable_acquire_def split: if_splits option.splits)
next
  case (dr_release l hs h woken l')
  then show ?case using oper.sound_release [of l hs h] by (auto simp: durable_release_def split: list.splits)
qed

section \<open>Properties\<close>



text \<open>
  the same holds of the operational limiter under either strategy, and the availability it
  reports is exactly the number of free slots.
\<close>

theorem durable_limiter_safe:
  assumes "durable_run m q st l hs"
  shows "int (length hs) \<le> m \<and> ds_available (getStatus l) = m - int (length hs) \<and>
    (ds_queued (getStatus l) = 0 \<or> ds_available (getStatus l) = 0)"
  using durable_run_sound [OF assms] by (auto simp: oper.sound_def getStatus_def)

lemma durable_limiter_safe_witness:
  "ds_available (getStatus (snd (durable_acquire ''a'' (createDurableConcurrencyLimiter 2 None None)))) = 1"
proof -
  have "durable_run 2 None None (snd (durable_acquire ''a'' (createDurableConcurrencyLimiter 2 None None))) [''a'']"
    using dr_acquire [OF dr_create [of 2 None None], of "''a''" Granted]
    by (simp add: durable_acquire_def createDurableConcurrencyLimiter_def)
  from durable_limiter_safe [OF this] show ?thesis by simp
qed

end
