(* ===== verification/Latency.thy ===== *)
theory Latency
  imports Prelude Complex_Main
begin

text \<open>
  The sliding-window latency percentiles and the throughput median per endpoint,
  \<^verbatim>\<open>packages/resilience/src/latency-tracker.ts\<close>. Samples are rationals, times integer milliseconds.
\<close>

section \<open>The latency tracker\<close>

type_synonym samples = "(rat \<times> int) list"

record tracker =
  lt_windowSize :: int
  lt_windowMs :: int
  lt_minSamples :: int
  lt_store :: "(string \<times> samples) list"

definition createLatencyTracker :: "int option \<Rightarrow> int option \<Rightarrow> int option \<Rightarrow> tracker" where
  "createLatencyTracker wsize ms minS =
     \<lparr>lt_windowSize = nullish wsize 100, lt_windowMs = nullish ms 60000, lt_minSamples = nullish minS 10, lt_store = []\<rparr>"

definition getOrCreate :: "string \<Rightarrow> tracker \<Rightarrow> samples \<times> tracker" where
  "getOrCreate ep t =
     (case map_of (lt_store t) ep of
        Some arr \<Rightarrow> (arr, t)
      | None \<Rightarrow> ([], t\<lparr>lt_store := AList.update ep [] (lt_store t)\<rparr>))"

text \<open>Drop the expired prefix, then the oldest above the cap (\<^verbatim>\<open>splice(0, n)\<close>).\<close>

definition trim :: "int \<Rightarrow> int \<Rightarrow> int \<Rightarrow> samples \<Rightarrow> samples" where
  "trim now windowMs windowSize arr =
     (let cutoff = now - windowMs;
          kept = dropWhile (\<lambda>p. snd p < cutoff) arr
      in if int (length kept) > windowSize then drop (nat (int (length kept) - windowSize)) kept else kept)"

definition percentile :: "rat list \<Rightarrow> rat \<Rightarrow> rat" where
  "percentile srt p =
     (if srt = [] then 0
      else srt ! nat (min \<lfloor>of_nat (length srt) * p\<rfloor> (int (length srt) - 1)))"

definition put_samples :: "string \<Rightarrow> samples \<Rightarrow> tracker \<Rightarrow> tracker" where
  "put_samples ep arr t = t\<lparr>lt_store := AList.update ep arr (lt_store t)\<rparr>"

definition recordSample :: "int \<Rightarrow> string \<Rightarrow> rat \<Rightarrow> tracker \<Rightarrow> tracker" where
  "recordSample now ep ms t =
     (let (arr, t') = getOrCreate ep t
      in put_samples ep (trim now (lt_windowMs t') (lt_windowSize t') (arr @ [(ms, now)])) t')"

record latency_snapshot =
  ls_p50 :: rat
  ls_p95 :: rat
  ls_p99 :: rat
  ls_count :: nat
  ls_windowMs :: int

definition getSnapshot :: "int \<Rightarrow> string \<Rightarrow> tracker \<Rightarrow> latency_snapshot option \<times> tracker" where
  "getSnapshot now ep t =
     (let (arr, t1) = getOrCreate ep t;
          arr' = trim now (lt_windowMs t1) (lt_windowSize t1) arr;
          t2 = put_samples ep arr' t1
      in if int (length arr') < lt_minSamples t then (None, t2)
         else (let srt = sort (map fst arr')
               in (Some \<lparr>ls_p50 = percentile srt (1 / 2), ls_p95 = percentile srt (95 / 100),
                         ls_p99 = percentile srt (99 / 100), ls_count = length srt,
                         ls_windowMs = lt_windowMs t\<rparr>, t2)))"

definition resetTracker :: "string option \<Rightarrow> tracker \<Rightarrow> tracker" where
  "resetTracker ep t =
     (case ep of
        Some e \<Rightarrow> if e = [] then t\<lparr>lt_store := []\<rparr> else t\<lparr>lt_store := AList.delete e (lt_store t)\<rparr>
      | None \<Rightarrow> t\<lparr>lt_store := []\<rparr>)"

section \<open>The throughput tracker\<close>

definition createThroughputTracker :: "int option \<Rightarrow> int option \<Rightarrow> int option \<Rightarrow> tracker" where
  "createThroughputTracker wsize ms minS =
     \<lparr>lt_windowSize = nullish wsize 100, lt_windowMs = nullish ms 60000, lt_minSamples = nullish minS 5, lt_store = []\<rparr>"

definition recordThroughput :: "int \<Rightarrow> string \<Rightarrow> rat \<Rightarrow> rat \<Rightarrow> tracker \<Rightarrow> tracker" where
  "recordThroughput now ep durationMs outputTokens t =
     (if outputTokens \<le> 0 then t
      else let (arr, t') = getOrCreate ep t
        in put_samples ep (trim now (lt_windowMs t') (lt_windowSize t') (arr @ [(durationMs / outputTokens, now)])) t')"

definition getP50MsPerToken :: "int \<Rightarrow> string \<Rightarrow> tracker \<Rightarrow> rat option \<times> tracker" where
  "getP50MsPerToken now ep t =
     (let (arr, t1) = getOrCreate ep t;
          arr' = trim now (lt_windowMs t1) (lt_windowSize t1) arr;
          t2 = put_samples ep arr' t1
      in if int (length arr') < lt_minSamples t then (None, t2)
         else (let srt = sort (map fst arr');
                   i = min \<lfloor>of_nat (length srt) * (1 / 2 :: rat)\<rfloor> (int (length srt) - 1)
               in (if 0 \<le> i then Some (srt ! nat i) else None, t2)))"

section \<open>Lemmas\<close>

lemma percentile_index:
  assumes "srt \<noteq> []" "0 \<le> p"
  shows "nat (min \<lfloor>of_nat (length srt) * p\<rfloor> (int (length srt) - 1)) < length srt"
proof -
  have "0 < int (length srt)" using assms(1) by simp
  then show ?thesis by linarith
qed

lemma percentile_mem: "srt \<noteq> [] \<Longrightarrow> 0 \<le> p \<Longrightarrow> percentile srt p \<in> set srt"
  using percentile_index [of srt p] by (simp add: percentile_def)

lemma percentile_mono:
  assumes "sorted srt" "0 \<le> p" "p \<le> q"
  shows "percentile srt p \<le> percentile srt q"
proof (cases "srt = []")
  case False
  have "of_nat (length srt) * p \<le> of_nat (length srt) * q" using assms(3) by (intro mult_left_mono) simp_all
  then have "\<lfloor>of_nat (length srt) * p\<rfloor> \<le> \<lfloor>of_nat (length srt) * q\<rfloor>" by (rule floor_mono)
  then have "nat (min \<lfloor>of_nat (length srt) * p\<rfloor> (int (length srt) - 1)) \<le>
      nat (min \<lfloor>of_nat (length srt) * q\<rfloor> (int (length srt) - 1))" by (intro nat_mono) linarith
  with False assms percentile_index [OF False, of q] show ?thesis
    by (simp add: percentile_def sorted_nth_mono)
qed (simp add: percentile_def)

lemma trim_length: "0 \<le> windowSize \<Longrightarrow> int (length (trim now windowMs windowSize arr)) \<le> windowSize"
  by (auto simp: trim_def Let_def)

lemma set_trim: "set (trim now windowMs windowSize arr) \<subseteq> set arr"
proof
  fix x assume "x \<in> set (trim now windowMs windowSize arr)"
  then have "x \<in> set (dropWhile (\<lambda>p. snd p < now - windowMs) arr)"
    by (auto simp: trim_def Let_def dest: in_set_dropD split: if_splits)
  then show "x \<in> set arr" using set_dropWhileD by fastforce
qed

lemma dropWhile_recent:
  "sorted (map snd arr) \<Longrightarrow> p \<in> set (dropWhile (\<lambda>p. snd p < c) arr) \<Longrightarrow> c \<le> snd (p :: rat \<times> int)"
  by (induction arr) (auto split: if_splits)

lemma trim_recent:
  assumes "sorted (map snd arr)" "p \<in> set (trim now windowMs windowSize arr)"
  shows "now - windowMs \<le> snd p"
proof -
  have "p \<in> set (dropWhile (\<lambda>p. snd p < now - windowMs) arr)"
    using assms(2) by (auto simp: trim_def Let_def dest: in_set_dropD split: if_splits)
  then show ?thesis by (rule dropWhile_recent [OF assms(1)])
qed

section \<open>Properties\<close>

text \<open>
  a snapshot is made of real recent samples in the right order: it has at least the minimum and
  at most the window's number of samples, p50, p95 and p99 are each one of the recorded latencies, all within
  the time window, and p50 is at most p95 at most p99.
\<close>

theorem snapshot_sound:
  assumes "getSnapshot now ep t = (Some s, t')" "0 < lt_minSamples t" "0 \<le> lt_windowSize t"
    "sorted (map snd (fst (getOrCreate ep t)))"
  shows "ls_p50 s \<le> ls_p95 s \<and> ls_p95 s \<le> ls_p99 s \<and>
    {ls_p50 s, ls_p95 s, ls_p99 s} \<subseteq> fst ` {x \<in> set (fst (getOrCreate ep t)). now - lt_windowMs t \<le> snd x} \<and>
    lt_minSamples t \<le> int (ls_count s) \<and> int (ls_count s) \<le> lt_windowSize t"
proof -
  obtain arr t1 where arr: "getOrCreate ep t = (arr, t1)" by (cases "getOrCreate ep t")
  have par: "lt_windowMs t1 = lt_windowMs t" "lt_windowSize t1 = lt_windowSize t"
    using arr by (auto simp: getOrCreate_def split: option.splits)
  let ?arr = "trim now (lt_windowMs t) (lt_windowSize t) arr"
  let ?srt = "sort (map fst ?arr)"
  have s: "s = \<lparr>ls_p50 = percentile ?srt (1 / 2), ls_p95 = percentile ?srt (95 / 100),
      ls_p99 = percentile ?srt (99 / 100), ls_count = length ?srt, ls_windowMs = lt_windowMs t\<rparr>"
    and n: "lt_minSamples t \<le> int (length ?arr)"
    using assms(1) by (auto simp: getSnapshot_def arr par Let_def split: if_splits)
  have "?srt \<noteq> []" using n assms(2) by (metis length_map length_sort list.size(3) not_le of_nat_0)
  have sub: "set ?srt \<subseteq> fst ` {x \<in> set arr. now - lt_windowMs t \<le> snd x}"
    using set_trim [of now "lt_windowMs t" "lt_windowSize t" arr]
      trim_recent [of arr _ now "lt_windowMs t" "lt_windowSize t"] assms(4) by (auto simp: arr)
  have mem: "percentile ?srt p \<in> set ?srt" if "0 \<le> p" for p
    using percentile_mem [OF \<open>?srt \<noteq> []\<close> that] .
  have "percentile ?srt (1 / 2) \<le> percentile ?srt (95 / 100)" "percentile ?srt (95 / 100) \<le> percentile ?srt (99 / 100)"
    by (rule percentile_mono; simp)+
  moreover have "{percentile ?srt (1 / 2), percentile ?srt (95 / 100), percentile ?srt (99 / 100)} \<subseteq> set ?srt"
    using mem [of "1 / 2"] mem [of "95 / 100"] mem [of "99 / 100"] by simp
  ultimately show ?thesis
    using n trim_length [OF assms(3), of now "lt_windowMs t" arr] sub unfolding s arr by auto
qed

definition demo_tracker :: tracker where
  "demo_tracker = fold (\<lambda>p t. recordSample (fst p) ''ep'' (snd p) t) [(0, 10), (5, 30), (9, 20)]
     (createLatencyTracker None None (Some 2))"

lemma snapshot_sound_witness:
  "case fst (getSnapshot 10 ''ep'' demo_tracker) of None \<Rightarrow> False | Some s \<Rightarrow> ls_p50 s = 20 \<and> ls_p50 s \<le> ls_p95 s"
proof (cases "getSnapshot 10 ''ep'' demo_tracker")
  case (Pair o' t')
  have "(case fst (getSnapshot 10 ''ep'' demo_tracker) of None \<Rightarrow> False | Some s \<Rightarrow> ls_p50 s = 20)" by code_simp
  then obtain s where s: "o' = Some s" "ls_p50 s = 20" using Pair by (auto split: option.splits)
  have "0 < lt_minSamples demo_tracker" "0 \<le> lt_windowSize demo_tracker"
    "sorted (map snd (fst (getOrCreate ''ep'' demo_tracker)))" by code_simp+
  from snapshot_sound [OF Pair [unfolded s(1)] this] s Pair show ?thesis by simp
qed

end
