(* ===== verification/Endpoints.thy ===== *)
theory Endpoints
  imports CircuitBreaker RateLimit Concurrency Latency
begin

text \<open>
  The endpoint registries (\<^verbatim>\<open>packages/resilience/src/endpoint-registry.ts\<close>), the signal bus
  (\<^verbatim>\<open>signal-bus.ts\<close>) and the runtime adapter over both (\<^verbatim>\<open>runtime-adapter.ts\<close>).

  The state of an endpoint is shared by reference between every caller: here it is the value the registry
  holds for the endpoint. The key-value slot of the durable registry holds the JSON text of a breaker
  snapshot; the model keeps the snapshot itself.
\<close>

section \<open>The registry\<close>

record endpoint_options =
  eo_rateLimit :: "(rat \<times> rat) option"
  eo_concurrency :: "(int \<times> int option) option"
  eo_circuit :: "(int \<times> int) option"

record endpoint_state =
  es_endpoint :: string
  es_rateLimit :: "bucket option"
  es_concurrency :: "string limiter option"
  es_circuit :: "breaker option"

datatype registry_error = BadEndpointOptions

text \<open>An optional component: absent, created, or refused by its constructor.\<close>

definition made :: "'e + 'a \<Rightarrow> registry_error + 'a option" where
  "made x = (case x of Inl _ \<Rightarrow> Inl BadEndpointOptions | Inr a \<Rightarrow> Inr (Some a))"

definition new_endpoint :: "int \<Rightarrow> string \<Rightarrow> endpoint_options option \<Rightarrow> registry_error + endpoint_state" where
  "new_endpoint now ep opts =
     (let rate = (case Option.bind opts eo_rateLimit of None \<Rightarrow> Inr None
                  | Some (c, r) \<Rightarrow> made (createTokenBucket c r now));
          conc = (case Option.bind opts eo_concurrency of None \<Rightarrow> Inr None
                  | Some (m, q) \<Rightarrow> (case createConcurrencyLimiter m q of None \<Rightarrow> Inl BadEndpointOptions | Some l \<Rightarrow> Inr (Some l)));
          circ = (case Option.bind opts eo_circuit of None \<Rightarrow> Inr None
                  | Some (n, c) \<Rightarrow> made (createCircuitBreaker n c))
      in case (rate, conc, circ) of
           (Inr rl, Inr cl, Inr cb) \<Rightarrow>
             Inr \<lparr>es_endpoint = ep, es_rateLimit = rl, es_concurrency = cl, es_circuit = cb\<rparr>
         | _ \<Rightarrow> Inl BadEndpointOptions)"

type_synonym registry = "(string \<times> endpoint_state) list"

definition getOrCreateEndpointState ::
  "int \<Rightarrow> string \<Rightarrow> endpoint_options option \<Rightarrow> registry \<Rightarrow> (registry_error + endpoint_state) \<times> registry" where
  "getOrCreateEndpointState now ep opts reg =
     (case map_of reg ep of
        Some s \<Rightarrow> (Inr s, reg)
      | None \<Rightarrow> (case new_endpoint now ep opts of
            Inl e \<Rightarrow> (Inl e, reg)
          | Inr s \<Rightarrow> (Inr s, AList.update ep s reg)))"

definition getEndpointState :: "string \<Rightarrow> registry \<Rightarrow> endpoint_state option" where
  "getEndpointState ep reg = map_of reg ep"

definition listEndpointStates :: "registry \<Rightarrow> endpoint_state list" where
  "listEndpointStates reg = map snd reg"

section \<open>The durable registry\<close>

text \<open>The circuits of the local process and the snapshots the slot holds.\<close>

record durable_registry =
  dre_local :: registry
  dre_kv :: "(string \<times> breaker) list"
  dre_ns :: string

definition circuitKey :: "durable_registry \<Rightarrow> string \<Rightarrow> string" where
  "circuitKey d ep = dre_ns d @ '':circuit:'' @ ep"

definition persistCircuit :: "int \<Rightarrow> string \<Rightarrow> breaker \<Rightarrow> durable_registry \<Rightarrow> breaker \<times> durable_registry" where
  "persistCircuit now ep b d =
     (let (snap, b') = snapshotBreaker now b
      in (b', d\<lparr>dre_kv := AList.update (circuitKey d ep) snap (dre_kv d)\<rparr>))"

definition restoreCircuit :: "int \<Rightarrow> string \<Rightarrow> breaker \<Rightarrow> durable_registry \<Rightarrow> breaker" where
  "restoreCircuit now ep b d =
     (case map_of (dre_kv d) (circuitKey d ep) of
        None \<Rightarrow> b
      | Some snap \<Rightarrow>
          if (cb_state snap = Open \<or> cb_state snap = HalfOpen) \<and> now < cb_openedAt snap + cb_cooldown snap
          then ((\<lambda>b. snd (recordFailure now b)) ^^ nat (cb_threshold snap)) b else b)"

text \<open>The wrapped breaker: each write is followed by a snapshot to the slot.\<close>

definition set_circuit :: "string \<Rightarrow> breaker \<Rightarrow> durable_registry \<Rightarrow> durable_registry" where
  "set_circuit ep b d =
     d\<lparr>dre_local := map (\<lambda>(k, s). (k, if k = ep then s\<lparr>es_circuit := Some b\<rparr> else s)) (dre_local d)\<rparr>"

definition wrap_write :: "int \<Rightarrow> string \<Rightarrow> (breaker \<Rightarrow> 'a \<times> breaker) \<Rightarrow> durable_registry \<Rightarrow> 'a option \<times> durable_registry" where
  "wrap_write now ep f d =
     (case Option.bind (map_of (dre_local d) ep) es_circuit of
        None \<Rightarrow> (None, d)
      | Some b \<Rightarrow> (let (res, b1) = f b; (b2, d') = persistCircuit now ep b1 d in (Some res, set_circuit ep b2 d')))"

definition durable_recordSuccess :: "int \<Rightarrow> string \<Rightarrow> durable_registry \<Rightarrow> durable_registry" where
  "durable_recordSuccess now ep d = snd (wrap_write now ep (\<lambda>b. ((), recordSuccess b)) d)"

definition durable_recordFailure ::
  "int \<Rightarrow> string \<Rightarrow> durable_registry \<Rightarrow> failure_report option \<times> durable_registry" where
  "durable_recordFailure now ep d = wrap_write now ep (recordFailure now) d"

definition durable_reset :: "int \<Rightarrow> string \<Rightarrow> durable_registry \<Rightarrow> durable_registry" where
  "durable_reset now ep d = snd (wrap_write now ep (\<lambda>b. ((), resetBreaker b)) d)"

definition durable_getOrCreate ::
  "int \<Rightarrow> string \<Rightarrow> endpoint_options option \<Rightarrow> durable_registry \<Rightarrow>
     (registry_error + endpoint_state) \<times> durable_registry" where
  "durable_getOrCreate now ep opts d =
     (case map_of (dre_local d) ep of
        Some s \<Rightarrow> (Inr s, d)
      | None \<Rightarrow> (case new_endpoint now ep opts of
            Inl e \<Rightarrow> (Inl e, d)
          | Inr s \<Rightarrow>
              (let s' = s\<lparr>es_circuit := map_option (\<lambda>b. restoreCircuit now ep b d) (es_circuit s)\<rparr>
               in (Inr s', d\<lparr>dre_local := AList.update ep s' (dre_local d)\<rparr>))))"

section \<open>The signal bus\<close>

datatype signal_kind =
    SRateLimited | SRetrying | SCircuitOpened | SCircuitHalfOpened | SCircuitClosed | SShed | SSuccess | SFailed

text \<open>Listeners are names; \<open>emit\<close> gives the listeners called, in order (a throwing one is isolated).\<close>

record signal_bus =
  sb_all :: "string list"
  sb_byKind :: "(signal_kind \<times> string list) list"

definition bus_emit :: "signal_kind \<Rightarrow> signal_bus \<Rightarrow> string list" where
  "bus_emit k b = sb_all b @ nullish (map_of (sb_byKind b) k) []"

definition bus_on :: "string \<Rightarrow> signal_bus \<Rightarrow> signal_bus" where
  "bus_on l b = (if l \<in> set (sb_all b) then b else b\<lparr>sb_all := sb_all b @ [l]\<rparr>)"

definition bus_off :: "string \<Rightarrow> signal_bus \<Rightarrow> signal_bus" where
  "bus_off l b = b\<lparr>sb_all := removeAll l (sb_all b)\<rparr>"

text \<open>\<^verbatim>\<open>onKind\<close> wraps the listener in a fresh closure, so the same listener may be added twice.\<close>

definition bus_onKind :: "signal_kind \<Rightarrow> string \<Rightarrow> signal_bus \<Rightarrow> signal_bus" where
  "bus_onKind k l b = b\<lparr>sb_byKind := AList.update k (nullish (map_of (sb_byKind b) k) [] @ [l]) (sb_byKind b)\<rparr>"

definition bus_clear :: "signal_bus \<Rightarrow> signal_bus" where
  "bus_clear b = b\<lparr>sb_all := [], sb_byKind := []\<rparr>"

section \<open>The runtime adapter\<close>

definition adapter_getState :: "int \<Rightarrow> string \<Rightarrow> registry \<Rightarrow> circuit_state option" where
  "adapter_getState now ep reg =
     map_option (\<lambda>b. fst (stateNow now b)) (Option.bind (getEndpointState ep reg) es_circuit)"

definition adapter_getLatencyP50 :: "int \<Rightarrow> string \<Rightarrow> tracker \<Rightarrow> rat option" where
  "adapter_getLatencyP50 now ep t = map_option ls_p50 (fst (getSnapshot now ep t))"

definition adapter_getLatencyP95 :: "int \<Rightarrow> string \<Rightarrow> tracker \<Rightarrow> rat option" where
  "adapter_getLatencyP95 now ep t = map_option ls_p95 (fst (getSnapshot now ep t))"

section \<open>Properties\<close>

text \<open>
  the first registration of an endpoint wins: whatever options later callers bring, they get the
  state the first one created, so every caller in the process shares one bucket, limiter and breaker.
\<close>

theorem first_registration_wins:
  assumes "getOrCreateEndpointState now ep opts reg = (Inr s, reg')"
  shows "getOrCreateEndpointState now' ep opts' reg' = (Inr s, reg') \<and>
    (\<forall>ep'. ep' = ep \<or> getEndpointState ep' reg' = getEndpointState ep' reg)"
  using assms
  by (auto simp: getOrCreateEndpointState_def getEndpointState_def split: option.splits sum.splits if_splits)

lemma first_registration_wins_witness:
  "case fst (getOrCreateEndpointState 9 ''api'' None (snd (getOrCreateEndpointState 0 ''api''
      (Some \<lparr>eo_rateLimit = Some (2, 1), eo_concurrency = None, eo_circuit = None\<rparr>) []))) of
     Inl _ \<Rightarrow> False | Inr s \<Rightarrow> es_rateLimit s = Some demo_bucket"
proof -
  let ?o = "Some \<lparr>eo_rateLimit = Some (2, 1), eo_concurrency = None, eo_circuit = None\<rparr>"
  let ?s = "\<lparr>es_endpoint = ''api'', es_rateLimit = Some demo_bucket, es_concurrency = None, es_circuit = None\<rparr>"
  have "getOrCreateEndpointState 0 ''api'' ?o [] = (Inr ?s, [(''api'', ?s)])"
    by (simp add: getOrCreateEndpointState_def new_endpoint_def made_def demo_bucket_create)
  from first_registration_wins [OF this] this show ?thesis by simp
qed

lemma record_failures:
  assumes "cb_state b = Closed" "wf_breaker b"
  shows "cb_failures (((\<lambda>b. snd (recordFailure now b)) ^^ n) b) = cb_failures b + int n \<and>
    cb_threshold (((\<lambda>b. snd (recordFailure now b)) ^^ n) b) = cb_threshold b \<and>
    cb_cooldown (((\<lambda>b. snd (recordFailure now b)) ^^ n) b) = cb_cooldown b \<and>
    (if cb_failures b + int n < cb_threshold b then cb_state (((\<lambda>b. snd (recordFailure now b)) ^^ n) b) = Closed
     else cb_state (((\<lambda>b. snd (recordFailure now b)) ^^ n) b) = Open \<and>
       cb_openedAt (((\<lambda>b. snd (recordFailure now b)) ^^ n) b) = now)"
proof (induction n)
  case 0
  with assms show ?case by (simp add: wf_breaker_def)
next
  case (Suc n)
  then show ?case by (auto simp: recordFailure_def Let_def split: if_splits)
qed

text \<open>
  a known-bad endpoint stays open over a restart when the breaker's threshold did not grow: a
  breaker restored from a snapshot that is still cooling down is open from now on for a full cooldown.
\<close>
theorem restore_keeps_open:
  assumes "map_of (dre_kv d) (circuitKey d ep) = Some snap" "cb_state snap = Open" "now < cb_openedAt snap + cb_cooldown snap"
    "createCircuitBreaker n c = Inr b"
  shows "cb_state (restoreCircuit now ep b d) = (if n \<le> cb_threshold snap then Open else Closed) \<and>
    (cb_threshold snap < n \<or> fst (canPass t (restoreCircuit now ep b d)) = (if t < now + c then Rejected (now + c) else Allowed))"
proof -
  have b: "cb_state b = Closed" "cb_failures b = 0" "cb_threshold b = n" "cb_cooldown b = c" "0 < n"
    using assms(4) by (auto simp: createCircuitBreaker_def split: if_splits)
  have r: "restoreCircuit now ep b d = ((\<lambda>b. snd (recordFailure now b)) ^^ nat (cb_threshold snap)) b"
    using assms(1-3) by (simp add: restoreCircuit_def)
  show ?thesis
    using record_failures [OF b(1) wf_breaker_create [OF assms(4)], of "nat (cb_threshold snap)" now] b
    unfolding r [symmetric] by (auto simp: canPass_def maybeTransitionToHalfOpen_def Let_def split: if_splits)
qed

text \<open>With a higher threshold in the new configuration the bad endpoint comes back closed.\<close>

lemma restore_keeps_open_witness:
  "cb_state (restoreCircuit 50 ''api'' demo_breaker
     \<lparr>dre_local = [], dre_kv = [(''er:circuit:api'', demo_breaker\<lparr>cb_threshold := 1, cb_state := Open, cb_openedAt := 40\<rparr>)],
      dre_ns = ''er''\<rparr>) = Closed"
  (is "cb_state (restoreCircuit 50 ''api'' demo_breaker ?d) = Closed")
proof -
  let ?s = "demo_breaker\<lparr>cb_threshold := 1, cb_state := Open, cb_openedAt := 40\<rparr>"
  have "map_of (dre_kv ?d) (circuitKey ?d ''api'') = Some ?s" by (simp add: circuitKey_def)
  from restore_keeps_open [OF this _ _ demo_breaker_create, of 50 0] show ?thesis by (simp add: demo_breaker_def)
qed

end
