(* ===== verification/RetryRules.thy ===== *)
theory RetryRules
  imports Prelude Complex_Main
begin

text \<open>
  Error classification (\<^verbatim>\<open>packages/core/src/error-classifier.ts\<close>) and the two retry policies
  (\<^verbatim>\<open>packages/resilience/src/retry-policy.ts\<close>, \<^verbatim>\<open>retry-budget.ts\<close>). Milliseconds are rationals;
  \<^verbatim>\<open>Math.random()\<close> is an argument between 0 and 1.
\<close>

section \<open>Errors and their classes\<close>

datatype error_code =
    RATE_LIMITED | TIMEOUT | PROVIDER_ERROR | CONNECTOR_ERROR | PROTOCOL_ERROR | INTERNAL_ERROR
  | AUTH_FAILED | PERMISSION_DENIED | INVALID_INPUT | INVALID_CONFIG | NOT_FOUND | CANCELLED
  | BUDGET_EXCEEDED | POLICY_DENIED | CIRCUIT_OPEN | MODEL_ERROR | TOOL_ERROR | VECTOR_STORE_ERROR
  | MEMORY_ERROR | REDACTION_ERROR

record weave_error =
  we_code :: error_code
  we_message :: string
  we_retryable :: bool
  we_retryAfter :: "rat option"

text \<open>What may be thrown: a \<^verbatim>\<open>WeaveIntelError\<close>, an abort, another \<^verbatim>\<open>Error\<close>, or any value (its string).\<close>

datatype thrown = Weave weave_error | AbortError | OtherError string | NonError string

definition normalizeError :: "thrown \<Rightarrow> weave_error" where
  "normalizeError err =
     (case err of
        Weave e \<Rightarrow> e
      | AbortError \<Rightarrow> \<lparr>we_code = CANCELLED, we_message = ''Operation was cancelled'', we_retryable = False, we_retryAfter = None\<rparr>
      | OtherError m \<Rightarrow> \<lparr>we_code = PROVIDER_ERROR, we_message = m, we_retryable = False, we_retryAfter = None\<rparr>
      | NonError s \<Rightarrow> \<lparr>we_code = INTERNAL_ERROR, we_message = s, we_retryable = False, we_retryAfter = None\<rparr>)"

datatype error_class =
    RateLimited | Transient | Auth | InvalidInput | NotFoundClass | Cancelled | Budget | Policy | Unknown

record classified =
  ce_class :: error_class
  ce_retryable :: bool
  ce_retryAfter :: "rat option"
  ce_cooldownHint :: "rat option"
  ce_cause :: weave_error

definition httpStatusToErrorCode :: "int \<Rightarrow> error_code" where
  "httpStatusToErrorCode status =
     (if status = 408 then TIMEOUT
      else if status = 429 then RATE_LIMITED
      else if status = 401 then AUTH_FAILED
      else if status = 403 then PERMISSION_DENIED
      else if status = 404 then NOT_FOUND
      else if status \<ge> 400 \<and> status < 500 then INVALID_INPUT
      else if status \<ge> 500 \<and> status < 600 then PROVIDER_ERROR
      else PROVIDER_ERROR)"

definition classifyError :: "weave_error \<Rightarrow> classified" where
  "classifyError cause =
     (let plain = (\<lambda>c. \<lparr>ce_class = c, ce_retryable = False, ce_retryAfter = None, ce_cooldownHint = None, ce_cause = cause\<rparr>);
          own = (\<lambda>c. \<lparr>ce_class = c, ce_retryable = we_retryable cause, ce_retryAfter = we_retryAfter cause,
                     ce_cooldownHint = None, ce_cause = cause\<rparr>)
      in case we_code cause of
           RATE_LIMITED \<Rightarrow> \<lparr>ce_class = RateLimited, ce_retryable = True, ce_retryAfter = we_retryAfter cause,
                            ce_cooldownHint = we_retryAfter cause, ce_cause = cause\<rparr>
         | TIMEOUT \<Rightarrow> own Transient | PROVIDER_ERROR \<Rightarrow> own Transient | CONNECTOR_ERROR \<Rightarrow> own Transient
         | PROTOCOL_ERROR \<Rightarrow> own Transient | INTERNAL_ERROR \<Rightarrow> own Transient
         | AUTH_FAILED \<Rightarrow> plain Auth | PERMISSION_DENIED \<Rightarrow> plain Auth
         | INVALID_INPUT \<Rightarrow> plain InvalidInput | INVALID_CONFIG \<Rightarrow> plain InvalidInput
         | NOT_FOUND \<Rightarrow> plain NotFoundClass | CANCELLED \<Rightarrow> plain Cancelled
         | BUDGET_EXCEEDED \<Rightarrow> plain Budget | POLICY_DENIED \<Rightarrow> plain Policy | CIRCUIT_OPEN \<Rightarrow> plain Policy
         | _ \<Rightarrow> own Unknown)"

section \<open>The retry policy\<close>

record retry_policy =
  rp_maxAttempts :: int
  rp_baseDelay :: rat
  rp_maxDelay :: rat
  rp_factor :: rat
  rp_jitter :: bool
  rp_shouldRetryFn :: "classified \<Rightarrow> int \<Rightarrow> bool"

record retry_options =
  ry_maxAttempts :: "int option"
  ry_baseDelay :: "rat option"
  ry_maxDelay :: "rat option"
  ry_factor :: "rat option"
  ry_jitter :: "bool option"
  ry_shouldRetry :: "(classified \<Rightarrow> int \<Rightarrow> bool) option"

definition defaultShouldRetry :: "classified \<Rightarrow> int \<Rightarrow> bool" where
  "defaultShouldRetry err attempt =
     (if \<not> ce_retryable err then False
      else if ce_class err = Auth \<or> ce_class err = InvalidInput \<or> ce_class err = Cancelled then False
      else True)"

definition createRetryPolicy :: "retry_options \<Rightarrow> retry_policy" where
  "createRetryPolicy opts =
     \<lparr>rp_maxAttempts = nullish (ry_maxAttempts opts) 3, rp_baseDelay = nullish (ry_baseDelay opts) 500,
      rp_maxDelay = nullish (ry_maxDelay opts) 30000, rp_factor = nullish (ry_factor opts) 2,
      rp_jitter = nullish (ry_jitter opts) True,
      rp_shouldRetryFn = nullish (ry_shouldRetry opts) defaultShouldRetry\<rparr>"

definition shouldRetry :: "retry_policy \<Rightarrow> classified \<Rightarrow> int \<Rightarrow> bool" where
  "shouldRetry p err attempt =
     (if attempt \<ge> rp_maxAttempts p then False else rp_shouldRetryFn p err attempt)"

definition nextDelayMs :: "retry_policy \<Rightarrow> rat \<Rightarrow> classified \<Rightarrow> int \<Rightarrow> rat" where
  "nextDelayMs p random err attempt =
     (let exp = rp_baseDelay p * rp_factor p ^ nat (max 0 (attempt - 1));
          delay = min (rp_maxDelay p) exp;
          delay = (if rp_jitter p then of_int \<lfloor>random * delay\<rfloor> else delay);
          delay = (case ce_retryAfter err of None \<Rightarrow> delay | Some r \<Rightarrow> max delay r)
      in min (rp_maxDelay p) (max 0 delay))"

section \<open>The retry budget\<close>

record retry_budget =
  rb_maxRetries :: int
  rb_baseDelay :: rat
  rb_maxDelay :: rat
  rb_retryable :: "string list option"

definition str_includes :: "string \<Rightarrow> string \<Rightarrow> bool" where
  "str_includes s sub = (\<exists>i \<in> set [0..<Suc (length s)]. take (length sub) (drop i s) = sub)"

definition budget_shouldRetry :: "retry_budget \<Rightarrow> string \<Rightarrow> int \<Rightarrow> bool" where
  "budget_shouldRetry b error attempt =
     (if attempt \<ge> rb_maxRetries b then False
      else case rb_retryable b of
        Some es \<Rightarrow> if es \<noteq> [] then list_ex (\<lambda>e. str_includes error e) es else True
      | None \<Rightarrow> True)"

definition budget_getDelay :: "retry_budget \<Rightarrow> nat \<Rightarrow> rat" where
  "budget_getDelay b attempt = min (rb_baseDelay b * 2 ^ attempt) (rb_maxDelay b)"

text \<open>
  \<^verbatim>\<open>execute\<close>: the outcome of the n-th call of the function is \<open>outcome n\<close>; the result is the value or
  the error thrown, the number of calls made and the delays slept. After the loop the code throws the
  last error.
\<close>

record 'r execution =
  ex_result :: "string + 'r"
  ex_calls :: nat
  ex_delays :: "rat list"

function execute_from :: "retry_budget \<Rightarrow> (nat \<Rightarrow> string + 'r) \<Rightarrow> string \<Rightarrow> nat \<Rightarrow> rat list \<Rightarrow> 'r execution" where
  "execute_from b outcome lastError attempt delays =
     (if int attempt \<le> rb_maxRetries b then
        (case outcome attempt of
           Inr r \<Rightarrow> \<lparr>ex_result = Inr r, ex_calls = Suc attempt, ex_delays = delays\<rparr>
         | Inl e \<Rightarrow>
             if \<not> budget_shouldRetry b e (int attempt + 1)
             then \<lparr>ex_result = Inl e, ex_calls = Suc attempt, ex_delays = delays\<rparr>
             else execute_from b outcome e (Suc attempt) (delays @ [budget_getDelay b attempt]))
      else \<lparr>ex_result = Inl lastError, ex_calls = attempt, ex_delays = delays\<rparr>)"
  by pat_completeness auto
termination
  by (relation "measure (\<lambda>(b, _, _, attempt, _). nat (rb_maxRetries b + 1 - int attempt))") auto

declare execute_from.simps [simp del]

definition budget_execute :: "retry_budget \<Rightarrow> (nat \<Rightarrow> string + 'r) \<Rightarrow> 'r execution" where
  "budget_execute b outcome = execute_from b outcome ''undefined'' 0 []"

section \<open>Properties\<close>

text \<open>
  only errors that may succeed on retry are retried by default: not authentication, input,
  missing resources, cancellation, budget or policy errors (an open circuit included), whatever their own
  retryable flag says; a rate limit always is.
\<close>

theorem default_retry_classes:
  "defaultShouldRetry (classifyError e) n \<longleftrightarrow>
   we_code e = RATE_LIMITED \<or>
   (we_retryable e \<and> we_code e \<in> {TIMEOUT, PROVIDER_ERROR, CONNECTOR_ERROR, PROTOCOL_ERROR, INTERNAL_ERROR,
      MODEL_ERROR, TOOL_ERROR, VECTOR_STORE_ERROR, MEMORY_ERROR, REDACTION_ERROR})"
  by (cases "we_code e") (simp_all add: defaultShouldRetry_def classifyError_def Let_def)

text \<open>The delay as a function of the backoff portion.\<close>

definition clamp_delay :: "rat \<Rightarrow> rat option \<Rightarrow> rat \<Rightarrow> rat" where
  "clamp_delay m hint d = min m (max 0 (case hint of None \<Rightarrow> d | Some r \<Rightarrow> max d r))"

definition backoff :: "retry_policy \<Rightarrow> rat \<Rightarrow> int \<Rightarrow> rat" where
  "backoff p random n =
     (let d = min (rp_maxDelay p) (rp_baseDelay p * rp_factor p ^ nat (max 0 (n - 1)))
      in if rp_jitter p then of_int \<lfloor>random * d\<rfloor> else d)"

lemma nextDelay_clamp: "nextDelayMs p random err n = clamp_delay (rp_maxDelay p) (ce_retryAfter err) (backoff p random n)"
  by (simp add: nextDelayMs_def clamp_delay_def backoff_def Let_def)

lemma clamp_delay_bounds:
  assumes "0 \<le> m" "d \<le> e" "0 \<le> e"
  shows "0 \<le> clamp_delay m hint d \<and> clamp_delay m hint d \<le> m \<and>
    (case hint of Some r \<Rightarrow> min m r \<le> clamp_delay m hint d | None \<Rightarrow> clamp_delay m hint d \<le> e)"
  using assms by (cases hint) (simp_all add: clamp_delay_def min_def max_def)

lemma jitter_le:
  fixes random d :: rat
  assumes "0 \<le> d" "random \<le> 1"
  shows "of_int \<lfloor>random * d\<rfloor> \<le> d"
proof -
  have "random * d \<le> d" using mult_right_mono [OF assms(2,1)] by simp
  then show ?thesis using of_int_floor_le [of "random * d"] by (rule order.trans [rotated])
qed

text \<open>
  the delay before a retry is never negative, never above the maximum, never below the upstream
  hint unless the maximum caps it, and without a hint never above the exponential backoff.
\<close>

theorem nextDelay_bounds:
  assumes "random \<le> 1" "0 \<le> rp_baseDelay p" "0 \<le> rp_factor p" "0 \<le> rp_maxDelay p"
  shows "0 \<le> nextDelayMs p random err n \<and> nextDelayMs p random err n \<le> rp_maxDelay p \<and>
    (case ce_retryAfter err of
       Some r \<Rightarrow> min (rp_maxDelay p) r \<le> nextDelayMs p random err n
     | None \<Rightarrow> nextDelayMs p random err n \<le> rp_baseDelay p * rp_factor p ^ nat (max 0 (n - 1)))"
proof -
  define e where "e = rp_baseDelay p * rp_factor p ^ nat (max 0 (n - 1))"
  have e: "0 \<le> e" unfolding e_def using assms(2,3) by (intro mult_nonneg_nonneg zero_le_power)
  have "backoff p random n \<le> e"
    unfolding backoff_def Let_def e_def [symmetric] using jitter_le [of "min (rp_maxDelay p) e" random] e assms(1,4) by auto
  from clamp_delay_bounds [OF assms(4) this e, of "ce_retryAfter err"] show ?thesis
    unfolding nextDelay_clamp e_def .
qed

lemma nextDelay_bounds_witness:
  "nextDelayMs (createRetryPolicy \<lparr>ry_maxAttempts = None, ry_baseDelay = None, ry_maxDelay = None, ry_factor = None,
      ry_jitter = None, ry_shouldRetry = None\<rparr>) (1 / 2)
    (classifyError \<lparr>we_code = TIMEOUT, we_message = [], we_retryable = True, we_retryAfter = None\<rparr>) 3 \<le> 2000"
proof -
  let ?p = "createRetryPolicy \<lparr>ry_maxAttempts = None, ry_baseDelay = None, ry_maxDelay = None, ry_factor = None,
      ry_jitter = None, ry_shouldRetry = None\<rparr>"
  let ?e = "classifyError \<lparr>we_code = TIMEOUT, we_message = [], we_retryable = True, we_retryAfter = None\<rparr>"
  have "ce_retryAfter ?e = None" by (simp add: classifyError_def Let_def)
  then have "nextDelayMs ?p (1 / 2) ?e 3 \<le> rp_baseDelay ?p * rp_factor ?p ^ nat (max 0 (3 - 1))"
    using nextDelay_bounds [of "1 / 2" ?p ?e 3] by (simp add: createRetryPolicy_def)
  then show ?thesis by (simp add: createRetryPolicy_def)
qed

text \<open>
  the upstream Retry-After hint is not always honoured, as the policy's documentation says it is:
  a hint above the maximum delay is cut to the maximum.
\<close>

theorem retry_after_capped:
  "nextDelayMs \<lparr>rp_maxAttempts = 3, rp_baseDelay = 500, rp_maxDelay = 30000, rp_factor = 2, rp_jitter = False,
      rp_shouldRetryFn = defaultShouldRetry\<rparr> random
    (classifyError \<lparr>we_code = RATE_LIMITED, we_message = m, we_retryable = True, we_retryAfter = Some 60000\<rparr>) 1 = 30000"
  by (simp add: nextDelayMs_def classifyError_def Let_def)

lemma execute_failing:
  assumes "\<And>n. outcome n = Inl e" "rb_retryable b = None" "0 \<le> rb_maxRetries b"
  shows "int attempt < max 1 (rb_maxRetries b) \<Longrightarrow>
    int (ex_calls (execute_from b outcome l attempt ds)) = max 1 (rb_maxRetries b) \<and>
    ex_result (execute_from b outcome l attempt ds) = Inl e"
proof (induction "nat (max 1 (rb_maxRetries b) - int attempt)" arbitrary: attempt l ds rule: less_induct)
  case less
  have le: "int attempt \<le> rb_maxRetries b" using less.prems assms(3) by linarith
  show ?case
  proof (cases "int attempt + 1 \<ge> rb_maxRetries b")
    case True
    then show ?thesis
      using le assms less.prems by (simp add: execute_from.simps [of b outcome l attempt ds] budget_shouldRetry_def)
  next
    case False
    then have "int (Suc attempt) < max 1 (rb_maxRetries b)" by simp
    moreover have "nat (max 1 (rb_maxRetries b) - int (Suc attempt)) < nat (max 1 (rb_maxRetries b) - int attempt)"
      using less.prems by linarith
    ultimately have "int (ex_calls (execute_from b outcome e (Suc attempt) (ds @ [budget_getDelay b attempt]))) =
        max 1 (rb_maxRetries b) \<and>
        ex_result (execute_from b outcome e (Suc attempt) (ds @ [budget_getDelay b attempt])) = Inl e"
      using less.hyps by blast
    then show ?thesis
      using le False assms by (simp add: execute_from.simps [of b outcome l attempt ds] budget_shouldRetry_def)
  qed
qed

text \<open>
  a budget of n retries makes n calls, not n + 1: a function that always fails with a retryable
  error is called exactly \<open>max 1 n\<close> times, so the last retry the budget allows is never made.
\<close>
theorem budget_calls:
  assumes "\<And>n. outcome n = Inl e" "rb_retryable b = None" "0 \<le> rb_maxRetries b"
  shows "int (ex_calls (budget_execute b outcome)) = max 1 (rb_maxRetries b) \<and>
    ex_result (budget_execute b outcome) = Inl e"
  unfolding budget_execute_def by (rule execute_failing [OF assms]) simp

lemma budget_calls_witness:
  "ex_calls (budget_execute \<lparr>rb_maxRetries = 3, rb_baseDelay = 1, rb_maxDelay = 10, rb_retryable = None\<rparr>
     (\<lambda>_. Inl ''boom'' :: string + nat)) = 3"
proof -
  have "int (ex_calls (budget_execute \<lparr>rb_maxRetries = 3, rb_baseDelay = 1, rb_maxDelay = 10, rb_retryable = None\<rparr>
     (\<lambda>_. Inl ''boom'' :: string + nat))) = 3"
    using budget_calls [where outcome = "\<lambda>_. Inl ''boom'' :: string + nat" and e = "''boom''" and
      b = "\<lparr>rb_maxRetries = 3, rb_baseDelay = 1, rb_maxDelay = 10, rb_retryable = None\<rparr>"] by simp
  then show ?thesis by simp
qed

end
