(* ===== verification/Pipeline.thy ===== *)
theory Pipeline
  imports Endpoints RetryRules
begin

text \<open>
  The resilience pipeline (\<^verbatim>\<open>packages/resilience/src/pipeline.ts\<close>): a call passes the circuit breaker,
  takes a slot of the concurrency limiter, takes a token of the bucket, runs the wrapped function under a
  timeout, and is retried. Calls to one endpoint share its breaker, limiter and bucket and interleave at
  their awaits.

  A call is in one \<open>phase\<close> at a time, the await it is suspended at; an event of type \<open>pipe_event\<close> resumes it
  and runs the code up to the next await. The clock read of that stretch, the random draw of the backoff,
  the outcome of the wrapped function and the order of the events belong to the environment. A timer may
  fire at any time here, so what holds of every run holds of the runs in which timers are on time.
  Milliseconds of a cooldown hint are rounded up, as the clock only shows whole milliseconds.
\<close>

section \<open>Options\<close>

datatype rate_mode = WaitMode | FailFast

record call_overrides =
  co_mode :: "rate_mode option"
  co_maxRetries :: "int option"
  co_timeout :: "int option"
  co_bypass :: bool

record resilience_options =
  ro_endpoint :: string
  ro_limits :: endpoint_options
  ro_retry :: "(retry_policy + retry_options) option"
  ro_timeout :: "int option"
  ro_mode :: "rate_mode option"

text \<open>The options a callable closes over, and its endpoint: \<^verbatim>\<open>createResilientCallable\<close>.\<close>

record callable =
  ca_endpoint :: string
  ca_retry :: retry_policy
  ca_timeout :: "int option"
  ca_mode :: rate_mode

definition noRetryOptions :: retry_options where
  "noRetryOptions = \<lparr>ry_maxAttempts = None, ry_baseDelay = None, ry_maxDelay = None, ry_factor = None,
     ry_jitter = None, ry_shouldRetry = None\<rparr>"

definition createResilientCallable ::
  "int \<Rightarrow> resilience_options \<Rightarrow> registry \<Rightarrow> (registry_error + callable) \<times> registry" where
  "createResilientCallable now opts reg =
     (case getOrCreateEndpointState now (ro_endpoint opts) (Some (ro_limits opts)) reg of
        (Inl e, reg') \<Rightarrow> (Inl e, reg')
      | (Inr _, reg') \<Rightarrow>
          (Inr \<lparr>ca_endpoint = ro_endpoint opts,
                ca_retry = (case ro_retry opts of Some (Inl policy) \<Rightarrow> policy
                            | Some (Inr o') \<Rightarrow> createRetryPolicy o' | None \<Rightarrow> createRetryPolicy noRetryOptions),
                ca_timeout = ro_timeout opts, ca_mode = nullish (ro_mode opts) WaitMode\<rparr>, reg'))"

section \<open>Calls in flight\<close>

datatype shed_reason = QueueFull | CircuitIsOpen | RateLimitHit

datatype pipe_signal =
    SigRateLimited string rat int int
  | SigRetrying string int rat classified int
  | SigCircuitOpened string int int int
  | SigShed string shed_reason int
  | SigSuccess string int int int
  | SigFailed string int int classified int

text \<open>
  Every phase carries the attempt it belongs to: about to run, queued for a slot, holding a slot before the
  rate limiter, asleep between two turns of \<^verbatim>\<open>acquire\<close> (its deadline, the sleep), running the function (since
  when), the error \<^verbatim>\<open>runOnce\<close> threw at the retry loop, asleep before the next attempt, and the two ends.
\<close>

datatype 'r phase =
    Starting int
  | WaitingSlot int
  | SlotHeld int
  | WaitingToken int "int option" int
  | RunningFn int int
  | Caught int thrown
  | Backoff int rat
  | Returned int 'r
  | Threw int weave_error

record 'r call =
  cl_callable :: callable
  cl_overrides :: "call_overrides option"
  cl_phase :: "'r phase"

text \<open>
  The endpoint, the signals emitted, the latency samples, the calls, the invocations of the wrapped
  function, and the number of invocations still running although their call has timed out.
\<close>

record 'r pipe =
  pp_ep :: endpoint_state
  pp_bus :: "pipe_signal list"
  pp_latency :: tracker
  pp_calls :: "string \<rightharpoonup> 'r call"
  pp_started :: "(string \<times> int) list"
  pp_orphans :: nat

definition pipe_init :: "endpoint_state \<Rightarrow> tracker \<Rightarrow> 'r pipe" where
  "pipe_init ep t = \<lparr>pp_ep = ep, pp_bus = [], pp_latency = t, pp_calls = Map.empty, pp_started = [], pp_orphans = 0\<rparr>"

definition emit :: "pipe_signal \<Rightarrow> 'r pipe \<Rightarrow> 'r pipe" where
  "emit g s = s\<lparr>pp_bus := pp_bus s @ [g]\<rparr>"

definition set_phase :: "string \<Rightarrow> 'r phase \<Rightarrow> 'r pipe \<Rightarrow> 'r pipe" where
  "set_phase c ph s = s\<lparr>pp_calls := (pp_calls s)(c := map_option (cl_phase_update (\<lambda>_. ph)) (pp_calls s c))\<rparr>"

definition override :: "(call_overrides \<Rightarrow> 'a option) \<Rightarrow> 'r call \<Rightarrow> 'a option" where
  "override f k = Option.bind (cl_overrides k) f"

definition timeoutOf :: "'r call \<Rightarrow> int option" where
  "timeoutOf k = (case override co_timeout k of Some t \<Rightarrow> Some t | None \<Rightarrow> ca_timeout (cl_callable k))"

definition bypasses :: "'r call \<Rightarrow> bool" where
  "bypasses k = (case cl_overrides k of None \<Rightarrow> False | Some ov \<Rightarrow> co_bypass ov)"

section \<open>One attempt\<close>

text \<open>The \<^verbatim>\<open>finally\<close> of an attempt: the slot goes back, and a queued call may get it.\<close>

definition releaseSlot :: "'r pipe \<Rightarrow> 'r pipe" where
  "releaseSlot s =
     (case es_concurrency (pp_ep s) of
        None \<Rightarrow> s
      | Some l \<Rightarrow>
          (let (woken, l') = limiter_release l;
               s' = s\<lparr>pp_ep := (pp_ep s)\<lparr>es_concurrency := Some l'\<rparr>\<rparr>
           in case woken of
                None \<Rightarrow> s'
              | Some w \<Rightarrow>
                  (case map_option cl_phase (pp_calls s' w) of
                     Some (WaitingSlot a) \<Rightarrow> set_phase w (SlotHeld a) s'
                   | _ \<Rightarrow> s')))"

definition leave :: "string \<Rightarrow> 'r phase \<Rightarrow> 'r pipe \<Rightarrow> 'r pipe" where
  "leave c ph s = releaseSlot (set_phase c ph s)"

text \<open>Steps 1 and 2: the circuit, then a slot.\<close>

definition circuitOpenError :: "string \<Rightarrow> weave_error" where
  "circuitOpenError ep = \<lparr>we_code = CIRCUIT_OPEN, we_message = ''Circuit open for endpoint '' @ ep,
     we_retryable = False, we_retryAfter = None\<rparr>"

definition queueFullError :: "string \<Rightarrow> weave_error" where
  "queueFullError ep = \<lparr>we_code = INTERNAL_ERROR, we_message = ''Concurrency queue full for endpoint '' @ ep,
     we_retryable = True, we_retryAfter = None\<rparr>"

definition takeSlot :: "int \<Rightarrow> string \<Rightarrow> string \<Rightarrow> int \<Rightarrow> 'r pipe \<Rightarrow> 'r pipe" where
  "takeSlot now ep c a s =
     (case es_concurrency (pp_ep s) of
        None \<Rightarrow> set_phase c (SlotHeld a) s
      | Some l \<Rightarrow>
          (let (v, l') = limiter_acquire c l; s' = s\<lparr>pp_ep := (pp_ep s)\<lparr>es_concurrency := Some l'\<rparr>\<rparr>
           in case v of
                Granted \<Rightarrow> set_phase c (SlotHeld a) s'
              | Queued \<Rightarrow> set_phase c (WaitingSlot a) s'
              | Refused \<Rightarrow> set_phase c (Caught a (Weave (queueFullError ep))) (emit (SigShed ep QueueFull now) s')))"

definition enterCall :: "int \<Rightarrow> string \<Rightarrow> 'r pipe \<Rightarrow> 'r pipe" where
  "enterCall now c s =
     (case pp_calls s c of
        None \<Rightarrow> s
      | Some k \<Rightarrow>
          (case cl_phase k of
             Starting a \<Rightarrow>
               (let ep = ca_endpoint (cl_callable k) in
                case (if bypasses k then None else es_circuit (pp_ep s)) of
                  None \<Rightarrow> takeSlot now ep c a s
                | Some b \<Rightarrow>
                    (let (decision, b') = canPass now b; s' = s\<lparr>pp_ep := (pp_ep s)\<lparr>es_circuit := Some b'\<rparr>\<rparr>
                     in case decision of
                          Allowed \<Rightarrow> takeSlot now ep c a s'
                        | Rejected _ \<Rightarrow>
                            set_phase c (Caught a (Weave (circuitOpenError ep))) (emit (SigShed ep CircuitIsOpen now) s')))
           | _ \<Rightarrow> s))"

text \<open>Step 3, a token, and the start of step 5.\<close>

definition startFn :: "int \<Rightarrow> string \<Rightarrow> int \<Rightarrow> 'r pipe \<Rightarrow> 'r pipe" where
  "startFn now c a s = set_phase c (RunningFn a now) (s\<lparr>pp_started := pp_started s @ [(c, a)]\<rparr>)"

definition rateLimitedError :: "string \<Rightarrow> int \<Rightarrow> weave_error" where
  "rateLimitedError ep ms = \<lparr>we_code = RATE_LIMITED, we_message = ''Rate limit reached for endpoint '' @ ep,
     we_retryable = True, we_retryAfter = Some (of_int ms)\<rparr>"

definition takeToken :: "int \<Rightarrow> string \<Rightarrow> int \<Rightarrow> int option \<Rightarrow> 'r call \<Rightarrow> 'r pipe \<Rightarrow> 'r pipe" where
  "takeToken now c a deadline k s =
     (case es_rateLimit (pp_ep s) of
        None \<Rightarrow> startFn now c a s
      | Some b \<Rightarrow>
          (let ep = ca_endpoint (cl_callable k); put = (\<lambda>b. s\<lparr>pp_ep := (pp_ep s)\<lparr>es_rateLimit := Some b\<rparr>\<rparr>) in
           if nullish (override co_mode k) (ca_mode (cl_callable k)) = FailFast
           then (case tryAcquire now b of
                   (True, b') \<Rightarrow> startFn now c a (put b')
                 | (False, b') \<Rightarrow>
                     (let (ms, b2) = msUntilAvailable now b'
                      in leave c (Caught a (Weave (rateLimitedError ep ms))) (emit (SigShed ep RateLimitHit now) (put b2))))
           else (case acquire_step now deadline b of
                   (Acquired, b') \<Rightarrow> startFn now c a (put b')
                 | (TimedOut, b') \<Rightarrow> leave c (Caught a (OtherError ''TokenBucket: acquire timed out'')) (put b')
                 | (SleepFor ms, b') \<Rightarrow> set_phase c (WaitingToken a deadline ms) (put b'))))"

definition tokenTurn :: "int \<Rightarrow> string \<Rightarrow> 'r pipe \<Rightarrow> 'r pipe" where
  "tokenTurn now c s =
     (case pp_calls s c of
        None \<Rightarrow> s
      | Some k \<Rightarrow>
          (case cl_phase k of
             SlotHeld a \<Rightarrow> takeToken now c a (map_option (\<lambda>ms. now + ms) (timeoutOf k)) k s
           | WaitingToken a deadline _ \<Rightarrow> takeToken now c a deadline k s
           | _ \<Rightarrow> s))"

text \<open>Steps 5 to 8: the function has settled.\<close>

definition on_success :: "int \<Rightarrow> string \<Rightarrow> 'r call \<Rightarrow> int \<Rightarrow> int \<Rightarrow> 'r \<Rightarrow> 'r pipe \<Rightarrow> 'r pipe" where
  "on_success now c k a start r s =
     (let ep = ca_endpoint (cl_callable k);
          s1 = s\<lparr>pp_ep := (pp_ep s)\<lparr>es_circuit := map_option recordSuccess (es_circuit (pp_ep s))\<rparr>\<rparr>;
          s2 = emit (SigSuccess ep a (now - start) now) s1;
          s3 = s2\<lparr>pp_latency := recordSample now ep (of_int (now - start)) (pp_latency s2)\<rparr>
      in leave c (Returned a r) s3)"

definition pauseBucket :: "int \<Rightarrow> rat option \<Rightarrow> 'r pipe \<Rightarrow> 'r pipe" where
  "pauseBucket now hint s =
     (case (hint, es_rateLimit (pp_ep s)) of
        (Some ms, Some b) \<Rightarrow> s\<lparr>pp_ep := (pp_ep s)\<lparr>es_rateLimit := Some (pauseFor now \<lceil>ms\<rceil> b)\<rparr>\<rparr>
      | _ \<Rightarrow> s)"

definition failCircuit :: "int \<Rightarrow> string \<Rightarrow> 'r pipe \<Rightarrow> 'r pipe" where
  "failCircuit now ep s =
     (case es_circuit (pp_ep s) of
        None \<Rightarrow> s
      | Some b \<Rightarrow>
          (let (rep, b') = recordFailure now b
           in if fr_opened rep
              then (let (snap, b2) = snapshotBreaker now b' in
                    emit (SigCircuitOpened ep (fr_failures rep) (cb_cooldown snap) now)
                      (s\<lparr>pp_ep := (pp_ep s)\<lparr>es_circuit := Some b2\<rparr>\<rparr>))
              else s\<lparr>pp_ep := (pp_ep s)\<lparr>es_circuit := Some b'\<rparr>\<rparr>))"

definition on_failure :: "int \<Rightarrow> string \<Rightarrow> 'r call \<Rightarrow> int \<Rightarrow> int \<Rightarrow> thrown \<Rightarrow> 'r pipe \<Rightarrow> 'r pipe" where
  "on_failure now c k a start err s =
     (let ep = ca_endpoint (cl_callable k);
          ce = classifyError (normalizeError err);
          s1 = pauseBucket now (ce_cooldownHint ce) s;
          s2 = (if ce_class ce = RateLimited
                then emit (SigRateLimited ep (nullish (ce_retryAfter ce) 0) a now) s1 else s1);
          s3 = failCircuit now ep s2;
          s4 = emit (SigFailed ep a (now - start) ce now) s3
      in leave c (Caught a (Weave (ce_cause ce))) s4)"

definition settle :: "int \<Rightarrow> string \<Rightarrow> thrown + 'r \<Rightarrow> 'r pipe \<Rightarrow> 'r pipe" where
  "settle now c outcome s =
     (case pp_calls s c of
        None \<Rightarrow> s
      | Some k \<Rightarrow>
          (case cl_phase k of
             RunningFn a start \<Rightarrow>
               (case outcome of
                  Inr r \<Rightarrow> on_success now c k a start r s
                | Inl err \<Rightarrow> on_failure now c k a start err s)
           | _ \<Rightarrow> s))"

text \<open>\<^verbatim>\<open>maybeWithTimeout\<close>: the timer wins the race, and the function goes on running unobserved.\<close>

definition timeoutError :: "string \<Rightarrow> int \<Rightarrow> weave_error" where
  "timeoutError ep ms = \<lparr>we_code = TIMEOUT,
     we_message = ''Endpoint '' @ ep @ '' timed out after '' @ nat_str (nat ms) @ ''ms'',
     we_retryable = True, we_retryAfter = None\<rparr>"

definition timeOut :: "int \<Rightarrow> string \<Rightarrow> 'r pipe \<Rightarrow> 'r pipe" where
  "timeOut now c s =
     (case pp_calls s c of
        None \<Rightarrow> s
      | Some k \<Rightarrow>
          (case (cl_phase k, timeoutOf k) of
             (RunningFn a start, Some ms) \<Rightarrow>
               on_failure now c k a start (Weave (timeoutError (ca_endpoint (cl_callable k)) ms))
                 (s\<lparr>pp_orphans := Suc (pp_orphans s)\<rparr>)
           | _ \<Rightarrow> s))"

section \<open>The retry loop\<close>

definition maxAttemptsOf :: "'r call \<Rightarrow> int" where
  "maxAttemptsOf k =
     (case override co_maxRetries k of Some m \<Rightarrow> m + 1 | None \<Rightarrow> rp_maxAttempts (ca_retry (cl_callable k)))"

definition decide :: "int \<Rightarrow> rat \<Rightarrow> string \<Rightarrow> 'r pipe \<Rightarrow> 'r pipe" where
  "decide now random c s =
     (case pp_calls s c of
        None \<Rightarrow> s
      | Some k \<Rightarrow>
          (case cl_phase k of
             Caught a err \<Rightarrow>
               (let ce = classifyError (normalizeError err); retry = ca_retry (cl_callable k) in
                if a < maxAttemptsOf k \<and> shouldRetry retry ce a
                then (let delay = nextDelayMs retry random ce a in
                      set_phase c (Backoff a delay) (emit (SigRetrying (ca_endpoint (cl_callable k)) a delay ce now) s))
                else set_phase c (Threw a (ce_cause ce)) s)
           | _ \<Rightarrow> s))"

definition wake :: "string \<Rightarrow> 'r pipe \<Rightarrow> 'r pipe" where
  "wake c s =
     (case map_option cl_phase (pp_calls s c) of
        Some (Backoff a _) \<Rightarrow> set_phase c (Starting (a + 1)) s
      | _ \<Rightarrow> s)"

definition invoke :: "string \<Rightarrow> callable \<Rightarrow> call_overrides option \<Rightarrow> 'r pipe \<Rightarrow> 'r pipe" where
  "invoke c ca ov s =
     (case pp_calls s c of
        None \<Rightarrow> s\<lparr>pp_calls := (pp_calls s)(c \<mapsto> \<lparr>cl_callable = ca, cl_overrides = ov, cl_phase = Starting 1\<rparr>)\<rparr>
      | Some _ \<Rightarrow> s)"

section \<open>Runs\<close>

datatype 'r pipe_event =
    Invoke string callable "call_overrides option"
  | Enter int string
  | Token int string
  | Settle int string "thrown + 'r"
  | TimeOut int string
  | OrphanEnds
  | Decide int rat string
  | Wake string

fun pipe_exec :: "'r pipe_event \<Rightarrow> 'r pipe \<Rightarrow> 'r pipe" where
  "pipe_exec (Invoke c ca ov) s = invoke c ca ov s"
| "pipe_exec (Enter now c) s = enterCall now c s"
| "pipe_exec (Token now c) s = tokenTurn now c s"
| "pipe_exec (Settle now c r) s = settle now c r s"
| "pipe_exec (TimeOut now c) s = timeOut now c s"
| "pipe_exec OrphanEnds s = s\<lparr>pp_orphans := pp_orphans s - 1\<rparr>"
| "pipe_exec (Decide now u c) s = decide now u c s"
| "pipe_exec (Wake c) s = wake c s"

end
