(* ===== verification/PipelineProps.thy ===== *)
theory PipelineProps
  imports Pipeline
begin

text \<open>
  What the resilience pipeline promises over every interleaving of its calls: the slots of the limiter are
  exactly those of the calls between acquisition and release (the contract of the limiter, reused from its
  locale), every call runs the function a bounded number of times, and an open circuit sheds calls.
\<close>

section \<open>Slots\<close>

fun holding :: "'r phase \<Rightarrow> bool" where
  "holding (SlotHeld _) = True"
| "holding (WaitingToken _ _ _) = True"
| "holding (RunningFn _ _) = True"
| "holding _ = False"

fun queued :: "'r phase \<Rightarrow> bool" where
  "queued (WaitingSlot _) = True"
| "queued _ = False"

definition holders :: "(string \<rightharpoonup> 'r call) \<Rightarrow> string set" where
  "holders calls = {c. \<exists>k. calls c = Some k \<and> holding (cl_phase k)}"

definition waiters :: "(string \<rightharpoonup> 'r call) \<Rightarrow> string set" where
  "waiters calls = {c. \<exists>k. calls c = Some k \<and> queued (cl_phase k)}"

lemma holders_upd [simp]: "holders (calls(c \<mapsto> k)) = (if holding (cl_phase k) then insert c (holders calls) else holders calls - {c})"
  by (auto simp: holders_def)

lemma waiters_upd [simp]: "waiters (calls(c \<mapsto> k)) = (if queued (cl_phase k) then insert c (waiters calls) else waiters calls - {c})"
  by (auto simp: waiters_def)

lemma in_holders: "calls c = Some k \<Longrightarrow> c \<in> holders calls \<longleftrightarrow> holding (cl_phase k)"
  by (simp add: holders_def)

lemma in_waiters: "calls c = Some k \<Longrightarrow> c \<in> waiters calls \<longleftrightarrow> queued (cl_phase k)"
  by (simp add: waiters_def)

lemma not_invoked: "calls c = None \<Longrightarrow> c \<notin> holders calls \<and> c \<notin> waiters calls"
  by (simp add: holders_def waiters_def)

lemma holding_not_queued: "holding ph \<Longrightarrow> \<not> queued ph"
  by (cases ph) auto

lemma holder_not_waiter: "c \<in> holders calls \<Longrightarrow> c \<notin> waiters calls"
  by (auto simp: holders_def waiters_def dest: holding_not_queued)

definition slots_ok :: "string limiter option \<Rightarrow> (string \<rightharpoonup> 'r call) \<Rightarrow> bool" where
  "slots_ok lmt calls =
     (case lmt of
        None \<Rightarrow> waiters calls = {}
      | Some l \<Rightarrow> (\<exists>hs. distinct hs \<and> set hs = holders calls \<and> pipe.sound l hs) \<and>
                 distinct (li_waiters l) \<and> set (li_waiters l) = waiters calls)"

lemma slots_same:
  assumes "slots_ok lmt calls" "calls c = Some k" "holding (cl_phase k') = holding (cl_phase k)"
    "queued (cl_phase k') = queued (cl_phase k)"
  shows "slots_ok lmt (calls(c \<mapsto> k'))"
proof -
  have "holders (calls(c \<mapsto> k')) = holders calls" "waiters (calls(c \<mapsto> k')) = waiters calls"
    using assms(2-4) by (auto simp: in_holders in_waiters)
  with assms(1) show ?thesis by (simp add: slots_ok_def del: holders_upd waiters_upd split: option.splits)
qed

lemma slots_new:
  assumes "slots_ok lmt calls" "calls c = None" "\<not> holding (cl_phase k)" "\<not> queued (cl_phase k)"
  shows "slots_ok lmt (calls(c \<mapsto> k))"
proof -
  have "holders (calls(c \<mapsto> k)) = holders calls" "waiters (calls(c \<mapsto> k)) = waiters calls"
    using assms(2-4) by (auto simp: not_invoked)
  with assms(1) show ?thesis by (simp add: slots_ok_def del: holders_upd waiters_upd split: option.splits)
qed

lemma slots_acquire:
  assumes "slots_ok (Some l) calls" "calls c = Some k" "\<not> holding (cl_phase k)" "\<not> queued (cl_phase k)"
    "limiter_acquire c l = (v, l')"
    "holding (cl_phase k') = (v = Granted)" "queued (cl_phase k') = (v = Queued)"
  shows "slots_ok (Some l') (calls(c \<mapsto> k'))"
proof -
  from assms(1) obtain hs where hs: "distinct hs" "set hs = holders calls" "pipe.sound l hs"
    and ws: "distinct (li_waiters l)" "set (li_waiters l) = waiters calls" by (auto simp: slots_ok_def)
  have c: "c \<notin> set hs" "c \<notin> set (li_waiters l)" using assms(2-4) hs ws by (simp_all add: in_holders in_waiters)
  have new: "pipe.sound l' (if v = Granted then hs @ [c] else hs)" using pipe.sound_acquire [OF hs(3), of c] assms(5) by simp
  have w: "li_waiters l' = (if v = Queued then li_waiters l @ [c] else li_waiters l)"
    using assms(5) by (auto simp: limiter_acquire_def split: if_splits)
  show ?thesis unfolding slots_ok_def option.case
  proof (intro conjI exI [of _ "if v = Granted then hs @ [c] else hs"])
    show "set (if v = Granted then hs @ [c] else hs) = holders (calls(c \<mapsto> k'))"
      using c hs(2) assms(6) by auto
    show "set (li_waiters l') = waiters (calls(c \<mapsto> k'))" using c w ws(2) assms(7) by auto
  qed (use c w hs(1) ws(1) new in auto)
qed

lemma slots_release:
  assumes "slots_ok (Some l) calls" "calls c = Some k" "holding (cl_phase k)" "\<not> holding (cl_phase k')" "\<not> queued (cl_phase k')"
    "limiter_release l = (woken, l')"
  shows "case woken of None \<Rightarrow> slots_ok (Some l') (calls(c \<mapsto> k'))
    | Some w \<Rightarrow> w \<noteq> c \<and> (\<exists>kw. calls w = Some kw \<and> queued (cl_phase kw) \<and>
        (\<forall>kw'. holding (cl_phase kw') \<longrightarrow> \<not> queued (cl_phase kw') \<longrightarrow> slots_ok (Some l') (calls(c \<mapsto> k', w \<mapsto> kw'))))"
proof -
  from assms(1) obtain hs where hs: "distinct hs" "set hs = holders calls" "pipe.sound l hs"
    and ws: "distinct (li_waiters l)" "set (li_waiters l) = waiters calls" by (auto simp: slots_ok_def)
  have c: "c \<in> set hs" "c \<notin> waiters calls"
    using assms(2,3) hs(2) by (simp_all add: in_holders holder_not_waiter)
  have new: "pipe.sound l' (remove1 c hs @ (case woken of None \<Rightarrow> [] | Some w \<Rightarrow> [w]))"
    using pipe.sound_release [OF hs(3) c(1)] assms(6) by simp
  show ?thesis
  proof (cases "li_waiters l")
    case Nil
    then have out: "woken = None" "li_waiters l' = []" using assms(6) by (auto simp: limiter_release_def Let_def)
    have "slots_ok (Some l') (calls(c \<mapsto> k'))" unfolding slots_ok_def option.case
      by (intro conjI exI [of _ "remove1 c hs"]) (use out hs(1,2) ws new c Nil assms(4,5) in auto)
    with out show ?thesis by simp
  next
    case (Cons w rest)
    then have out: "woken = Some w" "li_waiters l' = rest" using assms(6) by (auto simp: limiter_release_def Let_def)
    have w: "w \<in> waiters calls" "w \<notin> set rest" using Cons ws by auto
    then have "w \<notin> holders calls" using holder_not_waiter by blast
    note w = w this
    have wc: "w \<noteq> c" using w c by auto
    from w(1) obtain kw where kw: "calls w = Some kw" "queued (cl_phase kw)" by (auto simp: waiters_def)
    have "slots_ok (Some l') (calls(c \<mapsto> k', w \<mapsto> kw'))"
      if "holding (cl_phase kw')" "\<not> queued (cl_phase kw')" for kw'
      unfolding slots_ok_def option.case
    proof (intro conjI exI [of _ "remove1 c hs @ [w]"])
      show "set (remove1 c hs @ [w]) = holders (calls(c \<mapsto> k', w \<mapsto> kw'))" using that hs(1,2) assms(4) by auto
      show "set (li_waiters l') = waiters (calls(c \<mapsto> k', w \<mapsto> kw'))" using that c(2) out w ws(2) Cons assms(5) by auto
    qed (use hs ws out new Cons w in \<open>auto dest: in_set_remove1\<close>)
    with out wc kw show ?thesis by auto
  qed
qed

abbreviation pipe_ok :: "'r pipe \<Rightarrow> bool" where
  "pipe_ok s \<equiv> slots_ok (es_concurrency (pp_ep s)) (pp_calls s)"

lemma set_phase_calls: "pp_calls s c = Some k \<Longrightarrow> pp_calls (set_phase c ph s) = (pp_calls s)(c \<mapsto> k\<lparr>cl_phase := ph\<rparr>)"
  by (simp add: set_phase_def)

lemma frame_simps [simp]:
  "pp_ep (set_phase c ph s) = pp_ep s" "pp_ep (emit g s) = pp_ep s" "pp_calls (emit g s) = pp_calls s"
  "pp_started (set_phase c ph s) = pp_started s" "pp_started (emit g s) = pp_started s"
  "pp_orphans (set_phase c ph s) = pp_orphans s" "pp_orphans (emit g s) = pp_orphans s"
  by (simp_all add: set_phase_def emit_def)

lemma set_phase_ok:
  assumes "pipe_ok s" "pp_calls s c = Some k" "holding ph = holding (cl_phase k)" "queued ph = queued (cl_phase k)"
  shows "pipe_ok (set_phase c ph s)"
  using slots_same [OF assms(1,2), of "k\<lparr>cl_phase := ph\<rparr>"] assms(3,4) by (simp add: set_phase_calls [OF assms(2)])

lemma set_phase_slots:
  assumes "slots_ok lmt (pp_calls s)" "pp_calls s c = Some k" "holding ph = holding (cl_phase k)" "queued ph = queued (cl_phase k)"
  shows "slots_ok lmt (pp_calls (set_phase c ph s))"
  using slots_same [OF assms(1,2), of "k\<lparr>cl_phase := ph\<rparr>"] assms(3,4) by (simp add: set_phase_calls [OF assms(2)])

lemma takeSlot_ok:
  assumes "pipe_ok s" "pp_calls s c = Some k" "cl_phase k = Starting a"
  shows "pipe_ok (takeSlot now ep c a s)"
proof (cases "es_concurrency (pp_ep s)")
  case None
  with assms show ?thesis by (auto simp: takeSlot_def set_phase_calls slots_ok_def)
next
  case (Some l)
  obtain v l' where v: "limiter_acquire c l = (v, l')" by force
  from slots_acquire [OF assms(1) [unfolded Some] assms(2) _ _ v] assms(3)
  show ?thesis by (cases v) (auto simp: takeSlot_def Some v set_phase_calls assms(2) simp del: holders_upd waiters_upd)
qed

lemma leave_ok:
  assumes "pipe_ok s" "pp_calls s c = Some k" "holding (cl_phase k)" "\<not> holding ph" "\<not> queued ph"
  shows "pipe_ok (leave c ph s)"
proof (cases "es_concurrency (pp_ep s)")
  case None
  with assms show ?thesis by (auto simp: leave_def releaseSlot_def set_phase_calls slots_ok_def)
next
  case (Some l)
  obtain woken l' where rel: "limiter_release l = (woken, l')" by force
  note slots = slots_release [OF assms(1) [unfolded Some] assms(2,3) _ _ rel, of "k\<lparr>cl_phase := ph\<rparr>"]
  show ?thesis
  proof (cases woken)
    case None
    with slots assms(4,5) show ?thesis by (simp add: leave_def releaseSlot_def Some rel set_phase_calls [OF assms(2)])
  next
    case (Some w)
    with slots assms(4,5) obtain kw where kw: "w \<noteq> c" "pp_calls s w = Some kw" "queued (cl_phase kw)"
      "\<And>kw'. holding (cl_phase kw') \<Longrightarrow> \<not> queued (cl_phase kw') \<Longrightarrow>
        slots_ok (Some l') ((pp_calls s)(c \<mapsto> k\<lparr>cl_phase := ph\<rparr>, w \<mapsto> kw'))" by auto
    from kw(3) obtain b where b: "cl_phase kw = WaitingSlot b" by (cases "cl_phase kw") auto
    have "leave c ph s = set_phase w (SlotHeld b) (set_phase c ph s\<lparr>pp_ep := (pp_ep s)\<lparr>es_concurrency := Some l'\<rparr>\<rparr>)"
      using kw(1,2) b by (simp add: leave_def releaseSlot_def \<open>es_concurrency (pp_ep s) = Some l\<close> rel Some set_phase_calls [OF assms(2)])
    with kw(1,2,4) show ?thesis by (simp add: set_phase_def assms(2))
  qed
qed

text \<open>The parts of a settlement before the slot goes back touch neither the calls nor the limiter.\<close>

lemma pauseBucket_frame [simp]:
  "pp_calls (pauseBucket now h s) = pp_calls s" "pp_started (pauseBucket now h s) = pp_started s"
  "es_concurrency (pp_ep (pauseBucket now h s)) = es_concurrency (pp_ep s)" "pp_orphans (pauseBucket now h s) = pp_orphans s"
  by (auto simp: pauseBucket_def split: option.splits)

lemma failCircuit_frame [simp]:
  "pp_calls (failCircuit now ep s) = pp_calls s" "pp_started (failCircuit now ep s) = pp_started s"
  "es_concurrency (pp_ep (failCircuit now ep s)) = es_concurrency (pp_ep s)" "pp_orphans (failCircuit now ep s) = pp_orphans s"
  by (auto simp: failCircuit_def Let_def split: option.splits prod.splits)

lemma on_success_ok:
  assumes "pipe_ok s" "pp_calls s c = Some k" "holding (cl_phase k)"
  shows "pipe_ok (on_success now c k a start r s)"
  unfolding on_success_def Let_def by (rule leave_ok [where k = k]) (use assms in simp_all)

lemma on_failure_ok:
  assumes "pipe_ok s" "pp_calls s c = Some k" "holding (cl_phase k)"
  shows "pipe_ok (on_failure now c k a start err s)"
  unfolding on_failure_def Let_def by (rule leave_ok [where k = k]) (use assms in simp_all)

lemma startFn_ok:
  assumes "pipe_ok s" "pp_calls s c = Some k" "holding (cl_phase k)"
  shows "pipe_ok (startFn now c a s)"
  unfolding startFn_def by (rule set_phase_ok [where k = k]) (use assms in \<open>auto dest: holding_not_queued\<close>)

lemma takeToken_ok:
  assumes "pipe_ok s" "pp_calls s c = Some k" "holding (cl_phase k)"
  shows "pipe_ok (takeToken now c a deadline k s)"
proof (cases "es_rateLimit (pp_ep s)")
  case None
  with assms show ?thesis by (simp add: takeToken_def startFn_ok)
next
  case (Some b)
  let ?put = "\<lambda>b. s\<lparr>pp_ep := (pp_ep s)\<lparr>es_rateLimit := Some b\<rparr>\<rparr>"
  have start: "pipe_ok (startFn now c a (?put b'))" for b' using assms by (intro startFn_ok [where k = k]) auto
  have left: "pipe_ok (leave c (Caught a e) (?put b'))" "pipe_ok (leave c (Caught a e) (emit g (?put b')))" for b' e g
    using assms by (auto intro!: leave_ok [where k = k])
  have asleep: "pipe_ok (set_phase c (WaitingToken a deadline ms) (?put b'))" for b' ms
    using assms by (intro set_phase_ok [where k = k]) (auto dest: holding_not_queued)
  show ?thesis
    by (auto simp: takeToken_def Some Let_def start left asleep [simplified]
        split: prod.split bool.split acquire_turn.split)
qed

lemma pipe_exec_ok:
  assumes "pipe_ok s"
  shows "pipe_ok (pipe_exec e s)"
proof (cases e)
  case (Invoke c ca ov)
  then show ?thesis using assms by (auto simp: invoke_def intro!: slots_new split: option.splits)
next
  case (Enter now c)
  show ?thesis
  proof (cases "pp_calls s c")
    case (Some k)
    show ?thesis
    proof (cases "cl_phase k")
      case (Starting a)
      have slot: "pipe_ok (takeSlot now ep c a (s\<lparr>pp_ep := (pp_ep s)\<lparr>es_circuit := x\<rparr>\<rparr>))" for ep x
        using assms Some Starting by (intro takeSlot_ok [where k = k]) auto
      have rej: "pipe_ok (set_phase c (Caught a err) (emit g (s\<lparr>pp_ep := (pp_ep s)\<lparr>es_circuit := x\<rparr>\<rparr>)))" for err g x
        using assms Some Starting by (intro set_phase_ok [where k = k]) auto
      from takeSlot_ok [OF assms Some Starting] slot rej rej [simplified] show ?thesis
        by (auto simp: Enter enterCall_def Some Starting Let_def split: option.split prod.split pass.split)
    qed (use assms in \<open>simp_all add: Enter enterCall_def Some\<close>)
  qed (use assms in \<open>simp add: Enter enterCall_def\<close>)
next
  case (Token now c)
  with assms show ?thesis by (auto simp: tokenTurn_def intro!: takeToken_ok split: option.split phase.split)
next
  case (Settle now c r)
  with assms show ?thesis
    by (auto simp: settle_def intro!: on_success_ok on_failure_ok split: option.split phase.split sum.split)
next
  case (TimeOut now c)
  with assms show ?thesis
    by (auto simp: timeOut_def intro!: on_failure_ok split: option.split phase.split)
next
  case OrphanEnds
  with assms show ?thesis by simp
next
  case (Decide now u c)
  with assms show ?thesis
    by (auto simp: decide_def Let_def intro!: set_phase_slots split: option.split phase.split)
next
  case (Wake c)
  with assms show ?thesis
    by (auto simp: wake_def intro!: set_phase_slots split: option.split phase.split)
qed

section \<open>Attempts\<close>

fun attempt_of :: "'r phase \<Rightarrow> int" where
  "attempt_of (Starting a) = a"
| "attempt_of (WaitingSlot a) = a"
| "attempt_of (SlotHeld a) = a"
| "attempt_of (WaitingToken a _ _) = a"
| "attempt_of (RunningFn a _) = a"
| "attempt_of (Caught a _) = a"
| "attempt_of (Backoff a _) = a"
| "attempt_of (Returned a _) = a"
| "attempt_of (Threw a _) = a"

text \<open>Before the function has run in this attempt.\<close>

fun fresh :: "'r phase \<Rightarrow> bool" where
  "fresh (Starting _) = True"
| "fresh (WaitingSlot _) = True"
| "fresh (SlotHeld _) = True"
| "fresh (WaitingToken _ _ _) = True"
| "fresh _ = False"

fun backing_off :: "'r phase \<Rightarrow> bool" where
  "backing_off (Backoff _ _) = True"
| "backing_off _ = False"

definition attempt_limit :: "'r call \<Rightarrow> int" where
  "attempt_limit k = max 1 (min (maxAttemptsOf k) (rp_maxAttempts (ca_retry (cl_callable k))))"

definition call_ok :: "(string \<times> int) list \<Rightarrow> string \<Rightarrow> 'r call \<Rightarrow> bool" where
  "call_ok started c k \<longleftrightarrow>
     1 \<le> attempt_of (cl_phase k) \<and>
     attempt_of (cl_phase k) + (if backing_off (cl_phase k) then 1 else 0) \<le> attempt_limit k \<and>
     (\<forall>a. (c, a) \<in> set started \<longrightarrow> 1 \<le> a \<and> a + (if fresh (cl_phase k) then 1 else 0) \<le> attempt_of (cl_phase k))"

definition runs_ok :: "'r pipe \<Rightarrow> bool" where
  "runs_ok s \<longleftrightarrow> distinct (pp_started s) \<and> (\<forall>c k. pp_calls s c = Some k \<longrightarrow> call_ok (pp_started s) c k) \<and>
     (\<forall>c a. (c, a) \<in> set (pp_started s) \<longrightarrow> pp_calls s c \<noteq> None)"

lemma runs_okD: "runs_ok s \<Longrightarrow> pp_calls s c = Some k \<Longrightarrow> call_ok (pp_started s) c k"
  by (simp add: runs_ok_def)

lemma attempt_limit_phase [simp]: "attempt_limit (k\<lparr>cl_phase := ph\<rparr>) = attempt_limit k"
  by (simp add: attempt_limit_def maxAttemptsOf_def override_def split: option.split)

lemma runs_ok_frame [simp]:
  "runs_ok (s\<lparr>pp_ep := x\<rparr>) = runs_ok s" "runs_ok (emit g s) = runs_ok s"
  "runs_ok (s\<lparr>pp_orphans := n\<rparr>) = runs_ok s" "runs_ok (s\<lparr>pp_latency := t\<rparr>) = runs_ok s"
  "runs_ok (pauseBucket now h s) = runs_ok s" "runs_ok (failCircuit now ep s) = runs_ok s"
  by (simp_all add: runs_ok_def)

text \<open>A call may change, and the invocations of the function may grow by one of its own.\<close>

lemma runs_upd:
  assumes "runs_ok s" "pp_calls s' = (pp_calls s)(c \<mapsto> k')" "pp_started s' = pp_started s @ map (Pair c) as"
    "distinct (pp_started s')" "call_ok (pp_started s') c k'"
  shows "runs_ok s'"
proof -
  have other: "call_ok (pp_started s') c' k2 = call_ok (pp_started s) c' k2" if "c' \<noteq> c" for c' k2
    using that by (auto simp: call_ok_def assms(3))
  show ?thesis unfolding runs_ok_def
  proof (intro conjI allI impI)
    fix c' k2 assume "pp_calls s' c' = Some k2"
    then show "call_ok (pp_started s') c' k2"
      using assms(2,5) other runs_okD [OF assms(1), of c' k2] by (cases "c' = c") auto
  next
    fix c' a assume "(c', a) \<in> set (pp_started s')"
    then show "pp_calls s' c' \<noteq> None" using assms(1-3) by (auto simp: runs_ok_def)
  qed (rule assms(4))
qed

lemma runs_ok_distinct: "runs_ok s \<Longrightarrow> distinct (pp_started s)"
  by (simp add: runs_ok_def)

lemma call_ok_move:
  assumes "call_ok st c k" "attempt_of ph = attempt_of (cl_phase k)" "fresh ph \<longrightarrow> fresh (cl_phase k)" "\<not> backing_off ph"
  shows "call_ok st c (k\<lparr>cl_phase := ph\<rparr>)"
  using assms unfolding call_ok_def by (auto split: if_splits)

lemma set_phase_runs:
  assumes "runs_ok s" "pp_calls s c = Some k" "attempt_of ph = attempt_of (cl_phase k)"
    "fresh ph \<longrightarrow> fresh (cl_phase k)" "\<not> backing_off ph"
  shows "runs_ok (set_phase c ph s)"
  by (rule runs_upd [OF assms(1) set_phase_calls [OF assms(2)], of _ "[]"])
    (use assms call_ok_move [OF runs_okD [OF assms(1,2)]] in \<open>auto intro: runs_ok_distinct\<close>)

lemma releaseSlot_runs:
  assumes "runs_ok s"
  shows "runs_ok (releaseSlot s)"
  using assms by (auto simp: releaseSlot_def Let_def intro!: set_phase_runs split: option.split prod.split phase.split)

lemma leave_runs:
  assumes "runs_ok s" "pp_calls s c = Some k" "attempt_of ph = attempt_of (cl_phase k)" "\<not> fresh ph" "\<not> backing_off ph"
  shows "runs_ok (leave c ph s)"
  unfolding leave_def by (intro releaseSlot_runs set_phase_runs [where k = k] assms) (use assms in simp)

lemma startFn_runs:
  assumes "runs_ok s" "pp_calls s c = Some k" "attempt_of (cl_phase k) = a" "fresh (cl_phase k)"
  shows "runs_ok (startFn now c a s)"
proof -
  note ok = runs_okD [OF assms(1,2)]
  have new: "(c, a) \<notin> set (pp_started s)" using ok assms(3,4) by (auto simp: call_ok_def)
  have "\<not> backing_off (cl_phase k)" using assms(4) by (cases "cl_phase k") auto
  then have "call_ok (pp_started s @ [(c, a)]) c (k\<lparr>cl_phase := RunningFn a now\<rparr>)"
    using ok assms(3,4) by (auto simp: call_ok_def)
  then show ?thesis
    by (intro runs_upd [OF assms(1), of _ c _ "[a]"])
      (use new assms(1,2) in \<open>auto simp: startFn_def set_phase_def runs_ok_distinct\<close>)
qed

lemma takeToken_runs:
  assumes "runs_ok s" "pp_calls s c = Some k" "attempt_of (cl_phase k) = a" "fresh (cl_phase k)"
  shows "runs_ok (takeToken now c a deadline k s)"
proof (cases "es_rateLimit (pp_ep s)")
  case None
  with assms show ?thesis by (simp add: takeToken_def startFn_runs)
next
  case (Some b)
  let ?put = "\<lambda>b. s\<lparr>pp_ep := (pp_ep s)\<lparr>es_rateLimit := Some b\<rparr>\<rparr>"
  have put: "runs_ok (?put b')" "runs_ok (emit g (?put b'))" for b' g
    using assms(1) by simp_all
  have start: "runs_ok (startFn now c a (?put b'))" for b' using put assms by (intro startFn_runs [where k = k]) auto
  have left: "runs_ok (leave c (Caught a e) (?put b'))" "runs_ok (leave c (Caught a e) (emit g (?put b')))" for b' e g
    using put assms by (auto intro!: leave_runs [where k = k])
  have asleep: "runs_ok (set_phase c (WaitingToken a deadline ms) (?put b'))" for b' ms
    using put assms by (intro set_phase_runs [where k = k]) auto
  show ?thesis
    by (auto simp: takeToken_def Some Let_def start left asleep split: prod.split bool.split acquire_turn.split)
qed

lemma settle_runs:
  assumes "runs_ok s" "pp_calls s c = Some k" "cl_phase k = RunningFn a start"
  shows "runs_ok (on_success now c k a start r s)" "runs_ok (on_failure now c k a start err s)"
  unfolding on_success_def on_failure_def Let_def
  by (rule leave_runs [where k = k]; use assms in simp)+

lemma takeSlot_runs:
  assumes "runs_ok s" "pp_calls s c = Some k" "cl_phase k = Starting a"
  shows "runs_ok (takeSlot now ep c a s)"
  unfolding takeSlot_def Let_def
  using assms by (auto intro!: set_phase_runs [where k = k] split: option.split prod.split verdict.split)

lemma decide_runs:
  assumes "runs_ok s" "pp_calls s c = Some k" "cl_phase k = Caught a err"
  shows "runs_ok (decide now u c s)"
proof -
  let ?ce = "classifyError (normalizeError err)" and ?p = "ca_retry (cl_callable k)"
  note ok = runs_okD [OF assms(1,2)]
  show ?thesis
  proof (cases "a < maxAttemptsOf k \<and> shouldRetry ?p ?ce a")
    case True
    then have "a + 1 \<le> attempt_limit k" by (auto simp: attempt_limit_def shouldRetry_def split: if_splits)
    with ok have "call_ok (pp_started s) c (k\<lparr>cl_phase := Backoff a (nextDelayMs ?p u ?ce a)\<rparr>)"
      by (auto simp: call_ok_def assms(3))
    with True show ?thesis
      by (intro runs_upd [OF assms(1), of _ c _ "[]"])
        (use assms in \<open>auto simp: decide_def Let_def set_phase_def emit_def runs_ok_distinct\<close>)
  next
    case False
    then show ?thesis using assms by (auto simp: decide_def Let_def intro!: set_phase_runs [where k = k])
  qed
qed

lemma wake_runs:
  assumes "runs_ok s" "pp_calls s c = Some k" "cl_phase k = Backoff a d"
  shows "runs_ok (wake c s)"
proof -
  from runs_okD [OF assms(1,2)] have "call_ok (pp_started s) c (k\<lparr>cl_phase := Starting (a + 1)\<rparr>)"
    by (auto simp: call_ok_def assms(3))
  then show ?thesis
    by (intro runs_upd [OF assms(1), of _ c _ "[]"]) (use assms in \<open>auto simp: wake_def set_phase_def runs_ok_distinct\<close>)
qed

lemma enter_runs:
  assumes "runs_ok s" "pp_calls s c = Some k" "cl_phase k = Starting a"
  shows "runs_ok (enterCall now c s)"
  using assms
  by (auto simp: enterCall_def Let_def intro!: takeSlot_runs [where k = k] set_phase_runs [where k = k]
      split: option.split prod.split pass.split)

lemma invoke_runs:
  assumes "runs_ok s"
  shows "runs_ok (invoke c ca ov s)"
proof (cases "pp_calls s c")
  case None
  with assms have "(c, a) \<notin> set (pp_started s)" for a by (auto simp: runs_ok_def)
  then have "call_ok (pp_started s) c \<lparr>cl_callable = ca, cl_overrides = ov, cl_phase = Starting 1\<rparr>"
    by (simp add: call_ok_def attempt_limit_def)
  then show ?thesis
    by (intro runs_upd [OF assms, of _ c _ "[]"]) (use None assms in \<open>auto simp: invoke_def runs_ok_distinct\<close>)
qed (use assms in \<open>simp add: invoke_def\<close>)

lemma pipe_exec_runs:
  assumes "runs_ok s"
  shows "runs_ok (pipe_exec e s)"
proof (cases e)
  case (Enter now c)
  show ?thesis
  proof (cases "\<exists>k a. pp_calls s c = Some k \<and> cl_phase k = Starting a")
    case True
    then show ?thesis using enter_runs [OF assms] by (auto simp: Enter)
  next
    case False
    then have "enterCall now c s = s" by (auto simp: enterCall_def split: option.split phase.split)
    with assms show ?thesis by (simp add: Enter)
  qed
next
  case (Decide now u c)
  show ?thesis
  proof (cases "\<exists>k a err. pp_calls s c = Some k \<and> cl_phase k = Caught a err")
    case True
    then show ?thesis using decide_runs [OF assms] by (auto simp: Decide)
  next
    case False
    then have "decide now u c s = s" by (auto simp: decide_def split: option.split phase.split)
    with assms show ?thesis by (simp add: Decide)
  qed
next
  case (Wake c)
  show ?thesis
  proof (cases "\<exists>k a d. pp_calls s c = Some k \<and> cl_phase k = Backoff a d")
    case True
    then show ?thesis using wake_runs [OF assms] by (auto simp: Wake)
  next
    case False
    then have "wake c s = s" by (auto simp: wake_def split: option.split phase.split)
    with assms show ?thesis by (simp add: Wake)
  qed
qed (use assms in \<open>auto simp: tokenTurn_def settle_def timeOut_def
    intro!: invoke_runs takeToken_runs settle_runs split: option.split phase.split sum.split\<close>)

section \<open>Runs from a new endpoint\<close>

lemma releaseSlot_max: "map_option li_max (es_concurrency (pp_ep (releaseSlot s))) = map_option li_max (es_concurrency (pp_ep s))"
  by (auto simp: releaseSlot_def limiter_release_def Let_def split: option.split prod.split phase.split list.splits)

lemma leave_max [simp]:
  "map_option li_max (es_concurrency (pp_ep (leave c ph s))) = map_option li_max (es_concurrency (pp_ep s))"
  by (simp add: leave_def releaseSlot_max)

lemma takeSlot_max [simp]:
  "map_option li_max (es_concurrency (pp_ep (takeSlot now ep c a s))) = map_option li_max (es_concurrency (pp_ep s))"
  by (auto simp: takeSlot_def limiter_acquire_def Let_def split: option.split verdict.split if_splits)

lemma takeToken_max [simp]:
  "map_option li_max (es_concurrency (pp_ep (takeToken now c a d k s))) = map_option li_max (es_concurrency (pp_ep s))"
  by (auto simp: takeToken_def startFn_def Let_def split: option.split prod.split bool.split acquire_turn.split)

lemma settle_max [simp]:
  "map_option li_max (es_concurrency (pp_ep (on_success now c k a start r s))) = map_option li_max (es_concurrency (pp_ep s))"
  "map_option li_max (es_concurrency (pp_ep (on_failure now c k a start err s))) = map_option li_max (es_concurrency (pp_ep s))"
  by (simp_all add: on_success_def on_failure_def Let_def)

lemma pipe_exec_max:
  "map_option li_max (es_concurrency (pp_ep (pipe_exec e s))) = map_option li_max (es_concurrency (pp_ep s))"
  by (cases e) (auto simp: invoke_def enterCall_def tokenTurn_def settle_def timeOut_def decide_def wake_def Let_def
      split: option.split phase.split sum.split prod.split pass.split)

definition pipe_run :: "endpoint_state \<Rightarrow> tracker \<Rightarrow> 'r pipe_event list \<Rightarrow> 'r pipe" where
  "pipe_run ep t es = fold pipe_exec es (pipe_init ep t)"

lemma pipe_run_runs: "runs_ok (pipe_run ep t (es :: 'r pipe_event list))"
proof -
  have "runs_ok s \<Longrightarrow> runs_ok (fold pipe_exec es s)" for s :: "'r pipe"
    by (induction es arbitrary: s) (auto intro: pipe_exec_runs)
  then show ?thesis by (simp add: pipe_run_def pipe_init_def runs_ok_def)
qed

lemma fold_exec_ok:
  "pipe_ok s \<Longrightarrow> pipe_ok (fold pipe_exec es s) \<and>
     map_option li_max (es_concurrency (pp_ep (fold pipe_exec es s))) = map_option li_max (es_concurrency (pp_ep s))"
proof (induction es arbitrary: s)
  case (Cons e es)
  from Cons.IH [OF pipe_exec_ok [OF Cons.prems, of e]] show ?case by (simp add: pipe_exec_max)
qed simp

lemma pipe_init_ok:
  assumes "new_endpoint now name opts = Inr ep"
  shows "pipe_ok (pipe_init ep t)"
proof -
  have "li_active l = 0 \<and> li_waiters l = [] \<and> 0 < li_max l"
    if "es_concurrency ep = Some l" for l
    using assms that
    by (auto simp: new_endpoint_def made_def createConcurrencyLimiter_def Let_def split: option.splits sum.splits if_splits)
  then show ?thesis
    by (cases "es_concurrency ep")
      (auto simp: pipe_init_def slots_ok_def holders_def waiters_def pipe.sound_def)
qed

section \<open>The slots\<close>

text \<open>
  Claim C38: over any interleaving of calls, outcomes, timeouts and retries, the slots the limiter counts are
  exactly the calls between acquisition and release, so none leaks on any path (success, failure, rate limit,
  timeout); they never exceed the maximum, the queue of the limiter is the calls suspended on it, and while one
  is suspended every slot is held.
\<close>

theorem pipeline_slots:
  assumes "new_endpoint now name opts = Inr ep" "es_concurrency ep = Some l0"
  shows "\<exists>l. es_concurrency (pp_ep (pipe_run ep t es)) = Some l \<and> li_max l = li_max l0 \<and>
    li_active l = int (card (holders (pp_calls (pipe_run ep t es)))) \<and> li_active l \<le> li_max l \<and>
    distinct (li_waiters l) \<and> set (li_waiters l) = waiters (pp_calls (pipe_run ep t es)) \<and>
    (li_waiters l = [] \<or> li_active l = li_max l)"
proof -
  let ?s = "pipe_run ep t es"
  from fold_exec_ok [OF pipe_init_ok [OF assms(1)], of es t]
  have ok: "pipe_ok ?s" and m: "map_option li_max (es_concurrency (pp_ep ?s)) = Some (li_max l0)"
    by (simp_all add: pipe_run_def pipe_init_def assms(2))
  from m obtain l where l: "es_concurrency (pp_ep ?s) = Some l" "li_max l = li_max l0" by auto
  with ok obtain hs where hs: "distinct hs" "set hs = holders (pp_calls ?s)" "pipe.sound l hs"
    and ws: "distinct (li_waiters l)" "set (li_waiters l) = waiters (pp_calls ?s)" by (auto simp: slots_ok_def)
  from hs(1,2) have "card (holders (pp_calls ?s)) = length hs" using distinct_card by fastforce
  with hs(3) l ws show ?thesis by (auto simp: pipe.sound_def)
qed

section \<open>The attempts\<close>

text \<open>
  however its attempts end, a call invokes the wrapped function at most as often as the smaller of
  the attempts its override allows and those its policy allows (and at least one attempt is allowed), and never
  twice in one attempt. An override above the policy therefore has no effect.
\<close>

theorem pipeline_attempts:
  assumes "pp_calls (pipe_run ep t es) c = Some k"
  shows "int (length (filter (\<lambda>(c', _). c' = c) (pp_started (pipe_run ep t es))))
    \<le> max 1 (min (maxAttemptsOf k) (rp_maxAttempts (ca_retry (cl_callable k))))"
proof -
  let ?st = "pp_started (pipe_run ep t es)" and ?m = "attempt_limit k"
  have ok: "distinct ?st" "call_ok ?st c k"
    using pipe_run_runs [of ep t es] runs_okD [OF pipe_run_runs assms] by (auto simp: runs_ok_def)
  from ok(2) have "set (filter (\<lambda>(c', _). c' = c) ?st) \<subseteq> Pair c ` {1..?m}"
    by (auto simp: call_ok_def split: if_splits)
  then have "card (set (filter (\<lambda>(c', _). c' = c) ?st)) \<le> card (Pair c ` {1..?m})"
    by (intro card_mono) auto
  also have "\<dots> = nat ?m" by (simp add: card_image inj_on_def)
  finally show ?thesis unfolding distinct_card [OF distinct_filter [OF ok(1)]] by (simp add: attempt_limit_def)
qed

section \<open>An open circuit\<close>

text \<open>
  while the circuit rejects, a call without the bypass override is shed: it fails with
  \<^verbatim>\<open>CIRCUIT_OPEN\<close> at once under the default retry rule, and neither the function, nor a slot, nor a token
  is used.
\<close>

theorem open_circuit_sheds:
  assumes "pp_calls s c = Some k" "cl_phase k = Starting a" "\<not> bypasses k"
    "es_circuit (pp_ep s) = Some b" "canPass now b = (Rejected t, b')"
    "rp_shouldRetryFn (ca_retry (cl_callable k)) = defaultShouldRetry"
  shows "map_option cl_phase (pp_calls (decide n u c (enterCall now c s)) c) =
      Some (Threw a (circuitOpenError (ca_endpoint (cl_callable k)))) \<and>
    pp_started (decide n u c (enterCall now c s)) = pp_started s \<and>
    es_concurrency (pp_ep (decide n u c (enterCall now c s))) = es_concurrency (pp_ep s) \<and>
    es_rateLimit (pp_ep (decide n u c (enterCall now c s))) = es_rateLimit (pp_ep s) \<and>
    pp_bus (decide n u c (enterCall now c s)) = pp_bus s @ [SigShed (ca_endpoint (cl_callable k)) CircuitIsOpen now]"
  using assms
  by (simp add: enterCall_def decide_def Let_def set_phase_def emit_def normalizeError_def circuitOpenError_def
      classifyError_def shouldRetry_def defaultShouldRetry_def)

section \<open>Examples\<close>

text \<open>One slot, a bucket of one token per second and a breaker of threshold 1.\<close>

definition demo_callable :: callable where
  "demo_callable = \<lparr>ca_endpoint = ''api'', ca_retry = createRetryPolicy noRetryOptions, ca_timeout = Some 100, ca_mode = WaitMode\<rparr>"

definition demo_limits :: endpoint_options where
  "demo_limits = \<lparr>eo_rateLimit = None, eo_concurrency = Some (1, None), eo_circuit = Some (1, 1000)\<rparr>"

definition demo_endpoint :: endpoint_state where
  "demo_endpoint = \<lparr>es_endpoint = ''api'', es_rateLimit = None,
     es_concurrency = Some \<lparr>li_max = 1, li_maxQueue = None, li_active = 0, li_waiters = []\<rparr>,
     es_circuit = Some \<lparr>cb_threshold = 1, cb_cooldown = 1000, cb_state = Closed, cb_failures = 0, cb_openedAt = 0\<rparr>\<rparr>"

definition two_calls :: "nat pipe_event list" where
  "two_calls = [Invoke ''a'' demo_callable None, Invoke ''b'' demo_callable None, Enter 0 ''a'', Enter 0 ''b'', Token 0 ''a'']"

lemma demo_endpoint_new: "new_endpoint 0 ''api'' (Some demo_limits) = Inr demo_endpoint"
  by (simp add: new_endpoint_def demo_limits_def demo_endpoint_def made_def createConcurrencyLimiter_def createCircuitBreaker_def)

lemmas pipe_eval = pipe_run_def pipe_init_def two_calls_def demo_endpoint_def demo_callable_def
  invoke_def enterCall_def bypasses_def canPass_def maybeTransitionToHalfOpen_def takeSlot_def limiter_acquire_def
  set_phase_def emit_def tokenTurn_def takeToken_def startFn_def timeoutOf_def override_def Let_def

lemma pipeline_slots_witness:
  "\<exists>l. es_concurrency (pp_ep (pipe_run demo_endpoint (createLatencyTracker None None None) two_calls)) = Some l \<and>
     li_active l = 1 \<and> li_waiters l \<noteq> []"
proof -
  let ?s = "pipe_run demo_endpoint (createLatencyTracker None None None) two_calls"
  obtain l where l: "es_concurrency (pp_ep ?s) = Some l" "set (li_waiters l) = waiters (pp_calls ?s)"
    "li_waiters l = [] \<or> li_active l = li_max l" "li_max l = 1"
    using pipeline_slots [OF demo_endpoint_new, of _ "createLatencyTracker None None None" two_calls]
    by (auto simp: demo_endpoint_def)
  have "''b'' \<in> waiters (pp_calls ?s)" by (simp add: waiters_def pipe_eval)
  with l show ?thesis by auto
qed

lemma pipeline_attempts_witness:
  "length (filter (\<lambda>(c', _). c' = ''a'') (pp_started (pipe_run demo_endpoint (createLatencyTracker None None None) two_calls))) \<le> 3"
proof -
  let ?s = "pipe_run demo_endpoint (createLatencyTracker None None None) two_calls"
  have k: "pp_calls ?s ''a'' = Some \<lparr>cl_callable = demo_callable, cl_overrides = None, cl_phase = RunningFn 1 0\<rparr>"
    by (simp add: pipe_eval)
  from pipeline_attempts [OF k] show ?thesis
    by (simp add: maxAttemptsOf_def override_def demo_callable_def createRetryPolicy_def noRetryOptions_def)
qed

definition open_pipe :: "nat pipe" where
  "open_pipe = invoke ''a'' demo_callable None
     (pipe_init (demo_endpoint\<lparr>es_circuit := Some \<lparr>cb_threshold = 1, cb_cooldown = 1000, cb_state = Open, cb_failures = 1, cb_openedAt = 0\<rparr>\<rparr>)
       (createLatencyTracker None None None))"

lemma open_circuit_sheds_witness:
  "pp_started (decide 500 0 ''a'' (enterCall 500 ''a'' open_pipe)) = []"
proof -
  have k: "pp_calls open_pipe ''a'' = Some \<lparr>cl_callable = demo_callable, cl_overrides = None, cl_phase = Starting 1\<rparr>"
    and b: "es_circuit (pp_ep open_pipe) = Some \<lparr>cb_threshold = 1, cb_cooldown = 1000, cb_state = Open, cb_failures = 1, cb_openedAt = 0\<rparr>"
    and none: "pp_started open_pipe = []"
    by (simp_all add: open_pipe_def invoke_def pipe_init_def)
  have rej: "canPass 500 \<lparr>cb_threshold = 1, cb_cooldown = 1000, cb_state = Open, cb_failures = 1, cb_openedAt = 0\<rparr> =
      (Rejected 1000, \<lparr>cb_threshold = 1, cb_cooldown = 1000, cb_state = Open, cb_failures = 1, cb_openedAt = 0\<rparr>)"
    by (simp add: canPass_def maybeTransitionToHalfOpen_def)
  from open_circuit_sheds [OF k _ _ b rej] none show ?thesis
    by (simp add: bypasses_def demo_callable_def createRetryPolicy_def noRetryOptions_def)
qed

section \<open>Where the pipeline and its documentation part\<close>

text \<open>
  a timeout gives the slot back although the wrapped function still runs. With a limiter of one slot,
  the function of the next call starts while that of the call that timed out has not ended: two run at once.
\<close>

theorem timeout_exceeds_limit:
  "pp_orphans (pipe_run demo_endpoint t (two_calls @ [TimeOut 100 ''a'', Token 100 ''b''])) = 1 \<and>
   map_option cl_phase (pp_calls (pipe_run demo_endpoint t (two_calls @ [TimeOut 100 ''a'', Token 100 ''b''])) ''b'') =
     Some (RunningFn 1 100) \<and>
   map_option li_max (es_concurrency demo_endpoint) = Some 1"
  by (simp add: pipe_eval timeOut_def on_failure_def timeoutError_def normalizeError_def classifyError_def
      pauseBucket_def failCircuit_def recordFailure_def snapshotBreaker_def leave_def releaseSlot_def limiter_release_def)

text \<open>
  a rate limit hit in fail-fast mode, which is documented to throw at once so that the caller can defer
  the work, is a retryable error: under the default policy the call backs off and tries again.
\<close>

theorem fail_fast_backs_off:
  assumes "pp_calls s c = Some k" "cl_phase k = SlotHeld 1" "override co_mode k = Some FailFast"
    "cl_overrides k = Some ov" "co_maxRetries ov = None" "ca_retry (cl_callable k) = createRetryPolicy noRetryOptions"
    "es_rateLimit (pp_ep s) = Some b" "tryAcquire now b = (False, b')" "es_concurrency (pp_ep s) = None"
  shows "\<exists>delay. map_option cl_phase (pp_calls (decide n u c (tokenTurn now c s)) c) = Some (Backoff 1 delay)"
proof -
  obtain ms b2 where ms: "msUntilAvailable now b' = (ms, b2)" by force
  show ?thesis
    using assms
    by (simp add: tokenTurn_def takeToken_def Let_def ms leave_def releaseSlot_def emit_def set_phase_def decide_def
        normalizeError_def rateLimitedError_def classifyError_def maxAttemptsOf_def override_def shouldRetry_def
        createRetryPolicy_def noRetryOptions_def defaultShouldRetry_def)
qed

end
