(* ===== verification/Idempotency.thy ===== *)
theory Idempotency
  imports Prelude
begin

text \<open>
  The idempotency store, in memory and over a repository
  (\<^verbatim>\<open>packages/resilience/src/idempotency.ts\<close>). Every reading of \<^verbatim>\<open>Date.now()\<close> is an argument.
\<close>

section \<open>The in-memory store\<close>

record idem_policy =
  ip_ttl :: int
  ip_max :: "int option"

text \<open>An entry is the result and its expiry; results are opaque.\<close>

type_synonym 'r idem_entries = "(string \<times> 'r \<times> int) list"

text \<open>The loop deletes expired entries while it iterates over the map, which visits each once.\<close>

definition evictExpired :: "int \<Rightarrow> 'r idem_entries \<Rightarrow> 'r idem_entries" where
  "evictExpired now es = filter (\<lambda>(_, _, expiresAt). \<not> expiresAt \<le> now) es"

definition enforceMaxEntries :: "int option \<Rightarrow> 'r idem_entries \<Rightarrow> 'r idem_entries" where
  "enforceMaxEntries maxE es =
     (case maxE of
        None \<Rightarrow> es
      | Some m \<Rightarrow> if int (length es) > m then drop (nat (int (length es) - m)) es else es)"

definition idem_check :: "int \<Rightarrow> string \<Rightarrow> 'r idem_entries \<Rightarrow> 'r option \<times> 'r idem_entries" where
  "idem_check now k es = (let es' = evictExpired now es in (map_option fst (map_of es' k), es'))"

definition idem_record :: "idem_policy \<Rightarrow> int \<Rightarrow> string \<Rightarrow> 'r \<Rightarrow> 'r idem_entries \<Rightarrow> 'r idem_entries" where
  "idem_record p now k r es =
     enforceMaxEntries (ip_max p) (AList.update k (r, now + ip_ttl p) (evictExpired now es))"

definition idem_clear :: "'r idem_entries \<Rightarrow> 'r idem_entries" where
  "idem_clear es = []"

section \<open>The store over a repository\<close>

text \<open>
  The repository is an interface of the package; its operations are parameters. The locale states what the
  durable store relies on: the map it represents after each operation.
\<close>

definition durable_check ::
  "(int \<Rightarrow> 's \<Rightarrow> 's) \<Rightarrow> ('s \<Rightarrow> string \<Rightarrow> ('r \<times> int) option) \<Rightarrow> int \<Rightarrow> string \<Rightarrow> 's \<Rightarrow> 'r option \<times> 's" where
  "durable_check deleteExpired get now k s = (let s' = deleteExpired now s in (map_option fst (get s' k), s'))"

definition durable_record ::
  "(int \<Rightarrow> 's \<Rightarrow> 's) \<Rightarrow> (string \<Rightarrow> 'r \<times> int \<Rightarrow> 's \<Rightarrow> 's) \<Rightarrow> (int \<Rightarrow> 's \<Rightarrow> 's) \<Rightarrow> idem_policy \<Rightarrow> int \<Rightarrow> string \<Rightarrow> 'r \<Rightarrow>
     's \<Rightarrow> 's" where
  "durable_record deleteExpired put trimOldest p now k r s =
     (let s1 = deleteExpired now s; s2 = put k (r, now + ip_ttl p) s1
      in case ip_max p of None \<Rightarrow> s2 | Some m \<Rightarrow> trimOldest m s2)"

locale idem_repository =
  fixes ok :: "'s \<Rightarrow> bool"
    and entry :: "'s \<Rightarrow> string \<Rightarrow> ('r \<times> int) option"
    and deleteExpired :: "int \<Rightarrow> 's \<Rightarrow> 's"
    and put :: "string \<Rightarrow> 'r \<times> int \<Rightarrow> 's \<Rightarrow> 's"
    and trimOldest :: "int \<Rightarrow> 's \<Rightarrow> 's"
  assumes ok_delete: "ok s \<Longrightarrow> ok (deleteExpired now s)"
    and ok_put: "ok s \<Longrightarrow> ok (put k e s)"
    and ok_trim: "ok s \<Longrightarrow> ok (trimOldest m s)"
    and entry_delete: "ok s \<Longrightarrow> entry (deleteExpired now s) k =
      (case entry s k of Some (r, x) \<Rightarrow> if x \<le> now then None else Some (r, x) | None \<Rightarrow> None)"
    and entry_put: "ok s \<Longrightarrow> entry (put k e s) k' = (if k' = k then Some e else entry s k')"
    and entry_trim: "ok s \<Longrightarrow> entry (trimOldest m s) k = Some e \<Longrightarrow> entry s k = Some e"
begin

text \<open>What a check returns, and what can be returned after a record.\<close>

lemma check_entry:
  "ok s \<Longrightarrow> fst (durable_check deleteExpired entry now k s) =
     (case entry s k of Some (r, x) \<Rightarrow> if now < x then Some r else None | None \<Rightarrow> None)"
  by (auto simp: durable_check_def entry_delete split: option.splits)

lemma record_ok: "ok s \<Longrightarrow> ok (durable_record deleteExpired put trimOldest p now k r s)"
  by (simp add: durable_record_def Let_def ok_delete ok_put ok_trim split: option.split)

lemma record_entry:
  assumes "ok s" "entry (durable_record deleteExpired put trimOldest p now k r s) k' = Some e"
  shows "(k' = k \<and> e = (r, now + ip_ttl p)) \<or> (k' \<noteq> k \<and> entry s k' = Some e \<and> now < snd e)"
proof -
  have "entry (put k (r, now + ip_ttl p) (deleteExpired now s)) k' = Some e"
    using assms entry_trim [OF ok_put [OF ok_delete [OF assms(1)]]]
    by (auto simp: durable_record_def Let_def split: option.splits)
  then show ?thesis
    using assms(1) by (auto simp: entry_put ok_delete entry_delete split: if_splits option.splits)
qed

end

lemma map_of_evict:
  "wf_map es \<Longrightarrow> map_of (evictExpired now es) k =
     (case map_of es k of Some (r, x) \<Rightarrow> if x \<le> now then None else Some (r, x) | None \<Rightarrow> None)"
proof (induction es)
  case (Cons e es)
  obtain j r x where e: "e = (j, r, x)" by (cases e)
  have "map_of (evictExpired now es) j = None"
    using Cons.prems by (force simp: e map_of_eq_None_iff evictExpired_def)
  with Cons show ?case by (auto simp: e evictExpired_def split: option.splits)
qed (simp add: evictExpired_def)

lemma wf_evict: "wf_map es \<Longrightarrow> wf_map (evictExpired now es)"
  by (simp add: evictExpired_def distinct_map_filter)

lemma wf_drop: "wf_map es \<Longrightarrow> wf_map (drop n es)"
  by (simp add: drop_map [symmetric] distinct_drop)

lemma map_of_drop: "wf_map es \<Longrightarrow> map_of (drop n es) k = Some e \<Longrightarrow> map_of es k = Some e"
  using in_set_dropD [of "(k, e)" n es] wf_drop [of es n] by (simp add: map_of_eq_Some_iff)

text \<open>The in-memory map is such a repository, and the durable store over it is the in-memory store.\<close>

interpretation mem: idem_repository wf_map map_of evictExpired "\<lambda>k e es. AList.update k e es" "\<lambda>m. enforceMaxEntries (Some m)"
  by unfold_locales
    (auto simp: wf_evict map_of_evict enforceMaxEntries_def wf_drop dest: map_of_drop in_set_dropD split: if_splits)

section \<open>Properties\<close>

text \<open>
  the durable store over the in-memory map behaves as the in-memory store, call by call.
\<close>

theorem durable_refines:
  "durable_check evictExpired map_of now k es = idem_check now k es \<and>
   durable_record evictExpired (\<lambda>k e es. AList.update k e es) (\<lambda>m. enforceMaxEntries (Some m)) p now k r es =
     idem_record p now k r es"
  by (simp add: durable_check_def idem_check_def durable_record_def idem_record_def Let_def enforceMaxEntries_def
      split: option.split)

lemma record_self:
  assumes "wf_map es" "\<forall>m. ip_max p = Some m \<longrightarrow> 1 \<le> m" "k \<notin> set (keys_of es)"
  shows "map_of (idem_record p now k r es) k = Some (r, now + ip_ttl p)"
proof -
  have k: "k \<notin> set (keys_of (evictExpired now es))" using assms(3) by (force simp: evictExpired_def)
  then have upd: "AList.update k (r, now + ip_ttl p) (evictExpired now es) = evictExpired now es @ [(k, r, now + ip_ttl p)]"
    by (rule keys_update_new)
  show ?thesis
  proof (cases "ip_max p")
    case None
    with assms(1) show ?thesis by (simp add: idem_record_def enforceMaxEntries_def)
  next
    case (Some m)
    let ?es = "evictExpired now es @ [(k, r, now + ip_ttl p)]"
    have "nat (int (length ?es) - m) \<le> length (evictExpired now es)" using assms(2) Some by force
    then have "drop (nat (int (length ?es) - m)) ?es = drop (nat (int (length ?es) - m)) (evictExpired now es) @ [(k, r, now + ip_ttl p)]"
      by simp
    moreover have "map_of (drop n (evictExpired now es)) k = None" for n
      using k in_set_dropD by (fastforce simp: map_of_eq_None_iff)
    moreover have "map_of (evictExpired now es) k = None" using k by (simp add: map_of_eq_None_iff)
    ultimately show ?thesis
      using Some by (simp add: idem_record_def enforceMaxEntries_def upd map_add_def)
  qed
qed

text \<open>
  a first record of a key is remembered for exactly its time to live: a check at time \<open>t\<close>
  answers that the key is a duplicate, with the recorded result, if and only if \<open>t\<close> is before the expiry,
  whatever else the store holds and evicts, if the cap allows at least one entry.
\<close>

theorem idempotent_within_ttl:
  assumes "wf_map es" "\<forall>m. ip_max p = Some m \<longrightarrow> 1 \<le> m" "k \<notin> set (keys_of es)"
  shows "fst (idem_check t k (idem_record p now k r es)) = (if t < now + ip_ttl p then Some r else None)"
proof -
  have "wf_map (idem_record p now k r es)"
    using mem.record_ok [OF assms(1), of p now k r] durable_refines [of now k es p r] by simp
  then show ?thesis
    using mem.check_entry [of "idem_record p now k r es" t k] durable_refines [of t k "idem_record p now k r es"]
      record_self [OF assms] by simp
qed

lemma idempotent_within_ttl_witness:
  "fst (idem_check 104 ''pay'' (idem_record \<lparr>ip_ttl = 5, ip_max = Some 1\<rparr> 100 ''pay'' True [(''old'', False, 1000)])) = Some True"
  by (subst idempotent_within_ttl) simp_all

text \<open>
  Re-recording a key does not refresh its age: the entry keeps its place in the map, so the key recorded
  most recently but one is evicted before an older record.
\<close>

lemma rerecord_evicted:
  defines "es \<equiv> fold (\<lambda>(k, t) es. idem_record \<lparr>ip_ttl = 100, ip_max = Some 2\<rparr> t k () es)
    [(''a'', 1), (''b'', 2), (''a'', 3), (''c'', 4)] []"
  shows "fst (idem_check 5 ''a'' es) = None" "fst (idem_check 5 ''b'' es) = Some ()"
  by (simp_all add: es_def idem_check_def idem_record_def evictExpired_def enforceMaxEntries_def Let_def)

end
