(* ===== verification/DeadLetter.thy ===== *)
theory DeadLetter
  imports Json
begin

text \<open>
  The in-process dead-letter queue, \<^verbatim>\<open>packages/resilience/src/dead-letter.ts\<close>.

  A record is a mutable object shared between the map and every retry in flight, so the model keeps a heap
  of objects and a map from identifiers to references. A retry is two steps: its start, which reads the
  object, and its end when the callback resolves or rejects; other operations may come in between.
\<close>

section \<open>The code\<close>

record dl_record =
  dl_id :: string
  dl_type :: string
  dl_payload :: json
  dl_error :: string
  dl_first :: int
  dl_last :: int
  dl_retryCount :: int
  dl_resolved :: bool

record dl_queue =
  dq_heap :: "dl_record list"
  dq_map :: "(string \<times> nat) list"

definition createDeadLetterQueue :: dl_queue where
  "createDeadLetterQueue = \<lparr>dq_heap = [], dq_map = []\<rparr>"

definition lookup_dl :: "dl_queue \<Rightarrow> string \<Rightarrow> dl_record option" where
  "lookup_dl q i = map_option (\<lambda>a. dq_heap q ! a) (map_of (dq_map q) i)"

text \<open>Allocate an object and bind the identifier to it.\<close>

definition alloc :: "string \<Rightarrow> dl_record \<Rightarrow> dl_queue \<Rightarrow> dl_queue" where
  "alloc i r q = \<lparr>dq_heap = dq_heap q @ [r], dq_map = AList.update i (length (dq_heap q)) (dq_map q)\<rparr>"

text \<open>Mutate an object in place: \<^verbatim>\<open>record.resolved = true\<close>.\<close>

definition resolve_at :: "nat \<Rightarrow> dl_queue \<Rightarrow> dl_queue" where
  "resolve_at a q = q\<lparr>dq_heap := (dq_heap q)[a := (dq_heap q ! a)\<lparr>dl_resolved := True\<rparr>]\<rparr>"

definition enqueue :: "string \<Rightarrow> int \<Rightarrow> string \<Rightarrow> json \<Rightarrow> string \<Rightarrow> int \<Rightarrow> dl_queue \<Rightarrow> dl_record \<times> dl_queue" where
  "enqueue uuid now typ payload err count q =
     (let r = \<lparr>dl_id = uuid, dl_type = typ, dl_payload = payload, dl_error = err, dl_first = now, dl_last = now,
               dl_retryCount = count, dl_resolved = False\<rparr>
      in (r, alloc uuid r q))"

definition dequeue :: "string \<Rightarrow> dl_queue \<Rightarrow> bool \<times> dl_queue" where
  "dequeue i q = (case map_of (dq_map q) i of None \<Rightarrow> (False, q) | Some a \<Rightarrow> (True, resolve_at a q))"

definition list_dl :: "string option \<Rightarrow> bool option \<Rightarrow> dl_queue \<Rightarrow> dl_record list" where
  "list_dl typ res q =
     filter (\<lambda>r. (case res of None \<Rightarrow> True | Some b \<Rightarrow> dl_resolved r = b))
       (filter (\<lambda>r. (case typ of None \<Rightarrow> True | Some t \<Rightarrow> dl_type r = t)) (map (\<lambda>p. dq_heap q ! snd p) (dq_map q)))"

text \<open>The start of a retry yields the object it holds on to, or nothing if it returns false at once.\<close>

definition retry_start :: "string \<Rightarrow> dl_queue \<Rightarrow> nat option" where
  "retry_start i q =
     (case map_of (dq_map q) i of
        None \<Rightarrow> None
      | Some a \<Rightarrow> if dl_resolved (dq_heap q ! a) then None else Some a)"

definition retry_end :: "string \<Rightarrow> nat \<Rightarrow> bool \<Rightarrow> int \<Rightarrow> dl_queue \<Rightarrow> bool \<times> dl_queue" where
  "retry_end i a succeeded now q =
     (if succeeded then (True, resolve_at a q)
      else (let r = dq_heap q ! a
            in (False, alloc i (r\<lparr>dl_retryCount := dl_retryCount r + 1, dl_last := now, dl_resolved := False\<rparr>) q)))"

text \<open>A retry with nothing in between.\<close>

definition retry :: "string \<Rightarrow> (json \<Rightarrow> bool) \<Rightarrow> int \<Rightarrow> dl_queue \<Rightarrow> bool \<times> dl_queue" where
  "retry i callback now q =
     (case retry_start i q of
        None \<Rightarrow> (False, q)
      | Some a \<Rightarrow> retry_end i a (callback (dl_payload (dq_heap q ! a))) now q)"

definition clear_dl :: "dl_queue \<Rightarrow> nat \<times> dl_queue" where
  "clear_dl q =
     (let keep = filter (\<lambda>p. \<not> dl_resolved (dq_heap q ! snd p)) (dq_map q)
      in (length (dq_map q) - length keep, q\<lparr>dq_map := keep\<rparr>))"

section \<open>Lemmas\<close>

text \<open>Every reference is allocated, and no two identifiers share an object.\<close>

definition wf_dlq :: "dl_queue \<Rightarrow> bool" where
  "wf_dlq q \<longleftrightarrow> wf_map (dq_map q) \<and> distinct (map snd (dq_map q)) \<and> (\<forall>(i, a)\<in>set (dq_map q). a < length (dq_heap q))"

lemma wf_dlq_ref: "wf_dlq q \<Longrightarrow> map_of (dq_map q) i = Some a \<Longrightarrow> a < length (dq_heap q)"
  by (auto simp: wf_dlq_def dest!: map_of_SomeD)

lemma wf_dlq_inj: "wf_dlq q \<Longrightarrow> map_of (dq_map q) i = Some a \<Longrightarrow> map_of (dq_map q) j = Some a \<Longrightarrow> i = j"
  unfolding wf_dlq_def distinct_map inj_on_def by (auto dest!: map_of_SomeD) (metis prod.inject snd_conv)

lemma lookup_resolve:
  assumes "wf_dlq q" "map_of (dq_map q) i = Some a"
  shows "lookup_dl (resolve_at a q) j =
    (if j = i then map_option (\<lambda>r. r\<lparr>dl_resolved := True\<rparr>) (lookup_dl q i) else lookup_dl q j)"
proof (cases "map_of (dq_map q) j")
  case None
  with assms(2) show ?thesis by (auto simp: lookup_dl_def resolve_at_def)
next
  case (Some c)
  moreover have "j = i \<longleftrightarrow> c = a" using wf_dlq_inj [OF assms, of j] assms(2) Some by auto
  moreover have "a < length (dq_heap q)" by (rule wf_dlq_ref [OF assms])
  ultimately show ?thesis using assms(2) by (simp add: lookup_dl_def resolve_at_def nth_list_update)
qed

lemma lookup_alloc:
  assumes "wf_dlq q"
  shows "lookup_dl (alloc i r q) j = (if j = i then Some r else lookup_dl q j)"
  using wf_dlq_ref [OF assms, of j] by (cases "map_of (dq_map q) j") (auto simp: lookup_dl_def alloc_def nth_append)

lemma update_snd_distinct:
  "distinct (map snd m) \<Longrightarrow> a \<notin> snd ` set m \<Longrightarrow> wf_map m \<Longrightarrow> distinct (map snd (AList.update i a m))"
proof (induction m)
  case (Cons p m)
  have "snd ` set (AList.update i a m) \<subseteq> insert a (snd ` set m)"
    using set_update_subset [of i a m] by auto
  with Cons show ?case by (cases p) auto
qed simp

lemma wf_dlq_alloc: "wf_dlq q \<Longrightarrow> wf_dlq (alloc i r q)"
proof -
  assume wf: "wf_dlq q"
  then have "length (dq_heap q) \<notin> snd ` set (dq_map q)" by (auto simp: wf_dlq_def)
  with wf have "distinct (map snd (AList.update i (length (dq_heap q)) (dq_map q)))"
    by (intro update_snd_distinct) (auto simp: wf_dlq_def)
  with wf set_update_subset [of i "length (dq_heap q)" "dq_map q"] show "wf_dlq (alloc i r q)"
    by (auto simp: wf_dlq_def alloc_def distinct_update less_Suc_eq)
qed

lemma wf_dlq_resolve: "wf_dlq q \<Longrightarrow> wf_dlq (resolve_at a q)"
  by (simp add: wf_dlq_def resolve_at_def)

lemma wf_dlq_clear: "wf_dlq q \<Longrightarrow> wf_dlq (snd (clear_dl q))"
  by (auto simp: wf_dlq_def clear_dl_def Let_def distinct_map_filter)

section \<open>Properties\<close>

text \<open>
  a retry that nothing interleaves with ends in the right state: it runs only for an unresolved
  record, resolves it on success, counts and stamps the attempt on failure, and leaves every other record
  alone.
\<close>

theorem retry_sequential:
  assumes "wf_dlq q"
  shows "lookup_dl (snd (retry i callback now q)) j =
    (case lookup_dl q i of
       None \<Rightarrow> lookup_dl q j
     | Some r \<Rightarrow>
         if j \<noteq> i \<or> dl_resolved r then lookup_dl q j
         else if callback (dl_payload r) then Some (r\<lparr>dl_resolved := True\<rparr>)
         else Some (r\<lparr>dl_retryCount := dl_retryCount r + 1, dl_last := now\<rparr>))"
proof (cases "map_of (dq_map q) i")
  case None
  then show ?thesis by (simp add: retry_def retry_start_def lookup_dl_def)
next
  case (Some a)
  then have r: "lookup_dl q i = Some (dq_heap q ! a)" by (simp add: lookup_dl_def)
  show ?thesis
    using r lookup_resolve [OF assms Some, of j] lookup_alloc [OF assms, of i _ j]
    by (auto simp: retry_def retry_start_def retry_end_def Some Let_def)
qed

definition demo_dlq :: dl_queue where
  "demo_dlq = snd (enqueue ''d1'' 1 ''mail'' JNull ''boom'' 0 createDeadLetterQueue)"

lemma wf_demo_dlq: "wf_dlq demo_dlq"
  by (simp add: demo_dlq_def enqueue_def Let_def wf_dlq_alloc createDeadLetterQueue_def wf_dlq_def alloc_def)

lemma retry_sequential_witness:
  "map_option dl_retryCount (lookup_dl (snd (retry ''d1'' (\<lambda>_. False) 9 demo_dlq)) ''d1'') = Some 1"
proof -
  have "\<exists>r. lookup_dl demo_dlq ''d1'' = Some r \<and> dl_resolved r = False \<and> dl_retryCount r = 0"
    by (simp add: demo_dlq_def enqueue_def createDeadLetterQueue_def alloc_def lookup_dl_def Let_def)
  then show ?thesis unfolding retry_sequential [OF wf_demo_dlq] by auto
qed

text \<open>
  overlapping retries lose a resolution: when two retries of one record overlap and the one that
  fails ends first, it replaces the object in the map by a copy, and the one that then succeeds marks the old
  object: it returns true, yet the queue still lists the record as unresolved.
\<close>

theorem overlapping_retries_lose_success:
  assumes "retry_start i q = Some a" "wf_dlq q"
  shows "fst (retry_end i a True t2 (snd (retry_end i a False t1 q))) = True \<and>
    map_option dl_resolved (lookup_dl (snd (retry_end i a True t2 (snd (retry_end i a False t1 q)))) i) = Some False"
proof -
  have "map_of (dq_map q) i = Some a" using assms(1) by (auto simp: retry_start_def split: option.splits if_splits)
  from wf_dlq_ref [OF assms(2) this] show ?thesis
    by (simp add: retry_end_def Let_def alloc_def resolve_at_def lookup_dl_def nth_append)
qed

lemma overlapping_retries_lose_success_witness:
  "map_option dl_resolved (lookup_dl (snd (retry_end ''d1'' 0 True 3 (snd (retry_end ''d1'' 0 False 2 demo_dlq)))) ''d1'') = Some False"
proof -
  have "retry_start ''d1'' demo_dlq = Some 0"
    by (simp add: retry_start_def demo_dlq_def enqueue_def createDeadLetterQueue_def alloc_def Let_def)
  from overlapping_retries_lose_success [OF this wf_demo_dlq] show ?thesis by blast
qed

text \<open>A record dequeued while a retry of it is in flight comes back when that retry fails.\<close>

lemma dequeue_undone:
  assumes "retry_start i q = Some a" "wf_dlq q"
  shows "map_option dl_resolved (lookup_dl (snd (retry_end i a False t (snd (dequeue i q)))) i) = Some False"
proof -
  have a: "map_of (dq_map q) i = Some a" using assms(1) by (auto simp: retry_start_def split: option.splits if_splits)
  then have "snd (dequeue i q) = resolve_at a q" by (simp add: dequeue_def)
  then show ?thesis
    using lookup_alloc [OF wf_dlq_resolve [OF assms(2)]] by (simp add: retry_end_def Let_def)
qed

end
