(* ===== verification/KvStore.thy ===== *)
theory KvStore
  imports Prelude
begin

text \<open>
  The key-value slot of the runtime (\<^verbatim>\<open>packages/core/src/runtime.ts\<close>): the interface
  \<^verbatim>\<open>RuntimeKvStore\<close> durable components are written against, and \<^verbatim>\<open>weaveInMemoryPersistence\<close>, the
  default behind it, with expiry on read. Components store the JSON text of a value; the model keeps the value.
  The interface is a record of operations and its contract the locale \<open>kv_store\<close>.
\<close>

section \<open>The interface\<close>

record ('s, 'v) kv_ops =
  kv_get :: "int \<Rightarrow> string \<Rightarrow> 's \<Rightarrow> 'v option \<times> 's"
  kv_set :: "int \<Rightarrow> string \<Rightarrow> 'v \<Rightarrow> int option \<Rightarrow> 's \<Rightarrow> 's"
  kv_delete :: "string \<Rightarrow> 's \<Rightarrow> bool \<times> 's"
  kv_list :: "int \<Rightarrow> string \<Rightarrow> 's \<Rightarrow> (string \<times> 'v) list \<times> 's"

section \<open>The in-memory slot\<close>

record 'v kv_entry =
  ke_value :: 'v
  ke_expiresAt :: "int option"

type_synonym 'v kv_map = "(string \<times> 'v kv_entry) list"

definition alive :: "int \<Rightarrow> 'v kv_entry \<Rightarrow> bool" where
  "alive now e = (case ke_expiresAt e of None \<Rightarrow> True | Some x \<Rightarrow> \<not> x \<le> now)"

definition mem_get :: "int \<Rightarrow> string \<Rightarrow> 'v kv_map \<Rightarrow> 'v option \<times> 'v kv_map" where
  "mem_get now k m =
     (case map_of m k of
        None \<Rightarrow> (None, m)
      | Some e \<Rightarrow> if alive now e then (Some (ke_value e), m) else (None, AList.delete k m))"

definition mem_set :: "int \<Rightarrow> string \<Rightarrow> 'v \<Rightarrow> int option \<Rightarrow> 'v kv_map \<Rightarrow> 'v kv_map" where
  "mem_set now k v ttl m =
     (let expiresAt = (case ttl of None \<Rightarrow> None | Some t \<Rightarrow> if t > 0 then Some (now + t) else None)
      in AList.update k \<lparr>ke_value = v, ke_expiresAt = expiresAt\<rparr> m)"

definition mem_delete :: "string \<Rightarrow> 'v kv_map \<Rightarrow> bool \<times> 'v kv_map" where
  "mem_delete k m = (map_of m k \<noteq> None, AList.delete k m)"

definition mem_list :: "int \<Rightarrow> string \<Rightarrow> 'v kv_map \<Rightarrow> (string \<times> 'v) list \<times> 'v kv_map" where
  "mem_list now p m =
     (let out = filter (\<lambda>(k, e). starts_with p k \<and> alive now e) m
      in (sort_key fst (map (\<lambda>(k, e). (k, ke_value e)) out),
          filter (\<lambda>(k, e). \<not> (starts_with p k \<and> \<not> alive now e)) m))"

definition memory_kv :: "('v kv_map, 'v) kv_ops" where
  "memory_kv = \<lparr>kv_get = mem_get, kv_set = mem_set, kv_delete = mem_delete, kv_list = mem_list\<rparr>"

section \<open>The contract\<close>

text \<open>
  \<open>look now s k\<close> is what a read at \<open>now\<close> sees, and a \<open>lasting\<close> key is one that no passing of time removes.
  A component that sets no expiry relies on these laws only.
\<close>

locale kv_store =
  fixes K :: "('s, 'v) kv_ops"
    and kv_ok :: "'s \<Rightarrow> bool"
    and look :: "int \<Rightarrow> 's \<Rightarrow> string \<Rightarrow> 'v option"
    and lasting :: "'s \<Rightarrow> string \<Rightarrow> bool"
  assumes ok_get: "kv_ok s \<Longrightarrow> kv_ok (snd (kv_get K now k s))"
    and ok_set: "kv_ok s \<Longrightarrow> kv_ok (kv_set K now k v ttl s)"
    and ok_delete: "kv_ok s \<Longrightarrow> kv_ok (snd (kv_delete K k s))"
    and ok_list: "kv_ok s \<Longrightarrow> kv_ok (snd (kv_list K now p s))"
    and get_look: "kv_ok s \<Longrightarrow> fst (kv_get K now k s) = look now s k"
    and look_get: "kv_ok s \<Longrightarrow> now \<le> now' \<Longrightarrow> look now' (snd (kv_get K now k s)) = look now' s"
    and look_set: "kv_ok s \<Longrightarrow> look now' (kv_set K now k v None s) = (look now' s)(k \<mapsto> v)"
    and look_delete: "kv_ok s \<Longrightarrow> look now' (snd (kv_delete K k s)) = (look now' s)(k := None)"
    and list_look: "kv_ok s \<Longrightarrow> set (fst (kv_list K now p s)) = {(k, v). starts_with p k \<and> look now s k = Some v}"
    and list_keys: "kv_ok s \<Longrightarrow> distinct (keys_of (fst (kv_list K now p s)))"
    and look_list: "kv_ok s \<Longrightarrow> now \<le> now' \<Longrightarrow> look now' (snd (kv_list K now p s)) = look now' s"
    and lasting_look: "kv_ok s \<Longrightarrow> lasting s k \<Longrightarrow> look now s k = look now' s k"
    and lasting_set: "kv_ok s \<Longrightarrow> k' = k \<or> lasting s k' \<Longrightarrow> lasting (kv_set K now k v None s) k'"
    and lasting_get: "kv_ok s \<Longrightarrow> lasting s k' \<Longrightarrow> lasting (snd (kv_get K now k s)) k'"
    and lasting_delete: "kv_ok s \<Longrightarrow> lasting s k' \<Longrightarrow> lasting (snd (kv_delete K k s)) k'"
    and lasting_list: "kv_ok s \<Longrightarrow> lasting s k' \<Longrightarrow> lasting (snd (kv_list K now p s)) k'"
begin

text \<open>A key written without expiry is read back at any time.\<close>

lemma get_set: "kv_ok s \<Longrightarrow> fst (kv_get K now' k (kv_set K now k' v None s)) = (if k = k' then Some v else look now' s k)"
  by (simp add: get_look ok_set look_set)

text \<open>Reading at any time leaves a lasting key as it was, seen at any time.\<close>

lemma lasting_after_get: "kv_ok s \<Longrightarrow> lasting s k \<Longrightarrow> look now' (snd (kv_get K now k' s)) k = look now' s k"
  using lasting_look [OF ok_get lasting_get, of s k now' now k' "max now now'"] lasting_look [of s k now' "max now now'"]
    look_get [of s now "max now now'" k'] by (metis max.cobounded1)

lemma lasting_after_list: "kv_ok s \<Longrightarrow> lasting s k \<Longrightarrow> look now' (snd (kv_list K now p s)) k = look now' s k"
  using lasting_look [OF ok_list lasting_list, of s k now' now p "max now now'"] lasting_look [of s k now' "max now now'"]
    look_list [of s now "max now now'" p] by (metis max.cobounded1)

lemma list_values: "kv_ok s \<Longrightarrow> set (map snd (fst (kv_list K now p s))) = {v. \<exists>k. starts_with p k \<and> look now s k = Some v}"
  using list_look [of s now p] by force

end

section \<open>The in-memory slot keeps it\<close>

definition mem_look :: "int \<Rightarrow> 'v kv_map \<Rightarrow> string \<Rightarrow> 'v option" where
  "mem_look now m k = (case map_of m k of None \<Rightarrow> None | Some e \<Rightarrow> if alive now e then Some (ke_value e) else None)"

definition mem_lasting :: "'v kv_map \<Rightarrow> string \<Rightarrow> bool" where
  "mem_lasting m k = (case map_of m k of None \<Rightarrow> True | Some e \<Rightarrow> ke_expiresAt e = None)"

lemma alive_later: "alive now' e \<Longrightarrow> now \<le> now' \<Longrightarrow> alive now e"
  by (auto simp: alive_def split: option.splits)

lemma map_of_filter_wf:
  "wf_map m \<Longrightarrow> map_of (filter P m) k = (case map_of m k of None \<Rightarrow> None | Some e \<Rightarrow> if P (k, e) then Some e else None)"
proof (induction m)
  case (Cons x m)
  have "map_of (filter P m) (fst x) = None" using Cons.prems by (force simp: map_of_eq_None_iff)
  with Cons show ?case by (cases x) (auto split: option.splits)
qed simp

lemma mem_list_look:
  assumes "wf_map m"
  shows "set (fst (mem_list now p m)) = {(k, v). starts_with p k \<and> mem_look now m k = Some v}"
proof -
  have mem: "(k, e) \<in> set m \<longleftrightarrow> map_of m k = Some e" for k e using assms by simp
  have "(k, v) \<in> set (fst (mem_list now p m)) \<longleftrightarrow> (\<exists>e. (k, e) \<in> set m \<and> starts_with p k \<and> alive now e \<and> ke_value e = v)" for k v
    by (auto simp: mem_list_def Let_def image_iff)
  then show ?thesis unfolding mem by (auto simp: mem_look_def split: option.splits if_splits)
qed

lemma mem_list_keys:
  fixes m :: "'v kv_map"
  assumes "wf_map m"
  shows "wf_map (fst (mem_list now p m))"
proof -
  from assms
  have "distinct (map fst (filter (\<lambda>(k, e). starts_with p k \<and> alive now e) m))" by (rule distinct_map_filter)
  moreover have "fst \<circ> (\<lambda>(k, e). (k, ke_value e)) = (fst :: string \<times> 'v kv_entry \<Rightarrow> string)" by auto
  ultimately show ?thesis by (simp add: mem_list_def Let_def map_sort_key)
qed

lemma mem_look_list:
  "wf_map m \<Longrightarrow> now \<le> now' \<Longrightarrow> mem_look now' (snd (mem_list now p m)) = mem_look now' m"
  by (rule ext) (auto simp: mem_look_def mem_list_def Let_def map_of_filter_wf dest: alive_later split: option.split)

lemma mem_look_get:
  "now \<le> now' \<Longrightarrow> mem_look now' (snd (mem_get now k m)) = mem_look now' m"
  by (rule ext) (auto simp: mem_look_def mem_get_def dest: alive_later split: option.split)

interpretation slot: kv_store memory_kv wf_map mem_look mem_lasting
proof
  fix s :: "'v kv_map" and now now' :: int and k k' p :: string and v :: 'v and ttl
  show "mem_lasting s k \<Longrightarrow> mem_look now s k = mem_look now' s k"
    by (auto simp: mem_lasting_def mem_look_def alive_def split: option.splits)
  show "k' = k \<or> mem_lasting s k' \<Longrightarrow> mem_lasting (kv_set memory_kv now k v None s) k'"
    "mem_lasting s k' \<Longrightarrow> mem_lasting (snd (kv_get memory_kv now k s)) k'"
    "mem_lasting s k' \<Longrightarrow> mem_lasting (snd (kv_delete memory_kv k s)) k'"
    by (auto simp: mem_lasting_def memory_kv_def mem_set_def mem_get_def mem_delete_def split: option.splits)
  show "wf_map s \<Longrightarrow> mem_lasting s k' \<Longrightarrow> mem_lasting (snd (kv_list memory_kv now p s)) k'"
    by (simp add: mem_lasting_def memory_kv_def mem_list_def Let_def map_of_filter_wf del: map_of_eq_Some_iff
        split: option.splits)
  show "wf_map s \<Longrightarrow> set (fst (kv_list memory_kv now p s)) = {(k, v). starts_with p k \<and> mem_look now s k = Some v}"
    by (simp add: memory_kv_def mem_list_look)
  show "wf_map s \<Longrightarrow> wf_map (fst (kv_list memory_kv now p s))" by (simp add: memory_kv_def mem_list_keys)
  show "wf_map s \<Longrightarrow> wf_map (snd (kv_list memory_kv now p s))"
    by (simp add: memory_kv_def mem_list_def Let_def distinct_map_filter)
  show "wf_map s \<Longrightarrow> now \<le> now' \<Longrightarrow> mem_look now' (snd (kv_list memory_kv now p s)) = mem_look now' s"
    by (simp add: memory_kv_def mem_look_list)
  show "wf_map s \<Longrightarrow> now \<le> now' \<Longrightarrow> mem_look now' (snd (kv_get memory_kv now k s)) = mem_look now' s"
    by (simp add: memory_kv_def mem_look_get)
  show "wf_map s \<Longrightarrow> wf_map (snd (kv_get memory_kv now k s))" "wf_map s \<Longrightarrow> wf_map (kv_set memory_kv now k v ttl s)"
    "wf_map s \<Longrightarrow> wf_map (snd (kv_delete memory_kv k s))"
    by (auto simp: memory_kv_def mem_get_def mem_set_def mem_delete_def Let_def split: option.split)
  show "wf_map s \<Longrightarrow> fst (kv_get memory_kv now k s) = mem_look now s k"
    by (simp add: memory_kv_def mem_get_def mem_look_def split: option.split)
  show "wf_map s \<Longrightarrow> mem_look now' (kv_set memory_kv now k v None s) = (mem_look now' s)(k \<mapsto> v)"
    by (auto simp: memory_kv_def mem_set_def mem_look_def alive_def)
  show "wf_map s \<Longrightarrow> mem_look now' (snd (kv_delete memory_kv k s)) = (mem_look now' s)(k := None)"
    by (auto simp: memory_kv_def mem_delete_def mem_look_def)
qed

section \<open>Namespaces\<close>

text \<open>
  A component lists its keys by the prefix of its namespace and a colon. Two namespaces are kept apart as long
  as neither, with its colon, starts the other.
\<close>

definition in_namespace :: "string \<Rightarrow> string \<Rightarrow> string" where
  "in_namespace ns i = ns @ '':'' @ i"

lemma starts_with_namespace: "starts_with (ns @ '':'') (in_namespace ns i)"
  by (simp add: starts_with_def in_namespace_def)

lemma in_namespace_inj: "in_namespace ns i = in_namespace ns j \<longleftrightarrow> i = j"
  by (simp add: in_namespace_def)

lemma namespaces_apart:
  assumes "\<not> starts_with (ns @ '':'') (ms @ '':'')" "\<not> starts_with (ms @ '':'') (ns @ '':'')"
  shows "\<not> starts_with (ns @ '':'') (in_namespace ms i)"
proof
  assume "starts_with (ns @ '':'') (in_namespace ms i)"
  then obtain j where "(ns @ '':'') @ j = (ms @ '':'') @ i" by (auto simp: starts_with_iff in_namespace_def)
  then obtain us where "ns @ '':'' = (ms @ '':'') @ us \<or> (ns @ '':'') @ us = ms @ '':''"
    unfolding append_eq_append_conv2 by blast
  with assms show False by (auto simp: starts_with_iff) (metis append.assoc append_Cons append_Nil)+
qed

end
