(* ===== verification/DurableDeadLetter.thy ===== *)
theory DurableDeadLetter
  imports DeadLetter KvStore
begin

text \<open>
  The dead-letter queue over the runtime key-value slot, \<^verbatim>\<open>createDurableDeadLetterQueue\<close> of
  \<^verbatim>\<open>packages/resilience/src/dead-letter.ts\<close>. The slot is any implementation of its contract; records
  are values, read and written whole, so a retry writes back the record it read before its callback ran.
\<close>

section \<open>The code\<close>

definition dlk_loadAll :: "('s, dl_record) kv_ops \<Rightarrow> string \<Rightarrow> int \<Rightarrow> 's \<Rightarrow> dl_record list \<times> 's" where
  "dlk_loadAll K ns now s = (let (entries, s') = kv_list K now (ns @ '':'') s in (map snd entries, s'))"

definition dlk_loadOne :: "('s, dl_record) kv_ops \<Rightarrow> string \<Rightarrow> int \<Rightarrow> string \<Rightarrow> 's \<Rightarrow> dl_record option \<times> 's" where
  "dlk_loadOne K ns now i s = kv_get K now (in_namespace ns i) s"

definition dlk_enqueue ::
  "('s, dl_record) kv_ops \<Rightarrow> string \<Rightarrow> int \<Rightarrow> string \<Rightarrow> string \<Rightarrow> json \<Rightarrow> string \<Rightarrow> int \<Rightarrow> 's \<Rightarrow> dl_record \<times> 's" where
  "dlk_enqueue K ns now uuid typ payload err count s =
     (let r = \<lparr>dl_id = uuid, dl_type = typ, dl_payload = payload, dl_error = err, dl_first = now, dl_last = now,
               dl_retryCount = count, dl_resolved = False\<rparr>
      in (r, kv_set K now (in_namespace ns uuid) r None s))"

definition dlk_dequeue :: "('s, dl_record) kv_ops \<Rightarrow> string \<Rightarrow> int \<Rightarrow> string \<Rightarrow> 's \<Rightarrow> bool \<times> 's" where
  "dlk_dequeue K ns now i s =
     (case dlk_loadOne K ns now i s of
        (None, s1) \<Rightarrow> (False, s1)
      | (Some r, s1) \<Rightarrow> (True, kv_set K now (in_namespace ns i) (r\<lparr>dl_resolved := True\<rparr>) None s1))"

definition dlk_list ::
  "('s, dl_record) kv_ops \<Rightarrow> string \<Rightarrow> int \<Rightarrow> string option \<Rightarrow> bool option \<Rightarrow> 's \<Rightarrow> dl_record list \<times> 's" where
  "dlk_list K ns now typ res s =
     (let (rs, s') = dlk_loadAll K ns now s
      in (filter (\<lambda>r. (case res of None \<Rightarrow> True | Some b \<Rightarrow> dl_resolved r = b))
           (filter (\<lambda>r. (case typ of None \<Rightarrow> True | Some t \<Rightarrow> dl_type r = t)) rs), s'))"

definition dlk_retryStart :: "('s, dl_record) kv_ops \<Rightarrow> string \<Rightarrow> int \<Rightarrow> string \<Rightarrow> 's \<Rightarrow> dl_record option \<times> 's" where
  "dlk_retryStart K ns now i s =
     (case dlk_loadOne K ns now i s of
        (None, s1) \<Rightarrow> (None, s1)
      | (Some r, s1) \<Rightarrow> (if dl_resolved r then None else Some r, s1))"

definition dlk_retryEnd :: "('s, dl_record) kv_ops \<Rightarrow> string \<Rightarrow> int \<Rightarrow> string \<Rightarrow> dl_record \<Rightarrow> bool \<Rightarrow> 's \<Rightarrow> bool \<times> 's" where
  "dlk_retryEnd K ns now i r succeeded s =
     (if succeeded then (True, kv_set K now (in_namespace ns i) (r\<lparr>dl_resolved := True\<rparr>) None s)
      else (False, kv_set K now (in_namespace ns i)
              (r\<lparr>dl_retryCount := dl_retryCount r + 1, dl_last := now, dl_resolved := False\<rparr>) None s))"

text \<open>A retry with nothing in between; the callback answers at \<open>now'\<close>.\<close>

definition dlk_retry ::
  "('s, dl_record) kv_ops \<Rightarrow> string \<Rightarrow> int \<Rightarrow> int \<Rightarrow> (json \<Rightarrow> bool) \<Rightarrow> string \<Rightarrow> 's \<Rightarrow> bool \<times> 's" where
  "dlk_retry K ns now now' callback i s =
     (case dlk_retryStart K ns now i s of
        (None, s1) \<Rightarrow> (False, s1)
      | (Some r, s1) \<Rightarrow> dlk_retryEnd K ns now' i r (callback (dl_payload r)) s1)"

fun dlk_removeResolved :: "('s, dl_record) kv_ops \<Rightarrow> string \<Rightarrow> dl_record list \<Rightarrow> nat \<Rightarrow> 's \<Rightarrow> nat \<times> 's" where
  "dlk_removeResolved K ns [] n s = (n, s)"
| "dlk_removeResolved K ns (r # rs) n s =
     (if dl_resolved r
      then (let (gone, s') = kv_delete K (in_namespace ns (dl_id r)) s
            in dlk_removeResolved K ns rs (if gone then Suc n else n) s')
      else dlk_removeResolved K ns rs n s)"

definition dlk_clear :: "('s, dl_record) kv_ops \<Rightarrow> string \<Rightarrow> int \<Rightarrow> 's \<Rightarrow> nat \<times> 's" where
  "dlk_clear K ns now s = (let (rs, s') = dlk_loadAll K ns now s in dlk_removeResolved K ns rs 0 s')"

section \<open>Over any slot\<close>

text \<open>What the queue holds under an identifier.\<close>

definition letter :: "(int \<Rightarrow> 's \<Rightarrow> string \<Rightarrow> dl_record option) \<Rightarrow> string \<Rightarrow> int \<Rightarrow> 's \<Rightarrow> string \<Rightarrow> dl_record option" where
  "letter lk ns now s i = lk now s (in_namespace ns i)"

definition retried :: "int \<Rightarrow> bool \<Rightarrow> dl_record \<Rightarrow> dl_record" where
  "retried now ok r =
     (if ok then r\<lparr>dl_resolved := True\<rparr>
      else r\<lparr>dl_retryCount := dl_retryCount r + 1, dl_last := now, dl_resolved := False\<rparr>)"

locale letter_store = kv_store K kv_ok look lasting
  for K :: "('s, dl_record) kv_ops"
    and kv_ok :: "'s \<Rightarrow> bool"
    and look :: "int \<Rightarrow> 's \<Rightarrow> string \<Rightarrow> dl_record option"
    and lasting :: "'s \<Rightarrow> string \<Rightarrow> bool"
begin

lemma letter_set:
  "kv_ok s \<Longrightarrow> letter look ns now' (kv_set K now (in_namespace ns i) r None s) = (letter look ns now' s)(i \<mapsto> r)"
  by (rule ext) (simp add: letter_def look_set in_namespace_inj)

lemma letter_get: "kv_ok s \<Longrightarrow> now \<le> now' \<Longrightarrow> letter look ns now' (snd (kv_get K now k s)) = letter look ns now' s"
  by (rule ext) (simp add: letter_def look_get)

lemma loadOne: "kv_ok s \<Longrightarrow> fst (dlk_loadOne K ns now i s) = letter look ns now s i"
  by (simp add: dlk_loadOne_def letter_def get_look)

lemma loadOne_state:
  assumes "kv_ok s" "dlk_loadOne K ns now i s = (x, s')" "now \<le> now'"
  shows "kv_ok s'" "letter look ns now' s' = letter look ns now' s" "x = letter look ns now s i"
  using assms ok_get [OF assms(1), of now "in_namespace ns i"] letter_get [OF assms(1,3), of ns "in_namespace ns i"]
    loadOne [OF assms(1), of ns now i] by (auto simp: dlk_loadOne_def)

lemma enqueue_letter:
  "kv_ok s \<Longrightarrow> letter look ns now' (snd (dlk_enqueue K ns now uuid typ p e n s)) =
     (letter look ns now' s)(uuid \<mapsto> fst (dlk_enqueue K ns now uuid typ p e n s))"
  by (simp add: dlk_enqueue_def Let_def letter_set)

lemma dequeue_letter:
  assumes "kv_ok s" "now \<le> now'"
  shows "letter look ns now' (snd (dlk_dequeue K ns now i s)) =
    (case letter look ns now s i of None \<Rightarrow> letter look ns now' s
     | Some r \<Rightarrow> (letter look ns now' s)(i \<mapsto> r\<lparr>dl_resolved := True\<rparr>)) \<and>
    fst (dlk_dequeue K ns now i s) = (letter look ns now s i \<noteq> None)"
proof -
  obtain x s1 where x: "dlk_loadOne K ns now i s = (x, s1)" by force
  note loaded = loadOne_state [OF assms(1) x assms(2)]
  show ?thesis using loaded by (auto simp: dlk_dequeue_def x letter_set split: option.split)
qed

lemma retry_letter:
  assumes "kv_ok s" "now \<le> now'" "now' \<le> later"
  shows "letter look ns later (snd (dlk_retry K ns now now' callback i s)) =
    (case letter look ns now s i of
       None \<Rightarrow> letter look ns later s
     | Some r \<Rightarrow> if dl_resolved r then letter look ns later s
         else (letter look ns later s)(i \<mapsto> retried now' (callback (dl_payload r)) r)) \<and>
    fst (dlk_retry K ns now now' callback i s) =
      (case letter look ns now s i of None \<Rightarrow> False | Some r \<Rightarrow> \<not> dl_resolved r \<and> callback (dl_payload r))"
proof -
  obtain x s1 where x: "dlk_loadOne K ns now i s = (x, s1)" by force
  from assms have "now \<le> later" by simp
  note loaded = loadOne_state [OF assms(1) x this]
  show ?thesis using loaded
    by (auto simp: dlk_retry_def dlk_retryStart_def dlk_retryEnd_def x letter_set retried_def split: option.split)
qed

lemma list_letters:
  assumes "kv_ok s"
  shows "set (fst (dlk_list K ns now typ res s)) =
    {r. (\<exists>i. letter look ns now s i = Some r) \<and> (\<forall>t. typ = Some t \<longrightarrow> dl_type r = t) \<and> (\<forall>b. res = Some b \<longrightarrow> dl_resolved r = b)}"
proof -
  obtain es s1 where l: "kv_list K now (ns @ '':'') s = (es, s1)" by force
  have "starts_with (ns @ '':'') k \<longleftrightarrow> (\<exists>i. k = in_namespace ns i)" for k
    by (auto simp: starts_with_iff in_namespace_def)
  then have "set (map snd es) = {r. \<exists>i. letter look ns now s i = Some r}"
    using list_values [OF assms, of now "ns @ '':''"] by (auto simp: l letter_def)
  then show ?thesis by (auto simp: dlk_list_def dlk_loadAll_def l split: option.splits)
qed

lemma namespace_untouched:
  assumes "kv_ok s" "\<not> starts_with (ns @ '':'') (ms @ '':'')" "\<not> starts_with (ms @ '':'') (ns @ '':'')"
  shows "letter look ns now' (kv_set K now (in_namespace ms i) r None s) = letter look ns now' s"
proof (rule ext)
  fix j
  have "in_namespace ns j \<noteq> in_namespace ms i"
    using namespaces_apart [OF assms(2,3)] starts_with_namespace [of ns j] by metis
  then show "letter look ns now' (kv_set K now (in_namespace ms i) r None s) j = letter look ns now' s j"
    using assms(1) by (simp add: letter_def look_set)
qed

end

interpretation letters: letter_store memory_kv wf_map mem_look mem_lasting
  by unfold_locales

section \<open>Properties\<close>

text \<open>
  over the runtime slot the durable dead-letter queue is a map of records: enqueueing adds the
  record, a retry that runs alone resolves it or counts one more attempt and answers what the callback did,
  dequeueing resolves it, and a listing shows exactly the records of the namespace that pass the filter.
\<close>

theorem durable_dead_letter_map:
  assumes "wf_map s" "now \<le> now'" "now' \<le> later"
  shows "letter mem_look ns later (snd (dlk_enqueue memory_kv ns now uuid ty p e n s)) =
      (letter mem_look ns later s)(uuid \<mapsto> fst (dlk_enqueue memory_kv ns now uuid ty p e n s)) \<and>
    letter mem_look ns later (snd (dlk_dequeue memory_kv ns now i s)) =
      (case letter mem_look ns now s i of None \<Rightarrow> letter mem_look ns later s
       | Some r \<Rightarrow> (letter mem_look ns later s)(i \<mapsto> r\<lparr>dl_resolved := True\<rparr>)) \<and>
    letter mem_look ns later (snd (dlk_retry memory_kv ns now now' callback i s)) =
      (case letter mem_look ns now s i of
         None \<Rightarrow> letter mem_look ns later s
       | Some r \<Rightarrow> if dl_resolved r then letter mem_look ns later s
           else (letter mem_look ns later s)(i \<mapsto> retried now' (callback (dl_payload r)) r)) \<and>
    set (fst (dlk_list memory_kv ns now flt res s)) =
      {r. (\<exists>i. letter mem_look ns now s i = Some r) \<and> (\<forall>t. flt = Some t \<longrightarrow> dl_type r = t) \<and>
          (\<forall>b. res = Some b \<longrightarrow> dl_resolved r = b)}"
  using letters.enqueue_letter [OF assms(1)] letters.dequeue_letter [OF assms(1), of now later]
    letters.retry_letter [OF assms] letters.list_letters [OF assms(1)] assms(2,3)
  by simp

lemma durable_dead_letter_map_witness:
  "letter mem_look ''dlq'' 9 (snd (dlk_enqueue memory_kv ''dlq'' 1 ''a'' ''t'' JNull ''boom'' 0 [])) ''a'' =
     Some (fst (dlk_enqueue memory_kv ''dlq'' 1 ''a'' ''t'' JNull ''boom'' 0 []))"
  using durable_dead_letter_map [where s = "[]" and now = 1 and now' = 2 and later = 9 and ns = "''dlq''" and uuid = "''a''"
      and ty = "''t''" and p = JNull and e = "''boom''" and n = 0] by simp

text \<open>
  A queue in namespace \<^verbatim>\<open>dlq\<close> also lists the letters of a queue in namespace \<^verbatim>\<open>dlq:eu\<close>, whose keys
  start with its prefix.
\<close>

lemma nested_namespace_leaks:
  "map dl_id (fst (dlk_list memory_kv ''dlq'' 2 None None (snd (dlk_enqueue memory_kv ''dlq:eu'' 1 ''a'' ''t'' JNull ''boom'' 0 [])))) = [''a'']"
  by (simp add: dlk_list_def dlk_loadAll_def dlk_enqueue_def memory_kv_def mem_list_def mem_set_def in_namespace_def
      starts_with_def alive_def Let_def)

end
