(* ===== verification/HumanTasks.thy ===== *)
theory HumanTasks
  imports Json "HOL-Library.Product_Lexorder"
begin

text \<open>
  Human-in-the-loop tasks: the data of \<^verbatim>\<open>packages/core/src/human-tasks.ts\<close>, the factories of
  \<^verbatim>\<open>packages/human-tasks/src/task.ts\<close> and \<^verbatim>\<open>action-items.ts\<close>, the policy evaluator of
  \<^verbatim>\<open>policy.ts\<close> and the decision log of \<^verbatim>\<open>decision.ts\<close>. An instant is kept as its milliseconds;
  the code compares the text \<^verbatim>\<open>toISOString\<close> makes of it, in the same order.
\<close>

section \<open>Data\<close>

datatype task_status = TPending | TAssigned | TInReview | TCompleted | TRejected | TExpired | TEscalated

datatype task_type = TyApproval | TyReview | TyEscalation | TyInput | TyClassification | TyActionItem

datatype task_priority = PrLow | PrNormal | PrHigh | PrUrgent

datatype created_by = ByAgent | ByPrincipal | BySystem

record provenance_of =
  pv_sourceRunId :: "string option"
  pv_sourceRef :: "string option"
  pv_createdBy :: created_by

record human_task =
  ht_id :: string
  ht_type :: task_type
  ht_title :: string
  ht_description :: "string option"
  ht_status :: task_status
  ht_priority :: task_priority
  ht_assignee :: "string option"
  ht_data :: "json option"
  ht_result :: "json option"
  ht_workflowRunId :: "string option"
  ht_workflowStepId :: "string option"
  ht_slaDeadline :: "int option"
  ht_createdAt :: int
  ht_completedAt :: "int option"
  ht_blocking :: "bool option"
  ht_provenance :: "provenance_of option"
  ht_dueAt :: "int option"

record human_decision =
  hd_taskId :: string
  hd_decidedBy :: string
  hd_decision :: string
  hd_reason :: "string option"
  hd_data :: "json option"
  hd_decidedAt :: int

record task_filter =
  tf_status :: "task_status list option"
  tf_type :: "task_type list option"
  tf_assignee :: "string option"
  tf_priority :: "task_priority list option"
  tf_workflowRunId :: "string option"

section \<open>Factories\<close>

record create_task_input =
  ci_type :: task_type
  ci_title :: string
  ci_description :: "string option"
  ci_priority :: "task_priority option"
  ci_assignee :: "string option"
  ci_data :: "json option"
  ci_workflowRunId :: "string option"
  ci_workflowStepId :: "string option"
  ci_slaDeadline :: "int option"

definition createHumanTask :: "string \<Rightarrow> int \<Rightarrow> create_task_input \<Rightarrow> human_task" where
  "createHumanTask uuid now inp =
     \<lparr>ht_id = uuid, ht_type = ci_type inp, ht_title = ci_title inp, ht_description = ci_description inp,
      ht_status = TPending, ht_priority = nullish (ci_priority inp) PrNormal, ht_assignee = ci_assignee inp,
      ht_data = ci_data inp, ht_result = None, ht_workflowRunId = ci_workflowRunId inp,
      ht_workflowStepId = ci_workflowStepId inp, ht_slaDeadline = ci_slaDeadline inp, ht_createdAt = now,
      ht_completedAt = None, ht_blocking = None, ht_provenance = None, ht_dueAt = None\<rparr>"

text \<open>The fields of an object literal whose value is \<^verbatim>\<open>undefined\<close> are left out.\<close>

definition opt_field :: "string \<Rightarrow> json option \<Rightarrow> payload" where
  "opt_field k v = (case v of None \<Rightarrow> [] | Some j \<Rightarrow> [(k, j)])"

text \<open>The typed inputs share the fields of a generic one; \<open>inp\<close> holds them (its type and data are not read).\<close>

definition createApprovalTask ::
  "string \<Rightarrow> int \<Rightarrow> create_task_input \<Rightarrow> string \<Rightarrow> payload \<Rightarrow> string option \<Rightarrow> string option \<Rightarrow> human_task" where
  "createApprovalTask uuid now inp act ctx risk impact =
     (let d = JObj ([(''action'', JStr act), (''context'', JObj ctx)] @ opt_field ''riskLevel'' (map_option JStr risk)
                @ opt_field ''estimatedImpact'' (map_option JStr impact))
      in (createHumanTask uuid now (inp\<lparr>ci_type := TyApproval, ci_data := Some d\<rparr>))
           \<lparr>ht_type := TyApproval, ht_result := None, ht_data := Some d\<rparr>)"

definition createReviewTask ::
  "string \<Rightarrow> int \<Rightarrow> create_task_input \<Rightarrow> string \<Rightarrow> string \<Rightarrow> string list \<Rightarrow> string option \<Rightarrow> human_task" where
  "createReviewTask uuid now inp content contentType criteria original =
     (let d = JObj ([(''content'', JStr content), (''contentType'', JStr contentType), (''criteria'', JArr (map JStr criteria))]
                @ opt_field ''originalInput'' (map_option JStr original))
      in (createHumanTask uuid now (inp\<lparr>ci_type := TyReview, ci_data := Some d\<rparr>))
           \<lparr>ht_type := TyReview, ht_result := None, ht_data := Some d\<rparr>)"

definition createEscalationTask ::
  "string \<Rightarrow> int \<Rightarrow> create_task_input \<Rightarrow> string \<Rightarrow> string option \<Rightarrow> string option \<Rightarrow> string option \<Rightarrow> human_task" where
  "createEscalationTask uuid now inp reason original agent failure =
     (let d = JObj ([(''reason'', JStr reason)] @ opt_field ''originalTaskId'' (map_option JStr original)
                @ opt_field ''agentId'' (map_option JStr agent) @ opt_field ''failureDetails'' (map_option JStr failure))
      in (createHumanTask uuid now
            (inp\<lparr>ci_type := TyEscalation, ci_priority := Some (nullish (ci_priority inp) PrHigh), ci_data := Some d\<rparr>))
           \<lparr>ht_type := TyEscalation, ht_result := None, ht_data := Some d\<rparr>)"

record action_item_input =
  ai_title :: string
  ai_description :: "string option"
  ai_priority :: "task_priority option"
  ai_assignee :: "string option"
  ai_provenance :: provenance_of
  ai_dueAt :: "int option"
  ai_data :: "json option"

definition createActionItem :: "string \<Rightarrow> int \<Rightarrow> action_item_input \<Rightarrow> human_task" where
  "createActionItem uuid now inp =
     \<lparr>ht_id = uuid, ht_type = TyActionItem, ht_title = ai_title inp, ht_description = ai_description inp,
      ht_status = TPending, ht_priority = nullish (ai_priority inp) PrNormal, ht_assignee = ai_assignee inp,
      ht_data = ai_data inp, ht_result = None, ht_workflowRunId = pv_sourceRunId (ai_provenance inp),
      ht_workflowStepId = None, ht_slaDeadline = None, ht_createdAt = now, ht_completedAt = None,
      ht_blocking = Some False, ht_provenance = Some (ai_provenance inp), ht_dueAt = ai_dueAt inp\<rparr>"

section \<open>Order and filters\<close>

text \<open>The index in \<^verbatim>\<open>['urgent', 'high', 'normal', 'low']\<close>, then the time of creation.\<close>

fun priority_rank :: "task_priority \<Rightarrow> nat" where
  "priority_rank PrUrgent = 0"
| "priority_rank PrHigh = 1"
| "priority_rank PrNormal = 2"
| "priority_rank PrLow = 3"

definition claim_key :: "human_task \<Rightarrow> nat \<times> int" where
  "claim_key t = (priority_rank (ht_priority t), ht_createdAt t)"

definition passes :: "'a list option \<Rightarrow> 'a \<Rightarrow> bool" where
  "passes xs a = (case xs of None \<Rightarrow> True | Some l \<Rightarrow> l = [] \<or> a \<in> set l)"

definition is_value :: "string option \<Rightarrow> string option \<Rightarrow> bool" where
  "is_value x a = (case x of None \<Rightarrow> True | Some v \<Rightarrow> v = [] \<or> a = Some v)"

definition matches :: "task_filter option \<Rightarrow> human_task \<Rightarrow> bool" where
  "matches f t =
     (case f of
        None \<Rightarrow> True
      | Some f \<Rightarrow> passes (tf_status f) (ht_status t) \<and> passes (tf_type f) (ht_type t) \<and> is_value (tf_assignee f) (ht_assignee t)
          \<and> passes (tf_priority f) (ht_priority t) \<and> is_value (tf_workflowRunId f) (ht_workflowRunId t))"

section \<open>The policy evaluator\<close>

datatype assignment_strategy = RoundRobin | LeastBusy | SpecificUser | RoleBased

record task_policy =
  tp_id :: string
  tp_name :: string
  tp_description :: "string option"
  tp_trigger :: string
  tp_taskType :: task_type
  tp_defaultPriority :: task_priority
  tp_slaHours :: "rat option"
  tp_autoEscalateAfterHours :: "rat option"
  tp_assignmentStrategy :: assignment_strategy
  tp_assignTo :: "string option"
  tp_enabled :: bool

record policy_input =
  pi_name :: string
  pi_description :: "string option"
  pi_trigger :: string
  pi_taskType :: task_type
  pi_defaultPriority :: "task_priority option"
  pi_slaHours :: "rat option"
  pi_autoEscalateAfterHours :: "rat option"
  pi_assignmentStrategy :: "assignment_strategy option"
  pi_assignTo :: "string option"
  pi_enabled :: "bool option"

definition createPolicy :: "string \<Rightarrow> policy_input \<Rightarrow> task_policy" where
  "createPolicy uuid inp =
     \<lparr>tp_id = uuid, tp_name = pi_name inp, tp_description = pi_description inp, tp_trigger = pi_trigger inp,
      tp_taskType = pi_taskType inp, tp_defaultPriority = nullish (pi_defaultPriority inp) PrNormal,
      tp_slaHours = pi_slaHours inp, tp_autoEscalateAfterHours = pi_autoEscalateAfterHours inp,
      tp_assignmentStrategy = nullish (pi_assignmentStrategy inp) RoundRobin, tp_assignTo = pi_assignTo inp,
      tp_enabled = (pi_enabled inp \<noteq> Some False)\<rparr>"

definition addPolicy :: "task_policy \<Rightarrow> task_policy list \<Rightarrow> task_policy list" where
  "addPolicy p ps = ps @ [p]"

fun removePolicy :: "string \<Rightarrow> task_policy list \<Rightarrow> bool \<times> task_policy list" where
  "removePolicy i [] = (False, [])"
| "removePolicy i (p # ps) = (if tp_id p = i then (True, ps) else (let (b, ps') = removePolicy i ps in (b, p # ps')))"

definition triggers :: "string \<Rightarrow> task_policy \<Rightarrow> bool" where
  "triggers trig p = (tp_enabled p \<and> (tp_trigger p = ''*'' \<or> tp_trigger p = trig))"

definition checkPolicies :: "string \<Rightarrow> task_policy list \<Rightarrow> task_policy option" where
  "checkPolicies trig ps = find (triggers trig) ps"

text \<open>\<^verbatim>\<open>new Date(ms)\<close> drops the fraction of a millisecond; a zero number of hours is falsy.\<close>

definition computeSlaDeadline :: "task_policy \<Rightarrow> int \<Rightarrow> int option" where
  "computeSlaDeadline p start =
     (case tp_slaHours p of None \<Rightarrow> None | Some h \<Rightarrow> if h = 0 then None else Some (start + \<lfloor>h * 3600000\<rfloor>))"

section \<open>The decision log\<close>

record decision_record = human_decision +
  dr_taskType :: task_type
  dr_taskTitle :: string

definition recordDecision :: "human_task \<Rightarrow> human_decision \<Rightarrow> decision_record list \<Rightarrow> decision_record \<times> decision_record list" where
  "recordDecision t d lg = (let r = human_decision.extend d \<lparr>dr_taskType = ht_type t, dr_taskTitle = ht_title t\<rparr> in (r, lg @ [r]))"

definition getByTask :: "string \<Rightarrow> decision_record list \<Rightarrow> decision_record list" where
  "getByTask i lg = filter (\<lambda>r. hd_taskId r = i) lg"

definition getByDecider :: "string \<Rightarrow> decision_record list \<Rightarrow> decision_record list" where
  "getByDecider who lg = filter (\<lambda>r. hd_decidedBy r = who) lg"

definition createDecision :: "int \<Rightarrow> string \<Rightarrow> string \<Rightarrow> string \<Rightarrow> string option \<Rightarrow> json option \<Rightarrow> human_decision" where
  "createDecision now i who what reason d =
     \<lparr>hd_taskId = i, hd_decidedBy = who, hd_decision = what, hd_reason = reason, hd_data = d, hd_decidedAt = now\<rparr>"

section \<open>Properties\<close>

lemma removePolicy_spec:
  "removePolicy i ps = (i \<in> tp_id ` set ps, takeWhile (\<lambda>p. tp_id p \<noteq> i) ps @ drop 1 (dropWhile (\<lambda>p. tp_id p \<noteq> i) ps))"
  by (induction ps) (auto split: prod.splits)

text \<open>
  the evaluator asks for a human exactly when an enabled policy names the trigger or the wildcard, and
  it answers with the one registered first among those.
\<close>

theorem checkPolicies_first:
  "checkPolicies trig ps = Some p \<longleftrightarrow>
     (\<exists>us vs. ps = us @ p # vs \<and> tp_enabled p \<and> tp_trigger p \<in> {''*'', trig} \<and>
        list_all (\<lambda>u. \<not> tp_enabled u \<or> tp_trigger u \<notin> {''*'', trig}) us)"
proof -
  have "find P xs = Some x \<longleftrightarrow> (\<exists>us vs. xs = us @ x # vs \<and> P x \<and> list_all (\<lambda>u. \<not> P u) us)" for P and xs :: "task_policy list" and x
  proof (induction xs)
    case (Cons a xs)
    show ?case
    proof (cases "P a")
      case True
      then show ?thesis by (auto simp: Cons_eq_append_conv)
    next
      case False
      have "(\<exists>us vs. a # xs = us @ x # vs \<and> P x \<and> list_all (\<lambda>u. \<not> P u) us) \<longleftrightarrow>
          (\<exists>us vs. xs = us @ x # vs \<and> P x \<and> list_all (\<lambda>u. \<not> P u) us)" (is "?L = ?R")
      proof
        assume ?L
        then obtain us vs where "a # xs = us @ x # vs" "P x" "list_all (\<lambda>u. \<not> P u) us" by blast
        with False show ?R by (cases us) auto
      next
        assume ?R
        then obtain us vs where "a # xs = (a # us) @ x # vs" "P x" "list_all (\<lambda>u. \<not> P u) (a # us)" using False by auto
        then show ?L by blast
      qed
      with Cons False show ?thesis by simp
    qed
  qed simp
  from this [of "triggers trig" ps p] show ?thesis
    by (simp add: checkPolicies_def triggers_def list_all_iff)
qed

end
