(* ===== verification/HumanTaskRepos.thy ===== *)
theory HumanTaskRepos
  imports HumanTasks KvStore
begin

text \<open>
  The task repositories: in memory and in a JSON file (\<^verbatim>\<open>packages/human-tasks/src/repository.ts\<close>) and
  over the runtime key-value slot (\<^verbatim>\<open>durable.ts\<close>). The interface is a record of operations, its contract
  the locale \<open>task_repository\<close>, interpreted on all three; tasks are cloned on the way in and out, so values suffice.
\<close>

section \<open>The interface\<close>

record 'r task_repo =
  tr_save :: "int \<Rightarrow> human_task \<Rightarrow> 'r \<Rightarrow> 'r"
  tr_get :: "int \<Rightarrow> string \<Rightarrow> 'r \<Rightarrow> human_task option \<times> 'r"
  tr_list :: "int \<Rightarrow> task_filter option \<Rightarrow> 'r \<Rightarrow> human_task list \<times> 'r"
  tr_delete :: "string \<Rightarrow> 'r \<Rightarrow> 'r"
  tr_claimNextPending :: "int \<Rightarrow> string \<Rightarrow> 'r \<Rightarrow> human_task option \<times> 'r"

definition withAssignee :: "string \<Rightarrow> task_filter option \<Rightarrow> task_filter" where
  "withAssignee who f = (case f of
      None \<Rightarrow> \<lparr>tf_status = None, tf_type = None, tf_assignee = Some who, tf_priority = None, tf_workflowRunId = None\<rparr>
    | Some g \<Rightarrow> g\<lparr>tf_assignee := Some who\<rparr>)"

definition listByAssignee :: "'r task_repo \<Rightarrow> int \<Rightarrow> string \<Rightarrow> task_filter option \<Rightarrow> 'r \<Rightarrow> human_task list \<times> 'r" where
  "listByAssignee R now who f r = tr_list R now (Some (withAssignee who f)) r"

text \<open>The choice all repositories make: the first of the pending tasks by priority, then age.\<close>

definition nextPending :: "human_task list \<Rightarrow> human_task option" where
  "nextPending ts = (case sort_key claim_key (filter (\<lambda>t. ht_status t = TPending) ts) of [] \<Rightarrow> None | t # _ \<Rightarrow> Some t)"

definition claimed :: "string \<Rightarrow> human_task \<Rightarrow> human_task" where
  "claimed who t = t\<lparr>ht_status := TAssigned, ht_assignee := Some who\<rparr>"

section \<open>In memory\<close>

type_synonym task_map = "(string \<times> human_task) list"

definition mem_save :: "human_task \<Rightarrow> task_map \<Rightarrow> task_map" where
  "mem_save t m = AList.update (ht_id t) t m"

definition mem_tasks :: "task_filter option \<Rightarrow> task_map \<Rightarrow> human_task list" where
  "mem_tasks f m = filter (matches f) (map snd m)"

definition mem_claim :: "string \<Rightarrow> task_map \<Rightarrow> human_task option \<times> task_map" where
  "mem_claim who m =
     (case nextPending (map snd m) of
        None \<Rightarrow> (None, m)
      | Some best \<Rightarrow> (Some (claimed who best), mem_save (claimed who best) m))"

definition memoryRepo :: "task_map task_repo" where
  "memoryRepo = \<lparr>tr_save = \<lambda>_. mem_save, tr_get = \<lambda>_ i m. (map_of m i, m), tr_list = \<lambda>_ f m. (mem_tasks f m, m),
     tr_delete = AList.delete, tr_claimNextPending = \<lambda>_. mem_claim\<rparr>"

section \<open>In a JSON file\<close>

text \<open>The file holds the array; a missing or unreadable file reads as the empty array.\<close>

fun replace_first :: "human_task \<Rightarrow> human_task list \<Rightarrow> human_task list option" where
  "replace_first t [] = None"
| "replace_first t (u # us) = (if ht_id u = ht_id t then Some (t # us) else map_option ((#) u) (replace_first t us))"

definition file_save :: "human_task \<Rightarrow> human_task list \<Rightarrow> human_task list" where
  "file_save t ts = (case replace_first t ts of Some ts' \<Rightarrow> ts' | None \<Rightarrow> ts @ [t])"

definition file_get :: "string \<Rightarrow> human_task list \<Rightarrow> human_task option" where
  "file_get i ts = find (\<lambda>t. ht_id t = i) ts"

definition file_claim :: "string \<Rightarrow> human_task list \<Rightarrow> human_task option \<times> human_task list" where
  "file_claim who ts =
     (case nextPending ts of
        None \<Rightarrow> (None, ts)
      | Some best \<Rightarrow> (Some (claimed who best), nullish (replace_first (claimed who best) ts) ts))"

definition fileRepo :: "human_task list task_repo" where
  "fileRepo = \<lparr>tr_save = \<lambda>_. file_save, tr_get = \<lambda>_ i ts. (file_get i ts, ts), tr_list = \<lambda>_ f ts. (filter (matches f) ts, ts),
     tr_delete = \<lambda>i. filter (\<lambda>t. ht_id t \<noteq> i), tr_claimNextPending = \<lambda>_. file_claim\<rparr>"

section \<open>Over the key-value slot\<close>

definition durable_tasks :: "('s, human_task) kv_ops \<Rightarrow> string \<Rightarrow> int \<Rightarrow> 's \<Rightarrow> human_task list \<times> 's" where
  "durable_tasks K ns now s = (let (entries, s') = kv_list K now (ns @ '':'') s in (map snd entries, s'))"

definition durable_save :: "('s, human_task) kv_ops \<Rightarrow> string \<Rightarrow> int \<Rightarrow> human_task \<Rightarrow> 's \<Rightarrow> 's" where
  "durable_save K ns now t s = kv_set K now (in_namespace ns (ht_id t)) t None s"

definition durable_claim :: "('s, human_task) kv_ops \<Rightarrow> string \<Rightarrow> int \<Rightarrow> string \<Rightarrow> 's \<Rightarrow> human_task option \<times> 's" where
  "durable_claim K ns now who s =
     (let (ts, s1) = durable_tasks K ns now s in
      case nextPending ts of
        None \<Rightarrow> (None, s1)
      | Some best \<Rightarrow> (Some (claimed who best), durable_save K ns now (claimed who best) s1))"

definition durableRepo :: "('s, human_task) kv_ops \<Rightarrow> string \<Rightarrow> 's task_repo" where
  "durableRepo K ns = \<lparr>tr_save = durable_save K ns, tr_get = \<lambda>now i. kv_get K now (in_namespace ns i),
     tr_list = \<lambda>now f s. (let (ts, s1) = durable_tasks K ns now s in (filter (matches f) ts, s1)),
     tr_delete = \<lambda>i s. snd (kv_delete K (in_namespace ns i) s), tr_claimNextPending = durable_claim K ns\<rparr>"

section \<open>The choice\<close>

lemma nextPending_None: "nextPending ts = None \<longleftrightarrow> (\<forall>t\<in>set ts. ht_status t \<noteq> TPending)"
proof -
  have empty: "sort_key claim_key us = [] \<longleftrightarrow> us = []" for us by (metis length_0_conv length_sort)
  have "nextPending ts = None \<longleftrightarrow> sort_key claim_key (filter (\<lambda>t. ht_status t = TPending) ts) = []"
    by (simp add: nextPending_def split: list.split)
  then show ?thesis by (simp add: empty filter_empty_conv)
qed

lemma nextPending_Some:
  assumes "nextPending ts = Some t"
  shows "t \<in> set ts \<and> ht_status t = TPending \<and> (\<forall>u\<in>set ts. ht_status u = TPending \<longrightarrow> claim_key t \<le> claim_key u)"
proof -
  let ?ps = "filter (\<lambda>t. ht_status t = TPending) ts"
  obtain rest where s: "sort_key claim_key ?ps = t # rest" using assms by (auto simp: nextPending_def split: list.splits)
  then have "set (t # rest) = set ?ps" by (metis set_sort)
  moreover have "sorted (map claim_key (t # rest))" by (metis s sorted_sort_key)
  ultimately show ?thesis by auto
qed

section \<open>The contract\<close>

text \<open>\<open>task_at r i\<close> is the task a read finds under the identifier \<open>i\<close>, at any time.\<close>

definition best_pending :: "(string \<Rightarrow> human_task option) \<Rightarrow> human_task \<Rightarrow> bool" where
  "best_pending v t \<longleftrightarrow> v (ht_id t) = Some t \<and> ht_status t = TPending \<and>
     (\<forall>i u. v i = Some u \<longrightarrow> ht_status u = TPending \<longrightarrow> claim_key t \<le> claim_key u)"

locale task_repository =
  fixes R :: "'r task_repo"
    and repo_ok :: "'r \<Rightarrow> bool"
    and task_at :: "'r \<Rightarrow> string \<Rightarrow> human_task option"
  assumes ok_save: "repo_ok r \<Longrightarrow> repo_ok (tr_save R now t r)"
    and ok_get: "repo_ok r \<Longrightarrow> repo_ok (snd (tr_get R now i r))"
    and ok_list: "repo_ok r \<Longrightarrow> repo_ok (snd (tr_list R now f r))"
    and ok_claim: "repo_ok r \<Longrightarrow> repo_ok (snd (tr_claimNextPending R now who r))"
    and at_id: "repo_ok r \<Longrightarrow> task_at r i = Some t \<Longrightarrow> ht_id t = i"
    and at_save: "repo_ok r \<Longrightarrow> task_at (tr_save R now t r) = (task_at r)(ht_id t \<mapsto> t)"
    and get_at: "repo_ok r \<Longrightarrow> fst (tr_get R now i r) = task_at r i"
    and at_get: "repo_ok r \<Longrightarrow> task_at (snd (tr_get R now i r)) = task_at r"
    and list_at: "repo_ok r \<Longrightarrow> set (fst (tr_list R now f r)) = {t. task_at r (ht_id t) = Some t \<and> matches f t}"
    and list_distinct: "repo_ok r \<Longrightarrow> distinct (map ht_id (fst (tr_list R now f r)))"
    and at_list: "repo_ok r \<Longrightarrow> task_at (snd (tr_list R now f r)) = task_at r"
    and claim_None: "repo_ok r \<Longrightarrow> fst (tr_claimNextPending R now who r) = None \<Longrightarrow>
      task_at (snd (tr_claimNextPending R now who r)) = task_at r \<and>
      (\<forall>i t. task_at r i = Some t \<longrightarrow> ht_status t \<noteq> TPending)"
    and claim_Some: "repo_ok r \<Longrightarrow> fst (tr_claimNextPending R now who r) = Some u \<Longrightarrow>
      \<exists>t. u = claimed who t \<and> best_pending (task_at r) t \<and>
        task_at (snd (tr_claimNextPending R now who r)) = (task_at r)(ht_id t \<mapsto> u)"

section \<open>The three implementations\<close>

definition wf_tasks :: "task_map \<Rightarrow> bool" where
  "wf_tasks m \<longleftrightarrow> wf_map m \<and> (\<forall>(i, t)\<in>set m. ht_id t = i)"

lemma wf_tasksD: "wf_tasks m \<Longrightarrow> map_of m i = Some t \<Longrightarrow> ht_id t = i"
  by (auto simp: wf_tasks_def dest!: map_of_SomeD)

lemma wf_tasks_save: "wf_tasks m \<Longrightarrow> wf_tasks (mem_save t m)"
  using set_update_subset [of "ht_id t" t m] by (auto simp: wf_tasks_def mem_save_def)

lemma wf_tasks_mem: "wf_tasks m \<Longrightarrow> t \<in> set (map snd m) \<longleftrightarrow> map_of m (ht_id t) = Some t"
  by (force simp: wf_tasks_def image_iff)

lemma wf_tasks_ids: "wf_tasks m \<Longrightarrow> map ht_id (map snd m) = keys_of m"
  by (auto simp: wf_tasks_def)

lemma claimed_id [simp]: "ht_id (claimed who t) = ht_id t"
  by (simp add: claimed_def)

lemma best_pendingI:
  assumes "nextPending ts = Some t" "\<And>u. u \<in> set ts \<longleftrightarrow> v (ht_id u) = Some u" "\<And>i u. v i = Some u \<Longrightarrow> ht_id u = i"
  shows "best_pending v t"
proof -
  from nextPending_Some [OF assms(1)] have t: "t \<in> set ts" "ht_status t = TPending"
    and best: "\<And>u. u \<in> set ts \<Longrightarrow> ht_status u = TPending \<Longrightarrow> claim_key t \<le> claim_key u" by auto
  have "claim_key t \<le> claim_key u" if "v i = Some u" "ht_status u = TPending" for i u
    using that assms(3) [OF that(1)] assms(2) [of u] best by simp
  with t assms(2) show ?thesis by (simp add: best_pending_def)
qed

lemma none_pendingI:
  assumes "nextPending ts = None" "\<And>u. u \<in> set ts \<longleftrightarrow> v (ht_id u) = Some u" "\<And>i u. v i = Some u \<Longrightarrow> ht_id u = i"
  shows "\<forall>i t. v i = Some t \<longrightarrow> ht_status t \<noteq> TPending"
proof (intro allI impI)
  fix i t assume "v i = Some t"
  with assms(2) [of t] assms(3) have "t \<in> set ts" by auto
  with assms(1) show "ht_status t \<noteq> TPending" by (simp add: nextPending_None)
qed

interpretation memory: task_repository memoryRepo wf_tasks map_of
proof
  fix r :: task_map and now i f who u t
  assume ok: "wf_tasks r"
  show "wf_tasks (tr_save memoryRepo now t r)" using ok by (simp add: memoryRepo_def wf_tasks_save)
  show "wf_tasks (snd (tr_get memoryRepo now i r))" "wf_tasks (snd (tr_list memoryRepo now f r))"
    using ok by (simp_all add: memoryRepo_def)
  show "wf_tasks (snd (tr_claimNextPending memoryRepo now who r))"
    using ok by (simp add: memoryRepo_def mem_claim_def wf_tasks_save split: option.split)
  show "map_of r i = Some t \<Longrightarrow> ht_id t = i" using ok by (rule wf_tasksD)
  show "map_of (tr_save memoryRepo now t r) = (map_of r)(ht_id t \<mapsto> t)" for t by (simp add: memoryRepo_def mem_save_def)
  show "fst (tr_get memoryRepo now i r) = map_of r i" "map_of (snd (tr_get memoryRepo now i r)) = map_of r"
    "map_of (snd (tr_list memoryRepo now f r)) = map_of r" by (simp_all add: memoryRepo_def)
  show "set (fst (tr_list memoryRepo now f r)) = {t. map_of r (ht_id t) = Some t \<and> matches f t}"
    using wf_tasks_mem [OF ok] by (auto simp: memoryRepo_def mem_tasks_def)
  show "distinct (map ht_id (fst (tr_list memoryRepo now f r)))"
    unfolding memoryRepo_def mem_tasks_def
    using ok wf_tasks_ids [OF ok] by (auto simp: wf_tasks_def simp del: map_map intro!: distinct_map_filter)
  show "map_of (snd (tr_claimNextPending memoryRepo now who r)) = map_of r \<and>
      (\<forall>i t. map_of r i = Some t \<longrightarrow> ht_status t \<noteq> TPending)"
    if "fst (tr_claimNextPending memoryRepo now who r) = None"
  proof -
    from that have none: "nextPending (map snd r) = None" by (simp add: memoryRepo_def mem_claim_def split: option.splits)
    from none_pendingI [OF this wf_tasks_mem [OF ok] wf_tasksD [OF ok]] none
    show ?thesis by (simp add: memoryRepo_def mem_claim_def)
  qed
  show "\<exists>t. u = claimed who t \<and> best_pending (map_of r) t \<and>
      map_of (snd (tr_claimNextPending memoryRepo now who r)) = (map_of r)(ht_id t \<mapsto> u)"
    if "fst (tr_claimNextPending memoryRepo now who r) = Some u"
    using that best_pendingI [OF _ wf_tasks_mem [OF ok] wf_tasksD [OF ok]]
    by (auto simp: memoryRepo_def mem_claim_def mem_save_def split: option.splits)
qed

text \<open>The file: the array with distinct identifiers.\<close>

definition wf_file :: "human_task list \<Rightarrow> bool" where
  "wf_file ts \<longleftrightarrow> distinct (map ht_id ts)"

lemma replace_first_None: "replace_first t ts = None \<longleftrightarrow> ht_id t \<notin> ht_id ` set ts"
  by (induction ts) auto

lemma replace_first_ids: "replace_first t ts = Some us \<Longrightarrow> map ht_id us = map ht_id ts"
  by (induction ts arbitrary: us) (auto split: if_splits)

lemma replace_first_get:
  "replace_first t ts = Some us \<Longrightarrow> file_get i us = (if i = ht_id t then Some t else file_get i ts)"
  by (induction ts arbitrary: us) (auto simp: file_get_def split: if_splits)

lemma file_get_append: "file_get i (ts @ us) = (case file_get i ts of None \<Rightarrow> file_get i us | Some t \<Rightarrow> Some t)"
  by (simp add: file_get_def find_append split: option.split)

lemma file_get_None: "file_get i ts = None \<longleftrightarrow> i \<notin> ht_id ` set ts"
  by (induction ts) (auto simp: file_get_def)

lemma file_get_save: "file_get i (file_save t ts) = (if i = ht_id t then Some t else file_get i ts)"
proof (cases "replace_first t ts")
  case None
  then have "file_get (ht_id t) ts = None" by (simp add: replace_first_None file_get_None)
  then show ?thesis by (auto simp: file_save_def None file_get_append) (auto simp: file_get_def split: option.split)
qed (simp add: file_save_def replace_first_get)

lemma wf_file_save: "wf_file ts \<Longrightarrow> wf_file (file_save t ts)"
  by (auto simp: wf_file_def file_save_def replace_first_None dest: replace_first_ids split: option.split)

lemma file_get_id: "file_get i ts = Some t \<Longrightarrow> ht_id t = i"
  by (auto simp: file_get_def dest: find_SomeD)

lemma file_get_mem: "wf_file ts \<Longrightarrow> t \<in> set ts \<longleftrightarrow> file_get (ht_id t) ts = Some t"
  by (induction ts) (auto simp: wf_file_def file_get_def dest: find_SomeD)

lemma claim_is_save: "best \<in> set ts \<Longrightarrow> nullish (replace_first (claimed who best) ts) ts = file_save (claimed who best) ts"
proof -
  assume "best \<in> set ts"
  then have "replace_first (claimed who best) ts \<noteq> None" by (simp add: replace_first_None)
  then show ?thesis by (auto simp: file_save_def)
qed

lemma file_claim_eq:
  "file_claim who ts = (case nextPending ts of None \<Rightarrow> (None, ts) | Some b \<Rightarrow> (Some (claimed who b), file_save (claimed who b) ts))"
  using nextPending_Some claim_is_save by (auto simp: file_claim_def split: option.split)

interpretation jsonfile: task_repository fileRepo wf_file "\<lambda>ts i. file_get i ts"
proof
  fix r :: "human_task list" and now i f who u t
  assume ok: "wf_file r"
  show "wf_file (tr_save fileRepo now t r)" using ok by (simp add: fileRepo_def wf_file_save)
  show "wf_file (snd (tr_get fileRepo now i r))" "wf_file (snd (tr_list fileRepo now f r))"
    using ok by (simp_all add: fileRepo_def)
  show "wf_file (snd (tr_claimNextPending fileRepo now who r))"
    using ok by (simp add: fileRepo_def file_claim_eq wf_file_save split: option.split)
  show "file_get i r = Some t \<Longrightarrow> ht_id t = i" by (rule file_get_id)
  show "(\<lambda>i. file_get i (tr_save fileRepo now t r)) = (\<lambda>i. file_get i r)(ht_id t \<mapsto> t)" for t
    by (auto simp: fileRepo_def file_get_save)
  show "fst (tr_get fileRepo now i r) = file_get i r" "(\<lambda>i. file_get i (snd (tr_get fileRepo now j r))) = (\<lambda>i. file_get i r)"
    "(\<lambda>i. file_get i (snd (tr_list fileRepo now f r))) = (\<lambda>i. file_get i r)" for j by (simp_all add: fileRepo_def)
  show "set (fst (tr_list fileRepo now f r)) = {t. file_get (ht_id t) r = Some t \<and> matches f t}"
    using file_get_mem [OF ok] by (auto simp: fileRepo_def)
  show "distinct (map ht_id (fst (tr_list fileRepo now f r)))"
    using ok by (simp add: fileRepo_def wf_file_def distinct_map_filter)
  show "(\<lambda>i. file_get i (snd (tr_claimNextPending fileRepo now who r))) = (\<lambda>i. file_get i r) \<and>
      (\<forall>i t. file_get i r = Some t \<longrightarrow> ht_status t \<noteq> TPending)"
    if "fst (tr_claimNextPending fileRepo now who r) = None"
  proof -
    from that have none: "nextPending r = None" by (simp add: fileRepo_def file_claim_eq split: option.splits)
    from none_pendingI [OF this file_get_mem [OF ok] file_get_id] none
    show ?thesis by (simp add: fileRepo_def file_claim_eq)
  qed
  show "\<exists>t. u = claimed who t \<and> best_pending (\<lambda>i. file_get i r) t \<and>
      (\<lambda>i. file_get i (snd (tr_claimNextPending fileRepo now who r))) = (\<lambda>i. file_get i r)(ht_id t \<mapsto> u)"
    if "fst (tr_claimNextPending fileRepo now who r) = Some u"
    using that best_pendingI [OF _ file_get_mem [OF ok] file_get_id]
    by (auto simp: fileRepo_def file_claim_eq file_get_save fun_eq_iff split: option.splits)
qed

text \<open>The slot: any key-value store gives a repository in each of its namespaces.\<close>

locale task_slot = kv_store K kv_ok look lasting
  for K :: "('s, human_task) kv_ops"
    and kv_ok :: "'s \<Rightarrow> bool"
    and look :: "int \<Rightarrow> 's \<Rightarrow> string \<Rightarrow> human_task option"
    and lasting :: "'s \<Rightarrow> string \<Rightarrow> bool" +
  fixes ns :: string
begin

definition slot_task :: "'s \<Rightarrow> string \<Rightarrow> human_task option" where
  "slot_task s i = look 0 s (in_namespace ns i)"

definition slot_ok :: "'s \<Rightarrow> bool" where
  "slot_ok s \<longleftrightarrow> kv_ok s \<and> (\<forall>i. lasting s (in_namespace ns i)) \<and> (\<forall>i t. slot_task s i = Some t \<longrightarrow> ht_id t = i)"

lemma slot_look: "slot_ok s \<Longrightarrow> look now s (in_namespace ns i) = slot_task s i"
  unfolding slot_ok_def slot_task_def by (blast intro: lasting_look)

lemma slot_save:
  assumes "slot_ok s"
  shows "slot_ok (durable_save K ns now t s)" "slot_task (durable_save K ns now t s) = (slot_task s)(ht_id t \<mapsto> t)"
proof -
  show task: "slot_task (durable_save K ns now t s) = (slot_task s)(ht_id t \<mapsto> t)"
    using assms by (auto simp: slot_ok_def durable_save_def slot_task_def look_set in_namespace_inj)
  show "slot_ok (durable_save K ns now t s)"
    using assms unfolding slot_ok_def task by (auto simp: durable_save_def ok_set lasting_set)
qed

lemma slot_get:
  assumes "slot_ok s"
  shows "slot_ok (snd (kv_get K now k s))" "slot_task (snd (kv_get K now k s)) = slot_task s"
proof -
  show task: "slot_task (snd (kv_get K now k s)) = slot_task s"
    using assms by (auto simp: slot_ok_def slot_task_def lasting_after_get)
  show "slot_ok (snd (kv_get K now k s))"
    using assms unfolding slot_ok_def task by (auto simp: ok_get lasting_get)
qed

lemma slot_tasks:
  assumes "slot_ok s" "durable_tasks K ns now s = (ts, s')"
  shows "slot_ok s'" "slot_task s' = slot_task s" "t \<in> set ts \<longleftrightarrow> slot_task s (ht_id t) = Some t" "distinct (map ht_id ts)"
proof -
  have ok: "kv_ok s" using assms(1) by (simp add: slot_ok_def)
  have out: "ts = map snd (fst (kv_list K now (ns @ '':'') s))" "s' = snd (kv_list K now (ns @ '':'') s)"
    using assms(2) by (auto simp: durable_tasks_def split: prod.splits)
  have mem: "(k, u) \<in> set (fst (kv_list K now (ns @ '':'') s)) \<longleftrightarrow> k = in_namespace ns (ht_id u) \<and> slot_task s (ht_id u) = Some u" for k u
  proof -
    have pre: "starts_with (ns @ '':'') k \<longleftrightarrow> (\<exists>i. k = in_namespace ns i)" by (auto simp: starts_with_iff in_namespace_def)
    have ids: "slot_task s i = Some t \<Longrightarrow> ht_id t = i" for i t using assms(1) by (simp add: slot_ok_def)
    show ?thesis unfolding list_look [OF ok] mem_Collect_eq prod.case pre
      using slot_look [OF assms(1), of now] ids by metis
  qed
  show "t \<in> set ts \<longleftrightarrow> slot_task s (ht_id t) = Some t"
  proof
    assume "t \<in> set ts"
    then obtain k where "(k, t) \<in> set (fst (kv_list K now (ns @ '':'') s))" by (auto simp: out(1))
    then show "slot_task s (ht_id t) = Some t" unfolding mem by simp
  next
    assume "slot_task s (ht_id t) = Some t"
    then have "(in_namespace ns (ht_id t), t) \<in> set (fst (kv_list K now (ns @ '':'') s))" unfolding mem by simp
    then show "t \<in> set ts" unfolding out(1) set_map by (rule image_eqI [rotated]) simp
  qed
  have "map (in_namespace ns) (map ht_id ts) = keys_of (fst (kv_list K now (ns @ '':'') s))"
    unfolding out(1) map_map by (rule map_cong [OF refl]) (metis comp_apply mem prod.collapse)
  with list_keys [OF ok, of now "ns @ '':''"] show "distinct (map ht_id ts)" by (metis distinct_map)
  show task: "slot_task s' = slot_task s" using assms(1) by (auto simp: out(2) slot_ok_def slot_task_def lasting_after_list)
  show "slot_ok s'"
    using assms(1) unfolding slot_ok_def task by (auto simp: out(2) ok_list lasting_list)
qed

end

sublocale task_slot \<subseteq> slot_repo: task_repository "durableRepo K ns" slot_ok slot_task
proof
  fix s now i f who u t
  assume ok: "slot_ok s"
  obtain ts s1 where ts: "durable_tasks K ns now s = (ts, s1)" by force
  note all = slot_tasks [OF ok ts]
  show "slot_ok (tr_save (durableRepo K ns) now t s)" "slot_task (tr_save (durableRepo K ns) now t s) = (slot_task s)(ht_id t \<mapsto> t)"
    using slot_save [OF ok] by (simp_all add: durableRepo_def)
  show "slot_ok (snd (tr_get (durableRepo K ns) now i s))" "slot_task (snd (tr_get (durableRepo K ns) now i s)) = slot_task s"
    using slot_get [OF ok] by (simp_all add: durableRepo_def)
  show "slot_ok (snd (tr_list (durableRepo K ns) now f s))" "slot_task (snd (tr_list (durableRepo K ns) now f s)) = slot_task s"
    "set (fst (tr_list (durableRepo K ns) now f s)) = {t. slot_task s (ht_id t) = Some t \<and> matches f t}"
    "distinct (map ht_id (fst (tr_list (durableRepo K ns) now f s)))"
    using all by (auto simp: durableRepo_def ts distinct_map_filter)
  show "slot_ok (snd (tr_claimNextPending (durableRepo K ns) now who s))"
    using all slot_save [OF all(1)] by (simp add: durableRepo_def durable_claim_def ts split: option.split)
  show "slot_task s i = Some t \<Longrightarrow> ht_id t = i" using ok by (simp add: slot_ok_def)
  show "fst (tr_get (durableRepo K ns) now i s) = slot_task s i"
    using ok slot_look [OF ok] by (simp add: durableRepo_def get_look slot_ok_def)
  have ids: "slot_task s i = Some t \<Longrightarrow> ht_id t = i" for i t using ok by (simp add: slot_ok_def)
  show "slot_task (snd (tr_claimNextPending (durableRepo K ns) now who s)) = slot_task s \<and>
      (\<forall>i t. slot_task s i = Some t \<longrightarrow> ht_status t \<noteq> TPending)"
    if "fst (tr_claimNextPending (durableRepo K ns) now who s) = None"
  proof -
    from that have none: "nextPending ts = None" by (simp add: durableRepo_def durable_claim_def ts split: option.splits)
    from none_pendingI [OF this all(3) ids] none all(2) show ?thesis by (simp add: durableRepo_def durable_claim_def ts)
  qed
  show "\<exists>t. u = claimed who t \<and> best_pending (slot_task s) t \<and>
      slot_task (snd (tr_claimNextPending (durableRepo K ns) now who s)) = (slot_task s)(ht_id t \<mapsto> u)"
    if "fst (tr_claimNextPending (durableRepo K ns) now who s) = Some u"
    using that best_pendingI [OF _ all(3) ids] slot_save(2) [OF all(1)] all(2)
    by (auto simp: durableRepo_def durable_claim_def ts split: option.splits)
qed

interpretation durable: task_slot memory_kv wf_map mem_look mem_lasting ns for ns
  by unfold_locales

section \<open>The file repository refines the one in memory\<close>

lemma replace_first_update:
  "wf_tasks m \<Longrightarrow> replace_first t (map snd m) =
     (if ht_id t \<in> set (keys_of m) then Some (map snd (AList.update (ht_id t) t m)) else None)"
proof (induction m)
  case (Cons p m)
  then have "wf_tasks m" by (auto simp: wf_tasks_def)
  with Cons show ?case by (cases p) (auto simp: wf_tasks_def)
qed simp

lemma file_save_refines: "wf_tasks m \<Longrightarrow> file_save t (map snd m) = map snd (mem_save t m)"
  by (simp add: file_save_def mem_save_def replace_first_update keys_update_new)

lemma file_get_refines: "wf_tasks m \<Longrightarrow> file_get i (map snd m) = map_of m i"
  by (induction m) (auto simp: wf_tasks_def file_get_def)

lemma file_delete_refines: "wf_tasks m \<Longrightarrow> filter (\<lambda>t. ht_id t \<noteq> i) (map snd m) = map snd (AList.delete i m)"
  by (induction m) (auto simp: wf_tasks_def)

text \<open>
  Claim C39: the JSON file repository is the in-memory one: on the values of the map every operation answers the
  same and writes the values of the map the other leaves, so the two are interchangeable behind the interface.
\<close>

theorem file_refines_memory:
  assumes "wf_tasks m"
  shows "tr_save fileRepo now t (map snd m) = map snd (tr_save memoryRepo now t m) \<and>
    tr_get fileRepo now i (map snd m) = apsnd (map snd) (tr_get memoryRepo now i m) \<and>
    tr_list fileRepo now f (map snd m) = apsnd (map snd) (tr_list memoryRepo now f m) \<and>
    tr_delete fileRepo i (map snd m) = map snd (tr_delete memoryRepo i m) \<and>
    tr_claimNextPending fileRepo now who (map snd m) = apsnd (map snd) (tr_claimNextPending memoryRepo now who m)"
  using file_save_refines [OF assms] file_get_refines [OF assms] file_delete_refines [OF assms]
  by (auto simp: fileRepo_def memoryRepo_def mem_tasks_def file_claim_eq mem_claim_def split: option.split)

definition repo_task :: human_task where
  "repo_task = createHumanTask ''a'' 1 \<lparr>ci_type = TyInput, ci_title = ''t'', ci_description = None, ci_priority = None,
    ci_assignee = None, ci_data = None, ci_workflowRunId = None, ci_workflowStepId = None, ci_slaDeadline = None\<rparr>"

lemma file_refines_memory_witness:
  "tr_claimNextPending fileRepo 5 ''ann'' [repo_task] =
   (Some (claimed ''ann'' repo_task), map snd (mem_save (claimed ''ann'' repo_task) [(''a'', repo_task)]))"
  using file_refines_memory [of "[(''a'', repo_task)]" 5 repo_task "''a''" None "''ann''"]
  by (simp add: wf_tasks_def repo_task_def createHumanTask_def memoryRepo_def mem_claim_def nextPending_def claim_key_def claimed_def)

end
