(* ===== verification/HumanTaskQueue.thy ===== *)
theory HumanTaskQueue
  imports HumanTaskRepos "HOL-Library.Multiset"
begin

text \<open>
  The task queue over a repository (\<^verbatim>\<open>packages/human-tasks/src/queue.ts\<close>) and the life cycle of
  action items (\<^verbatim>\<open>action-items.ts\<close>). An operation reads and then writes with an await in between; the
  two halves of a decision are separate definitions, composed when nothing comes between.
\<close>

section \<open>The code\<close>

datatype queue_error = TaskNotFound string | AlreadyTerminal string task_status | NotAnActionItem string task_type

definition queue_enqueue :: "'r task_repo \<Rightarrow> int \<Rightarrow> string \<Rightarrow> human_task \<Rightarrow> 'r \<Rightarrow> human_task \<times> 'r" where
  "queue_enqueue R now uuid t r = (let full = t\<lparr>ht_id := uuid, ht_createdAt := now\<rparr> in (full, tr_save R now full r))"

definition queue_dequeue :: "'r task_repo \<Rightarrow> int \<Rightarrow> string \<Rightarrow> 'r \<Rightarrow> human_task option \<times> 'r" where
  "queue_dequeue R now who r = tr_claimNextPending R now who r"

text \<open>
  The comparator of \<^verbatim>\<open>list\<close> answers 1 for two tasks of one priority and age, so their order is the engine's;
  here they stay in the order of the repository.
\<close>

definition queue_list :: "'r task_repo \<Rightarrow> int \<Rightarrow> task_filter option \<Rightarrow> 'r \<Rightarrow> human_task list \<times> 'r" where
  "queue_list R now f r = (let (ts, r') = tr_list R now f r in (sort_key claim_key ts, r'))"

definition terminal :: "task_status \<Rightarrow> bool" where
  "terminal st = (st = TCompleted \<or> st = TRejected \<or> st = TExpired)"

text \<open>The guard of \<^verbatim>\<open>complete\<close> and \<^verbatim>\<open>reject\<close>.\<close>

definition queue_open :: "'r task_repo \<Rightarrow> int \<Rightarrow> string \<Rightarrow> 'r \<Rightarrow> (queue_error + human_task) \<times> 'r" where
  "queue_open R now i r =
     (case tr_get R now i r of
        (None, r') \<Rightarrow> (Inl (TaskNotFound i), r')
      | (Some t, r') \<Rightarrow> (if terminal (ht_status t) then Inl (AlreadyTerminal i (ht_status t)) else Inr t, r'))"

definition decision_result :: "string \<Rightarrow> human_decision \<Rightarrow> json" where
  "decision_result outcome d =
     (let fallback = JObj ([(''decision'', JStr outcome)] @ opt_field ''reason'' (map_option JStr (hd_reason d)))
      in case hd_data d of None \<Rightarrow> fallback | Some JNull \<Rightarrow> fallback | Some j \<Rightarrow> j)"

definition completed_by :: "human_decision \<Rightarrow> human_task \<Rightarrow> human_task" where
  "completed_by d t = t\<lparr>ht_status := TCompleted, ht_result := Some (decision_result (hd_decision d) d), ht_completedAt := Some (hd_decidedAt d)\<rparr>"

definition rejected_by :: "human_decision \<Rightarrow> human_task \<Rightarrow> human_task" where
  "rejected_by d t = t\<lparr>ht_status := TRejected, ht_result := Some (decision_result ''rejected'' d), ht_completedAt := Some (hd_decidedAt d)\<rparr>"

definition expired_at :: "int \<Rightarrow> human_task \<Rightarrow> human_task" where
  "expired_at now t = t\<lparr>ht_status := TExpired, ht_completedAt := Some now\<rparr>"

definition queue_settle ::
  "(human_task \<Rightarrow> human_task) \<Rightarrow> 'r task_repo \<Rightarrow> int \<Rightarrow> string \<Rightarrow> 'r \<Rightarrow> (queue_error + unit) \<times> 'r" where
  "queue_settle change R now i r =
     (case queue_open R now i r of
        (Inl e, r') \<Rightarrow> (Inl e, r')
      | (Inr t, r') \<Rightarrow> (Inr (), tr_save R now (change t) r'))"

definition queue_complete :: "'r task_repo \<Rightarrow> int \<Rightarrow> string \<Rightarrow> human_decision \<Rightarrow> 'r \<Rightarrow> (queue_error + unit) \<times> 'r" where
  "queue_complete R now i d r = queue_settle (completed_by d) R now i r"

definition queue_reject :: "'r task_repo \<Rightarrow> int \<Rightarrow> string \<Rightarrow> human_decision \<Rightarrow> 'r \<Rightarrow> (queue_error + unit) \<times> 'r" where
  "queue_reject R now i d r = queue_settle (rejected_by d) R now i r"

definition queue_expire :: "'r task_repo \<Rightarrow> int \<Rightarrow> string \<Rightarrow> 'r \<Rightarrow> (queue_error + unit) \<times> 'r" where
  "queue_expire R now i r =
     (case tr_get R now i r of
        (None, r') \<Rightarrow> (Inl (TaskNotFound i), r')
      | (Some t, r') \<Rightarrow> (Inr (), tr_save R now (expired_at now t) r'))"

definition overdue :: "int \<Rightarrow> human_task \<Rightarrow> bool" where
  "overdue now t = (case ht_slaDeadline t of None \<Rightarrow> False | Some d \<Rightarrow> d < now \<and> \<not> terminal (ht_status t))"

fun expire_each :: "'r task_repo \<Rightarrow> int \<Rightarrow> human_task list \<Rightarrow> nat \<Rightarrow> 'r \<Rightarrow> nat \<times> 'r" where
  "expire_each R now [] n r = (n, r)"
| "expire_each R now (t # ts) n r =
     (if overdue now t then expire_each R now ts (Suc n) (tr_save R now (expired_at now t) r) else expire_each R now ts n r)"

definition queue_expireOverdue :: "'r task_repo \<Rightarrow> int \<Rightarrow> 'r \<Rightarrow> nat \<times> 'r" where
  "queue_expireOverdue R now r = (let (ts, r') = tr_list R now None r in expire_each R now ts 0 r')"

fun count_statuses :: "human_task list \<Rightarrow> (task_status \<times> nat) list \<Rightarrow> (task_status \<times> nat) list" where
  "count_statuses [] counts = counts"
| "count_statuses (t # ts) counts =
     count_statuses ts (AList.update (ht_status t) (nullish (map_of counts (ht_status t)) 0 + 1) counts)"

definition queue_stats :: "'r task_repo \<Rightarrow> int \<Rightarrow> 'r \<Rightarrow> (task_status \<times> nat) list \<times> 'r" where
  "queue_stats R now r = (let (ts, r') = tr_list R now None r in (count_statuses ts [], r'))"

text \<open>Action items: the task, and the name of the event emitted with its provenance.\<close>

definition settleActionItem ::
  "task_status \<Rightarrow> string \<Rightarrow> 'r task_repo \<Rightarrow> int \<Rightarrow> string \<Rightarrow> 'r \<Rightarrow>
     (queue_error + human_task \<times> string \<times> provenance_of option) \<times> 'r" where
  "settleActionItem st event R now i r =
     (case tr_get R now i r of
        (None, r') \<Rightarrow> (Inl (TaskNotFound i), r')
      | (Some t, r') \<Rightarrow>
          if ht_type t \<noteq> TyActionItem then (Inl (NotAnActionItem i (ht_type t)), r')
          else (let u = t\<lparr>ht_status := st, ht_completedAt := Some now\<rparr>
                in (Inr (u, event, ht_provenance u), tr_save R now u r')))"

definition completeActionItem ::
  "'r task_repo \<Rightarrow> int \<Rightarrow> string \<Rightarrow> 'r \<Rightarrow> (queue_error + human_task \<times> string \<times> provenance_of option) \<times> 'r" where
  "completeActionItem R now i r = settleActionItem TCompleted ''task.completed'' R now i r"

definition cancelActionItem ::
  "'r task_repo \<Rightarrow> int \<Rightarrow> string \<Rightarrow> 'r \<Rightarrow> (queue_error + human_task \<times> string \<times> provenance_of option) \<times> 'r" where
  "cancelActionItem R now i r = settleActionItem TRejected ''task.cancelled'' R now i r"

section \<open>Runs\<close>

datatype queue_op =
    QEnqueue string human_task
  | QDequeue string
  | QComplete string human_decision
  | QReject string human_decision
  | QExpire string
  | QExpireOverdue

fun exec_queue :: "'r task_repo \<Rightarrow> int \<times> queue_op \<Rightarrow> 'r \<Rightarrow> 'r" where
  "exec_queue R (now, QEnqueue u t) r = snd (queue_enqueue R now u t r)"
| "exec_queue R (now, QDequeue who) r = snd (queue_dequeue R now who r)"
| "exec_queue R (now, QComplete i d) r = snd (queue_complete R now i d r)"
| "exec_queue R (now, QReject i d) r = snd (queue_reject R now i d r)"
| "exec_queue R (now, QExpire i) r = snd (queue_expire R now i r)"
| "exec_queue R (now, QExpireOverdue) r = snd (queue_expireOverdue R now r)"

text \<open>The operations that may touch a settled task: enqueueing over its identifier, and the unguarded \<^verbatim>\<open>expire\<close>.\<close>

fun spares :: "string \<Rightarrow> queue_op \<Rightarrow> bool" where
  "spares i (QEnqueue u _) = (u \<noteq> i)"
| "spares i (QExpire j) = (j \<noteq> i)"
| "spares i _ = True"

section \<open>Over any repository\<close>

context task_repository
begin

lemma open_cases:
  assumes "repo_ok r"
  obtains (missing) r' where "queue_open R now i r = (Inl (TaskNotFound i), r')" "task_at r i = None" "repo_ok r'" "task_at r' = task_at r"
  | (settled) t r' where "queue_open R now i r = (Inl (AlreadyTerminal i (ht_status t)), r')" "task_at r i = Some t"
      "terminal (ht_status t)" "repo_ok r'" "task_at r' = task_at r"
  | (unsettled) t r' where "queue_open R now i r = (Inr t, r')" "task_at r i = Some t" "\<not> terminal (ht_status t)"
      "repo_ok r'" "task_at r' = task_at r"
proof -
  obtain x r' where g: "tr_get R now i r = (x, r')" by force
  have x: "x = task_at r i" "repo_ok r'" "task_at r' = task_at r"
    using get_at [OF assms, of now i] ok_get [OF assms, of now i] at_get [OF assms, of now i] by (simp_all add: g)
  show ?thesis
  proof (cases x)
    case None
    with x g show ?thesis by (intro missing [of r']) (auto simp: queue_open_def)
  next
    case (Some t)
    with x(1) have at: "task_at r i = Some t" by simp
    show ?thesis
    proof (cases "terminal (ht_status t)")
      case True
      with Some g at x(2,3) show ?thesis by (intro settled [of t r']) (simp_all add: queue_open_def)
    next
      case False
      with Some g at x(2,3) show ?thesis by (intro unsettled [of t r']) (simp_all add: queue_open_def)
    qed
  qed
qed

lemma settle_at:
  assumes "repo_ok r" "\<And>t. ht_id (change t) = ht_id t"
  shows "repo_ok (snd (queue_settle change R now i r)) \<and>
    task_at (snd (queue_settle change R now i r)) =
      (case task_at r i of Some t \<Rightarrow> if terminal (ht_status t) then task_at r else (task_at r)(i \<mapsto> change t) | None \<Rightarrow> task_at r)"
  using assms(1)
proof (cases rule: open_cases [where now = now and i = i])
  case (unsettled t r')
  then have "ht_id (change t) = i" using at_id [OF assms(1)] by (simp add: assms(2))
  with unsettled show ?thesis by (simp add: queue_settle_def ok_save at_save)
qed (simp_all add: queue_settle_def)

lemma expire_at:
  assumes "repo_ok r"
  shows "repo_ok (snd (queue_expire R now i r)) \<and>
    task_at (snd (queue_expire R now i r)) =
      (case task_at r i of Some t \<Rightarrow> (task_at r)(i \<mapsto> expired_at now t) | None \<Rightarrow> task_at r)"
proof -
  obtain x r' where g: "tr_get R now i r = (x, r')" by force
  have x: "x = task_at r i" "repo_ok r'" "task_at r' = task_at r"
    using get_at [OF assms, of now i] ok_get [OF assms, of now i] at_get [OF assms, of now i] by (simp_all add: g)
  have "ht_id (expired_at now t) = i" if "task_at r i = Some t" for t
    using at_id [OF assms that] by (simp add: expired_at_def)
  with x show ?thesis by (auto simp: queue_expire_def g ok_save at_save split: option.split)
qed

lemma expire_each_at:
  assumes "repo_ok r" "distinct (map ht_id ts)" "\<And>t. t \<in> set ts \<Longrightarrow> task_at r (ht_id t) = Some t"
  shows "repo_ok (snd (expire_each R now ts n r)) \<and>
    task_at (snd (expire_each R now ts n r)) =
      (\<lambda>i. if \<exists>t\<in>set ts. ht_id t = i \<and> overdue now t then map_option (expired_at now) (task_at r i) else task_at r i) \<and>
    fst (expire_each R now ts n r) = n + length (filter (overdue now) ts)"
  using assms
proof (induction ts arbitrary: n r)
  case (Cons t ts)
  show ?case
  proof (cases "overdue now t")
    case True
    let ?r = "tr_save R now (expired_at now t) r"
    have at: "task_at ?r = (task_at r)(ht_id t \<mapsto> expired_at now t)" "repo_ok ?r"
      using Cons.prems(1) by (simp_all add: at_save ok_save expired_at_def)
    have "\<And>u. u \<in> set ts \<Longrightarrow> task_at ?r (ht_id u) = Some u"
      using Cons.prems(2,3) by (auto simp: at(1)) (metis image_eqI)
    with Cons.IH [OF at(2)] Cons.prems(2) have IH:
      "repo_ok (snd (expire_each R now ts (Suc n) ?r)) \<and>
       task_at (snd (expire_each R now ts (Suc n) ?r)) =
         (\<lambda>i. if \<exists>t\<in>set ts. ht_id t = i \<and> overdue now t then map_option (expired_at now) (task_at ?r i) else task_at ?r i) \<and>
       fst (expire_each R now ts (Suc n) ?r) = Suc n + length (filter (overdue now) ts)" by simp
    moreover have "expired_at now (expired_at now t) = expired_at now t" by (simp add: expired_at_def)
    ultimately show ?thesis using True Cons.prems(2,3) by (auto simp: at(1) fun_eq_iff)
  next
    case False
    with Cons show ?thesis by (auto simp: fun_eq_iff)
  qed
qed auto

lemma expireOverdue_at:
  assumes "repo_ok r"
  shows "repo_ok (snd (queue_expireOverdue R now r)) \<and>
    task_at (snd (queue_expireOverdue R now r)) =
      (\<lambda>i. map_option (\<lambda>t. if overdue now t then expired_at now t else t) (task_at r i)) \<and>
    fst (queue_expireOverdue R now r) = card {i. \<exists>t. task_at r i = Some t \<and> overdue now t}"
proof -
  obtain ts r' where l: "tr_list R now None r = (ts, r')" by force
  have ts: "repo_ok r'" "task_at r' = task_at r" "distinct (map ht_id ts)" "t \<in> set ts \<longleftrightarrow> task_at r (ht_id t) = Some t" for t
    using ok_list [OF assms, of now None] at_list [OF assms, of now None] list_distinct [OF assms, of now None]
      list_at [OF assms, of now None] by (auto simp: l matches_def)
  have "{i. \<exists>t. task_at r i = Some t \<and> overdue now t} = ht_id ` set (filter (overdue now) ts)"
  proof (intro set_eqI iffI)
    fix i assume "i \<in> {i. \<exists>t. task_at r i = Some t \<and> overdue now t}"
    then obtain t where t: "task_at r i = Some t" "overdue now t" by blast
    with at_id [OF assms t(1)] have "t \<in> set (filter (overdue now) ts)" "i = ht_id t" by (simp_all add: ts(4))
    then show "i \<in> ht_id ` set (filter (overdue now) ts)" by blast
  next
    fix i assume "i \<in> ht_id ` set (filter (overdue now) ts)"
    then show "i \<in> {i. \<exists>t. task_at r i = Some t \<and> overdue now t}" by (auto simp: ts(4))
  qed
  also have "card \<dots> = length (filter (overdue now) ts)"
    using distinct_map_filter [OF ts(3), of "overdue now"] by (metis distinct_card length_map set_map)
  finally have n: "length (filter (overdue now) ts) = card {i. \<exists>t. task_at r i = Some t \<and> overdue now t}" by simp
  have cond: "(if \<exists>t\<in>set ts. ht_id t = i \<and> overdue now t then map_option (expired_at now) (task_at r i) else task_at r i) =
      map_option (\<lambda>t. if overdue now t then expired_at now t else t) (task_at r i)" for i
  proof (cases "task_at r i")
    case (Some t)
    with at_id [OF assms Some] have "(\<exists>t\<in>set ts. ht_id t = i \<and> overdue now t) = overdue now t"
      using ts(4) by (metis option.inject)
    with Some show ?thesis by simp
  next
    case None
    then show ?thesis by simp
  qed
  from expire_each_at [OF ts(1,3), unfolded ts(2), OF iffD1 [OF ts(4)], of now 0]
  show ?thesis unfolding cond n by (simp add: queue_expireOverdue_def l)
qed

lemma claim_at:
  assumes "repo_ok r"
  shows "repo_ok (snd (queue_dequeue R now who r)) \<and>
    (task_at (snd (queue_dequeue R now who r)) = task_at r \<or>
     (\<exists>t. best_pending (task_at r) t \<and> task_at (snd (queue_dequeue R now who r)) = (task_at r)(ht_id t \<mapsto> claimed who t)))"
  using ok_claim [OF assms] claim_None [OF assms, of now who] claim_Some [OF assms, of now who]
  by (cases "fst (tr_claimNextPending R now who r)") (auto simp: queue_dequeue_def)

lemma exec_ok: "repo_ok r \<Longrightarrow> repo_ok (exec_queue R e r)"
  by (cases "(R, e, r)" rule: exec_queue.cases)
    (auto simp: queue_enqueue_def Let_def ok_save queue_complete_def queue_reject_def completed_by_def rejected_by_def
      claim_at settle_at expire_at expireOverdue_at)

lemma settled_stays:
  assumes "repo_ok r" "task_at r i = Some t" "terminal (ht_status t)" "spares i (snd e)"
  shows "task_at (exec_queue R e r) i = Some t"
proof -
  have same: "task_at (snd (queue_settle change R now j r)) i = Some t" if "\<And>t. ht_id (change t) = ht_id t" for change now j
    using settle_at [OF assms(1) that, of now j] assms(2,3) by (auto split: option.splits if_splits)
  show ?thesis
  proof (cases e)
    case (Pair now op)
    show ?thesis
    proof (cases op)
      case (QDequeue who)
      from claim_at [OF assms(1), of now who] show ?thesis
        using assms(2,3) by (auto simp: Pair QDequeue best_pending_def terminal_def)
    next
      case (QExpire j)
      with expire_at [OF assms(1), of now j] assms(2,4) show ?thesis by (auto simp: Pair split: option.splits)
    next
      case QExpireOverdue
      with expireOverdue_at [OF assms(1), of now] assms(2,3) show ?thesis
        by (auto simp: Pair overdue_def split: option.splits)
    qed (use assms same in \<open>auto simp: Pair queue_enqueue_def Let_def at_save queue_complete_def queue_reject_def
        completed_by_def rejected_by_def\<close>)
  qed
qed

lemma settled_stays_run:
  assumes "repo_ok r" "task_at r i = Some t" "terminal (ht_status t)" "list_all (\<lambda>e. spares i (snd e)) es"
  shows "task_at (fold (exec_queue R) es r) i = Some t"
  using assms by (induction es arbitrary: r) (auto intro!: settled_stays exec_ok)

end

section \<open>Draining the queue\<close>

fun dequeues :: "nat \<Rightarrow> 'r task_repo \<Rightarrow> int \<Rightarrow> string \<Rightarrow> 'r \<Rightarrow> human_task list" where
  "dequeues 0 R now who r = []"
| "dequeues (Suc n) R now who r =
     (case queue_dequeue R now who r of (None, r') \<Rightarrow> dequeues n R now who r' | (Some t, r') \<Rightarrow> t # dequeues n R now who r')"

text \<open>Without the first of its sorted elements, a list sorts to the rest.\<close>

lemma sort_key_remove_first:
  assumes "sort_key f xs = x # rest"
  shows "sort_key f (remove1 x xs) = rest"
proof (rule properties_for_sort_key)
  have m: "mset xs = add_mset x (mset rest)" by (metis assms mset.simps(2) mset_sort)
  then show "mset rest = mset (remove1 x xs)" by simp
  fix k assume "k \<in> set rest"
  let ?P = "\<lambda>y. f k = f y"
  have eq: "filter ?P (x # rest) = filter ?P xs" by (metis (mono_tags, lifting) assms filter_cong sort_key_stable)
  have "x \<notin> set (filter ?P xs)" if "\<not> ?P x" using that by simp
  with eq show "filter ?P rest = filter ?P (remove1 x xs)"
    unfolding filter_remove1 by (cases "?P x") (auto simp: remove1_idem dest: sym)
next
  have "sorted (map f (x # rest))" by (metis assms sorted_sort_key)
  then show "sorted (map f rest)" by simp
qed

definition pending_tasks :: "task_map \<Rightarrow> human_task list" where
  "pending_tasks m = filter (\<lambda>t. ht_status t = TPending) (map snd m)"

lemma pending_after_claim:
  assumes "wf_tasks m" "t \<in> set (pending_tasks m)"
  shows "pending_tasks (mem_save (claimed who t) m) = remove1 t (pending_tasks m)"
  using assms
proof (induction m)
  case (Cons p m)
  obtain i u where p: "p = (i, u)" by (cases p)
  have wf: "wf_tasks m" "ht_id u = i" "i \<notin> set (keys_of m)" using Cons.prems(1) by (auto simp: wf_tasks_def p)
  show ?case
  proof (cases "u = t")
    case True
    then have "ht_status t = TPending" using Cons.prems(2) unfolding pending_tasks_def set_filter by blast
    then show ?thesis using True wf(2) by (simp add: pending_tasks_def p mem_save_def) (simp add: claimed_def)
  next
    case False
    with Cons.prems(2) have t: "t \<in> set (pending_tasks m)" by (auto simp: pending_tasks_def p split: if_splits)
    then have "ht_id t \<noteq> i" using wf(1,3) wf_tasks_mem [OF wf(1), of t]
      by (auto simp: pending_tasks_def dest!: map_of_SomeD) (force simp: image_iff)+
    with Cons.IH [OF wf(1) t] False show ?thesis by (simp add: pending_tasks_def p mem_save_def)
  qed
qed (simp add: pending_tasks_def)

text \<open>
  the queue hands the pending tasks out in the order of their priority, the older first, each once and
  assigned to the caller, and nothing more when they are exhausted.
\<close>

theorem queue_drains:
  assumes "wf_tasks m"
  shows "dequeues n memoryRepo now who m = map (claimed who) (take n (sort_key claim_key (pending_tasks m)))"
  using assms
proof (induction n arbitrary: m)
  case (Suc n)
  show ?case
  proof (cases "sort_key claim_key (pending_tasks m)")
    case Nil
    then have "nextPending (map snd m) = None" by (simp add: nextPending_def pending_tasks_def)
    with Suc Nil show ?thesis by (simp add: queue_dequeue_def memoryRepo_def mem_claim_def)
  next
    case (Cons t rest)
    then have nxt: "nextPending (map snd m) = Some t" by (simp add: nextPending_def pending_tasks_def)
    have "t \<in> set (pending_tasks m)" by (metis Cons list.set_intros(1) set_sort)
    then have "sort_key claim_key (pending_tasks (mem_save (claimed who t) m)) = rest"
      using sort_key_remove_first [OF Cons] pending_after_claim [OF Suc.prems] by simp
    with Suc.IH [OF wf_tasks_save [OF Suc.prems], of "claimed who t"] Cons nxt show ?thesis
      by (simp add: queue_dequeue_def memoryRepo_def mem_claim_def)
  qed
qed simp

section \<open>Properties\<close>

text \<open>
  Claim C40: a decision is final: once a task is completed, rejected or expired, no sequence of operations
  changes it, be they enqueues under other identifiers, dequeues, decisions on it or on others, or expiry of
  overdue tasks; only an explicit \<^verbatim>\<open>expire\<close> of that task is outside.
\<close>

theorem decision_final:
  assumes "wf_tasks m" "map_of m i = Some t" "terminal (ht_status t)" "list_all (\<lambda>e. spares i (snd e)) es"
  shows "map_of (fold (exec_queue memoryRepo) es m) i = Some t"
  by (rule memory.settled_stays_run [OF assms])

text \<open>
  over the runtime slot, expiring the overdue tasks marks exactly the tasks past their deadline that are
  still open, leaves every other task as it was, and answers how many there were.
\<close>

theorem durable_expireOverdue:
  assumes "durable.slot_ok ns s"
  shows "durable.slot_task ns (snd (queue_expireOverdue (durableRepo memory_kv ns) now s)) =
      (\<lambda>i. map_option (\<lambda>t. if overdue now t then expired_at now t else t) (durable.slot_task ns s i)) \<and>
    fst (queue_expireOverdue (durableRepo memory_kv ns) now s) =
      card {i. \<exists>t. durable.slot_task ns s i = Some t \<and> overdue now t}"
  using durable.slot_repo.expireOverdue_at [OF assms] by simp

section \<open>Examples\<close>

definition demo_task :: "string \<Rightarrow> task_priority \<Rightarrow> int \<Rightarrow> human_task" where
  "demo_task i p created = (createHumanTask i created
     \<lparr>ci_type = TyApproval, ci_title = ''Deploy'', ci_description = None, ci_priority = Some p, ci_assignee = None,
      ci_data = None, ci_workflowRunId = None, ci_workflowStepId = None, ci_slaDeadline = Some 50\<rparr>)"

definition demo_tasks :: task_map where
  "demo_tasks = [(''a'', demo_task ''a'' PrNormal 1), (''b'', demo_task ''b'' PrUrgent 2), (''c'', demo_task ''c'' PrNormal 0)]"

definition demo_decision :: human_decision where
  "demo_decision = createDecision 9 ''b'' ''ann'' ''approve'' None None"

lemma wf_demo_tasks: "wf_tasks demo_tasks"
  by (simp add: wf_tasks_def demo_tasks_def demo_task_def createHumanTask_def)

lemma queue_drains_witness: "map ht_id (dequeues 2 memoryRepo 5 ''ann'' demo_tasks) = [''b'', ''c'']"
  unfolding queue_drains [OF wf_demo_tasks]
  by (simp add: demo_tasks_def pending_tasks_def demo_task_def createHumanTask_def claim_key_def numeral_2_eq_2)

lemma decision_final_witness:
  "map_of (fold (exec_queue memoryRepo) [(20, QReject ''b'' demo_decision), (21, QDequeue ''bob''), (99, QExpireOverdue)]
     (exec_queue memoryRepo (10, QComplete ''b'' demo_decision) demo_tasks)) ''b'' =
   Some (completed_by demo_decision (demo_task ''b'' PrUrgent 2))"
proof (rule decision_final)
  show "wf_tasks (exec_queue memoryRepo (10, QComplete ''b'' demo_decision) demo_tasks)"
    by (rule memory.exec_ok [OF wf_demo_tasks])
qed (simp_all add: queue_complete_def queue_settle_def queue_open_def memoryRepo_def demo_tasks_def mem_save_def
    completed_by_def demo_task_def createHumanTask_def terminal_def)

lemma durable_expireOverdue_witness:
  "fst (queue_expireOverdue (durableRepo memory_kv ''t'') 99 (durable_save memory_kv ''t'' 1 (demo_task ''a'' PrLow 1) [])) = 1"
proof -
  have empty: "durable.slot_ok ''t'' []"
    by (simp add: durable.slot_ok_def durable.slot_task_def mem_lasting_def mem_look_def)
  let ?s = "durable_save memory_kv ''t'' 1 (demo_task ''a'' PrLow 1) []"
  note s = durable.slot_save [OF empty, of 1 "demo_task ''a'' PrLow 1"]
  have "durable.slot_task ''t'' ?s = [''a'' \<mapsto> demo_task ''a'' PrLow 1]"
    unfolding s(2) by (auto simp: durable.slot_task_def mem_look_def demo_task_def createHumanTask_def)
  moreover have "overdue 99 (demo_task ''a'' PrLow 1)"
    by (simp add: overdue_def demo_task_def createHumanTask_def terminal_def)
  ultimately show ?thesis using durable_expireOverdue [OF s(1), of 99] by (simp add: if_split_mem1)
qed

section \<open>Where the queue lacks a guard\<close>

text \<open>
  \<^verbatim>\<open>expire\<close> has no guard: it turns a completed task into an expired one and moves its completion time.
\<close>

lemma expire_overwrites_decision:
  "map_option (\<lambda>t. (ht_status t, ht_completedAt t))
     (map_of (fold (exec_queue memoryRepo) [(10, QComplete ''b'' demo_decision), (20, QExpire ''b'')] demo_tasks) ''b'') =
   Some (TExpired, Some 20)"
  by (simp add: queue_complete_def queue_settle_def queue_open_def queue_expire_def memoryRepo_def demo_tasks_def mem_save_def
    completed_by_def demo_task_def createHumanTask_def terminal_def expired_at_def)

text \<open>
  Two decisions whose reads come before either write both succeed, and the later write replaces the decision of
  the earlier: the guard reads a copy.
\<close>

lemma overlapping_decisions:
  assumes "queue_open memoryRepo 1 ''b'' demo_tasks = (Inr t, m1)" "queue_open memoryRepo 2 ''b'' m1 = (Inr u, m2)"
  shows "map_option ht_status (map_of (mem_save (rejected_by d2 u) (mem_save (completed_by d1 t) m2)) ''b'') = Some TRejected"
  using assms
  by (auto simp: queue_open_def memoryRepo_def demo_tasks_def demo_task_def createHumanTask_def terminal_def mem_save_def
      rejected_by_def completed_by_def)

end
