(* ===== verification/ClientView.thy ===== *)
theory ClientView
  imports Json
begin

text \<open>
  The view model of a run on the client and the envelopes it is reduced from
  (\<^verbatim>\<open>packages/client/src/reducer.ts\<close>, \<^verbatim>\<open>packages/core/src/run-events.ts\<close>).

  Optional fields are options; an opaque value that may be \<^verbatim>\<open>undefined\<close> is an optional JSON value.
  Payloads are JSON objects. Review comments, handoffs and presence entries stay JSON, read through
  their fields, as they arrive on the wire.
\<close>

section \<open>The views\<close>

datatype run_status = Pending | Running | Completed | Failed | RunCancelled

record text_chunk =
  tc_text :: string
  tc_delta :: string
  tc_role :: "string option"

record widget_view =
  wv_id :: string
  wv_payload :: json
  wv_schema :: "rat option"

record status_view =
  sv_status :: run_status
  sv_detail :: "string option"

record tool_call =
  tl_name :: string
  tl_args :: "json option"
  tl_result :: "json option"
  tl_error :: "string option"

record error_view =
  ev_code :: string
  ev_message :: string

record reasoning_chunk =
  rc_text :: string
  rc_delta :: string

record usage_view =
  uv_promptTokens :: "rat option"
  uv_completionTokens :: "rat option"
  uv_totalTokens :: "rat option"
  uv_costUsd :: "rat option"
  uv_latencyMs :: "rat option"
  uv_model :: "string option"
  uv_provider :: "string option"
  uv_mode :: "string option"

datatype step_phase = StepStart | StepEnd

record step_view =
  st_index :: "rat option"
  st_type :: "string option"
  st_content :: "string option"
  st_toolName :: "string option"
  st_durationMs :: "rat option"
  st_phase :: "step_phase option"

record citation_view =
  cv_id :: string
  cv_text :: "string option"
  cv_source :: "string option"
  cv_url :: "string option"

record artifact_view =
  av_id :: string
  av_type :: "string option"
  av_title :: "string option"
  av_mimeType :: "string option"
  av_url :: "string option"

record diagnostic_view =
  dv_channel :: string
  dv_data :: "json option"

datatype approval_status = ApPending | ApApproved | ApDenied | ApModified

record approval_view =
  ap_taskId :: string
  ap_toolName :: "string option"
  ap_title :: "string option"
  ap_description :: "string option"
  ap_riskLevel :: "string option"
  ap_actions :: "json list option"
  ap_status :: approval_status

record object_view =
  ov_text :: string
  ov_partial :: "json option"
  ov_complete :: bool
  ov_value :: "json option"

datatype direction = Input | Output

record file_view =
  fv_id :: string
  fv_mediaType :: string
  fv_name :: "string option"
  fv_url :: "string option"
  fv_data :: "string option"
  fv_size :: "rat option"
  fv_direction :: "direction option"

datatype stream_item =
    IText text_chunk | IWidget widget_view | IStatus status_view | ITool tool_call | IError error_view
  | IReasoning reasoning_chunk | IUsage usage_view | IStep step_view | ICitation citation_view
  | IArtifact artifact_view | IDiagnostic diagnostic_view | IApproval approval_view | IObject object_view
  | IFile file_view

section \<open>The parts\<close>

datatype tool_state = InputStreaming | InputAvailable | OutputAvailable | OutputError
datatype stream_state = Streaming | Done

record tool_part =
  tp_id :: string
  tp_callId :: string
  tp_name :: string
  tp_state :: tool_state
  tp_inputText :: "string option"
  tp_args :: "json option"
  tp_result :: "json option"
  tp_error :: "string option"

record step_part =
  sp_id :: string
  sp_index :: "rat option"
  sp_stepType :: "string option"
  sp_toolName :: "string option"
  sp_phase :: "step_phase option"

record widget_part =
  wp_id :: string
  wp_widgetId :: string
  wp_payload :: json
  wp_schema :: "rat option"

record artifact_part =
  arp_id :: string
  arp_artifactId :: string
  arp_title :: "string option"
  arp_mimeType :: "string option"
  arp_url :: "string option"

record citation_part =
  cp_id :: string
  cp_citationId :: string
  cp_source :: "string option"
  cp_url :: "string option"
  cp_text :: "string option"

text \<open>The state of an approval part: \<open>ApPending\<close> is \<^verbatim>\<open>requires-action\<close>.\<close>

record approval_part =
  app_id :: string
  app_taskId :: string
  app_state :: approval_status
  app_toolName :: "string option"
  app_title :: "string option"
  app_riskLevel :: "string option"

record object_part =
  op_id :: string
  op_state :: stream_state
  op_text :: string
  op_partial :: "json option"
  op_value :: "json option"

datatype run_part =
    TextPart string stream_state string
  | ReasoningPart string stream_state string
  | ToolPart tool_part
  | StepPart step_part
  | WidgetPart widget_part
  | ArtifactPart artifact_part
  | CitationPart citation_part
  | ApprovalPart approval_part
  | ObjectPart object_part
  | FilePart file_view

section \<open>The view model\<close>

record run_view =
  vm_sequence :: int
  vm_status :: run_status
  vm_fullText :: string
  vm_textChunks :: "text_chunk list"
  vm_widgets :: "(string \<times> widget_view) list"
  vm_toolCalls :: "tool_call list"
  vm_lastError :: "error_view option"
  vm_reasoningText :: string
  vm_reasoningChunks :: "reasoning_chunk list"
  vm_usage :: "usage_view option"
  vm_steps :: "step_view list"
  vm_citations :: "citation_view list"
  vm_artifacts :: "(string \<times> artifact_view) list"
  vm_diagnostics :: "diagnostic_view list"
  vm_approvals :: "approval_view list"
  vm_object :: "object_view option"
  vm_files :: "file_view list"
  vm_presence :: "json list"
  vm_accessRevoked :: "string option"
  vm_comments :: "payload list"
  vm_handoffs :: "payload list"
  vm_parts :: "run_part list"
  vm_items :: "stream_item list"

definition emptyRunViewModel :: run_view where
  "emptyRunViewModel =
     \<lparr>vm_sequence = -1, vm_status = Pending, vm_fullText = [], vm_textChunks = [], vm_widgets = [], vm_toolCalls = [],
      vm_lastError = None, vm_reasoningText = [], vm_reasoningChunks = [], vm_usage = None, vm_steps = [],
      vm_citations = [], vm_artifacts = [], vm_diagnostics = [], vm_approvals = [], vm_object = None, vm_files = [],
      vm_presence = [], vm_accessRevoked = None, vm_comments = [], vm_handoffs = [], vm_parts = [], vm_items = []\<rparr>"

section \<open>Envelopes\<close>

datatype event_kind =
    RunStarted | RunCompleted | RunFailed | RunCancelledEvent | TextDelta | ToolInvoked | ToolCompleted
  | ToolErrored | WidgetUpdate | ReasoningDelta | UsageUpdate | StepUpdate | CitationAdd | ArtifactUpdate
  | Diagnostic | ToolInputStart | ToolInputDelta | ApprovalRequest | ApprovalResolved | ObjectDelta
  | ObjectComplete | FilePartEvent | PresenceUpdate | AccessRevoked | CommentAdded | CommentUpdated
  | CommentDeleted | CommentResolved | CommentReopened | HandoffUpdate | OtherEvent string

record envelope =
  env_runId :: string
  env_sequence :: int
  env_kind :: event_kind
  env_payload :: payload
  env_timestamp :: "rat option"

section \<open>Reading a payload\<close>

definition strField :: "payload \<Rightarrow> string \<Rightarrow> string option" where
  "strField p k = (case map_of p k of Some (JStr s) \<Rightarrow> Some s | _ \<Rightarrow> None)"

definition numField :: "payload \<Rightarrow> string \<Rightarrow> rat option" where
  "numField p k = (case map_of p k of Some (JNum n) \<Rightarrow> Some n | _ \<Rightarrow> None)"

text \<open>\<^verbatim>\<open>typeof x === 'object' && x !== null\<close>: an object or an array.\<close>

definition objField :: "payload \<Rightarrow> string \<Rightarrow> json option" where
  "objField p k = (case map_of p k of Some (JObj o') \<Rightarrow> Some (JObj o') | Some (JArr xs) \<Rightarrow> Some (JArr xs) | _ \<Rightarrow> None)"

definition arrField :: "payload \<Rightarrow> string \<Rightarrow> json list option" where
  "arrField p k = (case map_of p k of Some (JArr xs) \<Rightarrow> Some xs | _ \<Rightarrow> None)"

definition phaseField :: "payload \<Rightarrow> step_phase option" where
  "phaseField p =
     (case strField p ''phase'' of
        Some s \<Rightarrow> if s = ''step_start'' then Some StepStart else if s = ''step_end'' then Some StepEnd else None
      | None \<Rightarrow> None)"

definition directionField :: "payload \<Rightarrow> direction option" where
  "directionField p =
     (case strField p ''direction'' of
        Some s \<Rightarrow> if s = ''input'' then Some Input else if s = ''output'' then Some Output else None
      | None \<Rightarrow> None)"

definition idField :: "payload \<Rightarrow> string \<Rightarrow> string \<Rightarrow> int \<Rightarrow> string" where
  "idField p k prefix sq = nullish (strField p k) (prefix @ int_str sq)"

definition deltaField :: "payload \<Rightarrow> string" where
  "deltaField p = nullish (strField p ''delta'') []"

text \<open>\<^verbatim>\<open>reasoning.delta\<close> accepts either name.\<close>

definition reasoningField :: "payload \<Rightarrow> string" where
  "reasoningField p = (case strField p ''delta'' of Some s \<Rightarrow> s | None \<Rightarrow> nullish (strField p ''text'') [])"

text \<open>The last and the first index with a property (\<^verbatim>\<open>lastIndex\<close>, \<^verbatim>\<open>findIndex\<close>).\<close>

definition lastIndex :: "('a \<Rightarrow> bool) \<Rightarrow> 'a list \<Rightarrow> nat option" where
  "lastIndex P xs = find (\<lambda>i. P (xs ! i)) (rev [0..<length xs])"

definition findIndex :: "('a \<Rightarrow> bool) \<Rightarrow> 'a list \<Rightarrow> nat option" where
  "findIndex P xs = find (\<lambda>i. P (xs ! i)) [0..<length xs]"

lemma lastIndex_SomeD: "lastIndex P xs = Some i \<Longrightarrow> i < length xs \<and> P (xs ! i)"
  unfolding lastIndex_def by (auto dest: find_SomeD)

lemma findIndex_SomeD: "findIndex P xs = Some i \<Longrightarrow> i < length xs \<and> P (xs ! i)"
  unfolding findIndex_def by (auto dest: find_SomeD)

lemma findIndex_None: "findIndex P xs = None \<longleftrightarrow> (\<forall>i<length xs. \<not> P (xs ! i))"
  unfolding findIndex_def find_None_iff by auto

end
