(* ===== verification/ClientReducer.thy ===== *)
theory ClientReducer
  imports ClientView
begin

text \<open>
  The pure reducer from envelopes to the view model (\<^verbatim>\<open>packages/client/src/reducer.ts\<close>): the ordered parts
  with their streaming state, and the older flat view it keeps beside them.

  The tolerant JSON parser of \<^verbatim>\<open>partial-json.ts\<close> is the parameter \<open>parse\<close>: the best-effort value of a text.
\<close>

section \<open>The parts state machine\<close>

definition is_text_part :: "bool \<Rightarrow> run_part \<Rightarrow> bool" where
  "is_text_part text pt = (case pt of TextPart _ Streaming _ \<Rightarrow> text | ReasoningPart _ Streaming _ \<Rightarrow> \<not> text | _ \<Rightarrow> False)"

text \<open>\<open>text\<close> selects the type: text or reasoning.\<close>

definition appendStreamPart :: "bool \<Rightarrow> string \<Rightarrow> int \<Rightarrow> run_part list \<Rightarrow> run_part list" where
  "appendStreamPart text delta sq parts =
     (if parts \<noteq> [] \<and> is_text_part text (last parts) then
        butlast parts @ [case last parts of
            TextPart i s t \<Rightarrow> TextPart i s (t @ delta)
          | ReasoningPart i s t \<Rightarrow> ReasoningPart i s (t @ delta)
          | pt \<Rightarrow> pt]
      else if text then parts @ [TextPart (''text-'' @ int_str sq) Streaming delta]
      else parts @ [ReasoningPart (''reasoning-'' @ int_str sq) Streaming delta])"

text \<open>By call id in any state, else by name among the open states; empty strings count as absent.\<close>

definition findToolPartIdx ::
  "run_part list \<Rightarrow> string option \<Rightarrow> string option \<Rightarrow> tool_state list \<Rightarrow> nat option" where
  "findToolPartIdx parts callId name openStates =
     (let byId = (case callId of
             Some c \<Rightarrow> if c = [] then None
               else lastIndex (\<lambda>pt. case pt of ToolPart t \<Rightarrow> tp_callId t = c | _ \<Rightarrow> False) parts
           | None \<Rightarrow> None);
          byName = (case name of
             Some n \<Rightarrow> if n = [] then None
               else lastIndex (\<lambda>pt. case pt of ToolPart t \<Rightarrow> tp_name t = n \<and> tp_state t \<in> set openStates | _ \<Rightarrow> False) parts
           | None \<Rightarrow> None)
      in case byId of Some i \<Rightarrow> Some i | None \<Rightarrow> byName)"

definition finalize_part :: "run_part \<Rightarrow> run_part" where
  "finalize_part pt =
     (case pt of
        TextPart i Streaming t \<Rightarrow> TextPart i Done t
      | ReasoningPart i Streaming t \<Rightarrow> ReasoningPart i Done t
      | ObjectPart p' \<Rightarrow> if op_state p' = Streaming then ObjectPart (p'\<lparr>op_state := Done, op_value := op_partial p'\<rparr>) else pt
      | _ \<Rightarrow> pt)"

definition finalizeStreamingParts :: "run_part list \<Rightarrow> run_part list" where
  "finalizeStreamingParts parts = map finalize_part parts"

definition map_tool :: "(tool_part \<Rightarrow> tool_part) \<Rightarrow> run_part \<Rightarrow> run_part" where
  "map_tool f pt = (case pt of ToolPart t \<Rightarrow> ToolPart (f t) | _ \<Rightarrow> pt)"

definition new_tool :: "payload \<Rightarrow> int \<Rightarrow> tool_state \<Rightarrow> tool_part" where
  "new_tool p sq st =
     \<lparr>tp_id = ''tool-'' @ int_str sq, tp_callId = idField p ''toolCallId'' ''tc-'' sq,
      tp_name = nullish (strField p ''tool'') ''unknown'', tp_state = st, tp_inputText = None, tp_args = None,
      tp_result = None, tp_error = None\<rparr>"

definition part_tool_input_start :: "payload \<Rightarrow> int \<Rightarrow> run_part list \<Rightarrow> run_part list" where
  "part_tool_input_start p sq parts = parts @ [ToolPart ((new_tool p sq InputStreaming)\<lparr>tp_inputText := Some []\<rparr>)]"

definition part_tool_input_delta :: "payload \<Rightarrow> run_part list \<Rightarrow> run_part list" where
  "part_tool_input_delta p parts =
     (case findToolPartIdx parts (strField p ''toolCallId'') (strField p ''tool'') [InputStreaming] of
        Some i \<Rightarrow> parts[i := map_tool (\<lambda>t. t\<lparr>tp_inputText := Some (nullish (tp_inputText t) [] @ deltaField p)\<rparr>) (parts ! i)]
      | None \<Rightarrow> parts)"

definition part_tool_invoked :: "payload \<Rightarrow> int \<Rightarrow> run_part list \<Rightarrow> run_part list" where
  "part_tool_invoked p sq parts =
     (let args = objField p ''args'';
          set_args = (\<lambda>t. t\<lparr>tp_state := InputAvailable, tp_args := (case args of Some a \<Rightarrow> Some a | None \<Rightarrow> tp_args t)\<rparr>)
      in case findToolPartIdx parts (strField p ''toolCallId'') (Some (nullish (strField p ''tool'') ''unknown'')) [InputStreaming] of
           Some i \<Rightarrow> parts[i := map_tool set_args (parts ! i)]
         | None \<Rightarrow> parts @ [ToolPart ((new_tool p sq InputAvailable)\<lparr>tp_args := args\<rparr>)])"

definition part_tool_completed :: "payload \<Rightarrow> int \<Rightarrow> run_part list \<Rightarrow> run_part list" where
  "part_tool_completed p sq parts =
     (let done_with = (\<lambda>t. t\<lparr>tp_state := OutputAvailable, tp_result := map_of p ''result''\<rparr>)
      in case findToolPartIdx parts (strField p ''toolCallId'') (Some (nullish (strField p ''tool'') ''unknown''))
             [InputAvailable, InputStreaming] of
           Some i \<Rightarrow> parts[i := map_tool done_with (parts ! i)]
         | None \<Rightarrow> parts @ [ToolPart (done_with (new_tool p sq OutputAvailable))])"

definition part_tool_errored :: "payload \<Rightarrow> int \<Rightarrow> run_part list \<Rightarrow> run_part list" where
  "part_tool_errored p sq parts =
     (let fail_with = (\<lambda>t. t\<lparr>tp_state := OutputError, tp_error := Some (nullish (strField p ''error'') ''Tool error'')\<rparr>)
      in case findToolPartIdx parts (strField p ''toolCallId'') (Some (nullish (strField p ''tool'') ''unknown''))
             [InputAvailable, InputStreaming] of
           Some i \<Rightarrow> parts[i := map_tool fail_with (parts ! i)]
         | None \<Rightarrow> parts @ [ToolPart (fail_with (new_tool p sq OutputError))])"

definition part_step :: "payload \<Rightarrow> int \<Rightarrow> run_part" where
  "part_step p sq =
     StepPart \<lparr>sp_id = ''step-'' @ int_str sq, sp_index = numField p ''index'', sp_stepType = strField p ''type'',
               sp_toolName = strField p ''toolName'', sp_phase = phaseField p\<rparr>"

text \<open>Replace the first part with the property, or append.\<close>

definition upsert_part :: "(run_part \<Rightarrow> bool) \<Rightarrow> run_part \<Rightarrow> run_part list \<Rightarrow> run_part list" where
  "upsert_part P pt parts = (case findIndex P parts of Some i \<Rightarrow> parts[i := pt] | None \<Rightarrow> parts @ [pt])"

definition widget_payload :: "payload \<Rightarrow> json" where
  "widget_payload p = nullish (objField p ''payload'') (JObj p)"

definition part_widget :: "payload \<Rightarrow> int \<Rightarrow> run_part list \<Rightarrow> run_part list" where
  "part_widget p sq parts =
     (let w = idField p ''id'' ''widget-'' sq
      in upsert_part (\<lambda>pt. case pt of WidgetPart x \<Rightarrow> wp_widgetId x = w | _ \<Rightarrow> False)
           (WidgetPart \<lparr>wp_id = ''widget-'' @ int_str sq, wp_widgetId = w, wp_payload = widget_payload p,
                        wp_schema = numField p ''schemaVersion''\<rparr>) parts)"

definition part_artifact :: "payload \<Rightarrow> int \<Rightarrow> run_part list \<Rightarrow> run_part list" where
  "part_artifact p sq parts =
     (let a = idField p ''id'' ''artifact-'' sq
      in upsert_part (\<lambda>pt. case pt of ArtifactPart x \<Rightarrow> arp_artifactId x = a | _ \<Rightarrow> False)
           (ArtifactPart \<lparr>arp_id = ''artifact-'' @ int_str sq, arp_artifactId = a, arp_title = strField p ''title'',
                          arp_mimeType = strField p ''mimeType'', arp_url = strField p ''url''\<rparr>) parts)"

definition part_citation :: "payload \<Rightarrow> int \<Rightarrow> run_part list \<Rightarrow> run_part list" where
  "part_citation p sq parts =
     (let c = idField p ''id'' ''citation-'' sq
      in if list_ex (\<lambda>pt. case pt of CitationPart x \<Rightarrow> cp_citationId x = c | _ \<Rightarrow> False) parts then parts
         else parts @ [CitationPart \<lparr>cp_id = ''citation-'' @ int_str sq, cp_citationId = c, cp_source = strField p ''source'',
                         cp_url = strField p ''url'', cp_text = strField p ''text''\<rparr>])"

definition part_approval_request :: "payload \<Rightarrow> int \<Rightarrow> run_part" where
  "part_approval_request p sq =
     ApprovalPart \<lparr>app_id = ''approval-'' @ int_str sq, app_taskId = idField p ''taskId'' ''approval-'' sq,
                   app_state = ApPending, app_toolName = strField p ''toolName'', app_title = strField p ''title'',
                   app_riskLevel = strField p ''riskLevel''\<rparr>"

definition resolution :: "payload \<Rightarrow> approval_status" where
  "resolution p =
     (let action = nullish (strField p ''action'') ''reject''
      in if action = ''approve'' then ApApproved else if action = ''modify'' then ApModified else ApDenied)"

definition part_approval_resolved :: "payload \<Rightarrow> run_part list \<Rightarrow> run_part list" where
  "part_approval_resolved p parts =
     (case findIndex (\<lambda>pt. case pt of ApprovalPart a \<Rightarrow> Some (app_taskId a) = strField p ''taskId'' | _ \<Rightarrow> False) parts of
        Some i \<Rightarrow> parts[i := (case parts ! i of ApprovalPart a \<Rightarrow> ApprovalPart (a\<lparr>app_state := resolution p\<rparr>) | pt \<Rightarrow> pt)]
      | None \<Rightarrow> parts)"

definition part_object_delta :: "(string \<Rightarrow> json option) \<Rightarrow> payload \<Rightarrow> int \<Rightarrow> run_part list \<Rightarrow> run_part list" where
  "part_object_delta parse p sq parts =
     (let fresh = parts @ [ObjectPart \<lparr>op_id = ''object-'' @ int_str sq, op_state = Streaming, op_text = deltaField p,
                     op_partial = parse (deltaField p), op_value = None\<rparr>]
      in if parts = [] then fresh
         else case last parts of
           ObjectPart ob \<Rightarrow>
             if op_state ob = Streaming
             then (let text = op_text ob @ deltaField p
                   in butlast parts @ [ObjectPart (ob\<lparr>op_text := text, op_partial := parse text\<rparr>)])
             else fresh
         | _ \<Rightarrow> fresh)"

definition part_object_complete :: "(string \<Rightarrow> json option) \<Rightarrow> payload \<Rightarrow> int \<Rightarrow> run_part list \<Rightarrow> run_part list" where
  "part_object_complete parse p sq parts =
     (case lastIndex (\<lambda>pt. case pt of ObjectPart _ \<Rightarrow> True | _ \<Rightarrow> False) parts of
        Some i \<Rightarrow> parts[i := (case parts ! i of
            ObjectPart ob \<Rightarrow>
              (let v = (case map_of p ''value'' of Some v \<Rightarrow> Some v | None \<Rightarrow> parse (op_text ob))
               in ObjectPart (ob\<lparr>op_state := Done, op_value := v, op_partial := v\<rparr>))
          | pt \<Rightarrow> pt)]
      | None \<Rightarrow> parts @ [ObjectPart \<lparr>op_id = ''object-'' @ int_str sq, op_state = Done, op_text = [],
                    op_partial = map_of p ''value'', op_value = map_of p ''value''\<rparr>])"

definition file_of :: "payload \<Rightarrow> int \<Rightarrow> file_view" where
  "file_of p sq =
     \<lparr>fv_id = idField p ''id'' ''file-'' sq,
      fv_mediaType = nullish (strField p ''mediaType'') ''application/octet-stream'', fv_name = strField p ''name'',
      fv_url = strField p ''url'', fv_data = strField p ''dataBase64'', fv_size = numField p ''size'',
      fv_direction = directionField p\<rparr>"

definition updateParts :: "(string \<Rightarrow> json option) \<Rightarrow> envelope \<Rightarrow> run_part list \<Rightarrow> run_part list" where
  "updateParts parse e parts =
     (let p = env_payload e; sq = env_sequence e in
      case env_kind e of
        TextDelta \<Rightarrow> appendStreamPart True (deltaField p) sq parts
      | ReasoningDelta \<Rightarrow> appendStreamPart False (reasoningField p) sq parts
      | ToolInputStart \<Rightarrow> part_tool_input_start p sq parts
      | ToolInputDelta \<Rightarrow> part_tool_input_delta p parts
      | ToolInvoked \<Rightarrow> part_tool_invoked p sq parts
      | ToolCompleted \<Rightarrow> part_tool_completed p sq parts
      | ToolErrored \<Rightarrow> part_tool_errored p sq parts
      | StepUpdate \<Rightarrow> parts @ [part_step p sq]
      | WidgetUpdate \<Rightarrow> part_widget p sq parts
      | ArtifactUpdate \<Rightarrow> part_artifact p sq parts
      | CitationAdd \<Rightarrow> part_citation p sq parts
      | ApprovalRequest \<Rightarrow> parts @ [part_approval_request p sq]
      | ApprovalResolved \<Rightarrow> part_approval_resolved p parts
      | ObjectDelta \<Rightarrow> part_object_delta parse p sq parts
      | ObjectComplete \<Rightarrow> part_object_complete parse p sq parts
      | FilePartEvent \<Rightarrow> parts @ [FilePart (file_of p sq)]
      | RunCompleted \<Rightarrow> finalizeStreamingParts parts
      | RunFailed \<Rightarrow> finalizeStreamingParts parts
      | RunCancelledEvent \<Rightarrow> finalizeStreamingParts parts
      | _ \<Rightarrow> parts)"

section \<open>The flat view\<close>

definition on_status :: "run_status \<Rightarrow> run_view \<Rightarrow> run_view" where
  "on_status st v = v\<lparr>vm_status := st, vm_items := vm_items v @ [IStatus \<lparr>sv_status = st, sv_detail = None\<rparr>]\<rparr>"

definition on_failed :: "payload \<Rightarrow> run_view \<Rightarrow> run_view" where
  "on_failed p v =
     (let msg = nullish (strField p ''message'') ''Unknown error'';
          ev = \<lparr>ev_code = ''RUN_FAILED'', ev_message = msg\<rparr>
      in v\<lparr>vm_status := Failed, vm_lastError := Some ev,
           vm_items := vm_items v @ [IStatus \<lparr>sv_status = Failed, sv_detail = Some msg\<rparr>, IError ev]\<rparr>)"

definition on_text :: "payload \<Rightarrow> run_view \<Rightarrow> run_view" where
  "on_text p v =
     (let full = vm_fullText v @ deltaField p;
          chunk = \<lparr>tc_text = full, tc_delta = deltaField p, tc_role = strField p ''role''\<rparr>
      in v\<lparr>vm_fullText := full, vm_textChunks := vm_textChunks v @ [chunk], vm_items := vm_items v @ [IText chunk]\<rparr>)"

definition on_widget :: "payload \<Rightarrow> int \<Rightarrow> run_view \<Rightarrow> run_view" where
  "on_widget p sq v =
     (let w = \<lparr>wv_id = idField p ''id'' ''widget-'' sq, wv_payload = widget_payload p, wv_schema = numField p ''schemaVersion''\<rparr>
      in v\<lparr>vm_widgets := AList.update (wv_id w) w (vm_widgets v), vm_items := vm_items v @ [IWidget w]\<rparr>)"

definition on_tool_invoked :: "payload \<Rightarrow> run_view \<Rightarrow> run_view" where
  "on_tool_invoked p v =
     (let t = \<lparr>tl_name = nullish (strField p ''tool'') ''unknown'', tl_args = objField p ''args'', tl_result = None, tl_error = None\<rparr>
      in v\<lparr>vm_toolCalls := vm_toolCalls v @ [t], vm_items := vm_items v @ [ITool t]\<rparr>)"

definition on_tool_completed :: "payload \<Rightarrow> run_view \<Rightarrow> run_view" where
  "on_tool_completed p v =
     (let name = nullish (strField p ''tool'') ''unknown''; result = map_of p ''result'' in
      case lastIndex (\<lambda>t. tl_name t = name) (vm_toolCalls v) of
        Some i \<Rightarrow> v\<lparr>vm_toolCalls := (vm_toolCalls v)[i := (vm_toolCalls v ! i)\<lparr>tl_result := result\<rparr>]\<rparr>
      | None \<Rightarrow>
          (let t = \<lparr>tl_name = name, tl_args = None, tl_result = result, tl_error = None\<rparr>
           in v\<lparr>vm_toolCalls := vm_toolCalls v @ [t], vm_items := vm_items v @ [ITool t]\<rparr>))"

definition on_tool_errored :: "payload \<Rightarrow> run_view \<Rightarrow> run_view" where
  "on_tool_errored p v =
     (let name = nullish (strField p ''tool'') ''unknown''; msg = nullish (strField p ''error'') ''Tool error'' in
      case lastIndex (\<lambda>t. tl_name t = name) (vm_toolCalls v) of
        Some i \<Rightarrow> v\<lparr>vm_toolCalls := (vm_toolCalls v)[i := (vm_toolCalls v ! i)\<lparr>tl_error := Some msg\<rparr>]\<rparr>
      | None \<Rightarrow>
          (let t = \<lparr>tl_name = name, tl_args = None, tl_result = None, tl_error = Some msg\<rparr>
           in v\<lparr>vm_toolCalls := vm_toolCalls v @ [t], vm_items := vm_items v @ [ITool t]\<rparr>))"

definition on_reasoning :: "payload \<Rightarrow> run_view \<Rightarrow> run_view" where
  "on_reasoning p v =
     (let full = vm_reasoningText v @ reasoningField p; chunk = \<lparr>rc_text = full, rc_delta = reasoningField p\<rparr>
      in v\<lparr>vm_reasoningText := full, vm_reasoningChunks := vm_reasoningChunks v @ [chunk],
           vm_items := vm_items v @ [IReasoning chunk]\<rparr>)"

definition on_usage :: "payload \<Rightarrow> run_view \<Rightarrow> run_view" where
  "on_usage p v =
     (let u = \<lparr>uv_promptTokens = numField p ''promptTokens'', uv_completionTokens = numField p ''completionTokens'',
               uv_totalTokens = numField p ''totalTokens'', uv_costUsd = numField p ''costUsd'',
               uv_latencyMs = numField p ''latencyMs'', uv_model = strField p ''model'',
               uv_provider = strField p ''provider'', uv_mode = strField p ''mode''\<rparr>
      in v\<lparr>vm_usage := Some u, vm_items := vm_items v @ [IUsage u]\<rparr>)"

definition on_step :: "payload \<Rightarrow> run_view \<Rightarrow> run_view" where
  "on_step p v =
     (let st = \<lparr>st_index = numField p ''index'', st_type = strField p ''type'', st_content = strField p ''content'',
                st_toolName = strField p ''toolName'', st_durationMs = numField p ''durationMs'', st_phase = phaseField p\<rparr>
      in v\<lparr>vm_steps := vm_steps v @ [st], vm_items := vm_items v @ [IStep st]\<rparr>)"

definition on_citation :: "payload \<Rightarrow> int \<Rightarrow> run_view \<Rightarrow> run_view" where
  "on_citation p sq v =
     (let c = \<lparr>cv_id = idField p ''id'' ''citation-'' sq, cv_text = strField p ''text'', cv_source = strField p ''source'',
               cv_url = strField p ''url''\<rparr>
      in if list_ex (\<lambda>x. cv_id x = cv_id c) (vm_citations v) then v
         else v\<lparr>vm_citations := vm_citations v @ [c], vm_items := vm_items v @ [ICitation c]\<rparr>)"

definition on_artifact :: "payload \<Rightarrow> int \<Rightarrow> run_view \<Rightarrow> run_view" where
  "on_artifact p sq v =
     (let a = \<lparr>av_id = idField p ''id'' ''artifact-'' sq, av_type = strField p ''type'', av_title = strField p ''title'',
               av_mimeType = strField p ''mimeType'', av_url = strField p ''url''\<rparr>
      in v\<lparr>vm_artifacts := AList.update (av_id a) a (vm_artifacts v), vm_items := vm_items v @ [IArtifact a]\<rparr>)"

definition on_diagnostic :: "payload \<Rightarrow> run_view \<Rightarrow> run_view" where
  "on_diagnostic p v =
     (let d = \<lparr>dv_channel = nullish (strField p ''channel'') ''unknown'', dv_data = map_of p ''data''\<rparr>
      in v\<lparr>vm_diagnostics := vm_diagnostics v @ [d], vm_items := vm_items v @ [IDiagnostic d]\<rparr>)"

definition on_approval_request :: "payload \<Rightarrow> int \<Rightarrow> run_view \<Rightarrow> run_view" where
  "on_approval_request p sq v =
     (let a = \<lparr>ap_taskId = idField p ''taskId'' ''approval-'' sq, ap_toolName = strField p ''toolName'',
               ap_title = strField p ''title'', ap_description = strField p ''description'',
               ap_riskLevel = strField p ''riskLevel'', ap_actions = arrField p ''actions'', ap_status = ApPending\<rparr>
      in v\<lparr>vm_approvals := (case findIndex (\<lambda>x. ap_taskId x = ap_taskId a) (vm_approvals v) of
               Some i \<Rightarrow> (vm_approvals v)[i := a] | None \<Rightarrow> vm_approvals v @ [a]),
           vm_items := vm_items v @ [IApproval a]\<rparr>)"

definition on_approval_resolved :: "payload \<Rightarrow> run_view \<Rightarrow> run_view" where
  "on_approval_resolved p v =
     (case findIndex (\<lambda>x. ap_taskId x = nullish (strField p ''taskId'') []) (vm_approvals v) of
        Some i \<Rightarrow> v\<lparr>vm_approvals := (vm_approvals v)[i := (vm_approvals v ! i)\<lparr>ap_status := resolution p\<rparr>]\<rparr>
      | None \<Rightarrow> v)"

definition object_text :: "run_view \<Rightarrow> string" where
  "object_text v = (case vm_object v of Some ob \<Rightarrow> ov_text ob | None \<Rightarrow> [])"

definition on_object_delta :: "(string \<Rightarrow> json option) \<Rightarrow> payload \<Rightarrow> run_view \<Rightarrow> run_view" where
  "on_object_delta parse p v =
     (let text = object_text v @ deltaField p
      in v\<lparr>vm_object := Some \<lparr>ov_text = text, ov_partial = parse text, ov_complete = False, ov_value = None\<rparr>\<rparr>)"

definition on_object_complete :: "(string \<Rightarrow> json option) \<Rightarrow> payload \<Rightarrow> run_view \<Rightarrow> run_view" where
  "on_object_complete parse p v =
     (let text = object_text v; val = (case map_of p ''value'' of Some x \<Rightarrow> Some x | None \<Rightarrow> parse text)
      in v\<lparr>vm_object := Some \<lparr>ov_text = text, ov_partial = val, ov_complete = True, ov_value = val\<rparr>\<rparr>)"

definition on_file :: "payload \<Rightarrow> int \<Rightarrow> run_view \<Rightarrow> run_view" where
  "on_file p sq v =
     (let f = file_of p sq in v\<lparr>vm_files := vm_files v @ [f], vm_items := vm_items v @ [IFile f]\<rparr>)"

section \<open>The reducer\<close>

text \<open>The ephemeral events: \<open>None\<close> when the event is not one.\<close>

definition createdAt :: "payload \<Rightarrow> rat" where
  "createdAt c = nullish (numField c ''createdAt'') 0"

text \<open>Replace the entry with the same id, keep the list in order of creation (a stable sort).\<close>

definition upsert_entry :: "payload option \<Rightarrow> payload list \<Rightarrow> payload list" where
  "upsert_entry incoming entries =
     (case incoming of
        None \<Rightarrow> entries
      | Some c \<Rightarrow>
          (case strField c ''id'' of
             None \<Rightarrow> entries
           | Some i \<Rightarrow> sort_key createdAt (filter (\<lambda>x. strField x ''id'' \<noteq> Some i) entries @ [c])))"

definition entryField :: "payload \<Rightarrow> string \<Rightarrow> payload option" where
  "entryField p k = (case map_of p k of Some (JObj c) \<Rightarrow> Some c | _ \<Rightarrow> None)"

definition truthyField :: "payload \<Rightarrow> string \<Rightarrow> string option" where
  "truthyField p k = (case strField p k of Some s \<Rightarrow> if s = [] then None else Some s | None \<Rightarrow> None)"

definition set_resolved :: "string \<Rightarrow> json \<Rightarrow> payload list \<Rightarrow> payload list" where
  "set_resolved thread t cs =
     map (\<lambda>c. if strField c ''threadId'' = Some thread then AList.update ''resolvedAt'' t c else c) cs"

definition ephemeral :: "rat \<Rightarrow> envelope \<Rightarrow> run_view \<Rightarrow> run_view option" where
  "ephemeral now e v =
     (let p = env_payload e in
      case env_kind e of
        PresenceUpdate \<Rightarrow> Some (v\<lparr>vm_presence := nullish (arrField p ''participants'') []\<rparr>)
      | AccessRevoked \<Rightarrow> Some (v\<lparr>vm_accessRevoked := Some (nullish (strField p ''reason'') ''access revoked'')\<rparr>)
      | CommentAdded \<Rightarrow> Some (v\<lparr>vm_comments := upsert_entry (entryField p ''comment'') (vm_comments v)\<rparr>)
      | CommentUpdated \<Rightarrow> Some (v\<lparr>vm_comments := upsert_entry (entryField p ''comment'') (vm_comments v)\<rparr>)
      | CommentDeleted \<Rightarrow> Some (case truthyField p ''id'' of
            Some i \<Rightarrow> v\<lparr>vm_comments := filter (\<lambda>c. strField c ''id'' \<noteq> Some i) (vm_comments v)\<rparr> | None \<Rightarrow> v)
      | CommentResolved \<Rightarrow> Some (case truthyField p ''threadId'' of
            Some t \<Rightarrow> v\<lparr>vm_comments := set_resolved t (JNum (nullish (env_timestamp e) now)) (vm_comments v)\<rparr> | None \<Rightarrow> v)
      | CommentReopened \<Rightarrow> Some (case truthyField p ''threadId'' of
            Some t \<Rightarrow> v\<lparr>vm_comments := set_resolved t JNull (vm_comments v)\<rparr> | None \<Rightarrow> v)
      | HandoffUpdate \<Rightarrow> Some (v\<lparr>vm_handoffs := upsert_entry (entryField p ''handoff'') (vm_handoffs v)\<rparr>)
      | _ \<Rightarrow> None)"

definition reduce_view :: "(string \<Rightarrow> json option) \<Rightarrow> envelope \<Rightarrow> run_view \<Rightarrow> run_view" where
  "reduce_view parse e v =
     (let p = env_payload e; sq = env_sequence e in
      case env_kind e of
        RunStarted \<Rightarrow> on_status Running v
      | RunCompleted \<Rightarrow> on_status Completed v
      | RunFailed \<Rightarrow> on_failed p v
      | RunCancelledEvent \<Rightarrow> on_status RunCancelled v
      | TextDelta \<Rightarrow> on_text p v
      | WidgetUpdate \<Rightarrow> on_widget p sq v
      | ToolInvoked \<Rightarrow> on_tool_invoked p v
      | ToolCompleted \<Rightarrow> on_tool_completed p v
      | ToolErrored \<Rightarrow> on_tool_errored p v
      | ReasoningDelta \<Rightarrow> on_reasoning p v
      | UsageUpdate \<Rightarrow> on_usage p v
      | StepUpdate \<Rightarrow> on_step p v
      | CitationAdd \<Rightarrow> on_citation p sq v
      | ArtifactUpdate \<Rightarrow> on_artifact p sq v
      | Diagnostic \<Rightarrow> on_diagnostic p v
      | ApprovalRequest \<Rightarrow> on_approval_request p sq v
      | ApprovalResolved \<Rightarrow> on_approval_resolved p v
      | ObjectDelta \<Rightarrow> on_object_delta parse p v
      | ObjectComplete \<Rightarrow> on_object_complete parse p v
      | FilePartEvent \<Rightarrow> on_file p sq v
      | _ \<Rightarrow> v)"

definition streamReducer :: "(string \<Rightarrow> json option) \<Rightarrow> rat \<Rightarrow> envelope \<Rightarrow> run_view \<Rightarrow> run_view" where
  "streamReducer parse now e v =
     (case ephemeral now e v of
        Some v' \<Rightarrow> v'
      | None \<Rightarrow>
          if env_sequence e \<le> vm_sequence v then v
          else (let nxt = reduce_view parse e (v\<lparr>vm_sequence := env_sequence e\<rparr>)
                in nxt\<lparr>vm_parts := updateParts parse e (vm_parts nxt)\<rparr>))"

end
