(* ===== verification/ClientProps.thy ===== *)
theory ClientProps
  imports ClientReducer
begin

text \<open>
  What the reducer of \<^verbatim>\<open>packages/client/src/reducer.ts\<close> guarantees: redelivery, the agreement of the parts
  with the flat view, the end of a run, and where the two views part ways.
\<close>

section \<open>Sequence numbers\<close>

definition journaled :: "envelope \<Rightarrow> bool" where
  "journaled e \<longleftrightarrow> env_kind e \<notin> {PresenceUpdate, AccessRevoked, CommentAdded, CommentUpdated, CommentDeleted,
     CommentResolved, CommentReopened, HandoffUpdate}"

lemma ephemeral_None: "ephemeral now e v = None \<longleftrightarrow> journaled e"
  by (cases "env_kind e") (simp_all add: ephemeral_def journaled_def Let_def)

lemma ephemeral_keeps:
  assumes "ephemeral now e v = Some v'"
  shows "vm_sequence v' = vm_sequence v" "vm_parts v' = vm_parts v" "vm_items v' = vm_items v"
    "vm_fullText v' = vm_fullText v" "vm_reasoningText v' = vm_reasoningText v" "vm_status v' = vm_status v"
  using assms by (cases "env_kind e"; auto simp: ephemeral_def Let_def split: option.splits)+

lemma reduce_view_sequence: "vm_sequence (reduce_view parse e v) = vm_sequence v"
  by (cases "env_kind e")
    (simp_all add: reduce_view_def Let_def on_status_def on_failed_def on_text_def on_widget_def on_tool_invoked_def
      on_tool_completed_def on_tool_errored_def on_reasoning_def on_usage_def on_step_def on_citation_def on_artifact_def
      on_diagnostic_def on_approval_request_def on_approval_resolved_def on_object_delta_def on_object_complete_def
      on_file_def split: option.split)

lemma streamReducer_seen: "journaled e \<Longrightarrow> env_sequence e \<le> vm_sequence v \<Longrightarrow> streamReducer parse now e v = v"
  using ephemeral_None [of now e v] by (simp add: streamReducer_def)

lemma streamReducer_sequence:
  "vm_sequence (streamReducer parse now e v) = (if journaled e then max (env_sequence e) (vm_sequence v) else vm_sequence v)"
proof (cases "ephemeral now e v")
  case None
  then show ?thesis
    using ephemeral_None [of now e v] by (simp add: streamReducer_def Let_def reduce_view_sequence)
next
  case (Some v')
  then show ?thesis
    using ephemeral_None [of now e v] ephemeral_keeps(1) [OF Some] by (simp add: streamReducer_def)
qed

definition run_events :: "(string \<Rightarrow> json option) \<Rightarrow> rat \<Rightarrow> envelope list \<Rightarrow> run_view \<Rightarrow> run_view" where
  "run_events parse now es v = fold (streamReducer parse now) es v"

lemma run_events_append: "run_events parse now (es @ fs) v = run_events parse now fs (run_events parse now es v)"
  by (simp add: run_events_def)

lemma run_events_sequence: "e \<in> set es \<Longrightarrow> journaled e \<Longrightarrow> env_sequence e \<le> vm_sequence (run_events parse now es v)"
proof (induction es rule: rev_induct)
  case (snoc x es)
  then show ?case by (auto simp: run_events_append streamReducer_sequence [of parse now x] run_events_def)
qed simp

lemma run_events_seen:
  assumes "\<forall>e\<in>set ds. journaled e \<and> env_sequence e \<le> vm_sequence v"
  shows "run_events parse now ds v = v"
  using assms by (induction ds) (auto simp: run_events_def streamReducer_seen)

section \<open>Text of the parts\<close>

fun part_text :: "run_part \<Rightarrow> string" where
  "part_text (TextPart _ _ t) = t"
| "part_text _ = []"

fun part_reasoning :: "run_part \<Rightarrow> string" where
  "part_reasoning (ReasoningPart _ _ t) = t"
| "part_reasoning _ = []"

text \<open>A reading of the parts that only looks at text and reasoning, whatever their state.\<close>

definition stream_only :: "(run_part \<Rightarrow> string) \<Rightarrow> bool" where
  "stream_only f \<longleftrightarrow> (\<forall>pt. f (finalize_part pt) = f pt) \<and>
     (\<forall>pt. (\<forall>i s t. pt \<noteq> TextPart i s t \<and> pt \<noteq> ReasoningPart i s t) \<longrightarrow> f pt = [])"

lemma stream_only_text: "stream_only part_text"
proof -
  have "part_text (finalize_part pt) = part_text pt" for pt
    by (cases pt rule: part_text.cases) (auto simp: finalize_part_def split: stream_state.split)
  moreover have "part_text pt = []" if "\<forall>i s t. pt \<noteq> TextPart i s t" for pt using that by (cases pt) auto
  ultimately show ?thesis by (auto simp: stream_only_def)
qed

lemma stream_only_reasoning: "stream_only part_reasoning"
proof -
  have "part_reasoning (finalize_part pt) = part_reasoning pt" for pt
    by (cases pt rule: part_reasoning.cases) (auto simp: finalize_part_def split: stream_state.split)
  moreover have "part_reasoning pt = []" if "\<forall>i s t. pt \<noteq> ReasoningPart i s t" for pt using that by (cases pt) auto
  ultimately show ?thesis by (auto simp: stream_only_def)
qed

lemma stream_onlyD:
  assumes "stream_only f"
  shows "f (ToolPart a) = []" "f (StepPart b) = []" "f (WidgetPart c) = []" "f (ArtifactPart d) = []"
    "f (CitationPart g) = []" "f (ApprovalPart h) = []" "f (ObjectPart k) = []" "f (FilePart m) = []"
    "f (finalize_part pt) = f pt"
  using assms by (auto simp: stream_only_def)

definition texts :: "(run_part \<Rightarrow> string) \<Rightarrow> run_part list \<Rightarrow> string" where
  "texts f parts = concat (map f parts)"

lemma texts_append [simp]: "texts f (xs @ ys) = texts f xs @ texts f ys"
  by (simp add: texts_def)

lemma texts_one [simp]: "texts f [x] = f x" "texts f [] = []"
  by (simp_all add: texts_def)

lemma texts_update:
  assumes "f y = f (xs ! i)"
  shows "texts f (xs[i := y]) = texts f xs"
proof (cases "i < length xs")
  case True
  then have "map f (xs[i := y]) = map f xs" using assms by (simp add: map_update list_update_same_conv)
  then show ?thesis by (simp add: texts_def)
qed (simp add: list_update_beyond)

lemma map_tool_stream: "stream_only f \<Longrightarrow> f (map_tool g pt) = f pt"
  by (cases pt) (simp_all add: map_tool_def stream_onlyD)

lemma upsert_stream:
  assumes "stream_only f" "\<forall>i s t. pt \<noteq> TextPart i s t \<and> pt \<noteq> ReasoningPart i s t"
    "\<And>x. P x \<Longrightarrow> \<forall>i s t. x \<noteq> TextPart i s t \<and> x \<noteq> ReasoningPart i s t"
  shows "texts f (upsert_part P pt parts) = texts f parts"
proof -
  have f: "f pt = []" using assms(1,2) by (simp add: stream_only_def)
  show ?thesis
  proof (cases "findIndex P parts")
    case None
    with f show ?thesis by (simp add: upsert_part_def)
  next
    case (Some i)
    then have "P (parts ! i)" by (simp add: findIndex_SomeD)
    then have "f (parts ! i) = []" using assms(1,3) by (simp add: stream_only_def)
    with Some f show ?thesis by (simp add: upsert_part_def texts_update)
  qed
qed

lemmas part_defs = part_tool_input_start_def part_tool_input_delta_def part_tool_invoked_def part_tool_completed_def
  part_tool_errored_def part_step_def part_citation_def part_approval_request_def

lemma texts_tool:
  assumes "stream_only f"
  shows "texts f (part_tool_input_start p sq parts) = texts f parts"
    "texts f (part_tool_input_delta p parts) = texts f parts"
    "texts f (part_tool_invoked p sq parts) = texts f parts"
    "texts f (part_tool_completed p sq parts) = texts f parts"
    "texts f (part_tool_errored p sq parts) = texts f parts"
    "texts f (part_citation p sq parts) = texts f parts"
  using assms
  by (simp_all add: part_defs Let_def texts_update map_tool_stream stream_onlyD split: option.split)

lemma texts_widget: "stream_only f \<Longrightarrow> texts f (part_widget p sq parts) = texts f parts"
  unfolding part_widget_def Let_def by (rule upsert_stream) (auto split: run_part.splits)

lemma texts_artifact: "stream_only f \<Longrightarrow> texts f (part_artifact p sq parts) = texts f parts"
  unfolding part_artifact_def Let_def by (rule upsert_stream) (auto split: run_part.splits)

lemma texts_approval:
  assumes "stream_only f"
  shows "texts f (part_approval_resolved p parts) = texts f parts"
proof -
  have "texts f (parts[i := (case parts ! i of ApprovalPart a \<Rightarrow> ApprovalPart (a\<lparr>app_state := st\<rparr>) | pt \<Rightarrow> pt)]) = texts f parts"
    for i st
    by (rule texts_update) (use assms in \<open>cases "parts ! i"; simp add: stream_onlyD\<close>)
  then show ?thesis unfolding part_approval_resolved_def by (auto split: option.split)
qed

lemma texts_object_complete:
  assumes "stream_only f"
  shows "texts f (part_object_complete parse p sq parts) = texts f parts"
proof -
  have "texts f (parts[i := (case parts ! i of
      ObjectPart ob \<Rightarrow>
        (let v = (case map_of p ''value'' of Some v \<Rightarrow> Some v | None \<Rightarrow> parse (op_text ob))
         in ObjectPart (ob\<lparr>op_state := Done, op_value := v, op_partial := v\<rparr>))
    | pt \<Rightarrow> pt)]) = texts f parts" for i
    by (rule texts_update) (use assms in \<open>cases "parts ! i"; simp add: stream_onlyD Let_def\<close>)
  then show ?thesis
    using assms unfolding part_object_complete_def by (auto simp: stream_onlyD split: option.split)
qed

lemma texts_last: "parts \<noteq> [] \<Longrightarrow> texts f parts = texts f (butlast parts) @ f (last parts)"
  by (metis append_butlast_last_id texts_append texts_one(1))

lemma texts_object_delta:
  assumes "stream_only f"
  shows "texts f (part_object_delta parse p sq parts) = texts f parts"
proof (cases "parts = []")
  case False
  then show ?thesis
    using assms texts_last [OF False, of f]
    by (auto simp: part_object_delta_def Let_def stream_onlyD split: run_part.split)
qed (use assms in \<open>simp add: part_object_delta_def stream_onlyD\<close>)

lemma texts_finalize: "stream_only f \<Longrightarrow> texts f (finalizeStreamingParts parts) = texts f parts"
  by (simp add: texts_def finalizeStreamingParts_def stream_onlyD comp_def)

lemma texts_appendStream:
  "texts part_text (appendStreamPart b delta sq parts) = texts part_text parts @ (if b then delta else [])"
  "texts part_reasoning (appendStreamPart b delta sq parts) = texts part_reasoning parts @ (if b then [] else delta)"
  using texts_last [of parts part_text] texts_last [of parts part_reasoning]
  by (auto simp: appendStreamPart_def is_text_part_def split: run_part.splits stream_state.splits)

lemma texts_updateParts:
  "texts part_text (updateParts parse e parts) =
     texts part_text parts @ (if env_kind e = TextDelta then deltaField (env_payload e) else [])"
  "texts part_reasoning (updateParts parse e parts) =
     texts part_reasoning parts @ (if env_kind e = ReasoningDelta then reasoningField (env_payload e) else [])"
  by (cases "env_kind e";
      simp add: updateParts_def Let_def texts_appendStream part_step_def part_approval_request_def stream_only_text
        stream_only_reasoning texts_tool texts_widget texts_artifact texts_approval texts_object_complete
        texts_object_delta texts_finalize)+

lemma reduce_view_texts:
  "vm_fullText (reduce_view parse e v) = vm_fullText v @ (if env_kind e = TextDelta then deltaField (env_payload e) else [])"
  "vm_reasoningText (reduce_view parse e v) =
     vm_reasoningText v @ (if env_kind e = ReasoningDelta then reasoningField (env_payload e) else [])"
  "vm_parts (reduce_view parse e v) = vm_parts v"
  by (cases "env_kind e";
      simp add: reduce_view_def Let_def on_status_def on_failed_def on_text_def on_widget_def on_tool_invoked_def
        on_tool_completed_def on_tool_errored_def on_reasoning_def on_usage_def on_step_def on_citation_def on_artifact_def
        on_diagnostic_def on_approval_request_def on_approval_resolved_def on_object_delta_def on_object_complete_def
        on_file_def split: option.split)+

definition agree :: "run_view \<Rightarrow> bool" where
  "agree v \<longleftrightarrow> texts part_text (vm_parts v) = vm_fullText v \<and> texts part_reasoning (vm_parts v) = vm_reasoningText v"

lemma agree_step: "agree v \<Longrightarrow> agree (streamReducer parse now e v)"
proof (cases "ephemeral now e v")
  case None
  assume "agree v"
  with None show ?thesis
    by (simp add: agree_def streamReducer_def Let_def texts_updateParts reduce_view_texts)
next
  case (Some v')
  assume "agree v"
  with Some ephemeral_keeps(2,4,5) [OF Some] show ?thesis by (simp add: agree_def streamReducer_def)
qed

section \<open>Properties\<close>

text \<open>
  delivery is exactly-once in effect: on a run whose journaled events were received, receiving any
  of them again, in any order and any number of times (a reconnecting client replays the journal from an
  earlier point), changes nothing.
\<close>

theorem redelivery_idempotent:
  assumes "\<forall>d\<in>set ds. journaled d \<and> d \<in> set es"
  shows "run_events parse now (es @ ds) v = run_events parse now es v"
  using assms run_events_seen [of ds "run_events parse now es v"] run_events_sequence [of _ es]
  by (simp add: run_events_append)

definition text_event :: "int \<Rightarrow> string \<Rightarrow> envelope" where
  "text_event sq d = \<lparr>env_runId = ''r'', env_sequence = sq, env_kind = TextDelta, env_payload = [(''delta'', JStr d)],
     env_timestamp = None\<rparr>"

lemma redelivery_idempotent_witness:
  "vm_fullText (run_events (\<lambda>_. None) 0 ([text_event 0 ''a'', text_event 1 ''b''] @ [text_event 0 ''a'', text_event 1 ''b''])
     emptyRunViewModel) = ''ab''"
proof -
  have "run_events (\<lambda>_. None) 0 ([text_event 0 ''a'', text_event 1 ''b''] @ [text_event 0 ''a'', text_event 1 ''b'']) emptyRunViewModel =
      run_events (\<lambda>_. None) 0 [text_event 0 ''a'', text_event 1 ''b''] emptyRunViewModel"
    by (rule redelivery_idempotent) (simp add: journaled_def text_event_def)
  moreover have "vm_fullText (run_events (\<lambda>_. None) 0 [text_event 0 ''a'', text_event 1 ''b''] emptyRunViewModel) = ''ab''"
    by code_simp
  ultimately show ?thesis by simp
qed

text \<open>
  the parts and the flat view never disagree on what was said: whatever events arrive, in whatever
  order, the text parts joined are the full text and the reasoning parts joined are the reasoning text.
\<close>

theorem parts_agree:
  "texts part_text (vm_parts (run_events parse now es emptyRunViewModel)) = vm_fullText (run_events parse now es emptyRunViewModel) \<and>
   texts part_reasoning (vm_parts (run_events parse now es emptyRunViewModel)) = vm_reasoningText (run_events parse now es emptyRunViewModel)"
proof -
  have "agree (run_events parse now es v)" if "agree v" for v
    using that by (induction es arbitrary: v) (auto simp: run_events_def agree_step)
  moreover have "agree emptyRunViewModel" by (simp add: agree_def emptyRunViewModel_def)
  ultimately show ?thesis by (simp add: agree_def)
qed

definition streaming :: "run_part \<Rightarrow> bool" where
  "streaming pt = (case pt of TextPart _ st _ \<Rightarrow> st = Streaming | ReasoningPart _ st _ \<Rightarrow> st = Streaming
     | ObjectPart ob \<Rightarrow> op_state ob = Streaming | _ \<Rightarrow> False)"

text \<open>
  a run that ends leaves nothing streaming: after its terminal event is applied no text, reasoning
  or object part is in the streaming state, and an object that was cut off has its best-effort value.
\<close>
theorem terminal_finalizes:
  assumes "env_kind e \<in> {RunCompleted, RunFailed, RunCancelledEvent}" "vm_sequence v < env_sequence e"
  shows "\<not> list_ex streaming (vm_parts (streamReducer parse now e v)) \<and>
    vm_status (streamReducer parse now e v) \<in> {Completed, Failed, RunCancelled}"
proof -
  have "ephemeral now e v = None" using assms(1) by (auto simp: ephemeral_None journaled_def)
  then have red: "vm_parts (streamReducer parse now e v) = map finalize_part (vm_parts v)"
    using assms by (auto simp: streamReducer_def Let_def reduce_view_texts updateParts_def finalizeStreamingParts_def)
  have "\<not> streaming (finalize_part pt)" for pt
  proof (cases pt)
    case (TextPart i s t)
    then show ?thesis by (cases s) (simp_all add: streaming_def finalize_part_def)
  next
    case (ReasoningPart i s t)
    then show ?thesis by (cases s) (simp_all add: streaming_def finalize_part_def)
  next
    case (ObjectPart ob)
    then show ?thesis by (cases "op_state ob") (simp_all add: streaming_def finalize_part_def)
  qed (simp_all add: streaming_def finalize_part_def)
  then have "\<not> list_ex streaming (map finalize_part (vm_parts v))" by (simp add: list_ex_iff)
  then show ?thesis
    unfolding red using assms \<open>ephemeral now e v = None\<close>
    by (auto simp: streamReducer_def Let_def reduce_view_def on_status_def on_failed_def)
qed

lemma terminal_finalizes_witness:
  "\<not> list_ex streaming (vm_parts (streamReducer (\<lambda>_. None) 0
     \<lparr>env_runId = ''r'', env_sequence = 5, env_kind = RunCompleted, env_payload = [], env_timestamp = None\<rparr>
     (run_events (\<lambda>_. None) 0 [text_event 0 ''a''] emptyRunViewModel)))"
proof -
  have "vm_sequence (run_events (\<lambda>_. None) 0 [text_event 0 ''a''] emptyRunViewModel) < 5" by code_simp
  then show ?thesis using terminal_finalizes [of "\<lparr>env_runId = ''r'', env_sequence = 5, env_kind = RunCompleted,
      env_payload = [], env_timestamp = None\<rparr>" "run_events (\<lambda>_. None) 0 [text_event 0 ''a''] emptyRunViewModel"] by simp
qed

definition tool_event :: "int \<Rightarrow> event_kind \<Rightarrow> string \<Rightarrow> payload \<Rightarrow> envelope" where
  "tool_event sq k c rest = \<lparr>env_runId = ''r'', env_sequence = sq, env_kind = k,
     env_payload = [(''tool'', JStr ''search''), (''toolCallId'', JStr c)] @ rest, env_timestamp = None\<rparr>"

definition two_searches :: "envelope list" where
  "two_searches = [tool_event 0 ToolInvoked ''c1'' [], tool_event 1 ToolInvoked ''c2'' [],
     tool_event 2 ToolCompleted ''c1'' [(''result'', JStr ''one'')], tool_event 3 ToolCompleted ''c2'' [(''result'', JStr ''two'')]]"

text \<open>
  the flat list of tool calls pairs completions by tool name alone, not with the pending call: of two
  calls of one tool, both results land on the second, the first result is lost and the first call never
  completes, while the parts keep both apart by call id.
\<close>
theorem tool_results_misattributed:
  "map tl_result (vm_toolCalls (run_events parse now two_searches emptyRunViewModel)) = [None, Some (JStr ''two'')] \<and>
   map (\<lambda>pt. case pt of ToolPart t \<Rightarrow> tp_result t | _ \<Rightarrow> None) (vm_parts (run_events parse now two_searches emptyRunViewModel)) =
     [Some (JStr ''one''), Some (JStr ''two'')]"
  by (simp add: run_events_def two_searches_def tool_event_def streamReducer_def ephemeral_def reduce_view_def updateParts_def
      on_tool_invoked_def on_tool_completed_def part_tool_invoked_def part_tool_completed_def findToolPartIdx_def lastIndex_def
      new_tool_def map_tool_def idField_def strField_def objField_def emptyRunViewModel_def Let_def)

definition approval_event :: "int \<Rightarrow> event_kind \<Rightarrow> payload \<Rightarrow> envelope" where
  "approval_event sq k rest = \<lparr>env_runId = ''r'', env_sequence = sq, env_kind = k,
     env_payload = (''taskId'', JStr ''t1'') # rest, env_timestamp = None\<rparr>"

text \<open>
  asking for approval of one task twice leaves a stale request in the parts: the flat view replaces the
  pending approval, the parts add a second one, and the decision resolves only the first.
\<close>
theorem repeated_approval_stays_open:
  "map ap_status (vm_approvals (run_events parse now [approval_event 0 ApprovalRequest [], approval_event 1 ApprovalRequest [],
     approval_event 2 ApprovalResolved [(''action'', JStr ''approve'')]] emptyRunViewModel)) = [ApApproved] \<and>
   map (\<lambda>pt. case pt of ApprovalPart a \<Rightarrow> app_state a | _ \<Rightarrow> ApDenied)
     (vm_parts (run_events parse now [approval_event 0 ApprovalRequest [], approval_event 1 ApprovalRequest [],
     approval_event 2 ApprovalResolved [(''action'', JStr ''approve'')]] emptyRunViewModel)) = [ApApproved, ApPending]"
  by (simp add: run_events_def approval_event_def streamReducer_def ephemeral_def reduce_view_def updateParts_def
      on_approval_request_def on_approval_resolved_def part_approval_request_def part_approval_resolved_def findIndex_def
      resolution_def idField_def strField_def numField_def arrField_def emptyRunViewModel_def Let_def)

end
