(* ===== verification/CacheStore.thy ===== *)
theory CacheStore
  imports Json
begin

text \<open>
  The in-memory cache store, \<^verbatim>\<open>weaveInMemoryCacheStore\<close> of \<^verbatim>\<open>packages/cache/src/store.ts\<close>: entries with a
  time to live, bounded by a number of entries and by bytes, with five eviction policies. The closure's
  variables are the record \<open>cache\<close>. Every operation reads the clock at most once here, as an argument; the
  length of \<^verbatim>\<open>JSON.stringify(value)\<close> and the recompute cost are arguments (\<open>None\<close> where they throw; for the
  cost also where it is not finite). A miss is the JSON value \<^verbatim>\<open>null\<close>, as in the code. The loops that evict
  until the caps hold might not end, so they are partial functions.
\<close>

section \<open>Data\<close>

datatype evict_reason = ByCapacity | ByBytes | ByTtl | Manually

datatype evict_policy = Lru | Lfu | Fifo | TinyLfu | Gdsf

record cache_opts =
  co_maxEntries :: "int option"
  co_maxBytes :: "int option"
  co_policy :: "evict_policy option"
  co_sizeOf :: "json \<Rightarrow> nat option"
  co_costOf :: "(json \<Rightarrow> rat option) option"

record cache_entry =
  ce_value :: json
  ce_expiresAt :: "int option"
  ce_freq :: nat
  ce_bytes :: nat
  ce_lastAccess :: nat
  ce_cost :: rat
  ce_scope :: "string option"

type_synonym cache_map = "(string \<times> cache_entry) list"

record cache =
  ca_data :: cache_map
  ca_bytes :: int
  ca_tick :: nat
  ca_clock :: rat
  ca_evicted :: "(string \<times> evict_reason) list"

definition DEFAULT_CACHE_MAX_ENTRIES :: int where
  "DEFAULT_CACHE_MAX_ENTRIES = 10000"

definition maxEntries :: "cache_opts \<Rightarrow> int" where
  "maxEntries opts = nullish (co_maxEntries opts) DEFAULT_CACHE_MAX_ENTRIES"

definition maxBytes :: "cache_opts \<Rightarrow> int" where
  "maxBytes opts = nullish (co_maxBytes opts) 0"

definition policyOf :: "cache_opts \<Rightarrow> evict_policy" where
  "policyOf opts = nullish (co_policy opts) Lru"

definition new_cache :: cache where
  "new_cache = \<lparr>ca_data = [], ca_bytes = 0, ca_tick = 0, ca_clock = 0, ca_evicted = []\<rparr>"

definition estimateBytes :: "cache_opts \<Rightarrow> string \<Rightarrow> json \<Rightarrow> nat" where
  "estimateBytes opts k v = length k + (case co_sizeOf opts v of None \<Rightarrow> 64 | Some n \<Rightarrow> n) + 32"

definition costWeight :: "cache_opts \<Rightarrow> json \<Rightarrow> rat" where
  "costWeight opts v =
     (case co_costOf opts of
        None \<Rightarrow> 1
      | Some f \<Rightarrow> (case f v of None \<Rightarrow> 1 | Some c \<Rightarrow> if c > 0 then c else 1))"

section \<open>Removing entries\<close>

definition past :: "int \<Rightarrow> int option \<Rightarrow> bool" where
  "past now x \<longleftrightarrow> (case x of None \<Rightarrow> False | Some t \<Rightarrow> now > t)"

definition isExpired :: "int \<Rightarrow> cache_entry \<Rightarrow> bool" where
  "isExpired now e \<longleftrightarrow> past now (ce_expiresAt e)"

definition removeEntry :: "string \<Rightarrow> cache_entry \<Rightarrow> evict_reason \<Rightarrow> cache \<Rightarrow> cache" where
  "removeEntry k e r c =
     c\<lparr>ca_data := AList.delete k (ca_data c),
       ca_bytes := (if ca_bytes c - int (ce_bytes e) < 0 then 0 else ca_bytes c - int (ce_bytes e)),
       ca_evicted := ca_evicted c @ [(k, r)]\<rparr>"

text \<open>A loop over the map that removes the entries a test picks.\<close>

fun remove_where :: "(string \<Rightarrow> cache_entry \<Rightarrow> bool) \<Rightarrow> evict_reason \<Rightarrow> cache_map \<Rightarrow> cache \<Rightarrow> cache" where
  "remove_where P r [] c = c"
| "remove_where P r ((k, e) # xs) c = remove_where P r xs (if P k e then removeEntry k e r c else c)"

definition pruneExpired :: "int \<Rightarrow> cache \<Rightarrow> cache" where
  "pruneExpired now c = remove_where (\<lambda>_ e. isExpired now e) ByTtl (ca_data c) c"

section \<open>Eviction\<close>

fun lfu_victim :: "cache_map \<Rightarrow> (nat \<times> string) option \<Rightarrow> string option" where
  "lfu_victim [] best = map_option snd best"
| "lfu_victim ((k, e) # xs) best =
     lfu_victim xs (case best of
         None \<Rightarrow> Some (ce_freq e, k)
       | Some (f, _) \<Rightarrow> if ce_freq e < f then Some (ce_freq e, k) else best)"

fun tinylfu_victim :: "cache_map \<Rightarrow> (nat \<times> nat \<times> string) option \<Rightarrow> string option" where
  "tinylfu_victim [] best = map_option (\<lambda>(_, _, k). k) best"
| "tinylfu_victim ((k, e) # xs) best =
     tinylfu_victim xs (case best of
         None \<Rightarrow> Some (ce_freq e, ce_lastAccess e, k)
       | Some (f, a, _) \<Rightarrow> if ce_freq e < f \<or> (ce_freq e = f \<and> ce_lastAccess e < a)
           then Some (ce_freq e, ce_lastAccess e, k) else best)"

definition gdsfPriority :: "rat \<Rightarrow> cache_entry \<Rightarrow> rat" where
  "gdsfPriority clk e = clk + of_nat (ce_freq e) * ce_cost e / of_nat (max 1 (ce_bytes e))"

fun gdsf_victim :: "rat \<Rightarrow> cache_map \<Rightarrow> (rat \<times> string) option \<Rightarrow> (rat \<times> string) option" where
  "gdsf_victim clk [] best = best"
| "gdsf_victim clk ((k, e) # xs) best =
     gdsf_victim clk xs (case best of
         None \<Rightarrow> Some (gdsfPriority clk e, k)
       | Some (h, _) \<Rightarrow> if gdsfPriority clk e < h then Some (gdsfPriority clk e, k) else best)"

definition pick_victim :: "evict_policy \<Rightarrow> cache \<Rightarrow> string option \<times> rat" where
  "pick_victim pol c =
     (case pol of
        Lfu \<Rightarrow> (lfu_victim (ca_data c) None, ca_clock c)
      | TinyLfu \<Rightarrow> (tinylfu_victim (ca_data c) None, ca_clock c)
      | Gdsf \<Rightarrow> (case gdsf_victim (ca_clock c) (ca_data c) None of
                   None \<Rightarrow> (None, ca_clock c)
                 | Some (h, k) \<Rightarrow> (Some k, h))
      | _ \<Rightarrow> (case ca_data c of [] \<Rightarrow> None | (k, _) # _ \<Rightarrow> Some k, ca_clock c))"

definition evictOne :: "evict_policy \<Rightarrow> evict_reason \<Rightarrow> cache \<Rightarrow> cache" where
  "evictOne pol r c =
     (if ca_data c = [] then c
      else let (victim, clk) = pick_victim pol c; c1 = c\<lparr>ca_clock := clk\<rparr>
        in case victim of
            None \<Rightarrow> c1
          | Some k \<Rightarrow> (case map_of (ca_data c1) k of None \<Rightarrow> c1 | Some e \<Rightarrow> removeEntry k e r c1))"

partial_function (option) evict_entries :: "evict_policy \<Rightarrow> int \<Rightarrow> cache \<Rightarrow> cache option" where
  [code]: "evict_entries pol n c =
     (if int (length (ca_data c)) > n then evict_entries pol n (evictOne pol ByCapacity c) else Some c)"

partial_function (option) evict_bytes :: "evict_policy \<Rightarrow> int \<Rightarrow> cache \<Rightarrow> cache option" where
  [code]: "evict_bytes pol n c =
     (if ca_bytes c > n \<and> ca_data c \<noteq> [] then evict_bytes pol n (evictOne pol ByBytes c) else Some c)"

definition enforceCapacity :: "cache_opts \<Rightarrow> int \<Rightarrow> cache \<Rightarrow> cache option" where
  "enforceCapacity opts now c =
     (let overEntries = maxEntries opts > 0 \<and> int (length (ca_data c)) > maxEntries opts;
          overBytes = maxBytes opts > 0 \<and> ca_bytes c > maxBytes opts;
          c1 = (if overEntries \<or> overBytes then pruneExpired now c else c)
      in Option.bind (if maxEntries opts > 0 then evict_entries (policyOf opts) (maxEntries opts) c1 else Some c1)
           (\<lambda>c2. if maxBytes opts > 0 then evict_bytes (policyOf opts) (maxBytes opts) c2 else Some c2))"

definition touchEntry :: "cache_opts \<Rightarrow> string \<Rightarrow> cache_entry \<Rightarrow> cache \<Rightarrow> cache" where
  "touchEntry opts k e c =
     (let e' = e\<lparr>ce_freq := ce_freq e + 1, ce_lastAccess := ca_tick c + 1\<rparr>
      in c\<lparr>ca_tick := ca_tick c + 1,
           ca_data := AList.update k e' (if policyOf opts = Lru then AList.delete k (ca_data c) else ca_data c)\<rparr>)"

section \<open>Operations\<close>

definition cacheGet :: "cache_opts \<Rightarrow> int \<Rightarrow> string \<Rightarrow> cache \<Rightarrow> json \<times> cache" where
  "cacheGet opts now k c =
     (case map_of (ca_data c) k of
        None \<Rightarrow> (JNull, c)
      | Some e \<Rightarrow> if isExpired now e then (JNull, removeEntry k e ByTtl c) else (ce_value e, touchEntry opts k e c))"

definition expiry :: "int \<Rightarrow> int option \<Rightarrow> int option" where
  "expiry now ttl = (case ttl of None \<Rightarrow> None | Some t \<Rightarrow> if t = 0 then None else Some (now + t))"

definition put_entry :: "cache_opts \<Rightarrow> int \<Rightarrow> string \<Rightarrow> json \<Rightarrow> int option \<Rightarrow> cache \<Rightarrow> cache" where
  "put_entry opts now k v ttl c =
     (let existing = map_of (ca_data c) k;
          bytes = estimateBytes opts k v;
          c1 = (case existing of None \<Rightarrow> c
                | Some e \<Rightarrow> c\<lparr>ca_bytes := ca_bytes c - int (ce_bytes e), ca_data := AList.delete k (ca_data c)\<rparr>);
          entry = \<lparr>ce_value = v, ce_expiresAt = expiry now ttl,
            ce_freq = (case existing of None \<Rightarrow> 1 | Some e \<Rightarrow> ce_freq e + 1), ce_bytes = bytes,
            ce_lastAccess = ca_tick c1 + 1, ce_cost = costWeight opts v, ce_scope = None\<rparr>
      in c1\<lparr>ca_tick := ca_tick c1 + 1, ca_data := AList.update k entry (ca_data c1), ca_bytes := ca_bytes c1 + int bytes\<rparr>)"

definition cacheSet :: "cache_opts \<Rightarrow> int \<Rightarrow> string \<Rightarrow> json \<Rightarrow> int option \<Rightarrow> cache \<Rightarrow> cache option" where
  "cacheSet opts now k v ttl c = enforceCapacity opts now (put_entry opts now k v ttl c)"

definition cacheDelete :: "string \<Rightarrow> cache \<Rightarrow> cache" where
  "cacheDelete k c = (case map_of (ca_data c) k of None \<Rightarrow> c | Some e \<Rightarrow> removeEntry k e Manually c)"

definition cacheHas :: "int \<Rightarrow> string \<Rightarrow> cache \<Rightarrow> bool \<times> cache" where
  "cacheHas now k c =
     (case map_of (ca_data c) k of
        None \<Rightarrow> (False, c)
      | Some e \<Rightarrow> if isExpired now e then (False, removeEntry k e ByTtl c) else (True, c))"

definition cacheClear :: "string option \<Rightarrow> cache \<Rightarrow> cache" where
  "cacheClear scope c =
     (if nullish scope [] = [] then c\<lparr>ca_data := [], ca_bytes := 0\<rparr>
      else remove_where (\<lambda>k e. ce_scope e = scope \<or> starts_with (nullish scope [] @ '':'') k) Manually (ca_data c) c)"

definition cacheSize :: "int \<Rightarrow> cache \<Rightarrow> nat \<times> cache" where
  "cacheSize now c = (let c1 = pruneExpired now c in (length (ca_data c1), c1))"

definition cacheKeys :: "int \<Rightarrow> string option \<Rightarrow> cache \<Rightarrow> string list \<times> cache" where
  "cacheKeys now p c =
     (let c1 = pruneExpired now c
      in (filter (\<lambda>k. nullish p [] = [] \<or> starts_with (nullish p []) k) (keys_of (ca_data c1)), c1))"

definition deleteByPrefix :: "string \<Rightarrow> cache \<Rightarrow> nat \<times> cache" where
  "deleteByPrefix p c =
     (length (filter (\<lambda>(k, e). starts_with p k) (ca_data c)),
      remove_where (\<lambda>k e. starts_with p k) Manually (ca_data c) c)"

section \<open>Histories\<close>

datatype cache_op =
    OpGet int string
  | OpSet int string json "int option"
  | OpDelete string
  | OpHas int string
  | OpClear "string option"
  | OpSize int
  | OpKeys int "string option"
  | OpDeleteByPrefix string

fun cache_step :: "cache_opts \<Rightarrow> cache_op \<Rightarrow> cache \<Rightarrow> cache option" where
  "cache_step opts (OpGet now k) c = Some (snd (cacheGet opts now k c))"
| "cache_step opts (OpSet now k v ttl) c = cacheSet opts now k v ttl c"
| "cache_step opts (OpDelete k) c = Some (cacheDelete k c)"
| "cache_step opts (OpHas now k) c = Some (snd (cacheHas now k c))"
| "cache_step opts (OpClear scope) c = Some (cacheClear scope c)"
| "cache_step opts (OpSize now) c = Some (snd (cacheSize now c))"
| "cache_step opts (OpKeys now p) c = Some (snd (cacheKeys now p c))"
| "cache_step opts (OpDeleteByPrefix p) c = Some (snd (deleteByPrefix p c))"

definition cache_run :: "cache_opts \<Rightarrow> cache_op list \<Rightarrow> cache option" where
  "cache_run opts ops = foldl (\<lambda>c op. Option.bind c (cache_step opts op)) (Some new_cache) ops"

end
