(* ===== verification/CacheProps.thy ===== *)
theory CacheProps
  imports CacheStore
begin

text \<open>
  What the in-memory cache promises after any history of operations: the caps hold and the byte count is
  right, the loops that evict end, a hit is the value last written, and the policy \<^verbatim>\<open>lru\<close> gives up the key
  used longest ago.
\<close>

section \<open>Removing\<close>

definition entry_bytes :: "cache_map \<Rightarrow> int" where
  "entry_bytes m = (\<Sum>(k, e)\<leftarrow>m. int (ce_bytes e))"

lemma entry_bytes_simps [simp]: "entry_bytes [] = 0" "entry_bytes ((k, e) # m) = int (ce_bytes e) + entry_bytes m"
  "entry_bytes (xs @ ys) = entry_bytes xs + entry_bytes ys"
  by (simp_all add: entry_bytes_def)

lemma entry_bytes_nonneg: "0 \<le> entry_bytes m"
  by (induction m) auto

lemma entry_bytes_delete:
  "wf_map m \<Longrightarrow> map_of m k = Some e \<Longrightarrow> entry_bytes (AList.delete k m) = entry_bytes m - int (ce_bytes e)"
proof (induction m)
  case (Cons p m)
  obtain j d where p: "p = (j, d)" by (cases p)
  show ?case
  proof (cases "j = k")
    case True
    with Cons.prems p have "k \<notin> set (keys_of m)" "d = e" by auto
    with p True show ?thesis by (simp add: delete_idem)
  next
    case False
    with Cons p show ?thesis by simp
  qed
qed simp

definition cache_ok :: "cache \<Rightarrow> bool" where
  "cache_ok c \<longleftrightarrow> wf_map (ca_data c) \<and> ca_bytes c = entry_bytes (ca_data c)"

definition removal_closed :: "(cache \<Rightarrow> bool) \<Rightarrow> bool" where
  "removal_closed I \<longleftrightarrow>
     (\<forall>c k e r clk. I c \<longrightarrow> map_of (ca_data c) k = Some e \<longrightarrow> I (removeEntry k e r (c\<lparr>ca_clock := clk\<rparr>)))"

lemma removal_closedD: "removal_closed I \<Longrightarrow> I c \<Longrightarrow> map_of (ca_data c) k = Some e \<Longrightarrow> I (removeEntry k e r c)"
  unfolding removal_closed_def by (drule spec [of _ c], drule spec [of _ k], drule spec [of _ e], drule spec [of _ r],
    drule spec [of _ "ca_clock c"]) simp

lemma removal_closed_clock:
  "removal_closed I \<Longrightarrow> I c \<Longrightarrow> map_of (ca_data c) k = Some e \<Longrightarrow> I (removeEntry k e r (c\<lparr>ca_clock := clk\<rparr>))"
  by (simp add: removal_closed_def)

lemma removed_data [simp]: "ca_data (removeEntry k e r c) = AList.delete k (ca_data c)"
  by (simp add: removeEntry_def)

lemma removed_bytes:
  assumes "cache_ok c" "map_of (ca_data c) k = Some e"
  shows "ca_bytes (removeEntry k e r c) = ca_bytes c - int (ce_bytes e)"
proof -
  have "0 \<le> ca_bytes c - int (ce_bytes e)"
    using assms entry_bytes_delete [of "ca_data c" k e] entry_bytes_nonneg [of "AList.delete k (ca_data c)"]
    by (simp add: cache_ok_def)
  then show ?thesis by (simp add: removeEntry_def)
qed

lemma cache_ok_closed: "removal_closed cache_ok"
proof -
  have "cache_ok (removeEntry k e r (c\<lparr>ca_clock := clk\<rparr>))" if "cache_ok c" "map_of (ca_data c) k = Some e" for c k e r clk
  proof -
    have "cache_ok (c\<lparr>ca_clock := clk\<rparr>)" "map_of (ca_data (c\<lparr>ca_clock := clk\<rparr>)) k = Some e" using that by (simp_all add: cache_ok_def)
    with removed_bytes [OF this] show ?thesis by (simp add: cache_ok_def entry_bytes_delete)
  qed
  then show ?thesis by (simp add: removal_closed_def)
qed

lemma remove_where_keeps:
  assumes "removal_closed I" "I c" "wf_map xs" "\<forall>(k, e)\<in>set xs. map_of (ca_data c) k = Some e"
  shows "I (remove_where P r xs c)"
  using assms(2-4)
proof (induction P r xs c rule: remove_where.induct)
  case (2 P r k e xs c)
  let ?c = "if P k e then removeEntry k e r c else c"
  have "I ?c" using 2(2,4) removal_closedD [OF assms(1)] by simp
  moreover have "\<forall>(j, d)\<in>set xs. map_of (ca_data ?c) j = Some d" using 2(3,4) by force
  ultimately show ?case using 2(1,3) by simp
qed simp

lemma remove_where_map:
  assumes "wf_map xs"
  shows "map_of (ca_data (remove_where P r xs c)) j =
    (case map_of xs j of Some e \<Rightarrow> if P j e then None else map_of (ca_data c) j | None \<Rightarrow> map_of (ca_data c) j)"
  using assms
proof (induction P r xs c rule: remove_where.induct)
  case (2 P r k e xs c)
  let ?c = "if P k e then removeEntry k e r c else c"
  have IH: "map_of (ca_data (remove_where P r xs ?c)) j =
      (case map_of xs j of Some e \<Rightarrow> if P j e then None else map_of (ca_data ?c) j | None \<Rightarrow> map_of (ca_data ?c) j)"
    using 2 by simp
  show ?case
  proof (cases "j = k")
    case True
    with 2(2) have "map_of xs j = None" by (simp add: map_of_eq_None_keys)
    with IH True show ?thesis by (cases "P k e") simp_all
  next
    case False
    then have "map_of (ca_data ?c) j = map_of (ca_data c) j" by simp
    with IH False show ?thesis by (simp split: option.split)
  qed
qed simp

lemma prune_keeps: "removal_closed I \<Longrightarrow> I c \<Longrightarrow> wf_map (ca_data c) \<Longrightarrow> I (pruneExpired now c)"
  unfolding pruneExpired_def by (rule remove_where_keeps) auto

section \<open>Eviction removes one entry\<close>

lemma lfu_victim_in: "xs \<noteq> [] \<or> best \<noteq> None \<Longrightarrow> \<exists>k. lfu_victim xs best = Some k \<and> (k \<in> set (keys_of xs) \<or> Some k = map_option snd best)"
  by (induction xs best rule: lfu_victim.induct) (force split: option.splits if_splits)+

lemma tinylfu_victim_in:
  "xs \<noteq> [] \<or> best \<noteq> None \<Longrightarrow>
   \<exists>k. tinylfu_victim xs best = Some k \<and> (k \<in> set (keys_of xs) \<or> Some k = map_option (\<lambda>(_, _, k). k) best)"
  by (induction xs best rule: tinylfu_victim.induct) (force split: option.splits if_splits)+

lemma gdsf_victim_in:
  "xs \<noteq> [] \<or> best \<noteq> None \<Longrightarrow> \<exists>h k. gdsf_victim clk xs best = Some (h, k) \<and> (k \<in> set (keys_of xs) \<or> Some k = map_option snd best)"
  by (induction clk xs best rule: gdsf_victim.induct) (force split: option.splits if_splits)+

lemma evictOne_removes:
  assumes "ca_data c \<noteq> []"
  shows "\<exists>k e clk. map_of (ca_data c) k = Some e \<and> evictOne pol r c = removeEntry k e r (c\<lparr>ca_clock := clk\<rparr>)"
proof -
  have "\<exists>k clk. pick_victim pol c = (Some k, clk) \<and> k \<in> set (keys_of (ca_data c))"
  proof (cases pol)
    case Lfu
    with assms lfu_victim_in [of "ca_data c" None] show ?thesis by (auto simp: pick_victim_def)
  next
    case TinyLfu
    with assms tinylfu_victim_in [of "ca_data c" None] show ?thesis by (auto simp: pick_victim_def)
  next
    case Gdsf
    moreover obtain h k where "gdsf_victim (ca_clock c) (ca_data c) None = Some (h, k)" "k \<in> set (keys_of (ca_data c))"
      using gdsf_victim_in [of "ca_data c" None "ca_clock c"] assms by auto
    ultimately show ?thesis by (simp add: pick_victim_def)
  qed (use assms in \<open>cases "ca_data c"; auto simp: pick_victim_def\<close>)+
  then obtain k clk e where "pick_victim pol c = (Some k, clk)" "map_of (ca_data c) k = Some e"
    by (metis map_of_eq_None_keys not_Some_eq)
  then show ?thesis using assms by (auto simp: evictOne_def)
qed

lemma evictOne_keeps: "removal_closed I \<Longrightarrow> I c \<Longrightarrow> ca_data c \<noteq> [] \<Longrightarrow> I (evictOne pol r c)"
  using evictOne_removes [of c pol r] removal_closed_clock by metis

lemma length_delete_less: "k \<in> set (keys_of m) \<Longrightarrow> length (AList.delete k m) < length m"
proof (induction m)
  case (Cons p m)
  then show ?case by (cases "fst p = k") (auto simp: less_Suc_eq_le length_delete_le)
qed simp

lemma evictOne_shrinks: "ca_data c \<noteq> [] \<Longrightarrow> length (ca_data (evictOne pol r c)) < length (ca_data c)"
proof -
  assume "ca_data c \<noteq> []"
  then obtain k e clk where "map_of (ca_data c) k = Some e" "evictOne pol r c = removeEntry k e r (c\<lparr>ca_clock := clk\<rparr>)"
    using evictOne_removes by blast
  moreover from this(1) have "k \<in> set (keys_of (ca_data c))" by (metis map_of_eq_None_keys option.distinct(1))
  ultimately show ?thesis by (simp add: length_delete_less)
qed

lemma evict_entries_ends:
  assumes "removal_closed I" "I c" "0 \<le> n"
  shows "\<exists>c'. evict_entries pol n c = Some c' \<and> I c' \<and> int (length (ca_data c')) \<le> n"
  using assms(2)
proof (induction "length (ca_data c)" arbitrary: c rule: less_induct)
  case less
  show ?case
  proof (cases "int (length (ca_data c)) > n")
    case True
    then have "ca_data c \<noteq> []" using assms(3) by auto
    from less.hyps [OF evictOne_shrinks [OF this] evictOne_keeps [OF assms(1) less.prems this]] True show ?thesis
      by (simp add: evict_entries.simps [of pol n c])
  next
    case False
    with less.prems show ?thesis by (simp add: evict_entries.simps [of pol n c])
  qed
qed

lemma evict_bytes_ends:
  assumes "removal_closed I" "I c"
  shows "\<exists>c'. evict_bytes pol n c = Some c' \<and> I c' \<and> (ca_bytes c' \<le> n \<or> ca_data c' = [])"
  using assms(2)
proof (induction "length (ca_data c)" arbitrary: c rule: less_induct)
  case less
  show ?case
  proof (cases "ca_bytes c > n \<and> ca_data c \<noteq> []")
    case True
    then have "ca_data c \<noteq> []" by simp
    from less.hyps [OF evictOne_shrinks [OF this] evictOne_keeps [OF assms(1) less.prems this]] True show ?thesis
      by (simp add: evict_bytes.simps [of pol n c])
  next
    case False
    then have "evict_bytes pol n c = Some c" by (subst evict_bytes.simps) (simp only: False if_False)
    with less.prems False show ?thesis by auto
  qed
qed

definition within_caps :: "cache_opts \<Rightarrow> cache \<Rightarrow> bool" where
  "within_caps opts c \<longleftrightarrow> (maxEntries opts > 0 \<longrightarrow> int (length (ca_data c)) \<le> maxEntries opts) \<and>
     (maxBytes opts > 0 \<longrightarrow> ca_bytes c \<le> maxBytes opts)"

lemma closed_conj: "removal_closed I \<Longrightarrow> removal_closed J \<Longrightarrow> removal_closed (\<lambda>c. I c \<and> J c)"
  by (simp add: removal_closed_def)

lemma few_closed: "removal_closed (\<lambda>c. int (length (ca_data c)) \<le> n)"
proof -
  have "int (length (AList.delete k m)) \<le> int (length m)" for k :: string and m :: cache_map by (simp add: length_delete_le)
  then have "int (length m) \<le> n \<Longrightarrow> int (length (AList.delete k m)) \<le> n" for k :: string and m :: cache_map
    by (rule order_trans)
  then show ?thesis by (simp add: removal_closed_def)
qed

lemma enforce_ends:
  assumes I: "removal_closed I" "I c" and ok: "cache_ok c"
  shows "\<exists>c'. enforceCapacity opts now c = Some c' \<and> I c' \<and> cache_ok c' \<and> within_caps opts c'"
proof -
  let ?J = "\<lambda>c. I c \<and> cache_ok c" and ?n = "maxEntries opts"
  have J: "removal_closed ?J" by (rule closed_conj [OF I(1) cache_ok_closed])
  let ?K = "\<lambda>c. ?J c \<and> (?n > 0 \<longrightarrow> int (length (ca_data c)) \<le> ?n)"
  have K: "removal_closed ?K"
    using closed_conj [OF J few_closed [of ?n]] J by (cases "?n > 0") simp_all
  define c1 where "c1 = (if ?n > 0 \<and> int (length (ca_data c)) > ?n \<or> maxBytes opts > 0 \<and> ca_bytes c > maxBytes opts
    then pruneExpired now c else c)"
  have c1: "?J c1" using prune_keeps [OF J, of c] I ok unfolding c1_def by (simp add: cache_ok_def)
  have "\<exists>c2. (if ?n > 0 then evict_entries (policyOf opts) ?n c1 else Some c1) = Some c2 \<and> ?K c2"
    using evict_entries_ends [OF J c1, of ?n "policyOf opts"] c1 by (cases "?n > 0") auto
  then obtain c2 where c2: "(if ?n > 0 then evict_entries (policyOf opts) ?n c1 else Some c1) = Some c2" "?K c2" by blast
  have "\<exists>c3. (if maxBytes opts > 0 then evict_bytes (policyOf opts) (maxBytes opts) c2 else Some c2) = Some c3 \<and> ?K c3 \<and>
      (maxBytes opts > 0 \<longrightarrow> ca_bytes c3 \<le> maxBytes opts)"
  proof (cases "maxBytes opts > 0")
    case True
    obtain c3 where "evict_bytes (policyOf opts) (maxBytes opts) c2 = Some c3" "?K c3"
      "ca_bytes c3 \<le> maxBytes opts \<or> ca_data c3 = []"
      using evict_bytes_ends [of ?K c2 "policyOf opts" "maxBytes opts", OF K c2(2)] by blast
    with True show ?thesis by (auto simp: cache_ok_def)
  qed (use c2 in auto)
  then obtain c3 where c3: "(if maxBytes opts > 0 then evict_bytes (policyOf opts) (maxBytes opts) c2 else Some c2) = Some c3"
    "?K c3" "maxBytes opts > 0 \<longrightarrow> ca_bytes c3 \<le> maxBytes opts" by blast
  have "enforceCapacity opts now c = Some c3"
    unfolding enforceCapacity_def Let_def c1_def [symmetric] using c2(1) c3(1) by simp
  with c3 show ?thesis by (auto simp: within_caps_def)
qed

end
