(* ===== verification/CacheHistory.thy ===== *)
theory CacheHistory
  imports CacheProps
begin

text \<open>
  The in-memory cache after a history of operations. The specification of a history is the map of last
  writes, which the cache may forget but not falsify, and the time each key was last used.
\<close>

section \<open>The specification of a history\<close>

fun spec_step :: "cache_op \<Rightarrow> (string \<rightharpoonup> json \<times> int option) \<Rightarrow> (string \<rightharpoonup> json \<times> int option)" where
  "spec_step (OpSet now k v ttl) m = m(k \<mapsto> (v, expiry now ttl))"
| "spec_step (OpDelete k) m = m(k := None)"
| "spec_step (OpClear scope) m =
     (if nullish scope [] = [] then Map.empty
      else (\<lambda>k. if starts_with (nullish scope [] @ '':'') k then None else m k))"
| "spec_step (OpDeleteByPrefix p) m = (\<lambda>k. if starts_with p k then None else m k)"
| "spec_step _ m = m"

definition last_writes :: "cache_op list \<Rightarrow> (string \<rightharpoonup> json \<times> int option)" where
  "last_writes ops = foldl (\<lambda>m op. spec_step op m) Map.empty ops"

lemma last_writes_simps [simp]:
  "last_writes [] = Map.empty" "last_writes (ops @ [op]) = spec_step op (last_writes ops)"
  by (simp_all add: last_writes_def)

fun uses :: "string \<Rightarrow> cache_op \<Rightarrow> bool" where
  "uses k (OpGet _ j) = (j = k)"
| "uses k (OpSet _ j _ _) = (j = k)"
| "uses k _ = False"

text \<open>The position, counted from one, of the last operation that used a key.\<close>

definition last_use :: "cache_op list \<Rightarrow> string \<Rightarrow> nat" where
  "last_use ops k = length (dropWhile (\<lambda>op. \<not> uses k op) (rev ops))"

lemma last_use_snoc [simp]: "last_use (ops @ [op]) k = (if uses k op then Suc (length ops) else last_use ops k)"
  by (simp add: last_use_def)

lemma last_use_le: "last_use ops k \<le> length ops"
  unfolding last_use_def by (metis length_dropWhile_le length_rev)

lemma cache_run_simps [simp]:
  "cache_run opts [] = Some new_cache"
  "cache_run opts (ops @ [op]) = Option.bind (cache_run opts ops) (cache_step opts op)"
  by (simp_all add: cache_run_def)

section \<open>The invariant\<close>

definition cache_refines :: "(string \<rightharpoonup> json \<times> int option) \<Rightarrow> cache \<Rightarrow> bool" where
  "cache_refines m c \<longleftrightarrow> (\<forall>k e. map_of (ca_data c) k = Some e \<longrightarrow> m k = Some (ce_value e, ce_expiresAt e))"

definition use_order :: "cache_opts \<Rightarrow> cache_op list \<Rightarrow> cache \<Rightarrow> bool" where
  "use_order opts ops c \<longleftrightarrow> (policyOf opts = Lru \<longrightarrow> sorted_wrt (<) (map (last_use ops) (keys_of (ca_data c))))"

definition cache_inv :: "cache_opts \<Rightarrow> (string \<rightharpoonup> json \<times> int option) \<Rightarrow> cache_op list \<Rightarrow> cache \<Rightarrow> bool" where
  "cache_inv opts m ops c \<longleftrightarrow> (cache_ok c \<and> within_caps opts c) \<and> (cache_refines m c \<and> use_order opts ops c)"

lemma refines_closed: "removal_closed (cache_refines m)"
  by (simp add: removal_closed_def cache_refines_def)

lemma keys_delete: "keys_of (AList.delete k m) = filter (\<lambda>j. j \<noteq> k) (keys_of m)"
  by (induction m) auto

lemma use_order_closed: "removal_closed (use_order opts ops)"
  by (auto simp: removal_closed_def use_order_def keys_delete sorted_wrt_map intro: sorted_wrt_filter)

lemma caps_closed: "removal_closed (\<lambda>c. cache_ok c \<and> within_caps opts c)"
proof -
  have "within_caps opts (removeEntry k e r (c\<lparr>ca_clock := clk\<rparr>))"
    if c: "cache_ok c" "within_caps opts c" "map_of (ca_data c) k = Some e" for c k e r clk
  proof -
    have "cache_ok (c\<lparr>ca_clock := clk\<rparr>)" "map_of (ca_data (c\<lparr>ca_clock := clk\<rparr>)) k = Some e" using c by (simp_all add: cache_ok_def)
    moreover have "int (length (AList.delete k (ca_data c))) \<le> int (length (ca_data c))" by (simp add: length_delete_le)
    ultimately show ?thesis using c(2) removed_bytes [of "c\<lparr>ca_clock := clk\<rparr>" k e r] by (auto simp: within_caps_def)
  qed
  then show ?thesis using cache_ok_closed by (simp add: removal_closed_def)
qed

lemma inv_closed: "removal_closed (cache_inv opts m ops)"
  using closed_conj [OF caps_closed [of opts] closed_conj [OF refines_closed [of m] use_order_closed [of opts ops]]]
  unfolding cache_inv_def [abs_def] .

lemma cache_inv_cong:
  "cache_inv opts m ops c \<Longrightarrow> m' = m \<Longrightarrow> (\<And>k. k \<in> set (keys_of (ca_data c)) \<Longrightarrow> last_use ops' k = last_use ops k) \<Longrightarrow>
   cache_inv opts m' ops' c"
proof -
  assume c: "cache_inv opts m ops c" "m' = m" and eq: "\<And>k. k \<in> set (keys_of (ca_data c)) \<Longrightarrow> last_use ops' k = last_use ops k"
  have "map (last_use ops') (keys_of (ca_data c)) = map (last_use ops) (keys_of (ca_data c))" using eq by (rule map_cong [OF refl])
  then show ?thesis using c unfolding cache_inv_def use_order_def c(2) by metis
qed

section \<open>Operations keep it\<close>

lemma entry_bytes_update:
  "wf_map m \<Longrightarrow> entry_bytes (AList.update k e m) =
     entry_bytes m + int (ce_bytes e) - (case map_of m k of None \<Rightarrow> 0 | Some d \<Rightarrow> int (ce_bytes d))"
proof (induction m)
  case (Cons p m)
  obtain j d where p: "p = (j, d)" by (cases p)
  with Cons show ?case by (cases "j = k") simp_all
qed simp

lemma update_delete_last: "AList.update k e (AList.delete k m) = AList.delete k m @ [(k, e)]"
  by (rule keys_update_new) (simp add: keys_delete)

lemma touch_inv:
  assumes inv: "cache_inv opts m ops c" and e: "map_of (ca_data c) k = Some e"
  shows "cache_inv opts m (ops @ [OpGet now k]) (touchEntry opts k e c)"
proof -
  let ?e = "e\<lparr>ce_freq := ce_freq e + 1, ce_lastAccess := ca_tick c + 1\<rparr>"
  have wf: "wf_map (ca_data c)" "ca_bytes c = entry_bytes (ca_data c)" using inv by (simp_all add: cache_inv_def cache_ok_def)
  have k: "k \<in> set (keys_of (ca_data c))" using e by (metis map_of_eq_None_keys option.distinct(1))
  show ?thesis
  proof (cases "policyOf opts = Lru")
    case True
    then have data: "ca_data (touchEntry opts k e c) = AList.delete k (ca_data c) @ [(k, ?e)]"
      by (simp add: touchEntry_def Let_def update_delete_last)
    have bytes: "ca_bytes (touchEntry opts k e c) = ca_bytes c" by (simp add: touchEntry_def Let_def)
    have len: "length (AList.delete k (ca_data c)) < length (ca_data c)" by (rule length_delete_less [OF k])
    have "cache_ok (touchEntry opts k e c) \<and> within_caps opts (touchEntry opts k e c)"
      using inv wf len entry_bytes_delete [OF wf(1) e] unfolding cache_ok_def within_caps_def data bytes
      by (auto simp: cache_inv_def within_caps_def keys_delete)
    moreover have "cache_refines m (touchEntry opts k e c)"
      using inv e wf(1) unfolding cache_refines_def data
      by (auto simp: cache_inv_def cache_refines_def map_of_append map_add_def split: option.splits)
    moreover have "use_order opts (ops @ [OpGet now k]) (touchEntry opts k e c)"
    proof -
      have "sorted_wrt (\<lambda>x y. last_use ops x < last_use ops y) (filter (\<lambda>j. j \<noteq> k) (keys_of (ca_data c)))"
        using inv True by (auto simp: cache_inv_def use_order_def sorted_wrt_map intro: sorted_wrt_filter)
      then have "sorted_wrt (\<lambda>x y. last_use (ops @ [OpGet now k]) x < last_use (ops @ [OpGet now k]) y)
          (filter (\<lambda>j. j \<noteq> k) (keys_of (ca_data c)))"
        by (rule sorted_wrt_mono_rel [rotated]) auto
      moreover have "last_use ops j < Suc (length ops)" for j using last_use_le [of ops j] by simp
      ultimately show ?thesis by (simp add: use_order_def data keys_delete sorted_wrt_append sorted_wrt_map)
    qed
    ultimately show ?thesis by (simp add: cache_inv_def)
  next
    case False
    then have data: "ca_data (touchEntry opts k e c) = AList.update k ?e (ca_data c)"
      by (simp add: touchEntry_def Let_def)
    have bytes: "ca_bytes (touchEntry opts k e c) = ca_bytes c" by (simp add: touchEntry_def Let_def)
    have "length (AList.update k ?e (ca_data c)) = length (ca_data c)" using k by (simp add: length_update)
    then have "cache_ok (touchEntry opts k e c) \<and> within_caps opts (touchEntry opts k e c)"
      using inv wf e unfolding cache_ok_def within_caps_def data bytes
      by (auto simp: cache_inv_def within_caps_def entry_bytes_update)
    moreover have "cache_refines m (touchEntry opts k e c)"
      using inv e unfolding cache_refines_def data by (auto simp: cache_inv_def cache_refines_def)
    ultimately show ?thesis using False by (simp add: cache_inv_def use_order_def)
  qed
qed

lemma put_inv:
  assumes inv: "cache_inv opts m ops c"
  shows "cache_ok (put_entry opts now k v ttl c)"
    "cache_refines (m(k \<mapsto> (v, expiry now ttl))) (put_entry opts now k v ttl c)"
    "use_order opts (ops @ [OpSet now k v ttl]) (put_entry opts now k v ttl c)"
proof -
  have wf: "wf_map (ca_data c)" "ca_bytes c = entry_bytes (ca_data c)" using inv by (simp_all add: cache_inv_def cache_ok_def)
  define e where "e = \<lparr>ce_value = v, ce_expiresAt = expiry now ttl,
    ce_freq = (case map_of (ca_data c) k of None \<Rightarrow> 1 | Some e \<Rightarrow> ce_freq e + 1), ce_bytes = estimateBytes opts k v,
    ce_lastAccess = ca_tick c + 1, ce_cost = costWeight opts v, ce_scope = None\<rparr>"
  have data: "ca_data (put_entry opts now k v ttl c) = AList.delete k (ca_data c) @ [(k, e)]"
  proof (cases "map_of (ca_data c) k")
    case None
    then have "k \<notin> set (keys_of (ca_data c))" by (simp add: map_of_eq_None_keys)
    with None show ?thesis by (simp add: put_entry_def Let_def e_def keys_update_new delete_idem)
  qed (simp add: put_entry_def Let_def e_def update_delete_last)
  have bytes: "ca_bytes (put_entry opts now k v ttl c) = entry_bytes (AList.delete k (ca_data c)) + int (ce_bytes e)"
  proof (cases "map_of (ca_data c) k")
    case None
    then have "k \<notin> set (keys_of (ca_data c))" by (simp add: map_of_eq_None_keys)
    with None wf show ?thesis by (simp add: put_entry_def Let_def e_def delete_idem)
  next
    case (Some d)
    with wf entry_bytes_delete [OF wf(1) Some] show ?thesis by (simp add: put_entry_def Let_def e_def)
  qed
  show "cache_ok (put_entry opts now k v ttl c)" using wf by (simp add: cache_ok_def data bytes keys_delete)
  show "cache_refines (m(k \<mapsto> (v, expiry now ttl))) (put_entry opts now k v ttl c)"
    using inv by (auto simp: cache_refines_def data cache_inv_def map_add_def e_def split: option.splits if_splits)
  show "use_order opts (ops @ [OpSet now k v ttl]) (put_entry opts now k v ttl c)"
  proof (cases "policyOf opts = Lru")
    case True
    have "sorted_wrt (\<lambda>x y. last_use ops x < last_use ops y) (filter (\<lambda>j. j \<noteq> k) (keys_of (ca_data c)))"
      using inv True by (auto simp: cache_inv_def use_order_def sorted_wrt_map intro: sorted_wrt_filter)
    then have "sorted_wrt (\<lambda>x y. last_use (ops @ [OpSet now k v ttl]) x < last_use (ops @ [OpSet now k v ttl]) y)
        (filter (\<lambda>j. j \<noteq> k) (keys_of (ca_data c)))"
      by (rule sorted_wrt_mono_rel [rotated]) auto
    moreover have "last_use ops j < Suc (length ops)" for j using last_use_le [of ops j] by simp
    ultimately show ?thesis by (simp add: use_order_def data keys_delete sorted_wrt_append sorted_wrt_map)
  qed (simp add: use_order_def)
qed

lemma inv_restrict:
  assumes "cache_inv opts m ops c" "\<And>k. \<not> uses k op" "cache_refines (spec_step op m) c"
  shows "cache_inv opts (spec_step op m) (ops @ [op]) c"
proof -
  have "cache_inv opts m (ops @ [op]) c" by (rule cache_inv_cong [OF assms(1)]) (simp_all add: assms(2))
  with assms(3) show ?thesis by (simp add: cache_inv_def)
qed

lemma inv_idle: "cache_inv opts m ops c \<Longrightarrow> (\<And>k. k \<in> set (keys_of (ca_data c)) \<Longrightarrow> \<not> uses k op) \<Longrightarrow> cache_inv opts m (ops @ [op]) c"
  by (rule cache_inv_cong) simp_all

lemma remove_where_inv:
  assumes "cache_inv opts m ops c"
  shows "cache_inv opts m ops (remove_where P r (ca_data c) c)"
proof (rule remove_where_keeps [OF inv_closed assms])
  show "wf_map (ca_data c)" using assms by (simp add: cache_inv_def cache_ok_def)
  then show "\<forall>(k, e)\<in>set (ca_data c). map_of (ca_data c) k = Some e" by simp
qed

lemma remove_where_refines:
  assumes "cache_inv opts m ops c" "\<And>k e. \<not> P k e \<Longrightarrow> m k = Some (ce_value e, ce_expiresAt e) \<Longrightarrow> m' k = m k"
  shows "cache_refines m' (remove_where P r (ca_data c) c)"
proof -
  have "wf_map (ca_data c)" using assms(1) by (simp add: cache_inv_def cache_ok_def)
  with assms show ?thesis
    by (auto simp: cache_refines_def cache_inv_def remove_where_map split: option.splits if_splits)
qed

lemma step_inv:
  assumes inv: "cache_inv opts m ops c"
  shows "\<exists>c'. cache_step opts op c = Some c' \<and> cache_inv opts (spec_step op m) (ops @ [op]) c'"
proof (cases op)
  case (OpGet now k)
  show ?thesis
  proof (cases "map_of (ca_data c) k")
    case None
    then have "k \<notin> set (keys_of (ca_data c))" by (simp add: map_of_eq_None_keys)
    with None OpGet inv_idle [OF inv, of op] show ?thesis by (auto simp: cacheGet_def)
  next
    case (Some e)
    have "cache_inv opts m (ops @ [op]) (removeEntry k e ByTtl c)"
      by (rule inv_idle [OF removal_closedD [OF inv_closed inv Some]]) (auto simp: OpGet keys_delete)
    with touch_inv [OF inv Some] Some OpGet show ?thesis by (auto simp: cacheGet_def)
  qed
next
  case (OpSet now k v ttl)
  let ?I = "\<lambda>c. cache_refines (spec_step op m) c \<and> use_order opts (ops @ [op]) c"
  have "\<exists>c'. cacheSet opts now k v ttl c = Some c' \<and> ?I c' \<and> cache_ok c' \<and> within_caps opts c'"
    unfolding cacheSet_def
    by (rule enforce_ends [OF closed_conj [OF refines_closed use_order_closed] _ put_inv(1) [OF inv]])
       (use put_inv(2,3) [OF inv] OpSet in simp)
  then show ?thesis by (auto simp: OpSet cache_inv_def)
next
  case (OpDelete k)
  show ?thesis
  proof (cases "map_of (ca_data c) k")
    case None
    with inv OpDelete have "cache_refines (spec_step op m) c" by (auto simp: cache_inv_def cache_refines_def)
    with None OpDelete inv_restrict [OF inv, of op] show ?thesis by (simp add: cacheDelete_def)
  next
    case (Some e)
    note r = removal_closedD [OF inv_closed inv Some, of Manually]
    with OpDelete have "cache_refines (spec_step op m) (removeEntry k e Manually c)" by (auto simp: cache_inv_def cache_refines_def)
    with Some OpDelete inv_restrict [OF r, of op] show ?thesis by (simp add: cacheDelete_def)
  qed
next
  case (OpHas now k)
  show ?thesis
  proof (cases "map_of (ca_data c) k")
    case None
    with OpHas inv_idle [OF inv, of op] show ?thesis by (simp add: cacheHas_def)
  next
    case (Some e)
    with OpHas inv_idle [OF inv, of op] inv_idle [OF removal_closedD [OF inv_closed inv Some, of ByTtl], of op]
    show ?thesis by (simp add: cacheHas_def)
  qed
next
  case (OpClear scope)
  show ?thesis
  proof (cases "nullish scope [] = []")
    case True
    then have c: "cacheClear scope c = c\<lparr>ca_data := [], ca_bytes := 0\<rparr>" by (simp add: cacheClear_def)
    have "cache_inv opts (spec_step op m) (ops @ [op]) (c\<lparr>ca_data := [], ca_bytes := 0\<rparr>)"
      by (simp add: cache_inv_def cache_ok_def within_caps_def cache_refines_def use_order_def)
    with OpClear c show ?thesis by simp
  next
    case False
    then have c: "cacheClear scope c =
        remove_where (\<lambda>k e. ce_scope e = scope \<or> starts_with (nullish scope [] @ '':'') k) Manually (ca_data c) c"
      by (simp add: cacheClear_def)
    have "cache_refines (spec_step op m) (cacheClear scope c)"
      unfolding c by (rule remove_where_refines [OF inv]) (use False in \<open>simp add: OpClear\<close>)
    from inv_restrict [OF _ _ this] remove_where_inv [OF inv] show ?thesis by (simp add: OpClear c)
  qed
next
  case (OpSize now)
  from inv_idle [OF remove_where_inv [OF inv], where op = op] show ?thesis by (simp add: OpSize cacheSize_def pruneExpired_def Let_def)
next
  case (OpKeys now p)
  from inv_idle [OF remove_where_inv [OF inv], where op = op] show ?thesis by (simp add: OpKeys cacheKeys_def pruneExpired_def Let_def)
next
  case (OpDeleteByPrefix p)
  have "cache_refines (spec_step op m) (snd (deleteByPrefix p c))"
    unfolding deleteByPrefix_def snd_conv by (rule remove_where_refines [OF inv]) (simp add: OpDeleteByPrefix)
  from inv_restrict [OF _ _ this] remove_where_inv [OF inv] show ?thesis by (simp add: OpDeleteByPrefix deleteByPrefix_def)
qed

lemma run_inv: "\<exists>c. cache_run opts ops = Some c \<and> cache_inv opts (last_writes ops) ops c"
proof (induction ops rule: rev_induct)
  case Nil
  show ?case by (simp add: new_cache_def cache_inv_def cache_ok_def within_caps_def cache_refines_def use_order_def)
next
  case (snoc op ops)
  then obtain c where "cache_run opts ops = Some c" "cache_inv opts (last_writes ops) ops c" by blast
  with step_inv [OF this(2), of op] show ?case by simp
qed

section \<open>A store without caps forgets nothing\<close>

fun op_time :: "cache_op \<Rightarrow> int option" where
  "op_time (OpGet now _) = Some now"
| "op_time (OpSet now _ _ _) = Some now"
| "op_time (OpHas now _) = Some now"
| "op_time (OpSize now) = Some now"
| "op_time (OpKeys now _) = Some now"
| "op_time _ = None"

definition cache_covers :: "int \<Rightarrow> (string \<rightharpoonup> json \<times> int option) \<Rightarrow> cache \<Rightarrow> bool" where
  "cache_covers t m c \<longleftrightarrow> (\<forall>k v x. m k = Some (v, x) \<longrightarrow> map_of (ca_data c) k \<noteq> None \<or> past t x) \<and>
     (\<forall>k e. map_of (ca_data c) k = Some e \<longrightarrow> ce_scope e = None)"

lemma past_mono: "past s x \<Longrightarrow> s \<le> t \<Longrightarrow> past t x"
  by (auto simp: past_def split: option.splits)

lemma covers_prune:
  assumes "cache_covers t m c" "cache_refines m c" "wf_map (ca_data c)" "s \<le> t"
  shows "cache_covers t m (pruneExpired s c)"
  using assms past_mono [OF _ assms(4)]
  by (fastforce simp: cache_covers_def cache_refines_def pruneExpired_def remove_where_map isExpired_def split: option.splits if_splits)

lemma covers_remove_where:
  assumes cov: "cache_covers t m c" and wf: "wf_map (ca_data c)"
    and drop: "\<And>k e. map_of (ca_data c) k = Some e \<Longrightarrow> P k e \<Longrightarrow> m' k = None" and sub: "\<And>k p. m' k = Some p \<Longrightarrow> m k = Some p"
  shows "cache_covers t m' (remove_where P r (ca_data c) c)"
  unfolding cache_covers_def
proof (intro conjI allI impI)
  fix k v x
  assume m': "m' k = Some (v, x)"
  show "map_of (ca_data (remove_where P r (ca_data c) c)) k \<noteq> None \<or> past t x"
  proof (cases "map_of (ca_data c) k")
    case None
    with cov sub [OF m'] show ?thesis unfolding cache_covers_def by blast
  next
    case (Some e)
    with drop [OF Some] m' show ?thesis by (auto simp: remove_where_map [OF wf])
  qed
next
  fix k e
  assume "map_of (ca_data (remove_where P r (ca_data c) c)) k = Some e"
  with cov show "ce_scope e = None"
    by (simp add: remove_where_map [OF wf] cache_covers_def split: option.splits if_splits)
qed

lemma covers_expired:
  assumes "cache_covers t m c" "cache_refines m c" "map_of (ca_data c) k = Some e" "isExpired s e" "s \<le> t"
  shows "cache_covers t m (removeEntry k e r c)"
  using assms past_mono [OF _ assms(5)] by (auto simp: cache_covers_def cache_refines_def isExpired_def)

lemma covers_step:
  assumes inv: "cache_inv opts m ops c" and cov: "cache_covers t m c" and unb: "maxEntries opts \<le> 0" "maxBytes opts \<le> 0"
    and time: "\<forall>s. op_time op = Some s \<longrightarrow> s \<le> t" and step: "cache_step opts op c = Some c'"
  shows "cache_covers t (spec_step op m) c'"
proof -
  have wf: "wf_map (ca_data c)" "cache_refines m c" using inv by (simp_all add: cache_inv_def cache_ok_def)
  show ?thesis
  proof (cases op)
    case (OpGet now k)
    show ?thesis
    proof (cases "map_of (ca_data c) k")
      case None
      with OpGet step cov show ?thesis by (auto simp: cacheGet_def)
    next
      case (Some e)
      show ?thesis
      proof (cases "isExpired now e")
        case True
        with Some OpGet step time covers_expired [OF cov wf(2) Some True] show ?thesis by (auto simp: cacheGet_def)
      next
        case False
        with Some OpGet step have "c' = touchEntry opts k e c" by (simp add: cacheGet_def)
        with Some OpGet cov show ?thesis by (auto simp: touchEntry_def Let_def cache_covers_def)
      qed
    qed
  next
    case (OpSet now k v ttl)
    have "c' = put_entry opts now k v ttl c"
      using step unb by (simp add: OpSet cacheSet_def enforceCapacity_def Let_def)
    then show ?thesis
      using cov unfolding OpSet by (cases "map_of (ca_data c) k") (auto simp: cache_covers_def put_entry_def Let_def)
  next
    case (OpDelete k)
    then show ?thesis
      using step cov by (cases "map_of (ca_data c) k") (auto simp: cacheDelete_def cache_covers_def split: if_splits, blast)
  next
    case (OpHas now k)
    then show ?thesis
      using step cov time covers_expired [OF cov wf(2), of k _ now ByTtl]
      by (simp add: cacheHas_def split: option.splits if_splits)
  next
    case (OpClear scope)
    have "ce_scope e \<noteq> scope" if "map_of (ca_data c) k = Some e" "nullish scope [] \<noteq> []" for k e
      using cov that by (cases scope) (auto simp: cache_covers_def)
    have removed: "cache_covers t (spec_step op m)
        (remove_where (\<lambda>k e. ce_scope e = scope \<or> starts_with (nullish scope [] @ '':'') k) Manually (ca_data c) c)"
      if "nullish scope [] \<noteq> []" using that \<open>\<And>k e. map_of (ca_data c) k = Some e \<Longrightarrow> nullish scope [] \<noteq> [] \<Longrightarrow> ce_scope e \<noteq> scope\<close>
      by (intro covers_remove_where [OF cov wf(1)]) (auto simp: OpClear split: if_splits)
    show ?thesis
    proof (cases "nullish scope [] = []")
      case True
      then show ?thesis using step by (auto simp: OpClear cacheClear_def cache_covers_def)
    next
      case False
      then have "c' = remove_where (\<lambda>k e. ce_scope e = scope \<or> starts_with (nullish scope [] @ '':'') k) Manually (ca_data c) c"
        using step by (simp add: OpClear cacheClear_def)
      with removed [OF False] show ?thesis by simp
    qed
  next
    case (OpSize now)
    then show ?thesis using step time covers_prune [OF cov wf(2,1), of now] by (simp add: cacheSize_def Let_def)
  next
    case (OpKeys now p)
    then show ?thesis using step time covers_prune [OF cov wf(2,1), of now] by (simp add: cacheKeys_def Let_def)
  next
    case (OpDeleteByPrefix p)
    have "cache_covers t (spec_step op m) (remove_where (\<lambda>k e. starts_with p k) Manually (ca_data c) c)"
      by (rule covers_remove_where [OF cov wf(1)]) (auto simp: OpDeleteByPrefix split: if_splits)
    then show ?thesis using step by (simp add: OpDeleteByPrefix deleteByPrefix_def)
  qed
qed

lemma run_covers:
  assumes "maxEntries opts \<le> 0" "maxBytes opts \<le> 0" "\<forall>op\<in>set ops. \<forall>s. op_time op = Some s \<longrightarrow> s \<le> t"
  shows "\<exists>c. cache_run opts ops = Some c \<and> cache_inv opts (last_writes ops) ops c \<and> cache_covers t (last_writes ops) c"
  using assms(3)
proof (induction ops rule: rev_induct)
  case Nil
  show ?case using run_inv [of opts "[]"] by (simp add: new_cache_def cache_covers_def)
next
  case (snoc op ops)
  then obtain c where c: "cache_run opts ops = Some c" "cache_inv opts (last_writes ops) ops c" "cache_covers t (last_writes ops) c"
    by auto
  obtain c' where "cache_step opts op c = Some c'" "cache_inv opts (spec_step op (last_writes ops)) (ops @ [op]) c'"
    using step_inv [OF c(2)] by blast
  with c covers_step [OF c(2,3) assms(1,2) _ this(1)] snoc.prems show ?case by simp
qed

end
