(* ===== verification/CacheGuarantees.thy ===== *)
theory CacheGuarantees
  imports CacheHistory
begin

text \<open>
  The properties of the in-memory cache, for every history of operations from the empty store.
\<close>


text \<open>
  after any operations the store holds at most the configured number of entries, each key once,
  and at most the configured number of bytes, where the running byte count is exactly that of the entries.
\<close>

theorem cache_bounded:
  assumes "cache_run opts ops = Some c"
  shows "(maxEntries opts > 0 \<longrightarrow> int (length (ca_data c)) \<le> maxEntries opts) \<and>
    (maxBytes opts > 0 \<longrightarrow> ca_bytes c \<le> maxBytes opts) \<and>
    wf_map (ca_data c) \<and> ca_bytes c = entry_bytes (ca_data c)"
  using run_inv [of opts ops] assms by (auto simp: cache_inv_def within_caps_def cache_ok_def)

definition small_opts :: "evict_policy \<Rightarrow> cache_opts" where
  "small_opts pol = \<lparr>co_maxEntries = Some 2, co_maxBytes = None, co_policy = Some pol, co_sizeOf = (\<lambda>_. Some 1), co_costOf = None\<rparr>"

definition three_keys :: "cache_op list" where
  "three_keys = [OpSet 1 ''a'' (JNum 1) None, OpSet 2 ''b'' (JNum 2) None, OpGet 3 ''a'']"

theorem cache_bounded_witness:
  "\<exists>c. cache_run (small_opts Lfu) (three_keys @ [OpSet 4 ''c'' (JNum 3) None]) = Some c \<and> length (ca_data c) \<le> 2"
proof -
  obtain c where "cache_run (small_opts Lfu) (three_keys @ [OpSet 4 ''c'' (JNum 3) None]) = Some c" using run_inv by blast
  with cache_bounded [OF this] show ?thesis by (auto simp: small_opts_def maxEntries_def)
qed

text \<open>
  Claim C27: a hit is never wrong and never stale: whatever operations came before, under any policy and
  caps, a value that \<^verbatim>\<open>get\<close> returns is the one last set for the key, not deleted or cleared since, and its
  time to live has not passed.
\<close>

theorem cache_hit_is_last_write:
  assumes "cache_run opts ops = Some c" "fst (cacheGet opts now k c) = v" "v \<noteq> JNull"
  shows "\<exists>x. last_writes ops k = Some (v, x) \<and> \<not> past now x"
proof -
  have "cache_refines (last_writes ops) c" using run_inv [of opts ops] assms(1) by (auto simp: cache_inv_def)
  with assms(2,3) show ?thesis
    by (auto simp: cacheGet_def cache_refines_def isExpired_def split: option.splits if_splits)
qed

theorem cache_hit_is_last_write_witness:
  "\<exists>c x. cache_run (small_opts Lru) three_keys = Some c \<and> fst (cacheGet (small_opts Lru) 9 ''b'' c) = JNum 2 \<and>
     last_writes three_keys ''b'' = Some (JNum 2, x)"
proof -
  have hit: "case cache_run (small_opts Lru) three_keys of None \<Rightarrow> False
      | Some c \<Rightarrow> fst (cacheGet (small_opts Lru) 9 ''b'' c) = JNum 2" by code_simp
  then obtain c where c: "cache_run (small_opts Lru) three_keys = Some c"
    "fst (cacheGet (small_opts Lru) 9 ''b'' c) = JNum 2" by (auto split: option.splits)
  from cache_hit_is_last_write [OF c] c show ?thesis by blast
qed

text \<open>
  without caps the store is exactly the map of last writes with their times to live: a read
  misses only what was never written, deleted, cleared or has expired.
\<close>

theorem unbounded_cache_exact:
  assumes "maxEntries opts \<le> 0" "maxBytes opts \<le> 0" "\<forall>op\<in>set ops. \<forall>t. op_time op = Some t \<longrightarrow> t \<le> now"
  shows "\<exists>c. cache_run opts ops = Some c \<and>
    fst (cacheGet opts now k c) =
      (case last_writes ops k of None \<Rightarrow> JNull | Some (v, x) \<Rightarrow> if past now x then JNull else v)"
proof -
  obtain c where c: "cache_run opts ops = Some c" "cache_inv opts (last_writes ops) ops c" "cache_covers now (last_writes ops) c"
    using run_covers [OF assms] by blast
  have ref: "cache_refines (last_writes ops) c" using c(2) by (simp add: cache_inv_def)
  have "fst (cacheGet opts now k c) =
      (case last_writes ops k of None \<Rightarrow> JNull | Some (v, x) \<Rightarrow> if past now x then JNull else v)"
  proof (cases "map_of (ca_data c) k")
    case None
    with c(3) have "past now x" if "last_writes ops k = Some (v, x)" for v x
      using that unfolding cache_covers_def by blast
    with None show ?thesis by (auto simp: cacheGet_def split: option.split)
  next
    case (Some e)
    with ref have "last_writes ops k = Some (ce_value e, ce_expiresAt e)" by (simp add: cache_refines_def)
    with Some show ?thesis by (simp add: cacheGet_def isExpired_def)
  qed
  with c(1) show ?thesis by blast
qed

definition open_opts :: cache_opts where
  "open_opts = \<lparr>co_maxEntries = Some 0, co_maxBytes = None, co_policy = None, co_sizeOf = (\<lambda>_. Some 1), co_costOf = None\<rparr>"

theorem unbounded_cache_exact_witness:
  "\<exists>c. cache_run open_opts (three_keys @ [OpSet 4 ''b'' (JNum 5) (Some 10)]) = Some c \<and>
     fst (cacheGet open_opts 9 ''b'' c) = JNum 5"
  using unbounded_cache_exact [of open_opts "three_keys @ [OpSet 4 ''b'' (JNum 5) (Some 10)]" 9 "''b''"]
  by (simp add: open_opts_def maxEntries_def maxBytes_def three_keys_def last_writes_def expiry_def past_def)

text \<open>
  under the policy \<^verbatim>\<open>lru\<close> a new key in a full store replaces exactly the key whose last \<^verbatim>\<open>get\<close> or
  \<^verbatim>\<open>set\<close> is longest ago.
\<close>

theorem lru_evicts_least_recent:
  assumes "cache_run opts ops = Some c" "policyOf opts = Lru" "maxBytes opts \<le> 0"
    and "int (length (ca_data c)) = maxEntries opts" "maxEntries opts > 0" "k \<notin> set (keys_of (ca_data c))"
    and "\<forall>(j, e)\<in>set (ca_data c). ce_expiresAt e = None" "ttl = None"
  shows "\<exists>c' v. cacheSet opts now k x ttl c = Some c' \<and> v \<in> set (keys_of (ca_data c)) \<and>
    set (keys_of (ca_data c')) = insert k (set (keys_of (ca_data c)) - {v}) \<and>
    (\<forall>j\<in>set (keys_of (ca_data c)) - {v}. last_use ops v < last_use ops j)"
proof -
  have inv: "cache_inv opts (last_writes ops) ops c" using run_inv [of opts ops] assms(1) by auto
  then have wf: "wf_map (ca_data c)" by (simp add: cache_inv_def cache_ok_def)
  obtain v e rest where data: "ca_data c = (v, e) # rest" using assms(4,5) by (cases "ca_data c") auto
  define d where "d = put_entry opts now k x ttl c"
  have none: "map_of (ca_data c) k = None" using assms(6) by (simp add: map_of_eq_None_keys)
  obtain f where d: "ca_data d = ca_data c @ [(k, f)]" "ce_expiresAt f = None"
    using assms(6,8) none by (auto simp: d_def put_entry_def Let_def keys_update_new expiry_def)
  have "remove_where (\<lambda>_ e. isExpired now e) ByTtl xs d = d" if "\<forall>(j, e)\<in>set xs. ce_expiresAt e = None" for xs
    using that by (induction xs) (auto simp: isExpired_def past_def)
  then have prune: "pruneExpired now d = d" using assms(7) d by (auto simp: pruneExpired_def)
  define d' where "d' = evictOne Lru ByCapacity d"
  have "ca_data d = (v, e) # rest @ [(k, f)]" using d(1) data by simp
  moreover have "AList.delete v (rest @ [(k, f)]) = rest @ [(k, f)]"
  proof -
    have "v \<notin> fst ` set (rest @ [(k, f)])" using wf data assms(6) by auto
    then show ?thesis by simp
  qed
  ultimately have d': "ca_data d' = rest @ [(k, f)]"
    by (simp add: d'_def evictOne_def pick_victim_def Let_def)
  have "evict_entries Lru (maxEntries opts) d = evict_entries Lru (maxEntries opts) d'"
    using assms(4) d(1) by (subst evict_entries.simps) (simp add: d'_def)
  also have "\<dots> = Some d'" using assms(4) d' data by (subst evict_entries.simps) simp
  finally have "cacheSet opts now k x ttl c = Some d'"
    using assms(2,3,5) prune d_def by (simp add: cacheSet_def enforceCapacity_def Let_def)
  moreover have "set (keys_of (ca_data d')) = insert k (set (keys_of (ca_data c)) - {v})"
    using wf data d' by auto
  moreover have "last_use ops v < last_use ops j" if "j \<in> set (keys_of (ca_data c)) - {v}" for j
    using inv assms(2) data that by (auto simp: cache_inv_def use_order_def)
  ultimately show ?thesis using data by (intro exI [of _ d'] exI [of _ v]) auto
qed

theorem lru_evicts_least_recent_witness:
  "\<exists>c c'. cache_run (small_opts Lru) three_keys = Some c \<and> cacheSet (small_opts Lru) 4 ''c'' (JNum 3) None c = Some c' \<and>
     set (keys_of (ca_data c')) = {''a'', ''c''}"
proof -
  have run: "case cache_run (small_opts Lru) three_keys of None \<Rightarrow> False
      | Some c \<Rightarrow> keys_of (ca_data c) = [''b'', ''a''] \<and> map (ce_expiresAt \<circ> snd) (ca_data c) = [None, None]" by code_simp
  then obtain c where c: "cache_run (small_opts Lru) three_keys = Some c" "keys_of (ca_data c) = [''b'', ''a'']"
    "map (ce_expiresAt \<circ> snd) (ca_data c) = [None, None]" by (auto split: option.splits)
  have exp: "\<forall>(j, e)\<in>set (ca_data c). ce_expiresAt e = None" using c(3) by (auto simp: map_eq_Cons_conv)
  have len: "length (ca_data c) = 2" using c(2) by (auto simp: map_eq_Cons_conv)
  obtain c' v where r: "cacheSet (small_opts Lru) 4 ''c'' (JNum 3) None c = Some c'" "v \<in> set (keys_of (ca_data c))"
    "set (keys_of (ca_data c')) = insert ''c'' (set (keys_of (ca_data c)) - {v})"
    "\<forall>j\<in>set (keys_of (ca_data c)) - {v}. last_use three_keys v < last_use three_keys j"
    using lru_evicts_least_recent [OF c(1) _ _ _ _ _ exp refl, of "''c''" 4 "JNum 3"] len c(2)
    by (auto simp: small_opts_def policyOf_def maxEntries_def maxBytes_def)
  have "last_use three_keys ''b'' < last_use three_keys ''a''" by code_simp
  moreover have "v = ''b'' \<or> v = ''a''" using r(2) c(2) by simp
  moreover have "last_use three_keys v < last_use three_keys ''b''" if "v = ''a''" using r(4) that c(2) by simp
  ultimately have "v = ''b''" by force
  with r(1,3) c(1,2) show ?thesis by auto
qed

section \<open>Where the policies fall short\<close>

text \<open>
  The clock of the policy \<^verbatim>\<open>gdsf\<close> is meant to age entries, but it is added to every priority at the moment of
  the choice, so the victim does not depend on it: an entry once used often is never aged out.
\<close>

lemma gdsf_victim_clock:
  "map_option snd (gdsf_victim clk xs (map_option (\<lambda>(h, k). (clk + h, k)) best)) = map_option snd (gdsf_victim 0 xs best)"
proof (induction xs arbitrary: best)
  case Nil
  show ?case by (cases best) auto
next
  case (Cons p xs)
  obtain k e where p: "p = (k, e)" by (cases p)
  have prio: "gdsfPriority clk e = clk + gdsfPriority 0 e" by (simp add: gdsfPriority_def)
  show ?case
  proof (cases best)
    case None
    with Cons [of "Some (gdsfPriority 0 e, k)"] show ?thesis by (simp add: p prio)
  next
    case (Some b)
    obtain h j where b: "b = (h, j)" by (cases b)
    show ?thesis
      using Cons [of "Some (gdsfPriority 0 e, k)"] Cons [of "Some (h, j)"] by (simp add: p prio Some b)
  qed
qed

text \<open>
  the aging clock of the policy \<^verbatim>\<open>gdsf\<close> has no influence on which entry is evicted.
\<close>

theorem gdsf_aging_ineffective:
  "fst (pick_victim Gdsf (c\<lparr>ca_clock := clk\<rparr>)) = fst (pick_victim Gdsf (c\<lparr>ca_clock := clk'\<rparr>))"
proof -
  have "fst (pick_victim Gdsf (c\<lparr>ca_clock := t\<rparr>)) = map_option snd (gdsf_victim t (ca_data c) None)" for t
    by (simp add: pick_victim_def split: option.split)
  moreover have "map_option snd (gdsf_victim t (ca_data c) None) = map_option snd (gdsf_victim 0 (ca_data c) None)" for t
    using gdsf_victim_clock [of t "ca_data c" None] by simp
  ultimately show ?thesis by metis
qed

text \<open>Under \<^verbatim>\<open>lfu\<close> a new key has the lowest count, so a full store of keys used twice admits no new key.\<close>

lemma lfu_refuses_newcomers:
  "map_option (keys_of \<circ> ca_data) (cache_run (small_opts Lfu)
     [OpSet 1 ''a'' (JNum 1) None, OpGet 2 ''a'', OpSet 3 ''b'' (JNum 2) None, OpGet 4 ''b'', OpSet 5 ''c'' (JNum 3) None]) =
   Some [''a'', ''b'']"
  by code_simp

text \<open>One value larger than the byte cap empties the store: the others are evicted first, then itself.\<close>

lemma oversized_value_flushes:
  "map_option (keys_of \<circ> ca_data) (cache_run
     \<lparr>co_maxEntries = None, co_maxBytes = Some 100, co_policy = None, co_sizeOf = (\<lambda>v. Some (if v = JNum 9 then 90 else 1)), co_costOf = None\<rparr>
     [OpSet 1 ''a'' (JNum 1) None, OpSet 2 ''b'' (JNum 2) None, OpSet 3 ''c'' (JNum 9) None]) = Some []"
  by code_simp

end
