(* ===== verification/WorkflowData.thy ===== *)
theory WorkflowData
  imports Json
begin

text \<open>
  Workflow definitions and runs, \<^verbatim>\<open>packages/core/src/workflows.ts\<close>. A value of type \<^verbatim>\<open>unknown\<close> is a JSON
  value or \<^verbatim>\<open>undefined\<close>, the latter being \<open>None\<close>. Descriptions and time stamps that nothing is computed
  from are left out.
\<close>

section \<open>Definitions\<close>

datatype step_type =
    Deterministic | Agentic | Branch | Loop | Condition | Wait | Parallel | SubWorkflow | HumanTask
  | Switch | ForEach | Fork | Join | Dynamic

datatype next_ref = NextStep string | NextSteps "string list"

datatype output_scope = GlobalScope | StepScope

datatype schema_action = SchemaWarn | SchemaFail | SchemaCoerce

record wf_step =
  ws_id :: string
  ws_name :: string
  ws_type :: step_type
  ws_handler :: "string option"
  ws_config :: "payload option"
  ws_next :: "next_ref option"
  ws_timeout :: "int option"
  ws_retries :: "int option"
  ws_retryDelayMs :: "rat option"
  ws_retryBackoffMultiplier :: "rat option"
  ws_retryMaxDelayMs :: "rat option"
  ws_retryJitter :: "bool option"
  ws_globalTimeoutMs :: "int option"
  ws_inputMap :: "(string \<times> string) list option"
  ws_outputMap :: "(string \<times> string) list option"
  ws_onError :: "string option"
  ws_skipIf :: "json option"
  ws_idempotencyKey :: "json option"
  ws_fallbackHandler :: "string option"
  ws_outputSchema :: "payload option"
  ws_outputSchemaAction :: "schema_action option"
  ws_maskFields :: "string list option"
  ws_outputScope :: "output_scope option"
  ws_wakeAfterMs :: "int option"

record wf_policy =
  wp_maxSteps :: "nat option"
  wp_costCeiling :: "rat option"
  wp_dynamicHandlerKinds :: "string list option"
  wp_maxGeneratedSteps :: "nat option"
  wp_maxExpansionDepth :: "nat option"

record wf_def =
  wd_id :: string
  wd_steps :: "wf_step list"
  wd_entryStepId :: string
  wd_policy :: "wf_policy option"

text \<open>A string that is empty counts as absent where the code tests it for truth.\<close>

definition truthy_str :: "string option \<Rightarrow> string option" where
  "truthy_str s = (case s of Some (c # cs) \<Rightarrow> Some (c # cs) | _ \<Rightarrow> None)"

text \<open>\<^verbatim>\<open>Boolean(v)\<close>.\<close>

definition truthy :: "json option \<Rightarrow> bool" where
  "truthy v = (case v of
       None \<Rightarrow> False
     | Some JNull \<Rightarrow> False
     | Some (JBool b) \<Rightarrow> b
     | Some (JNum n) \<Rightarrow> n \<noteq> 0
     | Some (JStr s) \<Rightarrow> s \<noteq> []
     | Some (JArr _) \<Rightarrow> True
     | Some (JObj _) \<Rightarrow> True)"

text \<open>
  A field of a step's \<^verbatim>\<open>config\<close>. The code casts such a field to the type it expects; a field of another
  shape counts as absent here.
\<close>

definition cfg_field :: "wf_step \<Rightarrow> string \<Rightarrow> json option" where
  "cfg_field st k = (case ws_config st of None \<Rightarrow> None | Some cfg \<Rightarrow> map_of cfg k)"

definition str_field :: "string \<times> json \<Rightarrow> (string \<times> string) option" where
  "str_field kv = (case snd kv of JStr s \<Rightarrow> Some (fst kv, s) | _ \<Rightarrow> None)"

definition cfg_strings :: "wf_step \<Rightarrow> string \<Rightarrow> (string \<times> string) list option" where
  "cfg_strings st k = (case cfg_field st k of Some (JObj kvs) \<Rightarrow> Some (List.map_filter str_field kvs) | _ \<Rightarrow> None)"

definition str_item :: "json \<Rightarrow> string option" where
  "str_item v = (case v of JStr s \<Rightarrow> Some s | _ \<Rightarrow> None)"

definition cfg_list :: "wf_step \<Rightarrow> string \<Rightarrow> string list option" where
  "cfg_list st k = (case cfg_field st k of Some (JArr vs) \<Rightarrow> Some (List.map_filter str_item vs) | _ \<Rightarrow> None)"

definition cfg_str :: "wf_step \<Rightarrow> string \<Rightarrow> string option" where
  "cfg_str st k = (case cfg_field st k of Some (JStr s) \<Rightarrow> Some s | _ \<Rightarrow> None)"

text \<open>A string between double quotes.\<close>

definition quoted :: "string \<Rightarrow> string" where
  "quoted s = [CHR 0x22] @ s @ [CHR 0x22]"

section \<open>Runs\<close>

datatype result_status = StepCompleted | StepFailed | StepSkipped

record step_result =
  sr_stepId :: string
  sr_status :: result_status
  sr_output :: "json option"
  sr_error :: "string option"

record wf_state =
  st_current :: string
  st_vars :: payload
  st_ephemeral :: payload
  st_history :: "step_result list"

datatype wf_status = RunPending | RunRunning | RunPaused | RunCompleted | RunFailed | RunCancelled

record wf_run =
  wr_id :: string
  wr_workflowId :: string
  wr_status :: wf_status
  wr_state :: wf_state
  wr_error :: "string option"
  wr_costTotal :: rat
  wr_costBreakdown :: "(string \<times> rat) list"
  wr_traceId :: "string option"
  wr_tenantId :: "string option"
  wr_parentRunId :: "string option"
  wr_childRunIds :: "string list"
  wr_snapshot :: "wf_def option"
  wr_dynamicSteps :: "wf_step list"
  wr_expansionDepth :: nat

end
