(* ===== verification/WorkflowRouting.thy ===== *)
theory WorkflowRouting
  imports WorkflowData
begin

text \<open>
  The state of a run and the routing between steps (\<^verbatim>\<open>packages/workflows/src/state.ts\<close>,
  \<^verbatim>\<open>engine-runner.ts\<close>).
\<close>

section \<open>The state\<close>

definition createInitialState :: "wf_def \<Rightarrow> payload option \<Rightarrow> wf_state" where
  "createInitialState d input =
     \<lparr>st_current = wd_entryStepId d, st_vars = nullish input [], st_ephemeral = [], st_history = []\<rparr>"

definition step_var :: "string \<Rightarrow> string" where
  "step_var i = ''__step_'' @ i"

definition advanceState :: "wf_state \<Rightarrow> step_result \<Rightarrow> string option \<Rightarrow> bool \<Rightarrow> wf_state" where
  "advanceState st r nxt ephemeral =
     (if ephemeral then
        \<lparr>st_current = nullish nxt (st_current st),
         st_vars = st_vars st,
         st_ephemeral = (case sr_output r of Some v \<Rightarrow> [(step_var (sr_stepId r), v)] | None \<Rightarrow> []),
         st_history = st_history st @ [r]\<rparr>
      else
        \<lparr>st_current = nullish nxt (st_current st),
         st_vars = (case sr_output r of Some v \<Rightarrow> AList.update (step_var (sr_stepId r)) v (st_vars st) | None \<Rightarrow> st_vars st),
         st_ephemeral = [],
         st_history = st_history st @ [r]\<rparr>)"

section \<open>The next step\<close>

definition find_step :: "wf_step list \<Rightarrow> string \<Rightarrow> wf_step option" where
  "find_step steps i = find (\<lambda>s. ws_id s = i) steps"

text \<open>
  \<^verbatim>\<open>String(v)\<close>; how a number that is no integer prints is the argument \<open>pr\<close>.
\<close>

fun js_string :: "(rat \<Rightarrow> string) \<Rightarrow> json \<Rightarrow> string" where
  "js_string pr JNull = ''null''"
| "js_string pr (JBool b) = (if b then ''true'' else ''false'')"
| "js_string pr (JNum n) = (if of_int \<lfloor>n\<rfloor> = n then int_str \<lfloor>n\<rfloor> else pr n)"
| "js_string pr (JStr s) = s"
| "js_string pr (JArr xs) =
     (case map (\<lambda>x. if x = JNull then [] else js_string pr x) xs of [] \<Rightarrow> [] | s # ss \<Rightarrow> s @ concat (map (\<lambda>t. '','' @ t) ss))"
| "js_string pr (JObj _) = ''[object Object]''"

text \<open>\<^verbatim>\<open>step.next[i]\<close> with a number for \<open>i\<close>.\<close>

definition nth_next :: "string list \<Rightarrow> rat \<Rightarrow> string option" where
  "nth_next ns i = (if of_int \<lfloor>i\<rfloor> = i \<and> 0 \<le> i \<and> nat \<lfloor>i\<rfloor> < length ns then Some (ns ! nat \<lfloor>i\<rfloor>) else None)"

definition next_array :: "wf_step \<Rightarrow> string list option" where
  "next_array s = (case ws_next s of Some (NextSteps ns) \<Rightarrow> Some ns | _ \<Rightarrow> None)"

definition is_branch_target :: "wf_step list \<Rightarrow> string \<Rightarrow> bool" where
  "is_branch_target steps i = list_ex (\<lambda>s. i \<in> set (nullish (next_array s) [])) steps"

text \<open>The steps that follow the current one in declaration order, up to the first without an id.\<close>

definition later_ids :: "wf_step list \<Rightarrow> string \<Rightarrow> string list" where
  "later_ids steps i = takeWhile (\<lambda>j. j \<noteq> []) (map ws_id (tl (dropWhile (\<lambda>s. ws_id s \<noteq> i) steps)))"

definition fall_through :: "wf_step list \<Rightarrow> string \<Rightarrow> string set \<Rightarrow> string option" where
  "fall_through steps i dyn =
     (if is_branch_target steps i then None
      else find (\<lambda>j. i \<in> dyn \<or> j \<notin> dyn) (later_ids steps i))"

text \<open>What a step with neither a selector nor cases does: its first \<^verbatim>\<open>next\<close>, or declaration order.\<close>

definition plain_next :: "wf_step list \<Rightarrow> wf_step \<Rightarrow> string set \<Rightarrow> string option" where
  "plain_next steps s dyn =
     (case ws_next s of
        Some (NextStep n) \<Rightarrow> Some n
      | Some (NextSteps ns) \<Rightarrow> nth_next ns 0
      | None \<Rightarrow> fall_through steps (ws_id s) dyn)"

definition resolveNextStep ::
  "(rat \<Rightarrow> string) \<Rightarrow> wf_step list \<Rightarrow> string \<Rightarrow> json option \<Rightarrow> string set \<Rightarrow> string option" where
  "resolveNextStep pr steps i out dyn =
     (case find_step steps i of
        None \<Rightarrow> None
      | Some s \<Rightarrow>
          if ws_type s = Branch \<or> ws_type s = Condition then
            (case next_array s of
               Some ns \<Rightarrow> nth_next ns (if truthy out then 0 else 1)
             | None \<Rightarrow> plain_next steps s dyn)
          else if ws_type s = Switch then
            (case cfg_strings s ''cases'' of
               Some cases \<Rightarrow>
                 (case map_of cases (case out of None \<Rightarrow> [] | Some JNull \<Rightarrow> [] | Some v \<Rightarrow> js_string pr v) of
                    Some t \<Rightarrow> Some t
                  | None \<Rightarrow> map_of cases ''default'')
             | None \<Rightarrow>
                 (case next_array s of
                    Some ns \<Rightarrow> nth_next ns (case out of Some (JNum n) \<Rightarrow> n | _ \<Rightarrow> 0)
                  | None \<Rightarrow> plain_next steps s dyn))
          else plain_next steps s dyn)"

definition isTerminal :: "(rat \<Rightarrow> string) \<Rightarrow> wf_step list \<Rightarrow> wf_state \<Rightarrow> string set \<Rightarrow> bool" where
  "isTerminal pr steps st dyn =
     (if find_step steps (st_current st) = None then True
      else if st_history st = [] \<or> sr_stepId (last (st_history st)) \<noteq> st_current st then False
      else resolveNextStep pr steps (st_current st) (sr_output (last (st_history st))) dyn = None)"

text \<open>
  Where a resumed run goes on; the data may carry the name or the index of a branch.
\<close>

definition resolveResumeNextId :: "wf_step \<Rightarrow> json option \<Rightarrow> string option" where
  "resolveResumeNextId s d =
     (case ws_next s of
        None \<Rightarrow> None
      | Some (NextStep n) \<Rightarrow> Some n
      | Some (NextSteps ns) \<Rightarrow>
          (let kvs = (case d of Some (JObj kvs) \<Rightarrow> kvs | _ \<Rightarrow> []);
               by_name = (case map_of kvs ''branch'' of
                            Some (JStr b) \<Rightarrow> if b \<noteq> [] \<and> b \<in> set ns then Some b else None
                          | _ \<Rightarrow> None)
           in case by_name of
                Some b \<Rightarrow> Some b
              | None \<Rightarrow> (case map_of kvs ''branchIndex'' of
                           Some (JNum i) \<Rightarrow> nth_next ns i
                         | _ \<Rightarrow> nth_next ns 0)))"

section \<open>What routing promises\<close>

lemma find_step_SomeD: "find_step steps i = Some s \<Longrightarrow> s \<in> set steps \<and> ws_id s = i"
  by (auto simp: find_step_def dest: find_SomeD)

lemma find_step_append: "find_step (xs @ ys) i = (case find_step xs i of None \<Rightarrow> find_step ys i | Some s \<Rightarrow> Some s)"
  by (cases "find (\<lambda>s. ws_id s = i) xs") (simp_all add: find_step_def find_append)

lemma find_step_None: "find_step steps i = None \<longleftrightarrow> i \<notin> ws_id ` set steps"
  by (auto simp: find_step_def find_None_iff)

lemma advanceState_simps [simp]:
  "st_current (advanceState st r n e) = nullish n (st_current st)"
  "st_history (advanceState st r n e) = st_history st @ [r]"
  by (simp_all add: advanceState_def)

lemma nth_next_mem: "nth_next ns i = Some n \<Longrightarrow> n \<in> set ns"
  by (auto simp: nth_next_def split: if_splits)

lemma fall_through_mem: "fall_through steps i dyn = Some n \<Longrightarrow> n \<in> ws_id ` set steps"
proof -
  assume "fall_through steps i dyn = Some n"
  then have "n \<in> set (later_ids steps i)" by (auto simp: fall_through_def split: if_splits dest: find_SomeD)
  then have "n \<in> ws_id ` set (tl (dropWhile (\<lambda>s. ws_id s \<noteq> i) steps))"
    unfolding later_ids_def using set_takeWhileD by fastforce
  moreover have "set (tl (dropWhile (\<lambda>s. ws_id s \<noteq> i) steps)) \<subseteq> set steps"
    by (metis list.sel(2) list.set_sel(2) set_dropWhileD subsetI)
  ultimately show ?thesis by blast
qed

end
