(* ===== verification/WorkflowPath.thy ===== *)
theory WorkflowPath
  imports WorkflowData
begin

text \<open>
  Dotted paths into JSON values (\<^verbatim>\<open>packages/workflows/src/path.ts\<close>), with which the input and output maps of
  a step are read and written, and the masking of step outputs (\<^verbatim>\<open>secret-masker.ts\<close>). \<^verbatim>\<open>undefined\<close> is
  \<open>None\<close>; writing it removes the member of an object and leaves \<open>JNull\<close> in an array, as do the holes of an
  array that grows. An index is a string of digits: the other numerals \<^verbatim>\<open>Number\<close> reads are not.
\<close>

section \<open>Paths\<close>

definition path_stop :: "char \<Rightarrow> bool" where
  "path_stop c \<longleftrightarrow> c = CHR ''.'' \<or> c = CHR ''['' \<or> c = CHR '']''"

definition seg_of :: "string \<Rightarrow> string list" where
  "seg_of cur = (if cur = [] then [] else [cur])"

text \<open>
  The matches of \<^verbatim>\<open>/[^.[\]]+|\[(\d+)\]/g\<close>: a bracketed index and the same digits between two stops give
  the same segment, so the segments are the longest runs of characters that are none of the three stops.
\<close>

fun split_from :: "string \<Rightarrow> string \<Rightarrow> string list" where
  "split_from cur [] = seg_of cur"
| "split_from cur (c # cs) = (if path_stop c then seg_of cur @ split_from [] cs else split_from (cur @ [c]) cs)"

definition splitPath :: "string \<Rightarrow> string list" where
  "splitPath p = split_from [] p"

definition seg_index :: "string \<Rightarrow> nat option" where
  "seg_index s = (if s \<noteq> [] \<and> list_all is_digit s then Some (str_nat s) else None)"

fun read_segs :: "json option \<Rightarrow> string list \<Rightarrow> json option" where
  "read_segs v [] = v"
| "read_segs (Some (JArr xs)) (s # ss) =
     (case seg_index s of None \<Rightarrow> None | Some i \<Rightarrow> read_segs (if i < length xs then Some (xs ! i) else None) ss)"
| "read_segs (Some (JObj kvs)) (s # ss) = read_segs (map_of kvs s) ss"
| "read_segs _ (s # ss) = None"

definition readPath :: "json option \<Rightarrow> string \<Rightarrow> json option" where
  "readPath v p = (if p = [] then v else read_segs v (splitPath p))"

text \<open>\<^verbatim>\<open>cursor[i] = v\<close> on an array and \<^verbatim>\<open>cursor[k] = v\<close> on an object.\<close>

definition put_at :: "nat \<Rightarrow> json \<Rightarrow> json list \<Rightarrow> json list" where
  "put_at i v xs = (if i < length xs then xs[i := v] else xs @ replicate (i - length xs) JNull @ [v])"

definition put_key :: "string \<Rightarrow> json option \<Rightarrow> payload \<Rightarrow> payload" where
  "put_key k v kvs = (case v of None \<Rightarrow> AList.delete k kvs | Some j \<Rightarrow> AList.update k j kvs)"

definition fresh_node :: "string \<Rightarrow> json" where
  "fresh_node seg = (if seg_index seg \<noteq> None then JArr [] else JObj [])"

definition step_into :: "json option \<Rightarrow> string \<Rightarrow> json" where
  "step_into child seg = (case child of None \<Rightarrow> fresh_node seg | Some JNull \<Rightarrow> fresh_node seg | Some j \<Rightarrow> j)"

text \<open>
  Assigning a member of a primitive throws, the target then being as it was: nothing is created before a
  value that exists is met.
\<close>

fun write_segs :: "json \<Rightarrow> string list \<Rightarrow> json option \<Rightarrow> string + json" where
  "write_segs t [] v = Inr t"
| "write_segs (JObj kvs) [s] v = Inr (JObj (put_key s v kvs))"
| "write_segs (JObj kvs) (s # n # ss) v =
     map_sum id (\<lambda>c. JObj (AList.update s c kvs)) (write_segs (step_into (map_of kvs s) n) (n # ss) v)"
| "write_segs (JArr xs) [s] v =
     (case seg_index s of None \<Rightarrow> Inr (JArr xs) | Some i \<Rightarrow> Inr (JArr (put_at i (nullish v JNull) xs)))"
| "write_segs (JArr xs) (s # n # ss) v =
     (case seg_index s of
        None \<Rightarrow> Inr (JArr xs)
      | Some i \<Rightarrow>
          map_sum id (\<lambda>c. JArr (put_at i c xs))
            (write_segs (step_into (if i < length xs then Some (xs ! i) else None) n) (n # ss) v))"
| "write_segs _ (s # ss) v = Inl (''TypeError: Cannot create property '' @ s)"

definition writePath :: "payload \<Rightarrow> string \<Rightarrow> json option \<Rightarrow> string + payload" where
  "writePath target p v =
     (case write_segs (JObj target) (splitPath p) v of
        Inl e \<Rightarrow> Inl e
      | Inr (JObj kvs) \<Rightarrow> Inr kvs
      | Inr _ \<Rightarrow> Inr target)"

section \<open>The input and output maps\<close>

fun input_loop :: "(string \<times> string) list \<Rightarrow> payload \<Rightarrow> payload \<Rightarrow> string + payload" where
  "input_loop [] vars out = Inr out"
| "input_loop ((k, src) # m) vars out =
     (case writePath out k (readPath (Some (JObj vars)) src) of Inl e \<Rightarrow> Inl e | Inr out' \<Rightarrow> input_loop m vars out')"

definition applyInputMap :: "(string \<times> string) list \<Rightarrow> payload \<Rightarrow> string + payload" where
  "applyInputMap m vars = input_loop m vars []"

text \<open>What was written before a write that throws stays written.\<close>

fun applyOutputMap :: "(string \<times> string) list \<Rightarrow> json option \<Rightarrow> payload \<Rightarrow> string option \<times> payload" where
  "applyOutputMap [] res vars = (None, vars)"
| "applyOutputMap ((dest, src) # m) res vars =
     (case writePath vars dest (if src = [] \<or> src = ''$'' then res else readPath res src) of
        Inl e \<Rightarrow> (Some e, vars)
      | Inr vars' \<Rightarrow> applyOutputMap m res vars')"

section \<open>Masking\<close>

text \<open>\<^verbatim>\<open>p.split('.')\<close>.\<close>

definition split_dots :: "string \<Rightarrow> string list" where
  "split_dots s = split_on (CHR ''.'') s"

fun maskPath :: "string list \<Rightarrow> payload \<Rightarrow> payload" where
  "maskPath [] obj = obj"
| "maskPath [k] obj = (if map_of obj k = None then obj else AList.update k (JStr ''***'') obj)"
| "maskPath (k # ks) obj =
     (case map_of obj k of Some (JObj child) \<Rightarrow> AList.update k (JObj (maskPath ks child)) obj | _ \<Rightarrow> obj)"

fun applyMask :: "string list list \<Rightarrow> json \<Rightarrow> json" where
  "applyMask segs (JArr xs) = JArr (map (applyMask segs) xs)"
| "applyMask segs (JObj obj) = JObj (fold maskPath segs obj)"
| "applyMask segs v = v"

definition maskStepOutput :: "json \<Rightarrow> string list \<Rightarrow> json" where
  "maskStepOutput v masked = (if masked = [] then v else applyMask (map split_dots masked) v)"

section \<open>What the maps promise\<close>

lemma splitPath_plain: "k \<noteq> [] \<Longrightarrow> list_all (\<lambda>c. \<not> path_stop c) k \<Longrightarrow> splitPath k = [k]"
proof -
  have "split_from cur k = seg_of (cur @ k)" if "list_all (\<lambda>c. \<not> path_stop c) k" for cur
    using that by (induction k arbitrary: cur) auto
  then show "k \<noteq> [] \<Longrightarrow> list_all (\<lambda>c. \<not> path_stop c) k \<Longrightarrow> ?thesis"
    by (simp add: splitPath_def seg_of_def)
qed

lemma put_at_nth [simp]: "i < length (put_at i v xs)" "put_at i v xs ! i = v"
  by (auto simp: put_at_def nth_append)

text \<open>A path fits a value when it meets no primitive on its way and no member name on an array.\<close>

fun fits :: "json \<Rightarrow> string list \<Rightarrow> bool" where
  "fits t [] = True"
| "fits (JArr xs) (s # ss) =
     (case seg_index s of None \<Rightarrow> False | Some i \<Rightarrow> i < length xs \<longrightarrow> xs ! i = JNull \<or> fits (xs ! i) ss)"
| "fits (JObj kvs) (s # ss) = (case map_of kvs s of None \<Rightarrow> True | Some c \<Rightarrow> c = JNull \<or> fits c ss)"
| "fits _ (s # ss) = False"

lemma fits_step_into: "(case child of None \<Rightarrow> True | Some c \<Rightarrow> c = JNull \<or> fits c (n # ss)) \<Longrightarrow> fits (step_into child n) (n # ss)"
  by (auto simp: step_into_def fresh_node_def split: option.splits json.splits)

lemma write_read_segs:
  "fits t ss \<Longrightarrow> ss \<noteq> [] \<Longrightarrow> \<exists>t'. write_segs t ss (Some v) = Inr t' \<and> read_segs (Some t') ss = Some v"
proof (induction t ss "Some v" rule: write_segs.induct)
  case (3 kvs s n ss)
  from 3(2) have "fits (step_into (map_of kvs s) n) (n # ss)" by (intro fits_step_into) (simp split: option.splits)
  from 3(1) [OF this] show ?case by auto
next
  case (4 xs s)
  then show ?case by (auto split: option.splits)
next
  case (5 xs s n ss)
  from 5(2) obtain i where i: "seg_index s = Some i" by (auto split: option.splits)
  with 5(2) have "fits (step_into (if i < length xs then Some (xs ! i) else None) n) (n # ss)"
    by (intro fits_step_into) auto
  from 5(1) [OF i this] i show ?case by auto
qed (auto simp: put_key_def)

text \<open>
  A value written at a path is read back at that path, through objects and arrays that exist or are created
  on the way, whenever the path fits the target.
\<close>

theorem write_then_read:
  assumes "splitPath p \<noteq> []" "fits (JObj vars) (splitPath p)"
  shows "\<exists>vars'. writePath vars p (Some v) = Inr vars' \<and> readPath (Some (JObj vars')) p = Some v"
proof -
  from write_read_segs [OF assms(2,1)] obtain t' where t: "write_segs (JObj vars) (splitPath p) (Some v) = Inr t'"
      "read_segs (Some t') (splitPath p) = Some v" by blast
  obtain s ss where "splitPath p = s # ss" using assms(1) by (cases "splitPath p") auto
  with t(1) obtain kvs where "t' = JObj kvs"
    by (cases ss; cases "write_segs (step_into (map_of vars s) (hd ss)) ss (Some v)") (auto simp: put_key_def)
  moreover have "p \<noteq> []" using assms(1) by (auto simp: splitPath_def seg_of_def)
  ultimately show ?thesis using t by (auto simp: writePath_def readPath_def)
qed

theorem write_then_read_witness:
  "\<exists>vars'. writePath [(''a'', JObj [(''b'', JArr [JNum 1])])] ''a.b[2].c'' (Some (JStr ''x'')) = Inr vars' \<and>
     readPath (Some (JObj vars')) ''a.b[2].c'' = Some (JStr ''x'')"
  by (rule write_then_read)
     (simp_all add: splitPath_def seg_of_def path_stop_def seg_index_def is_digit_def str_nat_def)

end
