(* ===== verification/WorkflowSteps.thy ===== *)
theory WorkflowSteps
  imports WorkflowRouting WorkflowPath
begin

text \<open>
  The executors of the step types (\<^verbatim>\<open>packages/workflows/src/steps.ts\<close>) and the handlers they call. A handler
  is any function of the variables, the step's config and an outside world \<open>'e\<close>. It answers with a thrown
  value (already printed by \<^verbatim>\<open>String\<close>) or an output, and the variables object it was given as it left it,
  since the code passes that object by reference; with how long it took, which only a step timeout looks
  at; and with what it reported to the cost meter. Handlers started together by \<^verbatim>\<open>Promise.all\<close> run here
  one after the other in order, and the first that throws in that order decides.
\<close>

section \<open>Handlers\<close>

record 'e call_result =
  cl_out :: "string + json option"
  cl_vars :: payload
  cl_ms :: int
  cl_cost :: rat
  cl_world :: 'e

type_synonym 'e handler = "payload \<Rightarrow> payload option \<Rightarrow> 'e \<Rightarrow> 'e call_result"
type_synonym 'e handlers = "string \<Rightarrow> 'e handler option"

text \<open>What an executor threads through: the variables, the reported cost and the world.\<close>

record 'e cx =
  cx_vars :: payload
  cx_cost :: rat
  cx_world :: 'e

definition run_handler :: "'e handler \<Rightarrow> payload option \<Rightarrow> int option \<Rightarrow> string \<Rightarrow> 'e cx \<Rightarrow> (string + json option) \<times> 'e cx" where
  "run_handler fn cfg limit i c =
     (let r = fn (cx_vars c) cfg (cx_world c);
          c' = c\<lparr>cx_vars := cl_vars r, cx_cost := cx_cost c + max 0 (cl_cost r), cx_world := cl_world r\<rparr>
      in (case limit of
            Some t \<Rightarrow> if 0 < t \<and> t < cl_ms r
                      then Inl (''Error: Step '' @ quoted i @ '' timed out after '' @ int_str t @ ''ms'')
                      else cl_out r
          | None \<Rightarrow> cl_out r, c'))"

text \<open>A handler called with \<^verbatim>\<open>{...state.variables, ...extra}\<close> works on a copy.\<close>

definition run_copy :: "'e handler \<Rightarrow> payload option \<Rightarrow> payload \<Rightarrow> 'e cx \<Rightarrow> (string + json option) \<times> 'e cx" where
  "run_copy fn cfg extra c =
     (let (out, c') = run_handler fn cfg None [] (c\<lparr>cx_vars := spread (cx_vars c) extra\<rparr>) in (out, c'\<lparr>cx_vars := cx_vars c\<rparr>))"

section \<open>Executors\<close>

definition step_ok :: "wf_step \<Rightarrow> json option \<Rightarrow> step_result" where
  "step_ok s out = \<lparr>sr_stepId = ws_id s, sr_status = StepCompleted, sr_output = out, sr_error = None\<rparr>"

definition step_err :: "wf_step \<Rightarrow> string \<Rightarrow> step_result" where
  "step_err s e = \<lparr>sr_stepId = ws_id s, sr_status = StepFailed, sr_output = None, sr_error = Some e\<rparr>"

definition settle_step :: "wf_step \<Rightarrow> (string + json option) \<times> 'e cx \<Rightarrow> step_result \<times> 'e cx" where
  "settle_step s r = (case fst r of Inl e \<Rightarrow> (step_err s e, snd r) | Inr out \<Rightarrow> (step_ok s out, snd r))"

definition handler_key :: "wf_step \<Rightarrow> string" where
  "handler_key s = nullish (ws_handler s) (ws_id s)"

definition with_handler ::
  "string \<Rightarrow> wf_step \<Rightarrow> 'e handlers \<Rightarrow> ('e handler \<Rightarrow> step_result \<times> 'e cx) \<Rightarrow> 'e cx \<Rightarrow> step_result \<times> 'e cx" where
  "with_handler what s hs k c =
     (case hs (handler_key s) of
        None \<Rightarrow> (step_err s (what @ quoted (handler_key s)), c)
      | Some fn \<Rightarrow> k fn)"

definition executeDeterministic :: "wf_step \<Rightarrow> 'e handlers \<Rightarrow> 'e cx \<Rightarrow> step_result \<times> 'e cx" where
  "executeDeterministic s hs c =
     with_handler ''No handler registered for '' s hs (\<lambda>fn. settle_step s (run_handler fn (ws_config s) (ws_timeout s) (ws_id s) c)) c"

definition executeCondition :: "wf_step \<Rightarrow> 'e handlers \<Rightarrow> 'e cx \<Rightarrow> step_result \<times> 'e cx" where
  "executeCondition s hs c =
     with_handler ''No condition handler for '' s hs
       (\<lambda>fn. let r = run_handler fn (ws_config s) (ws_timeout s) (ws_id s) c
             in settle_step s (map_sum id (\<lambda>out. Some (JBool (truthy out))) (fst r), snd r)) c"

definition executeBranch :: "wf_step \<Rightarrow> 'e handlers \<Rightarrow> 'e cx \<Rightarrow> step_result \<times> 'e cx" where
  "executeBranch s hs c =
     with_handler ''No branch handler for '' s hs (\<lambda>fn. settle_step s (run_handler fn (ws_config s) None (ws_id s) c)) c"

definition executeSwitch :: "wf_step \<Rightarrow> 'e handlers \<Rightarrow> 'e cx \<Rightarrow> step_result \<times> 'e cx" where
  "executeSwitch s hs c =
     with_handler ''No switch handler for '' s hs (\<lambda>fn. settle_step s (run_handler fn (ws_config s) (ws_timeout s) (ws_id s) c)) c"

text \<open>\<^verbatim>\<open>undefined\<close> in an array of results is printed as \<open>JNull\<close>, as JSON does.\<close>

definition arr :: "json option list \<Rightarrow> json" where
  "arr xs = JArr (map (\<lambda>x. nullish x JNull) xs)"

definition count_of :: "nat \<Rightarrow> string \<times> json" where
  "count_of n = (''count'', JNum (of_nat n))"

text \<open>The body of a loop, once per item.\<close>

fun loop_body :: "'e handler \<Rightarrow> payload option \<Rightarrow> json list \<Rightarrow> json option list \<Rightarrow> 'e cx \<Rightarrow> (string + json option list) \<times> 'e cx" where
  "loop_body fn cfg [] acc c = (Inr acc, c)"
| "loop_body fn cfg (item # items) acc c =
     (case run_copy fn cfg [(''__loopItem'', item)] c of
        (Inl e, c') \<Rightarrow> (Inl e, c')
      | (Inr out, c') \<Rightarrow> loop_body fn cfg items (acc @ [out]) c')"

text \<open>What loop and forEach share: the list of items, and a body that may be missing.\<close>

definition over_items ::
  "string \<Rightarrow> wf_step \<Rightarrow> 'e handlers \<Rightarrow> ('e handler \<Rightarrow> json list \<Rightarrow> 'e cx \<Rightarrow> (string + json option) \<times> 'e cx) \<Rightarrow> 'e cx \<Rightarrow>
   step_result \<times> 'e cx" where
  "over_items what s hs body c =
     with_handler (''No '' @ what @ '' handler for '') s hs
       (\<lambda>fn. case run_handler fn (ws_config s) None (ws_id s) c of
           (Inl e, c') \<Rightarrow> (step_err s e, c')
         | (Inr (Some (JArr items)), c') \<Rightarrow>
             (case truthy_str (cfg_str s ''bodyHandler'') of
                None \<Rightarrow> (step_ok s (Some (JObj [count_of (length items), (''items'', JArr items)])), c')
              | Some b \<Rightarrow>
                  (case hs b of
                     None \<Rightarrow> (step_err s (''No '' @ what @ '' body handler for '' @ quoted b), c')
                   | Some bodyFn \<Rightarrow> settle_step s (body bodyFn items c')))
         | (Inr out, c') \<Rightarrow> (step_ok s out, c')) c"

definition executeLoop :: "wf_step \<Rightarrow> 'e handlers \<Rightarrow> 'e cx \<Rightarrow> step_result \<times> 'e cx" where
  "executeLoop s hs =
     over_items ''loop'' s hs
       (\<lambda>fn items c. case loop_body fn (ws_config s) items [] c of
            (Inl e, c') \<Rightarrow> (Inl e, c')
          | (Inr outs, c') \<Rightarrow> (Inr (Some (JObj [count_of (length items), (''results'', arr outs)])), c'))"

definition executeWait :: "wf_step \<Rightarrow> 'e cx \<Rightarrow> step_result \<times> 'e cx" where
  "executeWait s c = (step_ok s (Some (JObj [(''paused'', JBool True)])), c)"

definition executeHumanTask :: "wf_step \<Rightarrow> 'e cx \<Rightarrow> step_result \<times> 'e cx" where
  "executeHumanTask s c = (step_ok s (Some (JObj [(''humanTaskRequired'', JBool True)])), c)"

text \<open>
  Named lanes: every lane starts, also after one that has no handler. \<open>copy\<close> is what the variables are
  spread with, or nothing when the lanes share the object itself.
\<close>

fun run_lanes ::
  "(string \<Rightarrow> string \<Rightarrow> string) \<Rightarrow> (string \<Rightarrow> payload) option \<Rightarrow> 'e handlers \<Rightarrow> payload option \<Rightarrow> (string \<times> string) list \<Rightarrow>
   'e cx \<Rightarrow> (string + (string \<times> json option) list) \<times> 'e cx" where
  "run_lanes miss copy hs cfg [] c = (Inr [], c)"
| "run_lanes miss copy hs cfg ((lane, key) # lanes) c =
     (let (out, c') =
        (case hs key of
           None \<Rightarrow> (Inl (miss lane key), c)
         | Some fn \<Rightarrow> (case copy of None \<Rightarrow> run_handler fn cfg None [] c | Some f \<Rightarrow> run_copy fn cfg (f lane) c));
          (rest, c'') = run_lanes miss copy hs cfg lanes c'
      in (case out of
            Inl e \<Rightarrow> Inl e
          | Inr v \<Rightarrow> (case rest of Inl e \<Rightarrow> Inl e | Inr vs \<Rightarrow> Inr ((lane, v) # vs)), c''))"

text \<open>\<^verbatim>\<open>Object.fromEntries\<close>; a lane that returned \<^verbatim>\<open>undefined\<close> has no member.\<close>

definition from_entries :: "(string \<times> json option) list \<Rightarrow> json" where
  "from_entries kvs = JObj (fold (\<lambda>(k, v) m. put_key k v m) kvs [])"

definition lane_missing :: "string \<Rightarrow> string \<Rightarrow> string" where
  "lane_missing lane key =
     ''Error: No handler registered for parallel lane '' @ quoted lane @ '' (handler: '' @
     quoted key @ '')''"

definition positional_missing :: "string \<Rightarrow> string \<Rightarrow> string" where
  "positional_missing lane key = ''Error: No parallel handler registered for '' @ quoted key"

definition branch_missing :: "string \<Rightarrow> string \<Rightarrow> string" where
  "branch_missing lane key =
     ''Error: No handler for fork branch '' @ quoted lane @ '' (handler: '' @
     quoted key @ '')''"

definition executeParallel :: "wf_step \<Rightarrow> 'e handlers \<Rightarrow> 'e cx \<Rightarrow> step_result \<times> 'e cx" where
  "executeParallel s hs c =
     (let lanes = nullish (cfg_strings s ''lanes'') []; keys = nullish (cfg_list s ''parallelHandlers'') [] in
      if lanes \<noteq> [] then
        (case run_lanes lane_missing None hs (ws_config s) lanes c of
           (Inl e, c') \<Rightarrow> (step_err s e, c')
         | (Inr vs, c') \<Rightarrow> (step_ok s (Some (from_entries vs)), c'))
      else if keys = [] then executeDeterministic s hs c
      else
        (case run_lanes positional_missing None hs (ws_config s) (map (\<lambda>k. (k, k)) keys) c of
           (Inl e, c') \<Rightarrow> (step_err s e, c')
         | (Inr vs, c') \<Rightarrow> (step_ok s (Some (JObj [count_of (length vs), (''results'', arr (map snd vs))])), c')))"

text \<open>A body that returns \<^verbatim>\<open>{ __break: true }\<close> stops the iteration.\<close>

definition breaks :: "json option \<Rightarrow> bool" where
  "breaks v = (case v of Some (JObj kvs) \<Rightarrow> map_of kvs ''__break'' = Some (JBool True) | _ \<Rightarrow> False)"

definition item_vars :: "json \<Rightarrow> nat \<Rightarrow> payload" where
  "item_vars item i = [(''__forEachItem'', item), (''__forEachIndex'', JNum (of_nat i))]"

fun serial_items ::
  "'e handler \<Rightarrow> payload option \<Rightarrow> json list \<Rightarrow> json option list \<Rightarrow> 'e cx \<Rightarrow> (string + json option list \<times> bool) \<times> 'e cx" where
  "serial_items fn cfg [] acc c = (Inr (acc, False), c)"
| "serial_items fn cfg (item # items) acc c =
     (case run_copy fn cfg (item_vars item (length acc)) c of
        (Inl e, c') \<Rightarrow> (Inl e, c')
      | (Inr out, c') \<Rightarrow> if breaks out then (Inr (acc, True), c') else serial_items fn cfg items (acc @ [out]) c')"

text \<open>One batch: every item of it runs.\<close>

fun batch_items ::
  "'e handler \<Rightarrow> payload option \<Rightarrow> (nat \<times> json) list \<Rightarrow> 'e cx \<Rightarrow> (string + json option list) \<times> 'e cx" where
  "batch_items fn cfg [] c = (Inr [], c)"
| "batch_items fn cfg ((i, item) # items) c =
     (let (out, c') = run_copy fn cfg (item_vars item i) c;
          (rest, c'') = batch_items fn cfg items c'
      in (case out of Inl e \<Rightarrow> Inl e | Inr v \<Rightarrow> (case rest of Inl e \<Rightarrow> Inl e | Inr vs \<Rightarrow> Inr (v # vs)), c''))"

function batches ::
  "'e handler \<Rightarrow> payload option \<Rightarrow> nat \<Rightarrow> (nat \<times> json) list \<Rightarrow> json option list \<Rightarrow> 'e cx \<Rightarrow>
   (string + json option list \<times> bool) \<times> 'e cx" where
  "batches fn cfg n items acc c =
     (if items = [] then (Inr (acc, False), c)
      else case batch_items fn cfg (take (Suc n) items) c of
          (Inl e, c') \<Rightarrow> (Inl e, c')
        | (Inr outs, c') \<Rightarrow>
            if list_ex breaks outs then (Inr (acc @ takeWhile (\<lambda>v. \<not> breaks v) outs, True), c')
            else batches fn cfg n (drop (Suc n) items) (acc @ outs) c')"
  by pat_completeness auto
termination
  by (relation "measure (\<lambda>(fn, cfg, n, items, acc, c). length items)") (auto simp: Suc_le_eq)

text \<open>
  \<^verbatim>\<open>Math.max(1, config.maxConcurrency ?? 1)\<close>; a number that is no integer cuts its batches at the positions
  \<^verbatim>\<open>slice\<close> truncates to, which is not modelled.
\<close>

definition cfg_concurrency :: "wf_step \<Rightarrow> nat" where
  "cfg_concurrency s = (case cfg_field s ''maxConcurrency'' of Some (JNum n) \<Rightarrow> nat (max 1 \<lfloor>n\<rfloor>) | _ \<Rightarrow> 1)"

definition for_each_body :: "wf_step \<Rightarrow> 'e handler \<Rightarrow> json list \<Rightarrow> 'e cx \<Rightarrow> (string + json option) \<times> 'e cx" where
  "for_each_body s fn items c =
     (let m = cfg_concurrency s in
      case (if m = 1 then serial_items fn (ws_config s) items [] c
            else batches fn (ws_config s) (m - 1) (enumerate 0 items) [] c) of
        (Inl e, c') \<Rightarrow> (Inl e, c')
      | (Inr (outs, broke), c') \<Rightarrow>
          (Inr (Some (JObj [count_of (length outs), (''results'', arr outs), (''broke'', JBool broke)])), c'))"

definition executeForEach :: "wf_step \<Rightarrow> 'e handlers \<Rightarrow> 'e cx \<Rightarrow> step_result \<times> 'e cx" where
  "executeForEach s hs = over_items ''forEach'' s hs (for_each_body s)"

definition executeFork :: "wf_step \<Rightarrow> 'e handlers \<Rightarrow> 'e cx \<Rightarrow> step_result \<times> 'e cx" where
  "executeFork s hs c =
     (let branches = nullish (cfg_strings s ''branches'') [] in
      if branches = [] then (step_err s ''fork step requires config.branches: Record<branchName, handlerKey>'', c)
      else
        (case run_lanes branch_missing (Some (\<lambda>b. [(''__forkBranch'', JStr b)])) hs (ws_config s) branches c of
           (Inl e, c') \<Rightarrow> (step_err s e, c')
         | (Inr vs, c') \<Rightarrow> (step_ok s (Some (from_entries vs)), c')))"

definition is_container :: "json \<Rightarrow> bool" where
  "is_container v = (case v of JArr _ \<Rightarrow> True | JObj _ \<Rightarrow> True | _ \<Rightarrow> False)"

definition executeJoin :: "wf_step \<Rightarrow> 'e cx \<Rightarrow> step_result \<times> 'e cx" where
  "executeJoin s c =
     (case truthy_str (cfg_str s ''forkStepId'') of
        None \<Rightarrow> (step_err s ''join step requires config.forkStepId'', c)
      | Some f \<Rightarrow>
          (case map_of (cx_vars c) (step_var f) of
             None \<Rightarrow> (step_err s (''join: no output found for fork step '' @ quoted f), c)
           | Some v \<Rightarrow>
               (case cfg_list s ''branches'' of
                  Some names \<Rightarrow>
                    if is_container v then (step_ok s (Some (from_entries (map (\<lambda>n. (n, read_segs (Some v) [n])) names))), c)
                    else (step_ok s (Some v), c)
                | None \<Rightarrow> (step_ok s (Some v), c))))"

definition executeStep :: "wf_step \<Rightarrow> 'e handlers \<Rightarrow> 'e cx \<Rightarrow> step_result \<times> 'e cx" where
  "executeStep s hs c =
     (case ws_type s of
        Deterministic \<Rightarrow> executeDeterministic s hs c
      | Agentic \<Rightarrow> executeDeterministic s hs c
      | Condition \<Rightarrow> executeCondition s hs c
      | Branch \<Rightarrow> executeBranch s hs c
      | Loop \<Rightarrow> executeLoop s hs c
      | Wait \<Rightarrow> executeWait s c
      | Parallel \<Rightarrow> executeParallel s hs c
      | SubWorkflow \<Rightarrow> executeDeterministic s hs c
      | HumanTask \<Rightarrow> executeHumanTask s c
      | Switch \<Rightarrow> executeSwitch s hs c
      | ForEach \<Rightarrow> executeForEach s hs c
      | Fork \<Rightarrow> executeFork s hs c
      | Join \<Rightarrow> executeJoin s c
      | Dynamic \<Rightarrow> executeDeterministic s hs c)"

end
