(* ===== verification/WorkflowLint.thy ===== *)
theory WorkflowLint
  imports WorkflowData
begin

text \<open>
  Static analysis of workflow definitions, \<^verbatim>\<open>packages/workflows/src/linter.ts\<close>: broken references, unreachable
  steps and cycles by depth first search, and the adjacency list for the editor. An em dash in a message is
  written as a hyphen.
\<close>

section \<open>The graph\<close>

text \<open>\<^verbatim>\<open>new Map(def.steps.map(s => [s.id, s]))\<close>: of two steps with one id the later one is found.\<close>

definition stepMap :: "wf_step list \<Rightarrow> string \<Rightarrow> wf_step option" where
  "stepMap steps i = map_of (rev (map (\<lambda>s. (ws_id s, s)) steps)) i"

definition nextsOf :: "wf_step \<Rightarrow> string list" where
  "nextsOf s = (case ws_next s of
       Some (NextSteps ns) \<Rightarrow> ns
     | Some (NextStep n) \<Rightarrow> if n = [] then [] else [n]
     | None \<Rightarrow> [])"

definition outIds :: "wf_step \<Rightarrow> string list" where
  "outIds s = nextsOf s @ (case truthy_str (ws_onError s) of None \<Rightarrow> [] | Some t \<Rightarrow> [t])"

text \<open>All ids the searches can meet below a step.\<close>

definition targets :: "wf_step list \<Rightarrow> string set" where
  "targets steps = (\<Union>s\<in>set steps. set (outIds s))"

lemma finite_targets [simp]: "finite (targets steps)"
  by (simp add: targets_def)

lemma stepMap_in: "stepMap steps i = Some s \<Longrightarrow> s \<in> set steps \<and> ws_id s = i"
  by (auto simp: stepMap_def dest!: map_of_SomeD)

lemma outIds_targets: "stepMap steps i = Some s \<Longrightarrow> set (outIds s) \<subseteq> targets steps"
  by (auto simp: targets_def dest!: stepMap_in)

lemma nextsOf_targets: "stepMap steps i = Some s \<Longrightarrow> set (nextsOf s) \<subseteq> targets steps"
  using outIds_targets [of steps i s] by (auto simp: outIds_def)

section \<open>Reachability\<close>

text \<open>The stack has its top at the head; \<^verbatim>\<open>push\<close> puts each target not yet reached on top.\<close>

function reach_loop :: "wf_step list \<Rightarrow> string list \<Rightarrow> string set \<Rightarrow> string set" where
  "reach_loop steps [] seen = seen"
| "reach_loop steps (i # stack) seen =
     (if i \<in> seen then reach_loop steps stack seen
      else case stepMap steps i of
          None \<Rightarrow> reach_loop steps stack (insert i seen)
        | Some s \<Rightarrow> reach_loop steps (rev (filter (\<lambda>n. n \<notin> insert i seen) (outIds s)) @ stack) (insert i seen))"
  by pat_completeness auto
termination
proof (relation "measures [\<lambda>(steps, stack, seen). card ((set stack \<union> targets steps) - seen), \<lambda>(steps, stack, seen). length stack]",
    goal_cases)
  case (2 steps i stack seen)
  then have "(set stack \<union> targets steps) - seen \<subseteq> (set (i # stack) \<union> targets steps) - seen" by auto
  then have "card ((set stack \<union> targets steps) - seen) \<le> card ((set (i # stack) \<union> targets steps) - seen)"
    by (intro card_mono) auto
  then show ?case by auto
next
  case (3 steps i stack seen)
  then have "(set stack \<union> targets steps) - insert i seen \<subset> (set (i # stack) \<union> targets steps) - seen" by auto
  then have "card ((set stack \<union> targets steps) - insert i seen) < card ((set (i # stack) \<union> targets steps) - seen)"
    by (intro psubset_card_mono) auto
  then show ?case by simp
next
  case (4 steps i stack seen s)
  let ?new = "rev (filter (\<lambda>n. n \<notin> insert i seen) (outIds s)) @ stack"
  have "(set ?new \<union> targets steps) - insert i seen \<subset> (set (i # stack) \<union> targets steps) - seen"
    using 4 outIds_targets [OF 4(2)] by auto
  then have "card ((set ?new \<union> targets steps) - insert i seen) < card ((set (i # stack) \<union> targets steps) - seen)"
    by (intro psubset_card_mono) auto
  then show ?case by simp
qed simp

definition reachableSteps :: "wf_def \<Rightarrow> string set" where
  "reachableSteps d = reach_loop (wd_steps d) [wd_entryStepId d] {}"

section \<open>Cycles\<close>

text \<open>
  \<^verbatim>\<open>hasCycle\<close> over the list of ids still to look at, with the visited ids and the recursion stack; it
  returns both as the call leaves them.
\<close>

function cycle_from :: "wf_step list \<Rightarrow> string list \<Rightarrow> string set \<Rightarrow> string set \<Rightarrow> bool \<times> string set \<times> string set" where
  "cycle_from steps [] visited recs = (False, visited, recs)"
| "cycle_from steps (n # ns) visited recs =
     (if n \<notin> visited then
        (case stepMap steps n of
           None \<Rightarrow> cycle_from steps ns (insert n visited) (insert n recs - {n})
         | Some s \<Rightarrow>
             (let r = cycle_from steps (nextsOf s) (insert n visited) (insert n recs)
              in if fst r then r else cycle_from steps ns (fst (snd r)) (snd (snd r) - {n})))
      else if n \<in> recs then (True, visited, recs)
      else cycle_from steps ns visited recs)"
  by pat_completeness auto
termination
proof -
  have grows: "visited \<subseteq> fst (snd (cycle_from steps ns visited recs))" if "cycle_from_dom (steps, ns, visited, recs)"
    for steps ns visited recs
    using that
  proof (induction rule: cycle_from.pinduct)
    case (1 steps visited recs)
    then show ?case by (simp add: cycle_from.psimps)
  next
    case (2 steps n ns visited recs)
    show ?case
    proof (cases "n \<in> visited")
      case True
      with 2 show ?thesis by (cases "n \<in> recs") (auto simp: cycle_from.psimps)
    next
      case False
      show ?thesis
      proof (cases "stepMap steps n")
        case None
        with 2 False show ?thesis by (auto simp: cycle_from.psimps)
      next
        case (Some s)
        note IH = 2(3) [OF False Some] 2(4) [OF False Some refl]
        with 2(1) False Some show ?thesis
          by (cases "fst (cycle_from steps (nextsOf s) (insert n visited) (insert n recs))")
             (auto simp: cycle_from.psimps Let_def)
      qed
    qed
  qed
  show ?thesis
  proof (relation "measures [\<lambda>(steps, ns, visited, recs). card ((set ns \<union> targets steps) - visited),
      \<lambda>(steps, ns, visited, recs). length ns]", goal_cases)
    case (2 steps n ns visited recs)
    then have "(set ns \<union> targets steps) - insert n visited \<subset> (set (n # ns) \<union> targets steps) - visited" by auto
    then have "card ((set ns \<union> targets steps) - insert n visited) < card ((set (n # ns) \<union> targets steps) - visited)"
      by (intro psubset_card_mono) auto
    then show ?case by simp
  next
    case (3 steps n ns visited recs s)
    then have "(set (nextsOf s) \<union> targets steps) - insert n visited \<subset> (set (n # ns) \<union> targets steps) - visited"
      using nextsOf_targets [OF 3(2)] by auto
    then have "card ((set (nextsOf s) \<union> targets steps) - insert n visited) < card ((set (n # ns) \<union> targets steps) - visited)"
      by (intro psubset_card_mono) auto
    then show ?case by simp
  next
    case (4 steps n ns visited recs s r)
    from grows [OF 4(5)] 4(3) have "insert n visited \<subseteq> fst (snd r)" by simp
    with 4(1) have "(set ns \<union> targets steps) - fst (snd r) \<subset> (set (n # ns) \<union> targets steps) - visited" by auto
    then have "card ((set ns \<union> targets steps) - fst (snd r)) < card ((set (n # ns) \<union> targets steps) - visited)"
      by (intro psubset_card_mono) auto
    then show ?case by simp
  next
    case (5 steps n ns visited recs)
    have "card ((set ns \<union> targets steps) - visited) \<le> card ((set (n # ns) \<union> targets steps) - visited)"
      by (intro card_mono) auto
    then show ?case by auto
  qed simp
qed

definition hasCycle :: "wf_step list \<Rightarrow> string \<Rightarrow> string set \<Rightarrow> string set \<Rightarrow> bool \<times> string set \<times> string set" where
  "hasCycle steps i visited recs = cycle_from steps [i] visited recs"

fun cycle_scan :: "wf_step list \<Rightarrow> wf_step list \<Rightarrow> string set \<Rightarrow> string set \<Rightarrow> string option" where
  "cycle_scan steps [] visited recs = None"
| "cycle_scan steps (s # ss) visited recs =
     (if ws_id s \<notin> visited then
        (let r = hasCycle steps (ws_id s) visited recs
         in if fst r then Some (ws_id s) else cycle_scan steps ss (fst (snd r)) (snd (snd r)))
      else cycle_scan steps ss visited recs)"

section \<open>Findings\<close>

datatype severity = LintError | LintWarning

record lint_result =
  li_severity :: severity
  li_stepId :: "string option"
  li_rule :: string
  li_message :: string

definition lint_entry :: "wf_def \<Rightarrow> lint_result list" where
  "lint_entry d =
     (if stepMap (wd_steps d) (wd_entryStepId d) = None
      then [\<lparr>li_severity = LintError, li_stepId = None, li_rule = ''missing-entry-step'',
              li_message = ''Entry step '' @ quoted (wd_entryStepId d) @ '' is not defined in steps''\<rparr>]
      else [])"

definition lint_nexts :: "wf_def \<Rightarrow> wf_step \<Rightarrow> lint_result list" where
  "lint_nexts d s =
     map (\<lambda>n. \<lparr>li_severity = LintError, li_stepId = Some (ws_id s), li_rule = ''broken-next-reference'',
            li_message = ''Step '' @ quoted (ws_id s) @ '' references unknown next step '' @ quoted n\<rparr>)
       (filter (\<lambda>n. stepMap (wd_steps d) n = None) (nextsOf s))"

definition lint_branches :: "wf_step \<Rightarrow> lint_result list" where
  "lint_branches s =
     (let nexts = nextsOf s in
      (if ws_type s = Condition \<and> length nexts \<noteq> 2
       then [\<lparr>li_severity = LintError, li_stepId = Some (ws_id s), li_rule = ''condition-next-length'',
               li_message = ''Condition step '' @ quoted (ws_id s) @
                 '' must have exactly 2 next entries (true, false); got '' @ nat_str (length nexts)\<rparr>] else []) @
      (if ws_type s = Branch \<and> nexts = []
       then [\<lparr>li_severity = LintWarning, li_stepId = Some (ws_id s), li_rule = ''branch-no-next'',
               li_message = ''Branch step '' @ quoted (ws_id s) @ '' has no next entries - all branches will fall through''\<rparr>] else []) @
      (if ws_type s = Switch \<and> nexts = []
       then [\<lparr>li_severity = LintWarning, li_stepId = Some (ws_id s), li_rule = ''switch-no-cases'',
               li_message = ''Switch step '' @ quoted (ws_id s) @ '' has no next entries - switch will always fall through''\<rparr>] else []))"

definition lint_parallel :: "wf_step \<Rightarrow> lint_result list" where
  "lint_parallel s =
     (if ws_type s = Parallel \<and> cfg_strings s ''lanes'' = None \<and> nullish (cfg_list s ''parallelHandlers'') [] = []
      then [\<lparr>li_severity = LintWarning, li_stepId = Some (ws_id s), li_rule = ''parallel-no-handlers'',
              li_message = ''Parallel step '' @ quoted (ws_id s) @ '' has neither lanes nor parallelHandlers configured''\<rparr>]
      else [])"

definition lint_missing_next :: "wf_def \<Rightarrow> wf_step \<Rightarrow> lint_result list" where
  "lint_missing_next d s =
     (if ws_type s \<notin> {Wait, HumanTask, Condition, Branch, Switch} \<and> nextsOf s = [] \<and>
         length (wd_steps d) > 1 \<and> ws_id s \<noteq> ws_id (last (wd_steps d))
      then [\<lparr>li_severity = LintWarning, li_stepId = Some (ws_id s), li_rule = ''missing-next'',
              li_message = ''Step '' @ quoted (ws_id s) @ '' has no '' @ quoted ''next'' @
                '' - it will terminate the run when reached (may be intentional)''\<rparr>]
      else [])"

definition lint_handler :: "wf_step \<Rightarrow> lint_result list" where
  "lint_handler s =
     (if truthy_str (ws_handler s) = None \<and> (ws_type s = Deterministic \<or> ws_type s = Agentic)
      then [\<lparr>li_severity = LintWarning, li_stepId = Some (ws_id s), li_rule = ''missing-handler'',
              li_message = (if ws_type s = Agentic then ''Agentic step '' else ''Deterministic step '') @
                quoted (ws_id s) @ '' has no handler set''\<rparr>]
      else [])"

definition lint_step :: "wf_def \<Rightarrow> wf_step \<Rightarrow> lint_result list" where
  "lint_step d s = lint_nexts d s @ lint_branches s @ lint_parallel s @ lint_missing_next d s @ lint_handler s"

definition lint_unreachable :: "wf_def \<Rightarrow> lint_result list" where
  "lint_unreachable d =
     map (\<lambda>s. \<lparr>li_severity = LintWarning, li_stepId = Some (ws_id s), li_rule = ''unreachable-step'',
            li_message = ''Step '' @ quoted (ws_id s) @ '' is unreachable from entry step '' @ quoted (wd_entryStepId d)\<rparr>)
       (filter (\<lambda>s. ws_id s \<notin> reachableSteps d) (wd_steps d))"

definition lint_cycle :: "wf_def \<Rightarrow> lint_result list" where
  "lint_cycle d =
     (case cycle_scan (wd_steps d) (wd_steps d) {} {} of
        None \<Rightarrow> []
      | Some i \<Rightarrow> [\<lparr>li_severity = LintError, li_stepId = Some i, li_rule = ''circular-reference'',
                    li_message = ''Step '' @ quoted i @ '' is part of a cycle in the step graph''\<rparr>])"

definition lintWorkflow :: "wf_def \<Rightarrow> lint_result list" where
  "lintWorkflow d = lint_entry d @ concat (map (lint_step d) (wd_steps d)) @ lint_unreachable d @ lint_cycle d"

section \<open>The adjacency list\<close>

record graph_node =
  gn_id :: string
  gn_name :: string
  gn_type :: step_type
  gn_handler :: "string option"
  gn_isEntry :: bool
  gn_isTerminal :: bool

record graph_edge =
  ge_from :: string
  ge_to :: string
  ge_label :: "string option"

record wf_graph =
  gr_nodes :: "graph_node list"
  gr_edges :: "graph_edge list"
  gr_entryStepId :: string
  gr_unreachable :: "string list"

definition edge_to :: "wf_step \<Rightarrow> string option \<Rightarrow> string \<Rightarrow> graph_edge" where
  "edge_to s l n = \<lparr>ge_from = ws_id s, ge_to = n, ge_label = l\<rparr>"

text \<open>The label of the \<open>i\<close>-th case: an entry of \<^verbatim>\<open>config.cases\<close> read as an array, or the position.\<close>

definition case_label :: "wf_step \<Rightarrow> nat \<Rightarrow> string" where
  "case_label s i = (case cfg_list s ''cases'' of Some ls \<Rightarrow> if i < length ls then ls ! i else nat_str i | None \<Rightarrow> nat_str i)"

definition edges_of :: "wf_step \<Rightarrow> graph_edge list" where
  "edges_of s =
     (let nexts = nextsOf s in
      case ws_type s of
        Condition \<Rightarrow>
          (if length nexts > 0 \<and> nexts ! 0 \<noteq> [] then [edge_to s (Some ''true'') (nexts ! 0)] else []) @
          (if length nexts > 1 \<and> nexts ! 1 \<noteq> [] then [edge_to s (Some ''false'') (nexts ! 1)] else [])
      | Branch \<Rightarrow> map (\<lambda>i. edge_to s (Some (case_label s i)) (nexts ! i)) [0..<length nexts]
      | Switch \<Rightarrow> map (\<lambda>i. edge_to s (Some (case_label s i)) (nexts ! i)) [0..<length nexts]
      | _ \<Rightarrow> map (edge_to s None) nexts)"

definition node_of_step :: "wf_def \<Rightarrow> wf_step \<Rightarrow> graph_node" where
  "node_of_step d s =
     \<lparr>gn_id = ws_id s, gn_name = ws_name s, gn_type = ws_type s, gn_handler = ws_handler s,
      gn_isEntry = (ws_id s = wd_entryStepId d),
      gn_isTerminal = (ws_id s \<in> ws_id ` set (filter (\<lambda>t. nextsOf t = []) (wd_steps d)))\<rparr>"

definition getWorkflowGraph :: "wf_def \<Rightarrow> wf_graph" where
  "getWorkflowGraph d =
     \<lparr>gr_nodes = map (node_of_step d) (wd_steps d), gr_edges = concat (map edges_of (wd_steps d)),
      gr_entryStepId = wd_entryStepId d,
      gr_unreachable = map ws_id (filter (\<lambda>s. ws_id s \<notin> reachableSteps d) (wd_steps d))\<rparr>"

end
