(* ===== verification/WorkflowStores.thy ===== *)
theory WorkflowStores
  imports WorkflowSteps WorkflowLint
begin

text \<open>
  What the engine is configured with and what it writes to: the in-memory run repository, checkpoint store,
  step locks, idempotency cache, sleep records and cost meter (\<^verbatim>\<open>packages/workflows/src/run-repository.ts\<close>,
  \<^verbatim>\<open>checkpoint-store.ts\<close>, \<^verbatim>\<open>step-lock-store.ts\<close>, \<^verbatim>\<open>idempotency-store.ts\<close>, \<^verbatim>\<open>sleep-store.ts\<close>,
  \<^verbatim>\<open>cost-meter.ts\<close>). Times are milliseconds.
\<close>

section \<open>The options\<close>

record task_request =
  tq_type :: string
  tq_title :: string
  tq_description :: "string option"
  tq_priority :: string
  tq_data :: json
  tq_runId :: string
  tq_stepId :: string

type_synonym 'e compensation = "step_result \<Rightarrow> payload \<Rightarrow> 'e \<Rightarrow> string option \<times> payload \<times> 'e"

text \<open>
  The evaluator of expressions and the schema validator (\<^verbatim>\<open>expressions.ts\<close>, \<^verbatim>\<open>output-schema-validator.ts\<close>),
  the printing of numbers and dates, the clock, the timer, the random numbers, the ids, and how a JSON
  object that a handler returns is read as a step are arguments; so is the queue of human tasks. A compensation
  answers with the error it threw, if any. The stores a deployment may leave out are switched by
  \<open>wo_locks\<close>, \<open>wo_idempotency\<close> and \<open>wo_sleeps\<close>.
\<close>

record 'e wf_opts =
  wo_eval :: "json \<Rightarrow> payload \<Rightarrow> json option"
  wo_validate :: "payload \<Rightarrow> schema_action \<Rightarrow> json \<Rightarrow> string list \<times> json option"
  wo_print :: "rat \<Rightarrow> string"
  wo_iso :: "int \<Rightarrow> string"
  wo_now :: "'e \<Rightarrow> int"
  wo_sleep :: "int \<Rightarrow> 'e \<Rightarrow> 'e"
  wo_random :: "'e \<Rightarrow> rat \<times> 'e"
  wo_newId :: "nat \<Rightarrow> string"
  wo_readStep :: "json \<Rightarrow> wf_step"
  wo_humanTask :: "(task_request \<Rightarrow> 'e \<Rightarrow> string \<times> 'e) option"
  wo_locks :: bool
  wo_idempotency :: bool
  wo_sleeps :: bool
  wo_defaultPolicy :: "wf_policy option"
  wo_handlers :: "'e handlers"
  wo_compensations :: "string \<Rightarrow> 'e compensation option"

section \<open>The stores\<close>

record wf_checkpoint =
  cp_id :: string
  cp_runId :: string
  cp_workflowId :: "string option"
  cp_stepId :: string
  cp_state :: wf_state
  cp_createdAt :: int

record step_lock =
  lk_runId :: string
  lk_stepId :: string
  lk_done :: bool
  lk_output :: "json option"

record 'e wf_stores =
  sto_world :: 'e
  sto_ids :: nat
  sto_runs :: "(string \<times> wf_run) list"
  sto_cache :: "(string \<times> wf_run) list"
  sto_checkpoints :: "(string \<times> wf_checkpoint) list"
  sto_locks :: "(string \<times> step_lock) list"
  sto_idem :: "(string \<times> json option) list"
  sto_costs :: "(string \<times> rat) list"
  sto_sleeps :: "(string \<times> int) list"

definition save_run :: "wf_run \<Rightarrow> 'e wf_stores \<Rightarrow> 'e wf_stores" where
  "save_run r sto =
     sto\<lparr>sto_runs := AList.update (wr_id r) r (sto_runs sto), sto_cache := AList.update (wr_id r) r (sto_cache sto)\<rparr>"

definition fresh_id :: "'e wf_opts \<Rightarrow> 'e wf_stores \<Rightarrow> string \<times> 'e wf_stores" where
  "fresh_id opts sto = (wo_newId opts (sto_ids sto), sto\<lparr>sto_ids := Suc (sto_ids sto)\<rparr>)"

definition save_checkpoint :: "'e wf_opts \<Rightarrow> wf_run \<Rightarrow> string \<Rightarrow> 'e wf_stores \<Rightarrow> 'e wf_stores" where
  "save_checkpoint opts r i sto =
     (let (cid, sto') = fresh_id opts sto;
          cp = \<lparr>cp_id = cid, cp_runId = wr_id r, cp_workflowId = Some (wr_workflowId r), cp_stepId = i,
                cp_state = wr_state r, cp_createdAt = wo_now opts (sto_world sto)\<rparr>
      in sto'\<lparr>sto_checkpoints := AList.update cid cp (sto_checkpoints sto')\<rparr>)"

text \<open>\<^verbatim>\<open>latest\<close> keeps the first of two checkpoints created in one millisecond.\<close>

fun later_cp :: "string \<Rightarrow> wf_checkpoint option \<Rightarrow> wf_checkpoint list \<Rightarrow> wf_checkpoint option" where
  "later_cp i best [] = best"
| "later_cp i best (cp # cps) =
     later_cp i (if cp_runId cp = i \<and> (case best of None \<Rightarrow> True | Some b \<Rightarrow> cp_createdAt b < cp_createdAt cp)
                 then Some cp else best) cps"

definition latest_checkpoint :: "string \<Rightarrow> 'e wf_stores \<Rightarrow> wf_checkpoint option" where
  "latest_checkpoint i sto = later_cp i None (map snd (sto_checkpoints sto))"

definition lock_key :: "string \<Rightarrow> string \<Rightarrow> string" where
  "lock_key r s = r @ '':'' @ s"

definition lock_step :: "string \<Rightarrow> string \<Rightarrow> 'e wf_stores \<Rightarrow> 'e wf_stores" where
  "lock_step r s sto =
     (if map_of (sto_locks sto) (lock_key r s) = None
      then sto\<lparr>sto_locks := AList.update (lock_key r s) \<lparr>lk_runId = r, lk_stepId = s, lk_done = False, lk_output = None\<rparr> (sto_locks sto)\<rparr>
      else sto)"

definition mark_done :: "string \<Rightarrow> string \<Rightarrow> json option \<Rightarrow> 'e wf_stores \<Rightarrow> 'e wf_stores" where
  "mark_done r s out sto =
     sto\<lparr>sto_locks := AList.update (lock_key r s) \<lparr>lk_runId = r, lk_stepId = s, lk_done = True, lk_output = out\<rparr> (sto_locks sto)\<rparr>"

definition done_output :: "string \<Rightarrow> string \<Rightarrow> 'e wf_stores \<Rightarrow> json option option" where
  "done_output r s sto =
     (case map_of (sto_locks sto) (lock_key r s) of Some l \<Rightarrow> if lk_done l then Some (lk_output l) else None | None \<Rightarrow> None)"

definition clear_locks :: "string \<Rightarrow> 'e wf_stores \<Rightarrow> 'e wf_stores" where
  "clear_locks r sto = sto\<lparr>sto_locks := filter (\<lambda>kv. \<not> starts_with (r @ '':'') (fst kv)) (sto_locks sto)\<rparr>"

text \<open>A cached \<^verbatim>\<open>undefined\<close> reads like a missing entry.\<close>

definition idem_get :: "string \<Rightarrow> 'e wf_stores \<Rightarrow> json option" where
  "idem_get k sto = (case map_of (sto_idem sto) k of Some v \<Rightarrow> v | None \<Rightarrow> None)"

definition idem_set :: "string \<Rightarrow> json option \<Rightarrow> 'e wf_stores \<Rightarrow> 'e wf_stores" where
  "idem_set k v sto = sto\<lparr>sto_idem := AList.update k v (sto_idem sto)\<rparr>"

definition cost_total :: "string \<Rightarrow> 'e wf_stores \<Rightarrow> rat" where
  "cost_total r sto = nullish (map_of (sto_costs sto) r) 0"

definition cost_record :: "string \<Rightarrow> rat \<Rightarrow> 'e wf_stores \<Rightarrow> 'e wf_stores" where
  "cost_record r c sto =
     (if c \<le> 0 then sto else sto\<lparr>sto_costs := AList.update r (cost_total r sto + c) (sto_costs sto)\<rparr>)"

definition schedule_sleep :: "string \<Rightarrow> int \<Rightarrow> 'e wf_stores \<Rightarrow> 'e wf_stores" where
  "schedule_sleep r t sto = sto\<lparr>sto_sleeps := AList.update r t (sto_sleeps sto)\<rparr>"

section \<open>Compensations\<close>

text \<open>\<^verbatim>\<open>runCompensations\<close> over the list already reversed: every entry gets its turn, whatever the others do.\<close>

fun comp_loop ::
  "(string \<Rightarrow> 'e compensation option) \<Rightarrow> step_result list \<Rightarrow> string list \<Rightarrow> (string \<times> string) list \<Rightarrow> payload \<Rightarrow> 'e \<Rightarrow>
   string list \<times> (string \<times> string) list \<times> payload \<times> 'e" where
  "comp_loop reg [] comped errs vars w = (comped, errs, vars, w)"
| "comp_loop reg (r # rs) comped errs vars w =
     (case reg (sr_stepId r) of
        None \<Rightarrow> comp_loop reg rs comped errs vars w
      | Some h \<Rightarrow>
          (case h r vars w of
             (None, vars', w') \<Rightarrow> comp_loop reg rs (comped @ [sr_stepId r]) errs vars' w'
           | (Some e, vars', w') \<Rightarrow> comp_loop reg rs comped (errs @ [(sr_stepId r, e)]) vars' w'))"

definition runCompensations ::
  "(string \<Rightarrow> 'e compensation option) \<Rightarrow> step_result list \<Rightarrow> payload \<Rightarrow> 'e \<Rightarrow>
   string list \<times> (string \<times> string) list \<times> payload \<times> 'e" where
  "runCompensations reg completed vars w = comp_loop reg (rev completed) [] [] vars w"

section \<open>Retry delays\<close>

text \<open>\<^verbatim>\<open>computeRetryDelay\<close>; \<^verbatim>\<open>Math.round\<close> rounds halves up.\<close>

definition js_round :: "rat \<Rightarrow> int" where
  "js_round x = \<lfloor>x + 1 / 2\<rfloor>"

definition computeRetryDelay :: "nat \<Rightarrow> rat \<Rightarrow> rat \<Rightarrow> rat \<Rightarrow> rat option \<Rightarrow> int" where
  "computeRetryDelay attempt base mult cap random =
     (let clamped = min (base * mult ^ (attempt - 1)) cap in
      js_round (case random of None \<Rightarrow> clamped | Some u \<Rightarrow> clamped * (1 / 2 + u * (1 / 2))))"

end
