(* ===== verification/WorkflowEngine.thy ===== *)
theory WorkflowEngine
  imports WorkflowStores
begin

text \<open>
  The run loop of \<^verbatim>\<open>DefaultWorkflowEngine\<close> (\<^verbatim>\<open>packages/workflows/src/engine.ts\<close>) for an engine without resolver
  registry, payload store, rate limiter and run queue: one turn of the loop per step, with skipping, cached
  and replayed outputs, retries, the fallback handler, error boundaries, compensation, pauses and the
  splicing of generated steps.
\<close>

section \<open>Calling a step\<close>

text \<open>\<^verbatim>\<open>hasExpression\<close> and \<^verbatim>\<open>executeStepWithExpressionFallback\<close>.\<close>

definition step_expression :: "wf_step \<Rightarrow> json option" where
  "step_expression s =
     (if ws_type s = Condition \<or> ws_type s = Branch then
        (case cfg_field s ''expression'' of Some v \<Rightarrow> if is_container v then Some v else None | None \<Rightarrow> None)
      else None)"

definition executeStepWithExpression :: "'e wf_opts \<Rightarrow> wf_step \<Rightarrow> 'e handlers \<Rightarrow> 'e cx \<Rightarrow> step_result \<times> 'e cx" where
  "executeStepWithExpression opts s hs c =
     (case step_expression s of
        Some e \<Rightarrow>
          (step_ok s (if ws_type s = Condition then Some (JBool (truthy (wo_eval opts e (cx_vars c)))) else wo_eval opts e (cx_vars c)), c)
      | None \<Rightarrow> executeStep s hs c)"

definition set_vars :: "payload \<Rightarrow> wf_run \<Rightarrow> wf_run" where
  "set_vars vars r = r\<lparr>wr_state := (wr_state r)\<lparr>st_vars := vars\<rparr>\<rparr>"

abbreviation run_vars :: "wf_run \<Rightarrow> payload" where
  "run_vars r \<equiv> st_vars (wr_state r)"

text \<open>Whatever a call did to the variables object, the meter and the world is there after it, also when it failed.\<close>

definition leave_cx :: "'e cx \<Rightarrow> wf_run \<Rightarrow> 'e wf_stores \<Rightarrow> wf_run \<times> 'e wf_stores" where
  "leave_cx c r sto = (set_vars (cx_vars c) r, cost_record (wr_id r) (cx_cost c) (sto\<lparr>sto_world := cx_world c\<rparr>))"

definition call_step :: "'e wf_opts \<Rightarrow> 'e handlers \<Rightarrow> wf_step \<Rightarrow> wf_run \<Rightarrow> 'e wf_stores \<Rightarrow> step_result \<times> wf_run \<times> 'e wf_stores" where
  "call_step opts hs s r sto =
     (let (res, c) = executeStepWithExpression opts s hs \<lparr>cx_vars = run_vars r, cx_cost = 0, cx_world = sto_world sto\<rparr>
      in (res, leave_cx c r sto))"

section \<open>Input and output maps\<close>

definition wrapHandlerWithIO :: "wf_step \<Rightarrow> 'e handler \<Rightarrow> 'e handler" where
  "wrapHandlerWithIO s fn =
     (if ws_inputMap s = None \<and> ws_outputMap s = None then fn
      else (\<lambda>vars cfg w.
        case (case ws_inputMap s of Some m \<Rightarrow> applyInputMap m vars | None \<Rightarrow> Inr vars) of
          Inl e \<Rightarrow> \<lparr>cl_out = Inl e, cl_vars = vars, cl_ms = 0, cl_cost = 0, cl_world = w\<rparr>
        | Inr args \<Rightarrow>
            (let r = fn args cfg w; vars' = (if ws_inputMap s = None then cl_vars r else vars) in
             case (cl_out r, ws_outputMap s) of
               (Inr out, Some m) \<Rightarrow>
                 (case applyOutputMap m out vars' of
                    (None, vars'') \<Rightarrow> r\<lparr>cl_vars := vars''\<rparr>
                  | (Some e, vars'') \<Rightarrow> r\<lparr>cl_out := Inl e, cl_vars := vars''\<rparr>)
             | _ \<Rightarrow> r\<lparr>cl_vars := vars'\<rparr>)))"

text \<open>Steps that share a handler wrap one another's wrapped handler.\<close>

fun applyIOMappingForRun :: "wf_step list \<Rightarrow> 'e handlers \<Rightarrow> 'e handlers" where
  "applyIOMappingForRun [] hs = hs"
| "applyIOMappingForRun (s # ss) hs =
     (if ws_inputMap s = None \<and> ws_outputMap s = None then applyIOMappingForRun ss hs
      else case hs (handler_key s) of
          None \<Rightarrow> applyIOMappingForRun ss hs
        | Some fn \<Rightarrow> applyIOMappingForRun ss (hs(handler_key s \<mapsto> wrapHandlerWithIO s fn)))"

section \<open>After a success\<close>

definition join_with :: "string \<Rightarrow> string list \<Rightarrow> string" where
  "join_with sep ss = (case ss of [] \<Rightarrow> [] | t # ts \<Rightarrow> t @ concat (map (\<lambda>u. sep @ u) ts))"

text \<open>The cost a handler put into its output.\<close>

definition tagged_cost :: "json option \<Rightarrow> rat option" where
  "tagged_cost out =
     (case out of
        Some (JObj kvs) \<Rightarrow> (case map_of kvs ''__cost'' of Some (JNum c) \<Rightarrow> if 0 < c then Some c else None | _ \<Rightarrow> None)
      | _ \<Rightarrow> None)"

definition strip_cost :: "json option \<Rightarrow> json option" where
  "strip_cost out = (case out of Some (JObj kvs) \<Rightarrow> Some (JObj (AList.delete ''__cost'' kvs)) | _ \<Rightarrow> out)"

text \<open>Schema validation: the error, or the output, coerced when the action says so.\<close>

definition validate_output :: "'e wf_opts \<Rightarrow> wf_step \<Rightarrow> json option \<Rightarrow> string + json option" where
  "validate_output opts s out =
     (case (ws_outputSchema s, out) of
        (Some schema, Some v) \<Rightarrow>
          (let action = nullish (ws_outputSchemaAction s) SchemaWarn; (errs, coerced) = wo_validate opts schema action v
           in if errs \<noteq> [] \<and> action = SchemaFail then Inl (''Output schema validation failed: '' @ join_with ''; '' errs)
              else Inr (if action = SchemaCoerce \<and> coerced \<noteq> None then coerced else out))
      | _ \<Rightarrow> Inr out)"

definition mask_output :: "wf_step \<Rightarrow> json option \<Rightarrow> json option" where
  "mask_output s out = map_option (\<lambda>v. maskStepOutput v (nullish (ws_maskFields s) [])) out"

definition postProcessSuccess ::
  "'e wf_opts \<Rightarrow> wf_step \<Rightarrow> step_result \<Rightarrow> wf_run \<Rightarrow> 'e wf_stores \<Rightarrow> step_result \<times> wf_run \<times> 'e wf_stores" where
  "postProcessSuccess opts s res r sto =
     (case validate_output opts s (sr_output res) of
        Inl e \<Rightarrow> (step_err s e, r, sto)
      | Inr out \<Rightarrow>
          (let masked = mask_output s out in
           case tagged_cost masked of
             None \<Rightarrow> (res\<lparr>sr_output := masked\<rparr>, r, sto)
           | Some c \<Rightarrow>
               (res\<lparr>sr_output := strip_cost masked\<rparr>,
                r\<lparr>wr_costBreakdown :=
                    AList.update (handler_key s) (nullish (map_of (wr_costBreakdown r) (handler_key s)) 0 + c) (wr_costBreakdown r)\<rparr>,
                cost_record (wr_id r) c sto)))"

section \<open>Ends of a run\<close>

definition completeRun :: "wf_run \<Rightarrow> 'e wf_stores \<Rightarrow> wf_run \<times> 'e wf_stores" where
  "completeRun r sto = (r\<lparr>wr_status := RunCompleted, wr_costTotal := cost_total (wr_id r) sto\<rparr>, clear_locks (wr_id r) sto)"

definition failRun :: "string \<Rightarrow> wf_run \<Rightarrow> 'e wf_stores \<Rightarrow> wf_run \<times> 'e wf_stores" where
  "failRun e r sto = (r\<lparr>wr_status := RunFailed, wr_error := Some e\<rparr>, clear_locks (wr_id r) sto)"

section \<open>Moving on\<close>

definition eff_steps :: "wf_def \<Rightarrow> wf_run \<Rightarrow> wf_step list" where
  "eff_steps d r = wd_steps d @ wr_dynamicSteps r"

definition dyn_ids :: "wf_run \<Rightarrow> string set" where
  "dyn_ids r = ws_id ` set (wr_dynamicSteps r)"

definition route :: "'e wf_opts \<Rightarrow> wf_def \<Rightarrow> wf_run \<Rightarrow> step_result \<Rightarrow> string option" where
  "route opts d r res = resolveNextStep (wo_print opts) (eff_steps d r) (sr_stepId res) (sr_output res) (dyn_ids r)"

definition enter_state :: "step_result \<Rightarrow> string option \<Rightarrow> bool \<Rightarrow> string list \<Rightarrow> wf_run \<Rightarrow> wf_run" where
  "enter_state res nxt eph promoted r =
     (let st = advanceState (wr_state r) res nxt eph
      in r\<lparr>wr_state := st\<lparr>st_vars := fold AList.delete promoted (st_vars st)\<rparr>\<rparr>)"

text \<open>
  \<open>strict\<close>: the paths that also end the run where there is no next step, or an empty one.
\<close>

definition move_on ::
  "'e wf_opts \<Rightarrow> wf_def \<Rightarrow> bool \<Rightarrow> bool \<Rightarrow> string list \<Rightarrow> wf_step \<Rightarrow> step_result \<Rightarrow> wf_run \<Rightarrow> 'e wf_stores \<Rightarrow> wf_run \<times> 'e wf_stores" where
  "move_on opts d strict eph promoted s res r sto =
     (let nxt = route opts d r res;
          r' = enter_state res nxt eph promoted r;
          sto' = save_checkpoint opts r' (ws_id s) sto
      in if strict \<and> truthy_str nxt = None \<or> isTerminal (wo_print opts) (eff_steps d r') (wr_state r') (dyn_ids r')
         then completeRun r' sto' else (r', sto'))"

definition error_boundary ::
  "'e wf_opts \<Rightarrow> string \<Rightarrow> string list \<Rightarrow> wf_step \<Rightarrow> step_result \<Rightarrow> wf_run \<Rightarrow> 'e wf_stores \<Rightarrow> wf_run \<times> 'e wf_stores" where
  "error_boundary opts target promoted s res r sto =
     (let err = JObj [(''message'', JStr (nullish (sr_error res) ''Step failed'')), (''stepId'', JStr (ws_id s)),
                      (''timestamp'', JStr (wo_iso opts (wo_now opts (sto_world sto))))];
          r1 = set_vars (AList.update ''__error'' err (run_vars r)) r;
          r2 = enter_state res (Some target) False promoted r1
      in (r2, save_checkpoint opts r2 (ws_id s) sto))"

section \<open>Guards before a step\<close>

definition idem_key :: "'e wf_opts \<Rightarrow> wf_step \<Rightarrow> wf_run \<Rightarrow> string option" where
  "idem_key opts s r =
     (if wo_idempotency opts then
        map_option (\<lambda>e. ws_id s @ '':'' @ (case wo_eval opts e (run_vars r) of None \<Rightarrow> [] | Some JNull \<Rightarrow> [] | Some v \<Rightarrow> js_string (wo_print opts) v))
          (ws_idempotencyKey s)
      else None)"

definition remember :: "'e wf_opts \<Rightarrow> wf_step \<Rightarrow> json option \<Rightarrow> wf_run \<Rightarrow> 'e wf_stores \<Rightarrow> 'e wf_stores" where
  "remember opts s out r sto = (case idem_key opts s r of None \<Rightarrow> sto | Some k \<Rightarrow> idem_set k out sto)"

definition settle_lock :: "'e wf_opts \<Rightarrow> wf_step \<Rightarrow> json option \<Rightarrow> wf_run \<Rightarrow> 'e wf_stores \<Rightarrow> 'e wf_stores" where
  "settle_lock opts s out r sto = (if wo_locks opts then mark_done (wr_id r) (ws_id s) out sto else sto)"

definition skip_res :: "wf_step \<Rightarrow> step_result" where
  "skip_res s = \<lparr>sr_stepId = ws_id s, sr_status = StepSkipped, sr_output = None, sr_error = None\<rparr>"

definition skips :: "'e wf_opts \<Rightarrow> wf_step \<Rightarrow> wf_run \<Rightarrow> bool" where
  "skips opts s r = (case ws_skipIf s of None \<Rightarrow> False | Some e \<Rightarrow> truthy (wo_eval opts e (run_vars r)))"

definition ctx_of :: "wf_run \<Rightarrow> wf_step \<Rightarrow> nat \<Rightarrow> json" where
  "ctx_of r s attempt =
     JObj ([(''traceId'', JStr (nullish (wr_traceId r) ''unknown''))] @
           (case wr_tenantId r of None \<Rightarrow> [] | Some t \<Rightarrow> [(''tenantId'', JStr t)]) @
           [(''runId'', JStr (wr_id r)), (''stepId'', JStr (ws_id s)), (''attempt'', JNum (of_nat attempt))])"

text \<open>
  The ephemeral variables of the step before are put among the variables, to be taken out again after the
  step, and the context of the step is set.
\<close>

definition promote :: "wf_step \<Rightarrow> wf_run \<Rightarrow> wf_run" where
  "promote s r =
     (let st = wr_state r
      in r\<lparr>wr_state := st\<lparr>st_vars := AList.update ''__ctx'' (ctx_of r s 1) (spread (st_vars st) (st_ephemeral st)), st_ephemeral := []\<rparr>\<rparr>)"

definition promoted_keys :: "wf_run \<Rightarrow> string list" where
  "promoted_keys r = keys_of (st_ephemeral (wr_state r))"

section \<open>After a failure\<close>

definition set_attempt :: "nat \<Rightarrow> wf_run \<Rightarrow> wf_run" where
  "set_attempt n r =
     (case map_of (run_vars r) ''__ctx'' of
        Some (JObj kvs) \<Rightarrow> set_vars (AList.update ''__ctx'' (JObj (AList.update ''attempt'' (JNum (of_nat n)) kvs)) (run_vars r)) r
      | _ \<Rightarrow> r)"

definition deadline_past :: "int option \<Rightarrow> int \<Rightarrow> bool" where
  "deadline_past deadline t = (case deadline of None \<Rightarrow> False | Some dl \<Rightarrow> dl \<le> t)"

definition budget_spent :: "wf_step \<Rightarrow> nat \<Rightarrow> step_result" where
  "budget_spent s n =
     step_err s (''Retry budget exhausted: '' @ int_str (nullish (ws_globalTimeoutMs s) 0) @
       ''ms global timeout exceeded after '' @ nat_str n @ '' retries'')"

definition retry_pause :: "'e wf_opts \<Rightarrow> wf_step \<Rightarrow> nat \<Rightarrow> int option \<Rightarrow> 'e \<Rightarrow> 'e" where
  "retry_pause opts s attempt deadline w =
     (let base = nullish (ws_retryDelayMs s) 0 in
      if base \<le> 0 then w
      else
        (let (u, w1) = (if nullish (ws_retryJitter s) False then (let (x, w') = wo_random opts w in (Some x, w')) else (None, w));
             delay = computeRetryDelay attempt base (nullish (ws_retryBackoffMultiplier s) 2) (nullish (ws_retryMaxDelayMs s) 30000) u;
             ms = (case deadline of Some dl \<Rightarrow> if dl \<noteq> 0 then min delay (max 0 (dl - wo_now opts w1)) else delay | None \<Rightarrow> delay)
         in if 0 < ms then wo_sleep opts ms w1 else w1))"

fun retry_loop ::
  "'e wf_opts \<Rightarrow> 'e handlers \<Rightarrow> wf_step \<Rightarrow> int option \<Rightarrow> nat \<Rightarrow> nat \<Rightarrow> step_result \<Rightarrow> wf_run \<Rightarrow> 'e wf_stores \<Rightarrow>
   step_result \<times> wf_run \<times> 'e wf_stores" where
  "retry_loop opts hs s deadline 0 attempt res r sto = (res, r, sto)"
| "retry_loop opts hs s deadline (Suc left) attempt res r sto =
     (if sr_status res \<noteq> StepFailed then (res, r, sto)
      else if deadline_past deadline (wo_now opts (sto_world sto)) then (budget_spent s attempt, r, sto)
      else
        (let sto1 = sto\<lparr>sto_world := retry_pause opts s (Suc attempt) deadline (sto_world sto)\<rparr> in
         if deadline_past deadline (wo_now opts (sto_world sto1)) then (budget_spent s (Suc attempt), r, sto1)
         else
           (let (res', r', sto') = call_step opts hs s (set_attempt (Suc (Suc attempt)) r) sto1
            in retry_loop opts hs s deadline left (Suc attempt) res' r' sto')))"

definition retry_step ::
  "'e wf_opts \<Rightarrow> 'e handlers \<Rightarrow> wf_step \<Rightarrow> step_result \<Rightarrow> wf_run \<Rightarrow> 'e wf_stores \<Rightarrow> step_result \<times> wf_run \<times> 'e wf_stores" where
  "retry_step opts hs s res r sto =
     (let deadline = (case ws_globalTimeoutMs s of
                        Some t \<Rightarrow> if t \<noteq> 0 then Some (wo_now opts (sto_world sto) + t) else None | None \<Rightarrow> None)
      in retry_loop opts hs s deadline (nat (nullish (ws_retries s) 0)) 0 res r sto)"

text \<open>What a late success still has to do: the caches, then the next step.\<close>

definition late_success ::
  "'e wf_opts \<Rightarrow> wf_def \<Rightarrow> string list \<Rightarrow> wf_step \<Rightarrow> step_result \<Rightarrow> wf_run \<Rightarrow> 'e wf_stores \<Rightarrow> wf_run \<times> 'e wf_stores" where
  "late_success opts d promoted s res r sto =
     move_on opts d False (ws_outputScope s = Some StepScope) promoted s res r
       (settle_lock opts s (sr_output res) r (remember opts s (sr_output res) r sto))"

text \<open>The fallback handler: its result, or nothing when there is none or it fails as well.\<close>

definition run_fallback ::
  "'e wf_opts \<Rightarrow> 'e handlers \<Rightarrow> wf_step \<Rightarrow> step_result \<Rightarrow> wf_run \<Rightarrow> 'e wf_stores \<Rightarrow> step_result option \<times> wf_run \<times> 'e wf_stores" where
  "run_fallback opts hs s failed r sto =
     (case (case truthy_str (ws_fallbackHandler s) of None \<Rightarrow> None | Some k \<Rightarrow> hs k) of
        None \<Rightarrow> (None, r, sto)
      | Some fn \<Rightarrow>
          (let (out, c) = run_copy fn (ws_config s) [(''__failedError'', JStr (nullish (sr_error failed) ''Step failed''))]
                 \<lparr>cx_vars = run_vars r, cx_cost = 0, cx_world = sto_world sto\<rparr>;
               (r1, sto1) = leave_cx c r sto
           in case out of
                Inl e \<Rightarrow> (None, r1, sto1)
              | Inr v \<Rightarrow>
                  (case postProcessSuccess opts s (step_ok s v) r1 sto1 of
                     (res, r2, sto2) \<Rightarrow> (if sr_status res = StepFailed then None else Some res, r2, sto2))))"

text \<open>The end of a failure: the error boundary, or compensation in reverse order and a failed run.\<close>

definition give_up ::
  "'e wf_opts \<Rightarrow> string list \<Rightarrow> wf_step \<Rightarrow> step_result \<Rightarrow> wf_run \<Rightarrow> 'e wf_stores \<Rightarrow> wf_run \<times> 'e wf_stores" where
  "give_up opts promoted s failed r sto =
     (case truthy_str (ws_onError s) of
        Some target \<Rightarrow> error_boundary opts target promoted s failed r sto
      | None \<Rightarrow>
          (let (comped, errs, vars, w) =
                 runCompensations (wo_compensations opts) (filter (\<lambda>h. sr_status h = StepCompleted) (st_history (wr_state r)))
                   (run_vars r) (sto_world sto);
               msg = nullish (sr_error failed) ''Step failed'';
               full = (if errs = [] then msg
                       else msg @ ''; compensation errors: '' @ join_with '', '' (map (\<lambda>(i, e). i @ '': '' @ e) errs))
           in failRun full (set_vars vars r) (sto\<lparr>sto_world := w\<rparr>)))"

text \<open>
  After retries that did not end in a success that passes validation, the failure at hand is the result of
  the last attempt, also when that attempt completed and only its validation failed.
\<close>

definition after_failure ::
  "'e wf_opts \<Rightarrow> wf_def \<Rightarrow> 'e handlers \<Rightarrow> string list \<Rightarrow> wf_step \<Rightarrow> step_result \<Rightarrow> wf_run \<Rightarrow> 'e wf_stores \<Rightarrow> wf_run \<times> 'e wf_stores" where
  "after_failure opts d hs promoted s failed r sto =
     (let (res, r1, sto1) = retry_step opts hs s failed r sto;
          (processed, r2, sto2) = (if sr_status res = StepCompleted then postProcessSuccess opts s res r1 sto1 else (res, r1, sto1))
      in if sr_status processed = StepCompleted then late_success opts d promoted s processed r2 sto2
         else
           (case run_fallback opts hs s res r2 sto2 of
              (Some fb, r3, sto3) \<Rightarrow> late_success opts d promoted s fb r3 sto3
            | (None, r3, sto3) \<Rightarrow> give_up opts promoted s res r3 sto3))"

end
