(* ===== verification/WorkflowLoop.thy ===== *)
theory WorkflowLoop
  imports WorkflowEngine
begin

text \<open>
  The rest of \<^verbatim>\<open>engine.ts\<close>: pauses, generated steps, one turn of the loop, the loop itself and the operations
  on runs that start it. An em dash in a message is written as a hyphen.
\<close>

section \<open>Pauses\<close>

definition pause_run :: "'e wf_opts \<Rightarrow> wf_step \<Rightarrow> step_result \<Rightarrow> wf_run \<Rightarrow> 'e wf_stores \<Rightarrow> wf_run \<times> 'e wf_stores" where
  "pause_run opts s res r sto =
     (let st = wr_state r;
          r' = r\<lparr>wr_state := st\<lparr>st_current := ws_id s, st_history := st_history st @ [res]\<rparr>, wr_status := RunPaused\<rparr>
      in (r', save_checkpoint opts r' (ws_id s) (save_run r' sto)))"

definition asks_human :: "wf_step \<Rightarrow> json option \<Rightarrow> bool" where
  "asks_human s out =
     (ws_type s = HumanTask \<and> (case out of Some v \<Rightarrow> truthy (read_segs (Some v) [''humanTaskRequired'']) | None \<Rightarrow> False))"

definition task_of :: "wf_step \<Rightarrow> wf_run \<Rightarrow> task_request" where
  "task_of s r =
     \<lparr>tq_type = nullish (cfg_str s ''taskType'') ''approval'', tq_title = nullish (cfg_str s ''title'') (ws_name s),
      tq_description = cfg_str s ''description'', tq_priority = nullish (cfg_str s ''priority'') ''normal'',
      tq_data = (case cfg_field s ''data'' of None \<Rightarrow> JObj (run_vars r) | Some JNull \<Rightarrow> JObj (run_vars r) | Some v \<Rightarrow> v),
      tq_runId = wr_id r, tq_stepId = ws_id s\<rparr>"

definition ask_human :: "'e wf_opts \<Rightarrow> wf_step \<Rightarrow> step_result \<Rightarrow> wf_run \<Rightarrow> 'e wf_stores \<Rightarrow> wf_run \<times> 'e wf_stores" where
  "ask_human opts s res r sto =
     (case wo_humanTask opts of
        None \<Rightarrow> pause_run opts s res r sto
      | Some enqueue \<Rightarrow>
          (let (tid, w) = enqueue (task_of s r) (sto_world sto);
               r1 = set_vars (AList.update ''__humanTaskStepId'' (JStr (ws_id s)) (AList.update ''__humanTaskId'' (JStr tid) (run_vars r))) r
           in pause_run opts s res r1 (sto\<lparr>sto_world := w\<rparr>)))"

definition wait_here :: "'e wf_opts \<Rightarrow> wf_step \<Rightarrow> step_result \<Rightarrow> wf_run \<Rightarrow> 'e wf_stores \<Rightarrow> wf_run \<times> 'e wf_stores" where
  "wait_here opts s res r sto =
     (let (r', sto') = pause_run opts s res r sto
      in (r', case ws_wakeAfterMs s of
                Some t \<Rightarrow> if t \<noteq> 0 \<and> wo_sleeps opts then schedule_sleep (wr_id r) (wo_now opts (sto_world sto') + t) sto' else sto'
              | None \<Rightarrow> sto'))"

section \<open>Generated steps\<close>

record expansion =
  ex_steps :: "json list"
  ex_entry :: string
  ex_rejoin :: "string option"

definition expansion_in :: "json \<Rightarrow> expansion option" where
  "expansion_in v =
     (case v of
        JObj kvs \<Rightarrow>
          (case (map_of kvs ''steps'', map_of kvs ''entry'') of
             (Some (JArr steps), Some (JStr entry)) \<Rightarrow>
               Some \<lparr>ex_steps = steps, ex_entry = entry,
                     ex_rejoin = (case map_of kvs ''rejoin'' of Some (JStr j) \<Rightarrow> Some j | _ \<Rightarrow> None)\<rparr>
           | _ \<Rightarrow> None)
      | _ \<Rightarrow> None)"

definition extractExpansion :: "json option \<Rightarrow> expansion option" where
  "extractExpansion out =
     (case out of
        Some (JObj kvs) \<Rightarrow>
          (case expansion_in (JObj kvs) of
             Some ex \<Rightarrow> Some ex
           | None \<Rightarrow> (case map_of kvs ''__expansion'' of Some w \<Rightarrow> expansion_in w | None \<Rightarrow> None))
      | _ \<Rightarrow> None)"

definition rejoin_of :: "wf_step \<Rightarrow> expansion \<Rightarrow> string option" where
  "rejoin_of s ex =
     truthy_str (case ex_rejoin ex of
        Some j \<Rightarrow> Some j
      | None \<Rightarrow> (case ws_next s of Some (NextStep n) \<Rightarrow> Some n | Some (NextSteps ns) \<Rightarrow> nth_next ns 0 | None \<Rightarrow> None))"

definition has_next :: "wf_step \<Rightarrow> bool" where
  "has_next s = (case ws_next s of None \<Rightarrow> False | Some (NextStep n) \<Rightarrow> n \<noteq> [] | Some (NextSteps _) \<Rightarrow> True)"

text \<open>Only the last generated step is led back to the rejoin target.\<close>

definition rewrite_last :: "string option \<Rightarrow> wf_step list \<Rightarrow> wf_step list" where
  "rewrite_last rejoin steps =
     (case rejoin of
        None \<Rightarrow> steps
      | Some j \<Rightarrow> if steps = [] \<or> has_next (last steps) then steps
                  else butlast steps @ [(last steps)\<lparr>ws_next := Some (NextStep j)\<rparr>])"

definition expansion_error :: "string \<Rightarrow> string \<Rightarrow> string" where
  "expansion_error code msg = ''WorkflowExpansionError ['' @ code @ '']: '' @ msg"

definition default_kinds :: "string list" where
  "default_kinds = [''noop'', ''tool'', ''prompt'', ''agent'', ''mcp'']"

text \<open>The kind of a handler reference \<^verbatim>\<open>kind:ref\<close>.\<close>

definition handler_kind :: "wf_step \<Rightarrow> string option" where
  "handler_kind s =
     (if CHR '':'' \<in> set (handler_key s) then Some (takeWhile (\<lambda>c. c \<noteq> CHR '':'') (handler_key s)) else None)"

text \<open>The first step of an unlisted kind; the allowlist is a set, in the message without repetitions.\<close>

fun bad_kind :: "string list \<Rightarrow> wf_step list \<Rightarrow> string option" where
  "bad_kind kinds [] = None"
| "bad_kind kinds (s # ss) =
     (case handler_kind s of
        None \<Rightarrow> bad_kind kinds ss
      | Some k \<Rightarrow>
          if k \<in> set kinds then bad_kind kinds ss
          else Some (''generated step '' @ quoted (ws_id s) @ '' uses handler kind '' @ quoted k @
                 '' which is not in the dynamicHandlerKinds allowlist ('' @ join_with '', '' (rev (remdups (rev kinds))) @ '')''))"

text \<open>The first step whose id exists already, in the graph or earlier in the expansion.\<close>

fun id_collision :: "string set \<Rightarrow> string set \<Rightarrow> wf_step list \<Rightarrow> string option" where
  "id_collision ids seen [] = None"
| "id_collision ids seen (s # ss) =
     (if ws_id s \<in> ids then Some (''generated step id '' @ quoted (ws_id s) @ '' collides with an existing step id'')
      else if ws_id s \<in> seen then Some (''generated step id '' @ quoted (ws_id s) @ '' appears more than once in expansion.steps'')
      else id_collision ids (insert (ws_id s) seen) ss)"

definition validateExpansion :: "wf_run \<Rightarrow> wf_step list \<Rightarrow> string \<Rightarrow> wf_def \<Rightarrow> wf_policy option \<Rightarrow> string option" where
  "validateExpansion r steps entry d pol =
     (let maxDepth = (case pol of None \<Rightarrow> 5 | Some p \<Rightarrow> nullish (wp_maxExpansionDepth p) 5);
          maxGen = (case pol of None \<Rightarrow> None | Some p \<Rightarrow> wp_maxGeneratedSteps p);
          kinds = (case pol of None \<Rightarrow> default_kinds | Some p \<Rightarrow> nullish (wp_dynamicHandlerKinds p) default_kinds);
          merged = d\<lparr>wd_steps := eff_steps d r @ steps\<rparr>;
          errors = filter (\<lambda>l. li_severity l = LintError) (lintWorkflow merged)
      in if maxDepth \<le> wr_expansionDepth r then
           Some (expansion_error ''MAX_EXPANSION_DEPTH'' (''maxExpansionDepth ('' @ nat_str maxDepth @
             '') exceeded - current depth: '' @ nat_str (wr_expansionDepth r)))
         else if (case maxGen of None \<Rightarrow> False | Some m \<Rightarrow> m < length (wr_dynamicSteps r) + length steps) then
           Some (expansion_error ''MAX_GENERATED_STEPS'' (''maxGeneratedSteps ('' @ nat_str (nullish maxGen 0) @
             '') budget exceeded: '' @ nat_str (length (wr_dynamicSteps r)) @ '' existing + '' @ nat_str (length steps) @ '' new''))
         else if find_step steps entry = None then
           Some (expansion_error ''INVALID_ENTRY'' (''expansion entry step '' @ quoted entry @ '' not found in expansion.steps''))
         else if id_collision (ws_id ` set (eff_steps d r)) {} steps \<noteq> None then
           map_option (expansion_error ''ID_COLLISION'') (id_collision (ws_id ` set (eff_steps d r)) {} steps)
         else if bad_kind kinds steps \<noteq> None then
           map_option (expansion_error ''DISALLOWED_HANDLER_KIND'') (bad_kind kinds steps)
         else if errors \<noteq> [] then
           Some (expansion_error ''LINT_ERROR'' (''expansion produces an invalid graph: '' @ join_with ''; '' (map li_message errors)))
         else None)"

definition splice_steps ::
  "'e wf_opts \<Rightarrow> wf_def \<Rightarrow> wf_policy option \<Rightarrow> string list \<Rightarrow> wf_step \<Rightarrow> step_result \<Rightarrow> wf_run \<Rightarrow> 'e wf_stores \<Rightarrow>
   bool \<times> wf_run \<times> 'e wf_stores" where
  "splice_steps opts d pol promoted s res r sto =
     (case extractExpansion (sr_output res) of
        None \<Rightarrow> (False, failRun (expansion_error ''INVALID_EXPANSION'' (''dynamic step '' @ quoted (ws_id s) @
                   '' handler must return a DynamicExpansion or { __expansion: DynamicExpansion }'')) r sto)
      | Some ex \<Rightarrow>
          (let steps = rewrite_last (rejoin_of s ex) (map (wo_readStep opts) (ex_steps ex)) in
           case validateExpansion r steps (ex_entry ex) d pol of
             Some e \<Rightarrow> (False, failRun e r sto)
           | None \<Rightarrow>
               (let r1 = r\<lparr>wr_dynamicSteps := wr_dynamicSteps r @ steps, wr_expansionDepth := Suc (wr_expansionDepth r)\<rparr>;
                    out = JObj [(''expanded'', JBool True), (''entry'', JStr (ex_entry ex)), (''stepCount'', JNum (of_nat (length steps)))];
                    r2 = enter_state (res\<lparr>sr_output := Some out\<rparr>) (Some (ex_entry ex)) (ws_outputScope s = Some StepScope) promoted r1
                in (True, r2, save_checkpoint opts r2 (ws_id s) (save_run r2 sto)))))"

section \<open>One turn\<close>

datatype turn_end = Continue | Break | Return

text \<open>\<^verbatim>\<open>toFixed(4)\<close> of a number that is not negative.\<close>

definition to_fixed4 :: "rat \<Rightarrow> string" where
  "to_fixed4 x =
     (let n = nat (js_round (x * 10000)); f = nat_str (n mod 10000)
      in nat_str (n div 10000) @ ''.'' @ replicate (4 - length f) CHR ''0'' @ f)"

definition over_ceiling :: "wf_policy option \<Rightarrow> rat \<Rightarrow> string option" where
  "over_ceiling pol spent =
     (case pol of
        None \<Rightarrow> None
      | Some p \<Rightarrow>
          (case wp_costCeiling p of
             None \<Rightarrow> None
           | Some c \<Rightarrow> if 0 < c \<and> c < spent
                       then Some (''Cost ceiling exceeded: $'' @ to_fixed4 spent @ '' > $'' @ to_fixed4 c) else None))"

definition has_ceiling :: "wf_policy option \<Rightarrow> bool" where
  "has_ceiling pol = (case pol of None \<Rightarrow> False | Some p \<Rightarrow> (case wp_costCeiling p of None \<Rightarrow> False | Some c \<Rightarrow> 0 < c))"

definition after_success ::
  "'e wf_opts \<Rightarrow> wf_def \<Rightarrow> wf_policy option \<Rightarrow> string list \<Rightarrow> wf_step \<Rightarrow> step_result \<Rightarrow> wf_run \<Rightarrow> 'e wf_stores \<Rightarrow>
   turn_end \<times> wf_run \<times> 'e wf_stores" where
  "after_success opts d pol promoted s res r sto =
     (let sto1 = remember opts s (sr_output res) r (settle_lock opts s (sr_output res) r sto);
          r1 = (if has_ceiling pol then r\<lparr>wr_costTotal := cost_total (wr_id r) sto1\<rparr> else r)
      in case over_ceiling pol (cost_total (wr_id r) sto1) of
           Some e \<Rightarrow> (Break, failRun e r1 sto1)
         | None \<Rightarrow>
             if asks_human s (sr_output res) then (Return, ask_human opts s res r1 sto1)
             else if ws_type s = Wait then (Return, wait_here opts s res r1 sto1)
             else if ws_type s = Dynamic then
               (case splice_steps opts d pol promoted s res r1 sto1 of (ok, r2, sto2) \<Rightarrow> (if ok then Continue else Break, r2, sto2))
             else (Continue, move_on opts d True (ws_outputScope s = Some StepScope) promoted s res r1 sto1))"

text \<open>From the promoted variables on: the replay of a done step, or the step itself.\<close>

definition run_step ::
  "'e wf_opts \<Rightarrow> wf_def \<Rightarrow> wf_policy option \<Rightarrow> 'e handlers \<Rightarrow> string list \<Rightarrow> wf_step \<Rightarrow> wf_run \<Rightarrow> 'e wf_stores \<Rightarrow>
   turn_end \<times> wf_run \<times> 'e wf_stores" where
  "run_step opts d pol hs promoted s r sto =
     (let (res, r1, sto1) = call_step opts hs s r sto in
      if sr_status res = StepFailed then (let (r2, sto2) = after_failure opts d hs promoted s res r1 sto1
                                          in (if wr_status r2 = RunFailed then Break else Continue, r2, sto2))
      else
        (let (processed, r2, sto2) = postProcessSuccess opts s res r1 sto1 in
         if sr_status processed = StepFailed then
           (case truthy_str (ws_onError s) of
              Some target \<Rightarrow> (Continue, error_boundary opts target promoted s processed r2 sto2)
            | None \<Rightarrow> (Break, failRun (nullish (sr_error processed) ''Output schema validation failed'') r2 sto2))
         else after_success opts d pol promoted s processed r2 sto2))"

definition exec_turn ::
  "'e wf_opts \<Rightarrow> wf_def \<Rightarrow> wf_policy option \<Rightarrow> 'e handlers \<Rightarrow> wf_step \<Rightarrow> wf_run \<Rightarrow> 'e wf_stores \<Rightarrow> turn_end \<times> wf_run \<times> 'e wf_stores" where
  "exec_turn opts d pol hs s r sto =
     (if skips opts s r then (Continue, move_on opts d True False [] s (skip_res s) r sto)
      else case (case idem_key opts s r of None \<Rightarrow> None | Some k \<Rightarrow> idem_get k sto) of
          Some v \<Rightarrow> (Continue, move_on opts d True False [] s (step_ok s (Some v)) r sto)
        | None \<Rightarrow>
            (let keys = promoted_keys r; r1 = promote s r in
             if wo_locks opts then
               (case done_output (wr_id r) (ws_id s) sto of
                  Some out \<Rightarrow> (Continue, move_on opts d True False keys s (step_ok s out) r1 sto)
                | None \<Rightarrow> run_step opts d pol hs keys s r1 (lock_step (wr_id r) (ws_id s) sto))
             else run_step opts d pol hs keys s r1 sto))"

section \<open>The loop\<close>

text \<open>
  \<open>tick\<close> is the number of turns \<^verbatim>\<open>tickRun\<close> allows; \<open>n\<close> counts the turns taken.
\<close>

function exec_loop ::
  "'e wf_opts \<Rightarrow> wf_def \<Rightarrow> wf_policy option \<Rightarrow> 'e handlers \<Rightarrow> bool \<Rightarrow> nat \<Rightarrow> nat \<Rightarrow> wf_run \<Rightarrow> 'e wf_stores \<Rightarrow> wf_run \<times> 'e wf_stores" where
  "exec_loop opts d pol hs tick maxSteps n r sto =
     (if wr_status r \<noteq> RunRunning then (r, save_run r sto)
      else case find_step (eff_steps d r) (st_current (wr_state r)) of
          None \<Rightarrow> (let (r', sto') = failRun (''Step not found: '' @ st_current (wr_state r)) r sto in (r', save_run r' sto'))
        | Some s \<Rightarrow>
            if maxSteps \<le> n then
              (if tick then (r, save_run r sto)
               else (let (r', sto') = failRun (''Exceeded max steps ('' @ nat_str maxSteps @ '')'') r sto in (r', save_run r' sto')))
            else
              (case exec_turn opts d pol hs s r sto of
                 (Return, r', sto') \<Rightarrow> (r', sto')
               | (Break, r', sto') \<Rightarrow> (r', save_run r' sto')
               | (Continue, r', sto') \<Rightarrow> exec_loop opts d pol hs tick maxSteps (Suc n) r' sto'))"
  by pat_completeness auto
termination
  by (relation "measure (\<lambda>(opts, d, pol, hs, tick, maxSteps, n, r, sto). maxSteps - n)") auto

definition policy_of :: "'e wf_opts \<Rightarrow> wf_def \<Rightarrow> wf_policy option" where
  "policy_of opts d = (case wo_defaultPolicy opts of Some p \<Rightarrow> Some p | None \<Rightarrow> wd_policy d)"

definition max_steps :: "wf_policy option \<Rightarrow> nat" where
  "max_steps pol = (case pol of None \<Rightarrow> 100 | Some p \<Rightarrow> nullish (wp_maxSteps p) 100)"

definition active_def :: "wf_run \<Rightarrow> wf_def \<Rightarrow> wf_def" where
  "active_def r d = nullish (wr_snapshot r) d"

definition executeRun :: "'e wf_opts \<Rightarrow> nat option \<Rightarrow> wf_def \<Rightarrow> wf_run \<Rightarrow> 'e wf_stores \<Rightarrow> wf_run \<times> 'e wf_stores" where
  "executeRun opts tick def r sto =
     (let d = active_def r def; pol = policy_of opts d
      in exec_loop opts d pol (applyIOMappingForRun (wd_steps d) (wo_handlers opts)) (tick \<noteq> None) (nullish tick (max_steps pol)) 0 r sto)"

section \<open>Operations on runs\<close>

datatype engine_error = DefinitionNotFound string | RunNotFound string | NotPaused string wf_status

type_synonym wf_defs = "(string \<times> wf_def) list"

definition startRun ::
  "'e wf_opts \<Rightarrow> wf_defs \<Rightarrow> string \<Rightarrow> payload option \<Rightarrow> string option \<Rightarrow> string option \<Rightarrow> string option \<Rightarrow> 'e wf_stores \<Rightarrow>
   (engine_error + wf_run) \<times> 'e wf_stores" where
  "startRun opts defs wid input traceId tenantId parent sto =
     (case map_of defs wid of
        None \<Rightarrow> (Inl (DefinitionNotFound wid), sto)
      | Some d \<Rightarrow>
          (let (rid, sto1) = fresh_id opts sto;
               (tid, sto2) = (case traceId of Some t \<Rightarrow> (t, sto1) | None \<Rightarrow> fresh_id opts sto1);
               r = \<lparr>wr_id = rid, wr_workflowId = wid, wr_status = RunRunning, wr_state = createInitialState d input,
                    wr_error = None, wr_costTotal = 0, wr_costBreakdown = [], wr_traceId = Some tid, wr_tenantId = tenantId,
                    wr_parentRunId = parent, wr_childRunIds = [], wr_snapshot = Some d, wr_dynamicSteps = [], wr_expansionDepth = 0\<rparr>;
               sto3 = save_run r sto2;
               sto4 = (case truthy_str parent of
                         None \<Rightarrow> sto3
                       | Some p \<Rightarrow>
                           (case map_of (sto_runs sto3) p of
                              None \<Rightarrow> sto3
                            | Some pr \<Rightarrow> if rid \<in> set (wr_childRunIds pr) then sto3
                                         else save_run (pr\<lparr>wr_childRunIds := wr_childRunIds pr @ [rid]\<rparr>) sto3));
               (r', sto5) = executeRun opts None d r sto4
           in (Inr r', sto5)))"

definition getRun :: "string \<Rightarrow> 'e wf_stores \<Rightarrow> wf_run option \<times> 'e wf_stores" where
  "getRun i sto =
     (case map_of (sto_cache sto) i of
        Some r \<Rightarrow> (Some r, sto)
      | None \<Rightarrow>
          (case map_of (sto_runs sto) i of
             Some r \<Rightarrow> (Some r, sto\<lparr>sto_cache := AList.update (wr_id r) r (sto_cache sto)\<rparr>)
           | None \<Rightarrow> (None, sto)))"

definition resume_at :: "wf_def \<Rightarrow> json option \<Rightarrow> wf_run \<Rightarrow> wf_run" where
  "resume_at def data r =
     (case find_step (eff_steps (active_def r def) r) (st_current (wr_state r)) of
        None \<Rightarrow> r
      | Some s \<Rightarrow>
          (case truthy_str (resolveResumeNextId s data) of
             None \<Rightarrow> r
           | Some n \<Rightarrow> r\<lparr>wr_state := (wr_state r)\<lparr>st_current := n\<rparr>\<rparr>))"

definition resumeRun ::
  "'e wf_opts \<Rightarrow> wf_defs \<Rightarrow> string \<Rightarrow> json option \<Rightarrow> 'e wf_stores \<Rightarrow> (engine_error + wf_run) \<times> 'e wf_stores" where
  "resumeRun opts defs i data sto =
     (case map_of (sto_runs sto) i of
        None \<Rightarrow> (Inl (RunNotFound i), sto)
      | Some r \<Rightarrow>
          if wr_status r \<noteq> RunPaused then (Inl (NotPaused i (wr_status r)), sto)
          else
            (case map_of defs (wr_workflowId r) of
               None \<Rightarrow> (Inl (DefinitionNotFound (wr_workflowId r)), sto)
             | Some def \<Rightarrow>
                 (let r1 = (case data of None \<Rightarrow> r | Some v \<Rightarrow> set_vars (AList.update ''__resumeData'' v (run_vars r)) r)\<lparr>wr_status := RunRunning\<rparr>;
                      (r2, sto2) = executeRun opts None def (resume_at def data r1) (save_run r1 sto)
                  in (Inr r2, sto2))))"

definition tickRun ::
  "'e wf_opts \<Rightarrow> wf_defs \<Rightarrow> string \<Rightarrow> 'e wf_stores \<Rightarrow> (engine_error + wf_run) \<times> 'e wf_stores" where
  "tickRun opts defs i sto =
     (case getRun i sto of
        (None, sto1) \<Rightarrow> (Inl (RunNotFound i), sto1)
      | (Some r, sto1) \<Rightarrow>
          if wr_status r \<noteq> RunRunning then (Inr r, sto1)
          else
            (case map_of defs (wr_workflowId r) of
               None \<Rightarrow> (Inl (DefinitionNotFound (wr_workflowId r)), sto1)
             | Some def \<Rightarrow> (let (r', sto2) = executeRun opts (Some 1) def r sto1 in (Inr r', sto2))))"

definition recoverRun :: "'e wf_opts \<Rightarrow> wf_defs \<Rightarrow> string \<Rightarrow> 'e wf_stores \<Rightarrow> wf_run option \<times> 'e wf_stores" where
  "recoverRun opts defs i sto =
     (case getRun i sto of
        (Some r, sto1) \<Rightarrow> (Some r, sto1)
      | (None, sto1) \<Rightarrow>
          (case latest_checkpoint i sto1 of
             None \<Rightarrow> (None, sto1)
           | Some cp \<Rightarrow>
               (case truthy_str (cp_workflowId cp) of
                  None \<Rightarrow> (None, sto1)
                | Some wid \<Rightarrow>
                    (case map_of defs wid of
                       None \<Rightarrow> (None, sto1)
                     | Some def \<Rightarrow>
                         (let r = \<lparr>wr_id = i, wr_workflowId = wid, wr_status = RunRunning, wr_state = cp_state cp, wr_error = None,
                                   wr_costTotal = 0, wr_costBreakdown = [], wr_traceId = None, wr_tenantId = None, wr_parentRunId = None,
                                   wr_childRunIds = [], wr_snapshot = None, wr_dynamicSteps = [], wr_expansionDepth = 0\<rparr>;
                              (r', sto2) = executeRun opts None def r (save_run r sto1)
                          in (Some r', sto2))))))"

text \<open>
  \<^verbatim>\<open>cancelRun\<close> visits the children first; a child that is not stored throws, which the parent ignores. The
  list holds the runs still to cancel at one level.
\<close>

partial_function (option) cancel_all :: "string list \<Rightarrow> 'e wf_stores \<Rightarrow> 'e wf_stores option" where
  "cancel_all ids sto =
     (case ids of
        [] \<Rightarrow> Some sto
      | i # rest \<Rightarrow>
          (case map_of (sto_runs sto) i of
             None \<Rightarrow> cancel_all rest sto
           | Some r \<Rightarrow>
               Option.bind (cancel_all (wr_childRunIds r) sto)
                 (\<lambda>sto1. cancel_all rest (save_run (r\<lparr>wr_status := RunCancelled\<rparr>) sto1))))"

definition cancelRun :: "string \<Rightarrow> 'e wf_stores \<Rightarrow> (engine_error + 'e wf_stores) option" where
  "cancelRun i sto =
     (if map_of (sto_runs sto) i = None then Some (Inl (RunNotFound i)) else map_option Inr (cancel_all [i] sto))"

end
