(* ===== verification/WorkflowFlow.thy ===== *)
theory WorkflowFlow
  imports WorkflowLoop
begin

text \<open>
  What the engine promises, as a small abstract machine over the position, the history, the generated steps
  and the status of a run, and the proof that every turn of the loop is a step of it.
\<close>

section \<open>The abstract machine\<close>

record flow =
  fl_current :: string
  fl_history :: "step_result list"
  fl_dynamic :: "wf_step list"
  fl_depth :: nat
  fl_status :: wf_status

definition flow_of :: "wf_run \<Rightarrow> flow" where
  "flow_of r =
     \<lparr>fl_current = st_current (wr_state r), fl_history = st_history (wr_state r), fl_dynamic = wr_dynamicSteps r,
      fl_depth = wr_expansionDepth r, fl_status = wr_status r\<rparr>"

abbreviation fl_steps :: "wf_def \<Rightarrow> flow \<Rightarrow> wf_step list" where
  "fl_steps d f \<equiv> wd_steps d @ fl_dynamic f"

definition max_depth :: "wf_policy option \<Rightarrow> nat" where
  "max_depth pol = (case pol of None \<Rightarrow> 5 | Some p \<Rightarrow> nullish (wp_maxExpansionDepth p) 5)"

definition generated_ok :: "wf_policy option \<Rightarrow> nat \<Rightarrow> bool" where
  "generated_ok pol n = (case pol of None \<Rightarrow> True | Some p \<Rightarrow> (case wp_maxGeneratedSteps p of None \<Rightarrow> True | Some m \<Rightarrow> n \<le> m))"

definition allowed_kinds :: "wf_policy option \<Rightarrow> string list" where
  "allowed_kinds pol = (case pol of None \<Rightarrow> default_kinds | Some p \<Rightarrow> nullish (wp_dynamicHandlerKinds p) default_kinds)"

definition lint_clean :: "wf_def \<Rightarrow> bool" where
  "lint_clean d \<longleftrightarrow> (\<forall>l \<in> set (lintWorkflow d). li_severity l \<noteq> LintError)"

text \<open>What a sub-graph has to satisfy to be spliced in.\<close>

definition sound_expansion :: "wf_policy option \<Rightarrow> wf_def \<Rightarrow> flow \<Rightarrow> wf_step list \<Rightarrow> string \<Rightarrow> bool" where
  "sound_expansion pol d f steps entry \<longleftrightarrow>
     fl_depth f < max_depth pol \<and> generated_ok pol (length (fl_dynamic f @ steps)) \<and> entry \<in> ws_id ` set steps \<and>
     distinct (map ws_id steps) \<and> ws_id ` set steps \<inter> ws_id ` set (fl_steps d f) = {} \<and>
     (\<forall>s \<in> set steps. \<forall>k. handler_kind s = Some k \<longrightarrow> k \<in> set (allowed_kinds pol)) \<and>
     lint_clean (d\<lparr>wd_steps := fl_steps d f @ steps\<rparr>)"

text \<open>
  Where the graph leads, a run goes on to the next step, or ends when there is none or none of that id; an
  empty id may be taken for no next step. A failure may lead to the error step, a generated sub-graph is
  entered at its entry, a wait pauses, and a run can fail at any moment.
\<close>

inductive flow_step :: "(rat \<Rightarrow> string) \<Rightarrow> wf_policy option \<Rightarrow> wf_def \<Rightarrow> flow \<Rightarrow> flow \<Rightarrow> bool" for pr pol d where
  advance: "\<lbrakk>fl_status f = RunRunning; find_step (fl_steps d f) (fl_current f) = Some s; sr_stepId res = ws_id s;
      nxt = resolveNextStep pr (fl_steps d f) (ws_id s) (sr_output res) (ws_id ` set (fl_dynamic f));
      there = nullish nxt (ws_id s);
      st = RunRunning \<or> st = RunCompleted;
      st = RunRunning \<longrightarrow> nxt \<noteq> None \<and> find_step (fl_steps d f) there \<noteq> None;
      st = RunCompleted \<longrightarrow> truthy_str nxt = None \<or> find_step (fl_steps d f) there = None\<rbrakk>
   \<Longrightarrow> flow_step pr pol d f (f\<lparr>fl_current := there, fl_history := fl_history f @ [res], fl_status := st\<rparr>)"
| handle: "\<lbrakk>fl_status f = RunRunning; find_step (fl_steps d f) (fl_current f) = Some s; sr_stepId res = ws_id s;
      truthy_str (ws_onError s) = Some there\<rbrakk>
   \<Longrightarrow> flow_step pr pol d f (f\<lparr>fl_current := there, fl_history := fl_history f @ [res]\<rparr>)"
| splice: "\<lbrakk>fl_status f = RunRunning; find_step (fl_steps d f) (fl_current f) = Some s; ws_type s = Dynamic; sr_stepId res = ws_id s;
      sound_expansion pol d f steps entry\<rbrakk>
   \<Longrightarrow> flow_step pr pol d f (f\<lparr>fl_current := entry, fl_history := fl_history f @ [res], fl_dynamic := fl_dynamic f @ steps,
         fl_depth := Suc (fl_depth f)\<rparr>)"
| pause: "\<lbrakk>fl_status f = RunRunning; find_step (fl_steps d f) (fl_current f) = Some s; ws_type s = Wait \<or> ws_type s = HumanTask;
      sr_stepId res = ws_id s\<rbrakk>
   \<Longrightarrow> flow_step pr pol d f (f\<lparr>fl_history := fl_history f @ [res], fl_status := RunPaused\<rparr>)"
| fail: "fl_status f = RunRunning \<Longrightarrow> flow_step pr pol d f (f\<lparr>fl_status := RunFailed\<rparr>)"

inductive_cases flow_stepE: "flow_step pr pol d f g"

section \<open>What the pieces leave alone\<close>

text \<open>The parts of a run the pieces of a turn keep.\<close>

definition core :: "wf_run \<Rightarrow> flow \<times> string \<times> string \<times> string list \<times> wf_def option" where
  "core r = (flow_of r, wr_id r, wr_workflowId r, wr_childRunIds r, wr_snapshot r)"

abbreviation ident :: "wf_run \<Rightarrow> string \<times> string \<times> string list \<times> wf_def option" where
  "ident r \<equiv> snd (core r)"

lemma core_set_vars [simp]: "core (set_vars v r) = core r"
  by (simp add: core_def flow_of_def set_vars_def)

lemma core_set_attempt [simp]: "core (set_attempt n r) = core r"
  by (simp add: set_attempt_def split: option.splits json.splits)

lemma core_promote [simp]: "core (promote s r) = core r"
  by (simp add: core_def flow_of_def promote_def Let_def)

lemma core_costs [simp]: "core (r\<lparr>wr_costBreakdown := b\<rparr>) = core r" "core (r\<lparr>wr_costTotal := c\<rparr>) = core r"
  by (simp_all add: core_def flow_of_def)

lemma core_call_step: "call_step opts hs s r sto = (res, r', sto') \<Longrightarrow> core r' = core r"
  by (auto simp: call_step_def leave_cx_def Let_def split: prod.splits)

lemma core_postProcess: "postProcessSuccess opts s res r sto = (res', r', sto') \<Longrightarrow> core r' = core r"
  by (auto simp: postProcessSuccess_def Let_def split: sum.splits option.splits)

lemma core_retry_loop: "retry_loop opts hs s dl n a res r sto = (res', r', sto') \<Longrightarrow> core r' = core r"
proof (induction opts hs s dl n a res r sto rule: retry_loop.induct)
  case (2 opts hs s dl left a res r sto)
  show ?case
  proof (cases "sr_status res \<noteq> StepFailed \<or> deadline_past dl (wo_now opts (sto_world sto)) \<or>
      deadline_past dl (wo_now opts (retry_pause opts s (Suc a) dl (sto_world sto)))")
    case True
    with 2(2) show ?thesis by (auto simp: Let_def split: if_splits)
  next
    case False
    obtain res1 r1 sto1 where c: "call_step opts hs s (set_attempt (Suc (Suc a)) r)
        (sto\<lparr>sto_world := retry_pause opts s (Suc a) dl (sto_world sto)\<rparr>) = (res1, r1, sto1)" by (metis prod_cases3)
    have "core r1 = core r" using core_call_step [OF c] by simp
    moreover have "core r' = core r1" using 2 False c by (auto simp: Let_def)
    ultimately show ?thesis by simp
  qed
qed simp

lemma core_retry_step: "retry_step opts hs s res r sto = (res', r', sto') \<Longrightarrow> core r' = core r"
  by (auto simp: retry_step_def Let_def dest: core_retry_loop)

lemma core_fallback: "run_fallback opts hs s res r sto = (res', r', sto') \<Longrightarrow> core r' = core r"
  by (auto simp: run_fallback_def leave_cx_def Let_def split: option.splits prod.splits sum.splits dest!: core_postProcess)

section \<open>Results name their step\<close>

lemma step_results [simp]:
  "sr_stepId (step_ok s out) = ws_id s" "sr_stepId (step_err s e) = ws_id s" "sr_stepId (skip_res s) = ws_id s"
  "sr_status (step_ok s out) = StepCompleted" "sr_status (step_err s e) = StepFailed" "sr_output (step_ok s out) = out"
  by (simp_all add: step_ok_def step_err_def skip_res_def)

lemma settle_step_id [simp]: "sr_stepId (fst (settle_step s r)) = ws_id s"
  by (simp add: settle_step_def split: sum.splits)

lemma with_handler_id: "(\<And>fn. sr_stepId (fst (k fn)) = ws_id s) \<Longrightarrow> sr_stepId (fst (with_handler what s hs k c)) = ws_id s"
  by (simp add: with_handler_def split: option.splits)

lemma over_items_id: "sr_stepId (fst (over_items what s hs body c)) = ws_id s"
  unfolding over_items_def by (rule with_handler_id) (auto split: prod.splits sum.splits option.splits json.splits)

lemma executeStep_id: "sr_stepId (fst (executeStep s hs c)) = ws_id s"
  by (cases "ws_type s")
     (auto simp: executeStep_def executeDeterministic_def executeCondition_def executeBranch_def executeSwitch_def
       executeLoop_def executeForEach_def executeWait_def executeHumanTask_def executeParallel_def executeFork_def
       executeJoin_def over_items_id Let_def intro!: with_handler_id split: prod.splits sum.splits option.splits)

lemma call_step_id: "call_step opts hs s r sto = (res, r', sto') \<Longrightarrow> sr_stepId res = ws_id s"
  using executeStep_id [of s hs "\<lparr>cx_vars = run_vars r, cx_cost = 0, cx_world = sto_world sto\<rparr>"]
  by (auto simp: call_step_def executeStepWithExpression_def Let_def split: option.splits prod.splits)

lemma postProcess_id: "postProcessSuccess opts s res r sto = (res', r', sto') \<Longrightarrow> sr_stepId res = ws_id s \<Longrightarrow> sr_stepId res' = ws_id s"
  by (auto simp: postProcessSuccess_def Let_def split: sum.splits option.splits)

lemma retry_loop_id:
  "retry_loop opts hs s dl n a res r sto = (res', r', sto') \<Longrightarrow> sr_stepId res = ws_id s \<Longrightarrow> sr_stepId res' = ws_id s"
proof (induction opts hs s dl n a res r sto rule: retry_loop.induct)
  case (2 opts hs s dl left a res r sto)
  show ?case
  proof (cases "sr_status res \<noteq> StepFailed \<or> deadline_past dl (wo_now opts (sto_world sto)) \<or>
      deadline_past dl (wo_now opts (retry_pause opts s (Suc a) dl (sto_world sto)))")
    case True
    with 2(2,3) show ?thesis by (auto simp: Let_def budget_spent_def split: if_splits)
  next
    case False
    obtain res1 r1 sto1 where c: "call_step opts hs s (set_attempt (Suc (Suc a)) r)
        (sto\<lparr>sto_world := retry_pause opts s (Suc a) dl (sto_world sto)\<rparr>) = (res1, r1, sto1)" by (metis prod_cases3)
    from 2 False c call_step_id [OF c] show ?thesis by (auto simp: Let_def)
  qed
qed simp

lemma retry_step_id:
  "retry_step opts hs s res r sto = (res', r', sto') \<Longrightarrow> sr_stepId res = ws_id s \<Longrightarrow> sr_stepId res' = ws_id s"
  by (auto simp: retry_step_def Let_def dest: retry_loop_id)

lemma fallback_id: "run_fallback opts hs s res r sto = (Some res', r', sto') \<Longrightarrow> sr_stepId res' = ws_id s"
  by (auto simp: run_fallback_def leave_cx_def Let_def split: option.splits prod.splits sum.splits if_splits dest!: postProcess_id)

end
