(* ===== verification/WorkflowRefine.thy ===== *)
theory WorkflowRefine
  imports WorkflowFlow
begin

text \<open>
  The refinement: a turn of the loop is a step of the abstract machine, a run of the loop a path of it, and
  what follows for every run.
\<close>

section \<open>A turn\<close>

lemma eff_flow: "eff_steps d r = fl_steps d (flow_of r)" "dyn_ids r = ws_id ` set (fl_dynamic (flow_of r))"
  by (simp_all add: eff_steps_def dyn_ids_def flow_of_def)

lemma flow_simps [simp]:
  "fl_current (flow_of r) = st_current (wr_state r)" "fl_history (flow_of r) = st_history (wr_state r)"
  "fl_dynamic (flow_of r) = wr_dynamicSteps r" "fl_depth (flow_of r) = wr_expansionDepth r" "fl_status (flow_of r) = wr_status r"
  by (simp_all add: flow_of_def)

lemma core_eqD: "core r' = core r \<Longrightarrow> flow_of r' = flow_of r" "core r' = core r \<Longrightarrow> ident r' = ident r"
  by (simp_all add: core_def)

lemma core_enter_state:
  "core (enter_state res nxt eph p r) =
   ((flow_of r)\<lparr>fl_current := nullish nxt (st_current (wr_state r)), fl_history := st_history (wr_state r) @ [res]\<rparr>, ident r)"
  by (simp add: core_def flow_of_def enter_state_def Let_def)

lemma core_complete: "completeRun r sto = (r', sto') \<Longrightarrow> core r' = ((flow_of r)\<lparr>fl_status := RunCompleted\<rparr>, ident r)"
  by (auto simp: core_def flow_of_def completeRun_def)

lemma core_fail: "failRun e r sto = (r', sto') \<Longrightarrow> core r' = ((flow_of r)\<lparr>fl_status := RunFailed\<rparr>, ident r)"
  by (auto simp: core_def flow_of_def failRun_def)

text \<open>A turn from \<open>r\<close> to \<open>r'\<close>: a step of the machine that keeps the identity of the run.\<close>

definition turn_ok :: "(rat \<Rightarrow> string) \<Rightarrow> wf_policy option \<Rightarrow> wf_def \<Rightarrow> wf_run \<Rightarrow> wf_run \<Rightarrow> bool" where
  "turn_ok pr pol d r r' \<longleftrightarrow> flow_step pr pol d (flow_of r) (flow_of r') \<and> ident r' = ident r"

definition turn_from :: "wf_def \<Rightarrow> wf_step \<Rightarrow> wf_run \<Rightarrow> bool" where
  "turn_from d s r \<longleftrightarrow> wr_status r = RunRunning \<and> find_step (eff_steps d r) (st_current (wr_state r)) = Some s"

lemma flow_eqD:
  assumes "flow_of r' = flow_of r"
  shows "wr_status r' = wr_status r" "st_current (wr_state r') = st_current (wr_state r)"
    "st_history (wr_state r') = st_history (wr_state r)" "wr_dynamicSteps r' = wr_dynamicSteps r" "wr_expansionDepth r' = wr_expansionDepth r"
  using assms by (simp_all add: flow_of_def)

lemma turn_from_core:
  assumes "core r' = core r"
  shows "turn_from d s r' = turn_from d s r"
  using flow_eqD [OF core_eqD(1) [OF assms]] by (simp add: turn_from_def eff_steps_def)

lemma turn_ok_core:
  assumes "core r1 = core r"
  shows "turn_ok pr pol d r1 r' = turn_ok pr pol d r r'"
  using core_eqD [OF assms] unfolding turn_ok_def by metis

lemma turn_from_id: "turn_from d s r \<Longrightarrow> st_current (wr_state r) = ws_id s"
  by (auto simp: turn_from_def dest: find_step_SomeD)

lemma turn_from_status: "turn_from d s r \<Longrightarrow> wr_status r = RunRunning"
  by (simp add: turn_from_def)

lemma fail_ok: "turn_from d s r \<Longrightarrow> failRun e r sto = (r', sto') \<Longrightarrow> turn_ok pr pol d r r'"
  using flow_step.fail [of "flow_of r" pr pol d] by (auto simp: turn_ok_def turn_from_def core_def dest!: core_fail)

lemma terminal_iff:
  assumes "turn_from d s r" "sr_stepId res = ws_id s" "route opts d r res = nxt" "r' = enter_state res nxt eph p r"
  shows "isTerminal (wo_print opts) (eff_steps d r') (wr_state r') (dyn_ids r') \<longleftrightarrow>
    nxt = None \<or> find_step (eff_steps d r) (nullish nxt (ws_id s)) = None"
proof -
  have c: "flow_of r' = (flow_of r)\<lparr>fl_current := nullish nxt (ws_id s), fl_history := st_history (wr_state r) @ [res]\<rparr>"
    using core_enter_state [of res nxt eph p r] assms(4) turn_from_id [OF assms(1)] by (simp add: core_def)
  have f: "st_current (wr_state r') = nullish nxt (ws_id s)" "st_history (wr_state r') = st_history (wr_state r) @ [res]"
      "wr_dynamicSteps r' = wr_dynamicSteps r"
    using arg_cong [OF c, of fl_current] arg_cong [OF c, of fl_history] arg_cong [OF c, of fl_dynamic] by simp_all
  show ?thesis
    using assms(2,3) f by (cases nxt) (auto simp: isTerminal_def route_def eff_steps_def dyn_ids_def)
qed

lemma move_on_ok:
  assumes "turn_from d s r" "sr_stepId res = ws_id s" "move_on opts d strict eph p s res r sto = (r', sto')"
  shows "turn_ok (wo_print opts) pol d r r' \<and> wr_status r' \<in> {RunRunning, RunCompleted}"
proof -
  let ?nxt = "route opts d r res" and ?f = "flow_of r"
  let ?r1 = "enter_state res ?nxt eph p r" and ?there = "nullish ?nxt (ws_id s)"
  let ?fin = "strict \<and> truthy_str ?nxt = None \<or> isTerminal (wo_print opts) (eff_steps d ?r1) (wr_state ?r1) (dyn_ids ?r1)"
  have c1: "core ?r1 = (?f\<lparr>fl_current := ?there, fl_history := fl_history ?f @ [res]\<rparr>, ident r)"
    by (simp add: core_enter_state turn_from_id [OF assms(1)])
  have done_iff: "isTerminal (wo_print opts) (eff_steps d ?r1) (wr_state ?r1) (dyn_ids ?r1) \<longleftrightarrow>
      ?nxt = None \<or> find_step (fl_steps d ?f) ?there = None"
    using terminal_iff [OF assms(1,2) refl refl] by (simp add: eff_flow)
  define st where "st = (if ?fin then RunCompleted else RunRunning)"
  have "core r' = (?f\<lparr>fl_current := ?there, fl_history := fl_history ?f @ [res], fl_status := st\<rparr>, ident r)"
  proof (cases ?fin)
    case True
    with assms(3) core_complete [of ?r1] c1 show ?thesis by (auto simp: move_on_def Let_def st_def core_def)
  next
    case False
    have "fl_status (flow_of ?r1) = RunRunning" using c1 assms(1) by (simp add: core_def turn_from_def)
    with False assms(3) c1 turn_from_status [OF assms(1)] show ?thesis
      by (auto simp: move_on_def Let_def st_def core_def simp del: flow_simps)
  qed
  then have r': "flow_of r' = ?f\<lparr>fl_current := ?there, fl_history := fl_history ?f @ [res], fl_status := st\<rparr>" "ident r' = ident r"
    by (simp_all add: core_def)
  have "flow_step (wo_print opts) pol d ?f (?f\<lparr>fl_current := ?there, fl_history := fl_history ?f @ [res], fl_status := st\<rparr>)"
  proof (rule flow_step.advance [where s = s and nxt = ?nxt])
    show "fl_status ?f = RunRunning" "find_step (fl_steps d ?f) (fl_current ?f) = Some s"
      using assms(1) by (simp_all add: turn_from_def eff_flow)
    show "?nxt = resolveNextStep (wo_print opts) (fl_steps d ?f) (ws_id s) (sr_output res) (ws_id ` set (fl_dynamic ?f))"
      using assms(2) by (simp add: route_def eff_flow)
  qed (use assms(2) done_iff in \<open>auto simp: st_def truthy_str_def split: if_splits\<close>)
  moreover have "wr_status r' = st" using arg_cong [OF r'(1), of fl_status] by simp
  ultimately show ?thesis using r' by (simp add: turn_ok_def st_def)
qed

lemma late_success_ok:
  assumes "turn_from d s r" "sr_stepId res = ws_id s" "late_success opts d p s res r sto = (r', sto')"
  shows "turn_ok (wo_print opts) pol d r r' \<and> wr_status r' \<in> {RunRunning, RunCompleted}"
  using move_on_ok [OF assms(1,2)] assms(3) unfolding late_success_def by blast

lemma boundary_ok:
  assumes "turn_from d s r" "sr_stepId res = ws_id s" "truthy_str (ws_onError s) = Some t" "error_boundary opts t p s res r sto = (r', sto')"
  shows "turn_ok pr pol d r r' \<and> wr_status r' = RunRunning"
proof -
  let ?f = "flow_of r"
  have "core r' = (?f\<lparr>fl_current := t, fl_history := fl_history ?f @ [res]\<rparr>, ident r)"
    using assms(4) core_enter_state [of res "Some t" False p "set_vars v r" for v]
    by (auto simp: error_boundary_def Let_def core_eqD [OF core_set_vars]) (simp_all add: set_vars_def)
  moreover have "flow_step pr pol d ?f (?f\<lparr>fl_current := t, fl_history := fl_history ?f @ [res]\<rparr>)"
    using assms(1,2,3) by (intro flow_step.handle) (simp_all add: turn_from_def eff_flow)
  moreover have "wr_status r' = RunRunning"
    using assms(4) turn_from_status [OF assms(1)] by (auto simp: error_boundary_def enter_state_def set_vars_def Let_def)
  ultimately show ?thesis by (simp add: turn_ok_def core_def)
qed

lemma give_up_ok:
  assumes "turn_from d s r" "sr_stepId res = ws_id s" "give_up opts p s res r sto = (r', sto')"
  shows "turn_ok pr pol d r r' \<and> wr_status r' \<in> {RunRunning, RunFailed}"
proof (cases "truthy_str (ws_onError s)")
  case None
  obtain comped errs vars w where c: "runCompensations (wo_compensations opts)
      (filter (\<lambda>h. sr_status h = StepCompleted) (st_history (wr_state r))) (run_vars r) (sto_world sto) = (comped, errs, vars, w)"
    by (metis prod_cases4)
  obtain full where f: "failRun full (set_vars vars r) (sto\<lparr>sto_world := w\<rparr>) = (r', sto')"
    using assms(3) None c by (auto simp: give_up_def Let_def)
  have "turn_from d s (set_vars vars r)" using assms(1) turn_from_core [of "set_vars vars r" r] by simp
  from fail_ok [OF this f] turn_ok_core [OF core_set_vars] have "turn_ok pr pol d r r'" by blast
  moreover have "wr_status r' = RunFailed" using f by (auto simp: failRun_def)
  ultimately show ?thesis by simp
next
  case (Some t)
  with assms(3) have "error_boundary opts t p s res r sto = (r', sto')" by (simp add: give_up_def)
  with boundary_ok [OF assms(1,2) Some] show ?thesis by blast
qed

lemma after_failure_ok:
  assumes "turn_from d s r" "sr_stepId res = ws_id s" "after_failure opts d hs p s res r sto = (r', sto')"
  shows "turn_ok (wo_print opts) pol d r r' \<and> wr_status r' \<in> {RunRunning, RunCompleted, RunFailed}"
proof -
  obtain res1 r1 sto1 where a: "retry_step opts hs s res r sto = (res1, r1, sto1)" by (metis prod_cases3)
  obtain pr2 r2 sto2 where b: "(if sr_status res1 = StepCompleted then postProcessSuccess opts s res1 r1 sto1 else (res1, r1, sto1)) = (pr2, r2, sto2)"
    by (metis prod_cases3)
  obtain fb r3 sto3 where c: "run_fallback opts hs s res1 r2 sto2 = (fb, r3, sto3)" by (metis prod_cases3)
  have i1: "sr_stepId res1 = ws_id s" using retry_step_id [OF a assms(2)] .
  have i2: "sr_stepId pr2 = ws_id s" using b i1 postProcess_id by (auto split: if_splits)
  have c1: "core r1 = core r" using core_retry_step [OF a] .
  have c2: "core r2 = core r" using b c1 core_postProcess [of opts s res1 r1 sto1 pr2 r2 sto2] by (auto split: if_splits)
  have c3: "core r3 = core r" using core_fallback [OF c] c2 by simp
  have t: "turn_from d s r2" "turn_from d s r3" using turn_from_core c2 c3 assms(1) by blast+
  have eq: "(if sr_status pr2 = StepCompleted then late_success opts d p s pr2 r2 sto2
      else case fb of Some v \<Rightarrow> late_success opts d p s v r3 sto3 | None \<Rightarrow> give_up opts p s res1 r3 sto3) = (r', sto')"
    using assms(3) a b c by (auto simp: after_failure_def Let_def split: option.splits)
  show ?thesis
  proof (cases "sr_status pr2 = StepCompleted")
    case True
    with late_success_ok [OF t(1) i2, of opts p sto2 r' sto' pol] eq turn_ok_core [OF c2] show ?thesis by auto
  next
    case False
    show ?thesis
    proof (cases fb)
      case None
      with False eq have "give_up opts p s res1 r3 sto3 = (r', sto')" by simp
      from give_up_ok [OF t(2) i1 this] turn_ok_core [OF c3] show ?thesis by auto
    next
      case (Some v)
      with False eq have "late_success opts d p s v r3 sto3 = (r', sto')" by simp
      from late_success_ok [OF t(2) _ this] fallback_id c Some turn_ok_core [OF c3] show ?thesis by blast
    qed
  qed
qed

lemma pause_ok:
  assumes "turn_from d s r" "sr_stepId res = ws_id s" "ws_type s = Wait \<or> ws_type s = HumanTask" "pause_run opts s res r sto = (r', sto')"
  shows "turn_ok pr pol d r r' \<and> wr_status r' = RunPaused"
proof -
  let ?f = "flow_of r"
  have "core r' = (?f\<lparr>fl_history := fl_history ?f @ [res], fl_status := RunPaused\<rparr>, ident r)"
    using assms(4) turn_from_id [OF assms(1)] by (auto simp: pause_run_def Let_def core_def flow_of_def)
  moreover have "flow_step pr pol d ?f (?f\<lparr>fl_history := fl_history ?f @ [res], fl_status := RunPaused\<rparr>)"
    using assms(1,2,3) by (intro flow_step.pause) (simp_all add: turn_from_def eff_flow)
  moreover have "wr_status r' = RunPaused" using assms(4) by (auto simp: pause_run_def Let_def)
  ultimately show ?thesis by (simp add: turn_ok_def core_def)
qed

lemma ask_human_ok:
  assumes "turn_from d s r" "sr_stepId res = ws_id s" "ws_type s = HumanTask" "ask_human opts s res r sto = (r', sto')"
  shows "turn_ok pr pol d r r' \<and> wr_status r' = RunPaused"
proof (cases "wo_humanTask opts")
  case None
  with assms pause_ok show ?thesis by (fastforce simp: ask_human_def)
next
  case (Some q)
  then obtain v sto1 where p: "pause_run opts s res (set_vars v r) sto1 = (r', sto')"
    using assms(4) by (auto simp: ask_human_def Let_def split: prod.splits)
  have "turn_from d s (set_vars v r)" using assms(1) turn_from_core [OF core_set_vars] by blast
  from pause_ok [OF this assms(2) _ p] assms(3) turn_ok_core [OF core_set_vars] show ?thesis by blast
qed

lemma wait_ok:
  assumes "turn_from d s r" "sr_stepId res = ws_id s" "ws_type s = Wait" "wait_here opts s res r sto = (r', sto')"
  shows "turn_ok pr pol d r r' \<and> wr_status r' = RunPaused"
proof -
  obtain sto1 where "pause_run opts s res r sto = (r', sto1)"
    using assms(4) by (auto simp: wait_here_def Let_def split: prod.splits)
  with pause_ok [OF assms(1,2)] assms(3) show ?thesis by blast
qed

text \<open>A graph that passes validation is a sound expansion.\<close>

lemma id_collision_None: "id_collision ids seen ss = None \<longleftrightarrow>
   distinct (map ws_id ss) \<and> ws_id ` set ss \<inter> (ids \<union> seen) = {}"
  by (induction ss arbitrary: seen) auto

lemma bad_kind_None: "bad_kind kinds ss = None \<longleftrightarrow> (\<forall>s\<in>set ss. \<forall>k. handler_kind s = Some k \<longrightarrow> k \<in> set kinds)"
  by (induction ss) (auto split: option.splits)

lemma validate_sound:
  assumes "validateExpansion r steps entry d pol = None"
  shows "sound_expansion pol d (flow_of r) steps entry"
proof -
  have v: "wr_expansionDepth r < max_depth pol" "generated_ok pol (length (wr_dynamicSteps r) + length steps)"
      "find_step steps entry \<noteq> None" "id_collision (ws_id ` set (eff_steps d r)) {} steps = None"
      "bad_kind (allowed_kinds pol) steps = None"
      "filter (\<lambda>l. li_severity l = LintError) (lintWorkflow (d\<lparr>wd_steps := eff_steps d r @ steps\<rparr>)) = []"
    using assms unfolding validateExpansion_def Let_def max_depth_def allowed_kinds_def generated_ok_def
    by (auto split: if_splits option.splits)
  have "entry \<in> ws_id ` set steps" using v(3) by (simp add: find_step_None)
  moreover have "lint_clean (d\<lparr>wd_steps := eff_steps d r @ steps\<rparr>)"
    using v(6) by (auto simp: lint_clean_def filter_empty_conv)
  ultimately show ?thesis
    using v(1,2,4,5) by (simp add: sound_expansion_def id_collision_None bad_kind_None eff_flow)
qed

lemma splice_ok:
  assumes "turn_from d s r" "sr_stepId res = ws_id s" "ws_type s = Dynamic" "splice_steps opts d pol p s res r sto = (ok, r', sto')"
  shows "turn_ok pr pol d r r' \<and> wr_status r' = (if ok then RunRunning else RunFailed)"
proof (cases "\<exists>ex. extractExpansion (sr_output res) = Some ex \<and>
    validateExpansion r (rewrite_last (rejoin_of s ex) (map (wo_readStep opts) (ex_steps ex))) (ex_entry ex) d pol = None")
  case False
  then obtain e where f: "failRun e r sto = (r', sto')" "\<not> ok"
    using assms(4) by (auto simp: splice_steps_def Let_def split: option.splits)
  from fail_ok [OF assms(1) f(1)] f show ?thesis by (auto simp: failRun_def)
next
  case True
  let ?f = "flow_of r"
  from True obtain ex where ex: "extractExpansion (sr_output res) = Some ex"
      "validateExpansion r (rewrite_last (rejoin_of s ex) (map (wo_readStep opts) (ex_steps ex))) (ex_entry ex) d pol = None" by blast
  let ?steps = "rewrite_last (rejoin_of s ex) (map (wo_readStep opts) (ex_steps ex))"
  define res' where "res' = res\<lparr>sr_output := Some (JObj [(''expanded'', JBool True), (''entry'', JStr (ex_entry ex)),
    (''stepCount'', JNum (of_nat (length ?steps)))])\<rparr>"
  have res': "sr_stepId res' = sr_stepId res" "ok"
      "r' = enter_state res' (Some (ex_entry ex)) (ws_outputScope s = Some StepScope) p
        (r\<lparr>wr_dynamicSteps := wr_dynamicSteps r @ ?steps, wr_expansionDepth := Suc (wr_expansionDepth r)\<rparr>)"
    using assms(4) ex by (simp_all add: splice_steps_def Let_def res'_def)
  have "core r' = (?f\<lparr>fl_current := ex_entry ex, fl_history := fl_history ?f @ [res'], fl_dynamic := fl_dynamic ?f @ ?steps,
      fl_depth := Suc (fl_depth ?f)\<rparr>, ident r)"
    unfolding res'(3) core_enter_state by (simp add: flow_of_def core_def)
  moreover have "flow_step pr pol d ?f (?f\<lparr>fl_current := ex_entry ex, fl_history := fl_history ?f @ [res'],
      fl_dynamic := fl_dynamic ?f @ ?steps, fl_depth := Suc (fl_depth ?f)\<rparr>)"
    using assms(1,2,3) res'(1) validate_sound [OF ex(2)] by (intro flow_step.splice) (simp_all add: turn_from_def eff_flow)
  moreover have "wr_status r' = RunRunning"
    using res'(3) turn_from_status [OF assms(1)] by (simp add: enter_state_def Let_def)
  ultimately show ?thesis using res'(2) by (simp add: turn_ok_def core_def)
qed

text \<open>The status a turn leaves behind, by the way it ends.\<close>

definition end_status :: "turn_end \<Rightarrow> wf_status \<Rightarrow> bool" where
  "end_status e st = (case e of
       Continue \<Rightarrow> st = RunRunning \<or> st = RunCompleted
     | Break \<Rightarrow> st = RunFailed
     | Return \<Rightarrow> st = RunPaused)"

lemma after_success_ok:
  assumes "turn_from d s r" "sr_stepId res = ws_id s" "after_success opts d pol p s res r sto = (e, r', sto')"
  shows "turn_ok (wo_print opts) pol d r r' \<and> end_status e (wr_status r')"
proof -
  define sto1 where "sto1 = remember opts s (sr_output res) r (settle_lock opts s (sr_output res) r sto)"
  define r1 where "r1 = (if has_ceiling pol then r\<lparr>wr_costTotal := cost_total (wr_id r) sto1\<rparr> else r)"
  have c: "core r1 = core r" by (simp add: r1_def)
  have t: "turn_from d s r1" using assms(1) turn_from_core [OF c] by blast
  note ok = turn_ok_core [OF c]
  have eq: "(case over_ceiling pol (cost_total (wr_id r) sto1) of
       Some m \<Rightarrow> (Break, failRun m r1 sto1)
     | None \<Rightarrow>
         if asks_human s (sr_output res) then (Return, ask_human opts s res r1 sto1)
         else if ws_type s = Wait then (Return, wait_here opts s res r1 sto1)
         else if ws_type s = Dynamic then
           (case splice_steps opts d pol p s res r1 sto1 of (ok, r2, sto2) \<Rightarrow> (if ok then Continue else Break, r2, sto2))
         else (Continue, move_on opts d True (ws_outputScope s = Some StepScope) p s res r1 sto1)) = (e, r', sto')"
    using assms(3) unfolding after_success_def Let_def sto1_def r1_def .
  show ?thesis
  proof (cases "over_ceiling pol (cost_total (wr_id r) sto1)")
    case (Some m)
    with eq have f: "failRun m r1 sto1 = (r', sto')" "e = Break" by auto
    from fail_ok [OF t f(1)] ok f show ?thesis by (auto simp: end_status_def failRun_def)
  next
    case None
    consider "asks_human s (sr_output res)" | "\<not> asks_human s (sr_output res)" "ws_type s = Wait"
      | "\<not> asks_human s (sr_output res)" "ws_type s = Dynamic"
      | "\<not> asks_human s (sr_output res)" "ws_type s \<noteq> Wait" "ws_type s \<noteq> Dynamic" by blast
    then show ?thesis
    proof cases
      case 1
      with None eq have h: "ask_human opts s res r1 sto1 = (r', sto')" "e = Return" by auto
      from 1 have "ws_type s = HumanTask" by (simp add: asks_human_def)
      from ask_human_ok [OF t assms(2) this h(1)] ok h(2) show ?thesis by (auto simp: end_status_def)
    next
      case 2
      with None eq have h: "wait_here opts s res r1 sto1 = (r', sto')" "e = Return" by auto
      from wait_ok [OF t assms(2) 2(2) h(1)] ok h(2) show ?thesis by (auto simp: end_status_def)
    next
      case 3
      with None eq obtain b where h: "splice_steps opts d pol p s res r1 sto1 = (b, r', sto')" "e = (if b then Continue else Break)"
        by (auto split: prod.splits)
      from splice_ok [OF t assms(2) 3(2) h(1)] ok h(2) show ?thesis by (auto simp: end_status_def)
    next
      case 4
      with None eq have h: "move_on opts d True (ws_outputScope s = Some StepScope) p s res r1 sto1 = (r', sto')" "e = Continue" by auto
      from move_on_ok [OF t assms(2) h(1)] ok h(2) show ?thesis by (auto simp: end_status_def)
    qed
  qed
qed

lemma run_step_ok:
  assumes "turn_from d s r" "run_step opts d pol hs p s r sto = (e, r', sto')"
  shows "turn_ok (wo_print opts) pol d r r' \<and> end_status e (wr_status r')"
proof -
  obtain res r1 sto1 where a: "call_step opts hs s r sto = (res, r1, sto1)" by (metis prod_cases3)
  have c1: "core r1 = core r" using core_call_step [OF a] .
  have t1: "turn_from d s r1" using assms(1) turn_from_core [OF c1] by blast
  have i1: "sr_stepId res = ws_id s" using call_step_id [OF a] .
  show ?thesis
  proof (cases "sr_status res = StepFailed")
    case True
    obtain r2 sto2 where b: "after_failure opts d hs p s res r1 sto1 = (r2, sto2)" by (metis surj_pair)
    with True a assms(2) have "r' = r2" "e = (if wr_status r2 = RunFailed then Break else Continue)"
      by (auto simp: run_step_def Let_def)
    with after_failure_ok [OF t1 i1 b] turn_ok_core [OF c1] show ?thesis by (auto simp: end_status_def)
  next
    case False
    obtain pr2 r2 sto2 where b: "postProcessSuccess opts s res r1 sto1 = (pr2, r2, sto2)" by (metis prod_cases3)
    have c2: "core r2 = core r" using core_postProcess [OF b] c1 by simp
    have t2: "turn_from d s r2" using assms(1) turn_from_core [OF c2] by blast
    have i2: "sr_stepId pr2 = ws_id s" using postProcess_id [OF b i1] .
    note ok = turn_ok_core [OF c2]
    show ?thesis
    proof (cases "sr_status pr2 = StepFailed")
      case True
      show ?thesis
      proof (cases "truthy_str (ws_onError s)")
        case None
        with a b True False assms(2) obtain m where f: "failRun m r2 sto2 = (r', sto')" "e = Break"
          by (auto simp: run_step_def Let_def)
        from fail_ok [OF t2 f(1)] ok f show ?thesis by (auto simp: end_status_def failRun_def)
      next
        case (Some t)
        with a b True False assms(2) have f: "error_boundary opts t p s pr2 r2 sto2 = (r', sto')" "e = Continue"
          by (auto simp: run_step_def Let_def)
        from boundary_ok [OF t2 i2 Some f(1)] ok f(2) show ?thesis by (auto simp: end_status_def)
      qed
    next
      case ok2: False
      with a b False assms(2) have "after_success opts d pol p s pr2 r2 sto2 = (e, r', sto')"
        by (simp add: run_step_def Let_def)
      from after_success_ok [OF t2 i2 this] ok show ?thesis by blast
    qed
  qed
qed

lemma exec_turn_ok:
  assumes "turn_from d s r" "exec_turn opts d pol hs s r sto = (e, r', sto')"
  shows "turn_ok (wo_print opts) pol d r r' \<and> end_status e (wr_status r')"
proof -
  have move: "turn_ok (wo_print opts) pol d r r' \<and> end_status Continue (wr_status r')"
    if "core r1 = core r" "move_on opts d True False p s res r1 sto1 = (r', sto')" "sr_stepId res = ws_id s" for r1 p res sto1
  proof -
    have "turn_from d s r1" using assms(1) turn_from_core [OF that(1)] by blast
    from move_on_ok [OF this that(3,2)] turn_ok_core [OF that(1)] show ?thesis by (auto simp: end_status_def)
  qed
  have run: "turn_ok (wo_print opts) pol d r r' \<and> end_status e (wr_status r')"
    if "run_step opts d pol hs p s (promote s r) sto1 = (e, r', sto')" for p sto1
  proof -
    have "turn_from d s (promote s r)" using assms(1) turn_from_core [OF core_promote] by blast
    from run_step_ok [OF this that] turn_ok_core [OF core_promote] show ?thesis by blast
  qed
  consider "skips opts s r"
    | v where "\<not> skips opts s r" "(case idem_key opts s r of None \<Rightarrow> None | Some k \<Rightarrow> idem_get k sto) = Some v"
    | out where "\<not> skips opts s r" "(case idem_key opts s r of None \<Rightarrow> None | Some k \<Rightarrow> idem_get k sto) = None"
        "wo_locks opts" "done_output (wr_id r) (ws_id s) sto = Some out"
    | "\<not> skips opts s r" "(case idem_key opts s r of None \<Rightarrow> None | Some k \<Rightarrow> idem_get k sto) = None"
        "\<not> (wo_locks opts \<and> done_output (wr_id r) (ws_id s) sto \<noteq> None)"
    by fastforce
  then show ?thesis
  proof cases
    case 1
    with assms(2) have "move_on opts d True False [] s (skip_res s) r sto = (r', sto')" "e = Continue" by (auto simp: exec_turn_def)
    with move [OF refl this(1)] show ?thesis by simp
  next
    case (2 v)
    with assms(2) have "move_on opts d True False [] s (step_ok s (Some v)) r sto = (r', sto')" "e = Continue"
      by (auto simp: exec_turn_def)
    with move [OF refl this(1)] show ?thesis by simp
  next
    case (3 out)
    with assms(2) have "move_on opts d True False (promoted_keys r) s (step_ok s out) (promote s r) sto = (r', sto')" "e = Continue"
      by (auto simp: exec_turn_def Let_def)
    with move [OF core_promote this(1)] show ?thesis by simp
  next
    case 4
    then obtain sto1 where "run_step opts d pol hs (promoted_keys r) s (promote s r) sto1 = (e, r', sto')"
      using assms(2) by (auto simp: exec_turn_def Let_def split: if_splits option.splits)
    with run show ?thesis by blast
  qed
qed

end
