(* ===== verification/WorkflowLintProps.thy ===== *)
theory WorkflowLintProps
  imports WorkflowLint
begin

text \<open>
  What the linter finds: its searches end, and they decide reachability and the existence of a cycle in the
  graph of the steps.
\<close>

section \<open>The relation\<close>

definition step_edges :: "wf_step list \<Rightarrow> (string \<times> string) set" where
  "step_edges steps = {(a, b). \<exists>s. stepMap steps a = Some s \<and> b \<in> set (nextsOf s)}"

definition flow_edges :: "wf_step list \<Rightarrow> (string \<times> string) set" where
  "flow_edges steps = {(a, b). \<exists>s. stepMap steps a = Some s \<and> b \<in> set (outIds s)}"

section \<open>Reachability\<close>

lemma Image_closed:
  assumes "\<And>x y. x \<in> A \<Longrightarrow> (x, y) \<in> R \<Longrightarrow> y \<in> A \<union> R\<^sup>* `` B"
  shows "R\<^sup>* `` A \<subseteq> A \<union> R\<^sup>* `` B"
proof
  fix y
  assume "y \<in> R\<^sup>* `` A"
  then obtain x where "x \<in> A" "(x, y) \<in> R\<^sup>*" by blast
  from this(2) show "y \<in> A \<union> R\<^sup>* `` B"
  proof (induction rule: rtrancl_induct)
    case base
    with \<open>x \<in> A\<close> show ?case by simp
  next
    case (step y z)
    from step(3) show ?case
    proof
      assume "y \<in> A"
      with assms step(2) show ?thesis by blast
    qed (use step(2) in \<open>blast intro: rtrancl_into_rtrancl\<close>)
  qed
qed

lemma reach_loop_exact:
  assumes "\<And>x y. x \<in> seen \<Longrightarrow> (x, y) \<in> flow_edges steps \<Longrightarrow> y \<in> seen \<or> y \<in> set stack"
  shows "reach_loop steps stack seen = seen \<union> (flow_edges steps)\<^sup>* `` set stack"
  using assms
proof (induction steps stack seen rule: reach_loop.induct)
  case (1 steps seen)
  then show ?case by simp
next
  case (2 steps i stack seen)
  let ?R = "flow_edges steps"
  show ?case
  proof (cases "i \<in> seen")
    case True
    have "?R\<^sup>* `` seen \<subseteq> seen \<union> ?R\<^sup>* `` set stack" using 2(4) True by (intro Image_closed) fastforce
    moreover have "reach_loop steps stack seen = seen \<union> ?R\<^sup>* `` set stack" using 2(1) [OF True] 2(4) True by fastforce
    ultimately show ?thesis using True by auto
  next
    case False
    show ?thesis
    proof (cases "stepMap steps i")
      case None
      then have none: "(i, y) \<notin> ?R" for y by (simp add: flow_edges_def)
      then have "?R\<^sup>* `` {i} = {i}" by (auto elim: converse_rtranclE)
      moreover have "reach_loop steps stack (insert i seen) = insert i seen \<union> ?R\<^sup>* `` set stack"
        using 2(2) [OF False None] 2(4) none by fastforce
      ultimately show ?thesis using False None by auto
    next
      case (Some s)
      let ?new = "rev (filter (\<lambda>n. n \<notin> insert i seen) (outIds s)) @ stack"
      have succ: "(i, y) \<in> ?R \<longleftrightarrow> y \<in> set (outIds s)" for y using Some by (simp add: flow_edges_def)
      have IH: "reach_loop steps ?new (insert i seen) = insert i seen \<union> ?R\<^sup>* `` set ?new"
        using 2(3) [OF False Some] 2(4) succ by fastforce
      have "?R\<^sup>* `` insert i seen \<subseteq> insert i seen \<union> ?R\<^sup>* `` set ?new"
        using 2(4) succ by (intro Image_closed) fastforce
      moreover have "?R\<^sup>* `` set ?new \<subseteq> ?R\<^sup>* `` set (i # stack)"
      proof
        fix z
        assume "z \<in> ?R\<^sup>* `` set ?new"
        then obtain y where y: "y \<in> set (outIds s) \<or> y \<in> set stack" and z: "(y, z) \<in> ?R\<^sup>*" by auto
        from y show "z \<in> ?R\<^sup>* `` set (i # stack)"
        proof
          assume "y \<in> set (outIds s)"
          with z succ have "(i, z) \<in> ?R\<^sup>*" by (meson converse_rtrancl_into_rtrancl)
          then show ?thesis by auto
        qed (use z in auto)
      qed
      moreover have "?R\<^sup>* `` set stack \<subseteq> ?R\<^sup>* `` set ?new" by auto
      ultimately have "insert i seen \<union> ?R\<^sup>* `` set ?new = seen \<union> ?R\<^sup>* `` set (i # stack)"
        by auto
      with IH False Some show ?thesis by simp
    qed
  qed
qed

lemma reachableSteps_exact: "reachableSteps d = (flow_edges (wd_steps d))\<^sup>* `` {wd_entryStepId d}"
  unfolding reachableSteps_def by (subst reach_loop_exact) auto

section \<open>Cycles\<close>

abbreviation below :: "wf_step list \<Rightarrow> string set \<Rightarrow> bool" where
  "below steps F \<equiv> step_edges steps `` F \<subseteq> F \<and> acyclic (Restr (step_edges steps) F)"

lemma below_insert:
  assumes "below steps F" "step_edges steps `` {n} \<subseteq> F" "n \<notin> F"
  shows "below steps (insert n F)"
proof -
  let ?R = "step_edges steps"
  let ?S = "Restr ?R (insert n F)"
  have "acyclic ?S"
  proof (rule acyclicI, intro allI notI)
    fix x
    assume x: "(x, x) \<in> ?S\<^sup>+"
    have stay: "b \<in> F" if "(a, b) \<in> ?S\<^sup>+" for a b
      using that by (induction rule: trancl_induct) (use assms in auto)
    have embed: "(a, b) \<in> (Restr ?R F)\<^sup>+" if "(a, b) \<in> ?S\<^sup>+" "a \<in> F" for a b
      using that
    proof (induction rule: trancl_induct)
      case (base y)
      with assms(1) show ?case by auto
    next
      case (step y z)
      with stay [OF step(1)] assms(1) have "(y, z) \<in> Restr ?R F" by auto
      with step show ?case by (meson trancl.trancl_into_trancl)
    qed
    from embed [OF x stay [OF x]] assms(1) show False unfolding acyclic_def by blast
  qed
  with assms show ?thesis by auto
qed

lemma cycle_from_keeps_recs: "\<not> fst (cycle_from steps ns visited recs) \<Longrightarrow> snd (snd (cycle_from steps ns visited recs)) \<subseteq> recs"
proof (induction steps ns visited recs rule: cycle_from.induct)
  case (2 steps n ns visited recs)
  consider "n \<in> visited" | "n \<notin> visited" "stepMap steps n = None" | s where "n \<notin> visited" "stepMap steps n = Some s"
    by (cases "stepMap steps n") auto
  then show ?case
  proof cases
    case 1
    with 2(4,5) show ?thesis by (cases "n \<in> recs") simp_all
  next
    case b: 2
    with 2(1) [OF b] 2(5) show ?thesis by auto
  next
    case (3 s)
    from 2(5) 3 have ok: "\<not> fst (cycle_from steps (nextsOf s) (insert n visited) (insert n recs))"
      by (auto simp: Let_def split: if_splits)
    with 2(2) [OF 3] 2(3) [OF 3 refl ok] 2(5) 3 show ?thesis by (simp add: Let_def) blast
  qed
qed simp

text \<open>Where the search reports a cycle there is one.\<close>

lemma cycle_from_sound:
  "fst (cycle_from steps ns visited recs) \<Longrightarrow> (\<And>x n. x \<in> recs \<Longrightarrow> n \<in> set ns \<Longrightarrow> (x, n) \<in> (step_edges steps)\<^sup>+) \<Longrightarrow>
   \<not> acyclic (step_edges steps)"
proof (induction steps ns visited recs rule: cycle_from.induct)
  case (2 steps n ns visited recs)
  let ?R = "step_edges steps"
  consider "n \<in> recs" | "n \<in> visited" "n \<notin> recs" | "n \<notin> visited" "stepMap steps n = None"
    | s where "n \<notin> visited" "stepMap steps n = Some s"
    by (cases "stepMap steps n") auto
  then show ?case
  proof cases
    case 1
    then have "(n, n) \<in> ?R\<^sup>+" using 2(6) by simp
    then show ?thesis unfolding acyclic_def by blast
  next
    case b: 2
    show ?thesis using 2(4) [of] b 2(5,6) by simp
  next
    case c: 3
    show ?thesis by (rule 2(1) [OF c]) (use c 2(5,6) in auto)
  next
    case (4 s)
    let ?r = "cycle_from steps (nextsOf s) (insert n visited) (insert n recs)"
    show ?thesis
    proof (cases "fst ?r")
      case True
      show ?thesis
      proof (rule 2(2) [OF 4 True])
        fix x m
        assume x: "x \<in> insert n recs" and "m \<in> set (nextsOf s)"
        with 4 have "(n, m) \<in> ?R" by (auto simp: step_edges_def)
        moreover have "x = n \<or> (x, n) \<in> ?R\<^sup>+" using x 2(6) by auto
        ultimately show "(x, m) \<in> ?R\<^sup>+" by (meson r_into_trancl trancl_into_trancl)
      qed
    next
      case False
      show ?thesis
        by (rule 2(3) [OF 4 refl False]) (use 4 False 2(5,6) cycle_from_keeps_recs [OF False] in \<open>auto simp: Let_def\<close>)
    qed
  qed
qed simp

text \<open>Where it reports none, what it has finished is closed and free of cycles.\<close>

lemma cycle_from_complete:
  "\<not> fst (cycle_from steps ns visited recs) \<Longrightarrow> recs \<subseteq> visited \<Longrightarrow> below steps (visited - recs) \<Longrightarrow>
   snd (snd (cycle_from steps ns visited recs)) = recs \<and>
   visited \<subseteq> fst (snd (cycle_from steps ns visited recs)) \<and>
   set ns \<subseteq> fst (snd (cycle_from steps ns visited recs)) - recs \<and>
   below steps (fst (snd (cycle_from steps ns visited recs)) - recs)"
proof (induction steps ns visited recs rule: cycle_from.induct)
  case (2 steps n ns visited recs)
  consider "n \<in> visited" | "n \<notin> visited" "stepMap steps n = None" | s where "n \<notin> visited" "stepMap steps n = Some s"
    by (cases "stepMap steps n") auto
  then show ?case
  proof cases
    case a: 1
    then have "n \<notin> recs" using 2(5) by auto
    with a 2(4) 2(5,6,7) show ?thesis by auto
  next
    case b: 2
    then have n: "n \<notin> recs" using 2(6) by auto
    have "step_edges steps `` {n} = {}" using b by (auto simp: step_edges_def)
    with below_insert [OF 2(7), of n] b n have "below steps (insert n visited - recs)" by (simp add: insert_Diff_if)
    moreover have "recs \<subseteq> insert n visited" using 2(6) by auto
    ultimately show ?thesis using 2(1) [OF b] 2(5) b n by simp
  next
    case (3 s)
    let ?r = "cycle_from steps (nextsOf s) (insert n visited) (insert n recs)"
    from 3 have n: "n \<notin> recs" using 2(6) by auto
    from 2(5) 3 have ok: "\<not> fst ?r" by (auto simp: Let_def split: if_splits)
    have "insert n visited - insert n recs = visited - recs" using 3 n by auto
    with 2(2) [OF 3 ok] 2(6,7) have r: "snd (snd ?r) = insert n recs" "insert n visited \<subseteq> fst (snd ?r)"
        "set (nextsOf s) \<subseteq> fst (snd ?r) - insert n recs" "below steps (fst (snd ?r) - insert n recs)"
      by (simp_all add: subset_insertI2)
    have "step_edges steps `` {n} = set (nextsOf s)" using 3 by (auto simp: step_edges_def)
    then have "below steps (insert n (fst (snd ?r) - insert n recs))" using r by (intro below_insert) auto
    moreover have "insert n (fst (snd ?r) - insert n recs) = fst (snd ?r) - recs" using r(2) n by auto
    ultimately have fin: "below steps (fst (snd ?r) - recs)" by simp
    have recs: "insert n recs - {n} = recs" using n by auto
    have rest: "\<not> fst (cycle_from steps ns (fst (snd ?r)) recs)" using 2(5) 3 ok r(1) recs by (simp add: Let_def)
    have "recs \<subseteq> fst (snd ?r)" using r(2) 2(6) by blast
    note IH = 2(3) [OF 3 refl ok, unfolded r(1) recs, OF rest this fin]
    have "cycle_from steps (n # ns) visited recs = cycle_from steps ns (fst (snd ?r)) recs"
      using 3 ok r(1) recs by (simp add: Let_def)
    with IH r(2) n show ?thesis by (simp del: cycle_from.simps) blast
  qed
qed simp

lemma cycle_scan_exact:
  "below steps visited \<Longrightarrow> set ss \<subseteq> set steps \<Longrightarrow> \<forall>s\<in>set steps. s \<in> set ss \<or> ws_id s \<in> visited \<Longrightarrow>
   cycle_scan steps ss visited {} = None \<longleftrightarrow> acyclic (step_edges steps)"
proof (induction ss arbitrary: visited)
  case Nil
  have "a \<in> visited \<and> b \<in> visited" if "(a, b) \<in> step_edges steps" for a b
  proof
    from that obtain s where "s \<in> set steps" "ws_id s = a" by (auto simp: step_edges_def dest!: stepMap_in)
    with Nil(3) show "a \<in> visited" by auto
    with Nil(1) that show "b \<in> visited" by blast
  qed
  then have "Restr (step_edges steps) visited = step_edges steps" by auto
  with Nil show ?case by simp
next
  case (Cons s ss)
  show ?case
  proof (cases "ws_id s \<in> visited")
    case True
    have "cycle_scan steps ss visited {} = None \<longleftrightarrow> acyclic (step_edges steps)"
      by (rule Cons(1)) (use True Cons(2,3,4) in auto)
    with True show ?thesis by simp
  next
    case False
    let ?r = "cycle_from steps [ws_id s] visited {}"
    show ?thesis
    proof (cases "fst ?r")
      case True
      with cycle_from_sound [OF True] False show ?thesis by (simp add: hasCycle_def Let_def)
    next
      case ok: False
      from cycle_from_complete [OF ok] Cons(2) have r: "snd (snd ?r) = {}" "visited \<subseteq> fst (snd ?r)" "ws_id s \<in> fst (snd ?r)"
          "below steps (fst (snd ?r))" by auto
      have "cycle_scan steps ss (fst (snd ?r)) {} = None \<longleftrightarrow> acyclic (step_edges steps)"
        by (rule Cons(1)) (use r Cons(3,4) in \<open>auto simp del: cycle_from.simps\<close>)
      with False ok r(1) show ?thesis by (simp add: hasCycle_def Let_def del: cycle_from.simps)
    qed
  qed
qed

text \<open>
  Claim C12: The linter reports a circular reference exactly when some step can be reached again from itself along
  the \<^verbatim>\<open>next\<close> references, and it always finishes, whatever the graph.
\<close>

theorem lint_cycle_iff: "lint_cycle d \<noteq> [] \<longleftrightarrow> (\<exists>i. (i, i) \<in> (step_edges (wd_steps d))\<^sup>+)"
  using cycle_scan_exact [of "wd_steps d" "{}" "wd_steps d"]
  by (auto simp: lint_cycle_def acyclic_def split: option.splits)

text \<open>
  Claim C13: The linter warns of an unreachable step exactly for the steps that no path along \<^verbatim>\<open>next\<close> and \<^verbatim>\<open>onError\<close>
  references leads to from the entry step.
\<close>

theorem lint_unreachable_iff:
  "map li_stepId (lint_unreachable d) =
   map (Some \<circ> ws_id) (filter (\<lambda>s. (wd_entryStepId d, ws_id s) \<notin> (flow_edges (wd_steps d))\<^sup>*) (wd_steps d))"
  by (simp add: lint_unreachable_def reachableSteps_exact comp_def)

end
