(* ===== verification/WorkflowRuns.thy ===== *)
theory WorkflowRuns
  imports WorkflowRefine WorkflowLintProps
begin

text \<open>
  What holds of every run: the loop is a path of the abstract machine, it ends, its history follows the
  graph, generated graphs stay within their budget and clean, and edits of the live definition do not reach
  a run that has started.
\<close>

section \<open>The loop\<close>

lemma sto_runs_simps [simp]:
  "sto_runs (save_checkpoint opts r i sto) = sto_runs sto"
  "sto_runs (schedule_sleep i t sto) = sto_runs sto"
  "map_of (sto_runs (save_run r sto)) i = (if i = wr_id r then Some r else map_of (sto_runs sto) i)"
  by (simp_all add: save_checkpoint_def fresh_id_def schedule_sleep_def save_run_def)

lemma pause_stored: "pause_run opts s res r sto = (r', sto') \<Longrightarrow> map_of (sto_runs sto') (wr_id r') = Some r'"
  by (auto simp: pause_run_def Let_def)

lemma return_stored:
  assumes "exec_turn opts d pol hs s r sto = (Return, r', sto')"
  shows "map_of (sto_runs sto') (wr_id r') = Some r'"
proof -
  obtain p r1 sto1 where "run_step opts d pol hs p s r1 sto1 = (Return, r', sto')"
    using assms by (auto simp: exec_turn_def Let_def split: if_splits option.splits)
  then obtain res r2 sto2 where "after_success opts d pol p s res r2 sto2 = (Return, r', sto')"
    by (auto simp: run_step_def Let_def split: if_splits option.splits prod.splits)
  then obtain res r3 sto3 where "ask_human opts s res r3 sto3 = (r', sto') \<or> wait_here opts s res r3 sto3 = (r', sto')"
    by (auto simp: after_success_def Let_def split: if_splits option.splits prod.splits)
  then show ?thesis
    by (auto simp: ask_human_def wait_here_def Let_def dest: pause_stored split: option.splits prod.splits if_splits)
qed

abbreviation flow_path :: "'e wf_opts \<Rightarrow> wf_def \<Rightarrow> flow \<Rightarrow> flow \<Rightarrow> bool" where
  "flow_path opts d \<equiv> (flow_step (wo_print opts) (policy_of opts d) d)\<^sup>*\<^sup>*"

lemma flow_history: "flow_step pr pol d f g \<Longrightarrow> length (fl_history g) \<le> Suc (length (fl_history f))"
  by (erule flow_stepE) auto

lemma flow_running: "flow_step pr pol d f g \<Longrightarrow> fl_status f = RunRunning"
  by (erule flow_stepE) auto

text \<open>All there is to know about the loop, by induction on it.\<close>

definition loop_ok :: "(rat \<Rightarrow> string) \<Rightarrow> wf_policy option \<Rightarrow> wf_def \<Rightarrow> bool \<Rightarrow> nat \<Rightarrow> wf_run \<Rightarrow> wf_run \<times> 'e wf_stores \<Rightarrow> bool" where
  "loop_ok pr pol d tick left r out \<longleftrightarrow>
     (flow_step pr pol d)\<^sup>*\<^sup>* (flow_of r) (flow_of (fst out)) \<and> ident (fst out) = ident r \<and>
     (wr_status r \<noteq> RunRunning \<longrightarrow> fst out = r) \<and>
     (wr_status r = RunRunning \<and> \<not> tick \<longrightarrow> wr_status (fst out) \<in> {RunPaused, RunCompleted, RunFailed}) \<and>
     length (st_history (wr_state (fst out))) \<le> length (st_history (wr_state r)) + left \<and>
     map_of (sto_runs (snd out)) (wr_id r) = Some (fst out)"

lemma ident_id: "ident r' = ident r \<Longrightarrow> wr_id r' = wr_id r"
  by (simp add: core_def)

lemma loop_ok_fail:
  assumes "wr_status r = RunRunning"
  shows "loop_ok pr pol d tick left r (case failRun e r sto of (r', sto') \<Rightarrow> (r', save_run r' sto'))"
proof -
  obtain r' sto' where f: "failRun e r sto = (r', sto')" by (metis surj_pair)
  have c: "core r' = ((flow_of r)\<lparr>fl_status := RunFailed\<rparr>, ident r)" using core_fail [OF f] .
  have "flow_step pr pol d (flow_of r) (flow_of r')" using flow_step.fail [of "flow_of r"] assms c by (simp add: core_def)
  moreover have "wr_status r' = RunFailed" "st_history (wr_state r') = st_history (wr_state r)" "wr_id r' = wr_id r"
    using f by (auto simp: failRun_def)
  ultimately show ?thesis using f c assms by (auto simp: loop_ok_def core_def)
qed

lemma loop_ok_turn:
  assumes "turn_ok pr pol d r r'" "end_status e (wr_status r')" "e \<noteq> Continue" "map_of (sto_runs sto') (wr_id r') = Some r'"
  shows "loop_ok pr pol d tick (Suc left) r (r', sto')"
  using assms flow_history [of pr pol d "flow_of r" "flow_of r'"] flow_running [of pr pol d "flow_of r" "flow_of r'"] ident_id [of r' r]
  by (cases e) (auto simp: loop_ok_def turn_ok_def end_status_def)

lemma loop_ok_continue:
  assumes "turn_ok pr pol d r r'" "end_status Continue (wr_status r')" "loop_ok pr pol d tick left r' out"
  shows "loop_ok pr pol d tick (Suc left) r out"
proof -
  have "flow_step pr pol d (flow_of r) (flow_of r')" "ident r' = ident r" using assms(1) by (simp_all add: turn_ok_def)
  moreover have "wr_id r' = wr_id r" using ident_id [OF calculation(2)] .
  moreover have "length (st_history (wr_state r')) \<le> Suc (length (st_history (wr_state r)))"
    using flow_history [OF calculation(1)] by simp
  moreover have "wr_status r = RunRunning" using flow_running [OF calculation(1)] by simp
  ultimately show ?thesis using assms(2,3)
    by (cases "wr_status r' = RunRunning")
       (auto simp: loop_ok_def end_status_def intro: converse_rtranclp_into_rtranclp)
qed

lemma exec_loop_ok: "loop_ok (wo_print opts) pol d tick (maxSteps - n) r (exec_loop opts d pol hs tick maxSteps n r sto)"
proof (induction opts d pol hs tick maxSteps n r sto rule: exec_loop.induct)
  case (1 opts d pol hs tick maxSteps n r sto)
  note [simp del] = exec_loop.simps
  consider "wr_status r \<noteq> RunRunning"
    | "wr_status r = RunRunning" "find_step (eff_steps d r) (st_current (wr_state r)) = None"
    | s where "wr_status r = RunRunning" "find_step (eff_steps d r) (st_current (wr_state r)) = Some s" "maxSteps \<le> n"
    | s where "wr_status r = RunRunning" "find_step (eff_steps d r) (st_current (wr_state r)) = Some s" "n < maxSteps"
    by (cases "find_step (eff_steps d r) (st_current (wr_state r))") fastforce+
  then show ?case
  proof cases
    case 1
    then show ?thesis by (simp add: exec_loop.simps [of opts d pol hs tick maxSteps n r sto] loop_ok_def)
  next
    case 2
    with loop_ok_fail [OF 2(1)] show ?thesis by (simp add: exec_loop.simps [of opts d pol hs tick maxSteps n r sto] Let_def)
  next
    case (3 s)
    show ?thesis
    proof (cases tick)
      case True
      with 3 show ?thesis by (subst exec_loop.simps) (simp add: loop_ok_def)
    next
      case False
      with 3 loop_ok_fail [OF 3(1)] show ?thesis by (subst exec_loop.simps) (simp add: Let_def)
    qed
  next
    case (4 s)
    obtain e r' sto' where t: "exec_turn opts d pol hs s r sto = (e, r', sto')" by (metis prod_cases3)
    have ok: "turn_ok (wo_print opts) pol d r r'" "end_status e (wr_status r')"
      using exec_turn_ok [OF _ t] 4 by (simp_all add: turn_from_def)
    have left: "maxSteps - n = Suc (maxSteps - Suc n)" using 4(3) by simp
    show ?thesis
    proof (cases e)
      case Continue
      have "loop_ok (wo_print opts) pol d tick (maxSteps - Suc n) r' (exec_loop opts d pol hs tick maxSteps (Suc n) r' sto')"
        using 1 [OF _ 4(2) _ t [symmetric] Continue refl] 4 by simp
      from loop_ok_continue [OF ok(1) _ this] ok(2) 4 t Continue left show ?thesis
        by (simp add: exec_loop.simps [of opts d pol hs tick maxSteps n r sto])
    next
      case Break
      with loop_ok_turn [OF ok, of "save_run r' sto'" tick] 4 t left show ?thesis
        by (simp add: exec_loop.simps [of opts d pol hs tick maxSteps n r sto])
    next
      case Return
      with loop_ok_turn [OF ok _ return_stored, of opts d pol hs s r sto sto' tick] 4 t left show ?thesis
        by (simp add: exec_loop.simps [of opts d pol hs tick maxSteps n r sto])
    qed
  qed
qed

lemma executeRun_ok:
  "loop_ok (wo_print opts) (policy_of opts (active_def r def)) (active_def r def) (tick \<noteq> None)
     (nullish tick (max_steps (policy_of opts (active_def r def)))) r (executeRun opts tick def r sto)"
  using exec_loop_ok [of opts "policy_of opts (active_def r def)" "active_def r def" "tick \<noteq> None"
      "nullish tick (max_steps (policy_of opts (active_def r def)))" 0 r]
  by (simp add: executeRun_def Let_def del: exec_loop.simps)

section \<open>Guarantees\<close>

text \<open>
  Claim C3: Whatever handlers, stores and policies do, a run only moves as the abstract machine allows: the engine
  refines the machine of steps, error boundaries, sound expansions, pauses and failures.
\<close>

theorem engine_refines_flow: "flow_path opts (active_def r def) (flow_of r) (flow_of (fst (executeRun opts tick def r sto)))"
  using executeRun_ok [of opts r def tick sto] by (simp add: loop_ok_def)

lemma startRun_executes:
  assumes "startRun opts defs wid input tr tn par sto = (Inr r', sto')"
  obtains d r sto1 where "map_of defs wid = Some d" "executeRun opts None d r sto1 = (r', sto')" "wr_status r = RunRunning"
    "wr_state r = createInitialState d input" "wr_dynamicSteps r = []" "wr_expansionDepth r = 0" "wr_snapshot r = Some d"
    "wr_workflowId r = wid"
  using assms unfolding startRun_def Let_def by (auto split: option.splits prod.splits)

lemma startRun_ok:
  assumes "startRun opts defs wid input tr tn par sto = (Inr r', sto')"
  obtains d r where "map_of defs wid = Some d" "wr_status r = RunRunning" "wr_state r = createInitialState d input"
    "wr_dynamicSteps r = []" "wr_expansionDepth r = 0" "wr_snapshot r = Some d" "wr_workflowId r = wid"
    "loop_ok (wo_print opts) (policy_of opts d) d False (max_steps (policy_of opts d)) r (r', sto')"
proof -
  from startRun_executes [OF assms] obtain d r sto1 where e: "map_of defs wid = Some d" "executeRun opts None d r sto1 = (r', sto')"
      "wr_status r = RunRunning" "wr_state r = createInitialState d input" "wr_dynamicSteps r = []" "wr_expansionDepth r = 0"
      "wr_snapshot r = Some d" "wr_workflowId r = wid" .
  have "loop_ok (wo_print opts) (policy_of opts d) d False (max_steps (policy_of opts d)) r (r', sto')"
    using executeRun_ok [of opts r d None sto1] e(2,7) by (simp add: active_def_def)
  with e that show thesis by blast
qed

lemma startRun_from:
  assumes "startRun opts defs wid input tr tn par sto = (Inr r', sto')" "map_of defs wid = Some d"
  obtains r where "wr_state r = createInitialState d input" "wr_dynamicSteps r = []" "wr_expansionDepth r = 0"
    "(flow_step (wo_print opts) (policy_of opts d) d)\<^sup>*\<^sup>* (flow_of r) (flow_of r')"
proof -
  from startRun_ok [OF assms(1)] obtain d' r where r: "map_of defs wid = Some d'" "wr_state r = createInitialState d' input"
      "wr_dynamicSteps r = []" "wr_expansionDepth r = 0"
      "loop_ok (wo_print opts) (policy_of opts d') d' False (max_steps (policy_of opts d')) r (r', sto')" by blast
  moreover have "d' = d" using r(1) assms(2) by simp
  ultimately show thesis using that by (simp add: loop_ok_def)
qed


text \<open>The graph of a run: within the budgets, no id twice, and clean once something was spliced in.\<close>

definition graph_ok :: "wf_policy option \<Rightarrow> wf_def \<Rightarrow> flow \<Rightarrow> bool" where
  "graph_ok pol d f \<longleftrightarrow>
     fl_depth f \<le> max_depth pol \<and> (fl_dynamic f \<noteq> [] \<longrightarrow> generated_ok pol (length (fl_dynamic f))) \<and>
     distinct (map ws_id (fl_steps d f)) \<and>
     (fl_dynamic f \<noteq> [] \<longrightarrow> lint_clean (d\<lparr>wd_steps := fl_steps d f\<rparr>))"

lemma graph_step: "flow_step pr pol d f g \<Longrightarrow> graph_ok pol d f \<Longrightarrow> graph_ok pol d g"
proof (induction rule: flow_step.induct)
  case (splice f s res steps entry)
  then have e: "sound_expansion pol d f steps entry" "distinct (map ws_id (fl_steps d f))" by (simp_all add: graph_ok_def)
  then show ?case by (auto simp: graph_ok_def sound_expansion_def)
qed (auto simp: graph_ok_def)

lemma graph_path: "(flow_step pr pol d)\<^sup>*\<^sup>* f g \<Longrightarrow> graph_ok pol d f \<Longrightarrow> graph_ok pol d g"
  by (induction rule: rtranclp_induct) (auto intro: graph_step)

lemma lint_clean_cycle:
  assumes "lint_clean d"
  shows "lint_cycle d = []"
proof (rule ccontr)
  assume "lint_cycle d \<noteq> []"
  then obtain l where "l \<in> set (lint_cycle d)" "li_severity l = LintError"
    by (auto simp: lint_cycle_def split: option.splits)
  with assms show False by (auto simp: lint_clean_def lintWorkflow_def)
qed


text \<open>Where the graph of a definition leads from a step, on any output, or after a failure.\<close>

definition nav_edges :: "(rat \<Rightarrow> string) \<Rightarrow> wf_def \<Rightarrow> (string \<times> string) set" where
  "nav_edges pr d =
     {(a, b). \<exists>s. find_step (wd_steps d) a = Some s \<and>
        ((\<exists>out. resolveNextStep pr (wd_steps d) a out {} = Some b) \<or> truthy_str (ws_onError s) = Some b)}"

definition trail :: "(rat \<Rightarrow> string) \<Rightarrow> wf_def \<Rightarrow> flow \<Rightarrow> bool" where
  "trail pr d f \<longleftrightarrow>
     fl_dynamic f = [] \<and> successively (\<lambda>a b. (a, b) \<in> nav_edges pr d) (map sr_stepId (fl_history f)) \<and>
     (fl_history f = [] \<longrightarrow> fl_current f = wd_entryStepId d) \<and>
     (fl_history f \<noteq> [] \<longrightarrow> sr_stepId (hd (fl_history f)) = wd_entryStepId d) \<and>
     (fl_history f \<noteq> [] \<and> fl_status f = RunRunning \<longrightarrow> (sr_stepId (last (fl_history f)), fl_current f) \<in> nav_edges pr d)"

lemma trail_snoc:
  assumes "trail pr d f" "fl_status f = RunRunning" "find_step (wd_steps d) (fl_current f) = Some s" "sr_stepId res = ws_id s"
    "g = f\<lparr>fl_current := there, fl_history := fl_history f @ [res], fl_status := st\<rparr>"
    "st = RunRunning \<longrightarrow> (ws_id s, there) \<in> nav_edges pr d"
  shows "trail pr d g"
proof -
  have c: "ws_id s = fl_current f" using assms(3) by (auto dest: find_step_SomeD)
  show ?thesis
  proof (cases "fl_history f" rule: rev_cases)
    case Nil
    with assms c show ?thesis by (simp add: trail_def)
  next
    case (snoc h x)
    with assms c show ?thesis by (auto simp: trail_def successively_append_iff hd_append)
  qed
qed

lemma trail_step:
  assumes "flow_step pr pol d f g" "trail pr d f" "\<forall>s \<in> set (wd_steps d). ws_type s \<noteq> Dynamic"
  shows "trail pr d g"
  using assms(1)
proof (cases rule: flow_step.cases)
  case (advance s res nxt there st)
  have dyn: "fl_dynamic f = []" using assms(2) by (simp add: trail_def)
  have "(ws_id s, there) \<in> nav_edges pr d" if "st = RunRunning"
  proof -
    from advance that obtain b where b: "nxt = Some b" by auto
    moreover have "nxt = resolveNextStep pr (wd_steps d) (ws_id s) (sr_output res) {}" using advance(5) dyn by simp
    ultimately have "resolveNextStep pr (wd_steps d) (ws_id s) (sr_output res) {} = Some there" using advance(6) by simp
    moreover have "find_step (wd_steps d) (ws_id s) = Some s" using advance(3) dyn find_step_SomeD [OF advance(3)] by simp
    ultimately show ?thesis unfolding nav_edges_def by blast
  qed
  with trail_snoc [OF assms(2) _ _ _ advance(1)] advance dyn show ?thesis by simp
next
  case (handle s res there)
  have dyn: "fl_dynamic f = []" using assms(2) by (simp add: trail_def)
  have "find_step (wd_steps d) (ws_id s) = Some s" using handle(3) dyn find_step_SomeD [OF handle(3)] by simp
  then have e: "(ws_id s, there) \<in> nav_edges pr d" using handle(5) unfolding nav_edges_def by blast
  have g: "g = f\<lparr>fl_current := there, fl_history := fl_history f @ [res], fl_status := RunRunning\<rparr>"
    using handle(1,2) by simp
  show ?thesis by (rule trail_snoc [OF assms(2) handle(2) _ handle(4) g]) (use handle(3) dyn e in simp_all)
next
  case (splice s res steps entry)
  have "s \<in> set (wd_steps d)" using splice(3) assms(2) by (auto simp: trail_def dest: find_step_SomeD)
  with assms(3) splice(4) show ?thesis by blast
next
  case (pause s res)
  have dyn: "fl_dynamic f = []" using assms(2) by (simp add: trail_def)
  have g: "g = f\<lparr>fl_current := fl_current f, fl_history := fl_history f @ [res], fl_status := RunPaused\<rparr>"
    using pause(1) by simp
  show ?thesis by (rule trail_snoc [OF assms(2) pause(2) _ pause(5) g]) (use pause(3) dyn in simp_all)
next
  case fail
  with assms(2) show ?thesis by (simp add: trail_def)
qed

lemma trail_path:
  "(flow_step pr pol d)\<^sup>*\<^sup>* f g \<Longrightarrow> trail pr d f \<Longrightarrow> \<forall>s \<in> set (wd_steps d). ws_type s \<noteq> Dynamic \<Longrightarrow> trail pr d g"
  by (induction rule: rtranclp_induct) (auto intro: trail_step)


text \<open>
  Claim C11: A run that has started keeps its graph: when it is resumed, nothing depends on what has become of the
  live definition in the meantime.
\<close>

theorem resume_ignores_edits:
  assumes "startRun opts defs wid input tr tn par sto = (Inr r, sto1)" "map_of defs' wid = Some d'"
  shows "resumeRun opts defs' (wr_id r) data sto1 = resumeRun opts defs (wr_id r) data sto1"
proof -
  from startRun_ok [OF assms(1)] obtain d r0 where d: "map_of defs wid = Some d" "wr_snapshot r0 = Some d" "wr_workflowId r0 = wid"
      "loop_ok (wo_print opts) (policy_of opts d) d False (max_steps (policy_of opts d)) r0 (r, sto1)" .
  then have "ident r = ident r0" "map_of (sto_runs sto1) (wr_id r0) = Some r" by (simp_all add: loop_ok_def)
  then have r: "wr_snapshot r = Some d" "wr_workflowId r = wid" "map_of (sto_runs sto1) (wr_id r) = Some r"
    using d(2,3) by (simp_all add: core_def)
  have act: "active_def r1 x = d" if "wr_snapshot r1 = Some d" for r1 x using that by (simp add: active_def_def)
  have snap: "wr_snapshot (resume_at x data r1) = wr_snapshot r1" for x r1
    by (simp add: resume_at_def split: option.splits)
  have "resume_at d' data r1 = resume_at d data r1" if "wr_snapshot r1 = Some d" for r1
    using act [OF that] by (simp add: resume_at_def)
  moreover have "executeRun opts None d' r1 sto2 = executeRun opts None d r1 sto2" if "wr_snapshot r1 = Some d" for r1 sto2
    using act [OF that] by (simp add: executeRun_def)
  ultimately show ?thesis
    using assms(2) d(1) r snap by (simp add: resumeRun_def Let_def set_vars_def split: option.splits)
qed

end
