(* ===== verification/WorkflowDurability.thy ===== *)
theory WorkflowDurability
  imports WorkflowRuns
begin

text \<open>
  What survives a crash or a failure: one checkpoint per turn, recorded outputs that are replayed, and
  compensations in reverse order.
\<close>

section \<open>The stores a call leaves alone\<close>

definition durable :: "'e wf_stores \<Rightarrow> (string \<times> step_lock) list \<times> (string \<times> wf_checkpoint) list \<times> nat" where
  "durable sto = (sto_locks sto, sto_checkpoints sto, sto_ids sto)"

lemma durable_simps [simp]:
  "durable (sto\<lparr>sto_world := w\<rparr>) = durable sto"
  "durable (cost_record i c sto) = durable sto"
  "durable (idem_set k v sto) = durable sto"
  "durable (remember opts s out r sto) = durable sto"
  "durable (save_run r sto) = durable sto"
  by (simp_all add: durable_def cost_record_def idem_set_def remember_def save_run_def split: option.split)

lemma durable_call_step: "call_step opts hs s r sto = (res, r', sto') \<Longrightarrow> durable sto' = durable sto"
  by (auto simp: call_step_def leave_cx_def Let_def split: prod.splits)

lemma durable_postProcess: "postProcessSuccess opts s res r sto = (res', r', sto') \<Longrightarrow> durable sto' = durable sto"
  by (auto simp: postProcessSuccess_def Let_def split: sum.splits option.splits)

lemma durable_retry_loop: "retry_loop opts hs s dl n a res r sto = (res', r', sto') \<Longrightarrow> durable sto' = durable sto"
proof (induction opts hs s dl n a res r sto rule: retry_loop.induct)
  case (2 opts hs s dl left a res r sto)
  show ?case
  proof (cases "sr_status res \<noteq> StepFailed \<or> deadline_past dl (wo_now opts (sto_world sto)) \<or>
      deadline_past dl (wo_now opts (retry_pause opts s (Suc a) dl (sto_world sto)))")
    case True
    with 2(2) show ?thesis by (auto simp: Let_def split: if_splits)
  next
    case False
    obtain res1 r1 sto1 where c: "call_step opts hs s (set_attempt (Suc (Suc a)) r)
        (sto\<lparr>sto_world := retry_pause opts s (Suc a) dl (sto_world sto)\<rparr>) = (res1, r1, sto1)" by (metis prod_cases3)
    have "durable sto1 = durable sto" using durable_call_step [OF c] by simp
    moreover have "durable sto' = durable sto1" using 2 False c by (auto simp: Let_def)
    ultimately show ?thesis by simp
  qed
qed simp

lemma durable_retry_step: "retry_step opts hs s res r sto = (res', r', sto') \<Longrightarrow> durable sto' = durable sto"
  by (auto simp: retry_step_def Let_def dest: durable_retry_loop)

lemma durable_fallback: "run_fallback opts hs s res r sto = (res', r', sto') \<Longrightarrow> durable sto' = durable sto"
  by (auto simp: run_fallback_def leave_cx_def Let_def split: option.splits prod.splits sum.splits dest!: durable_postProcess)

section \<open>What a turn that goes on leaves behind\<close>

text \<open>
  The turn wrote one checkpoint, of the state it leaves, under the next id, and left the record of every
  other step; what it recorded for its own step it recorded once.
\<close>

definition one_checkpoint :: "'e wf_opts \<Rightarrow> wf_run \<Rightarrow> (string \<times> wf_checkpoint) list \<times> nat \<Rightarrow> 'e wf_stores \<Rightarrow> bool" where
  "one_checkpoint opts r before sto \<longleftrightarrow>
     (\<exists>cp. cp_runId cp = wr_id r \<and> cp_workflowId cp = Some (wr_workflowId r) \<and> cp_state cp = wr_state r \<and>
        cp_createdAt cp = wo_now opts (sto_world sto) \<and>
        sto_checkpoints sto = AList.update (wo_newId opts (snd before)) cp (fst before) \<and> sto_ids sto = Suc (snd before))"

definition marks_only :: "string \<Rightarrow> string \<Rightarrow> (string \<times> step_lock) list \<Rightarrow> (string \<times> step_lock) list \<Rightarrow> bool" where
  "marks_only rid i before after \<longleftrightarrow> (\<forall>j. j \<noteq> i \<longrightarrow> map_of after (lock_key rid j) = map_of before (lock_key rid j))"

definition leaves :: "'e wf_opts \<Rightarrow> wf_step \<Rightarrow> (string \<times> step_lock) list \<times> (string \<times> wf_checkpoint) list \<times> nat \<Rightarrow> wf_run \<Rightarrow> 'e wf_stores \<Rightarrow> bool" where
  "leaves opts s before r sto \<longleftrightarrow>
     one_checkpoint opts r (snd before) sto \<and> (wr_status r = RunRunning \<longrightarrow> marks_only (wr_id r) (ws_id s) (fst before) (sto_locks sto))"

lemma lock_key_eq [simp]: "lock_key r s = lock_key r s' \<longleftrightarrow> s = s'"
  by (simp add: lock_key_def)

lemma marks_only_refl [simp]: "marks_only rid i l l"
  by (simp add: marks_only_def)

lemma marks_only_mark: "marks_only rid (ws_id s) l (sto_locks sto) \<Longrightarrow> wr_id r = rid \<Longrightarrow> marks_only rid (ws_id s) l (sto_locks (settle_lock opts s out r sto))"
  by (simp add: marks_only_def settle_lock_def mark_done_def)

lemma settle_lock_simps [simp]:
  "sto_checkpoints (settle_lock opts s out r sto) = sto_checkpoints sto" "sto_ids (settle_lock opts s out r sto) = sto_ids sto"
  "sto_world (settle_lock opts s out r sto) = sto_world sto"
  "sto_locks (remember opts s out r sto) = sto_locks sto" "sto_checkpoints (remember opts s out r sto) = sto_checkpoints sto"
  "sto_ids (remember opts s out r sto) = sto_ids sto" "sto_world (remember opts s out r sto) = sto_world sto"
  by (simp_all add: settle_lock_def mark_done_def remember_def idem_set_def split: option.split)

lemma checkpoint_one:
  "one_checkpoint opts r (sto_checkpoints sto, sto_ids sto) (save_checkpoint opts r i sto)" "sto_locks (save_checkpoint opts r i sto) = sto_locks sto"
proof -
  define cp where "cp = \<lparr>cp_id = wo_newId opts (sto_ids sto), cp_runId = wr_id r, cp_workflowId = Some (wr_workflowId r), cp_stepId = i,
    cp_state = wr_state r, cp_createdAt = wo_now opts (sto_world sto)\<rparr>"
  show "one_checkpoint opts r (sto_checkpoints sto, sto_ids sto) (save_checkpoint opts r i sto)"
    unfolding one_checkpoint_def
    by (rule exI [where x = cp]) (simp add: cp_def save_checkpoint_def fresh_id_def Let_def)
qed (simp add: save_checkpoint_def fresh_id_def Let_def)

lemma ident_enter [simp]: "wr_id (enter_state res nxt eph p r) = wr_id r" "wr_status (enter_state res nxt eph p r) = wr_status r"
  by (simp_all add: enter_state_def Let_def)

lemma move_on_leaves:
  assumes "move_on opts d strict eph p s res r sto = (r', sto')" "marks_only (wr_id r) (ws_id s) l (sto_locks sto)"
  shows "leaves opts s (l, sto_checkpoints sto, sto_ids sto) r' sto'"
proof -
  let ?nxt = "route opts d r res"
  let ?r1 = "enter_state res ?nxt eph p r"
  note cp = checkpoint_one [where opts = opts and r = ?r1 and sto = sto and i = "ws_id s"]
  show ?thesis
  proof (cases "strict \<and> truthy_str ?nxt = None \<or> isTerminal (wo_print opts) (eff_steps d ?r1) (wr_state ?r1) (dyn_ids ?r1)")
    case True
    with assms(1) have "completeRun ?r1 (save_checkpoint opts ?r1 (ws_id s) sto) = (r', sto')" by (simp add: move_on_def Let_def)
    with cp(1) show ?thesis by (auto simp: completeRun_def clear_locks_def leaves_def one_checkpoint_def)
  next
    case False
    with assms(1) have "r' = ?r1" "sto' = save_checkpoint opts ?r1 (ws_id s) sto" by (auto simp: move_on_def Let_def)
    with cp assms(2) show ?thesis by (simp add: leaves_def)
  qed
qed

lemma boundary_leaves:
  assumes "error_boundary opts t p s res r sto = (r', sto')" "marks_only (wr_id r) (ws_id s) l (sto_locks sto)"
  shows "leaves opts s (l, sto_checkpoints sto, sto_ids sto) r' sto'"
  using assms checkpoint_one [where opts = opts and r = r' and sto = sto and i = "ws_id s"]
  by (auto simp: error_boundary_def Let_def leaves_def set_vars_def)

lemma splice_leaves:
  assumes "splice_steps opts d pol p s res r sto = (True, r', sto')" "marks_only (wr_id r) (ws_id s) l (sto_locks sto)"
  shows "leaves opts s (l, sto_checkpoints sto, sto_ids sto) r' sto'"
proof -
  obtain r2 where "r' = r2" "sto' = save_checkpoint opts r2 (ws_id s) (save_run r2 sto)" "wr_id r2 = wr_id r"
    using assms(1) by (auto simp: splice_steps_def Let_def split: option.splits)
  with assms(2) checkpoint_one [where opts = opts and r = r2 and sto = "save_run r2 sto" and i = "ws_id s"] show ?thesis
    by (simp add: leaves_def save_run_def)
qed

lemma durableD:
  assumes "durable sto' = durable sto"
  shows "sto_locks sto' = sto_locks sto" "sto_checkpoints sto' = sto_checkpoints sto" "sto_ids sto' = sto_ids sto"
  using assms by (simp_all add: durable_def)

lemma core_id: "core r' = core r \<Longrightarrow> wr_id r' = wr_id r" "core r' = core r \<Longrightarrow> wr_workflowId r' = wr_workflowId r"
  by (simp_all add: core_def)

lemma late_success_leaves:
  assumes "late_success opts d p s res r sto = (r', sto')" "marks_only (wr_id r) (ws_id s) l (sto_locks sto)"
  shows "leaves opts s (l, sto_checkpoints sto, sto_ids sto) r' sto'"
proof -
  let ?sto = "settle_lock opts s (sr_output res) r (remember opts s (sr_output res) r sto)"
  have "marks_only (wr_id r) (ws_id s) l (sto_locks ?sto)" using assms(2) by (intro marks_only_mark) simp_all
  from move_on_leaves [OF assms(1) [unfolded late_success_def] this] show ?thesis by simp
qed

lemma give_up_leaves:
  assumes "give_up opts p s res r sto = (r', sto')" "wr_status r' \<noteq> RunFailed" "marks_only (wr_id r) (ws_id s) l (sto_locks sto)"
  shows "leaves opts s (l, sto_checkpoints sto, sto_ids sto) r' sto'"
proof -
  obtain t where "error_boundary opts t p s res r sto = (r', sto')"
  proof (cases "truthy_str (ws_onError s)")
    case None
    with assms(1) have "wr_status r' = RunFailed"
      by (cases "runCompensations (wo_compensations opts) (filter (\<lambda>h. sr_status h = StepCompleted) (st_history (wr_state r)))
             (run_vars r) (sto_world sto)") (auto simp: give_up_def failRun_def Let_def)
    with assms(2) show thesis by simp
  next
    case (Some t)
    with assms(1) that show thesis by (simp add: give_up_def)
  qed
  from boundary_leaves [OF this assms(3)] show ?thesis .
qed

lemma after_failure_leaves:
  assumes "after_failure opts d hs p s res r sto = (r', sto')" "wr_status r' \<noteq> RunFailed" "marks_only (wr_id r) (ws_id s) l (sto_locks sto)"
  shows "leaves opts s (l, sto_checkpoints sto, sto_ids sto) r' sto'"
proof -
  obtain res1 r1 sto1 where a: "retry_step opts hs s res r sto = (res1, r1, sto1)" by (metis prod_cases3)
  obtain pr2 r2 sto2 where b: "(if sr_status res1 = StepCompleted then postProcessSuccess opts s res1 r1 sto1 else (res1, r1, sto1)) = (pr2, r2, sto2)"
    by (metis prod_cases3)
  obtain fb r3 sto3 where c: "run_fallback opts hs s res1 r2 sto2 = (fb, r3, sto3)" by (metis prod_cases3)
  have d1: "durable sto1 = durable sto" "wr_id r1 = wr_id r" using durable_retry_step [OF a] core_id(1) [OF core_retry_step [OF a]] .
  have d2: "durable sto2 = durable sto \<and> wr_id r2 = wr_id r"
  proof (cases "sr_status res1 = StepCompleted")
    case True
    with b have "postProcessSuccess opts s res1 r1 sto1 = (pr2, r2, sto2)" by simp
    with durable_postProcess core_id(1) [OF core_postProcess] d1 show ?thesis by metis
  next
    case False
    with b d1 show ?thesis by simp
  qed
  then have d2: "durable sto2 = durable sto" "wr_id r2 = wr_id r" by simp_all
  have d3: "durable sto3 = durable sto" "wr_id r3 = wr_id r"
    using durable_fallback [OF c] core_id(1) [OF core_fallback [OF c]] d2 by simp_all
  note m = durableD [OF d2(1)] durableD [OF d3(1)] d2(2) d3(2) assms(3)
  have eq: "(if sr_status pr2 = StepCompleted then late_success opts d p s pr2 r2 sto2
      else case fb of Some v \<Rightarrow> late_success opts d p s v r3 sto3 | None \<Rightarrow> give_up opts p s res1 r3 sto3) = (r', sto')"
    using assms(1) a b c by (auto simp: after_failure_def Let_def split: option.splits)
  show ?thesis
  proof (cases "sr_status pr2 = StepCompleted")
    case True
    with eq late_success_leaves [of opts d p s pr2 r2 sto2 r' sto' l] m show ?thesis by simp
  next
    case False
    with eq late_success_leaves [of opts d p s _ r3 sto3 r' sto' l] give_up_leaves [of opts p s res1 r3 sto3 r' sto' l] m assms(2)
    show ?thesis by (cases fb) simp_all
  qed
qed

lemma after_success_leaves:
  assumes "after_success opts d pol p s res r sto = (Continue, r', sto')" "marks_only (wr_id r) (ws_id s) l (sto_locks sto)"
  shows "leaves opts s (l, sto_checkpoints sto, sto_ids sto) r' sto'"
proof -
  define sto1 where "sto1 = remember opts s (sr_output res) r (settle_lock opts s (sr_output res) r sto)"
  define r1 where "r1 = (if has_ceiling pol then r\<lparr>wr_costTotal := cost_total (wr_id r) sto1\<rparr> else r)"
  have m: "marks_only (wr_id r1) (ws_id s) l (sto_locks sto1)" "sto_checkpoints sto1 = sto_checkpoints sto" "sto_ids sto1 = sto_ids sto"
    using marks_only_mark [OF assms(2) refl] by (simp_all add: sto1_def r1_def)
  have "splice_steps opts d pol p s res r1 sto1 = (True, r', sto') \<or>
      move_on opts d True (ws_outputScope s = Some StepScope) p s res r1 sto1 = (r', sto')"
    using assms(1) unfolding after_success_def Let_def sto1_def [symmetric] r1_def [symmetric]
    by (auto split: option.splits if_splits prod.splits)
  then show ?thesis using splice_leaves [of opts d pol p s res r1 sto1 r' sto' l] move_on_leaves [of opts d True _ p s res r1 sto1 r' sto' l] m
    by auto
qed

lemma run_step_leaves:
  assumes "run_step opts d pol hs p s r sto = (Continue, r', sto')" "marks_only (wr_id r) (ws_id s) l (sto_locks sto)"
  shows "leaves opts s (l, sto_checkpoints sto, sto_ids sto) r' sto'"
proof -
  obtain res r1 sto1 where a: "call_step opts hs s r sto = (res, r1, sto1)" by (metis prod_cases3)
  have d1: "durable sto1 = durable sto" "wr_id r1 = wr_id r" using durable_call_step [OF a] core_id(1) [OF core_call_step [OF a]] .
  note m1 = durableD [OF d1(1)] d1(2) assms(2)
  show ?thesis
  proof (cases "sr_status res = StepFailed")
    case True
    obtain r2 sto2 where b: "after_failure opts d hs p s res r1 sto1 = (r2, sto2)" by (metis surj_pair)
    with True a assms(1) have "r' = r2" "sto' = sto2" "wr_status r2 \<noteq> RunFailed" by (auto simp: run_step_def Let_def split: if_splits)
    with after_failure_leaves [OF b, of l] m1 show ?thesis by simp
  next
    case False
    obtain pr2 r2 sto2 where b: "postProcessSuccess opts s res r1 sto1 = (pr2, r2, sto2)" by (metis prod_cases3)
    have d2: "durable sto2 = durable sto" "wr_id r2 = wr_id r"
      using durable_postProcess [OF b] core_id(1) [OF core_postProcess [OF b]] d1 by simp_all
    note m2 = durableD [OF d2(1)] d2(2) assms(2)
    from a b False assms(1) have "after_success opts d pol p s pr2 r2 sto2 = (Continue, r', sto') \<or>
        (\<exists>t. error_boundary opts t p s pr2 r2 sto2 = (r', sto'))"
      by (auto simp: run_step_def Let_def split: if_splits option.splits prod.splits)
    with after_success_leaves [of opts d pol p s pr2 r2 sto2 r' sto' l] boundary_leaves [of opts _ p s pr2 r2 sto2 r' sto' l] m2
    show ?thesis by auto
  qed
qed

text \<open>How a turn that goes on begins, and what it therefore leaves.\<close>

lemma turn_leaves:
  assumes "exec_turn opts d pol hs s r sto = (Continue, r', sto')"
  shows "leaves opts s (sto_locks sto, sto_checkpoints sto, sto_ids sto) r' sto'"
proof -
  have id: "wr_id (promote s r) = wr_id r" using core_id(1) [OF core_promote] .
  have lock: "marks_only (wr_id r) (ws_id s) (sto_locks sto) (sto_locks (lock_step (wr_id r) (ws_id s) sto))"
      "sto_checkpoints (lock_step (wr_id r) (ws_id s) sto) = sto_checkpoints sto" "sto_ids (lock_step (wr_id r) (ws_id s) sto) = sto_ids sto"
    by (simp_all add: marks_only_def lock_step_def)
  from assms consider
      p res r1 where "move_on opts d True False p s res r1 sto = (r', sto')"
    | "run_step opts d pol hs (promoted_keys r) s (promote s r) (lock_step (wr_id r) (ws_id s) sto) = (Continue, r', sto')"
    | "run_step opts d pol hs (promoted_keys r) s (promote s r) sto = (Continue, r', sto')"
    by (auto simp: exec_turn_def Let_def split: if_splits option.splits)
  then show ?thesis
  proof cases
    case (1 p res r1)
    from move_on_leaves [OF this marks_only_refl] show ?thesis .
  next
    case 2
    from run_step_leaves [OF this, of "sto_locks sto"] lock id show ?thesis by simp
  next
    case 3
    from run_step_leaves [OF this, of "sto_locks sto"] show ?thesis by simp
  qed
qed

section \<open>Recorded outputs\<close>

lemma move_on_running:
  assumes "move_on opts d strict eph p s res r sto = (r', sto')" "wr_status r' = RunRunning"
  shows "r' = enter_state res (route opts d r res) eph p r" "sto' = save_checkpoint opts r' (ws_id s) sto"
  using assms by (auto simp: move_on_def completeRun_def Let_def split: if_splits)

lemma save_checkpoint_simps [simp]:
  "sto_world (save_checkpoint opts r i sto) = sto_world sto" "sto_locks (save_checkpoint opts r i sto) = sto_locks sto"
  by (simp_all add: save_checkpoint_def fresh_id_def Let_def)

lemma move_on_world: "move_on opts d strict eph p s res r sto = (r', sto') \<Longrightarrow>
    sto_world sto' = sto_world sto \<and> st_history (wr_state r') = st_history (wr_state r) @ [res]"
  by (auto simp: move_on_def completeRun_def clear_locks_def enter_state_def Let_def split: if_splits)

definition next_turn ::
  "'e wf_opts \<Rightarrow> wf_def \<Rightarrow> wf_policy option \<Rightarrow> 'e handlers \<Rightarrow> wf_run \<times> 'e wf_stores \<Rightarrow> wf_run \<times> 'e wf_stores \<Rightarrow> bool" where
  "next_turn opts d pol hs x y \<longleftrightarrow>
     (\<exists>s. turn_from d s (fst x) \<and> exec_turn opts d pol hs s (fst x) (snd x) = (Continue, fst y, snd y))"

lemma replay_turn:
  assumes "wo_locks opts" "done_output (wr_id r) (ws_id s) sto = Some out" "\<not> skips opts s r" "idem_key opts s r = None"
  shows "exec_turn opts d pol hs s r sto = (Continue, move_on opts d True False (promoted_keys r) s (step_ok s out) (promote s r) sto)"
  using assms by (simp add: exec_turn_def Let_def)

lemma done_moves_on:
  assumes "wo_locks opts" "done_output (wr_id r) (ws_id s) sto = Some out" "exec_turn opts d pol hs s r sto = (e, r', sto')"
  shows "\<exists>p res r1. move_on opts d True False p s res r1 sto = (r', sto')"
  using assms by (auto simp: exec_turn_def Let_def split: if_splits option.splits)

lemma done_stays:
  assumes "wo_locks opts" "done_output (wr_id r) i sto = Some out" "turn_from d s r"
    "exec_turn opts d pol hs s r sto = (Continue, r', sto')" "wr_status r' = RunRunning"
  shows "wr_id r' = wr_id r \<and> done_output (wr_id r) i sto' = Some out"
proof
  show id: "wr_id r' = wr_id r" using exec_turn_ok [OF assms(3,4)] ident_id [of r' r] unfolding turn_ok_def by blast
  show "done_output (wr_id r) i sto' = Some out"
  proof (cases "i = ws_id s")
    case True
    then obtain p res r1 where "move_on opts d True False p s res r1 sto = (r', sto')"
      using done_moves_on [OF assms(1) _ assms(4)] assms(2) by blast
    from move_on_running(2) [OF this assms(5)] have "sto_locks sto' = sto_locks sto" by simp
    with assms(2) show ?thesis by (simp add: done_output_def)
  next
    case False
    from turn_leaves [OF assms(4)] assms(5) False id have "map_of (sto_locks sto') (lock_key (wr_id r) i) = map_of (sto_locks sto) (lock_key (wr_id r) i)"
      by (simp add: leaves_def marks_only_def)
    with assms(2) show ?thesis by (simp add: done_output_def)
  qed
qed

lemma done_path:
  assumes "(next_turn opts d pol hs)\<^sup>*\<^sup>* x y" "wo_locks opts" "done_output (wr_id (fst x)) i (snd x) = Some out"
    "wr_status (fst y) = RunRunning"
  shows "wr_id (fst y) = wr_id (fst x) \<and> done_output (wr_id (fst x)) i (snd y) = Some out"
  using assms(1,4)
proof (induction rule: rtranclp_induct)
  case base
  with assms(3) show ?case by simp
next
  case (step y z)
  then obtain s where s: "turn_from d s (fst y)" "exec_turn opts d pol hs s (fst y) (snd y) = (Continue, fst z, snd z)"
    by (auto simp: next_turn_def)
  with step(3) turn_from_status have "wr_id (fst y) = wr_id (fst x)" "done_output (wr_id (fst x)) i (snd y) = Some out" by blast+
  with done_stays [OF assms(2) _ s step(4), of i out] show ?case by simp
qed


section \<open>Recovery\<close>

lemma later_cp_last:
  assumes "\<forall>cp \<in> set cps. cp_runId cp = i \<longrightarrow> cp_createdAt cp < cp_createdAt x" "cp_runId x = i"
    "\<forall>b. best = Some b \<longrightarrow> cp_createdAt b < cp_createdAt x"
  shows "later_cp i best (cps @ [x]) = Some x"
  using assms by (induction cps arbitrary: best) (auto split: option.split)


section \<open>Compensation\<close>

lemma comp_loop_order:
  assumes "\<And>i h res vars w. reg i = Some h \<Longrightarrow> snd (snd (h res vars w)) = w @ [sr_stepId res]"
  shows "snd (snd (snd (comp_loop reg rs comped errs vars w))) =
    w @ map sr_stepId (filter (\<lambda>x. reg (sr_stepId x) \<noteq> None) rs)"
proof (induction rs arbitrary: comped errs vars w)
  case (Cons x rs)
  show ?case
  proof (cases "reg (sr_stepId x)")
    case (Some h)
    obtain e vars' w' where h: "h x vars w = (e, vars', w')" by (metis prod_cases3)
    have "w' = w @ [sr_stepId x]" using assms [OF Some, of x vars w] h by simp
    with Cons Some h show ?thesis by (cases e) simp_all
  qed (use Cons in simp)
qed simp


end
