(* ===== verification/WorkflowExamples.thy ===== *)
theory WorkflowExamples
  imports WorkflowDurability
begin

text \<open>
  Concrete workflows: the inputs at which the properties of runs are applied, and runs in which the engine
  does something else than its comments say.
\<close>

section \<open>A configuration\<close>

definition blank_step :: "string \<Rightarrow> step_type \<Rightarrow> wf_step" where
  "blank_step i t =
     \<lparr>ws_id = i, ws_name = i, ws_type = t, ws_handler = None, ws_config = None, ws_next = None, ws_timeout = None,
      ws_retries = None, ws_retryDelayMs = None, ws_retryBackoffMultiplier = None, ws_retryMaxDelayMs = None,
      ws_retryJitter = None, ws_globalTimeoutMs = None, ws_inputMap = None, ws_outputMap = None, ws_onError = None,
      ws_skipIf = None, ws_idempotencyKey = None, ws_fallbackHandler = None, ws_outputSchema = None,
      ws_outputSchemaAction = None, ws_maskFields = None, ws_outputScope = None, ws_wakeAfterMs = None\<rparr>"

definition wf_of :: "wf_step list \<Rightarrow> wf_def" where
  "wf_of steps = \<lparr>wd_id = ''w'', wd_steps = steps, wd_entryStepId = ws_id (hd steps), wd_policy = None\<rparr>"

text \<open>The world is the list of the handlers called; a handler answers by how often it was called before.\<close>

definition calls :: "string \<Rightarrow> (nat \<Rightarrow> string + json option) \<Rightarrow> string list handler" where
  "calls k f vars cfg w = \<lparr>cl_out = f (length (filter (\<lambda>x. x = k) w)), cl_vars = vars, cl_ms = 0, cl_cost = 0, cl_world = w @ [k]\<rparr>"

definition returns :: "string \<Rightarrow> json \<Rightarrow> string \<times> string list handler" where
  "returns k v = (k, calls k (\<lambda>_. Inr (Some v)))"

definition wf_demo_opts :: "(string \<times> string list handler) list \<Rightarrow> string list wf_opts" where
  "wf_demo_opts hs =
     \<lparr>wo_eval = (\<lambda>e vars. Some e), wo_validate = (\<lambda>schema action v. (if v = JNull then [''(root)''] else [], None)),
      wo_print = (\<lambda>_. []), wo_iso = (\<lambda>_. []), wo_now = (\<lambda>w. int (length w)), wo_sleep = (\<lambda>_ w. w), wo_random = (\<lambda>w. (0, w)),
      wo_newId = (\<lambda>n. replicate (Suc n) CHR ''i''), wo_readStep = (\<lambda>v. blank_step (case read_segs (Some v) [''id''] of Some (JStr i) \<Rightarrow> i | _ \<Rightarrow> []) Deterministic),
      wo_humanTask = None, wo_locks = False, wo_idempotency = False, wo_sleeps = False, wo_defaultPolicy = None,
      wo_handlers = map_of hs, wo_compensations = (\<lambda>_. None)\<rparr>"

definition empty_stores :: "'e \<Rightarrow> 'e wf_stores" where
  "empty_stores w =
     \<lparr>sto_world = w, sto_ids = 0, sto_runs = [], sto_cache = [], sto_checkpoints = [], sto_locks = [], sto_idem = [],
      sto_costs = [], sto_sleeps = []\<rparr>"

definition demo_run :: "string list wf_opts \<Rightarrow> wf_step list \<Rightarrow> (engine_error + wf_run) \<times> string list wf_stores" where
  "demo_run opts steps = startRun opts [(''w'', wf_of steps)] ''w'' None None None None (empty_stores [])"

lemmas engine_eval =
  demo_run_def wf_demo_opts_def empty_stores_def wf_of_def blank_step_def returns_def calls_def
  createInitialState_def step_var_def advanceState_def find_step_def int_str_def nth_next_def next_array_def
  is_branch_target_def later_ids_def fall_through_def plain_next_def resolveNextStep_def isTerminal_def resolveResumeNextId_def
  run_handler_def run_copy_def step_ok_def step_err_def settle_step_def handler_key_def with_handler_def
  executeDeterministic_def executeCondition_def executeBranch_def executeSwitch_def arr_def count_of_def over_items_def
  executeLoop_def executeWait_def executeHumanTask_def from_entries_def lane_missing_def positional_missing_def branch_missing_def
  executeParallel_def breaks_def item_vars_def cfg_concurrency_def for_each_body_def executeForEach_def executeFork_def
  is_container_def executeJoin_def executeStep_def save_run_def fresh_id_def save_checkpoint_def latest_checkpoint_def
  lock_key_def lock_step_def mark_done_def done_output_def clear_locks_def idem_get_def idem_set_def
  cost_total_def cost_record_def schedule_sleep_def runCompensations_def js_round_def computeRetryDelay_def step_expression_def
  executeStepWithExpression_def set_vars_def leave_cx_def call_step_def wrapHandlerWithIO_def join_with_def tagged_cost_def
  strip_cost_def validate_output_def mask_output_def postProcessSuccess_def completeRun_def failRun_def eff_steps_def
  dyn_ids_def route_def enter_state_def move_on_def error_boundary_def idem_key_def remember_def
  settle_lock_def skip_res_def skips_def ctx_of_def promote_def promoted_keys_def set_attempt_def
  deadline_past_def budget_spent_def retry_pause_def retry_step_def late_success_def run_fallback_def give_up_def
  after_failure_def pause_run_def asks_human_def task_of_def ask_human_def wait_here_def expansion_in_def
  extractExpansion_def rejoin_of_def has_next_def rewrite_last_def expansion_error_def default_kinds_def handler_kind_def
  validateExpansion_def splice_steps_def to_fixed4_def over_ceiling_def has_ceiling_def after_success_def run_step_def
  exec_turn_def policy_of_def max_steps_def active_def_def executeRun_def startRun_def getRun_def
  resume_at_def resumeRun_def tickRun_def recoverRun_def cancelRun_def
  path_stop_def seg_of_def splitPath_def split_dots_def is_digit_def seg_index_def readPath_def put_at_def put_key_def fresh_node_def step_into_def writePath_def applyInputMap_def maskStepOutput_def
  Let_def starts_with_def nullish_def truthy_str_def truthy_def cfg_field_def cfg_strings_def cfg_list_def cfg_str_def spread_def

lemmas lint_eval =
  lintWorkflow_def lint_entry_def lint_step_def lint_nexts_def lint_branches_def lint_parallel_def lint_missing_next_def
  lint_handler_def lint_unreachable_def lint_cycle_def reachableSteps_def hasCycle_def stepMap_def outIds_def nextsOf_def
  wf_of_def blank_step_def truthy_str_def Let_def

lemma demo_run_Inr: "demo_run opts steps = (Inr (projr (fst (demo_run opts steps))), snd (demo_run opts steps))"
  by (simp add: demo_run_def startRun_def Let_def split: prod.splits)

abbreviation visited :: "wf_run \<Rightarrow> string list" where
  "visited r \<equiv> map sr_stepId (st_history (wr_state r))"

section \<open>The properties applied\<close>

definition two_steps :: "(engine_error + wf_run) \<times> string list wf_stores" where
  "two_steps = demo_run (wf_demo_opts [returns ''a'' (JBool True), returns ''b'' JNull]) [blank_step ''a'' Deterministic, blank_step ''b'' Deterministic]"

text \<open>
  The second step runs although nothing refers to it, by declaration order; the linter says of the first
  that it will end the run, and of the second that it cannot be reached.
\<close>

lemma two_steps_history: "visited (projr (fst two_steps)) = [''a'', ''b''] \<and> wr_status (projr (fst two_steps)) = RunCompleted"
  by (simp add: two_steps_def engine_eval cong: let_weak_cong prod.case_cong_weak)

lemma unreachable_step_runs:
  "map li_rule (lintWorkflow (wf_of [blank_step ''a'' Deterministic, blank_step ''b'' Deterministic])) =
   [''missing-next'', ''missing-handler'', ''missing-handler'', ''unreachable-step'']"
  by (simp add: lint_eval cong: let_weak_cong prod.case_cong_weak)


text \<open>A graph of one step is generated between \<open>d\<close> and \<open>z\<close>.\<close>

definition demo_expansion :: json where
  "demo_expansion =
     JObj [(''steps'', JArr [JObj [(''id'', JStr ''x'')]]), (''entry'', JStr ''x''), (''rejoin'', JStr ''z'')]"

definition plan_steps :: "wf_step list" where
  "plan_steps = [blank_step ''d'' Dynamic, blank_step ''z'' Deterministic]"

definition plan_run :: "(engine_error + wf_run) \<times> string list wf_stores" where
  "plan_run = demo_run (wf_demo_opts [returns ''d'' demo_expansion, returns ''x'' JNull, returns ''z'' JNull]) plan_steps"

lemma plan_lint:
  "filter (\<lambda>l. li_severity l = LintError)
     (lintWorkflow (wf_of (plan_steps @ [(blank_step ''x'' Deterministic)\<lparr>ws_next := Some (NextStep ''z'')\<rparr>]))) = []"
  by (simp add: lint_eval plan_steps_def cong: let_weak_cong prod.case_cong_weak)

lemma plan_run_history:
  "visited (projr (fst plan_run)) = [''d'', ''x'', ''z''] \<and> map ws_id (wr_dynamicSteps (projr (fst plan_run))) = [''x'']"
  by (simp add: plan_run_def plan_steps_def demo_expansion_def engine_eval default_kinds_def cong: let_weak_cong prod.case_cong_weak)
     (use plan_lint in \<open>simp add: plan_steps_def wf_of_def blank_step_def\<close>)


text \<open>A run that waits, and the same run resumed when its definition has been emptied.\<close>

definition wait_steps :: "wf_step list" where
  "wait_steps = [blank_step ''w'' Wait, blank_step ''b'' Deterministic]"

definition wait_opts :: "string list wf_opts" where
  "wait_opts = wf_demo_opts [returns ''b'' JNull]"

definition wait_run :: "(engine_error + wf_run) \<times> string list wf_stores" where
  "wait_run = demo_run wait_opts wait_steps"

theorem resume_ignores_edits_witness:
  "resumeRun wait_opts [(''w'', wf_of [])] (wr_id (projr (fst wait_run))) None (snd wait_run) =
   resumeRun wait_opts [(''w'', wf_of wait_steps)] (wr_id (projr (fst wait_run))) None (snd wait_run)"
proof -
  have "startRun wait_opts [(''w'', wf_of wait_steps)] ''w'' None None None None (empty_stores []) = (Inr (projr (fst wait_run)), snd wait_run)"
    using demo_run_Inr [of wait_opts wait_steps] by (simp add: wait_run_def demo_run_def)
  from resume_ignores_edits [OF this, of "[(''w'', wf_of [])]" "wf_of []" None] show ?thesis by simp
qed

section \<open>Divergences\<close>

text \<open>
  A wait step without \<^verbatim>\<open>next\<close> is never left: the resumed run executes it again and pauses again, though a step
  follows it in declaration order.
\<close>

lemma wait_without_next_is_never_left:
  "visited (projr (fst wait_run)) = [''w''] \<and> wr_status (projr (fst wait_run)) = RunPaused \<and>
   visited (projr (fst (resumeRun wait_opts [(''w'', wf_of wait_steps)] ''i'' None (snd wait_run)))) = [''w'', ''w''] \<and>
   wr_status (projr (fst (resumeRun wait_opts [(''w'', wf_of wait_steps)] ''i'' None (snd wait_run)))) = RunPaused"
  by (simp add: wait_run_def wait_steps_def wait_opts_def engine_eval cong: let_weak_cong prod.case_cong_weak)

text \<open>A reference to a step that does not exist ends the run as completed.\<close>

lemma dangling_next_completes:
  "wr_status (projr (fst (demo_run (wf_demo_opts [returns ''a'' JNull]) [(blank_step ''a'' Deterministic)\<lparr>ws_next := Some (NextStep ''zz'')\<rparr>]))) = RunCompleted"
  by (simp add: engine_eval cong: let_weak_cong prod.case_cong_weak)

text \<open>Two steps linked in a circle by declaration order: the linter finds no error, the run only ends by its budget.\<close>

definition circle :: wf_def where
  "circle = (wf_of [blank_step ''b'' Deterministic, (blank_step ''a'' Deterministic)\<lparr>ws_next := Some (NextStep ''b'')\<rparr>])
     \<lparr>wd_policy := Some \<lparr>wp_maxSteps = Some 3, wp_costCeiling = None, wp_dynamicHandlerKinds = None, wp_maxGeneratedSteps = None,
        wp_maxExpansionDepth = None\<rparr>\<rparr>"

lemma lint_misses_declaration_order_cycle:
  "lint_clean circle \<and>
   wr_error (projr (fst (startRun (wf_demo_opts [returns ''a'' JNull, returns ''b'' JNull]) [(''w'', circle)] ''w'' None None None None (empty_stores [])))) =
     Some (''Exceeded max steps ('' @ nat_str 3 @ '')'')"
proof
  show "lint_clean circle"
    by (simp add: lint_clean_def circle_def lint_eval cong: let_weak_cong prod.case_cong_weak)
qed (simp add: circle_def engine_eval cong: let_weak_cong prod.case_cong_weak)

end
