(* ===== verification/WorkflowDivergences.thy ===== *)
theory WorkflowDivergences
  imports WorkflowExamples
begin

text \<open>
  The durability properties applied, and more runs in which the engine departs from its documentation.
\<close>

lemmas run_simps = let_weak_cong prod.case_cong_weak

section \<open>Step locks\<close>

definition step_a :: wf_step where
  "step_a = (blank_step ''a'' Deterministic)\<lparr>ws_next := Some (NextStep ''b'')\<rparr>"

text \<open>Two steps that lead to one another; the second sends the run back.\<close>

definition loop_steps :: "wf_step list" where
  "loop_steps = [step_a, (blank_step ''b'' Branch)\<lparr>ws_next := Some (NextSteps [''a'', ''c''])\<rparr>,
     blank_step ''c'' Deterministic]"

definition loop_opts :: "bool \<Rightarrow> string list wf_opts" where
  "loop_opts locks =
     (wf_demo_opts [returns ''a'' JNull, (''b'', calls ''b'' (\<lambda>n. Inr (Some (JBool (n < 2))))), returns ''c'' JNull])
       \<lparr>wo_locks := locks, wo_defaultPolicy := Some \<lparr>wp_maxSteps = Some 8, wp_costCeiling = None, wp_dynamicHandlerKinds = None,
          wp_maxGeneratedSteps = None, wp_maxExpansionDepth = None\<rparr>\<rparr>"

text \<open>
  Without locks the loop is left on the third visit; with locks the recorded output of the first visit is
  replayed for ever and the run dies of its budget.
\<close>

lemma locks_freeze_loops:
  "wr_status (projr (fst (demo_run (loop_opts False) loop_steps))) = RunCompleted \<and>
   wr_status (projr (fst (demo_run (loop_opts True) loop_steps))) = RunFailed \<and>
   sto_world (snd (demo_run (loop_opts True) loop_steps)) = [''a'', ''b'']"
proof (intro conjI)
  show "wr_status (projr (fst (demo_run (loop_opts False) loop_steps))) = RunCompleted"
    by (simp add: loop_opts_def loop_steps_def step_a_def engine_eval cong: run_simps)
  show "wr_status (projr (fst (demo_run (loop_opts True) loop_steps))) = RunFailed"
    by (simp add: loop_opts_def loop_steps_def step_a_def engine_eval cong: run_simps)
  show "sto_world (snd (demo_run (loop_opts True) loop_steps)) = [''a'', ''b'']"
    by (simp add: loop_opts_def loop_steps_def step_a_def engine_eval cong: run_simps)
qed

definition demo_state_run :: "string \<Rightarrow> wf_run" where
  "demo_state_run i =
     \<lparr>wr_id = ''r'', wr_workflowId = ''w'', wr_status = RunRunning,
      wr_state = \<lparr>st_current = i, st_vars = [], st_ephemeral = [], st_history = []\<rparr>, wr_error = None, wr_costTotal = 0,
      wr_costBreakdown = [], wr_traceId = None, wr_tenantId = None, wr_parentRunId = None, wr_childRunIds = [],
      wr_snapshot = None, wr_dynamicSteps = [], wr_expansionDepth = 0\<rparr>"


section \<open>Checkpoints\<close>

definition turn_a :: "turn_end \<times> wf_run \<times> string list wf_stores" where
  "turn_a = exec_turn (wf_demo_opts [returns ''a'' JNull]) (wf_of loop_steps) None (map_of [returns ''a'' JNull])
     step_a (demo_state_run ''a'') (empty_stores [])"

lemma turn_a_eval:
  "fst turn_a = Continue \<and> wr_status (fst (snd turn_a)) = RunRunning \<and> wr_workflowId (fst (snd turn_a)) = ''w'' \<and>
   st_current (wr_state (fst (snd turn_a))) = ''b''"
  by (simp add: turn_a_def demo_state_run_def loop_steps_def step_a_def engine_eval cong: run_simps)


text \<open>Of two checkpoints of one millisecond the older one is taken for the latest.\<close>

lemma latest_takes_older:
  "latest_checkpoint ''r''
     (save_checkpoint (wf_demo_opts []) (demo_state_run ''b'') ''a'' (save_checkpoint (wf_demo_opts []) (demo_state_run ''a'') ''z'' (empty_stores []))) =
   map_option snd (find (\<lambda>x. True) (sto_checkpoints (save_checkpoint (wf_demo_opts []) (demo_state_run ''a'') ''z'' (empty_stores []))))"
  by (simp add: latest_checkpoint_def save_checkpoint_def fresh_id_def wf_demo_opts_def empty_stores_def demo_state_run_def)

section \<open>Compensation\<close>

definition undo_opts :: "string list wf_opts" where
  "undo_opts = (wf_demo_opts [])\<lparr>wo_compensations := (\<lambda>i. Some (\<lambda>res vars w. (Some ''no'', vars, w @ [sr_stepId res])))\<rparr>"

definition undo_run :: wf_run where
  "undo_run = (demo_state_run ''c'')\<lparr>wr_state := (wr_state (demo_state_run ''c''))
     \<lparr>st_history := [step_ok (blank_step ''a'' Deterministic) None, step_ok (blank_step ''b'' Deterministic) None]\<rparr>\<rparr>"


section \<open>Overwritten writes\<close>

text \<open>
  The loop works on its own copy of the run and saves that copy: a cancellation or a child run that was
  recorded in the repository while the loop was running is gone when it ends.
\<close>

lemma loop_overwrites_repository:
  assumes "map_of (sto_runs sto) (wr_id r) = Some (r\<lparr>wr_status := RunCancelled, wr_childRunIds := wr_childRunIds r @ [child]\<rparr>)"
    "wr_status r = RunRunning"
  shows "\<exists>r'. map_of (sto_runs (snd (executeRun opts None def r sto))) (wr_id r) = Some r' \<and>
    wr_status r' \<noteq> RunCancelled \<and> wr_childRunIds r' = wr_childRunIds r"
  using executeRun_ok [of opts r def None sto] assms(2) by (auto simp: loop_ok_def core_def)

text \<open>Two steps with one handler: the first one's call goes through the second one's maps as well.\<close>

lemma shared_handler_shares_maps:
  assumes "ws_id s1 \<noteq> ws_id s2" "ws_handler s1 = Some k" "ws_handler s2 = Some k" "hs k = Some fn"
    "ws_inputMap s1 \<noteq> None" "ws_inputMap s2 \<noteq> None"
  shows "applyIOMappingForRun [s1, s2] hs k = Some (wrapHandlerWithIO s2 (wrapHandlerWithIO s1 fn))"
  using assms by (auto simp: handler_key_def)

section \<open>Late successes\<close>

text \<open>
  A step whose retry completes but fails validation is passed to its error step as a completed step, with the
  output the validation refused.
\<close>

lemma refused_retry_output_is_recorded:
  "map (\<lambda>x. (sr_status x, sr_output x)) (st_history (wr_state (projr (fst (demo_run
     (wf_demo_opts [(''a'', calls ''a'' (\<lambda>n. if n = 0 then Inl ''boom'' else Inr (Some JNull))), returns ''e'' (JBool True)])
     [(blank_step ''a'' Deterministic)\<lparr>ws_retries := Some 1, ws_outputSchema := Some [], ws_outputSchemaAction := Some SchemaFail,
        ws_onError := Some ''e''\<rparr>, blank_step ''e'' Deterministic]))))) =
   [(StepCompleted, Some JNull), (StepCompleted, Some (JBool True))]"
  by (simp add: engine_eval cong: run_simps)

text \<open>A first output that fails validation is neither retried nor handed to the fallback handler.\<close>

lemma refused_output_skips_fallback:
  "sto_world (snd (demo_run (wf_demo_opts [returns ''a'' JNull, returns ''f'' (JBool True)])
     [(blank_step ''a'' Deterministic)\<lparr>ws_retries := Some 3, ws_outputSchema := Some [], ws_outputSchemaAction := Some SchemaFail,
        ws_fallbackHandler := Some ''f''\<rparr>])) = [''a'']"
  by (simp add: engine_eval cong: run_simps)

text \<open>A dynamic step that succeeds on a retry is not expanded; the graph it returned stays in the variables.\<close>

lemma retried_expansion_is_lost:
  "visited (projr (fst (demo_run (wf_demo_opts [(''d'', calls ''d'' (\<lambda>n. if n = 0 then Inl ''boom'' else Inr (Some demo_expansion))),
     returns ''x'' JNull, returns ''z'' JNull]) [(blank_step ''d'' Dynamic)\<lparr>ws_retries := Some 1\<rparr>, blank_step ''z'' Deterministic]))) =
   [''d'', ''z'']"
  by (simp add: engine_eval demo_expansion_def cong: run_simps)

section \<open>What is kept\<close>

text \<open>A masked member of an output is written to the variables in the clear by the output map.\<close>

lemma output_map_bypasses_mask:
  "let vars = run_vars (projr (fst (demo_run (wf_demo_opts [returns ''a'' (JObj [(''token'', JStr ''s3cret'')])])
     [(blank_step ''a'' Deterministic)\<lparr>ws_outputMap := Some [(''copy'', ''token'')], ws_maskFields := Some [''token'']\<rparr>])))
   in map_of vars (step_var ''a'') = Some (JObj [(''token'', JStr ''***'')]) \<and> map_of vars ''copy'' = Some (JStr ''s3cret'')"
  by (simp add: engine_eval cong: run_simps)

text \<open>An output for the next step only is in the checkpoint, and in the stored run when the next step waits.\<close>

definition scoped_wait :: "(engine_error + wf_run) \<times> string list wf_stores" where
  "scoped_wait = demo_run (wf_demo_opts [returns ''a'' (JStr ''once'')])
     [(blank_step ''a'' Deterministic)\<lparr>ws_outputScope := Some StepScope\<rparr>, blank_step ''w'' Wait]"

lemma ephemeral_output_is_kept:
  "map_of (run_vars (projr (fst scoped_wait))) (step_var ''a'') = Some (JStr ''once'') \<and>
   wr_status (projr (fst scoped_wait)) = RunPaused \<and>
   map (\<lambda>x. st_ephemeral (cp_state (snd x))) (sto_checkpoints (snd scoped_wait)) = [[(step_var ''a'', JStr ''once'')], []]"
  by (simp add: scoped_wait_def engine_eval cong: run_simps)

text \<open>A run that died among generated steps cannot be recovered: they are not in the checkpoint.\<close>

lemma generated_steps_are_not_recovered:
  "map_option (\<lambda>r. (wr_status r, wr_error r)) (fst (recoverRun (wf_demo_opts [returns ''x'' JNull]) [(''w'', wf_of plan_steps)] ''r''
     (save_checkpoint (wf_demo_opts []) (demo_state_run ''x'') ''d'' (empty_stores [])))) = Some (RunFailed, Some ''Step not found: x'')"
  by (simp add: engine_eval demo_state_run_def plan_steps_def cong: run_simps)

end
