(* ===== verification/JsNumber.thy ===== *)
theory JsNumber
  imports Json
begin

text \<open>
  \<^verbatim>\<open>Number(s)\<close> for a string \<^verbatim>\<open>s\<close>: the conversion of JavaScript, without rounding. \<open>None\<close> stands for \<^verbatim>\<open>NaN\<close>
  and the infinities. Blank strings convert to 0.
\<close>

definition hex_value :: "char \<Rightarrow> nat" where
  "hex_value c = (let n = of_char c in if n \<le> 57 then n - 48 else if n \<le> 70 then n - 55 else n - 87)"

definition radix_digit :: "nat \<Rightarrow> char \<Rightarrow> bool" where
  "radix_digit r c \<longleftrightarrow> (let n = (of_char c :: nat) in
     (is_digit c \<or> 65 \<le> n \<and> n \<le> 70 \<or> 97 \<le> n \<and> n \<le> 102) \<and> hex_value c < r)"

definition radix_value :: "nat \<Rightarrow> string \<Rightarrow> rat option" where
  "radix_value r s =
     (if s \<noteq> [] \<and> list_all (radix_digit r) s then Some (of_nat (foldl (\<lambda>a c. r * a + hex_value c) 0 s)) else None)"

definition exponent :: "string \<Rightarrow> int option" where
  "exponent s =
     (let (neg, ds) = (case s of c # t \<Rightarrow> if c = CHR ''-'' then (True, t) else if c = CHR ''+'' then (False, t) else (False, s)
                       | [] \<Rightarrow> (False, []))
      in if ds \<noteq> [] \<and> list_all is_digit ds then Some (if neg then - int (str_nat ds) else int (str_nat ds)) else None)"

definition ten_to :: "int \<Rightarrow> rat" where
  "ten_to e = (if 0 \<le> e then 10 ^ nat e else 1 / 10 ^ nat (- e))"

definition unsigned_decimal :: "string \<Rightarrow> rat option" where
  "unsigned_decimal s =
     (let ip = takeWhile is_digit s; r = dropWhile is_digit s;
          (fp, r') = (case r of c # t \<Rightarrow> if c = CHR ''.'' then (takeWhile is_digit t, dropWhile is_digit t) else ([], r)
                      | [] \<Rightarrow> ([], []));
          m = of_nat (str_nat (ip @ fp)) / 10 ^ length fp
      in if ip = [] \<and> fp = [] then None
         else case r' of [] \<Rightarrow> Some m
            | c # t \<Rightarrow> if c = CHR ''e'' \<or> c = CHR ''E'' then map_option (\<lambda>e. m * ten_to e) (exponent t) else None)"

definition js_number :: "string \<Rightarrow> rat option" where
  "js_number s0 =
     (let s = trim s0 in
      case s of [] \<Rightarrow> Some 0
      | c # t \<Rightarrow>
          if c = CHR ''0'' \<and> t \<noteq> [] \<and> hd t \<in> {CHR ''x'', CHR ''X''} then radix_value 16 (tl t)
          else if c = CHR ''0'' \<and> t \<noteq> [] \<and> hd t \<in> {CHR ''o'', CHR ''O''} then radix_value 8 (tl t)
          else if c = CHR ''0'' \<and> t \<noteq> [] \<and> hd t \<in> {CHR ''b'', CHR ''B''} then radix_value 2 (tl t)
          else if c = CHR ''-'' then map_option uminus (unsigned_decimal t)
          else if c = CHR ''+'' then unsigned_decimal t
          else unsigned_decimal s)"

end
