(* ===== verification/JsonPatch.thy ===== *)
theory JsonPatch
  imports JsNumber
begin

text \<open>
  JSON Patch (RFC 6902) over JSON Pointer (RFC 6901), \<^verbatim>\<open>packages/core/src/json-patch.ts\<close>: the format in which
  changes of shared state cross the wire. Documents are trees, so the private clone of the code is the document
  itself and an operation returns the changed tree. The keys of an object are its own; the names every
  JavaScript object inherits (\<^verbatim>\<open>constructor\<close>, \<^verbatim>\<open>toString\<close>, \<^verbatim>\<open>__proto__\<close>) are not used as keys.
\<close>

datatype patch_op =
    PAdd string json
  | PRemove string
  | PReplace string json
  | PMove string string
  | PCopy string string
  | PTest string json

section \<open>Pointers\<close>

text \<open>\<^verbatim>\<open>token.replace(/xy/g, z)\<close> for a pattern of two characters.\<close>

fun replace_pair :: "char \<Rightarrow> char \<Rightarrow> char \<Rightarrow> string \<Rightarrow> string" where
  "replace_pair x y z (a # b # s) = (if a = x \<and> b = y then z # replace_pair x y z s else a # replace_pair x y z (b # s))"
| "replace_pair x y z s = s"

definition replace_char :: "char \<Rightarrow> string \<Rightarrow> string \<Rightarrow> string" where
  "replace_char x r s = concat (map (\<lambda>c. if c = x then r else [c]) s)"

definition unescapeToken :: "string \<Rightarrow> string" where
  "unescapeToken t = replace_pair (CHR ''~'') (CHR ''0'') (CHR ''~'') (replace_pair (CHR ''~'') (CHR ''1'') (CHR ''/'') t)"

definition escapeToken :: "string \<Rightarrow> string" where
  "escapeToken t = replace_char (CHR ''/'') ''~1'' (replace_char (CHR ''~'') ''~0'' t)"

definition parsePointer :: "string \<Rightarrow> string + string list" where
  "parsePointer p =
     (case p of [] \<Rightarrow> Inr []
      | c # s \<Rightarrow> if c \<noteq> CHR ''/'' then Inl (''invalid JSON Pointer: '' @ p) else Inr (map unescapeToken (split_on (CHR ''/'') s)))"

definition toPointer :: "string list \<Rightarrow> string" where
  "toPointer ts = concat (map (\<lambda>t. CHR ''/'' # escapeToken t) ts)"

section \<open>Array indices\<close>

text \<open>The index a token names in an array; \<open>None\<close> unless \<^verbatim>\<open>Number.isInteger\<close>.\<close>

definition token_index :: "string \<Rightarrow> int option" where
  "token_index t = (case js_number t of None \<Rightarrow> None | Some q \<Rightarrow> if of_int \<lfloor>q\<rfloor> = q then Some \<lfloor>q\<rfloor> else None)"

definition dash_index :: "string \<Rightarrow> nat \<Rightarrow> int option" where
  "dash_index t n = (if t = ''-'' then Some (int n) else token_index t)"

section \<open>Reading and comparing\<close>

definition get_one :: "json \<Rightarrow> string \<Rightarrow> json option" where
  "get_one cur t =
     (case cur of
        JArr xs \<Rightarrow> (case dash_index t (length xs) of None \<Rightarrow> None | Some i \<Rightarrow> if i < 0 \<or> int (length xs) \<le> i then None else Some (xs ! nat i))
      | JObj kvs \<Rightarrow> map_of kvs t
      | _ \<Rightarrow> None)"

fun getAt :: "json \<Rightarrow> string list \<Rightarrow> json option" where
  "getAt cur [] = Some cur"
| "getAt cur (t # ts) = (case get_one cur t of None \<Rightarrow> None | Some v \<Rightarrow> getAt v ts)"

lemma member_size: "(k, v) \<in> set kvs \<Longrightarrow> size v \<le> size_list (size_prod (\<lambda>_. 0) size) kvs"
  by (rule size_list_estimation' [of "(k, v)"]) simp_all

function deepEqual :: "json \<Rightarrow> json \<Rightarrow> bool" where
  "deepEqual JNull b = (b = JNull)"
| "deepEqual (JBool x) b = (b = JBool x)"
| "deepEqual (JNum x) b = (b = JNum x)"
| "deepEqual (JStr x) b = (b = JStr x)"
| "deepEqual (JArr xs) b = (case b of JArr ys \<Rightarrow> length xs = length ys \<and> list_all (\<lambda>(x, y). deepEqual x y) (zip xs ys) | _ \<Rightarrow> False)"
| "deepEqual (JObj xs) b =
     (case b of JObj ys \<Rightarrow> length xs = length ys \<and>
        list_all (\<lambda>kv. case map_of ys (fst kv) of None \<Rightarrow> False | Some y \<Rightarrow> deepEqual (snd kv) y) xs | _ \<Rightarrow> False)"
  by pat_completeness auto
termination
  by (relation "measure (\<lambda>(a, b). size a)")
    (auto simp: less_Suc_eq_le dest: set_zip_leftD intro!: size_list_estimation' member_size)

section \<open>Applying a patch\<close>

text \<open>
  \<open>change_at d ts f\<close> is \<open>d\<close> with the value at \<open>ts\<close> changed by \<open>f\<close>, where the code changes that value in place.
\<close>

definition put_one :: "json \<Rightarrow> string \<Rightarrow> json \<Rightarrow> json" where
  "put_one cur t v =
     (case cur of
        JArr xs \<Rightarrow> (case dash_index t (length xs) of None \<Rightarrow> cur | Some i \<Rightarrow> JArr (xs[nat i := v]))
      | JObj kvs \<Rightarrow> JObj (AList.update t v kvs)
      | _ \<Rightarrow> cur)"

fun change_at :: "string \<Rightarrow> json \<Rightarrow> string list \<Rightarrow> (json \<Rightarrow> string + json) \<Rightarrow> string + json" where
  "change_at path cur [] f = f cur"
| "change_at path cur (t # ts) f =
     (case get_one cur t of
        None \<Rightarrow> Inl (''path not found: '' @ path)
      | Some v \<Rightarrow> map_sum id (put_one cur t) (change_at path v ts f))"

definition set_in :: "string \<Rightarrow> string \<Rightarrow> json \<Rightarrow> bool \<Rightarrow> json \<Rightarrow> string + json" where
  "set_in path key v isAdd parent =
     (case parent of
        JArr xs \<Rightarrow>
          (case dash_index key (length xs) of
             None \<Rightarrow> Inl (''bad array index: '' @ path)
           | Some i \<Rightarrow>
               if i < 0 \<or> int (length xs) < i then Inl (''bad array index: '' @ path)
               else if isAdd then Inr (JArr (splice_in (nat i) v xs))
               else if int (length xs) \<le> i then Inl (''replace out of range: '' @ path)
               else Inr (JArr (xs[nat i := v])))
      | JObj kvs \<Rightarrow>
          if \<not> isAdd \<and> map_of kvs key = None then Inl (''replace of missing key: '' @ path)
          else Inr (JObj (AList.update key v kvs))
      | _ \<Rightarrow> Inl (''cannot set on non-container: '' @ path))"

definition setOrAdd :: "string \<Rightarrow> json \<Rightarrow> bool \<Rightarrow> json \<Rightarrow> string + json" where
  "setOrAdd path v isAdd doc =
     (case parsePointer path of
        Inl e \<Rightarrow> Inl e
      | Inr [] \<Rightarrow> Inl ''cannot add/replace the whole document''
      | Inr (t # ts) \<Rightarrow> change_at path doc (butlast (t # ts)) (set_in path (last (t # ts)) v isAdd))"

definition remove_in :: "string \<Rightarrow> string \<Rightarrow> json \<Rightarrow> string + json" where
  "remove_in path key parent =
     (case parent of
        JArr xs \<Rightarrow>
          (case token_index key of
             None \<Rightarrow> Inl (''bad array index: '' @ path)
           | Some i \<Rightarrow> if i < 0 \<or> int (length xs) \<le> i then Inl (''bad array index: '' @ path)
                       else Inr (JArr (take (nat i) xs @ drop (Suc (nat i)) xs)))
      | JObj kvs \<Rightarrow> if map_of kvs key = None then Inl (''remove of missing key: '' @ path) else Inr (JObj (AList.delete key kvs))
      | _ \<Rightarrow> Inl (''cannot remove from non-container: '' @ path))"

definition removeAt :: "string \<Rightarrow> json \<Rightarrow> string + json" where
  "removeAt path doc =
     (case parsePointer path of
        Inl e \<Rightarrow> Inl e
      | Inr [] \<Rightarrow> Inl ''cannot remove the whole document''
      | Inr (t # ts) \<Rightarrow> change_at path doc (butlast (t # ts)) (remove_in path (last (t # ts))))"

text \<open>The value that \<^verbatim>\<open>removeAt\<close> returns: the one that was at the path.\<close>

definition removed_at :: "string \<Rightarrow> json \<Rightarrow> json" where
  "removed_at path doc = (case parsePointer path of Inl _ \<Rightarrow> JNull | Inr ts \<Rightarrow> nullish (getAt doc ts) JNull)"

definition applyOne :: "patch_op \<Rightarrow> json \<Rightarrow> string + json" where
  "applyOne op doc =
     (case op of
        PAdd p v \<Rightarrow> setOrAdd p v True doc
      | PReplace p v \<Rightarrow> setOrAdd p v False doc
      | PRemove p \<Rightarrow> removeAt p doc
      | PMove from p \<Rightarrow> (case removeAt from doc of Inl e \<Rightarrow> Inl e | Inr doc' \<Rightarrow> setOrAdd p (removed_at from doc) True doc')
      | PCopy from p \<Rightarrow>
          (case parsePointer from of
             Inl e \<Rightarrow> Inl e
           | Inr ts \<Rightarrow> (case getAt doc ts of None \<Rightarrow> Inl (''copy source not found: '' @ from) | Some v \<Rightarrow> setOrAdd p v True doc))
      | PTest p v \<Rightarrow>
          (case parsePointer p of
             Inl e \<Rightarrow> Inl e
           | Inr ts \<Rightarrow> (case getAt doc ts of
                 None \<Rightarrow> Inl (''test failed at '' @ p)
               | Some w \<Rightarrow> if deepEqual w v then Inr doc else Inl (''test failed at '' @ p))))"

fun apply_ops :: "patch_op list \<Rightarrow> json \<Rightarrow> string + json" where
  "apply_ops [] doc = Inr doc"
| "apply_ops (op # ops) doc = (case applyOne op doc of Inl e \<Rightarrow> Inl e | Inr doc' \<Rightarrow> apply_ops ops doc')"

record patch_result =
  pr_ok :: bool
  pr_doc :: json
  pr_error :: "string option"

definition applyJsonPatch :: "json \<Rightarrow> patch_op list \<Rightarrow> patch_result" where
  "applyJsonPatch doc patch =
     (case apply_ops patch doc of
        Inr d \<Rightarrow> \<lparr>pr_ok = True, pr_doc = d, pr_error = None\<rparr>
      | Inl e \<Rightarrow> \<lparr>pr_ok = False, pr_doc = doc, pr_error = Some e\<rparr>)"

section \<open>Computing a patch\<close>

fun is_object :: "json \<Rightarrow> bool" where
  "is_object (JObj kvs) = True"
| "is_object _ = False"

function diffInto :: "json \<Rightarrow> json \<Rightarrow> string \<Rightarrow> patch_op list" where
  "diffInto prev nxt base =
     (if deepEqual prev nxt then []
      else case (prev, nxt) of
        (JObj p, JObj n) \<Rightarrow>
          map (\<lambda>kv. PRemove (base @ CHR ''/'' # escapeToken (fst kv))) (filter (\<lambda>kv. map_of n (fst kv) = None) p) @
          concat (map (\<lambda>kv. let childPath = base @ CHR ''/'' # escapeToken (fst kv) in
            case map_of p (fst kv) of
              None \<Rightarrow> [PAdd childPath (snd kv)]
            | Some v \<Rightarrow> diffInto v (snd kv) childPath) n)
      | _ \<Rightarrow> [PReplace base nxt])"
  by pat_completeness auto
termination
  by (relation "measure (\<lambda>(p, n, b). size n)") (auto simp: less_Suc_eq_le intro!: member_size)

declare diffInto.simps [simp del]

definition diffJsonPatch :: "json \<Rightarrow> json \<Rightarrow> patch_op list" where
  "diffJsonPatch prev nxt =
     (if is_object prev \<and> is_object nxt then diffInto prev nxt []
      else if \<not> deepEqual prev nxt then [PReplace [] nxt] else [])"

end
