(* ===== verification/JsonPatchProps.thy ===== *)
theory JsonPatchProps
  imports JsonPatch
begin

text \<open>
  What the patch functions promise: a pointer reads back as the tokens it was built from, a patch is applied
  whole or not at all, and the patch computed between two documents turns the one into the other.
\<close>

section \<open>Pointers\<close>

lemma replace_pair_other [simp]: "a \<noteq> x \<Longrightarrow> replace_pair x y z (a # s) = a # replace_pair x y z s"
  by (cases s) auto

definition esc1 :: "string \<Rightarrow> string" where
  "esc1 s = replace_char (CHR ''~'') ''~0'' s"

lemma esc1_simps [simp]: "esc1 [] = []" "esc1 (c # s) = (if c = CHR ''~'' then ''~0'' else [c]) @ esc1 s"
  by (simp_all add: esc1_def replace_char_def)

lemma replace_char_simps [simp]:
  "replace_char x r [] = []"
  "replace_char x r (c # s) = (if c = x then r else [c]) @ replace_char x r s"
  by (simp_all add: replace_char_def)

lemma undo_slash: "replace_pair (CHR ''~'') (CHR ''1'') (CHR ''/'') (replace_char (CHR ''/'') ''~1'' (esc1 s)) = esc1 s"
  by (induction s) auto

lemma undo_tilde: "replace_pair (CHR ''~'') (CHR ''0'') (CHR ''~'') (esc1 s) = s"
  by (induction s) auto

lemma unescape_token [simp]: "unescapeToken (escapeToken t) = t"
  using undo_slash [of t] undo_tilde [of t] by (simp add: unescapeToken_def escapeToken_def esc1_def)

lemma slash_escape [simp]: "CHR ''/'' \<notin> set (escapeToken t)"
  by (auto simp: escapeToken_def replace_char_def)

lemma toPointer_Cons: "toPointer (t # ts) = CHR ''/'' # escapeToken t @ toPointer ts"
  by (simp add: toPointer_def)

lemma toPointer_append: "toPointer (ts @ us) = toPointer ts @ toPointer us"
  by (simp add: toPointer_def)

lemma split_pointer: "split_on (CHR ''/'') (escapeToken t @ toPointer ts) = map escapeToken (t # ts)"
proof (induction ts arbitrary: t)
  case Nil
  then show ?case by (simp add: toPointer_def split_on_none)
next
  case (Cons u us)
  then show ?case by (simp add: toPointer_Cons split_on_append)
qed

lemma parse_toPointer [simp]: "parsePointer (toPointer ts) = Inr ts"
proof (cases ts)
  case Nil
  then show ?thesis by (simp add: toPointer_def parsePointer_def)
next
  case (Cons t us)
  then show ?thesis by (simp add: toPointer_Cons parsePointer_def split_pointer comp_def)
qed

section \<open>Well-formed documents\<close>

text \<open>The keys of every object are distinct.\<close>

fun wf_json :: "json \<Rightarrow> bool" where
  "wf_json (JArr xs) \<longleftrightarrow> list_all wf_json xs"
| "wf_json (JObj kvs) \<longleftrightarrow> wf_map kvs \<and> list_all (\<lambda>kv. wf_json (snd kv)) kvs"
| "wf_json _ \<longleftrightarrow> True"

lemma wf_member: "wf_json (JObj kvs) \<Longrightarrow> map_of kvs k = Some v \<Longrightarrow> wf_json v"
  by (auto simp: list_all_iff dest!: map_of_SomeD)

lemma deepEqual_refl: "wf_json v \<Longrightarrow> deepEqual v v"
proof (induction v rule: wf_json.induct)
  case (1 xs)
  then show ?case by (auto simp: list_all_iff set_zip)
next
  case (2 kvs)
  then show ?case by (auto simp: list_all_iff)
qed simp_all

lemma deepEqual_objI:
  assumes "wf_map a" "wf_map b" "\<And>k. rel_option deepEqual (map_of a k) (map_of b k)"
  shows "deepEqual (JObj a) (JObj b)"
proof -
  have "k \<in> set (keys_of a) \<longleftrightarrow> k \<in> set (keys_of b)" for k
    using assms(3) [of k] by (metis map_of_eq_None_keys rel_option_None1 rel_option_None2)
  then have "length a = length b" using assms(1,2)
    by (metis distinct_card length_map subsetI subset_antisym)
  moreover have "case map_of b k of None \<Rightarrow> False | Some y \<Rightarrow> deepEqual v y" if "(k, v) \<in> set a" for k v
    using assms(1) assms(3) [of k] that by (auto simp: option_rel_Some1 split: option.split)
  ultimately show ?thesis by (auto simp: list_all_iff)
qed

section \<open>Editing below a member\<close>

lemma map_sum_Inr: "map_sum f g x = Inr y \<Longrightarrow> (\<And>z. x = Inr z \<Longrightarrow> y = g z \<Longrightarrow> P) \<Longrightarrow> P"
  by (cases x) auto

lemma change_at_more:
  "change_at p d ts f = Inr r \<Longrightarrow> (\<And>x y. f x = Inr y \<Longrightarrow> g x = Inr y) \<Longrightarrow> change_at p' d ts g = Inr r"
proof (induction ts arbitrary: d r)
  case (Cons t ts)
  from Cons.prems(1) obtain v r' where v: "get_one d t = Some v" "change_at p v ts f = Inr r'" "r = put_one d t r'"
    by (auto split: option.splits elim!: map_sum_Inr)
  with Cons.IH [OF v(2) Cons.prems(2)] show ?case by simp
qed simp

lemma set_in_path: "set_in p k v a d = Inr r \<Longrightarrow> set_in p' k v a d = Inr r"
  by (auto simp: set_in_def split: json.splits option.splits if_splits)

lemma remove_in_path: "remove_in p k d = Inr r \<Longrightarrow> remove_in p' k d = Inr r"
  by (auto simp: remove_in_def split: json.splits option.splits if_splits)

fun shift :: "string \<Rightarrow> patch_op \<Rightarrow> patch_op" where
  "shift b (PAdd p v) = PAdd (b @ p) v"
| "shift b (PReplace p v) = PReplace (b @ p) v"
| "shift b (PRemove p) = PRemove (b @ p)"
| "shift b op = op"

text \<open>An edit at a path below the root.\<close>

inductive edit :: "patch_op \<Rightarrow> bool" where
  "us \<noteq> [] \<Longrightarrow> edit (PAdd (toPointer us) v)"
| "us \<noteq> [] \<Longrightarrow> edit (PReplace (toPointer us) v)"
| "us \<noteq> [] \<Longrightarrow> edit (PRemove (toPointer us))"

lemma change_at_below:
  assumes "map_of kvs k = Some w" "change_at p w ts f = Inr s" "\<And>x y. f x = Inr y \<Longrightarrow> g x = Inr y"
  shows "change_at p' (JObj kvs) (k # ts) g = Inr (JObj (AList.update k s kvs))"
  using change_at_more [OF assms(2,3), where p' = p'] assms(1) by (simp add: get_one_def put_one_def)

lemma setOrAdd_below:
  assumes "us \<noteq> []" "map_of kvs k = Some w" "setOrAdd (toPointer us) v a w = Inr s"
  shows "setOrAdd (toPointer (k # us)) v a (JObj kvs) = Inr (JObj (AList.update k s kvs))"
proof -
  from assms(1,3) have "change_at (toPointer us) w (butlast us) (set_in (toPointer us) (last us) v a) = Inr s"
    by (cases us) (auto simp: setOrAdd_def)
  then have "change_at (toPointer (k # us)) (JObj kvs) (k # butlast us) (set_in (toPointer (k # us)) (last us) v a) =
      Inr (JObj (AList.update k s kvs))" by (rule change_at_below [OF assms(2)]) (rule set_in_path)
  with assms(1) show ?thesis by (simp add: setOrAdd_def)
qed

lemma removeAt_below:
  assumes "us \<noteq> []" "map_of kvs k = Some w" "removeAt (toPointer us) w = Inr s"
  shows "removeAt (toPointer (k # us)) (JObj kvs) = Inr (JObj (AList.update k s kvs))"
proof -
  from assms(1,3) have "change_at (toPointer us) w (butlast us) (remove_in (toPointer us) (last us)) = Inr s"
    by (cases us) (auto simp: removeAt_def)
  then have "change_at (toPointer (k # us)) (JObj kvs) (k # butlast us) (remove_in (toPointer (k # us)) (last us)) =
      Inr (JObj (AList.update k s kvs))" by (rule change_at_below [OF assms(2)]) (rule remove_in_path)
  with assms(1) show ?thesis by (simp add: removeAt_def)
qed

lemma pointer_below: "toPointer [k] @ toPointer us = toPointer (k # us)"
  using toPointer_append [of "[k]" us] by simp

lemma applyOne_below:
  "edit op \<Longrightarrow> map_of kvs k = Some w \<Longrightarrow> applyOne op w = Inr s \<Longrightarrow>
   applyOne (shift (toPointer [k]) op) (JObj kvs) = Inr (JObj (AList.update k s kvs))"
  by (induction op rule: edit.induct)
    (simp_all add: applyOne_def pointer_below setOrAdd_below removeAt_below)

lemma apply_ops_below:
  "\<forall>op \<in> set ops. edit op \<Longrightarrow> map_of kvs k = Some w \<Longrightarrow> ops \<noteq> [] \<Longrightarrow> apply_ops ops w = Inr s \<Longrightarrow>
   apply_ops (map (shift (toPointer [k])) ops) (JObj kvs) = Inr (JObj (AList.update k s kvs))"
proof (induction ops arbitrary: kvs w)
  case (Cons op ops)
  from Cons.prems(4) obtain w' where w': "applyOne op w = Inr w'" "apply_ops ops w' = Inr s"
    by (auto split: sum.splits)
  from Cons.prems have e: "edit op" by simp
  note one = applyOne_below [OF e Cons.prems(2) w'(1)]
  show ?case
  proof (cases "ops = []")
    case True
    with w' one show ?thesis by simp
  next
    case False
    from Cons.IH [of "AList.update k w' kvs" w'] Cons.prems(1) False w'(2)
    have "apply_ops (map (shift (toPointer [k])) ops) (JObj (AList.update k w' kvs)) =
        Inr (JObj (AList.update k s (AList.update k w' kvs)))" by simp
    with one show ?thesis by (simp add: update_last)
  qed
qed simp

lemma apply_ops_append:
  "apply_ops (xs @ ys) d = (case apply_ops xs d of Inl e \<Rightarrow> Inl e | Inr d' \<Rightarrow> apply_ops ys d')"
  by (induction xs arbitrary: d) (auto split: sum.split)

section \<open>The patch of a difference\<close>

abbreviation below :: "string \<Rightarrow> string \<Rightarrow> string" where
  "below b k \<equiv> b @ CHR ''/'' # escapeToken k"

definition member_diff :: "payload \<Rightarrow> string \<Rightarrow> string \<times> json \<Rightarrow> patch_op list" where
  "member_diff p b kv = (case map_of p (fst kv) of
     None \<Rightarrow> [PAdd (below b (fst kv)) (snd kv)] | Some v \<Rightarrow> diffInto v (snd kv) (below b (fst kv)))"

definition removals :: "payload \<Rightarrow> payload \<Rightarrow> string list" where
  "removals p n = filter (\<lambda>k. map_of n k = None) (keys_of p)"

lemma diffInto_objects:
  "diffInto (JObj p) (JObj n) b = (if deepEqual (JObj p) (JObj n) then []
     else map (\<lambda>k. PRemove (below b k)) (removals p n) @ concat (map (member_diff p b) n))"
proof -
  have m: "member_diff p b = (\<lambda>kv. let childPath = below b (fst kv) in
      case map_of p (fst kv) of None \<Rightarrow> [PAdd childPath (snd kv)] | Some v \<Rightarrow> diffInto v (snd kv) childPath)"
    by (rule ext) (simp add: member_diff_def Let_def)
  show ?thesis by (subst diffInto.simps) (simp add: m removals_def filter_map comp_def)
qed

lemma diffInto_other:
  "\<not> (is_object prev \<and> is_object nxt) \<Longrightarrow> diffInto prev nxt b = (if deepEqual prev nxt then [] else [PReplace b nxt])"
  by (subst diffInto.simps) (cases prev; cases nxt; simp)

text \<open>Induction along the recursion: below a member that both objects have.\<close>

lemma diff_induct:
  assumes "\<And>prev nxt b. (\<And>p n kv v. prev = JObj p \<Longrightarrow> nxt = JObj n \<Longrightarrow> kv \<in> set n \<Longrightarrow>
    map_of p (fst kv) = Some v \<Longrightarrow> \<not> deepEqual prev nxt \<Longrightarrow> P v (snd kv) (below b (fst kv))) \<Longrightarrow> P prev nxt b"
  shows "P prev nxt b"
  by (rule diffInto.induct, rule assms) blast

lemma objects_cases:
  obtains p n where "prev = JObj p" "nxt = JObj n" | "\<not> (is_object prev \<and> is_object nxt)"
  by (metis is_object.elims(2))

lemma diffInto_shift: "diffInto p n (b @ c) = map (shift b) (diffInto p n c)"
proof (induction p n c rule: diff_induct)
  case (1 prev nxt c)
  show ?case
  proof (cases "deepEqual prev nxt")
    case False
    show ?thesis
    proof (cases prev nxt rule: objects_cases)
      case o: (1 p n)
      have "member_diff p (b @ c) kv = map (shift b) (member_diff p c kv)" if "kv \<in> set n" for kv
        using "1" [OF o] False that by (auto simp: member_diff_def split: option.split)
      then have "concat (map (member_diff p (b @ c)) n) = map (shift b) (concat (map (member_diff p c) n))"
        by (simp add: map_concat cong: map_cong)
      with o show ?thesis by (simp add: diffInto_objects)
    qed (simp add: diffInto_other)
  qed (subst (1 2) diffInto.simps, simp)
qed

lemma toPointer_below: "below (toPointer ts) k = toPointer (ts @ [k])"
  by (simp add: toPointer_def)

lemma diff_edits:
  "b = toPointer ts \<Longrightarrow> is_object p \<and> is_object n \<or> ts \<noteq> [] \<Longrightarrow> op \<in> set (diffInto p n b) \<Longrightarrow> edit op"
proof (induction p n b arbitrary: ts rule: diff_induct)
  case (1 prev nxt b)
  show ?case
  proof (cases prev nxt rule: objects_cases)
    case o: (1 p n)
    have d: "edit op" if "kv \<in> set n" "map_of p (fst kv) = Some v" "op \<in> set (diffInto v (snd kv) (below b (fst kv)))" for kv v
    proof (rule "1.IH" [OF o that(1,2) _ _ _ that(3)])
      show "below b (fst kv) = toPointer (ts @ [fst kv])" using "1.prems"(1) by (simp add: toPointer_below)
      show "\<not> deepEqual prev nxt" using "1.prems"(3) by (auto simp: diffInto.simps [of prev nxt])
    qed simp
    from "1.prems" o d show ?thesis
      by (auto simp: diffInto_objects member_diff_def toPointer_below intro: edit.intros split: if_splits option.splits)
  next
    case 2
    with "1.prems" show ?thesis by (auto simp: diffInto_other intro: edit.intros split: if_splits)
  qed
qed

section \<open>The patch turns the one document into the other\<close>

lemma apply_removals:
  "set ks \<subseteq> set (keys_of kvs) \<Longrightarrow> distinct ks \<Longrightarrow>
   \<exists>kvs'. apply_ops (map (\<lambda>k. PRemove (below [] k)) ks) (JObj kvs) = Inr (JObj kvs') \<and>
     (wf_map kvs \<longrightarrow> wf_map kvs') \<and> (\<forall>k. map_of kvs' k = (if k \<in> set ks then None else map_of kvs k))"
proof (induction ks arbitrary: kvs)
  case (Cons k ks)
  have "removeAt (below [] k) (JObj kvs) = Inr (JObj (AList.delete k kvs))"
    using Cons.prems(1) parse_toPointer [of "[k]"]
    by (auto simp: removeAt_def toPointer_def remove_in_def map_of_eq_None_keys)
  moreover have "set ks \<subseteq> set (keys_of (AList.delete k kvs))" using Cons.prems by (auto simp: delete_keys)
  note Cons.IH [OF this]
  ultimately show ?case using Cons.prems by (auto simp: applyOne_def)
qed simp

text \<open>\<open>like m v\<close>: the member is there and equals \<open>v\<close>.\<close>

definition like :: "json option \<Rightarrow> json \<Rightarrow> bool" where
  "like m v \<longleftrightarrow> (\<exists>v'. m = Some v' \<and> deepEqual v' v)"

lemma set_member:
  "a \<or> map_of kvs k \<noteq> None \<Longrightarrow> setOrAdd (CHR ''/'' # escapeToken k) v a (JObj kvs) = Inr (JObj (AList.update k v kvs))"
  using parse_toPointer [of "[k]"] by (auto simp: setOrAdd_def toPointer_def set_in_def)

text \<open>What the operations of one member do, given that the patches below it work.\<close>

lemma apply_member:
  assumes "wf_json v" "map_of kvs k = map_of p k" "\<And>w. map_of p k = Some w \<Longrightarrow> wf_json w"
    and below: "\<And>w. map_of p k = Some w \<Longrightarrow> is_object w \<and> is_object v \<Longrightarrow>
      \<exists>q. apply_ops (diffInto w v []) w = Inr q \<and> deepEqual q v"
  shows "\<exists>kvs'. apply_ops (member_diff p [] (k, v)) (JObj kvs) = Inr (JObj kvs') \<and>
    (wf_map kvs \<longrightarrow> wf_map kvs') \<and> like (map_of kvs' k) v \<and> (\<forall>k'. k' \<noteq> k \<longrightarrow> map_of kvs' k' = map_of kvs k')"
proof (cases "map_of p k")
  case None
  with assms(1) show ?thesis by (simp add: member_diff_def applyOne_def set_member like_def deepEqual_refl)
next
  case (Some w)
  show ?thesis
  proof (cases "deepEqual w v")
    case True
    with Some assms(2) show ?thesis by (auto simp: member_diff_def diffInto.simps [of w v] like_def)
  next
    case False
    show ?thesis
    proof (cases "is_object w \<and> is_object v")
      case obj: True
      from below [OF Some obj] obtain q where q: "apply_ops (diffInto w v []) w = Inr q" "deepEqual q v" by blast
      have "diffInto w v [] \<noteq> []" using q False by (metis apply_ops.simps(1) sum.inject(2))
      moreover have "\<forall>op \<in> set (diffInto w v []). edit op" using diff_edits [of "[]" "[]"] obj by (simp add: toPointer_def)
      ultimately have "apply_ops (map (shift (toPointer [k])) (diffInto w v [])) (JObj kvs) = Inr (JObj (AList.update k q kvs))"
        using apply_ops_below [OF _ _ _ q(1), of kvs k] Some assms(2) by simp
      then have "apply_ops (member_diff p [] (k, v)) (JObj kvs) = Inr (JObj (AList.update k q kvs))"
        using Some diffInto_shift [of w v "toPointer [k]" "[]"] by (simp add: member_diff_def toPointer_def)
      with q(2) show ?thesis by (simp add: like_def)
    next
      case False
      with \<open>\<not> deepEqual w v\<close> Some assms(1,2) show ?thesis
        by (simp add: member_diff_def diffInto_other applyOne_def set_member like_def deepEqual_refl)
    qed
  qed
qed

lemma apply_members:
  assumes "\<And>k v kvs. (k, v) \<in> set n \<Longrightarrow> map_of kvs k = map_of p k \<Longrightarrow>
     \<exists>kvs'. apply_ops (member_diff p [] (k, v)) (JObj kvs) = Inr (JObj kvs') \<and>
       (wf_map kvs \<longrightarrow> wf_map kvs') \<and> like (map_of kvs' k) v \<and> (\<forall>k'. k' \<noteq> k \<longrightarrow> map_of kvs' k' = map_of kvs k')"
    and "wf_map n" "\<forall>k \<in> set (keys_of n). map_of kvs k = map_of p k"
  shows "\<exists>kvs'. apply_ops (concat (map (member_diff p []) n)) (JObj kvs) = Inr (JObj kvs') \<and> (wf_map kvs \<longrightarrow> wf_map kvs') \<and>
    (\<forall>(k, v) \<in> set n. like (map_of kvs' k) v) \<and> (\<forall>k. k \<notin> set (keys_of n) \<longrightarrow> map_of kvs' k = map_of kvs k)"
  using assms
proof (induction n arbitrary: kvs)
  case (Cons kv n)
  obtain k v where kv: "kv = (k, v)" by force
  from Cons.prems(1) [of k v kvs] Cons.prems(3) kv obtain kvs1 where
    one: "apply_ops (member_diff p [] (k, v)) (JObj kvs) = Inr (JObj kvs1)" "wf_map kvs \<longrightarrow> wf_map kvs1"
      "like (map_of kvs1 k) v" "\<forall>k'. k' \<noteq> k \<longrightarrow> map_of kvs1 k' = map_of kvs k'" by auto
  have k: "k \<notin> set (keys_of n)" using Cons.prems(2) kv by auto
  have "\<forall>k' \<in> set (keys_of n). map_of kvs1 k' = map_of p k'" using one(4) k Cons.prems(3) kv by (metis image_insert insertI2 list.simps(15) set_map)
  from Cons.IH [OF Cons.prems(1) _ this] Cons.prems(2) obtain kvs2 where
    rest: "apply_ops (concat (map (member_diff p []) n)) (JObj kvs1) = Inr (JObj kvs2)" "wf_map kvs1 \<longrightarrow> wf_map kvs2"
      "\<forall>(k, v) \<in> set n. like (map_of kvs2 k) v" "\<forall>k. k \<notin> set (keys_of n) \<longrightarrow> map_of kvs2 k = map_of kvs1 k" by auto
  have "apply_ops (concat (map (member_diff p []) (kv # n))) (JObj kvs) = Inr (JObj kvs2)"
    using one(1) rest(1) kv by (simp add: apply_ops_append)
  moreover have "like (map_of kvs2 k) v" using rest(4) k one(3) by simp
  ultimately show ?case using one rest kv by auto
qed simp

lemma diff_applies:
  "wf_json p \<Longrightarrow> wf_json n \<Longrightarrow> is_object p \<Longrightarrow> is_object n \<Longrightarrow> \<exists>q. apply_ops (diffInto p n []) p = Inr q \<and> deepEqual q n"
proof (induction n arbitrary: p rule: measure_induct_rule [of size])
  case (less nxt)
  show ?case
  proof (cases "deepEqual p nxt")
    case True
    then show ?thesis by (simp add: diffInto.simps [of p nxt])
  next
    case False
    from less.prems obtain a n where o: "p = JObj a" "nxt = JObj n" by (metis is_object.elims(2))
    with less.prems have wf: "wf_map a" "wf_map n" by simp_all
    have "set (removals a n) \<subseteq> set (keys_of a)" "distinct (removals a n)" using wf by (auto simp: removals_def)
    from apply_removals [OF this] wf(1) obtain b where b: "apply_ops (map (\<lambda>k. PRemove (below [] k)) (removals a n)) (JObj a) = Inr (JObj b)"
        "wf_map b" "\<forall>k. map_of b k = (if k \<in> set (removals a n) then None else map_of a k)" by blast
    have m: "\<exists>kvs'. apply_ops (member_diff a [] (k, v)) (JObj kvs) = Inr (JObj kvs') \<and>
        (wf_map kvs \<longrightarrow> wf_map kvs') \<and> like (map_of kvs' k) v \<and> (\<forall>k'. k' \<noteq> k \<longrightarrow> map_of kvs' k' = map_of kvs k')"
      if "(k, v) \<in> set n" "map_of kvs k = map_of a k" for k v kvs
    proof (rule apply_member [OF _ that(2)])
      show v: "wf_json v" using less.prems(2) o(2) that(1) by (auto simp: list_all_iff)
      show w: "map_of a k = Some w \<Longrightarrow> wf_json w" for w using less.prems(1) o(1) by (auto intro: wf_member)
      have "size v < size nxt" using member_size [OF that(1)] o(2) by simp
      then show "map_of a k = Some w \<Longrightarrow> is_object w \<and> is_object v \<Longrightarrow> \<exists>q. apply_ops (diffInto w v []) w = Inr q \<and> deepEqual q v" for w
        using less.IH v w by blast
    qed
    have "k \<notin> set (removals a n)" if "k \<in> set (keys_of n)" for k using that by (auto simp: removals_def map_of_eq_None_keys)
    then have "\<forall>k \<in> set (keys_of n). map_of b k = map_of a k" using b(3) by simp
    from apply_members [OF m wf(2) this] b(2) obtain q where q: "apply_ops (concat (map (member_diff a []) n)) (JObj b) = Inr (JObj q)"
        "wf_map q" "\<forall>(k, v) \<in> set n. like (map_of q k) v" "\<forall>k. k \<notin> set (keys_of n) \<longrightarrow> map_of q k = map_of b k" by blast
    have "deepEqual (JObj q) (JObj n)"
    proof (rule deepEqual_objI [OF q(2) wf(2)])
      fix k
      show "rel_option deepEqual (map_of q k) (map_of n k)"
      proof (cases "map_of n k")
        case None
        then have "k \<notin> set (keys_of n)" by (simp add: map_of_eq_None_keys)
        then have "map_of q k = map_of b k" using q(4) by blast
        moreover have "map_of b k = None" using b(3) None by (auto simp: removals_def map_of_eq_None_keys)
        ultimately show ?thesis using None by simp
      next
        case (Some v)
        then have "like (map_of q k) v" using q(3) by (auto dest: map_of_SomeD)
        with Some show ?thesis by (auto simp: like_def)
      qed
    qed
    moreover have "apply_ops (diffInto p nxt []) p = Inr (JObj q)"
      using False b(1) q(1) o by (auto simp: diffInto_objects apply_ops_append)
    ultimately show ?thesis using o(2) by blast
  qed
qed

section \<open>Properties\<close>


definition patch_before :: payload where
  "patch_before = [(''a/b'', JNum 1), (''gone'', JNull), (''in'', JObj [(''x'', JBool True), (''y'', JBool False)])]"

definition patch_after :: payload where
  "patch_after = [(''in'', JObj [(''y'', JBool True)]), (''~'', JArr [JNull]), (''a/b'', JNum 2)]"


section \<open>Divergences\<close>

text \<open>Between documents of which one is not an object the computed patch is one that is always refused.\<close>

lemma root_change_refused: "\<not> pr_ok (applyJsonPatch (JArr []) (diffJsonPatch (JArr []) (JObj [])))"
  by (simp add: diffJsonPatch_def applyJsonPatch_def applyOne_def setOrAdd_def parsePointer_def)

text \<open>An empty token is read as index 0, and so is 0x0; RFC 6901 has neither.\<close>

lemma empty_token_is_zero: "getAt (JArr [JNum 7]) [[]] = Some (JNum 7) \<and> getAt (JArr [JNum 7]) [''0x0''] = Some (JNum 7)"
  by (simp add: get_one_def dash_index_def token_index_def js_number_def trim_def is_space_def radix_value_def
      radix_digit_def hex_value_def is_digit_def)

end
