(* ===== verification/Sse.thy ===== *)
theory Sse
  imports JsNumber
begin

text \<open>
  Server-sent events: the writer (\<^verbatim>\<open>packages/core/src/sse-writer.ts\<close>) and the decoder
  (\<^verbatim>\<open>packages/core/src/sse-parser.ts\<close>). Chunks are text, as the \<^verbatim>\<open>TextDecoder\<close> of the stream delivers them,
  and the payload of a frame is its JSON text. A stall ends the stream with an error, an abort ends it like the
  end of the data.
\<close>

section \<open>Writing\<close>

record sse_frame =
  sf_id :: "string option"
  sf_event :: "string option"
  sf_text :: string
  sf_retry :: "rat option"

definition field_line :: "string \<Rightarrow> string \<Rightarrow> string" where
  "field_line name v = name @ '': '' @ v @ [CHR 0x0A]"

definition formatSseFrame :: "sse_frame \<Rightarrow> string" where
  "formatSseFrame f =
     (case sf_id f of None \<Rightarrow> [] | Some i \<Rightarrow> field_line ''id'' i) @
     (case sf_event f of None \<Rightarrow> [] | Some e \<Rightarrow> field_line ''event'' e) @
     (case sf_retry f of None \<Rightarrow> [] | Some r \<Rightarrow> field_line ''retry'' (int_str (max 0 \<lfloor>r\<rfloor>))) @
     concat (map (field_line ''data'') (split_on (CHR 0x0A) (sf_text f))) @ [CHR 0x0A]"

definition formatSseComment :: "string \<Rightarrow> string" where
  "formatSseComment t = '': '' @ t @ [CHR 0x0A, CHR 0x0A]"

text \<open>
  Where a reconnecting client resumes: the header its browser sends, else the query value, else the default.
\<close>

definition finite_number :: "string option \<Rightarrow> rat option" where
  "finite_number x = (case x of None \<Rightarrow> None | Some s \<Rightarrow> if s = [] then None else js_number s)"

definition resolveResumeCursor :: "string option \<Rightarrow> string option \<Rightarrow> rat option \<Rightarrow> rat" where
  "resolveResumeCursor lastEventId afterParam defaultAfter =
     (case finite_number lastEventId of
        Some n \<Rightarrow> n
      | None \<Rightarrow> (case finite_number afterParam of Some n \<Rightarrow> n | None \<Rightarrow> nullish defaultAfter (- 1)))"

section \<open>Reading\<close>

record sse_event =
  se_data :: string
  se_event :: "string option"
  se_id :: "string option"

record sse_state =
  ss_buf :: string
  ss_data :: "string list"
  ss_event :: "string option"
  ss_id :: "string option"

definition sse_start :: sse_state where
  "sse_start = \<lparr>ss_buf = [], ss_data = [], ss_event = None, ss_id = None\<rparr>"

text \<open>\<^verbatim>\<open>replace(/^ /, '')\<close> and \<^verbatim>\<open>replace(/\r$/, '')\<close>.\<close>

definition strip_space :: "string \<Rightarrow> string" where
  "strip_space s = (case s of c # t \<Rightarrow> if c = CHR '' '' then t else s | [] \<Rightarrow> [])"

definition strip_cr :: "string \<Rightarrow> string" where
  "strip_cr s = (if s \<noteq> [] \<and> last s = CHR 0x0D then butlast s else s)"

fun join_nl :: "string list \<Rightarrow> string" where
  "join_nl [] = []"
| "join_nl [x] = x"
| "join_nl (x # xs) = x @ CHR 0x0A # join_nl xs"

definition applyLine :: "string \<Rightarrow> sse_state \<Rightarrow> sse_state" where
  "applyLine line st =
     (if starts_with '':'' line then st
      else if starts_with ''event:'' line then st\<lparr>ss_event := Some (trim (drop 6 line))\<rparr>
      else if starts_with ''data:'' line then st\<lparr>ss_data := ss_data st @ [strip_space (drop 5 line)]\<rparr>
      else if starts_with ''id:'' line then st\<lparr>ss_id := Some (strip_space (drop 3 line))\<rparr>
      else st)"

definition take_record :: "sse_state \<Rightarrow> sse_event list \<times> sse_state" where
  "take_record st =
     (if ss_data st = [] \<and> ss_event st = None then ([], st\<lparr>ss_id := None\<rparr>)
      else ([\<lparr>se_data = join_nl (ss_data st), se_event = ss_event st, se_id = ss_id st\<rparr>],
            st\<lparr>ss_data := [], ss_event := None, ss_id := None\<rparr>))"

fun read_lines :: "string list \<Rightarrow> sse_state \<Rightarrow> sse_event list \<times> sse_state" where
  "read_lines [] st = ([], st)"
| "read_lines (raw # raws) st =
     (let line = strip_cr raw;
          (ev, st1) = (if line = [] then take_record st else ([], applyLine line st));
          (evs, st2) = read_lines raws st1
      in (ev @ evs, st2))"

definition read_chunk :: "string \<Rightarrow> sse_state \<Rightarrow> sse_event list \<times> sse_state" where
  "read_chunk chunk st =
     (let lines = split_on (CHR 0x0A) (ss_buf st @ chunk) in read_lines (butlast lines) (st\<lparr>ss_buf := last lines\<rparr>))"

definition read_end :: "sse_state \<Rightarrow> sse_event list" where
  "read_end st = fst (take_record (if ss_buf st \<noteq> [] then applyLine (strip_cr (ss_buf st)) st else st))"

fun read_chunks :: "string list \<Rightarrow> sse_state \<Rightarrow> sse_event list" where
  "read_chunks [] st = read_end st"
| "read_chunks (c # cs) st = (let (evs, st') = read_chunk c st in evs @ read_chunks cs st')"

definition parseSseStream :: "string list \<Rightarrow> sse_event list" where
  "parseSseStream chunks = read_chunks chunks sse_start"

section \<open>Where the stream is cut does not matter\<close>

lemma split_on_nonempty [simp]: "split_on c s \<noteq> []"
  by (induction s) (auto split: list.split)

lemma split_on_cut: "split_on c (s @ t) = butlast (split_on c s) @ split_on c (last (split_on c s) @ t)"
proof (induction s)
  case (Cons x s)
  show ?case
  proof (cases "x = c")
    case True
    with Cons show ?thesis by simp
  next
    case False
    obtain w ws where w: "split_on c s = w # ws" by (cases "split_on c s") auto
    show ?thesis
    proof (cases ws)
      case Nil
      with Cons False w show ?thesis by simp
    next
      case (Cons v vs)
      with False w Cons.IH show ?thesis by simp
    qed
  qed
qed simp

lemma read_lines_append:
  "read_lines (xs @ ys) st = (let (e1, st1) = read_lines xs st; (e2, st2) = read_lines ys st1 in (e1 @ e2, st2))"
  by (induction xs arbitrary: st) (auto simp: Let_def split: prod.split)

lemma read_lines_buf: "read_lines xs (st\<lparr>ss_buf := b\<rparr>) = (fst (read_lines xs st), (snd (read_lines xs st))\<lparr>ss_buf := b\<rparr>)"
proof (induction xs arbitrary: st)
  case (Cons x xs)
  have "applyLine (strip_cr x) (st\<lparr>ss_buf := b\<rparr>) = (applyLine (strip_cr x) st)\<lparr>ss_buf := b\<rparr>" by (simp add: applyLine_def)
  moreover have "take_record (st\<lparr>ss_buf := b\<rparr>) = (fst (take_record st), (snd (take_record st))\<lparr>ss_buf := b\<rparr>)"
    by (simp add: take_record_def)
  ultimately show ?case using Cons by (simp add: Let_def case_prod_beta)
qed simp

lemma read_chunk_append:
  "read_chunk (a @ b) st = (let (e1, st1) = read_chunk a st; (e2, st2) = read_chunk b st1 in (e1 @ e2, st2))"
proof -
  let ?la = "split_on (CHR 0x0A) (ss_buf st @ a)"
  let ?lb = "split_on (CHR 0x0A) (last ?la @ b)"
  have l: "split_on (CHR 0x0A) (ss_buf st @ a @ b) = butlast ?la @ ?lb" using split_on_cut [of _ "ss_buf st @ a" b] by simp
  then show ?thesis
    by (simp add: read_chunk_def Let_def butlast_append read_lines_append read_lines_buf case_prod_beta)
qed

text \<open>Between chunks the buffer never holds a whole line.\<close>

definition cut :: "sse_state \<Rightarrow> bool" where
  "cut st \<longleftrightarrow> split_on (CHR 0x0A) (ss_buf st) = [ss_buf st]"

lemma cut_chunk: "cut (snd (read_chunk c st))"
proof -
  have "split_on c (last (split_on c s)) = [last (split_on c s)]" for c s
    by (induction s) (auto split: list.split if_splits)
  then show ?thesis by (simp add: cut_def read_chunk_def Let_def read_lines_buf)
qed

lemma cut_start: "cut sse_start"
  by (simp add: cut_def sse_start_def)

lemma cut_nothing: "cut st \<Longrightarrow> read_chunk [] st = ([], st)"
  by (simp add: cut_def read_chunk_def)

lemma read_chunks_one: "cut st \<Longrightarrow> read_chunks cs st = read_chunks [concat cs] st"
proof (induction cs arbitrary: st)
  case Nil
  then show ?case by (simp add: cut_nothing)
next
  case (Cons c cs)
  from Cons.IH [OF cut_chunk] show ?case by (simp add: read_chunk_append Let_def case_prod_beta)
qed

text \<open>
  The events decoded from a stream do not depend on where the network cuts it into chunks.
\<close>

theorem chunking_irrelevant: "parseSseStream chunks = parseSseStream [concat chunks]"
  using read_chunks_one [OF cut_start] by (simp add: parseSseStream_def)

section \<open>What is written is read\<close>

lemma join_split [simp]: "join_nl (split_on (CHR 0x0A) s) = s"
proof (induction s)
  case (Cons c s)
  obtain w ws where w: "split_on (CHR 0x0A) s = w # ws" by (cases "split_on (CHR 0x0A) s") auto
  with Cons show ?case by (cases ws) auto
qed simp

lemma split_on_parts: "l \<in> set (split_on c s) \<Longrightarrow> c \<notin> set l \<and> set l \<subseteq> set s"
proof (induction s arbitrary: l)
  case (Cons x s)
  obtain w ws where w: "split_on c s = w # ws" by (cases "split_on c s") auto
  with Cons.IH [of w] Cons.IH [of l] Cons.prems show ?case by (auto split: if_splits)
qed simp

text \<open>A frame as its lines, and the lines a stream of frames and comments consists of.\<close>

definition frame_lines :: "sse_frame \<Rightarrow> string list" where
  "frame_lines f =
     (case sf_id f of None \<Rightarrow> [] | Some i \<Rightarrow> [''id: '' @ i]) @
     (case sf_event f of None \<Rightarrow> [] | Some e \<Rightarrow> [''event: '' @ e]) @
     (case sf_retry f of None \<Rightarrow> [] | Some r \<Rightarrow> [''retry: '' @ int_str (max 0 \<lfloor>r\<rfloor>)]) @
     map (\<lambda>l. ''data: '' @ l) (split_on (CHR 0x0A) (sf_text f)) @ [[]]"

datatype sse_item = Frame sse_frame | Comment string

definition wire :: "sse_item \<Rightarrow> string" where
  "wire x = (case x of Frame f \<Rightarrow> formatSseFrame f | Comment t \<Rightarrow> formatSseComment t)"

definition item_lines :: "sse_item \<Rightarrow> string list" where
  "item_lines x = (case x of Frame f \<Rightarrow> frame_lines f | Comment t \<Rightarrow> ['': '' @ t, []])"

definition decoded :: "sse_item \<Rightarrow> sse_event list" where
  "decoded x = (case x of Frame f \<Rightarrow> [\<lparr>se_data = sf_text f, se_event = sf_event f, se_id = sf_id f\<rparr>] | Comment t \<Rightarrow> [])"

definition one_line :: "string \<Rightarrow> bool" where
  "one_line s \<longleftrightarrow> CHR 0x0A \<notin> set s \<and> CHR 0x0D \<notin> set s"

text \<open>
  What may be written: no line breaks in the fields, no carriage return in the payload (JSON text has neither),
  an event name without blanks at its ends.
\<close>

definition item_ok :: "sse_item \<Rightarrow> bool" where
  "item_ok x = (case x of
       Frame f \<Rightarrow> (\<forall>i. sf_id f = Some i \<longrightarrow> one_line i) \<and> (\<forall>e. sf_event f = Some e \<longrightarrow> one_line e \<and> trim e = e) \<and>
         CHR 0x0D \<notin> set (sf_text f)
     | Comment t \<Rightarrow> one_line t)"

abbreviation ended :: "string list \<Rightarrow> string" where
  "ended ls \<equiv> concat (map (\<lambda>l. l @ [CHR 0x0A]) ls)"

lemma wire_lines: "wire x = ended (item_lines x)"
  by (simp add: wire_def item_lines_def formatSseFrame_def formatSseComment_def frame_lines_def field_line_def [abs_def] comp_def
      split: sse_item.split option.split)

lemma split_ended: "\<forall>l \<in> set ls. CHR 0x0A \<notin> set l \<Longrightarrow> split_on (CHR 0x0A) (ended ls) = ls @ [[]]"
  by (induction ls) (simp_all add: split_on_append)

lemma one_line_number: "one_line (nat_str n)"
proof -
  have "c \<noteq> CHR 0x0A \<and> c \<noteq> CHR 0x0D" if "c \<in> set (nat_str n)" for c
  proof -
    from nat_str_digits [OF that] obtain d where d: "d < 10" "c = digit_char d" by blast
    show ?thesis unfolding d(2) by (intro conjI; rule digit_char_neq [OF d(1)]) simp_all
  qed
  then show ?thesis by (auto simp: one_line_def)
qed

lemma one_line_simps [simp]:
  "one_line []" "one_line (c # s) \<longleftrightarrow> c \<noteq> CHR 0x0A \<and> c \<noteq> CHR 0x0D \<and> one_line s"
  by (auto simp: one_line_def)

lemma one_line_parts: "l \<in> set (split_on (CHR 0x0A) s) \<Longrightarrow> CHR 0x0D \<notin> set s \<Longrightarrow> one_line l"
  using split_on_parts by (auto simp: one_line_def)

lemma one_line_lines: "item_ok x \<Longrightarrow> l \<in> set (item_lines x) \<Longrightarrow> one_line l"
  using one_line_number
  by (auto simp: item_ok_def item_lines_def frame_lines_def int_str_def one_line_parts split: sse_item.splits option.splits)

lemma strip_one_line: "one_line l \<Longrightarrow> strip_cr l = l"
  by (auto simp: one_line_def strip_cr_def) (metis last_in_set)

lemma read_plain:
  "\<forall>l \<in> set ls. one_line l \<and> l \<noteq> [] \<Longrightarrow> read_lines ls st = ([], fold applyLine ls st)"
  by (induction ls arbitrary: st) (auto simp: strip_one_line Let_def)

lemma trim_space: "trim (CHR '' '' # s) = trim s"
  by (simp add: trim_def is_space_def)

lemma apply_fields:
  "applyLine (''id: '' @ v) st = st\<lparr>ss_id := Some v\<rparr>"
  "trim v = v \<Longrightarrow> applyLine (''event: '' @ v) st = st\<lparr>ss_event := Some v\<rparr>"
  "applyLine (''retry: '' @ v) st = st"
  "applyLine ('': '' @ v) st = st"
  "applyLine (''data: '' @ v) st = st\<lparr>ss_data := ss_data st @ [v]\<rparr>"
  by (simp_all add: applyLine_def starts_with_def strip_space_def trim_space)

lemma apply_data: "fold applyLine (map (\<lambda>l. ''data: '' @ l) ls) st = st\<lparr>ss_data := ss_data st @ ls\<rparr>"
  using apply_fields(5) by (induction ls arbitrary: st) auto

definition clean :: "sse_state \<Rightarrow> bool" where
  "clean st \<longleftrightarrow> ss_data st = [] \<and> ss_event st = None \<and> ss_id st = None"

lemma read_item:
  assumes "item_ok x" "clean st"
  shows "read_lines (item_lines x) st = (decoded x, st)"
proof -
  obtain ls where ls: "item_lines x = ls @ [[]]" "\<forall>l \<in> set ls. l \<noteq> []"
    by (cases x) (auto simp: item_lines_def frame_lines_def split: option.split)
  have "read_lines ls st = ([], fold applyLine ls st)"
    by (rule read_plain) (use ls one_line_lines [OF assms(1)] in auto)
  moreover have "take_record (fold applyLine ls st) = (decoded x, st)"
  proof (cases x)
    case (Frame f)
    with ls(1) have "ls = butlast (frame_lines f)" by (simp add: item_lines_def)
    moreover obtain b where "st = \<lparr>ss_buf = b, ss_data = [], ss_event = None, ss_id = None\<rparr>"
      using assms(2) by (cases st) (simp add: clean_def)
    ultimately have "fold applyLine ls st = st\<lparr>ss_id := sf_id f, ss_event := sf_event f, ss_data := split_on (CHR 0x0A) (sf_text f)\<rparr>"
      using assms(1) Frame
      by (auto simp: frame_lines_def butlast_append apply_data [simplified] apply_fields [simplified] item_ok_def split: option.split)
    with assms(2) Frame show ?thesis by (simp add: take_record_def decoded_def clean_def)
  next
    case (Comment t)
    with ls(1) have "ls = ['': '' @ t]" by (simp add: item_lines_def)
    with assms(2) Comment show ?thesis by (simp add: apply_fields [simplified] take_record_def decoded_def clean_def)
  qed
  ultimately show ?thesis by (simp add: ls(1) read_lines_append strip_cr_def)
qed

lemma read_items: "\<forall>x \<in> set xs. item_ok x \<Longrightarrow> clean st \<Longrightarrow> read_lines (concat (map item_lines xs)) st = (concat (map decoded xs), st)"
  by (induction xs) (simp_all add: read_lines_append read_item)

lemma read_wire:
  assumes "\<forall>x \<in> set xs. item_ok x"
  shows "read_chunk (concat (map wire xs)) sse_start = (concat (map decoded xs), sse_start)"
proof -
  have w: "concat (map wire xs) = ended (concat (map item_lines xs))"
    by (induction xs) (simp_all add: wire_lines)
  have "\<forall>l \<in> set (concat (map item_lines xs)). CHR 0x0A \<notin> set l"
    using one_line_lines assms by (fastforce simp: one_line_def)
  then have "split_on (CHR 0x0A) (concat (map wire xs)) = concat (map item_lines xs) @ [[]]"
    unfolding w by (rule split_ended)
  then show ?thesis
    using read_items [OF assms, of "sse_start\<lparr>ss_buf := []\<rparr>"]
    by (simp add: read_chunk_def sse_start_def clean_def)
qed

text \<open>
  Claim C15: A stream of frames and keepalive comments is decoded to exactly the frames written, in order, however the
  network cuts the text.
\<close>

theorem sse_roundtrip:
  assumes "concat chunks = concat (map wire xs)" "\<forall>x \<in> set xs. item_ok x"
  shows "parseSseStream chunks = concat (map decoded xs)"
proof -
  from read_wire [OF assms(2)] have "read_chunk (concat chunks) sse_start = (concat (map decoded xs), sse_start)"
    by (simp only: assms(1))
  then show ?thesis
    unfolding chunking_irrelevant [of chunks] by (simp add: parseSseStream_def read_end_def take_record_def) (simp add: sse_start_def)
qed

definition demo_frames :: "sse_item list" where
  "demo_frames =
     [Comment ''keepalive'',
      Frame \<lparr>sf_id = Some ''7'', sf_event = Some ''message'', sf_text = ''a'' @ CHR 0x0A # ''b'', sf_retry = Some 250\<rparr>]"

lemma sse_roundtrip_witness:
  "parseSseStream [take 20 (concat (map wire demo_frames)), drop 20 (concat (map wire demo_frames))] =
   [\<lparr>se_data = ''a'' @ CHR 0x0A # ''b'', se_event = Some ''message'', se_id = Some ''7''\<rparr>]"
proof -
  have "concat [take 20 w, drop 20 w] = w" for w :: string by simp
  moreover have "\<forall>x \<in> set demo_frames. item_ok x" by (simp add: demo_frames_def item_ok_def trim_def is_space_def)
  ultimately have "parseSseStream [take 20 (concat (map wire demo_frames)), drop 20 (concat (map wire demo_frames))] =
      concat (map decoded demo_frames)" by (rule sse_roundtrip)
  moreover have "concat (map decoded demo_frames) =
      [\<lparr>se_data = ''a'' @ CHR 0x0A # ''b'', se_event = Some ''message'', se_id = Some ''7''\<rparr>]"
    by (simp add: demo_frames_def decoded_def)
  ultimately show ?thesis by (rule trans)
qed

section \<open>Divergences\<close>

text \<open>Lines that end in a carriage return alone are not told apart: two events become one.\<close>

lemma lone_cr_not_a_line_end:
  "length (parseSseStream [''data: a'' @ [CHR 0x0D, CHR 0x0D] @ ''data: b'' @ [CHR 0x0D, CHR 0x0D]]) = 1"
  by (simp add: parseSseStream_def read_chunk_def sse_start_def read_end_def strip_cr_def applyLine_def starts_with_def
      take_record_def)

text \<open>A record cut off in the middle of a line is delivered as if it were whole.\<close>

lemma cut_record_delivered: "map se_data (parseSseStream [''data: 12'']) = [''12'']"
  by (simp add: parseSseStream_def read_chunk_def sse_start_def read_end_def strip_cr_def applyLine_def starts_with_def
      take_record_def strip_space_def)

text \<open>A blank header counts as sequence 0, so the first event is skipped.\<close>

lemma blank_cursor_is_zero: "resolveResumeCursor (Some '' '') None None = 0"
  by (simp add: resolveResumeCursor_def finite_number_def js_number_def trim_def is_space_def)

end
