(* ===== verification/RunJournal.thy ===== *)
theory RunJournal
  imports KvStore ClientView
begin

text \<open>
  The journal of run events, \<^verbatim>\<open>packages/core/src/run-journal.ts\<close>: \<^verbatim>\<open>createKvRunJournal\<close> over the key-value
  slot of the runtime. Entries expire after the retention time and the oldest ones are pruned beyond a number
  per run. The stored JSON text of an envelope is the envelope. One reading of the clock serves an operation.
\<close>

section \<open>The slot with expiry and order\<close>

text \<open>
  What the journal relies on beyond \<open>kv_store\<close>: an entry written with a time to live is seen until that time
  has passed, entries only disappear with time, and a listing is in the order of the keys.
\<close>

locale expiring_kv = kv_store +
  assumes look_set_ttl: "kv_ok s \<Longrightarrow> 0 < t \<Longrightarrow>
      look now' (kv_set K now k v (Some t) s) = (look now' s)(k := if now' < now + t then Some v else None)"
    and look_earlier: "kv_ok s \<Longrightarrow> now \<le> now' \<Longrightarrow> look now' s k = Some v \<Longrightarrow> look now s k = Some v"
    and list_sorted: "kv_ok s \<Longrightarrow> sorted (keys_of (fst (kv_list K now p s)))"
begin

lemma list_unique:
  assumes "kv_ok s" "sorted (keys_of kvs)" "wf_map kvs" "\<And>k v. (k, v) \<in> set kvs \<longleftrightarrow> starts_with p k \<and> look now s k = Some v"
  shows "fst (kv_list K now p s) = kvs"
proof (rule map_sorted_distinct_set_unique [of fst])
  have e: "set (fst (kv_list K now p s)) = set kvs" using list_look [OF assms(1)] assms(4) by auto
  show "inj_on fst (set (fst (kv_list K now p s)) \<union> set kvs)" using e assms(3) by (simp add: distinct_map)
  show "distinct (map fst (fst (kv_list K now p s)))" by (rule list_keys [OF assms(1)])
  show "sorted (map fst (fst (kv_list K now p s)))" by (rule list_sorted [OF assms(1)])
  show "set (fst (kv_list K now p s)) = set kvs" by (rule e)
qed (use assms in auto)

end

interpretation slot: expiring_kv memory_kv wf_map mem_look mem_lasting
proof
  fix s :: "'v kv_map" and now now' t :: int and k p :: string and v :: 'v
  show "wf_map s \<Longrightarrow> 0 < t \<Longrightarrow>
      mem_look now' (kv_set memory_kv now k v (Some t) s) = (mem_look now' s)(k := if now' < now + t then Some v else None)"
    by (auto simp: memory_kv_def mem_set_def mem_look_def alive_def)
  show "now \<le> now' \<Longrightarrow> mem_look now' s k = Some v \<Longrightarrow> mem_look now s k = Some v"
    by (auto simp: mem_look_def dest: alive_later split: option.splits if_splits)
  show "sorted (keys_of (fst (kv_list memory_kv now p s)))"
    by (simp add: memory_kv_def mem_list_def Let_def)
qed

section \<open>Keys\<close>

record jr_opts =
  jr_ns :: string
  jr_retentionMs :: int
  jr_maxPerRun :: nat

definition journal_defaults :: jr_opts where
  "journal_defaults = \<lparr>jr_ns = ''run-journal'', jr_retentionMs = 24 * 60 * 60 * 1000, jr_maxPerRun = 2000\<rparr>"

definition pad :: "int \<Rightarrow> string" where
  "pad sq = (let s = int_str sq in replicate (10 - length s) (CHR ''0'') @ s)"

definition jr_prefix :: "jr_opts \<Rightarrow> string \<Rightarrow> string" where
  "jr_prefix o' r = jr_ns o' @ '':'' @ r @ '':''"

definition jr_key :: "jr_opts \<Rightarrow> string \<Rightarrow> int \<Rightarrow> string" where
  "jr_key o' r sq = jr_ns o' @ '':'' @ r @ '':'' @ pad sq"

section \<open>Operations\<close>

datatype journal_error =
    SequenceConflict string int int
  | CursorTooOld string int int

definition fold_min :: "envelope list \<Rightarrow> int" where
  "fold_min es = fold (\<lambda>e m. if env_sequence e < m then env_sequence e else m) es (2 ^ 53 - 1)"

definition minRetained :: "('s, envelope) kv_ops \<Rightarrow> jr_opts \<Rightarrow> int \<Rightarrow> string \<Rightarrow> 's \<Rightarrow> int \<times> 's" where
  "minRetained K o' now r s =
     (let (all, s1) = kv_list K now (jr_prefix o' r) s; m = fold_min (map snd all)
      in (if all = [] then - 1 else if m = 2 ^ 53 - 1 then - 1 else m, s1))"

definition journal_append ::
  "('s, envelope) kv_ops \<Rightarrow> jr_opts \<Rightarrow> int \<Rightarrow> envelope \<Rightarrow> int option \<Rightarrow> 's \<Rightarrow> (journal_error + int) \<times> 's" where
  "journal_append K o' now e expected s =
     (let r = env_runId e; sq = env_sequence e in
      if (case expected of None \<Rightarrow> False | Some x \<Rightarrow> sq \<noteq> x) then (Inl (SequenceConflict r (nullish expected 0) sq), s)
      else (let s1 = kv_set K now (jr_key o' r sq) e (Some (jr_retentionMs o')) s;
                (all, s2) = kv_list K now (jr_prefix o' r) s1
            in (Inr sq, fold (\<lambda>kv t. snd (kv_delete K (fst kv) t)) (take (length all - jr_maxPerRun o') all) s2)))"

text \<open>The loop of \<^verbatim>\<open>readAfter\<close>: the limit is tested after every entry.\<close>

fun collect :: "int \<Rightarrow> nat \<Rightarrow> envelope list \<Rightarrow> envelope list \<Rightarrow> envelope list" where
  "collect after limit out [] = out"
| "collect after limit out (e # es) =
     (let out' = (if env_sequence e > after then out @ [e] else out)
      in if limit \<le> length out' then out' else collect after limit out' es)"

definition journal_readAfter ::
  "('s, envelope) kv_ops \<Rightarrow> jr_opts \<Rightarrow> int \<Rightarrow> string \<Rightarrow> int \<Rightarrow> nat option \<Rightarrow> 's \<Rightarrow> (journal_error + envelope list) \<times> 's" where
  "journal_readAfter K o' now r after limit s =
     (let (all, s1) = kv_list K now (jr_prefix o' r) s;
          (m, s2) = (if 0 \<le> after \<and> all \<noteq> [] then minRetained K o' now r s1 else (- 1, s1))
      in if m > 0 \<and> after < m - 1 then (Inl (CursorTooOld r after m), s2)
         else (Inr (sort_key env_sequence (collect after (nullish limit 100) [] (map snd all))), s2))"

definition journal_purgeRun :: "('s, envelope) kv_ops \<Rightarrow> jr_opts \<Rightarrow> int \<Rightarrow> string \<Rightarrow> 's \<Rightarrow> 's" where
  "journal_purgeRun K o' now r s =
     (let (all, s1) = kv_list K now (jr_prefix o' r) s in fold (\<lambda>kv t. snd (kv_delete K (fst kv) t)) all s1)"

section \<open>The order of the keys\<close>

fun digs :: "nat \<Rightarrow> nat \<Rightarrow> string" where
  "digs 0 n = []"
| "digs (Suc k) n = digs k (n div 10) @ [digit_char (n mod 10)]"

lemma length_digs [simp]: "length (digs k n) = k"
  by (induction k arbitrary: n) auto

lemma digs_zero: "digs k 0 = replicate k (CHR ''0'')"
  proof (induction k)
  case (Suc k)
  have "char_of (of_char (CHR ''0'') :: nat) = CHR ''0''" by (rule char_of_char)
  then have "digit_char 0 = CHR ''0''" by (simp add: digit_char_def)
  with Suc show ?case by (simp add: replicate_append_same)
qed simp

lemma pad_digs: "n < 10 ^ Suc k \<Longrightarrow> length (nat_str n) \<le> Suc k \<and> replicate (Suc k - length (nat_str n)) (CHR ''0'') @ nat_str n = digs (Suc k) n"
proof (induction k arbitrary: n)
  case 0
  then show ?case by (simp add: nat_str.simps [of n])
next
  case (Suc k)
  show ?case
  proof (cases "n < 10")
    case True
    then show ?thesis by (simp add: nat_str.simps [of n] digs_zero replicate_append_same)
  next
    case False
    have "n div 10 < 10 ^ Suc k" using Suc.prems by (simp add: less_mult_imp_div_less mult.commute)
    with Suc.IH [of "n div 10"] False show ?thesis by (simp add: nat_str.simps [of n])
  qed
qed

lemma append_less: "length a = length b \<Longrightarrow> (a :: string) < b \<Longrightarrow> a @ x < b @ y"
  by (induction a b rule: list_induct2) auto

lemma prefix_less [simp]: "(p :: string) @ a < p @ b \<longleftrightarrow> a < b"
  by (induction p) auto

lemma digit_less: "m < n \<Longrightarrow> n < 10 \<Longrightarrow> digit_char m < digit_char n"
  by (simp add: digit_char_def less_char_def)

lemma digs_less: "m < n \<Longrightarrow> n < 10 ^ k \<Longrightarrow> digs k m < digs k n"
proof (induction k arbitrary: m n)
  case (Suc k)
  show ?case
  proof (cases "m div 10 < n div 10")
    case True
    have "n div 10 < 10 ^ k" using Suc.prems by (simp add: less_mult_imp_div_less mult.commute)
    from append_less [OF _ Suc.IH [OF True this]] show ?thesis by simp
  next
    case False
    then have "m div 10 = n div 10" using Suc.prems(1) by (meson div_le_mono nat_less_le order_less_imp_le)
    moreover from this have "m mod 10 < n mod 10" using Suc.prems(1) by (metis div_mult_mod_eq add_less_cancel_left)
    ultimately show ?thesis by (simp add: digit_less)
  qed
qed simp

lemma pad_is_digs:
  assumes "n < 10 ^ 10"
  shows "pad (int n) = digs 10 n"
proof -
  have ten: "Suc 9 = (10 :: nat)" by simp
  from pad_digs [of n 9] assms have "replicate (10 - length (nat_str n)) (CHR ''0'') @ nat_str n = digs 10 n"
    unfolding ten by simp
  then show ?thesis by (simp add: pad_def int_str_def Let_def)
qed

lemma pad_less: "m < n \<Longrightarrow> n < 10 ^ 10 \<Longrightarrow> pad (int m) < pad (int n)"
  using digs_less [of m n 10] pad_is_digs [of m] pad_is_digs [of n] by simp

lemma key_less: "m < n \<Longrightarrow> n < 10 ^ 10 \<Longrightarrow> jr_key o' r (int m) < jr_key o' r (int n)"
  by (simp add: jr_key_def pad_less)

lemma key_prefix: "starts_with (jr_prefix o' r) (jr_key o' r sq)"
  by (simp add: starts_with_iff jr_prefix_def jr_key_def)

lemma prefix_other:
  assumes "starts_with (jr_prefix o' r) (jr_key o' r' sq)" "CHR '':'' \<notin> set r" "CHR '':'' \<notin> set r'"
  shows "r = r'"
proof -
  from assms(1) obtain i where "r @ CHR '':'' # i = r' @ CHR '':'' # pad sq" by (auto simp: starts_with_iff jr_prefix_def jr_key_def)
  with append_sep_eq [OF assms(2,3)] show ?thesis by simp
qed

section \<open>The journal of one run\<close>

text \<open>
  The entries stored for a run of which the events \<open>es\<close>, numbered from 0, have been appended and those below
  \<open>lo\<close> are gone.
\<close>

definition numbered :: "envelope list \<Rightarrow> bool" where
  "numbered es \<longleftrightarrow> length es < 10 ^ 10 \<and> (\<forall>q < length es. env_sequence (es ! q) = int q)"

definition retained :: "jr_opts \<Rightarrow> string \<Rightarrow> nat \<Rightarrow> envelope list \<Rightarrow> (string \<times> envelope) list" where
  "retained o' r lo es = map (\<lambda>q. (jr_key o' r (int q), es ! q)) [lo..<length es]"

lemma key_inj: "m < 10 ^ 10 \<Longrightarrow> n < 10 ^ 10 \<Longrightarrow> jr_key o' r (int m) = jr_key o' r (int n) \<longleftrightarrow> m = n"
  using key_less [of m n o' r] key_less [of n m o' r] by (metis less_irrefl linorder_neqE_nat)

lemma retained_sorted: "length es < 10 ^ 10 \<Longrightarrow> sorted (keys_of (retained o' r lo es))"
proof -
  assume l: "length es < 10 ^ 10"
  have "sorted_wrt (\<lambda>m n. jr_key o' r (int m) \<le> jr_key o' r (int n)) [lo..<length es]"
    by (rule sorted_wrt_mono_rel [OF _ sorted_wrt_upt]) (use l key_less in \<open>force intro: order_less_imp_le\<close>)
  then show ?thesis by (simp add: retained_def comp_def sorted_wrt_map)
qed

lemma retained_keys: "length es < 10 ^ 10 \<Longrightarrow> wf_map (retained o' r lo es)"
  by (auto simp: retained_def comp_def distinct_map inj_on_def key_inj)

lemma snd_retained: "lo \<le> length es \<Longrightarrow> map snd (retained o' r lo es) = drop lo es"
  by (auto simp: retained_def comp_def intro: nth_equalityI)

lemma retained_iff:
  "(k, v) \<in> set (retained o' r lo es) \<longleftrightarrow> (\<exists>q. lo \<le> q \<and> q < length es \<and> k = jr_key o' r (int q) \<and> v = es ! q)"
  by (auto simp: retained_def)

lemma retained_prefix: "k \<in> set (keys_of (retained o' r lo es)) \<Longrightarrow> starts_with (jr_prefix o' r) k"
  by (auto simp: retained_def key_prefix)

lemma take_retained: "lo + d \<le> length es \<Longrightarrow>
   keys_of (take d (retained o' r lo es)) = map (\<lambda>q. jr_key o' r (int q)) [lo..<lo + d]"
  by (simp add: retained_def take_map comp_def take_upt)

text \<open>What is seen under the prefix of a run.\<close>

definition holds :: "(int \<Rightarrow> 's \<Rightarrow> string \<Rightarrow> envelope option) \<Rightarrow> jr_opts \<Rightarrow> string \<Rightarrow> 's \<Rightarrow> int \<Rightarrow> envelope list \<Rightarrow> nat \<Rightarrow> bool" where
  "holds look o' r s now es lo \<longleftrightarrow> lo \<le> length es \<and>
     (\<forall>k. starts_with (jr_prefix o' r) k \<longrightarrow> look now s k = map_of (retained o' r lo es) k)"

text \<open>
  So it is at all times from \<open>T\<close> on, the events having been appended at the times \<open>ts\<close>: an event is gone when its
  retention time has passed, and before that only if it was purged (those below \<open>base\<close>) or is not among the
  newest \<^verbatim>\<open>maxEnvelopesPerRun\<close>.
\<close>

definition low_ok :: "jr_opts \<Rightarrow> int list \<Rightarrow> nat \<Rightarrow> int \<Rightarrow> nat \<Rightarrow> bool" where
  "low_ok o' ts base now lo \<longleftrightarrow>
     (\<forall>q < length ts. (ts ! q + jr_retentionMs o' \<le> now \<longrightarrow> q < lo) \<and>
        (base \<le> q \<and> length ts - jr_maxPerRun o' \<le> q \<and> now < ts ! q + jr_retentionMs o' \<longrightarrow> lo \<le> q))"

definition tracks ::
  "(int \<Rightarrow> 's \<Rightarrow> string \<Rightarrow> envelope option) \<Rightarrow> jr_opts \<Rightarrow> string \<Rightarrow> 's \<Rightarrow> int \<Rightarrow> int list \<Rightarrow> envelope list \<Rightarrow> nat \<Rightarrow> bool" where
  "tracks look o' r s T ts es base \<longleftrightarrow> length ts = length es \<and> (\<forall>x \<in> set ts. x \<le> T) \<and>
     (\<forall>now \<ge> T. \<exists>lo. holds look o' r s now es lo \<and> low_ok o' ts base now lo)"

lemma numbered_nth: "numbered es \<Longrightarrow> q < length es \<Longrightarrow> env_sequence (es ! q) = int q"
  by (simp add: numbered_def)

lemma fold_min_above: "\<forall>e \<in> set es. m \<le> env_sequence e \<Longrightarrow> fold (\<lambda>e m. if env_sequence e < m then env_sequence e else m) es m = m"
  by (induction es) auto

lemma fold_min_drop:
  assumes "numbered es" "lo < length es"
  shows "fold_min (drop lo es) = int lo"
proof -
  have d: "drop lo es = es ! lo # drop (Suc lo) es" using assms(2) by (simp add: Cons_nth_drop_Suc)
  have "\<forall>e \<in> set (drop (Suc lo) es). int lo \<le> env_sequence e"
    using assms by (auto simp: in_set_conv_nth numbered_nth)
  moreover have "int lo < 2 ^ 53 - 1" using assms by (simp add: numbered_def)
  ultimately show ?thesis using fold_min_above [of "drop (Suc lo) es" "int lo"] numbered_nth [OF assms]
    by (simp add: fold_min_def d)
qed

lemma collect_take:
  "length out < limit \<Longrightarrow> collect after limit out es = take limit (out @ filter (\<lambda>e. env_sequence e > after) es)"
proof (induction es arbitrary: out)
  case (Cons e es)
  have "limit - length out = Suc (limit - Suc (length out))" using Cons.prems by simp
  moreover have "collect after limit (out @ [e]) es = take limit ((out @ [e]) @ filter (\<lambda>e. env_sequence e > after) es)"
    if "length (out @ [e]) < limit" by (rule Cons.IH [OF that])
  ultimately show ?case using Cons by (auto simp: Let_def not_le)
qed simp

lemma filter_numbered:
  assumes "numbered es" "lo \<le> length es"
  shows "filter (\<lambda>e. env_sequence e > after) (drop lo es) = drop (max lo (nat (after + 1))) es"
  using assms
proof (induction "length es - lo" arbitrary: lo)
  case (Suc n)
  then have lo: "lo < length es" by simp
  then have d: "drop lo es = es ! lo # drop (Suc lo) es" by (simp add: Cons_nth_drop_Suc)
  have "filter (\<lambda>e. env_sequence e > after) (drop (Suc lo) es) = drop (max (Suc lo) (nat (after + 1))) es"
    by (rule Suc.hyps) (use Suc lo in auto)
  moreover have "max (Suc lo) (nat (after + 1)) = max lo (nat (after + 1))" if "\<not> int lo > after" using that by linarith
  moreover have "drop (max lo (nat (after + 1))) es = es ! lo # drop (max (Suc lo) (nat (after + 1))) es" if "int lo > after"
  proof -
    have "max lo (nat (after + 1)) = lo" "max (Suc lo) (nat (after + 1)) = Suc lo" using that by linarith+
    with d show ?thesis by simp
  qed
  ultimately show ?case using numbered_nth [OF assms(1) lo] d by auto
qed simp

lemma sort_sorted: "sorted (map f xs) \<Longrightarrow> sort_key f xs = xs"
  by (induction xs) (simp_all add: insort_is_Cons)

lemma collect_drop:
  assumes "numbered es" "lo \<le> length es" "0 < limit"
  shows "sort_key env_sequence (collect after limit [] (drop lo es)) = take limit (drop (max lo (nat (after + 1))) es)"
proof -
  have "collect after limit [] (drop lo es) = take limit (drop (max lo (nat (after + 1))) es)"
    using collect_take [of "[]" limit after "drop lo es"] assms filter_numbered [OF assms(1,2)] by simp
  moreover have "sorted (map env_sequence (take limit (drop m es)))" for m
    using numbered_nth [OF assms(1)] by (auto simp: sorted_iff_nth_mono)
  ultimately show ?thesis by (simp add: sort_sorted)
qed

section \<open>Histories\<close>

datatype journal_op = JAppend envelope "int option" | JRead string int "nat option" | JPurge string

definition journal_step :: "('s, envelope) kv_ops \<Rightarrow> jr_opts \<Rightarrow> int \<times> journal_op \<Rightarrow> 's \<Rightarrow> 's" where
  "journal_step K o' tp s =
     (case snd tp of
        JAppend e x \<Rightarrow> snd (journal_append K o' (fst tp) e x s)
      | JRead r a l \<Rightarrow> snd (journal_readAfter K o' (fst tp) r a l s)
      | JPurge r \<Rightarrow> journal_purgeRun K o' (fst tp) r s)"

text \<open>The events appended to a run with their times, and how many of them had been when it was last purged.\<close>

fun log_step :: "string \<Rightarrow> int \<times> journal_op \<Rightarrow> (int \<times> envelope) list \<times> nat \<Rightarrow> (int \<times> envelope) list \<times> nat" where
  "log_step r (t, JAppend e x) (es, base) =
     (if env_runId e = r \<and> (x = None \<or> x = Some (env_sequence e)) then (es @ [(t, e)], base) else (es, base))"
| "log_step r (t, JPurge r') (es, base) = (if r' = r then (es, length es) else (es, base))"
| "log_step r (t, JRead r' a l) (es, base) = (es, base)"

definition journal_log :: "string \<Rightarrow> (int \<times> journal_op) list \<Rightarrow> (int \<times> envelope) list \<times> nat" where
  "journal_log r ops = fold (log_step r) ops ([], 0)"

definition op_run :: "journal_op \<Rightarrow> string" where
  "op_run op = (case op of JAppend e x \<Rightarrow> env_runId e | JRead r a l \<Rightarrow> r | JPurge r \<Rightarrow> r)"

lemma log_step_grows: "\<exists>xs. fst (log_step r op l) = fst l @ xs"
proof -
  have "\<exists>xs. fst (log_step r (t, o') (es, b)) = es @ xs" for t o' es b by (cases o') simp_all
  then show ?thesis by (metis fst_conv surj_pair)
qed

lemma journal_log_snoc: "journal_log r (ops @ [op]) = log_step r op (journal_log r ops)"
  by (simp add: journal_log_def)

lemma numbered_prefix: "numbered (xs @ ys) \<Longrightarrow> numbered xs"
  unfolding numbered_def by (auto simp: nth_append) (metis less_add_Suc1 add.commute trans_less_add1)

lemma base_bound: "snd (journal_log r ops) \<le> length (fst (journal_log r ops))"
proof (induction ops rule: rev_induct)
  case (snoc op ops)
  obtain t o' where op: "op = (t, o')" by force
  obtain es b where l: "journal_log r ops = (es, b)" by force
  show ?case using snoc by (cases o') (auto simp: journal_log_snoc op l)
qed (simp add: journal_log_def)

section \<open>The contract\<close>

locale journal_slot = expiring_kv K kv_ok look lasting
  for K :: "('s, envelope) kv_ops" and kv_ok and look and lasting +
  fixes opts :: jr_opts
  assumes retention: "0 < jr_retentionMs opts"
begin

lemma list_holds:
  assumes "kv_ok s" "holds look opts r s now es lo" "numbered es"
  shows "fst (kv_list K now (jr_prefix opts r) s) = retained opts r lo es"
proof (rule list_unique [OF assms(1)])
  have l: "length es < 10 ^ 10" using assms(3) by (simp add: numbered_def)
  show "sorted (keys_of (retained opts r lo es))" by (rule retained_sorted [OF l])
  show w: "wf_map (retained opts r lo es)" by (rule retained_keys [OF l])
  fix k v
  have "(k, v) \<in> set (retained opts r lo es) \<longleftrightarrow> map_of (retained opts r lo es) k = Some v" using w by simp
  moreover have "(k, v) \<in> set (retained opts r lo es) \<Longrightarrow> starts_with (jr_prefix opts r) k"
    by (auto simp: retained_iff key_prefix)
  moreover have "starts_with (jr_prefix opts r) k \<Longrightarrow> look now s k = map_of (retained opts r lo es) k"
    using assms(2) by (simp add: holds_def)
  ultimately show "(k, v) \<in> set (retained opts r lo es) \<longleftrightarrow> starts_with (jr_prefix opts r) k \<and> look now s k = Some v"
    by metis
qed

lemma tracksD:
  assumes "tracks look opts r s T ts es base" "T \<le> now"
  obtains lo where "holds look opts r s now es lo" "low_ok opts ts base now lo"
  using assms by (auto simp: tracks_def)

lemma tracks_mono: "tracks look opts r s T ts es base \<Longrightarrow> T \<le> U \<Longrightarrow> tracks look opts r s U ts es base"
  by (fastforce simp: tracks_def)

text \<open>A change that is not seen under the prefix of the run leaves it as it was.\<close>

lemma tracks_same:
  assumes "tracks look opts r s T ts es base" "T \<le> U"
    "\<And>now k. U \<le> now \<Longrightarrow> starts_with (jr_prefix opts r) k \<Longrightarrow> look now s' k = look now s k"
  shows "tracks look opts r s' U ts es base"
  using tracks_mono [OF assms(1,2)] assms(3) unfolding tracks_def holds_def by metis

lemma ok_deletes: "kv_ok s \<Longrightarrow> kv_ok (fold (\<lambda>kv t. snd (kv_delete K (fst kv) t)) kvs s)"
  by (induction kvs arbitrary: s) (simp_all add: ok_delete)

lemma look_deletes:
  "kv_ok s \<Longrightarrow> look now (fold (\<lambda>kv t. snd (kv_delete K (fst kv) t)) kvs s) k =
   (if k \<in> set (keys_of kvs) then None else look now s k)"
  by (induction kvs arbitrary: s) (auto simp: ok_delete look_delete)

lemma later_low:
  assumes "kv_ok s" "numbered es" "holds look opts r s t es lo" "holds look opts r s now es l" "t \<le> now"
  shows "lo \<le> l"
proof (cases "l < length es")
  case True
  have w: "wf_map (retained opts r m es)" for m using assms(2) by (simp add: numbered_def retained_keys)
  have "map_of (retained opts r l es) (jr_key opts r (int l)) = Some (es ! l)"
    using True w [of l] by (auto simp: retained_iff)
  then have "look now s (jr_key opts r (int l)) = Some (es ! l)" using assms(4) key_prefix by (simp add: holds_def)
  from look_earlier [OF assms(1,5) this] have "map_of (retained opts r lo es) (jr_key opts r (int l)) = Some (es ! l)"
    using assms(3) key_prefix by (simp add: holds_def)
  then obtain q where "lo \<le> q" "q < length es" "jr_key opts r (int l) = jr_key opts r (int q)"
    using w [of lo] by (auto simp: retained_iff)
  then show ?thesis using key_inj [of l q opts r] True assms(2) by (simp add: numbered_def)
next
  case False
  with assms(3) show ?thesis by (simp add: holds_def)
qed

lemma tracks_prune:
  assumes "kv_ok s" "numbered es" "tracks look opts r s T ts es base" "T \<le> t" "holds look opts r s t es lo" "lo + d \<le> length es"
    "base \<le> base'" "\<And>q. d \<noteq> 0 \<Longrightarrow> base' \<le> q \<Longrightarrow> length es - jr_maxPerRun opts \<le> q \<Longrightarrow> q < length es \<Longrightarrow> lo + d \<le> q"
  shows "tracks look opts r (fold (\<lambda>kv u. snd (kv_delete K (fst kv) u)) (take d (retained opts r lo es)) s) t ts es base'"
proof -
  let ?s = "fold (\<lambda>kv u. snd (kv_delete K (fst kv) u)) (take d (retained opts r lo es)) s"
  have gone: "k \<in> set (keys_of (take d (retained opts r lo es))) \<longleftrightarrow> (\<exists>q. lo \<le> q \<and> q < lo + d \<and> k = jr_key opts r (int q))" for k
    unfolding take_retained [OF assms(6)] by auto
  have "holds look opts r ?s now es (max l (lo + d))" if h: "holds look opts r s now es l" "t \<le> now" for now l
  proof -
    have lo: "lo \<le> l" by (rule later_low [OF assms(1,2,5) h])
    have w: "wf_map (retained opts r m es)" for m using assms(2) by (simp add: numbered_def retained_keys)
    have n: "q < 10 ^ 10" if "q < length es" for q using that assms(2) by (simp add: numbered_def)
    have "look now ?s k = map_of (retained opts r (max l (lo + d)) es) k" if k: "starts_with (jr_prefix opts r) k" for k
    proof -
      have "look now ?s k = Some v \<longleftrightarrow> map_of (retained opts r (max l (lo + d)) es) k = Some v" for v
      proof -
        have "look now ?s k = Some v \<longleftrightarrow> \<not> (\<exists>q. lo \<le> q \<and> q < lo + d \<and> k = jr_key opts r (int q)) \<and>
            (\<exists>q. l \<le> q \<and> q < length es \<and> k = jr_key opts r (int q) \<and> v = es ! q)"
          unfolding look_deletes [OF assms(1)] gone using h(1) k w [of l] by (auto simp: holds_def retained_iff)
        also have "\<dots> \<longleftrightarrow> (\<exists>q. max l (lo + d) \<le> q \<and> q < length es \<and> k = jr_key opts r (int q) \<and> v = es ! q)"
        proof (intro iffI conjI; (elim exE conjE)?)
          fix q assume q: "l \<le> q" "q < length es" "k = jr_key opts r (int q)" "v = es ! q"
            and no: "\<not> (\<exists>q. lo \<le> q \<and> q < lo + d \<and> k = jr_key opts r (int q))"
          then have "lo + d \<le> q" using lo by (metis le_trans not_le)
          with q show "\<exists>q. max l (lo + d) \<le> q \<and> q < length es \<and> k = jr_key opts r (int q) \<and> v = es ! q" by auto
        next
          fix q assume q: "max l (lo + d) \<le> q" "q < length es" "k = jr_key opts r (int q)" "v = es ! q"
          show "\<not> (\<exists>q. lo \<le> q \<and> q < lo + d \<and> k = jr_key opts r (int q))"
          proof
            assume "\<exists>p. lo \<le> p \<and> p < lo + d \<and> k = jr_key opts r (int p)"
            then obtain p where p: "p < lo + d" "k = jr_key opts r (int p)" by blast
            then have "p < length es" using assms(6) by simp
            from key_inj [OF n [OF q(2)] n [OF this], of opts r] p q show False by simp
          qed
        qed auto
        also have "\<dots> \<longleftrightarrow> map_of (retained opts r (max l (lo + d)) es) k = Some v"
          using w by (simp add: retained_iff)
        finally show ?thesis .
      qed
      then show ?thesis by (metis not_Some_eq)
    qed
    with h(1) assms(6) show ?thesis by (simp add: holds_def)
  qed
  note cut = this
  show ?thesis unfolding tracks_def
  proof (intro conjI allI impI)
    show "length ts = length es" "\<forall>x \<in> set ts. x \<le> t" using assms(3,4) by (fastforce simp: tracks_def)+
    fix now assume now: "t \<le> now"
    with assms(4) obtain l where l: "holds look opts r s now es l" "low_ok opts ts base now l"
      using tracksD [OF assms(3), of now] by force
    have "lo \<le> l" by (rule later_low [OF assms(1,2,5) l(1) now])
    with l(2) assms(3,7,8) have "low_ok opts ts base' now (max l (lo + d))"
      by (cases "d = 0") (fastforce simp: low_ok_def tracks_def max_def)+
    with cut [OF l(1) now] show "\<exists>l. holds look opts r ?s now es l \<and> low_ok opts ts base' now l" by blast
  qed
qed

lemma tracks_appended:
  assumes "kv_ok s" "tracks look opts r s T ts es base" "T \<le> t" "numbered (es @ [e])"
  shows "tracks look opts r (kv_set K t (jr_key opts r (int (length es))) e (Some (jr_retentionMs opts)) s) t (ts @ [t]) (es @ [e]) base"
proof -
  let ?k = "jr_key opts r (int (length es))" and ?s = "kv_set K t (jr_key opts r (int (length es))) e (Some (jr_retentionMs opts)) s"
  have new: "retained opts r l (es @ [e]) = retained opts r l es @ [(?k, e)]" if "l \<le> length es" for l
    using that by (auto simp: retained_def nth_append)
  have fresh: "map_of (retained opts r l es) ?k = None" for l
    unfolding map_of_eq_None_keys
  proof
    assume "?k \<in> set (keys_of (retained opts r l es))"
    then obtain q where q: "q < length es" "?k = jr_key opts r (int q)" by (auto simp: retained_def)
    moreover have "length es < 10 ^ 10" using assms(4) by (simp add: numbered_def)
    ultimately show False using key_inj [of "length es" q opts r] by simp
  qed
  have len: "length ts = length es" using assms(2) by (simp add: tracks_def)
  have "\<exists>l. holds look opts r ?s now (es @ [e]) l \<and> low_ok opts (ts @ [t]) base now l" if now: "t \<le> now" for now
  proof -
    from assms(3) now obtain l where l: "holds look opts r s now es l" "low_ok opts ts base now l"
      using tracksD [OF assms(2), of now] by force
    show ?thesis
    proof (cases "now < t + jr_retentionMs opts")
      case True
      have "holds look opts r ?s now (es @ [e]) l"
        using l(1) True new [of l] fresh [of l] look_set_ttl [OF assms(1) retention, of now t ?k e]
        by (auto simp: holds_def map_add_def split: option.split)
      moreover have "low_ok opts (ts @ [t]) base now l"
        using l True len by (auto simp: low_ok_def holds_def nth_append less_Suc_eq)
      ultimately show ?thesis by blast
    next
      case False
      have old: "ts ! q + jr_retentionMs opts \<le> now" if "q < length ts" for q
        proof -
        have "ts ! q \<le> T" using assms(2) nth_mem [OF that] by (simp add: tracks_def)
        with assms(3) False show ?thesis by simp
      qed
      have "l = length es"
      proof (cases "length es = 0")
        case True
        with l(1) show ?thesis by (simp add: holds_def)
      next
        case False
        then have "length es - 1 < length ts" using len by simp
        with l(2) old have "length es - 1 < l" unfolding low_ok_def by blast
        moreover have "l \<le> length es" using l(1) by (simp add: holds_def)
        ultimately show ?thesis using \<open>length es - 1 < length ts\<close> len by linarith
      qed
      with l(1) have "look now s k = None" if "starts_with (jr_prefix opts r) k" for k
        using that by (simp add: holds_def retained_def)
      with False have "holds look opts r ?s now (es @ [e]) (length (es @ [e]))"
        using look_set_ttl [OF assms(1) retention, of now t ?k e] by (simp add: holds_def retained_def)
      moreover have "low_ok opts (ts @ [t]) base now (length (es @ [e]))"
        using False len old by (force simp: low_ok_def nth_append less_Suc_eq)
      ultimately show ?thesis by blast
    qed
  qed
  with assms(2,3) show ?thesis by (fastforce simp: tracks_def)
qed

lemma append_own:
  assumes "kv_ok s" "tracks look opts r s T ts es base" "T \<le> t" "numbered (es @ [e])" "env_runId e = r"
    "expected = None \<or> expected = Some (env_sequence e)"
  shows "\<exists>s'. journal_append K opts t e expected s = (Inr (int (length es)), s') \<and> kv_ok s' \<and>
    tracks look opts r s' t (ts @ [t]) (es @ [e]) base"
proof -
  have sq: "env_sequence e = int (length es)" using assms(4) by (force simp: numbered_def)
  let ?s1 = "kv_set K t (jr_key opts r (int (length es))) e (Some (jr_retentionMs opts)) s"
  have ok1: "kv_ok ?s1" by (rule ok_set [OF assms(1)])
  note t1 = tracks_appended [OF assms(1-4)]
  then obtain lo where lo: "holds look opts r ?s1 t (es @ [e]) lo" by (auto simp: tracks_def)
  obtain all s2 where l: "kv_list K t (jr_prefix opts r) ?s1 = (all, s2)" by force
  have all: "all = retained opts r lo (es @ [e])" using list_holds [OF ok1 lo assms(4)] l by simp
  have s2: "kv_ok s2" using ok_list [OF ok1, of t "jr_prefix opts r"] l by simp
  have same: "look now s2 = look now ?s1" if "t \<le> now" for now using look_list [OF ok1 that, of "jr_prefix opts r"] l by simp
  have t2: "tracks look opts r s2 t (ts @ [t]) (es @ [e]) base" by (rule tracks_same [OF t1 order_refl]) (simp add: same)
  have lo2: "holds look opts r s2 t (es @ [e]) lo" using lo same [of t] by (simp add: holds_def)
  have len: "length all = length (es @ [e]) - lo" by (simp add: all retained_def del: upt_Suc)
  let ?d = "length all - jr_maxPerRun opts"
  have "lo \<le> length (es @ [e])" using lo by (simp add: holds_def)
  then have d: "lo + ?d \<le> length (es @ [e])" "\<And>q. ?d \<noteq> 0 \<Longrightarrow> length (es @ [e]) - jr_maxPerRun opts \<le> q \<Longrightarrow> lo + ?d \<le> q"
    using len by linarith+
  then have "tracks look opts r (fold (\<lambda>kv u. snd (kv_delete K (fst kv) u)) (take ?d (retained opts r lo (es @ [e]))) s2) t (ts @ [t]) (es @ [e]) base"
    by (intro tracks_prune [OF s2 assms(4) t2 order_refl lo2 _ order_refl]) blast+
  note this [folded all]
  with l assms(5,6) sq show ?thesis by (auto simp: journal_append_def Let_def ok_deletes [OF s2])
qed

text \<open>Other runs are out of reach, as long as no run id holds a colon.\<close>

lemma prefixes_apart:
  assumes "CHR '':'' \<notin> set r" "CHR '':'' \<notin> set r'" "r \<noteq> r'"
  shows "\<not> (starts_with (jr_prefix opts r) k \<and> starts_with (jr_prefix opts r') k)"
proof
  assume "starts_with (jr_prefix opts r) k \<and> starts_with (jr_prefix opts r') k"
  then obtain i j where "r @ CHR '':'' # i = r' @ CHR '':'' # j" by (auto simp: starts_with_iff jr_prefix_def)
  with append_sep_eq [OF assms(1,2)] assms(3) show False by simp
qed

lemma list_delete_other:
  assumes "kv_ok s" "tracks look opts r s T ts es base" "T \<le> t" "CHR '':'' \<notin> set r" "CHR '':'' \<notin> set r'" "r' \<noteq> r"
  shows "tracks look opts r (fold (\<lambda>kv u. snd (kv_delete K (fst kv) u)) (take d (fst (kv_list K t (jr_prefix opts r') s)))
    (snd (kv_list K t (jr_prefix opts r') s))) t ts es base"
proof (rule tracks_same [OF assms(2,3)])
  fix now k assume h: "t \<le> now" "starts_with (jr_prefix opts r) k"
  have "k \<notin> set (keys_of (take d (fst (kv_list K t (jr_prefix opts r') s))))"
  proof
    assume "k \<in> set (keys_of (take d (fst (kv_list K t (jr_prefix opts r') s))))"
    then have "starts_with (jr_prefix opts r') k" using list_look [OF assms(1), of t "jr_prefix opts r'"] by (auto dest: in_set_takeD)
    with h(2) prefixes_apart [OF assms(4,5)] assms(6) show False by metis
  qed
  then show "look now (fold (\<lambda>kv u. snd (kv_delete K (fst kv) u)) (take d (fst (kv_list K t (jr_prefix opts r') s)))
      (snd (kv_list K t (jr_prefix opts r') s))) k = look now s k"
    by (simp add: look_deletes [OF ok_list [OF assms(1)]] look_list [OF assms(1) h(1)])
qed

lemma append_other:
  assumes "kv_ok s" "tracks look opts r s T ts es base" "T \<le> t" "CHR '':'' \<notin> set r" "CHR '':'' \<notin> set (env_runId e)" "env_runId e \<noteq> r"
  shows "kv_ok (snd (journal_append K opts t e expected s)) \<and> tracks look opts r (snd (journal_append K opts t e expected s)) t ts es base"
proof -
  let ?s1 = "kv_set K t (jr_key opts (env_runId e) (env_sequence e)) e (Some (jr_retentionMs opts)) s"
  have ok1: "kv_ok ?s1" by (rule ok_set [OF assms(1)])
  have "jr_key opts (env_runId e) (env_sequence e) \<noteq> k" if "starts_with (jr_prefix opts r) k" for k
    using prefixes_apart [OF assms(4,5)] assms(6) that key_prefix by metis
  then have t1: "tracks look opts r ?s1 t ts es base"
    using look_set_ttl [OF assms(1) retention] by (intro tracks_same [OF assms(2,3)]) (metis fun_upd_other)
  note list_delete_other [OF ok1 t1 order_refl assms(4,5,6)] tracks_mono [OF assms(2,3)]
  then show ?thesis using assms(1)
    by (simp add: journal_append_def Let_def case_prod_beta ok_deletes [OF ok_list [OF ok1]] split: option.split)
qed

lemma purge_own:
  assumes "kv_ok s" "tracks look opts r s T ts es base" "T \<le> t" "numbered es" "base \<le> length es"
  shows "kv_ok (journal_purgeRun K opts t r s) \<and> tracks look opts r (journal_purgeRun K opts t r s) t ts es (length es)"
proof -
  from tracksD [OF assms(2,3)] obtain lo where lo: "holds look opts r s t es lo" by blast
  obtain all s1 where l: "kv_list K t (jr_prefix opts r) s = (all, s1)" by force
  have all: "all = take (length es - lo) (retained opts r lo es)"
    using list_holds [OF assms(1) lo assms(4)] l by (simp add: retained_def)
  have s1: "kv_ok s1" using ok_list [OF assms(1), of t "jr_prefix opts r"] l by simp
  have same: "look now s1 = look now s" if "t \<le> now" for now using look_list [OF assms(1) that, of "jr_prefix opts r"] l by simp
  have t1: "tracks look opts r s1 t ts es base" by (rule tracks_same [OF assms(2,3)]) (simp add: same)
  have lo1: "holds look opts r s1 t es lo" using lo same [of t] by (simp add: holds_def)
  have "lo \<le> length es" using lo by (simp add: holds_def)
  then have "tracks look opts r (fold (\<lambda>kv u. snd (kv_delete K (fst kv) u)) (take (length es - lo) (retained opts r lo es)) s1) t ts es (length es)"
    by (intro tracks_prune [OF s1 assms(4) t1 order_refl lo1 _ assms(5)]) auto
  then have "tracks look opts r (fold (\<lambda>kv u. snd (kv_delete K (fst kv) u)) all s1) t ts es (length es)" by (simp only: all)
  with l show ?thesis by (simp add: journal_purgeRun_def ok_deletes [OF s1])
qed

lemma purge_other:
  assumes "kv_ok s" "tracks look opts r s T ts es base" "T \<le> t" "CHR '':'' \<notin> set r" "CHR '':'' \<notin> set r'" "r' \<noteq> r"
  shows "kv_ok (journal_purgeRun K opts t r' s) \<and> tracks look opts r (journal_purgeRun K opts t r' s) t ts es base"
  using list_delete_other [OF assms, of "length (fst (kv_list K t (jr_prefix opts r') s))"]
  by (simp add: journal_purgeRun_def case_prod_beta ok_deletes [OF ok_list [OF assms(1)]])

lemma ok_minRetained: "kv_ok s \<Longrightarrow> kv_ok (snd (minRetained K opts t r s))"
  by (simp add: minRetained_def case_prod_beta Let_def ok_list)

lemma look_minRetained: "kv_ok s \<Longrightarrow> t \<le> now \<Longrightarrow> look now (snd (minRetained K opts t r s)) = look now s"
  by (simp add: minRetained_def case_prod_beta Let_def look_list)

lemma read_keeps:
  assumes "kv_ok s" "tracks look opts r s T ts es base" "T \<le> t"
  shows "kv_ok (snd (journal_readAfter K opts t r' after limit s)) \<and>
    tracks look opts r (snd (journal_readAfter K opts t r' after limit s)) t ts es base"
proof -
  have s: "snd (journal_readAfter K opts t r' after limit s) = snd (kv_list K t (jr_prefix opts r') s) \<or>
      snd (journal_readAfter K opts t r' after limit s) = snd (minRetained K opts t r' (snd (kv_list K t (jr_prefix opts r') s)))"
    by (auto simp: journal_readAfter_def case_prod_beta Let_def)
  then show ?thesis
  proof
    assume "snd (journal_readAfter K opts t r' after limit s) = snd (kv_list K t (jr_prefix opts r') s)"
    then show ?thesis using tracks_same [OF assms(2,3)] by (simp add: ok_list [OF assms(1)] look_list [OF assms(1)])
  next
    assume "snd (journal_readAfter K opts t r' after limit s) = snd (minRetained K opts t r' (snd (kv_list K t (jr_prefix opts r') s)))"
    then show ?thesis using tracks_same [OF assms(2,3)]
      by (simp add: ok_minRetained [OF ok_list [OF assms(1)]] look_minRetained [OF ok_list [OF assms(1)]] look_list [OF assms(1)])
  qed
qed

lemma read_tracked:
  assumes "kv_ok s" "holds look opts r s t es lo" "numbered es" "0 < nullish limit 100"
  shows "fst (journal_readAfter K opts t r after limit s) =
    (if 0 \<le> after \<and> lo < length es \<and> after + 1 < int lo then Inl (CursorTooOld r after (int lo))
     else Inr (take (nullish limit 100) (drop (max lo (nat (after + 1))) es)))"
proof -
  have l1: "fst (kv_list K t (jr_prefix opts r) s) = retained opts r lo es" by (rule list_holds [OF assms(1-3)])
  have "holds look opts r (snd (kv_list K t (jr_prefix opts r) s)) t es lo"
    using assms(2) by (simp add: holds_def look_list [OF assms(1)])
  from list_holds [OF ok_list [OF assms(1)] this assms(3)]
  have l2: "fst (kv_list K t (jr_prefix opts r) (snd (kv_list K t (jr_prefix opts r) s))) = retained opts r lo es" .
  have lo: "lo \<le> length es" using assms(2) by (simp add: holds_def)
  have e: "retained opts r lo es = [] \<longleftrightarrow> \<not> lo < length es" by (auto simp: retained_def)
  have m: "fold_min (drop lo es) = int lo" if "lo < length es" using fold_min_drop [OF assms(3) that] .
  have big: "int lo \<noteq> 2 ^ 53 - 1" using lo assms(3) by (auto simp: numbered_def)
  show ?thesis
    using collect_drop [OF assms(3) lo assms(4), of after] big
    by (auto simp: journal_readAfter_def minRetained_def Let_def case_prod_beta l1 l2 e m snd_retained [OF lo])
qed

lemma step_tracked:
  assumes "kv_ok s" "tracks look opts r s T (map fst es) (map snd es) base" "base \<le> length es" "T \<le> t" "CHR '':'' \<notin> set r"
    "CHR '':'' \<notin> set (op_run op)" "log_step r (t, op) (es, base) = (es', base')" "numbered (map snd es')"
  shows "kv_ok (journal_step K opts (t, op) s) \<and>
    tracks look opts r (journal_step K opts (t, op) s) t (map fst es') (map snd es') base'"
proof (cases op)
  case (JAppend e x)
  show ?thesis
  proof (cases "env_runId e = r")
    case own: True
    show ?thesis
    proof (cases "x = None \<or> x = Some (env_sequence e)")
      case True
      with own JAppend assms(7) have es': "es' = es @ [(t, e)]" "base' = base" by auto
      with append_own [OF assms(1,2,4) _ own True] assms(8) show ?thesis
        by (auto simp: JAppend journal_step_def)
    next
      case False
      with own JAppend assms(1,7) tracks_mono [OF assms(2,4)] show ?thesis
        by (auto simp: journal_step_def journal_append_def Let_def split: option.split)
    qed
  next
    case False
    with append_other [OF assms(1,2,4,5), of e x] assms(6,7) JAppend show ?thesis
      by (auto simp: journal_step_def op_run_def)
  qed
next
  case (JRead r' a l)
  with read_keeps [OF assms(1,2,4), of r' a l] assms(7) show ?thesis by (simp add: journal_step_def)
next
  case (JPurge r')
  show ?thesis
  proof (cases "r' = r")
    case True
    with JPurge assms(7) have "es' = es" "base' = length es" by auto
    with purge_own [OF assms(1,2,4)] assms(3,8) True JPurge show ?thesis by (simp add: journal_step_def)
  next
    case False
    with purge_other [OF assms(1,2,4,5), of r'] assms(6,7) JPurge show ?thesis by (auto simp: journal_step_def op_run_def)
  qed
qed

lemma history_tracked:
  assumes "kv_ok s0" "\<And>now k. look now s0 k = None" "sorted (map fst ops)" "\<forall>op \<in> snd ` set ops. CHR '':'' \<notin> set (op_run op)"
    "CHR '':'' \<notin> set r" "numbered (map snd (fst (journal_log r ops)))" "\<forall>t' \<in> fst ` set ops. t' \<le> t"
  shows "kv_ok (fold (journal_step K opts) ops s0) \<and>
    tracks look opts r (fold (journal_step K opts) ops s0) t (map fst (fst (journal_log r ops))) (map snd (fst (journal_log r ops)))
      (snd (journal_log r ops))"
  using assms(3,4,6,7)
proof (induction ops arbitrary: t rule: rev_induct)
  case Nil
  then show ?case using assms(1,2) by (simp add: journal_log_def tracks_def holds_def retained_def low_ok_def)
next
  case (snoc op ops)
  obtain u o' where op: "op = (u, o')" by force
  obtain es b where l: "journal_log r ops = (es, b)" by force
  obtain es' b' where l': "log_step r (u, o') (es, b) = (es', b')" by force
  obtain xs where "es' = es @ xs" using log_step_grows [of r "(u, o')" "(es, b)"] l' by auto
  then have "numbered (map snd es)" using snoc.prems(3) numbered_prefix by (auto simp: journal_log_snoc op l l')
  with snoc.IH [of u] snoc.prems(1,2) have ih: "kv_ok (fold (journal_step K opts) ops s0)"
      "tracks look opts r (fold (journal_step K opts) ops s0) u (map fst es) (map snd es) b"
    by (auto simp: op l sorted_append)
  have "b \<le> length es" using base_bound [of r ops] l by simp
  from step_tracked [OF ih this order_refl assms(5) _ l'] snoc.prems(2,3)
  have s: "kv_ok (journal_step K opts (u, o') (fold (journal_step K opts) ops s0))"
      "tracks look opts r (journal_step K opts (u, o') (fold (journal_step K opts) ops s0)) u (map fst es') (map snd es') b'"
    by (auto simp: journal_log_snoc op l l')
  have "u \<le> t" using snoc.prems(4) op by auto
  from s(1) tracks_mono [OF s(2) this] show ?case by (simp add: journal_log_snoc op l l')
qed

lemma resume:
  assumes "kv_ok s0" "\<And>now k. look now s0 k = None" "sorted (map fst ops)" "\<forall>op \<in> snd ` set ops. CHR '':'' \<notin> set (op_run op)"
    "CHR '':'' \<notin> set r" "journal_log r ops = (log', base)" "numbered (map snd log')" "\<forall>t' \<in> fst ` set ops. t' \<le> t"
    "0 < nullish limit 100"
  shows "\<exists>lo \<le> length log'. low_ok opts (map fst log') base t lo \<and>
    fst (journal_readAfter K opts t r after limit (fold (journal_step K opts) ops s0)) =
      (if 0 \<le> after \<and> lo < length log' \<and> after + 1 < int lo then Inl (CursorTooOld r after (int lo))
       else Inr (take (nullish limit 100) (drop (max lo (nat (after + 1))) (map snd log'))))"
proof -
  from history_tracked [OF assms(1-5) _ assms(8)] assms(6,7)
  have h: "kv_ok (fold (journal_step K opts) ops s0)"
      "tracks look opts r (fold (journal_step K opts) ops s0) t (map fst log') (map snd log') base" by simp_all
  from tracksD [OF h(2) order_refl] obtain lo where lo: "holds look opts r (fold (journal_step K opts) ops s0) t (map snd log') lo"
      "low_ok opts (map fst log') base t lo" .
  from read_tracked [OF h(1) lo(1) assms(7,9), of after] lo show ?thesis by (auto simp: holds_def)
qed

end

text \<open>The in-memory slot provides it, for every retention time above 0.\<close>

interpretation memory_journal: journal_slot memory_kv wf_map mem_look mem_lasting
  "\<lparr>jr_ns = ns, jr_retentionMs = int (Suc ms), jr_maxPerRun = cap\<rparr>" for ns ms cap
  by unfold_locales simp

section \<open>Properties\<close>


definition journal_event :: "string \<Rightarrow> int \<Rightarrow> envelope" where
  "journal_event r q = \<lparr>env_runId = r, env_sequence = q, env_kind = TextDelta, env_payload = [], env_timestamp = None\<rparr>"

definition small_journal :: jr_opts where
  "small_journal = \<lparr>jr_ns = ''j'', jr_retentionMs = int (Suc 99), jr_maxPerRun = 5\<rparr>"

definition two_appends :: "(int \<times> journal_op) list" where
  "two_appends = [(0, JAppend (journal_event ''r'' 0) None), (1, JAppend (journal_event ''r'' 1) None)]"


section \<open>Divergences\<close>

text \<open>A run whose id continues another one after a colon has its events read as events of that run.\<close>

lemma colon_run_leaks:
  "fst (journal_readAfter memory_kv small_journal 1 ''a'' (- 1) None
     (snd (journal_append memory_kv small_journal 0 (journal_event ''a:b'' 0) None []))) = Inr [journal_event ''a:b'' 0]"
  by (simp add: journal_readAfter_def journal_append_def memory_kv_def mem_list_def mem_set_def small_journal_def
      journal_event_def jr_prefix_def jr_key_def starts_with_def alive_def Let_def)

text \<open>
  A cursor behind events that have all expired is not told so: the read is empty, as for a client that is up
  to date.
\<close>

lemma expired_gap_is_silent:
  "fst (journal_readAfter memory_kv small_journal 200 ''r'' 0 None (fold (journal_step memory_kv small_journal) two_appends [])) = Inr []"
proof -
  have "mem_list 200 (jr_prefix small_journal ''r'') (fold (journal_step memory_kv small_journal) two_appends []) = ([], [])"
    by (simp add: two_appends_def journal_step_def journal_append_def memory_kv_def mem_list_def mem_set_def small_journal_def
        journal_event_def jr_prefix_def jr_key_def starts_with_def alive_def Let_def)
  then show ?thesis by (simp add: journal_readAfter_def memory_kv_def)
qed

end
