(* ===== verification/AgUi.thy ===== *)
theory AgUi
  imports JsonPatchProps ClientReducer
begin

text \<open>
  The AG-UI adapter (\<^verbatim>\<open>packages/client/src/ag-ui.ts\<close>): a run's events as the events of the Agent-User Interaction
  protocol, with presence, comments and handoffs as a shared state that is sent once and then patched. An event that
  carries JSON text (\<^verbatim>\<open>JSON.stringify\<close>) holds the value here.
\<close>

section \<open>Events and state\<close>

datatype agui_event =
    RUN_STARTED string
  | RUN_FINISHED string bool
  | RUN_ERROR string
  | TEXT_MESSAGE_START string
  | TEXT_MESSAGE_CONTENT string string
  | TEXT_MESSAGE_END string
  | THINKING_TEXT_MESSAGE_CONTENT string
  | TOOL_CALL_START string string
  | TOOL_CALL_ARGS string json
  | TOOL_CALL_END string
  | TOOL_CALL_RESULT string json
  | STATE_DELTA "patch_op list"
  | STATE_DELTA_TEXT string
  | STATE_SNAPSHOT json
  | CUSTOM string json

record collab_state =
  cs_status :: string
  cs_presence :: "json list"
  cs_comments :: "json list"
  cs_handoffs :: "json list"

definition collab_json :: "collab_state \<Rightarrow> json" where
  "collab_json s = JObj [(''status'', JStr (cs_status s)), (''presence'', JArr (cs_presence s)),
     (''comments'', JArr (cs_comments s)), (''handoffs'', JArr (cs_handoffs s))]"

definition collab_start :: collab_state where
  "collab_start = \<lparr>cs_status = ''running'', cs_presence = [], cs_comments = [], cs_handoffs = []\<rparr>"

record translator =
  tr_textOpen :: bool
  tr_openToolCalls :: "string list"
  tr_state :: collab_state
  tr_snapshotEmitted :: bool
  tr_out :: "agui_event list"

definition agui_emit :: "agui_event list \<Rightarrow> translator \<Rightarrow> translator" where
  "agui_emit evs t = t\<lparr>tr_out := tr_out t @ evs\<rparr>"

definition closeText :: "string \<Rightarrow> translator \<Rightarrow> translator" where
  "closeText m t = (if tr_textOpen t then (agui_emit [TEXT_MESSAGE_END m] t)\<lparr>tr_textOpen := False\<rparr> else t)"

definition ensureSnapshot :: "translator \<Rightarrow> translator" where
  "ensureSnapshot t =
     (if tr_snapshotEmitted t then t else (agui_emit [STATE_SNAPSHOT (collab_json (tr_state t))] t)\<lparr>tr_snapshotEmitted := True\<rparr>)"

definition mutateState :: "collab_state \<Rightarrow> string \<Rightarrow> json \<Rightarrow> translator \<Rightarrow> translator" where
  "mutateState s name v t =
     (let t1 = ensureSnapshot t;
          patch = diffJsonPatch (collab_json (tr_state t1)) (collab_json s);
          t2 = (if patch \<noteq> [] then agui_emit [STATE_DELTA patch] t1 else t1)
      in agui_emit [CUSTOM name v] (t2\<lparr>tr_state := s\<rparr>))"

section \<open>One event\<close>

definition member_id :: "json \<Rightarrow> json option" where
  "member_id v = (case v of JObj kvs \<Rightarrow> map_of kvs ''id'' | _ \<Rightarrow> None)"

text \<open>\<^verbatim>\<open>[...xs.filter(x => x.id !== v.id), v]\<close>.\<close>

definition put_latest :: "string \<Rightarrow> json \<Rightarrow> json list \<Rightarrow> json list" where
  "put_latest i v xs = filter (\<lambda>x. member_id x \<noteq> Some (JStr i)) xs @ [v]"

text \<open>A payload member that is an object with a string as its id.\<close>

definition entity :: "payload \<Rightarrow> string \<Rightarrow> (string \<times> json) option" where
  "entity p k = (case map_of p k of
       Some v \<Rightarrow> (case member_id v of Some (JStr i) \<Rightarrow> Some (i, v) | _ \<Rightarrow> None)
     | None \<Rightarrow> None)"

definition toolCallId :: "envelope \<Rightarrow> string" where
  "toolCallId e = idField (env_payload e) ''toolCallId'' ''tc-'' (env_sequence e)"

definition on_agui_text :: "string \<Rightarrow> string \<Rightarrow> translator \<Rightarrow> translator" where
  "on_agui_text m delta t =
     agui_emit [TEXT_MESSAGE_CONTENT m delta]
       (if tr_textOpen t then t else (agui_emit [TEXT_MESSAGE_START m] t)\<lparr>tr_textOpen := True\<rparr>)"

definition on_agui_presence :: "payload \<Rightarrow> translator \<Rightarrow> translator" where
  "on_agui_presence p t =
     (let ps = nullish (arrField p ''participants'') []
      in mutateState ((tr_state t)\<lparr>cs_presence := ps\<rparr>) ''presence'' (JObj [(''participants'', JArr ps)]) t)"

definition on_agui_handoff :: "payload \<Rightarrow> translator \<Rightarrow> translator" where
  "on_agui_handoff p t =
     (case entity p ''handoff'' of None \<Rightarrow> t
      | Some (i, v) \<Rightarrow> mutateState ((tr_state t)\<lparr>cs_handoffs := put_latest i v (cs_handoffs (tr_state t))\<rparr>) ''handoff'' v t)"

definition on_agui_comment :: "string \<Rightarrow> payload \<Rightarrow> translator \<Rightarrow> translator" where
  "on_agui_comment action p t =
     (case entity p ''comment'' of None \<Rightarrow> t
      | Some (i, v) \<Rightarrow> mutateState ((tr_state t)\<lparr>cs_comments := put_latest i v (cs_comments (tr_state t))\<rparr>) ''comment''
          (JObj [(''action'', JStr action), (''comment'', v)]) t)"

definition on_agui_comment_deleted :: "payload \<Rightarrow> translator \<Rightarrow> translator" where
  "on_agui_comment_deleted p t =
     (case strField p ''id'' of
        Some i \<Rightarrow>
          if i = [] then t
          else mutateState ((tr_state t)\<lparr>cs_comments := filter (\<lambda>x. member_id x \<noteq> Some (JStr i)) (cs_comments (tr_state t))\<rparr>)
                 ''comment'' (JObj [(''action'', JStr ''comment.deleted''), (''id'', JStr i)]) t
      | None \<Rightarrow> t)"

definition thread_signal :: "string \<Rightarrow> payload \<Rightarrow> agui_event" where
  "thread_signal action p = CUSTOM ''comment'' (JObj ((''action'', JStr action) #
     (case strField p ''threadId'' of Some s \<Rightarrow> [(''threadId'', JStr s)] | None \<Rightarrow> [])))"

definition agui_step :: "string \<Rightarrow> envelope \<Rightarrow> translator \<Rightarrow> translator" where
  "agui_step runId e t =
     (let p = env_payload e; m = ''msg-'' @ runId; tc = toolCallId e in
      case env_kind e of
        RunStarted \<Rightarrow> agui_emit [RUN_STARTED runId] t
      | PresenceUpdate \<Rightarrow> on_agui_presence p t
      | HandoffUpdate \<Rightarrow> on_agui_handoff p t
      | CommentAdded \<Rightarrow> on_agui_comment ''comment.added'' p t
      | CommentUpdated \<Rightarrow> on_agui_comment ''comment.updated'' p t
      | CommentDeleted \<Rightarrow> on_agui_comment_deleted p t
      | CommentResolved \<Rightarrow> agui_emit [thread_signal ''comment.resolvedd'' p] t
      | CommentReopened \<Rightarrow> agui_emit [thread_signal ''comment.reopenedd'' p] t
      | AccessRevoked \<Rightarrow>
          agui_emit [CUSTOM ''access.revoked'' (JObj [(''reason'', JStr (nullish (strField p ''reason'') ''access revoked''))])] t
      | TextDelta \<Rightarrow> on_agui_text m (deltaField p) t
      | ReasoningDelta \<Rightarrow> agui_emit [THINKING_TEXT_MESSAGE_CONTENT (deltaField p)] t
      | ToolInvoked \<Rightarrow>
          (agui_emit (TOOL_CALL_START tc (nullish (strField p ''tool'') ''unknown'') #
             (case map_of p ''args'' of Some a \<Rightarrow> [TOOL_CALL_ARGS tc a] | None \<Rightarrow> [])) t)
            \<lparr>tr_openToolCalls := tc # tr_openToolCalls t\<rparr>
      | ToolCompleted \<Rightarrow>
          (agui_emit [TOOL_CALL_END tc, TOOL_CALL_RESULT tc (nullish (map_of p ''result'') JNull)] t)
            \<lparr>tr_openToolCalls := removeAll tc (tr_openToolCalls t)\<rparr>
      | ToolErrored \<Rightarrow>
          (agui_emit [TOOL_CALL_END tc, TOOL_CALL_RESULT tc (JObj [(''error'', JStr (nullish (strField p ''error'') ''tool error''))])] t)
            \<lparr>tr_openToolCalls := removeAll tc (tr_openToolCalls t)\<rparr>
      | ObjectDelta \<Rightarrow> agui_emit [STATE_DELTA_TEXT (deltaField p)] t
      | ObjectComplete \<Rightarrow> (case map_of p ''value'' of Some v \<Rightarrow> agui_emit [STATE_SNAPSHOT v] t | None \<Rightarrow> t)
      | RunCompleted \<Rightarrow> agui_emit [RUN_FINISHED runId False] (closeText m t)
      | RunCancelledEvent \<Rightarrow> agui_emit [RUN_FINISHED runId True] (closeText m t)
      | RunFailed \<Rightarrow> agui_emit [RUN_ERROR (nullish (strField p ''message'') ''run failed'')] (closeText m t)
      | _ \<Rightarrow> t)"

definition translator_start :: translator where
  "translator_start = \<lparr>tr_textOpen = False, tr_openToolCalls = [], tr_state = collab_start, tr_snapshotEmitted = False, tr_out = []\<rparr>"

definition toAGUIEvents :: "envelope list \<Rightarrow> agui_event list" where
  "toAGUIEvents es = (case es of [] \<Rightarrow> []
     | e # _ \<Rightarrow> tr_out (closeText (''msg-'' @ env_runId e) (fold (agui_step (env_runId e)) es translator_start)))"

section \<open>What a client does with the events\<close>

text \<open>The shared state: the last snapshot, and the patches since.\<close>

fun apply_state :: "agui_event \<Rightarrow> json option \<Rightarrow> json option" where
  "apply_state (STATE_SNAPSHOT v) d = Some v"
| "apply_state (STATE_DELTA patch) d =
     (case d of None \<Rightarrow> None
      | Some v \<Rightarrow> if pr_ok (applyJsonPatch v patch) then Some (pr_doc (applyJsonPatch v patch)) else None)"
| "apply_state (STATE_DELTA_TEXT s) d = None"
| "apply_state _ d = d"

definition replay_state :: "agui_event list \<Rightarrow> json option" where
  "replay_state evs = fold apply_state evs None"

text \<open>The text of the message, as long as it is opened once, written while open and closed before the run ends.\<close>

fun message :: "bool \<Rightarrow> agui_event list \<Rightarrow> string option" where
  "message opened [] = (if opened then None else Some [])"
| "message opened (ev # evs) = (case ev of
       TEXT_MESSAGE_START m \<Rightarrow> if opened then None else message True evs
     | TEXT_MESSAGE_CONTENT m d \<Rightarrow> if opened then map_option ((@) d) (message True evs) else None
     | TEXT_MESSAGE_END m \<Rightarrow> if opened then message False evs else None
     | RUN_FINISHED r c \<Rightarrow> if opened then None else message False evs
     | RUN_ERROR s \<Rightarrow> if opened then None else message False evs
     | _ \<Rightarrow> message opened evs)"

text \<open>What the shared state is meant to be.\<close>

definition collab_step :: "envelope \<Rightarrow> collab_state \<Rightarrow> collab_state" where
  "collab_step e s =
     (let p = env_payload e in
      case env_kind e of
        PresenceUpdate \<Rightarrow> s\<lparr>cs_presence := nullish (arrField p ''participants'') []\<rparr>
      | HandoffUpdate \<Rightarrow> (case entity p ''handoff'' of None \<Rightarrow> s | Some (i, v) \<Rightarrow> s\<lparr>cs_handoffs := put_latest i v (cs_handoffs s)\<rparr>)
      | CommentAdded \<Rightarrow> (case entity p ''comment'' of None \<Rightarrow> s | Some (i, v) \<Rightarrow> s\<lparr>cs_comments := put_latest i v (cs_comments s)\<rparr>)
      | CommentUpdated \<Rightarrow> (case entity p ''comment'' of None \<Rightarrow> s | Some (i, v) \<Rightarrow> s\<lparr>cs_comments := put_latest i v (cs_comments s)\<rparr>)
      | CommentDeleted \<Rightarrow> (case strField p ''id'' of
            Some i \<Rightarrow> if i = [] then s else s\<lparr>cs_comments := filter (\<lambda>x. member_id x \<noteq> Some (JStr i)) (cs_comments s)\<rparr>
          | None \<Rightarrow> s)
      | _ \<Rightarrow> s)"

section \<open>The message\<close>

text \<open>Like \<open>message\<close>, but for the events so far: whether the message is open, and its text.\<close>

fun message_so_far :: "bool \<Rightarrow> agui_event list \<Rightarrow> (bool \<times> string) option" where
  "message_so_far opened [] = Some (opened, [])"
| "message_so_far opened (ev # evs) = (case ev of
       TEXT_MESSAGE_START m \<Rightarrow> if opened then None else message_so_far True evs
     | TEXT_MESSAGE_CONTENT m d \<Rightarrow> if opened then map_option (apsnd ((@) d)) (message_so_far True evs) else None
     | TEXT_MESSAGE_END m \<Rightarrow> if opened then message_so_far False evs else None
     | RUN_FINISHED r c \<Rightarrow> if opened then None else message_so_far False evs
     | RUN_ERROR s \<Rightarrow> if opened then None else message_so_far False evs
     | _ \<Rightarrow> message_so_far opened evs)"

lemma append_fun: "(@) [] = (\<lambda>x. x)" "(@) (a @ b) = (\<lambda>x. a @ b @ x)"
  by (simp_all add: fun_eq_iff)

lemma message_append:
  "message_so_far b xs = Some (b', s) \<Longrightarrow> message b (xs @ ys) = map_option ((@) s) (message b' ys)"
  by (induction b xs arbitrary: s rule: message_so_far.induct)
    (auto simp: option.map_comp comp_def option.map_ident append_fun split: agui_event.splits if_splits)

lemma so_far_append:
  "message_so_far b xs = Some (b', s) \<Longrightarrow> message_so_far b (xs @ ys) = map_option (apsnd ((@) s)) (message_so_far b' ys)"
  by (induction b xs arbitrary: s rule: message_so_far.induct)
    (auto simp: option.map_comp comp_def option.map_ident apsnd_def map_prod_def split_def split: agui_event.splits if_splits)

text \<open>The text an event adds.\<close>

definition text_of :: "envelope \<Rightarrow> string" where
  "text_of e = (if env_kind e = TextDelta then deltaField (env_payload e) else [])"

definition writing :: "translator \<Rightarrow> string \<Rightarrow> bool" where
  "writing t s \<longleftrightarrow> message_so_far False (tr_out t) = Some (tr_textOpen t, s)"

lemma agui_emit_simps [simp]:
  "tr_out (agui_emit evs t) = tr_out t @ evs" "tr_textOpen (agui_emit evs t) = tr_textOpen t" "tr_state (agui_emit evs t) = tr_state t"
  "tr_snapshotEmitted (agui_emit evs t) = tr_snapshotEmitted t"
  by (simp_all add: agui_emit_def)

lemma writing_emit:
  "writing t s \<Longrightarrow> message_so_far (tr_textOpen t) evs = Some (tr_textOpen t, u) \<Longrightarrow> writing (agui_emit evs t) (s @ u)"
  by (simp add: writing_def so_far_append)

lemma writing_close: "writing t s \<Longrightarrow> writing (closeText m t) s \<and> \<not> tr_textOpen (closeText m t)"
  by (auto simp: writing_def closeText_def so_far_append)

lemma writing_mutate: "writing t s \<Longrightarrow> writing (mutateState st name v t) s"
  by (auto simp: writing_def mutateState_def ensureSnapshot_def Let_def so_far_append)

lemma writing_step: "writing t s \<Longrightarrow> writing (agui_step r e t) (s @ text_of e)"
proof -
  assume w: "writing t s"
  show ?thesis
  proof (cases "env_kind e")
    case TextDelta
    with w show ?thesis by (auto simp: agui_step_def on_agui_text_def text_of_def writing_def so_far_append Let_def)
  qed (use w writing_close [OF w, of "''msg-'' @ r"] in
      \<open>auto simp: agui_step_def text_of_def Let_def thread_signal_def on_agui_presence_def on_agui_handoff_def on_agui_comment_def
        on_agui_comment_deleted_def writing_mutate [unfolded writing_def] writing_def so_far_append split: option.split\<close>)
qed

lemma writing_steps: "writing t s \<Longrightarrow> writing (fold (agui_step r) es t) (s @ concat (map text_of es))"
proof (induction es arbitrary: t s)
  case (Cons e es)
  from Cons.IH [OF writing_step [OF Cons.prems]] show ?case by simp
qed simp

section \<open>The shared state\<close>

lemma deepEqual_trans: "deepEqual a b \<Longrightarrow> deepEqual b c \<Longrightarrow> deepEqual a c"
proof (induction a b arbitrary: c rule: deepEqual.induct)
  case (5 xs b)
  then obtain ys zs where bc: "b = JArr ys" "c = JArr zs" by (auto split: json.splits)
  with 5(2,3) have l: "length xs = length ys" "length ys = length zs"
      "\<forall>n < length zs. deepEqual (xs ! n) (ys ! n) \<and> deepEqual (ys ! n) (zs ! n)" by (auto simp: list_all_length)
  have "deepEqual (xs ! n) (zs ! n)" if "n < length zs" for n
  proof -
    from that l have "(xs ! n, ys ! n) \<in> set (zip xs ys)" by (auto simp: set_zip)
    from 5(1) [OF bc(1) this refl] l(3) that show ?thesis by blast
  qed
  with bc l show ?case by (auto simp: list_all_length)
next
  case (6 xs b)
  then obtain ys zs where bc: "b = JObj ys" "c = JObj zs" by (auto split: json.splits)
  have "\<exists>z. map_of zs k = Some z \<and> deepEqual v z" if kv: "(k, v) \<in> set xs" for k v
  proof -
    from kv 6(2) bc obtain y where y: "map_of ys k = Some y" "deepEqual v y" by (auto simp: list_all_iff split: option.splits)
    from map_of_SomeD [OF y(1)] 6(3) bc obtain z where z: "map_of zs k = Some z" "deepEqual y z"
      by (auto simp: list_all_iff split: option.splits)
    with 6(1) [OF bc(1) kv, of y z] y show ?thesis by auto
  qed
  with 6(2,3) bc show ?case by (fastforce simp: list_all_iff split: option.split)
qed auto

text \<open>What a client holds: the same state up to the order of keys.\<close>

definition similar :: "collab_state \<Rightarrow> collab_state \<Rightarrow> bool" where
  "similar c s \<longleftrightarrow> cs_status c = cs_status s \<and> deepEqual (JArr (cs_presence c)) (JArr (cs_presence s)) \<and>
     deepEqual (JArr (cs_comments c)) (JArr (cs_comments s)) \<and> deepEqual (JArr (cs_handoffs c)) (JArr (cs_handoffs s))"

definition replace_if :: "string \<Rightarrow> json list \<Rightarrow> json list \<Rightarrow> patch_op list" where
  "replace_if k xs ys = (if deepEqual (JArr xs) (JArr ys) then [] else [PReplace (CHR ''/'' # escapeToken k) (JArr ys)])"

lemma similar_refl: "wf_json (collab_json s) \<Longrightarrow> similar s s"
  unfolding similar_def by (auto simp: collab_json_def simp del: deepEqual.simps intro!: deepEqual_refl)

lemma similar_equal: "deepEqual (collab_json s) (collab_json s') \<longleftrightarrow> similar s s'"
  by (auto simp: collab_json_def similar_def simp del: deepEqual.simps(5))

lemma similar_trans: "similar a b \<Longrightarrow> similar b c \<Longrightarrow> similar a c"
  by (auto simp: similar_def simp del: deepEqual.simps intro: deepEqual_trans)

lemma diff_collab:
  assumes "cs_status s' = cs_status s"
  shows "diffJsonPatch (collab_json s) (collab_json s') =
    replace_if ''presence'' (cs_presence s) (cs_presence s') @ replace_if ''comments'' (cs_comments s) (cs_comments s') @
    replace_if ''handoffs'' (cs_handoffs s) (cs_handoffs s')"
proof (cases "similar s s'")
  case True
  then show ?thesis
    by (subst (asm) similar_equal [symmetric])
      (simp add: diffJsonPatch_def diffInto_objects replace_if_def similar_def collab_json_def del: deepEqual.simps(5))
next
  case False
  have one: "diffInto (JArr xs) (JArr ys) (below [] k) = replace_if k xs ys" for xs ys k
    by (simp add: diffInto_other replace_if_def del: deepEqual.simps)
  from False have "diffJsonPatch (collab_json s) (collab_json s') =
      map (\<lambda>k. PRemove (below [] k)) (removals (case collab_json s of JObj p \<Rightarrow> p) (case collab_json s' of JObj n \<Rightarrow> n)) @
      concat (map (member_diff (case collab_json s of JObj p \<Rightarrow> p) []) (case collab_json s' of JObj n \<Rightarrow> n))"
    unfolding similar_equal [symmetric]
    by (simp add: diffJsonPatch_def diffInto_objects collab_json_def del: deepEqual.simps)
  moreover have "diffInto (JStr a) (JStr a) b = []" for a b by (simp add: diffInto_other)
  ultimately show ?thesis
    by (simp add: collab_json_def removals_def member_diff_def assms one [simplified] del: deepEqual.simps)
qed

lemma apply_replace:
  assumes "map_of kvs k = Some (JArr zs)" "deepEqual (JArr zs) (JArr xs)" "wf_json (JArr ys)"
  shows "\<exists>zs'. apply_ops (replace_if k xs ys) (JObj kvs) = Inr (JObj (AList.update k (JArr zs') kvs)) \<and> deepEqual (JArr zs') (JArr ys)"
proof (cases "deepEqual (JArr xs) (JArr ys)")
  case True
  have "AList.update k (JArr zs) kvs = kvs" using assms(1) by (induction kvs) (auto split: if_splits)
  with True deepEqual_trans [OF assms(2) True] show ?thesis
    by (intro exI [of _ zs]) (simp add: replace_if_def del: deepEqual.simps)
next
  case False
  with set_member [of False kvs k "JArr ys"] assms(1) deepEqual_refl [OF assms(3)] show ?thesis
    by (auto simp: replace_if_def applyOne_def simp del: deepEqual.simps)
qed

lemma apply_diff:
  assumes "similar c s" "cs_status s' = cs_status s" "wf_json (collab_json s')"
  shows "\<exists>c'. apply_ops (diffJsonPatch (collab_json s) (collab_json s')) (collab_json c) = Inr (collab_json c') \<and> similar c' s'"
proof -
  have w: "wf_json (JArr (cs_presence s'))" "wf_json (JArr (cs_comments s'))" "wf_json (JArr (cs_handoffs s'))"
    using assms(3) by (simp_all add: collab_json_def)
  have d: "deepEqual (JArr (cs_presence c)) (JArr (cs_presence s))" "deepEqual (JArr (cs_comments c)) (JArr (cs_comments s))"
    "deepEqual (JArr (cs_handoffs c)) (JArr (cs_handoffs s))" using assms(1) by (simp_all add: similar_def del: deepEqual.simps)
  let ?kvs = "\<lambda>a b h. [(''status'', JStr (cs_status c)), (''presence'', JArr a), (''comments'', JArr b), (''handoffs'', JArr h)]"
  obtain a where a: "apply_ops (replace_if ''presence'' (cs_presence s) (cs_presence s')) (JObj (?kvs (cs_presence c) (cs_comments c) (cs_handoffs c))) =
      Inr (JObj (?kvs a (cs_comments c) (cs_handoffs c)))" "deepEqual (JArr a) (JArr (cs_presence s'))"
    using apply_replace [of "?kvs (cs_presence c) (cs_comments c) (cs_handoffs c)" "''presence''", OF _ d(1) w(1)] by auto
  obtain b where b: "apply_ops (replace_if ''comments'' (cs_comments s) (cs_comments s')) (JObj (?kvs a (cs_comments c) (cs_handoffs c))) =
      Inr (JObj (?kvs a b (cs_handoffs c)))" "deepEqual (JArr b) (JArr (cs_comments s'))"
    using apply_replace [of "?kvs a (cs_comments c) (cs_handoffs c)" "''comments''", OF _ d(2) w(2)] by auto
  obtain h where h: "apply_ops (replace_if ''handoffs'' (cs_handoffs s) (cs_handoffs s')) (JObj (?kvs a b (cs_handoffs c))) =
      Inr (JObj (?kvs a b h))" "deepEqual (JArr h) (JArr (cs_handoffs s'))"
    using apply_replace [of "?kvs a b (cs_handoffs c)" "''handoffs''", OF _ d(3) w(3)] by auto
  have "collab_json c = JObj (?kvs (cs_presence c) (cs_comments c) (cs_handoffs c))" by (simp add: collab_json_def)
  then have "apply_ops (diffJsonPatch (collab_json s) (collab_json s')) (collab_json c) = Inr (JObj (?kvs a b h))"
    by (simp add: diff_collab [OF assms(2)] apply_ops_append a(1) b(1) h(1) del: apply_ops.simps)
  moreover have "similar (c\<lparr>cs_presence := a, cs_comments := b, cs_handoffs := h\<rparr>) s'"
    using assms(1,2) a(2) b(2) h(2) by (simp add: similar_def del: deepEqual.simps)
  ultimately show ?thesis by (auto simp: collab_json_def intro!: exI [of _ "c\<lparr>cs_presence := a, cs_comments := b, cs_handoffs := h\<rparr>"])
qed

text \<open>Before the first snapshot the client has nothing, and the state is the first one.\<close>

definition synced :: "translator \<Rightarrow> bool" where
  "synced t \<longleftrightarrow> wf_json (collab_json (tr_state t)) \<and>
     (if tr_snapshotEmitted t then \<exists>c. replay_state (tr_out t) = Some (collab_json c) \<and> similar c (tr_state t)
      else replay_state (tr_out t) = None \<and> tr_state t = collab_start)"

lemma replay_append [simp]: "replay_state (xs @ ys) = fold apply_state ys (replay_state xs)"
  by (simp add: replay_state_def)

lemma mutate_synced:
  assumes "synced t" "cs_status s = cs_status (tr_state t)" "wf_json (collab_json s)"
  shows "synced (mutateState s name v t) \<and> tr_state (mutateState s name v t) = s \<and> tr_snapshotEmitted (mutateState s name v t)"
proof -
  let ?t = "ensureSnapshot t"
  have e: "tr_state ?t = tr_state t" "tr_snapshotEmitted ?t" by (simp_all add: ensureSnapshot_def)
  have "\<exists>c. replay_state (tr_out ?t) = Some (collab_json c) \<and> similar c (tr_state t)"
    using assms(1) similar_refl [of "tr_state t"] by (auto simp: synced_def ensureSnapshot_def)
  then obtain c where c: "replay_state (tr_out ?t) = Some (collab_json c)" "similar c (tr_state t)" by blast
  from apply_diff [OF c(2) assms(2,3)] obtain c' where c': "similar c' s"
      "apply_ops (diffJsonPatch (collab_json (tr_state t)) (collab_json s)) (collab_json c) = Inr (collab_json c')" by blast
  then show ?thesis using e c(1) assms(3)
    by (cases "diffJsonPatch (collab_json (tr_state t)) (collab_json s) = []")
      (auto simp: synced_def mutateState_def Let_def applyJsonPatch_def)
qed

lemma synced_emit: "synced t \<Longrightarrow> (\<And>d. fold apply_state evs d = d) \<Longrightarrow> synced (agui_emit evs t)"
  by (simp add: synced_def)

lemma synced_tools [simp]: "synced (t\<lparr>tr_openToolCalls := xs\<rparr>) = synced t" "synced (t\<lparr>tr_textOpen := b\<rparr>) = synced t"
  by (simp_all add: synced_def)

lemma synced_close: "synced t \<Longrightarrow> synced (closeText m t) \<and> tr_state (closeText m t) = tr_state t"
  by (simp add: closeText_def synced_emit)

lemma wf_filter: "list_all P xs \<Longrightarrow> list_all P (filter Q xs)"
  by (auto simp: list_all_iff)

lemma entity_wf: "wf_json (JObj p) \<Longrightarrow> entity p k = Some (i, v) \<Longrightarrow> wf_json v"
  by (auto simp: entity_def simp del: wf_json.simps split: option.splits json.splits intro: wf_member)

lemma array_wf: "wf_json (JObj p) \<Longrightarrow> list_all wf_json (nullish (arrField p k) [])"
  by (auto simp: arrField_def simp del: wf_json.simps split: option.splits json.splits dest!: wf_member) simp

lemma synced_mutate:
  assumes "synced t" "wf_json (JObj (env_payload e))" "s = collab_step e (tr_state t)" "cs_status s = cs_status (tr_state t)"
    "list_all wf_json (cs_presence s) \<and> list_all wf_json (cs_comments s) \<and> list_all wf_json (cs_handoffs s)"
  shows "synced (mutateState s name v t) \<and> tr_state (mutateState s name v t) = collab_step e (tr_state t)"
  using mutate_synced [OF assms(1,4), of name v] assms(3,5) by (simp add: collab_json_def)

lemma synced_step:
  assumes "synced t" "wf_json (JObj (env_payload e))" "env_kind e \<notin> {ObjectDelta, ObjectComplete}"
  shows "synced (agui_step r e t) \<and> tr_state (agui_step r e t) = collab_step e (tr_state t)"
proof -
  have wf: "list_all wf_json (cs_presence (tr_state t))" "list_all wf_json (cs_comments (tr_state t))"
    "list_all wf_json (cs_handoffs (tr_state t))" using assms(1) by (simp_all add: synced_def collab_json_def)
  note mut = synced_mutate [OF assms(1,2)]
  show ?thesis
  proof (cases "env_kind e")
    case PresenceUpdate
    with mut [of "(tr_state t)\<lparr>cs_presence := nullish (arrField (env_payload e) ''participants'') []\<rparr>"] wf array_wf [OF assms(2)]
    show ?thesis by (simp add: agui_step_def on_agui_presence_def collab_step_def Let_def)
  next
    case HandoffUpdate
    show ?thesis
    proof (cases "entity (env_payload e) ''handoff''")
      case (Some iv)
      obtain i v where iv: "iv = (i, v)" by (cases iv)
      with Some HandoffUpdate wf entity_wf [OF assms(2)] mut [of "(tr_state t)\<lparr>cs_handoffs := put_latest i v (cs_handoffs (tr_state t))\<rparr>"] show ?thesis
        by (simp add: agui_step_def on_agui_handoff_def collab_step_def put_latest_def wf_filter Let_def)
    qed (use HandoffUpdate assms(1) in \<open>simp add: agui_step_def on_agui_handoff_def collab_step_def Let_def\<close>)
  next
    case CommentAdded
    show ?thesis
    proof (cases "entity (env_payload e) ''comment''")
      case (Some iv)
      obtain i v where iv: "iv = (i, v)" by (cases iv)
      with Some CommentAdded wf entity_wf [OF assms(2)] mut [of "(tr_state t)\<lparr>cs_comments := put_latest i v (cs_comments (tr_state t))\<rparr>"] show ?thesis
        by (simp add: agui_step_def on_agui_comment_def collab_step_def put_latest_def wf_filter Let_def)
    qed (use CommentAdded assms(1) in \<open>simp add: agui_step_def on_agui_comment_def collab_step_def Let_def\<close>)
  next
    case CommentUpdated
    show ?thesis
    proof (cases "entity (env_payload e) ''comment''")
      case (Some iv)
      obtain i v where iv: "iv = (i, v)" by (cases iv)
      with Some CommentUpdated wf entity_wf [OF assms(2)] mut [of "(tr_state t)\<lparr>cs_comments := put_latest i v (cs_comments (tr_state t))\<rparr>"] show ?thesis
        by (simp add: agui_step_def on_agui_comment_def collab_step_def put_latest_def wf_filter Let_def)
    qed (use CommentUpdated assms(1) in \<open>simp add: agui_step_def on_agui_comment_def collab_step_def Let_def\<close>)
  next
    case CommentDeleted
    show ?thesis
    proof (cases "\<exists>i. strField (env_payload e) ''id'' = Some i \<and> i \<noteq> []")
      case True
      then obtain i where i: "strField (env_payload e) ''id'' = Some i" "i \<noteq> []" by blast
      with CommentDeleted wf mut [of "(tr_state t)\<lparr>cs_comments := filter (\<lambda>x. member_id x \<noteq> Some (JStr i)) (cs_comments (tr_state t))\<rparr>"]
      show ?thesis by (simp add: agui_step_def on_agui_comment_deleted_def collab_step_def wf_filter Let_def)
    qed (use CommentDeleted assms(1) in
        \<open>auto simp: agui_step_def on_agui_comment_deleted_def collab_step_def Let_def split: option.split\<close>)
  next
    case TextDelta
    with assms(1) show ?thesis by (simp add: agui_step_def on_agui_text_def collab_step_def synced_emit Let_def)
  qed (use assms synced_close [OF assms(1), of "''msg-'' @ r"] in
      \<open>auto simp: agui_step_def collab_step_def thread_signal_def Let_def synced_emit split: option.split\<close>)
qed

lemma synced_steps:
  assumes "synced t" "\<forall>e \<in> set es. wf_json (JObj (env_payload e)) \<and> env_kind e \<notin> {ObjectDelta, ObjectComplete}"
  shows "synced (fold (agui_step r) es t) \<and> tr_state (fold (agui_step r) es t) = fold collab_step es (tr_state t)"
  using assms
proof (induction es arbitrary: t)
  case (Cons e es)
  with synced_step [of t e r] Cons.IH [of "agui_step r e t"] show ?case by simp
qed simp

section \<open>Properties\<close>

text \<open>
  The adapter's text is one well-formed message: opened before its first chunk, closed before the run ends or at the
  end of the events, never opened twice, and made of the deltas of the run in order.
\<close>

theorem agui_message: "message False (toAGUIEvents es) = Some (concat (map text_of es))"
proof (cases es)
  case (Cons e rest)
  let ?t = "fold (agui_step (env_runId e)) es translator_start"
  have "writing translator_start []" by (simp add: writing_def translator_start_def)
  from writing_close [OF writing_steps [OF this, of "env_runId e" es], of "''msg-'' @ env_runId e"]
  have "message_so_far False (toAGUIEvents es) = Some (False, concat (map text_of es))"
    by (simp add: Cons toAGUIEvents_def writing_def)
  from message_append [OF this, of "[]"] show ?thesis by simp
qed (simp add: toAGUIEvents_def)


definition agui_event_of :: "int \<Rightarrow> event_kind \<Rightarrow> payload \<Rightarrow> envelope" where
  "agui_event_of q k p = \<lparr>env_runId = ''r'', env_sequence = q, env_kind = k, env_payload = p, env_timestamp = None\<rparr>"

definition agui_comment :: "string \<Rightarrow> string \<Rightarrow> payload" where
  "agui_comment i text = [(''comment'', JObj [(''id'', JStr i), (''text'', JStr text)])]"

definition agui_demo :: "envelope list" where
  "agui_demo =
     [agui_event_of 0 RunStarted [], agui_event_of (- 1) CommentAdded (agui_comment ''c'' ''one''),
      agui_event_of (- 1) CommentAdded (agui_comment ''d'' ''two''),
      agui_event_of (- 1) CommentUpdated (agui_comment ''c'' ''three''),
      agui_event_of (- 1) CommentDeleted [(''id'', JStr ''d'')]]"


section \<open>Divergences\<close>

text \<open>A delta of a structured object is sent as a patch that is a text, which ends the shared state of a client.\<close>

lemma object_delta_breaks_state:
  "replay_state (toAGUIEvents (agui_demo @ [agui_event_of 1 ObjectDelta [(''delta'', JStr ''1'')]])) = None"
  by code_simp

text \<open>The finished object replaces the shared state.\<close>

lemma object_complete_replaces_state:
  "replay_state (toAGUIEvents (agui_demo @ [agui_event_of 1 ObjectComplete [(''value'', JNum 1)]])) = Some (JNum 1)"
  by code_simp

text \<open>A tool call that is open when the run ends is never ended; without ids, its end names another call.\<close>

lemma tool_call_left_open:
  "toAGUIEvents [agui_event_of 0 ToolInvoked [], agui_event_of 1 RunFailed []] =
   [TOOL_CALL_START ''tc-0'' ''unknown'', RUN_ERROR ''run failed'']"
  by code_simp

lemma tool_call_end_misnamed:
  "toAGUIEvents [agui_event_of 0 ToolInvoked [], agui_event_of 1 ToolCompleted []] =
   [TOOL_CALL_START ''tc-0'' ''unknown'', TOOL_CALL_END ''tc-1'', TOOL_CALL_RESULT ''tc-1'' JNull]"
  by code_simp

text \<open>The status of the shared state stays \<^verbatim>\<open>running\<close>, whatever happens to the run.\<close>

lemma status_stays_running: "cs_status (fold collab_step es collab_start) = ''running''"
proof -
  have "cs_status (fold collab_step es s) = cs_status s" for s
    by (induction es arbitrary: s) (auto simp: collab_step_def Let_def split: event_kind.split option.split)
  then show ?thesis by (simp add: collab_start_def)
qed

end
