(* ===== verification/RunAttach.thy ===== *)
theory RunAttach
  imports ClientProps Sse "HOL-Library.Sublist"
begin

text \<open>
  Following a run from the client (\<^verbatim>\<open>attach\<close> in \<^verbatim>\<open>packages/client/src/run-client.ts\<close>) over the streaming
  transport (\<^verbatim>\<open>packages/client/src/transport.ts\<close>): read, drop what was seen before, reconnect from the last
  event, give up or complete. The text of an event is read by \<open>decode\<close> (\<^verbatim>\<open>JSON.parse\<close> and the cast), the callbacks
  of the host do not throw, and an already aborted signal is not passed in.
\<close>

section \<open>Configuration and terminal events\<close>

definition isTerminalRunEventKind :: "event_kind \<Rightarrow> bool" where
  "isTerminalRunEventKind k \<longleftrightarrow> k \<in> {RunCompleted, RunFailed, RunCancelledEvent}"

definition reconnectBackoffMs :: "nat \<Rightarrow> int list \<Rightarrow> int" where
  "reconnectBackoffMs attempt schedule = (if schedule = [] then 0 else schedule ! min attempt (length schedule - 1))"

record attach_opts =
  ao_maxReconnects :: int
  ao_backoffMs :: "int list"

definition stream_defaults :: attach_opts where
  "stream_defaults = \<lparr>ao_maxReconnects = 8, ao_backoffMs = [250, 500, 1000, 2000, 4000, 8000, 16000, 30000]\<rparr>"

section \<open>One connection\<close>

text \<open>
  What \<^verbatim>\<open>fetch\<close> gives: an exception, a status that is not ok (or no body), or a body read in chunks up to its end, to
  an error or a stall, or until the caller aborts.
\<close>

datatype body_end = Graceful | Broken | CallerAborts

datatype response = NetworkError | HttpError int | Body "string list" body_end

fun read_open :: "string list \<Rightarrow> sse_state \<Rightarrow> sse_event list" where
  "read_open [] st = []"
| "read_open (c # cs) st = (let (evs, st') = read_chunk c st in evs @ read_open cs st')"

text \<open>Only the end of the body flushes a last record.\<close>

definition received :: "response \<Rightarrow> sse_event list" where
  "received resp = (case resp of
       Body chunks fin \<Rightarrow> if fin = Graceful then parseSseStream chunks else read_open chunks sse_start
     | _ \<Rightarrow> [])"

definition heard :: "(string \<Rightarrow> envelope option) \<Rightarrow> response \<Rightarrow> envelope option list" where
  "heard decode resp = map (\<lambda>ev. decode (se_data ev)) (received resp)"

definition close_permanent :: "response \<Rightarrow> bool" where
  "close_permanent resp = (case resp of HttpError s \<Rightarrow> 400 \<le> s \<and> s < 500 | _ \<Rightarrow> False)"

section \<open>The attached client\<close>

datatype attach_error = ClosedPermanently | ReconnectDisabled | TooManyReconnects int

text \<open>What the client does, in order: requests, calls of \<^verbatim>\<open>onEvent\<close>, \<^verbatim>\<open>onComplete\<close> and \<^verbatim>\<open>onError\<close>, and the timers it sets.\<close>

datatype attach_call = Request int | Deliver envelope | Complete | GiveUp attach_error | Wait int

record attach_state =
  at_lastSeq :: int
  at_reconnects :: nat
  at_terminal :: bool
  at_aborted :: bool
  at_pending :: bool
  at_calls :: "attach_call list"

definition attach_start :: "int option \<Rightarrow> attach_state" where
  "attach_start afterSequence =
     \<lparr>at_lastSeq = nullish afterSequence (- 1), at_reconnects = 0, at_terminal = False, at_aborted = False,
      at_pending = True, at_calls = []\<rparr>"

definition host_call :: "attach_call \<Rightarrow> attach_state \<Rightarrow> attach_state" where
  "host_call c st = st\<lparr>at_calls := at_calls st @ [c]\<rparr>"

definition attach_complete :: "attach_state \<Rightarrow> attach_state" where
  "attach_complete st = (host_call Complete (st\<lparr>at_terminal := True\<rparr>))\<lparr>at_aborted := True\<rparr>"

text \<open>The handler of one record of the stream; the flag stops the reading.\<close>

definition attach_event :: "envelope option \<Rightarrow> attach_state \<Rightarrow> bool \<times> attach_state" where
  "attach_event parsed st =
     (if at_aborted st then (True, st)
      else case parsed of
        None \<Rightarrow> (False, st)
      | Some e \<Rightarrow>
          if env_sequence e < 0 then
            (let st1 = host_call (Deliver e) (st\<lparr>at_reconnects := 0\<rparr>)
             in if env_kind e = AccessRevoked then (True, attach_complete st1) else (False, st1))
          else if env_sequence e \<le> at_lastSeq st then (False, st)
          else
            (let st1 = host_call (Deliver e) (st\<lparr>at_lastSeq := env_sequence e, at_reconnects := 0\<rparr>)
             in if isTerminalRunEventKind (env_kind e) then (True, attach_complete st1) else (False, st1)))"

fun attach_events :: "envelope option list \<Rightarrow> attach_state \<Rightarrow> attach_state" where
  "attach_events [] st = st"
| "attach_events (x # xs) st = (let (stop, st') = attach_event x st in if stop then st' else attach_events xs st')"

definition attach_close :: "attach_opts \<Rightarrow> bool \<Rightarrow> attach_state \<Rightarrow> attach_state" where
  "attach_close opts permanent st =
     (if at_aborted st \<or> at_terminal st then st
      else if permanent then host_call (GiveUp ClosedPermanently) st
      else if ao_maxReconnects opts \<le> 0 then host_call (GiveUp ReconnectDisabled) st
      else if ao_maxReconnects opts \<le> int (at_reconnects st) then host_call (GiveUp (TooManyReconnects (ao_maxReconnects opts))) st
      else (host_call (Wait (reconnectBackoffMs (at_reconnects st) (ao_backoffMs opts))) st)
             \<lparr>at_reconnects := Suc (at_reconnects st), at_pending := True\<rparr>)"

text \<open>
  A connection, when one is due: the server answers the cursor that is requested. The caller may abort while it lasts.
\<close>

definition attach_connect ::
  "attach_opts \<Rightarrow> (string \<Rightarrow> envelope option) \<Rightarrow> (int \<Rightarrow> response) \<Rightarrow> attach_state \<Rightarrow> attach_state" where
  "attach_connect opts decode server st =
     (if \<not> at_pending st then st
      else if at_aborted st \<or> at_terminal st then st\<lparr>at_pending := False\<rparr>
      else
        (let resp = server (at_lastSeq st);
             st1 = attach_events (heard decode resp) (host_call (Request (at_lastSeq st)) (st\<lparr>at_pending := False\<rparr>));
             st2 = (case resp of Body _ CallerAborts \<Rightarrow> st1\<lparr>at_aborted := True\<rparr> | _ \<Rightarrow> st1)
         in attach_close opts (close_permanent resp) st2))"

definition attach_run ::
  "attach_opts \<Rightarrow> (string \<Rightarrow> envelope option) \<Rightarrow> (int \<Rightarrow> response) list \<Rightarrow> attach_state \<Rightarrow> attach_state" where
  "attach_run opts decode servers st = fold (attach_connect opts decode) servers st"

section \<open>What the host gets\<close>

definition deliveries :: "attach_call list \<Rightarrow> envelope list" where
  "deliveries cs = List.map_filter (\<lambda>c. case c of Deliver e \<Rightarrow> Some e | _ \<Rightarrow> None) cs"

definition in_journal :: "envelope list \<Rightarrow> envelope list" where
  "in_journal es = filter (\<lambda>e. 0 \<le> env_sequence e) es"

definition delivered :: "attach_state \<Rightarrow> envelope list" where
  "delivered st = in_journal (deliveries (at_calls st))"

lemma deliveries_simps [simp]:
  "deliveries [] = []" "deliveries (xs @ ys) = deliveries xs @ deliveries ys"
  "deliveries (Deliver e # cs) = e # deliveries cs" "deliveries (Request i # cs) = deliveries cs"
  "deliveries (Complete # cs) = deliveries cs" "deliveries (GiveUp err # cs) = deliveries cs"
  "deliveries (Wait d # cs) = deliveries cs"
  by (simp_all add: deliveries_def List.map_filter_def)

lemma in_journal_simps [simp]:
  "in_journal [] = []" "in_journal (e # es) = (if 0 \<le> env_sequence e then e # in_journal es else in_journal es)"
  "in_journal (xs @ ys) = in_journal xs @ in_journal ys"
  by (simp_all add: in_journal_def)

lemma host_call_simps [simp]:
  "at_calls (host_call c st) = at_calls st @ [c]" "at_lastSeq (host_call c st) = at_lastSeq st"
  "at_reconnects (host_call c st) = at_reconnects st" "at_terminal (host_call c st) = at_terminal st"
  "at_aborted (host_call c st) = at_aborted st" "at_pending (host_call c st) = at_pending st"
  by (simp_all add: host_call_def)

lemma complete_simps [simp]:
  "at_calls (attach_complete st) = at_calls st @ [Complete]" "at_lastSeq (attach_complete st) = at_lastSeq st"
  "at_terminal (attach_complete st)" "at_aborted (attach_complete st)" "at_pending (attach_complete st) = at_pending st"
  by (simp_all add: attach_complete_def)

section \<open>What the server sends\<close>

text \<open>The records that are events; the others are skipped.\<close>

definition readable :: "envelope option list \<Rightarrow> envelope list" where
  "readable ds = List.map_filter (\<lambda>d. d) ds"

lemma readable_simps [simp]:
  "readable [] = []" "readable (None # ds) = readable ds" "readable (Some e # ds) = e # readable ds"
  by (simp_all add: readable_def List.map_filter_def)

lemma readable_append [simp]: "readable (xs @ ys) = readable xs @ readable ys"
  by (simp add: readable_def map_filter_def)

text \<open>
  The text of a response is that of frames and comments; a connection that breaks delivers the beginning of it.
\<close>

definition carries :: "(string \<Rightarrow> envelope option) \<Rightarrow> response \<Rightarrow> envelope list \<Rightarrow> bool" where
  "carries decode resp es \<longleftrightarrow> (case resp of
       Body chunks fin \<Rightarrow> (\<exists>xs. (\<forall>x \<in> set xs. item_ok x) \<and>
         readable (map (\<lambda>ev. decode (se_data ev)) (concat (map decoded xs))) = es \<and>
         (if fin = Graceful then concat chunks = concat (map wire xs) else prefix (concat chunks) (concat (map wire xs))))
     | _ \<Rightarrow> es = [])"

text \<open>The journaled events sent for a cursor: a stretch of the journal that leaves no gap after the cursor.\<close>

definition gapless :: "envelope list \<Rightarrow> int \<Rightarrow> envelope list \<Rightarrow> bool" where
  "gapless journal c es \<longleftrightarrow> (\<exists>k. int k \<le> c + 1 \<and> es = take (length es) (drop k journal))"

definition served :: "(string \<Rightarrow> envelope option) \<Rightarrow> envelope list \<Rightarrow> (int \<Rightarrow> response) \<Rightarrow> bool" where
  "served decode journal server \<longleftrightarrow>
     (\<forall>c \<ge> - 1. \<exists>es. carries decode (server c) es \<and> gapless journal c (in_journal es))"

definition in_sequence :: "envelope list \<Rightarrow> bool" where
  "in_sequence es \<longleftrightarrow> (\<forall>q < length es. env_sequence (es ! q) = int q)"

lemma read_open_one: "cut st \<Longrightarrow> read_open cs st = fst (read_chunk (concat cs) st)"
proof (induction cs arbitrary: st)
  case Nil
  then show ?case by (simp add: cut_nothing)
next
  case (Cons c cs)
  from Cons.IH [OF cut_chunk] show ?case by (simp add: read_chunk_append Let_def case_prod_beta)
qed

lemma received_wire:
  assumes "\<forall>x \<in> set xs. item_ok x"
    "if fin = Graceful then concat chunks = concat (map wire xs) else prefix (concat chunks) (concat (map wire xs))"
  shows "\<exists>rest. concat (map decoded xs) = received (Body chunks fin) @ rest \<and> (fin = Graceful \<longrightarrow> rest = [])"
proof (cases "fin = Graceful")
  case True
  with assms(2) have c: "concat chunks = concat (map wire xs)" by simp
  have "parseSseStream chunks = concat (map decoded xs)"
    unfolding chunking_irrelevant [of chunks] using read_wire [OF assms(1)] c
    by (simp add: parseSseStream_def read_end_def take_record_def) (simp add: sse_start_def)
  with True show ?thesis by (simp add: received_def)
next
  case False
  with assms(2) obtain t where t: "concat (map wire xs) = concat chunks @ t" by (auto simp: prefix_def)
  from read_wire [OF assms(1)] have "concat (map decoded xs) =
      read_open chunks sse_start @ fst (read_chunk t (snd (read_chunk (concat chunks) sse_start)))"
    by (simp add: t read_chunk_append read_open_one [OF cut_start] Let_def case_prod_beta)
  with False show ?thesis by (simp add: received_def)
qed

lemma heard_carried:
  assumes "carries decode resp es"
  shows "prefix (readable (heard decode resp)) es" "resp = Body cs Graceful \<Longrightarrow> readable (heard decode resp) = es"
proof -
  have "\<exists>rest. es = readable (heard decode resp) @ rest \<and> (\<forall>cs. resp = Body cs Graceful \<longrightarrow> rest = [])"
  proof (cases resp)
    case (Body chunks fin)
    with assms obtain xs where xs: "\<forall>x \<in> set xs. item_ok x"
        "readable (map (\<lambda>ev. decode (se_data ev)) (concat (map decoded xs))) = es"
        "if fin = Graceful then concat chunks = concat (map wire xs) else prefix (concat chunks) (concat (map wire xs))"
      by (auto simp: carries_def)
    from received_wire [OF xs(1,3)] obtain rest where
        "concat (map decoded xs) = received (Body chunks fin) @ rest" "fin = Graceful \<longrightarrow> rest = []" by blast
    with xs(2) Body show ?thesis by (auto simp: heard_def)
  qed (use assms in \<open>auto simp: carries_def heard_def received_def\<close>)
  then show "prefix (readable (heard decode resp)) es" "resp = Body cs Graceful \<Longrightarrow> readable (heard decode resp) = es"
    by (auto simp: prefix_def)
qed

section \<open>Exactly once, in order\<close>

text \<open>The host has been handed exactly the events after \<open>a\<close> up to the cursor.\<close>

definition up_to_date :: "envelope list \<Rightarrow> int \<Rightarrow> attach_state \<Rightarrow> bool" where
  "up_to_date journal a st \<longleftrightarrow> a \<le> at_lastSeq st \<and> at_lastSeq st < int (length journal) \<and>
     delivered st = drop (nat (a + 1)) (take (nat (at_lastSeq st + 1)) journal)"

lemma gapless_prefix: "gapless journal c es \<Longrightarrow> prefix es' es \<Longrightarrow> gapless journal c es'"
  by (auto simp: gapless_def prefix_def) (metis append_eq_conv_conj take_take append_take_drop_id length_append min.absorb1 le_add1)

lemma in_journal_prefix: "prefix es' es \<Longrightarrow> prefix (in_journal es') (in_journal es)"
  by (auto simp: prefix_def)

lemma gapless_Cons:
  assumes "gapless journal c (e # es)" "in_sequence journal" "- 1 \<le> c"
  shows "0 \<le> env_sequence e" "env_sequence e \<le> c + 1" "env_sequence e < int (length journal)"
    "journal ! nat (env_sequence e) = e" "gapless journal (max c (env_sequence e)) es"
proof -
  from assms(1) obtain k where k: "int k \<le> c + 1" "e # es = take (Suc (length es)) (drop k journal)"
    by (auto simp: gapless_def)
  then have l: "k < length journal" by (metis drop_eq_Nil leI list.distinct(1) take_eq_Nil)
  then have d: "drop k journal = journal ! k # drop (Suc k) journal" by (simp add: Cons_nth_drop_Suc)
  with k(2) have e: "e = journal ! k" "es = take (length es) (drop (Suc k) journal)" by simp_all
  with assms(2) l have "env_sequence e = int k" by (simp add: in_sequence_def)
  with k(1) l e show "0 \<le> env_sequence e" "env_sequence e \<le> c + 1" "env_sequence e < int (length journal)"
    "journal ! nat (env_sequence e) = e" "gapless journal (max c (env_sequence e)) es"
    by (auto simp: gapless_def intro!: exI [of _ "Suc k"])
qed

lemma delivered_fresh:
  assumes "up_to_date journal a st" "- 1 \<le> a" "env_sequence e = at_lastSeq st + 1"
    "env_sequence e < int (length journal)" "journal ! nat (env_sequence e) = e"
  shows "delivered st @ [e] = drop (nat (a + 1)) (take (nat (env_sequence e + 1)) journal)"
proof -
  have n: "nat (env_sequence e + 1) = Suc (nat (env_sequence e))" "nat (env_sequence e) < length journal"
    using assms by (auto simp: up_to_date_def)
  with assms(5) have step: "take (nat (env_sequence e + 1)) journal = take (nat (at_lastSeq st + 1)) journal @ [e]"
    by (simp add: take_Suc_conv_app_nth assms(3))
  have "nat (a + 1) - nat (at_lastSeq st + 1) = 0" using assms(1) by (auto simp: up_to_date_def intro: nat_mono)
  with step show ?thesis using assms(1,2,4) by (simp add: up_to_date_def assms(3))
qed

lemma event_up_to_date:
  assumes "up_to_date journal a st" "- 1 \<le> a" "in_sequence journal" "\<not> at_aborted st"
    "gapless journal (at_lastSeq st) (in_journal (readable (x # ds)))"
  shows "up_to_date journal a (snd (attach_event x st)) \<and>
    gapless journal (at_lastSeq (snd (attach_event x st))) (in_journal (readable ds))"
proof (cases x)
  case (Some e)
  show ?thesis
  proof (cases "env_sequence e < 0")
    case True
    with Some assms show ?thesis
      by (auto simp: attach_event_def Let_def up_to_date_def delivered_def)
  next
    case False
    from assms(1,2) have c: "- 1 \<le> at_lastSeq st" by (simp add: up_to_date_def)
    from assms(5) False Some have "gapless journal (at_lastSeq st) (e # in_journal (readable ds))" by simp
    note e = gapless_Cons [OF this assms(3) c]
    show ?thesis
    proof (cases "env_sequence e \<le> at_lastSeq st")
      case True
      with Some False assms(1,4) e(5) show ?thesis by (simp add: attach_event_def)
    next
      case fresh: False
      with e(2) have n: "env_sequence e = at_lastSeq st + 1" by simp
      from delivered_fresh [OF assms(1,2) n e(3,4)] assms(1) False fresh e(3,5) Some assms(4)
      show ?thesis by (auto simp: attach_event_def Let_def up_to_date_def delivered_def)
    qed
  qed
qed (use assms in \<open>simp add: attach_event_def\<close>)

lemma event_stops: "fst (attach_event x st) \<longleftrightarrow> at_aborted (snd (attach_event x st))"
  by (auto simp: attach_event_def Let_def split: option.split)

lemma events_up_to_date:
  assumes "up_to_date journal a st" "- 1 \<le> a" "in_sequence journal" "\<not> at_aborted st"
    "gapless journal (at_lastSeq st) (in_journal (readable ds))"
  shows "up_to_date journal a (attach_events ds st)"
  using assms
proof (induction ds arbitrary: st)
  case (Cons x ds)
  from event_up_to_date [OF Cons.prems] have s: "up_to_date journal a (snd (attach_event x st))"
      "gapless journal (at_lastSeq (snd (attach_event x st))) (in_journal (readable ds))" by auto
  show ?case
  proof (cases "fst (attach_event x st)")
    case True
    with s(1) show ?thesis by (simp add: case_prod_beta)
  next
    case False
    with Cons.IH [OF s(1) Cons.prems(2,3) _ s(2)] event_stops show ?thesis by (simp add: case_prod_beta)
  qed
qed simp

lemma close_keeps: "at_lastSeq (attach_close opts p st) = at_lastSeq st" "delivered (attach_close opts p st) = delivered st"
  by (simp_all add: attach_close_def delivered_def)

lemma up_to_date_same:
  "at_lastSeq st' = at_lastSeq st \<Longrightarrow> delivered st' = delivered st \<Longrightarrow> up_to_date journal a st' = up_to_date journal a st"
  by (simp add: up_to_date_def)

lemma decoded_stream:
  assumes "served decode journal server" "- 1 \<le> c"
  shows "gapless journal c (in_journal (readable (heard decode (server c))))"
proof -
  from assms obtain es where es: "carries decode (server c) es" "gapless journal c (in_journal es)"
    by (auto simp: served_def)
  from gapless_prefix [OF es(2) in_journal_prefix [OF heard_carried(1) [OF es(1)]]] show ?thesis .
qed

lemma connect_idle:
  "\<not> at_pending st \<or> at_aborted st \<or> at_terminal st \<Longrightarrow>
    attach_connect opts decode server st = st\<lparr>at_pending := False\<rparr>"
  by (auto simp: attach_connect_def)

lemma connect_open:
  assumes "at_pending st" "\<not> at_aborted st" "\<not> at_terminal st" "heard decode (server (at_lastSeq st)) = ds"
    "attach_events ds (host_call (Request (at_lastSeq st)) (st\<lparr>at_pending := False\<rparr>)) = st1"
  shows "attach_connect opts decode server st =
    attach_close opts (close_permanent (server (at_lastSeq st)))
      (st1\<lparr>at_aborted := (at_aborted st1 \<or> (\<exists>cs. server (at_lastSeq st) = Body cs CallerAborts))\<rparr>)"
  unfolding assms(4,5) [symmetric] attach_connect_def Let_def using assms(1-3)
  by (auto split: response.split body_end.split)

lemma connect_up_to_date:
  assumes "up_to_date journal a st" "- 1 \<le> a" "in_sequence journal"
    "served decode journal server"
  shows "up_to_date journal a (attach_connect opts decode server st)"
proof (cases "\<not> at_pending st \<or> at_aborted st \<or> at_terminal st")
  case True
  with assms(1) show ?thesis by (simp add: connect_idle up_to_date_def delivered_def)
next
  case False
  from assms(1,2) have c: "- 1 \<le> at_lastSeq st" by (simp add: up_to_date_def)
  let ?st = "host_call (Request (at_lastSeq st)) (st\<lparr>at_pending := False\<rparr>)"
  have "up_to_date journal a (attach_events (heard decode (server (at_lastSeq st))) ?st)"
  proof (rule events_up_to_date [OF _ assms(2,3)])
    show "up_to_date journal a ?st" using assms(1) by (simp add: up_to_date_def delivered_def)
    show "gapless journal (at_lastSeq ?st) (in_journal (readable (heard decode (server (at_lastSeq st)))))"
      using decoded_stream [OF assms(4) c] by simp
  qed (use False in simp)
  then show ?thesis
    using connect_open [where server = server and st = st and decode = decode and opts = opts, OF _ _ _ refl refl] False by (simp add: Let_def up_to_date_def close_keeps) (simp add: delivered_def)
qed

section \<open>Completion\<close>

text \<open>\<^verbatim>\<open>onComplete\<close> and \<^verbatim>\<open>onError\<close> come last, and one of them at most.\<close>

definition unended :: "attach_call list \<Rightarrow> bool" where
  "unended cs \<longleftrightarrow> (\<forall>c \<in> set cs. case c of Complete \<Rightarrow> False | GiveUp _ \<Rightarrow> False | _ \<Rightarrow> True)"

lemma unended_simps [simp]:
  "unended []" "unended (xs @ ys) \<longleftrightarrow> unended xs \<and> unended ys"
  "unended (Deliver e # cs) = unended cs" "unended (Request i # cs) = unended cs" "unended (Wait d # cs) = unended cs"
  "\<not> unended (Complete # cs)" "\<not> unended (GiveUp err # cs)"
  by (auto simp: unended_def)

definition ended_or_not :: "attach_state \<Rightarrow> bool" where
  "ended_or_not st \<longleftrightarrow>
     (if at_terminal st then at_aborted st \<and> (\<exists>cs. at_calls st = cs @ [Complete] \<and> unended cs) else unended (at_calls st))"

definition well_ended :: "attach_state \<Rightarrow> bool" where
  "well_ended st \<longleftrightarrow> ended_or_not st \<or>
     \<not> at_pending st \<and> \<not> at_terminal st \<and> (\<exists>cs err. at_calls st = cs @ [GiveUp err] \<and> unended cs)"

lemma event_ended: "ended_or_not st \<Longrightarrow> ended_or_not (snd (attach_event x st))"
  by (auto simp: ended_or_not_def attach_event_def Let_def split: option.split if_splits)

lemma events_ended: "ended_or_not st \<Longrightarrow> ended_or_not (attach_events ds st)"
proof (induction ds arbitrary: st)
  case (Cons x ds)
  from event_ended [OF Cons.prems] Cons.IH show ?case by (simp add: case_prod_beta)
qed simp

lemma events_pending: "at_pending (attach_events ds st) = at_pending st"
proof (induction ds arbitrary: st)
  case (Cons x ds)
  have "at_pending (snd (attach_event x st)) = at_pending st" by (auto simp: attach_event_def Let_def split: option.split)
  with Cons.IH show ?case by (simp add: case_prod_beta)
qed simp

lemma close_ended: "ended_or_not st \<Longrightarrow> \<not> at_pending st \<Longrightarrow> well_ended (attach_close opts p st)"
  by (auto simp: well_ended_def ended_or_not_def attach_close_def)

lemma connect_ended:
  assumes "well_ended st"
  shows "well_ended (attach_connect opts decode server st)"
proof (cases "\<not> at_pending st \<or> at_aborted st \<or> at_terminal st")
  case False
  let ?s = "attach_events (heard decode (server (at_lastSeq st))) (host_call (Request (at_lastSeq st)) (st\<lparr>at_pending := False\<rparr>))"
  have "ended_or_not ?s" by (rule events_ended) (use assms False in \<open>simp add: well_ended_def ended_or_not_def\<close>)
  then have "ended_or_not (?s\<lparr>at_aborted := at_aborted ?s \<or> b\<rparr>)" for b by (auto simp: ended_or_not_def split: if_splits)
  from close_ended [OF this] show ?thesis
    using connect_open [where server = server and st = st and decode = decode and opts = opts, OF _ _ _ refl refl] False
    by (simp add: events_pending)
qed (use assms in \<open>auto simp: connect_idle well_ended_def ended_or_not_def\<close>)

lemma ended_quiet: "well_ended st \<Longrightarrow> unended (butlast (at_calls st))"
proof -
  have "unended cs \<Longrightarrow> unended (butlast cs)" for cs by (auto simp: unended_def dest: in_set_butlastD)
  then show "well_ended st \<Longrightarrow> unended (butlast (at_calls st))" by (auto simp: well_ended_def ended_or_not_def split: if_splits)
qed

text \<open>A completed client has been given the end of the journal, or its access was revoked.\<close>

definition rightly_ended :: "envelope list \<Rightarrow> attach_state \<Rightarrow> bool" where
  "rightly_ended journal st \<longleftrightarrow>
     (if at_terminal st then \<exists>ds e. deliveries (at_calls st) = ds @ [e] \<and>
        (e = last journal \<and> at_lastSeq st = int (length journal) - 1 \<or> env_sequence e < 0 \<and> env_kind e = AccessRevoked)
      else at_lastSeq st + 1 < int (length journal))"

definition ends_once :: "envelope list \<Rightarrow> bool" where
  "ends_once journal \<longleftrightarrow> (\<forall>q < length journal. isTerminalRunEventKind (env_kind (journal ! q)) \<longleftrightarrow> Suc q = length journal)"

lemma event_rightly:
  assumes "rightly_ended journal st" "ends_once journal" "in_sequence journal" "- 1 \<le> at_lastSeq st"
    "gapless journal (at_lastSeq st) (in_journal (readable (x # ds)))" "\<not> at_terminal st"
  shows "rightly_ended journal (snd (attach_event x st))"
proof (cases x)
  case (Some e)
  show ?thesis
  proof (cases "env_sequence e < 0")
    case True
    with Some assms(1,6) show ?thesis by (auto simp: attach_event_def Let_def rightly_ended_def)
  next
    case False
    with assms(5) Some have "gapless journal (at_lastSeq st) (e # in_journal (readable ds))" by simp
    note e = gapless_Cons [OF this assms(3,4)]
    then have n: "nat (env_sequence e) < length journal" by linarith
    with e(1) have i: "Suc (nat (env_sequence e)) = length journal \<longleftrightarrow> env_sequence e + 1 = int (length journal)" by linarith
    from n assms(2) e have "isTerminalRunEventKind (env_kind e) \<longleftrightarrow> Suc (nat (env_sequence e)) = length journal"
      by (auto simp: ends_once_def)
    from n have "journal \<noteq> []" by auto
    then have "e = last journal" if "env_sequence e + 1 = int (length journal)"
      using that i e(4) by (auto simp: last_conv_nth dest: arg_cong [where f = "\<lambda>k. k - 1"])
    with Some assms(1,6) False i e(3) \<open>isTerminalRunEventKind _ \<longleftrightarrow> _\<close>
    show ?thesis by (auto simp: attach_event_def Let_def rightly_ended_def)
  qed
qed (use assms in \<open>simp add: attach_event_def\<close>)

lemma running_event: "at_terminal (snd (attach_event x st)) \<Longrightarrow> \<not> at_terminal st \<Longrightarrow> fst (attach_event x st)"
  by (auto simp: attach_event_def Let_def split: option.splits if_splits)

lemma events_rightly:
  assumes "rightly_ended journal st" "ends_once journal" "up_to_date journal a st" "- 1 \<le> a" "in_sequence journal"
    "\<not> at_aborted st" "\<not> at_terminal st" "gapless journal (at_lastSeq st) (in_journal (readable ds))"
  shows "rightly_ended journal (attach_events ds st)"
  using assms
proof (induction ds arbitrary: st)
  case (Cons x ds)
  let ?s = "snd (attach_event x st)"
  from event_up_to_date [OF Cons.prems(3-6) Cons.prems(8)] have s: "up_to_date journal a ?s"
      "gapless journal (at_lastSeq ?s) (in_journal (readable ds))" by auto
  from Cons.prems(3,4) have "- 1 \<le> at_lastSeq st" by (simp add: up_to_date_def)
  from event_rightly [OF Cons.prems(1,2,5) this Cons.prems(8,7)] have r: "rightly_ended journal ?s" .
  show ?case
  proof (cases "fst (attach_event x st)")
    case True
    with r show ?thesis by (simp add: case_prod_beta)
  next
    case False
    then have "\<not> at_aborted ?s" "\<not> at_terminal ?s" using event_stops running_event Cons.prems(7) by blast+
    from Cons.IH [OF r Cons.prems(2) s(1) Cons.prems(4,5) this s(2)] False show ?thesis by (simp add: case_prod_beta)
  qed
qed simp

text \<open>A connection that sends the rest of the journal completes the client.\<close>

lemma last_in_sequence: "in_sequence journal \<Longrightarrow> journal \<noteq> [] \<Longrightarrow> env_sequence (last journal) = int (length journal) - 1"
  by (cases journal rule: rev_cases) (auto simp: in_sequence_def dest: spec [of _ "length journal - 1"])

lemma events_to_end:
  assumes "up_to_date journal a st" "- 1 \<le> a" "in_sequence journal" "ends_once journal" "\<not> at_aborted st" "\<not> at_terminal st"
    "gapless journal (at_lastSeq st) (in_journal (readable ds))" "in_journal (readable ds) \<noteq> []"
    "last (in_journal (readable ds)) = last journal" "at_lastSeq st + 1 < int (length journal)"
  shows "at_terminal (attach_events ds st)"
  using assms
proof (induction ds arbitrary: st)
  case (Cons x ds)
  let ?s = "snd (attach_event x st)"
  from event_up_to_date [OF Cons.prems(1-3,5,7)] have s: "up_to_date journal a ?s"
      "gapless journal (at_lastSeq ?s) (in_journal (readable ds))" by auto
  show ?case
  proof (cases "at_terminal ?s")
    case True
    with running_event Cons.prems(6) show ?thesis by (simp add: case_prod_beta)
  next
    case False
    with Cons.prems(5,6) have run: "\<not> at_aborted ?s" by (auto simp: attach_event_def Let_def split: option.splits if_splits)
    have "in_journal (readable ds) \<noteq> [] \<and> last (in_journal (readable ds)) = last journal \<and> at_lastSeq ?s + 1 < int (length journal)"
    proof (cases "\<exists>e. x = Some e \<and> 0 \<le> env_sequence e")
      case True
      then obtain e where x: "x = Some e" "0 \<le> env_sequence e" by blast
      from Cons.prems(1,2) have "- 1 \<le> at_lastSeq st" by (simp add: up_to_date_def)
      with gapless_Cons [OF _ Cons.prems(3), of _ e] Cons.prems(7) x
      have e: "env_sequence e \<le> at_lastSeq st + 1" "env_sequence e < int (length journal)" "journal ! nat (env_sequence e) = e"
        by simp_all
      then have "isTerminalRunEventKind (env_kind e) \<longleftrightarrow> env_sequence e + 1 = int (length journal)"
        using Cons.prems(4) x(2) by (auto simp: ends_once_def dest!: spec [of _ "nat (env_sequence e)"])
      then have n: "env_sequence e \<le> at_lastSeq st \<or> env_sequence e + 1 < int (length journal)"
        using False x e Cons.prems(5) by (auto simp: attach_event_def Let_def split: if_splits)
      with Cons.prems(10) e(1) have "env_sequence e \<noteq> int (length journal) - 1" by linarith
      with last_in_sequence [OF Cons.prems(3)] e(2) x(2) have "e \<noteq> last journal" by fastforce
      with Cons.prems(8,9) x n Cons.prems(5,10) False show ?thesis
        by (auto simp: attach_event_def Let_def split: if_splits)
    next
      case False
      with Cons.prems(8-10) show ?thesis by (cases x) (auto simp: attach_event_def Let_def)
    qed
    with Cons.IH [OF s(1) Cons.prems(2-4) run False s(2)] run show ?thesis
      using event_stops [of x st] by (simp add: case_prod_beta)
  qed
qed simp

section \<open>Reconnecting\<close>

text \<open>A server that never refuses, and a caller that does not abort.\<close>

definition steady :: "(int \<Rightarrow> response) \<Rightarrow> bool" where
  "steady server \<longleftrightarrow> (\<forall>c. \<not> close_permanent (server c) \<and> (\<forall>cs. server c \<noteq> Body cs CallerAborts))"

text \<open>A server that answers every cursor with all the events after it.\<close>

definition serves_rest :: "(string \<Rightarrow> envelope option) \<Rightarrow> envelope list \<Rightarrow> (int \<Rightarrow> response) \<Rightarrow> bool" where
  "serves_rest decode journal server \<longleftrightarrow>
     (\<forall>c \<ge> - 1. c + 1 < int (length journal) \<longrightarrow> (\<exists>cs es. server c = Body cs Graceful \<and> carries decode (server c) es \<and>
        gapless journal c (in_journal es) \<and> in_journal es \<noteq> [] \<and> last (in_journal es) = last journal))"

definition waiting :: "attach_state \<Rightarrow> bool" where
  "waiting st \<longleftrightarrow> at_pending st \<and> \<not> at_aborted st \<and> \<not> at_terminal st"

lemma event_flags:
  "at_reconnects (snd (attach_event x st)) \<le> at_reconnects st \<and>
   (at_aborted st = at_terminal st \<longrightarrow> at_aborted (snd (attach_event x st)) = at_terminal (snd (attach_event x st)))"
  by (auto simp: attach_event_def Let_def attach_complete_def split: option.split)

lemma events_flags:
  "at_reconnects (attach_events ds st) \<le> at_reconnects st \<and>
   (at_aborted st = at_terminal st \<longrightarrow> at_aborted (attach_events ds st) = at_terminal (attach_events ds st))"
proof (induction ds arbitrary: st)
  case (Cons x ds)
  show ?case using event_flags [of x st] Cons.IH [of "snd (attach_event x st)"] by (auto simp: case_prod_beta)
qed simp

lemma connect_waits:
  assumes "waiting st" "steady server" "int (at_reconnects st) < ao_maxReconnects opts"
  shows "at_terminal (attach_connect opts decode server st) \<or>
    waiting (attach_connect opts decode server st) \<and>
    at_reconnects (attach_connect opts decode server st) \<le> Suc (at_reconnects st)"
proof -
  let ?st = "host_call (Request (at_lastSeq st)) (st\<lparr>at_pending := False\<rparr>)"
  let ?s = "attach_events (heard decode (server (at_lastSeq st))) ?st"
  have w: "at_pending st" "\<not> at_aborted st" "\<not> at_terminal st" using assms(1) by (auto simp: waiting_def)
  have r: "at_reconnects ?s \<le> at_reconnects st" "at_aborted ?s = at_terminal ?s"
    using events_flags [of "heard decode (server (at_lastSeq st))" ?st] w by simp_all
  have "attach_connect opts decode server st = attach_close opts False (?s\<lparr>at_aborted := at_aborted ?s\<rparr>)"
    using connect_open [where server = server and st = st and decode = decode and opts = opts, OF w refl refl] assms(2) by (simp add: steady_def)
  then show ?thesis using r assms(3) by (auto simp: attach_close_def waiting_def)
qed

lemma run_waits:
  assumes "\<forall>server \<in> set servers. steady server" "waiting st \<or> at_terminal st"
    "\<not> at_terminal st \<longrightarrow> int (at_reconnects st) + int (length servers) \<le> ao_maxReconnects opts"
  shows "waiting (attach_run opts decode servers st) \<or> at_terminal (attach_run opts decode servers st)"
  using assms
proof (induction servers arbitrary: st)
  case (Cons server servers)
  let ?s = "attach_connect opts decode server st"
  have "(waiting ?s \<or> at_terminal ?s) \<and>
      (\<not> at_terminal ?s \<longrightarrow> int (at_reconnects ?s) + int (length servers) \<le> ao_maxReconnects opts)"
  proof (cases "at_terminal st")
    case True
    then show ?thesis by (simp add: connect_idle)
  next
    case False
    with connect_waits [where st = st and server = server and opts = opts and decode = decode] Cons.prems show ?thesis by auto
  qed
  with Cons.IH Cons.prems(1) show ?case by (simp add: attach_run_def)
qed (simp add: attach_run_def)

lemma run_up_to_date:
  assumes "up_to_date journal a st" "- 1 \<le> a" "in_sequence journal"
    "\<forall>server \<in> set servers. served decode journal server"
  shows "up_to_date journal a (attach_run opts decode servers st)"
  using assms by (induction servers arbitrary: st) (auto simp: attach_run_def intro: connect_up_to_date)

lemma run_ended: "well_ended st \<Longrightarrow> well_ended (attach_run opts decode servers st)"
  by (induction servers arbitrary: st) (auto simp: attach_run_def connect_ended)

lemma connect_rightly:
  assumes "rightly_ended journal st" "ends_once journal" "up_to_date journal a st" "- 1 \<le> a" "in_sequence journal"
    "served decode journal server"
  shows "rightly_ended journal (attach_connect opts decode server st)"
proof (cases "\<not> at_pending st \<or> at_aborted st \<or> at_terminal st")
  case True
  with assms(1) show ?thesis by (simp add: connect_idle rightly_ended_def)
next
  case False
  let ?st = "host_call (Request (at_lastSeq st)) (st\<lparr>at_pending := False\<rparr>)"
  from assms(3,4) have c: "- 1 \<le> at_lastSeq st" by (simp add: up_to_date_def)
  have "rightly_ended journal (attach_events (heard decode (server (at_lastSeq st))) ?st)"
    by (rule events_rightly [OF _ assms(2) _ assms(4,5)])
      (use False assms(1,3) decoded_stream [OF assms(6) c] in \<open>auto simp: rightly_ended_def up_to_date_def delivered_def\<close>)
  then show ?thesis
    using connect_open [where server = server and st = st and decode = decode and opts = opts, OF _ _ _ refl refl] False
    by (simp add: Let_def rightly_ended_def attach_close_def)
qed

lemma run_rightly:
  assumes "rightly_ended journal st" "ends_once journal" "up_to_date journal a st" "- 1 \<le> a" "in_sequence journal"
    "\<forall>server \<in> set servers. served decode journal server"
  shows "rightly_ended journal (attach_run opts decode servers st)"
  using assms
  by (induction servers arbitrary: st)
    (auto simp: attach_run_def intro!: connect_rightly connect_up_to_date)

lemma connect_completes:
  assumes "up_to_date journal a st" "- 1 \<le> a" "in_sequence journal" "ends_once journal" "rightly_ended journal st"
    "serves_rest decode journal server" "waiting st"
  shows "at_terminal (attach_connect opts decode server st)"
proof -
  let ?st = "host_call (Request (at_lastSeq st)) (st\<lparr>at_pending := False\<rparr>)"
  have w: "at_pending st" "\<not> at_aborted st" "\<not> at_terminal st" using assms(7) by (auto simp: waiting_def)
  have c: "- 1 \<le> at_lastSeq st" "at_lastSeq st + 1 < int (length journal)"
    using assms(1,2,5) w by (auto simp: up_to_date_def rightly_ended_def)
  with assms(6) obtain cs es where es: "server (at_lastSeq st) = Body cs Graceful" "carries decode (server (at_lastSeq st)) es"
      "gapless journal (at_lastSeq st) (in_journal es)" "in_journal es \<noteq> []" "last (in_journal es) = last journal"
    by (auto simp: serves_rest_def)
  from heard_carried(2) [OF es(2,1)] have "readable (heard decode (server (at_lastSeq st))) = es" .
  with es(3-5) have "at_terminal (attach_events (heard decode (server (at_lastSeq st))) ?st)"
    by (intro events_to_end [OF _ assms(2-4)]) (use assms(1) w c in \<open>auto simp: up_to_date_def delivered_def\<close>)
  with connect_open [where server = server and st = st and decode = decode and opts = opts, OF w refl refl] show ?thesis by (simp add: attach_close_def)
qed

lemma start_ok:
  assumes "- 1 \<le> a" "a < int (length journal)"
  shows "up_to_date journal a (attach_start (Some a))" "well_ended (attach_start (Some a))" "waiting (attach_start (Some a))"
    "at_reconnects (attach_start (Some a)) = 0"
    "a + 1 < int (length journal) \<Longrightarrow> rightly_ended journal (attach_start (Some a))"
  using assms by (simp_all add: up_to_date_def well_ended_def ended_or_not_def waiting_def rightly_ended_def attach_start_def delivered_def)

lemma run_completes:
  assumes "in_sequence journal" "ends_once journal" "- 1 \<le> a" "a + 1 < int (length journal)"
    "\<forall>server \<in> set (servers @ [final]). served decode journal server \<and> steady server" "serves_rest decode journal final"
    "int (length servers) \<le> ao_maxReconnects opts"
  shows "at_terminal (attach_run opts decode (servers @ [final]) (attach_start (Some a))) \<and>
    well_ended (attach_run opts decode (servers @ [final]) (attach_start (Some a))) \<and>
    up_to_date journal a (attach_run opts decode (servers @ [final]) (attach_start (Some a))) \<and>
    rightly_ended journal (attach_run opts decode (servers @ [final]) (attach_start (Some a)))"
proof -
  have a: "a < int (length journal)" using assms(4) by simp
  note start = start_ok [OF assms(3) a]
  have s: "\<forall>server \<in> set servers. served decode journal server" "\<forall>server \<in> set servers. steady server" "served decode journal final"
    using assms(5) by auto
  let ?st = "attach_run opts decode servers (attach_start (Some a))"
  let ?fin = "attach_connect opts decode final ?st"
  have u: "up_to_date journal a ?st" by (rule run_up_to_date [OF start(1) assms(3,1) s(1)])
  have r: "rightly_ended journal ?st" by (rule run_rightly [OF start(5) [OF assms(4)] assms(2) start(1) assms(3,1) s(1)])
  have "waiting ?st \<or> at_terminal ?st" by (rule run_waits [OF s(2)]) (use start(3,4) assms(7) in auto)
  then have t: "at_terminal ?fin"
    using connect_completes [OF u assms(3,1,2) r assms(6), of opts] by (auto simp: connect_idle)
  have "up_to_date journal a ?fin" by (rule connect_up_to_date [OF u assms(3,1) s(3)])
  moreover have "rightly_ended journal ?fin" by (rule connect_rightly [OF r assms(2) u assms(3,1) s(3)])
  moreover have "well_ended ?fin" by (rule connect_ended [OF run_ended [OF start(2)]])
  moreover have "attach_run opts decode (servers @ [final]) (attach_start (Some a)) = ?fin" by (simp add: attach_run_def)
  ultimately show ?thesis using t by simp
qed

section \<open>A small run\<close>

definition text_frame :: "string \<Rightarrow> sse_item" where
  "text_frame s = Frame \<lparr>sf_id = None, sf_event = None, sf_text = s, sf_retry = None\<rparr>"

text \<open>A run of two events, cut off in the middle of the second one and resumed.\<close>

definition attach_journal :: "envelope list" where
  "attach_journal =
     [\<lparr>env_runId = ''r'', env_sequence = 0, env_kind = RunStarted, env_payload = [], env_timestamp = None\<rparr>,
      \<lparr>env_runId = ''r'', env_sequence = 1, env_kind = RunCompleted, env_payload = [], env_timestamp = None\<rparr>]"

definition attach_decode :: "string \<Rightarrow> envelope option" where
  "attach_decode s = (if s = ''a'' then Some (attach_journal ! 0) else if s = ''b'' then Some (attach_journal ! 1) else None)"

definition attach_frames :: "int \<Rightarrow> sse_item list" where
  "attach_frames c = (if c < 0 then [text_frame ''a'', text_frame ''b''] else if c = 0 then [text_frame ''b''] else [])"

definition whole_server :: "int \<Rightarrow> response" where
  "whole_server c = Body [concat (map wire (attach_frames c))] Graceful"

definition cut_server :: "int \<Rightarrow> response" where
  "cut_server c = Body [take 12 (concat (map wire (attach_frames c)))] Broken"

lemma attach_frames_carried:
  "carries attach_decode (whole_server c) (drop (nat (c + 1)) attach_journal)"
  "carries attach_decode (cut_server c) (drop (nat (c + 1)) attach_journal)"
proof -
  have f: "(\<forall>x \<in> set (attach_frames c). item_ok x) \<and>
      readable (map (\<lambda>ev. attach_decode (se_data ev)) (concat (map decoded (attach_frames c)))) = drop (nat (c + 1)) attach_journal"
  proof -
    consider "c < 0" | "c = 0" | "0 < c" by linarith
    then show ?thesis
      by cases (simp_all add: attach_frames_def text_frame_def item_ok_def decoded_def attach_decode_def attach_journal_def)
  qed
  then show "carries attach_decode (whole_server c) (drop (nat (c + 1)) attach_journal)"
    "carries attach_decode (cut_server c) (drop (nat (c + 1)) attach_journal)"
    by (auto simp: carries_def whole_server_def cut_server_def take_is_prefix intro!: exI [of _ "attach_frames c"])
qed

lemma attach_facts:
  "in_sequence attach_journal" "ends_once attach_journal"
  "\<forall>server \<in> {cut_server, whole_server}. served attach_decode attach_journal server \<and> steady server"
  "serves_rest attach_decode attach_journal whole_server"
proof -
  show s: "in_sequence attach_journal" "ends_once attach_journal"
    by (auto simp: in_sequence_def ends_once_def attach_journal_def isTerminalRunEventKind_def less_Suc_eq nth_Cons')
  have j: "in_journal (drop n attach_journal) = drop n attach_journal" for n
    by (cases n; cases "n - 1") (simp_all add: attach_journal_def)
  have g: "gapless attach_journal c (in_journal (drop (nat (c + 1)) attach_journal))" if "- 1 \<le> c" for c
    unfolding gapless_def j using that by (intro exI [of _ "nat (c + 1)"]) auto
  with attach_frames_carried show "\<forall>server \<in> {cut_server, whole_server}. served attach_decode attach_journal server \<and> steady server"
    by (auto simp: served_def steady_def whole_server_def cut_server_def close_permanent_def)
  show "serves_rest attach_decode attach_journal whole_server"
    unfolding serves_rest_def
  proof (intro allI impI)
    fix c :: int assume c: "- 1 \<le> c" "c + 1 < int (length attach_journal)"
    then have d: "drop (nat (c + 1)) attach_journal \<noteq> []" "last (drop (nat (c + 1)) attach_journal) = last attach_journal" by auto
    show "\<exists>cs es. whole_server c = Body cs Graceful \<and> carries attach_decode (whole_server c) es \<and>
        gapless attach_journal c (in_journal es) \<and> in_journal es \<noteq> [] \<and> last (in_journal es) = last attach_journal"
      by (intro exI conjI) (use attach_frames_carried(1) g [OF c(1)] d in \<open>auto simp: j whole_server_def\<close>)
  qed
qed

section \<open>Properties\<close>

text \<open>
  Claim C17: However connections break, overlap or are cut in the middle of a record, the host is handed the events of the
  journal after its cursor exactly once and in order, up to the cursor it would resume from; \<^verbatim>\<open>onComplete\<close> or \<^verbatim>\<open>onError\<close>
  is the last thing it hears. The server may resend any stretch of the journal that leaves no gap after the cursor it is
  asked for, with presence events and comments in between.
\<close>

theorem attach_exactly_once:
  assumes "in_sequence journal" "- 1 \<le> a" "a < int (length journal)"
    "\<forall>server \<in> set servers. served decode journal server"
  shows "let st = attach_run opts decode servers (attach_start (Some a)) in
    a \<le> at_lastSeq st \<and> at_lastSeq st < int (length journal) \<and>
    delivered st = drop (nat (a + 1)) (take (nat (at_lastSeq st + 1)) journal) \<and>
    (\<forall>c \<in> set (butlast (at_calls st)). c \<noteq> Complete \<and> (\<forall>err. c \<noteq> GiveUp err))"
proof -
  let ?st = "attach_run opts decode servers (attach_start (Some a))"
  from run_up_to_date [OF start_ok(1) [OF assms(2,3)] assms(2,1,4)] have "up_to_date journal a ?st" .
  moreover from ended_quiet [OF run_ended [OF start_ok(2) [OF assms(2,3)]]] have "unended (butlast (at_calls ?st))" .
  ultimately show ?thesis by (auto simp: Let_def up_to_date_def unended_def)
qed

lemma attach_exactly_once_witness:
  "map env_sequence (delivered (attach_run stream_defaults attach_decode [cut_server] (attach_start (Some (- 1))))) = [0]"
proof -
  let ?st = "attach_run stream_defaults attach_decode [cut_server] (attach_start (Some (- 1)))"
  from attach_exactly_once [of attach_journal "- 1" "[cut_server]" attach_decode stream_defaults] attach_facts
  have "delivered ?st = take (nat (at_lastSeq ?st + 1)) attach_journal" by (auto simp: Let_def attach_journal_def)
  moreover have "at_lastSeq ?st = 0" by code_simp
  ultimately show ?thesis by (simp add: attach_journal_def)
qed

text \<open>
  Claim C18: A client that is allowed as many reconnections as connections fail it completes as soon as a server sends it the
  rest of the run: it has the whole of the journal after its cursor, unless its access was revoked.
\<close>

theorem attach_completes:
  assumes "in_sequence journal" "ends_once journal" "- 1 \<le> a" "a + 1 < int (length journal)"
    "\<forall>server \<in> set (servers @ [final]). served decode journal server \<and> steady server" "serves_rest decode journal final"
    "int (length servers) \<le> ao_maxReconnects opts"
  shows "let st = attach_run opts decode (servers @ [final]) (attach_start (Some a)) in
    last (at_calls st) = Complete \<and>
    (delivered st = drop (nat (a + 1)) journal \<or> env_kind (last (deliveries (at_calls st))) = AccessRevoked)"
  using run_completes [OF assms] by (auto simp: Let_def well_ended_def ended_or_not_def up_to_date_def rightly_ended_def)

lemma attach_completes_witness:
  "last (at_calls (attach_run stream_defaults attach_decode [cut_server, whole_server] (attach_start (Some (- 1))))) = Complete"
  using attach_completes [of attach_journal "- 1" "[cut_server]" whole_server attach_decode stream_defaults] attach_facts
  by (auto simp: Let_def attach_journal_def stream_defaults_def)

end
