(* ===== verification/RunSession.thy ===== *)
theory RunSession
  imports RunAttach
begin

text \<open>
  The session of a run on the client (\<^verbatim>\<open>packages/client/src/run-session.ts\<close>) and the cursors it keeps for a refresh
  (\<^verbatim>\<open>packages/client/src/cursor.ts\<close>). What the code awaits is two steps here, so that other calls can come in between;
  each attachment may call back as long as it is live. Cursors are stored as values (the code stores their JSON text).
\<close>

section \<open>Cursors\<close>

record run_cursor =
  cu_runId :: string
  cu_lastSequence :: int
  cu_surface :: "string option"
  cu_updatedAt :: rat

type_synonym cursors = "(string \<times> run_cursor) list"

definition cursor_get :: "string \<Rightarrow> cursors \<Rightarrow> run_cursor option" where
  "cursor_get r cs = map_of cs r"

definition cursor_set :: "run_cursor \<Rightarrow> cursors \<Rightarrow> cursors" where
  "cursor_set c cs = AList.update (cu_runId c) c cs"

definition cursor_clear :: "string \<Rightarrow> cursors \<Rightarrow> cursors" where
  "cursor_clear r cs = AList.delete r cs"

definition cursor_clearAll :: cursors where
  "cursor_clearAll = []"

text \<open>Newest first.\<close>

definition cursor_list :: "cursors \<Rightarrow> run_cursor list" where
  "cursor_list cs = sort_key (\<lambda>c. - cu_updatedAt c) (map snd cs)"

definition cursor_latest :: "cursors \<Rightarrow> run_cursor option" where
  "cursor_latest cs = (case cursor_list cs of [] \<Rightarrow> None | c # _ \<Rightarrow> Some c)"

definition isCursorResumable :: "run_cursor \<Rightarrow> rat \<Rightarrow> rat \<Rightarrow> bool" where
  "isCursorResumable c windowMs now \<longleftrightarrow> windowMs \<le> 0 \<or> now - cu_updatedAt c \<le> windowMs"

section \<open>State\<close>

datatype session_status = Idle | Submitted | StreamingRun | Ready | SessionError

definition terminal_status :: "event_kind \<Rightarrow> session_status option" where
  "terminal_status k = (case k of RunCompleted \<Rightarrow> Some Ready | RunFailed \<Rightarrow> Some SessionError | RunCancelledEvent \<Rightarrow> Some Ready
     | _ \<Rightarrow> None)"

record start_input =
  si_input :: "payload option"
  si_metadata :: "payload option"
  si_surface :: "string option"
  si_key :: "string option"

record start_request =
  sq_key :: string
  sq_surface :: string
  sq_input :: "payload option"
  sq_metadata :: "payload option"

record session_view =
  su_status :: session_status
  su_runId :: "string option"
  su_model :: run_view
  su_error :: "string option"

datatype session_call =
    StartRun start_request
  | AttachRun string int
  | CancelRun string
  | PostEvent string payload
  | SetPresence string payload

record session_opts =
  so_surface :: string
  so_throttleMs :: int
  so_cursor :: bool
  so_resumeWindowMs :: rat
  so_afterSequence :: "int option"

text \<open>
  Attachment \<open>n\<close> is the nth of \<open>AttachRun\<close>; \<open>rs_live\<close> tells which may still call back. \<open>rs_starting\<close>, \<open>rs_stopping\<close> and
  \<open>rs_resuming\<close> are the calls that await the server or the cursor store, \<open>rs_waiting\<close> the pending promises of \<^verbatim>\<open>done()\<close>.
\<close>

record session =
  rs_status :: session_status
  rs_runId :: "string option"
  rs_model :: run_view
  rs_error :: "string option"
  rs_lastInput :: "start_input option"
  rs_surface :: string
  rs_controller :: "nat option"
  rs_disposed :: bool
  rs_terminalKind :: "event_kind option"
  rs_timer :: bool
  rs_waiting :: nat
  rs_live :: "bool list"
  rs_starting :: nat
  rs_stopping :: nat
  rs_resuming :: "(string \<times> run_cursor option) list"
  rs_cursors :: cursors
  rs_calls :: "session_call list"
  rs_emitted :: "session_view list"
  rs_settled :: "session_view list"

definition session_new :: "session_opts \<Rightarrow> cursors \<Rightarrow> session" where
  "session_new opts cs =
     \<lparr>rs_status = Idle, rs_runId = None, rs_model = emptyRunViewModel, rs_error = None, rs_lastInput = None,
      rs_surface = so_surface opts, rs_controller = None, rs_disposed = False, rs_terminalKind = None, rs_timer = False,
      rs_waiting = 0, rs_live = [], rs_starting = 0, rs_stopping = 0, rs_resuming = [], rs_cursors = cs, rs_calls = [],
      rs_emitted = [], rs_settled = []\<rparr>"

definition in_progress :: "session \<Rightarrow> bool" where
  "in_progress st \<longleftrightarrow> rs_status st = Submitted \<or> rs_status st = StreamingRun"

definition snapshot :: "session \<Rightarrow> session_view" where
  "snapshot st = \<lparr>su_status = rs_status st, su_runId = rs_runId st, su_model = rs_model st, su_error = rs_error st\<rparr>"

section \<open>Helpers\<close>

definition session_emit :: "session \<Rightarrow> session" where
  "session_emit st = st\<lparr>rs_timer := False, rs_emitted := rs_emitted st @ [snapshot st]\<rparr>"

definition notify :: "session_opts \<Rightarrow> bool \<Rightarrow> session \<Rightarrow> session" where
  "notify opts immediate st =
     (if rs_disposed st then st
      else if immediate \<or> so_throttleMs opts \<le> 0 then session_emit st
      else st\<lparr>rs_timer := True\<rparr>)"

definition settleDone :: "session \<Rightarrow> session" where
  "settleDone st = st\<lparr>rs_settled := rs_settled st @ replicate (rs_waiting st) (snapshot st), rs_waiting := 0\<rparr>"

definition detach :: "session \<Rightarrow> session" where
  "detach st = (case rs_controller st of None \<Rightarrow> st
     | Some n \<Rightarrow> st\<lparr>rs_live := (rs_live st)[n := False], rs_controller := None\<rparr>)"

definition persistCursor :: "session_opts \<Rightarrow> rat \<Rightarrow> int \<Rightarrow> session \<Rightarrow> session" where
  "persistCursor opts now sq st =
     (case rs_runId st of
        Some r \<Rightarrow> if so_cursor opts \<and> r \<noteq> [] then st\<lparr>rs_cursors := cursor_set
            \<lparr>cu_runId = r, cu_lastSequence = sq, cu_surface = Some (rs_surface st), cu_updatedAt = now\<rparr> (rs_cursors st)\<rparr> else st
      | None \<Rightarrow> st)"

definition clearCursor :: "session_opts \<Rightarrow> session \<Rightarrow> session" where
  "clearCursor opts st =
     (case rs_runId st of
        Some r \<Rightarrow> if so_cursor opts \<and> r \<noteq> [] then st\<lparr>rs_cursors := cursor_clear r (rs_cursors st)\<rparr> else st
      | None \<Rightarrow> st)"

definition session_finalize :: "session_opts \<Rightarrow> session_status \<Rightarrow> string option \<Rightarrow> session \<Rightarrow> session" where
  "session_finalize opts nxt err st =
     (let st1 = st\<lparr>rs_status := nxt, rs_error := (case err of Some e \<Rightarrow> Some e | None \<Rightarrow> rs_error st)\<rparr>
      in settleDone (notify opts True (clearCursor opts st1)))"

definition beginAttach :: "string \<Rightarrow> int \<Rightarrow> session \<Rightarrow> session" where
  "beginAttach r after st =
     st\<lparr>rs_terminalKind := None, rs_calls := rs_calls st @ [AttachRun r after], rs_live := rs_live st @ [True],
        rs_controller := Some (length (rs_live st))\<rparr>"

section \<open>The callbacks of an attachment\<close>

definition session_event ::
  "session_opts \<Rightarrow> (string \<Rightarrow> json option) \<Rightarrow> rat \<Rightarrow> nat \<Rightarrow> envelope \<Rightarrow> session \<Rightarrow> session" where
  "session_event opts parse now n e st =
     (if \<not> (n < length (rs_live st) \<and> rs_live st ! n) then st
      else
        (let st1 = st\<lparr>rs_model := streamReducer parse now e (rs_model st)\<rparr>;
             st2 = (if rs_status st1 = Submitted then st1\<lparr>rs_status := StreamingRun\<rparr> else st1);
             st3 = (if terminal_status (env_kind e) \<noteq> None then st2\<lparr>rs_terminalKind := Some (env_kind e)\<rparr> else st2)
         in notify opts False (persistCursor opts now (env_sequence e) st3)))"

definition session_complete :: "session_opts \<Rightarrow> nat \<Rightarrow> session \<Rightarrow> session" where
  "session_complete opts n st =
     (if \<not> (n < length (rs_live st) \<and> rs_live st ! n) then st
      else session_finalize opts
             (case rs_terminalKind st of Some k \<Rightarrow> nullish (terminal_status k) Ready | None \<Rightarrow> Ready) None
             (st\<lparr>rs_live := (rs_live st)[n := False]\<rparr>))"

definition session_lost :: "session_opts \<Rightarrow> nat \<Rightarrow> string \<Rightarrow> session \<Rightarrow> session" where
  "session_lost opts n err st =
     (if \<not> (n < length (rs_live st) \<and> rs_live st ! n) then st
      else session_finalize opts SessionError (Some err) (st\<lparr>rs_live := (rs_live st)[n := False]\<rparr>))"

section \<open>The operations\<close>

definition not_usable :: "session \<Rightarrow> string option" where
  "not_usable st =
     (if rs_disposed st then Some ''run session disposed''
      else if in_progress st then Some ''a run is already in progress'' else None)"

definition session_start :: "session_opts \<Rightarrow> string \<Rightarrow> start_input \<Rightarrow> session \<Rightarrow> string + session" where
  "session_start opts freshId inp st =
     (case not_usable st of Some e \<Rightarrow> Inl e
      | None \<Rightarrow>
        (let surface = nullish (si_surface inp) (so_surface opts);
             st1 = (detach st)\<lparr>rs_lastInput := Some inp, rs_model := emptyRunViewModel, rs_error := None, rs_runId := None,
                     rs_terminalKind := None, rs_surface := surface, rs_status := Submitted\<rparr>;
             st2 = notify opts True st1;
             req = \<lparr>sq_key = nullish (si_key inp) freshId, sq_surface = surface, sq_input = si_input inp,
                     sq_metadata = si_metadata inp\<rparr>
         in Inr (st2\<lparr>rs_calls := rs_calls st2 @ [StartRun req], rs_starting := Suc (rs_starting st2)\<rparr>)))"

datatype run_record_status = RecFailed | RecCompleted | RecCancelled | RecActive

text \<open>The server has answered a start.\<close>

definition session_started :: "session_opts \<Rightarrow> string + (string \<times> run_record_status) \<Rightarrow> session \<Rightarrow> session" where
  "session_started opts answer st =
     (if rs_starting st = 0 then st
      else
        (let st0 = st\<lparr>rs_starting := rs_starting st - 1\<rparr> in
         case answer of
           Inl e \<Rightarrow> session_finalize opts SessionError (Some e) st0
         | Inr (r, rec) \<Rightarrow>
             if rs_disposed st0 then st0
             else
               (let st1 = st0\<lparr>rs_runId := Some r\<rparr> in
                case rec of
                  RecFailed \<Rightarrow> session_finalize opts SessionError (Some ''run failed at creation'') st1
                | RecCompleted \<Rightarrow> session_finalize opts Ready None st1
                | RecCancelled \<Rightarrow> session_finalize opts Ready None st1
                | RecActive \<Rightarrow> beginAttach r (nullish (so_afterSequence opts) (- 1)) (notify opts True st1))))"

definition session_resume :: "session_opts \<Rightarrow> string \<Rightarrow> session \<Rightarrow> string + session" where
  "session_resume opts r st =
     (case not_usable st of Some e \<Rightarrow> Inl e
      | None \<Rightarrow> if \<not> so_cursor opts then Inl ''resume requires a cursor store''
          else Inr (st\<lparr>rs_resuming := rs_resuming st @ [(r, cursor_get r (rs_cursors st))]\<rparr>))"

text \<open>The cursor store has answered the first pending resume.\<close>

definition session_resumed :: "session_opts \<Rightarrow> rat \<Rightarrow> session \<Rightarrow> session" where
  "session_resumed opts now st =
     (case rs_resuming st of
        [] \<Rightarrow> st
      | (r, saved) # others \<Rightarrow>
          (let st0 = st\<lparr>rs_resuming := others\<rparr> in
           case saved of
             None \<Rightarrow> st0
           | Some c \<Rightarrow>
               if \<not> isCursorResumable c (so_resumeWindowMs opts) now
               then st0\<lparr>rs_cursors := cursor_clear r (rs_cursors st0)\<rparr>
               else
                 (let st1 = (detach st0)\<lparr>rs_model := emptyRunViewModel, rs_error := None, rs_runId := Some r,
                        rs_terminalKind := None, rs_surface := nullish (cu_surface c) (so_surface opts), rs_status := Submitted\<rparr>
                  in beginAttach r (- 1) (notify opts True st1))))"

definition session_stop :: "session_opts \<Rightarrow> session \<Rightarrow> session" where
  "session_stop opts st =
     (if \<not> in_progress st then st
      else
        (let st1 = detach st in
         case rs_runId st1 of
           Some r \<Rightarrow> if r \<noteq> [] then st1\<lparr>rs_calls := rs_calls st1 @ [CancelRun r], rs_stopping := Suc (rs_stopping st1)\<rparr>
                    else session_finalize opts Ready None st1
         | None \<Rightarrow> session_finalize opts Ready None st1))"

definition session_stopped :: "session_opts \<Rightarrow> session \<Rightarrow> session" where
  "session_stopped opts st =
     (if rs_stopping st = 0 then st else session_finalize opts Ready None (st\<lparr>rs_stopping := rs_stopping st - 1\<rparr>))"

definition session_regenerate :: "session_opts \<Rightarrow> string \<Rightarrow> session \<Rightarrow> string + session" where
  "session_regenerate opts freshId st =
     (case rs_lastInput st of None \<Rightarrow> Inl ''nothing to regenerate'' | Some inp \<Rightarrow> session_start opts freshId inp st)"

definition session_reset :: "session_opts \<Rightarrow> session \<Rightarrow> session" where
  "session_reset opts st =
     notify opts True ((clearCursor opts (detach st))\<lparr>rs_status := Idle, rs_model := emptyRunViewModel, rs_runId := None,
       rs_error := None, rs_terminalKind := None\<rparr>)"

text \<open>\<^verbatim>\<open>done()\<close> answers at once when the run is over.\<close>

definition session_done :: "session \<Rightarrow> session" where
  "session_done st =
     (if rs_status st = Ready \<or> rs_status st = SessionError then st\<lparr>rs_settled := rs_settled st @ [snapshot st]\<rparr>
      else st\<lparr>rs_waiting := Suc (rs_waiting st)\<rparr>)"

definition session_dispose :: "session \<Rightarrow> session" where
  "session_dispose st = (detach (st\<lparr>rs_disposed := True\<rparr>))\<lparr>rs_timer := False, rs_waiting := 0\<rparr>"

definition timer_fires :: "session \<Rightarrow> session" where
  "timer_fires st = (if rs_timer st then session_emit st else st)"

definition session_sendEvent :: "payload \<Rightarrow> session \<Rightarrow> string + session" where
  "session_sendEvent p st =
     (case rs_runId st of
        Some r \<Rightarrow> if r = [] then Inl ''no active run to send an event to'' else Inr (st\<lparr>rs_calls := rs_calls st @ [PostEvent r p]\<rparr>)
      | None \<Rightarrow> Inl ''no active run to send an event to'')"

definition session_setPresence :: "string \<Rightarrow> session \<Rightarrow> string + session" where
  "session_setPresence state st =
     (case rs_runId st of
        Some r \<Rightarrow> if r = [] then Inl ''no active run for presence''
          else Inr (st\<lparr>rs_calls := rs_calls st @ [SetPresence r
            (if state = ''offline'' then [(''leave'', JBool True)] else [(''presence'', JStr state)])]\<rparr>)
      | None \<Rightarrow> Inl ''no active run for presence'')"

text \<open>\<^verbatim>\<open>approve\<close> and \<^verbatim>\<open>reject\<close>.\<close>

definition decision_event :: "string \<Rightarrow> string \<Rightarrow> payload" where
  "decision_event action taskId =
     [(''kind'', JStr ''approval.decision''), (''payload'', JObj [(''taskId'', JStr taskId), (''action'', JStr action)])]"

section \<open>Steps\<close>

datatype session_step =
    Start string start_input
  | Started "string + (string \<times> run_record_status)"
  | OnEvent nat envelope
  | OnComplete nat
  | OnError nat string
  | Stop
  | Stopped
  | Regenerate string
  | Resume string
  | Resumed
  | Reset
  | AwaitDone
  | Dispose
  | Timer
  | Send payload
  | Presence string

definition keep_on_error :: "session \<Rightarrow> string + session \<Rightarrow> session" where
  "keep_on_error st x = (case x of Inl _ \<Rightarrow> st | Inr st' \<Rightarrow> st')"

definition session_step ::
  "session_opts \<Rightarrow> (string \<Rightarrow> json option) \<Rightarrow> rat \<times> session_step \<Rightarrow> session \<Rightarrow> session" where
  "session_step opts parse ts st =
     (case ts of (now, s) \<Rightarrow> (case s of
        Start i inp \<Rightarrow> keep_on_error st (session_start opts i inp st)
      | Started answer \<Rightarrow> session_started opts answer st
      | OnEvent n e \<Rightarrow> session_event opts parse now n e st
      | OnComplete n \<Rightarrow> session_complete opts n st
      | OnError n err \<Rightarrow> session_lost opts n err st
      | Stop \<Rightarrow> session_stop opts st
      | Stopped \<Rightarrow> session_stopped opts st
      | Regenerate i \<Rightarrow> keep_on_error st (session_regenerate opts i st)
      | Resume r \<Rightarrow> keep_on_error st (session_resume opts r st)
      | Resumed \<Rightarrow> session_resumed opts now st
      | Reset \<Rightarrow> session_reset opts st
      | AwaitDone \<Rightarrow> session_done st
      | Dispose \<Rightarrow> session_dispose st
      | Timer \<Rightarrow> timer_fires st
      | Send p \<Rightarrow> keep_on_error st (session_sendEvent p st)
      | Presence state \<Rightarrow> keep_on_error st (session_setPresence state st)))"

definition session_run ::
  "session_opts \<Rightarrow> (string \<Rightarrow> json option) \<Rightarrow> (rat \<times> session_step) list \<Rightarrow> session \<Rightarrow> session" where
  "session_run opts parse ss st = fold (session_step opts parse) ss st"

section \<open>Lemmas\<close>

lemma helper_simps [simp]:
  "snapshot (detach st) = snapshot st" "snapshot (persistCursor opts now sq st) = snapshot st" "snapshot (clearCursor opts st) = snapshot st"
  "snapshot (beginAttach r a st) = snapshot st"
  "rs_status (detach st) = rs_status st" "rs_status (persistCursor opts now sq st) = rs_status st" "rs_status (clearCursor opts st) = rs_status st"
  "rs_emitted (detach st) = rs_emitted st" "rs_emitted (persistCursor opts now sq st) = rs_emitted st" "rs_emitted (clearCursor opts st) = rs_emitted st"
  "rs_timer (detach st) = rs_timer st" "rs_timer (persistCursor opts now sq st) = rs_timer st" "rs_timer (clearCursor opts st) = rs_timer st"
  "rs_disposed (detach st) = rs_disposed st" "rs_disposed (persistCursor opts now sq st) = rs_disposed st"
  "rs_disposed (clearCursor opts st) = rs_disposed st"
  "rs_waiting (detach st) = rs_waiting st" "rs_waiting (persistCursor opts now sq st) = rs_waiting st" "rs_waiting (clearCursor opts st) = rs_waiting st"
  "rs_settled (detach st) = rs_settled st" "rs_settled (persistCursor opts now sq st) = rs_settled st" "rs_settled (clearCursor opts st) = rs_settled st"
  "rs_live (persistCursor opts now sq st) = rs_live st" "rs_live (clearCursor opts st) = rs_live st"
  "rs_controller (persistCursor opts now sq st) = rs_controller st" "rs_controller (clearCursor opts st) = rs_controller st"
  "rs_runId (detach st) = rs_runId st" "rs_runId (persistCursor opts now sq st) = rs_runId st" "rs_runId (clearCursor opts st) = rs_runId st"
  "rs_model (persistCursor opts now sq st) = rs_model st" "rs_model (clearCursor opts st) = rs_model st"
  "rs_error (persistCursor opts now sq st) = rs_error st" "rs_error (clearCursor opts st) = rs_error st"
  "rs_terminalKind (persistCursor opts now sq st) = rs_terminalKind st" "rs_terminalKind (clearCursor opts st) = rs_terminalKind st"
  "rs_starting (persistCursor opts now sq st) = rs_starting st" "rs_starting (clearCursor opts st) = rs_starting st" "rs_starting (detach st) = rs_starting st"
  "rs_stopping (persistCursor opts now sq st) = rs_stopping st" "rs_stopping (clearCursor opts st) = rs_stopping st" "rs_stopping (detach st) = rs_stopping st"
  "rs_resuming (persistCursor opts now sq st) = rs_resuming st" "rs_resuming (clearCursor opts st) = rs_resuming st" "rs_resuming (detach st) = rs_resuming st"
  by (simp_all add: detach_def persistCursor_def clearCursor_def beginAttach_def snapshot_def split: option.split)

lemma begin_frame [simp]:
  "rs_timer (beginAttach r a st) = rs_timer st" "rs_emitted (beginAttach r a st) = rs_emitted st" "rs_status (beginAttach r a st) = rs_status st"
  "rs_disposed (beginAttach r a st) = rs_disposed st" "rs_waiting (beginAttach r a st) = rs_waiting st"
  "rs_settled (beginAttach r a st) = rs_settled st" "rs_live (beginAttach r a st) = rs_live st @ [True]"
  "rs_controller (beginAttach r a st) = Some (length (rs_live st))" "rs_starting (beginAttach r a st) = rs_starting st"
  "rs_stopping (beginAttach r a st) = rs_stopping st" "rs_resuming (beginAttach r a st) = rs_resuming st"
  "rs_model (beginAttach r a st) = rs_model st" "rs_terminalKind (beginAttach r a st) = None"
  by (simp_all add: beginAttach_def)

section \<open>Observers\<close>

text \<open>
  The last thing a listener was given is the state, or a timer will give it; nobody who waits for the end of a run
  is left waiting when it is over, and nobody is told before.
\<close>

definition all_over :: "session_view list \<Rightarrow> bool" where
  "all_over vs \<longleftrightarrow> (\<forall>v \<in> set vs. su_status v = Ready \<or> su_status v = SessionError)"

definition observed :: "session_view \<Rightarrow> session \<Rightarrow> bool" where
  "observed first st \<longleftrightarrow>
     (\<not> rs_disposed st \<longrightarrow> rs_timer st \<or> last (first # rs_emitted st) = snapshot st) \<and>
     (0 < rs_waiting st \<longrightarrow> rs_status st \<noteq> Ready \<and> rs_status st \<noteq> SessionError) \<and>
     all_over (rs_settled st)"

lemma observed_notify:
  assumes "0 < rs_waiting st' \<longrightarrow> rs_status st' \<noteq> Ready \<and> rs_status st' \<noteq> SessionError"
    "all_over (rs_settled st')"
  shows "observed first (notify opts b st')"
  using assms by (auto simp: observed_def notify_def session_emit_def snapshot_def)

lemma observed_finalize:
  assumes "nxt = Ready \<or> nxt = SessionError" "all_over (rs_settled st)"
  shows "observed first (session_finalize opts nxt err st)"
  using assms by (auto simp: observed_def all_over_def session_finalize_def settleDone_def notify_def session_emit_def snapshot_def Let_def)

lemma observed_same:
  assumes "observed first st" "snapshot st' = snapshot st" "rs_timer st' = rs_timer st" "rs_emitted st' = rs_emitted st"
    "rs_disposed st' = rs_disposed st" "rs_waiting st' = rs_waiting st" "rs_settled st' = rs_settled st"
  shows "observed first st'"
  using assms by (auto simp: observed_def snapshot_def)

lemma terminal_status_over: "terminal_status k = Some x \<Longrightarrow> x = Ready \<or> x = SessionError"
  by (auto simp: terminal_status_def split: event_kind.splits)

lemma observedD:
  "observed first st \<Longrightarrow> all_over (rs_settled st)"
  "observed first st \<Longrightarrow> 0 < rs_waiting st \<Longrightarrow> rs_status st \<noteq> Ready \<and> rs_status st \<noteq> SessionError"
  by (auto simp: observed_def)

lemma notify_frame [simp]:
  "rs_waiting (notify opts b st) = rs_waiting st" "rs_settled (notify opts b st) = rs_settled st" "rs_status (notify opts b st) = rs_status st"
  "rs_disposed (notify opts b st) = rs_disposed st" "snapshot (notify opts b st) = snapshot st" "rs_live (notify opts b st) = rs_live st"
  "rs_controller (notify opts b st) = rs_controller st" "rs_runId (notify opts b st) = rs_runId st" "rs_model (notify opts b st) = rs_model st"
  "rs_terminalKind (notify opts b st) = rs_terminalKind st" "rs_starting (notify opts b st) = rs_starting st"
  "rs_stopping (notify opts b st) = rs_stopping st" "rs_resuming (notify opts b st) = rs_resuming st"
  "rs_cursors (notify opts b st) = rs_cursors st" "rs_calls (notify opts b st) = rs_calls st" "rs_error (notify opts b st) = rs_error st"
  by (simp_all add: notify_def session_emit_def snapshot_def)

lemma sends_only:
  "\<exists>cs. keep_on_error st (session_sendEvent p st) = st\<lparr>rs_calls := cs\<rparr>"
  "\<exists>cs. keep_on_error st (session_setPresence state st) = st\<lparr>rs_calls := cs\<rparr>"
proof -
  have same: "\<exists>cs. st = st\<lparr>rs_calls := cs\<rparr>" by (rule exI [of _ "rs_calls st"]) simp
  show "\<exists>cs. keep_on_error st (session_sendEvent p st) = st\<lparr>rs_calls := cs\<rparr>"
    "\<exists>cs. keep_on_error st (session_setPresence state st) = st\<lparr>rs_calls := cs\<rparr>"
    using same by (auto simp: keep_on_error_def session_sendEvent_def session_setPresence_def split: option.split)
qed

lemma observed_calls: "observed first (st\<lparr>rs_calls := cs\<rparr>) = observed first st"
  by (simp add: observed_def snapshot_def)

lemma observed_start:
  assumes "observed first st" "session_start opts i inp st = Inr st'"
  shows "observed first st'"
proof -
  let ?st1 = "(detach st)\<lparr>rs_lastInput := Some inp, rs_model := emptyRunViewModel, rs_error := None, rs_runId := None,
      rs_terminalKind := None, rs_surface := nullish (si_surface inp) (so_surface opts), rs_status := Submitted\<rparr>"
  have "observed first (notify opts True ?st1)" by (rule observed_notify) (use observedD [OF assms(1)] in auto)
  from observed_same [OF this, of st'] assms(2) show ?thesis
    by (auto simp: session_start_def Let_def snapshot_def split: option.splits)
qed

lemma observed_event:
  assumes "observed first st"
  shows "observed first (session_event opts parse now n e st)"
  unfolding session_event_def Let_def
  using assms observedD [OF assms] by (auto intro!: observed_notify)

lemma observed_step: "observed first st \<Longrightarrow> observed first (session_step opts parse ts st)"
proof -
  assume o': "observed first st"
  obtain now s where ts: "ts = (now, s)" by (cases ts)
  note d = observedD [OF o']
  show ?thesis
  proof (cases s)
    case (Start i inp)
    with o' observed_start [OF o', of opts i inp] show ?thesis
      by (auto simp: ts session_step_def keep_on_error_def split: sum.split)
  next
    case (Started answer)
    have "observed first (st\<lparr>rs_starting := n\<rparr>)" for n by (rule observed_same [OF o']) (simp_all add: snapshot_def)
    moreover have "observed first (beginAttach r a (notify opts True (st\<lparr>rs_starting := n, rs_runId := Some r\<rparr>)))" for r a n
    proof -
      have "observed first (notify opts True (st\<lparr>rs_starting := n, rs_runId := Some r\<rparr>))" by (rule observed_notify) (use d in auto)
      then show ?thesis by (rule observed_same) simp_all
    qed
    ultimately show ?thesis using o' d
      by (auto simp: ts Started session_step_def session_started_def Let_def intro!: observed_finalize
          split: sum.split run_record_status.split)
  next
    case (OnEvent n e)
    with observed_event [OF o'] show ?thesis by (simp add: ts session_step_def)
  next
    case (OnComplete n)
    with o' d show ?thesis
      by (auto simp: ts session_step_def session_complete_def nullish_def intro!: observed_finalize
          split: option.split dest: terminal_status_over)
  next
    case (OnError n err)
    with o' d show ?thesis by (auto simp: ts session_step_def session_lost_def intro!: observed_finalize)
  next
    case Stop
    have "observed first ((detach st)\<lparr>rs_calls := cs, rs_stopping := n\<rparr>)" for cs n
      by (rule observed_same [OF o']) (simp_all add: snapshot_def detach_def split: option.split)
    with o' d show ?thesis
      by (auto simp: ts Stop session_step_def session_stop_def Let_def intro!: observed_finalize split: option.split)
  next
    case Stopped
    with o' d show ?thesis by (auto simp: ts session_step_def session_stopped_def intro!: observed_finalize)
  next
    case (Regenerate i)
    with o' observed_start [OF o', of opts i] show ?thesis
      by (auto simp: ts session_step_def session_regenerate_def keep_on_error_def split: sum.split option.splits)
  next
    case (Resume r)
    have "observed first (st\<lparr>rs_resuming := xs\<rparr>)" for xs by (rule observed_same [OF o']) (simp_all add: snapshot_def)
    with o' show ?thesis by (auto simp: ts Resume session_step_def session_resume_def keep_on_error_def split: option.split)
  next
    case Resumed
    have "observed first (st\<lparr>rs_resuming := xs\<rparr>)" "observed first (st\<lparr>rs_resuming := xs, rs_cursors := cs\<rparr>)" for xs cs
      by (rule observed_same [OF o']; simp add: snapshot_def)+
    moreover have "observed first (beginAttach r a (notify opts True ((detach (st\<lparr>rs_resuming := xs\<rparr>))\<lparr>rs_model := emptyRunViewModel,
        rs_error := None, rs_runId := Some r, rs_terminalKind := None, rs_surface := f, rs_status := Submitted\<rparr>)))" for xs r a f
    proof -
      have "observed first (notify opts True ((detach (st\<lparr>rs_resuming := xs\<rparr>))\<lparr>rs_model := emptyRunViewModel,
          rs_error := None, rs_runId := Some r, rs_terminalKind := None, rs_surface := f, rs_status := Submitted\<rparr>))"
        by (rule observed_notify) (use d in auto)
      then show ?thesis by (rule observed_same) simp_all
    qed
    ultimately show ?thesis using o'
      by (auto simp: ts Resumed session_step_def session_resumed_def Let_def split: list.split option.split)
  next
    case Reset
    then show ?thesis using d by (auto simp: ts session_step_def session_reset_def intro!: observed_notify)
  next
    case AwaitDone
    with o' show ?thesis by (auto simp: ts session_step_def session_done_def observed_def all_over_def snapshot_def)
  next
    case Dispose
    with o' show ?thesis by (auto simp: ts session_step_def session_dispose_def observed_def)
  next
    case Timer
    with o' show ?thesis by (auto simp: ts session_step_def timer_fires_def observed_def session_emit_def snapshot_def)
  next
    case (Send p)
    with sends_only(1) [of st p] o' show ?thesis by (auto simp: ts session_step_def observed_calls)
  next
    case (Presence state)
    with sends_only(2) [of st state] o' show ?thesis by (auto simp: ts session_step_def observed_calls)
  qed
qed

section \<open>One attachment\<close>

text \<open>Steps in which nothing comes between a call and the answer it awaits.\<close>

fun orderly :: "session_step list \<Rightarrow> bool" where
  "orderly [] \<longleftrightarrow> True"
| "orderly (Start i inp # ss) \<longleftrightarrow> (case ss of Started a # ss' \<Rightarrow> orderly ss' | _ \<Rightarrow> False)"
| "orderly (Regenerate i # ss) \<longleftrightarrow> (case ss of Started a # ss' \<Rightarrow> orderly ss' | _ \<Rightarrow> False)"
| "orderly (Stop # ss) \<longleftrightarrow> (case ss of Stopped # ss' \<Rightarrow> orderly ss' | _ \<Rightarrow> False)"
| "orderly (Resume r # ss) \<longleftrightarrow> (case ss of Resumed # ss' \<Rightarrow> orderly ss' | _ \<Rightarrow> False)"
| "orderly (_ # ss) \<longleftrightarrow> orderly ss"

definition calm :: "session \<Rightarrow> bool" where
  "calm st \<longleftrightarrow> rs_starting st = 0 \<and> rs_stopping st = 0 \<and> rs_resuming st = []"

text \<open>At most the attachment of the controller is live, and it is exactly while a run is in progress.\<close>

definition one_live :: "session \<Rightarrow> bool" where
  "one_live st \<longleftrightarrow> (\<forall>n < length (rs_live st). rs_live st ! n \<longrightarrow> rs_controller st = Some n) \<and>
     (if rs_disposed st then True \<notin> set (rs_live st) \<and> rs_controller st = None else in_progress st \<longleftrightarrow> True \<in> set (rs_live st))"

definition none_live :: "session \<Rightarrow> bool" where
  "none_live st \<longleftrightarrow> True \<notin> set (rs_live st) \<and> rs_controller st = None"

lemma finalize_frame [simp]:
  "rs_live (session_finalize opts nxt err st) = rs_live st" "rs_controller (session_finalize opts nxt err st) = rs_controller st"
  "rs_disposed (session_finalize opts nxt err st) = rs_disposed st" "rs_status (session_finalize opts nxt err st) = nxt"
  "rs_starting (session_finalize opts nxt err st) = rs_starting st" "rs_stopping (session_finalize opts nxt err st) = rs_stopping st"
  "rs_resuming (session_finalize opts nxt err st) = rs_resuming st" "rs_model (session_finalize opts nxt err st) = rs_model st"
  by (simp_all add: session_finalize_def settleDone_def Let_def)

lemma only_one_cleared: "(\<And>m. m < length xs \<Longrightarrow> xs ! m \<Longrightarrow> m = n) \<Longrightarrow> True \<notin> set (xs[n := False])"
proof
  assume only: "\<And>m. m < length xs \<Longrightarrow> xs ! m \<Longrightarrow> m = n" and "True \<in> set (xs[n := False])"
  then obtain i where i: "i < length xs" "xs[n := False] ! i" by (auto simp: in_set_conv_nth)
  with only [of i] show False by (cases "i = n") auto
qed

lemma live_nth: "n < length xs \<Longrightarrow> xs ! n \<Longrightarrow> True \<in> set xs"
  by (metis nth_mem)

lemma detach_none:
  assumes "\<And>n. n < length (rs_live st) \<Longrightarrow> rs_live st ! n \<Longrightarrow> rs_controller st = Some n"
  shows "none_live (detach st)"
proof (cases "rs_controller st")
  case None
  with assms show ?thesis by (auto simp: none_live_def detach_def in_set_conv_nth)
next
  case (Some n)
  then have "True \<notin> set ((rs_live st)[n := False])" using assms by (intro only_one_cleared) simp
  with Some show ?thesis by (simp add: none_live_def detach_def)
qed

lemma live_detach: "one_live st \<Longrightarrow> none_live (detach st)"
  by (rule detach_none) (simp add: one_live_def)

lemma none_one: "none_live st \<Longrightarrow> \<not> in_progress st \<Longrightarrow> one_live st"
  by (auto simp: none_live_def one_live_def in_set_conv_nth)

lemma not_in_progress [simp]:
  "nxt = Ready \<or> nxt = SessionError \<Longrightarrow> \<not> in_progress (session_finalize opts nxt err st)"
  by (auto simp: in_progress_def)

lemma one_live_finalize:
  assumes "none_live st" "nxt = Ready \<or> nxt = SessionError"
  shows "one_live (session_finalize opts nxt err st)"
  by (rule none_one) (use assms in \<open>auto simp: none_live_def\<close>)

lemma one_live_callback:
  assumes "one_live st" "n < length (rs_live st)" "rs_live st ! n" "nxt = Ready \<or> nxt = SessionError"
  shows "one_live (session_finalize opts nxt err (st\<lparr>rs_live := (rs_live st)[n := False]\<rparr>))"
proof -
  from assms(1-3) live_nth [OF assms(2,3)] have st: "\<not> rs_disposed st" "rs_controller st = Some n"
    by (auto simp: one_live_def split: if_splits)
  then have "True \<notin> set ((rs_live st)[n := False])" using assms(1) by (intro only_one_cleared) (simp add: one_live_def)
  with st assms(4) show ?thesis by (auto simp: one_live_def in_set_conv_nth)
qed

lemma one_live_begin:
  assumes "none_live st" "in_progress st" "\<not> rs_disposed st"
  shows "one_live (beginAttach r a st)"
  using assms by (auto simp: one_live_def none_live_def in_progress_def nth_append in_set_conv_nth)

text \<open>A start is made only when nothing is live.\<close>

lemma start_done_live:
  assumes "one_live st" "calm st" "session_start opts i inp st = Inr st'"
  shows "one_live (session_started opts answer st') \<and> calm (session_started opts answer st')"
proof -
  from assms(3) have ok: "\<not> rs_disposed st" "\<not> in_progress st"
    by (auto simp: session_start_def not_usable_def split: if_splits option.splits)
  from assms(3) have "rs_live st' = rs_live (detach st)" "rs_controller st' = rs_controller (detach st)" "rs_status st' = Submitted"
      "rs_starting st' = Suc (rs_starting st)" "rs_stopping st' = rs_stopping st" "rs_resuming st' = rs_resuming st"
      "\<not> rs_disposed st'"
    using ok by (auto simp: session_start_def Let_def split: option.splits)
  note st' = this
  have n: "none_live (st'\<lparr>rs_starting := 0\<rparr>)" "none_live (st'\<lparr>rs_starting := 0, rs_runId := x\<rparr>)"
      "none_live (notify opts True (st'\<lparr>rs_starting := 0, rs_runId := x\<rparr>))" for x
    using live_detach [OF assms(1)] st' by (simp_all add: none_live_def)
  have "in_progress (notify opts True (st'\<lparr>rs_starting := 0, rs_runId := x\<rparr>))" for x using st' by (simp add: in_progress_def)
  note b = one_live_begin [OF n(3) this]
  show ?thesis using assms(2) st' n b
    by (auto simp: session_started_def Let_def calm_def intro!: one_live_finalize split: sum.split run_record_status.split)
qed

lemma calm_started: "calm st \<Longrightarrow> session_started opts answer st = st"
  by (simp add: calm_def session_started_def)

lemma calm_stopped: "calm st \<Longrightarrow> session_stopped opts st = st"
  by (simp add: calm_def session_stopped_def)

lemma calm_resumed: "calm st \<Longrightarrow> session_resumed opts now st = st"
  by (simp add: calm_def session_resumed_def)

lemma stop_stopped_live:
  assumes "one_live st" "calm st"
  shows "one_live (session_stopped opts (session_stop opts st)) \<and> calm (session_stopped opts (session_stop opts st))"
proof (cases "in_progress st")
  case False
  with assms show ?thesis by (simp add: session_stop_def calm_stopped)
next
  case True
  have n: "none_live ((detach st)\<lparr>rs_calls := cs, rs_stopping := k\<rparr>)" for cs k
    using live_detach [OF assms(1)] by (simp add: none_live_def)
  have "one_live (session_finalize opts Ready None (detach st))"
    by (rule one_live_finalize [OF live_detach [OF assms(1)]]) simp
  moreover have "one_live (session_finalize opts Ready None ((detach st)\<lparr>rs_calls := cs, rs_stopping := k\<rparr>))" for cs k
    by (rule one_live_finalize [OF n]) simp
  ultimately show ?thesis using True assms(2)
    by (auto simp: session_stop_def session_stopped_def Let_def calm_def split: option.split)
qed

lemma one_live_same:
  "rs_live st' = rs_live st \<Longrightarrow> rs_controller st' = rs_controller st \<Longrightarrow> rs_disposed st' = rs_disposed st \<Longrightarrow>
   rs_status st' = rs_status st \<Longrightarrow> one_live st' = one_live st"
  by (simp add: one_live_def in_progress_def)

lemma one_live_calls: "one_live (st\<lparr>rs_calls := cs\<rparr>) = one_live st"
  by (rule one_live_same) simp_all

lemma resume_resumed_live:
  assumes "one_live st" "calm st" "session_resume opts r st = Inr st'"
  shows "one_live (session_resumed opts now st') \<and> calm (session_resumed opts now st')"
proof -
  from assms(3) have ok: "\<not> rs_disposed st" "\<not> in_progress st" and st': "st' = st\<lparr>rs_resuming := [(r, cursor_get r (rs_cursors st))]\<rparr>"
    using assms(2) by (auto simp: session_resume_def not_usable_def calm_def split: if_splits option.splits)
  have same: "one_live (st\<lparr>rs_resuming := xs\<rparr>)" "one_live (st\<lparr>rs_resuming := xs, rs_cursors := cs\<rparr>)" for xs cs
    by (subst one_live_same [of _ st]; simp add: assms(1))+
  have "one_live (beginAttach r a (notify opts True ((detach (st\<lparr>rs_resuming := []\<rparr>))\<lparr>rs_model := emptyRunViewModel,
      rs_error := None, rs_runId := Some r, rs_terminalKind := None, rs_surface := f, rs_status := Submitted\<rparr>)))" for a f
    by (rule one_live_begin) (use live_detach [OF same(1)] ok in \<open>auto simp: none_live_def in_progress_def\<close>)
  with same assms(2) show ?thesis
    by (auto simp: st' session_resumed_def Let_def calm_def split: option.split)
qed

lemma event_frame [simp]:
  "rs_live (session_event opts parse now n e st) = rs_live st" "rs_controller (session_event opts parse now n e st) = rs_controller st"
  "rs_disposed (session_event opts parse now n e st) = rs_disposed st" "rs_starting (session_event opts parse now n e st) = rs_starting st"
  "rs_stopping (session_event opts parse now n e st) = rs_stopping st" "rs_resuming (session_event opts parse now n e st) = rs_resuming st"
  "in_progress (session_event opts parse now n e st) = in_progress st"
  by (auto simp: session_event_def Let_def in_progress_def)

lemma callback_live:
  assumes "one_live st" "calm st" "\<forall>i inp r a. s \<noteq> Start i inp \<and> s \<noteq> Regenerate i \<and> s \<noteq> Stop \<and> s \<noteq> Resume r"
  shows "one_live (session_step opts parse (now, s) st) \<and> calm (session_step opts parse (now, s) st)"
proof (cases s)
  case (OnEvent n e)
  with assms show ?thesis by (simp add: session_step_def one_live_def calm_def)
next
  case (OnComplete n)
  with assms show ?thesis
    by (auto simp: session_step_def session_complete_def calm_def nullish_def split: option.split
        intro!: one_live_callback dest: terminal_status_over)
next
  case (OnError n err)
  with assms show ?thesis by (auto simp: session_step_def session_lost_def calm_def intro!: one_live_callback)
next
  case Reset
  have "none_live (notify opts True ((clearCursor opts (detach st))\<lparr>rs_status := Idle, rs_model := emptyRunViewModel, rs_runId := None,
       rs_error := None, rs_terminalKind := None\<rparr>))" using live_detach [OF assms(1)] by (simp add: none_live_def)
  with assms(2) show ?thesis
    by (auto simp: Reset session_step_def session_reset_def calm_def in_progress_def intro!: none_one)
next
  case Dispose
  from assms(1) have "none_live (detach (st\<lparr>rs_disposed := True\<rparr>))" by (intro detach_none) (simp add: one_live_def)
  with assms(2) show ?thesis
    by (auto simp: Dispose session_step_def session_dispose_def calm_def one_live_def none_live_def in_set_conv_nth)
next
  case AwaitDone
  have "one_live (session_done st) = one_live st" by (rule one_live_same) (simp_all add: session_done_def)
  with assms show ?thesis by (simp add: AwaitDone session_step_def calm_def session_done_def)
next
  case Timer
  have "one_live (timer_fires st) = one_live st" by (rule one_live_same) (simp_all add: timer_fires_def session_emit_def)
  with assms show ?thesis by (simp add: Timer session_step_def calm_def timer_fires_def session_emit_def)
next
  case (Send p)
  with sends_only(1) [of st p] assms(1,2) show ?thesis by (auto simp: session_step_def one_live_calls calm_def)
next
  case (Presence state)
  with sends_only(2) [of st state] assms(1,2) show ?thesis by (auto simp: session_step_def one_live_calls calm_def)
qed (use assms in \<open>simp_all add: session_step_def calm_started calm_stopped calm_resumed\<close>)

lemma pair_live:
  assumes "one_live st" "calm st"
  shows
    "one_live (session_step opts parse (t', Started a) (session_step opts parse (t, Start i inp) st)) \<and>
     calm (session_step opts parse (t', Started a) (session_step opts parse (t, Start i inp) st))" (is ?start)
    "one_live (session_step opts parse (t', Started a) (session_step opts parse (t, Regenerate i) st)) \<and>
     calm (session_step opts parse (t', Started a) (session_step opts parse (t, Regenerate i) st))" (is ?regenerate)
    "one_live (session_step opts parse (t', Stopped) (session_step opts parse (t, Stop) st)) \<and>
     calm (session_step opts parse (t', Stopped) (session_step opts parse (t, Stop) st))" (is ?stop)
    "one_live (session_step opts parse (t', Resumed) (session_step opts parse (t, Resume r) st)) \<and>
     calm (session_step opts parse (t', Resumed) (session_step opts parse (t, Resume r) st))" (is ?resume)
proof -
  have s: "one_live (session_started opts a (keep_on_error st (session_start opts i inp st))) \<and>
      calm (session_started opts a (keep_on_error st (session_start opts i inp st)))" for inp
    using assms start_done_live [OF assms] by (cases "session_start opts i inp st") (simp_all add: keep_on_error_def calm_started)
  then show ?start by (simp add: session_step_def)
  show ?regenerate
  proof (cases "rs_lastInput st")
    case None
    with assms show ?thesis by (simp add: session_step_def session_regenerate_def keep_on_error_def calm_started)
  next
    case (Some inp)
    with s [of inp] show ?thesis by (simp add: session_step_def session_regenerate_def)
  qed
  show ?stop using stop_stopped_live [OF assms] by (simp add: session_step_def)
  show ?resume
    using assms resume_resumed_live [OF assms, of opts r]
    by (cases "session_resume opts r st") (simp_all add: session_step_def keep_on_error_def calm_resumed)
qed

lemma orderly_live:
  assumes "one_live st" "calm st" "orderly (map snd ss)"
  shows "one_live (session_run opts parse ss st)"
  using assms
proof (induction "length ss" arbitrary: ss st rule: less_induct)
  case less
  show ?case
  proof (cases ss)
    case Nil
    with less show ?thesis by (simp add: session_run_def)
  next
    case (Cons x rest)
    obtain now s where x: "x = (now, s)" by (cases x)
    have two: "\<exists>y rest'. rest = y # rest' \<and> orderly (map snd rest')"
      if "\<exists>i inp r. s = Start i inp \<or> s = Regenerate i \<or> s = Stop \<or> s = Resume r"
      using less.prems(3) that by (auto simp: Cons x split: list.splits session_step.splits)
    have after: ?thesis if "rest = y # rest'" "orderly (map snd rest')"
        "one_live (session_step opts parse y (session_step opts parse x st)) \<and> calm (session_step opts parse y (session_step opts parse x st))"
      for y rest'
      using less.hyps [of rest' "session_step opts parse y (session_step opts parse x st)"] that by (simp add: Cons session_run_def)
    show ?thesis
    proof (cases "\<exists>i inp r. s = Start i inp \<or> s = Regenerate i \<or> s = Stop \<or> s = Resume r")
      case False
      then have "orderly (map snd rest)" using less.prems(3) by (cases s) (auto simp: Cons x)
      with callback_live [OF less.prems(1,2), of s opts parse now] False less.hyps [of rest "session_step opts parse x st"]
      show ?thesis by (auto simp: Cons x session_run_def)
    next
      case True
      then obtain y rest' where y: "rest = y # rest'" "orderly (map snd rest')" using two by blast
      obtain now' s' where y': "y = (now', s')" by (cases y)
      have "one_live (session_step opts parse y (session_step opts parse x st)) \<and>
          calm (session_step opts parse y (session_step opts parse x st))"
        using True less.prems(3) pair_live [OF less.prems(1,2)] unfolding x y' Cons y(1) by (auto split: session_step.splits)
      from after [OF y this] show ?thesis .
    qed
  qed
qed

section \<open>Following a run\<close>

text \<open>What an attachment does, as the session sees it.\<close>

definition callbacks :: "nat \<Rightarrow> attach_call list \<Rightarrow> session_step list" where
  "callbacks n cs = List.map_filter (\<lambda>c. case c of Deliver e \<Rightarrow> Some (OnEvent n e) | Complete \<Rightarrow> Some (OnComplete n)
     | GiveUp err \<Rightarrow> Some (OnError n ''run stream closed'') | _ \<Rightarrow> None) cs"

lemma callbacks_simps [simp]:
  "callbacks n [] = []" "callbacks n (xs @ ys) = callbacks n xs @ callbacks n ys"
  "callbacks n (Deliver e # cs) = OnEvent n e # callbacks n cs" "callbacks n (Request i # cs) = callbacks n cs"
  "callbacks n (Wait d # cs) = callbacks n cs" "callbacks n (Complete # cs) = OnComplete n # callbacks n cs"
  by (simp_all add: callbacks_def List.map_filter_def)

text \<open>The last terminal event, if there is one.\<close>

definition ending :: "envelope list \<Rightarrow> event_kind option" where
  "ending es = (case rev (filter (\<lambda>e. isTerminalRunEventKind (env_kind e)) es) of [] \<Rightarrow> None | e # _ \<Rightarrow> Some (env_kind e))"

lemma terminal_status_iff: "terminal_status k \<noteq> None \<longleftrightarrow> isTerminalRunEventKind k"
  by (cases k) (simp_all add: terminal_status_def isTerminalRunEventKind_def)

lemma ending_snoc: "ending (es @ [e]) = (if isTerminalRunEventKind (env_kind e) then Some (env_kind e) else ending es)"
  by (simp add: ending_def)

lemma session_run_append: "session_run opts parse (xs @ ys) st = session_run opts parse ys (session_run opts parse xs st)"
  by (simp add: session_run_def)

text \<open>While the events come in, at the times \<open>t\<close>.\<close>

lemma follow_events:
  assumes "unended cs" "n < length (rs_live st)" "rs_live st ! n" "rs_status st = Submitted \<or> rs_status st = StreamingRun"
    "rs_terminalKind st = None"
  shows "\<exists>st'. session_run opts parse (map (Pair t) (callbacks n cs)) st = st' \<and>
    rs_model st' = run_events parse t (deliveries cs) (rs_model st) \<and> rs_live st' = rs_live st \<and>
    rs_terminalKind st' = ending (deliveries cs) \<and> rs_error st' = rs_error st"
  using assms(1)
proof (induction cs rule: rev_induct)
  case Nil
  then show ?case using assms(5) by (simp add: session_run_def run_events_def ending_def)
next
  case (snoc c cs)
  then obtain st' where st': "session_run opts parse (map (Pair t) (callbacks n cs)) st = st'"
      "rs_model st' = run_events parse t (deliveries cs) (rs_model st)" "rs_live st' = rs_live st"
      "rs_terminalKind st' = ending (deliveries cs)" "rs_error st' = rs_error st" by auto
  show ?case
  proof (cases c)
    case (Deliver e)
    with st' assms(2,3) terminal_status_iff [of "env_kind e"] show ?thesis
      by (auto simp: session_run_def session_step_def session_event_def Let_def run_events_append ending_snoc)
        (auto simp: run_events_def)
  qed (use st' snoc.prems in \<open>auto simp: session_run_def\<close>)
qed

text \<open>A start that the server accepts.\<close>

definition accepted :: "session_opts \<Rightarrow> string \<Rightarrow> start_input \<Rightarrow> string \<Rightarrow> session \<Rightarrow> session" where
  "accepted opts i inp r st = session_started opts (Inr (r, RecActive)) (keep_on_error st (session_start opts i inp st))"

lemma accepted_fresh:
  assumes "not_usable st = None" "rs_starting st = 0"
  shows "rs_model (accepted opts i inp r st) = emptyRunViewModel \<and> rs_status (accepted opts i inp r st) = Submitted \<and>
    rs_terminalKind (accepted opts i inp r st) = None \<and> rs_error (accepted opts i inp r st) = None \<and>
    length (rs_live (accepted opts i inp r st)) = Suc (length (rs_live st)) \<and> rs_live (accepted opts i inp r st) ! length (rs_live st) \<and>
    last (rs_calls (accepted opts i inp r st)) = AttachRun r (nullish (so_afterSequence opts) (- 1))"
proof -
  have "\<not> rs_disposed st" using assms(1) by (auto simp: not_usable_def split: if_splits)
  moreover have "length (rs_live (detach st)) = length (rs_live st)" by (simp add: detach_def split: option.split)
  ultimately show ?thesis using assms
    by (simp add: accepted_def keep_on_error_def session_start_def session_started_def Let_def beginAttach_def nth_append)
qed

lemma follow_calls:
  assumes "unended cs" "n < length (rs_live st)" "rs_live st ! n" "rs_status st = Submitted" "rs_terminalKind st = None"
    "calls = cs @ [Complete]" "st' = session_run opts parse (map (Pair t) (callbacks n calls)) st"
  shows "rs_model st' = run_events parse t (deliveries cs) (rs_model st)"
    "rs_status st' = (case ending (deliveries cs) of Some k \<Rightarrow> nullish (terminal_status k) Ready | None \<Rightarrow> Ready)"
    "\<not> rs_live st' ! n" "rs_error st' = rs_error st" "rs_waiting st' = 0"
proof -
  obtain s where s: "session_run opts parse (map (Pair t) (callbacks n cs)) st = s"
      "rs_model s = run_events parse t (deliveries cs) (rs_model st)" "rs_live s = rs_live st"
      "rs_terminalKind s = ending (deliveries cs)" "rs_error s = rs_error st"
    using follow_events [OF assms(1-3) _ assms(5)] assms(4) by blast
  have "st' = session_step opts parse (t, OnComplete n) s" by (simp add: assms(6,7) session_run_append s(1)) (simp add: session_run_def)
  with s assms(2,3) show "rs_model st' = run_events parse t (deliveries cs) (rs_model st)"
    "rs_status st' = (case ending (deliveries cs) of Some k \<Rightarrow> nullish (terminal_status k) Ready | None \<Rightarrow> Ready)"
    "\<not> rs_live st' ! n" "rs_error st' = rs_error st" "rs_waiting st' = 0"
    by (simp_all add: session_step_def session_complete_def) (simp_all add: session_finalize_def settleDone_def Let_def)
qed

section \<open>Properties\<close>


text \<open>
  Claim C21: As long as nothing comes between a call and the answer it awaits, at most one attachment is live, it is the one the
  session can abort, and it is live exactly while a run is in progress.
\<close>

theorem session_one_attachment:
  assumes "orderly (map snd ss)" "st = session_run opts parse ss (session_new opts cs)" "\<not> rs_disposed st"
  shows "(\<forall>n < length (rs_live st). rs_live st ! n \<longrightarrow> rs_controller st = Some n) \<and> (in_progress st \<longleftrightarrow> True \<in> set (rs_live st))"
proof -
  have "one_live (session_new opts cs)" "calm (session_new opts cs)"
    by (simp_all add: session_new_def one_live_def calm_def in_progress_def)
  from orderly_live [OF this assms(1)] assms(2,3)
  show ?thesis by (simp add: one_live_def)
qed

definition session_demo :: session_opts where
  "session_demo = \<lparr>so_surface = ''web'', so_throttleMs = 0, so_cursor = True, so_resumeWindowMs = 0, so_afterSequence = None\<rparr>"

definition plain_start :: "rat \<times> session_step" where
  "plain_start = (0, Start ''k'' \<lparr>si_input = None, si_metadata = None, si_surface = None, si_key = None\<rparr>)"

definition server_accepts :: "string \<Rightarrow> rat \<times> session_step" where
  "server_accepts r = (0, Started (Inr (r, RecActive)))"

lemma session_one_attachment_witness:
  "rs_controller (session_run session_demo (\<lambda>_. None) [plain_start, server_accepts ''r''] (session_new session_demo [])) = Some 0"
proof -
  let ?st = "session_run session_demo (\<lambda>_. None) [plain_start, server_accepts ''r''] (session_new session_demo [])"
  have "rs_live ?st = [True]" "\<not> rs_disposed ?st" by code_simp+
  moreover have "orderly (map snd [plain_start, server_accepts ''r''])" by (simp add: plain_start_def server_accepts_def)
  ultimately show ?thesis
    using session_one_attachment [of "[plain_start, server_accepts ''r'']" ?st session_demo "\<lambda>_. None" "[]"] by simp
qed



section \<open>Divergences\<close>

text \<open>
  Stopping before the server has answered a start cancels nothing: the run is attached anyway, and its view grows
  while the session says it is ready.
\<close>

definition stopped_early :: session where
  "stopped_early = session_run session_demo (\<lambda>_. None)
     [plain_start, (0, Stop), server_accepts ''r'', (0, OnEvent 0 (text_event 0 ''a''))] (session_new session_demo [])"

lemma stop_before_answer_leaks:
  "rs_status stopped_early = Ready \<and> rs_live stopped_early = [True] \<and> vm_fullText (rs_model stopped_early) = ''a'' \<and>
   (\<forall>r. CancelRun r \<notin> set (rs_calls stopped_early))"
proof -
  have "map (\<lambda>c. case c of CancelRun r \<Rightarrow> True | _ \<Rightarrow> False) (rs_calls stopped_early) = [False, False]" by code_simp
  then have "\<forall>r. CancelRun r \<notin> set (rs_calls stopped_early)" by (force simp: map_eq_Cons_conv)
  moreover have "rs_status stopped_early = Ready \<and> rs_live stopped_early = [True] \<and> vm_fullText (rs_model stopped_early) = ''a''"
    by code_simp
  ultimately show ?thesis by blast
qed

text \<open>A second start then leaves two attachments that write into one view; the session can abort only one.\<close>

lemma two_live_attachments:
  "rs_live (session_run session_demo (\<lambda>_. None)
     [plain_start, (0, Stop), plain_start, server_accepts ''r'', server_accepts ''s''] (session_new session_demo [])) = [True, True]"
  by code_simp

definition presence_event :: envelope where
  "presence_event = \<lparr>env_runId = ''r'', env_sequence = - 1, env_kind = PresenceUpdate, env_payload = [], env_timestamp = None\<rparr>"

text \<open>A presence event sets the cursor back, whatever was applied before.\<close>

lemma presence_resets_cursor:
  "map_option cu_lastSequence (cursor_get ''r'' (rs_cursors (session_run session_demo (\<lambda>_. None)
     [plain_start, server_accepts ''r'', (0, OnEvent 0 (text_event 5 ''a'')), (0, OnEvent 0 presence_event)] (session_new session_demo [])))) =
   Some (- 1)"
  by code_simp

text \<open>When the connection is lost for good the cursor is deleted, so the run that goes on cannot be resumed.\<close>

lemma lost_connection_drops_cursor:
  "cursor_get ''r'' (rs_cursors (session_run session_demo (\<lambda>_. None)
     [plain_start, server_accepts ''r'', (0, OnEvent 0 (text_event 5 ''a'')), (0, OnError 0 ''gone'')] (session_new session_demo []))) = None"
  by code_simp

text \<open>Regenerating sends the key of the first start again, when the host gave one.\<close>

lemma regenerate_reuses_key:
  "map (\<lambda>c. case c of StartRun q \<Rightarrow> sq_key q | _ \<Rightarrow> []) (rs_calls (session_run session_demo (\<lambda>_. None)
     [(0, Start ''k'' \<lparr>si_input = None, si_metadata = None, si_surface = None, si_key = Some ''mine''\<rparr>), (0, Started (Inr (''r'', RecCompleted))),
      (0, Regenerate ''l'')] (session_new session_demo []))) = [''mine'', ''mine'']"
  by code_simp

end
