(* ===== verification/Spec2Isabelle.thy ===== *)
theory Spec2Isabelle
  imports RgaEditing BlockEditProps StructuredMerge RealmReconcile RealmState TenantProps PipelineProps
    Idempotency DurableDeadLetter HumanTaskQueue ClientProps CacheGuarantees WorkflowDivergences
    JsonPatchProps Sse RunJournal AgUi RunSession
begin

text \<open>
  Verification development for the core logic of weaveIntel, a TypeScript platform for AI agents made of
  packages under \<^verbatim>\<open>src/packages\<close>. Modelled are the packages that keep state of their own and promise
  something about it: the replicated documents people and agents edit together (\<^verbatim>\<open>collab\<close>), the tree of
  tenants (\<^verbatim>\<open>identity\<close>) and the configuration rows that tenants override and inherit (\<^verbatim>\<open>realm\<close>,
  \<^verbatim>\<open>upgrade\<close>), the pipeline every outgoing call passes (\<^verbatim>\<open>resilience\<close>), the queue of human tasks
  (\<^verbatim>\<open>human-tasks\<close>), the engine that runs workflows of such calls and tasks (\<^verbatim>\<open>workflows\<close>) and the stream of
  a run's events, from the journal to the view a client folds from it (\<^verbatim>\<open>core\<close>, \<^verbatim>\<open>client\<close>).

  \<^bold>\<open>How the code is read.\<close> A class or a closure is a record of its mutable fields; a method is a function
  from the state to the state and the result; a thrown error is the left side of a sum or \<open>None\<close>. A
  JavaScript \<^verbatim>\<open>Map\<close> whose order of insertion can be observed is an association list, otherwise a map; a
  string is a list of characters, text that is edited by position a list of 16 bit code units. Numbers that
  the code computes with fractions are rationals, counters are natural numbers, positions and times integers,
  so rounding beyond 2 to the 53 is not modelled. The clock, random numbers, fresh identifiers and
  digests are arguments. An asynchronous method is one step when it awaits nothing that can be overtaken;
  where an await matters (the pipeline, the retry of a dead letter, overlapping decisions) the model has the
  parts before and after it as separate steps. \<open>Prelude\<close> holds these conventions and the lemmas on
  association lists, options and minima all parts share; \<open>Json\<close> the JSON values and the canonical form by
  which values are compared.

  \<^bold>\<open>Replicated text\<close> (\<^verbatim>\<open>collab/src/rga.ts\<close>). \<open>Rga\<close> is the class \<^verbatim>\<open>RgaDoc\<close>: insertions and deletions,
  buffering of operations that arrive early, state vectors, snapshots. \<open>CausalLog\<close> is the locale of a
  replica executing operations of which some must precede others and the rest commute; \<open>RgaLists\<close> proves
  its laws for the code's insertion, by means of a specification \<open>place\<close> without indices. \<open>RgaConvergence\<close>
  has the invariant of a replica and strong eventual consistency, \<open>RgaEditing\<close> what a local edit does to the
  text, synchronisation by state vectors and the round trip of snapshots.

  \<^bold>\<open>Block documents\<close> (\<^verbatim>\<open>collab/src/block-doc.ts\<close>). \<open>BlockDoc\<close> is the state, \<^verbatim>\<open>apply\<close> and the reads of
  the class \<^verbatim>\<open>BlockDoc\<close>, \<open>BlockEdit\<close> its local edits, snapshots and \<^verbatim>\<open>fromBlocks\<close>. The sequence of such a
  document is simulated by a text document whose characters encode the elements (\<open>BlockConvergence\<close>,
  \<open>BlockReplica\<close>); attributes and marks are last-writer-wins registers, characterised by the greatest
  operation. From both, \<open>BlockProps\<close> has strong eventual consistency, \<open>BlockSnapshot\<close> the round trip of
  snapshots, \<open>BlockEditProps\<close> what inserting and deleting text does, and where edits and snapshots fall short
  of their documentation.

  \<^bold>\<open>Tenants\<close> (\<^verbatim>\<open>identity/src/tenancy\<close>). \<open>HierarchyPath\<close> has the path functions, \<open>TenantHierarchy\<close> every
  operation of the in-memory hierarchy. \<open>TenantLineage\<close> reads the tree off the parent pointers and proves
  the invariant that stored paths and depths agree with it; \<open>TenantMoves\<close> what moving, deleting and listing
  do to that tree. \<open>TenantRealm\<close> interprets the locale \<open>lineage_source\<close> (in \<open>RealmRecord\<close>) on the hierarchy,
  so that \<open>TenantProps\<close> can state, for every history of the hierarchy, what a tenant resolves, what a move
  revokes and that the preview of a share is exact.

  \<^bold>\<open>Realm\<close> (\<^verbatim>\<open>realm/src\<close>). \<open>RealmRecord\<close> has the rows and contexts, \<open>RealmResolve\<close> visibility and resolution
  with the reference definition \<open>climb\<close>, \<open>RealmStore\<close> the in-memory store, its invariant and the isolation of
  tenants, \<open>RealmVersion\<close> the version log, \<open>RealmReconcile\<close> the reconciliation of shipped defaults (locale
  \<open>default_publisher\<close>), \<open>RealmState\<close> state overlays, \<open>RealmShare\<close> sharing and promotion. \<open>StructuredMerge\<close>
  is the three-way merge of \<^verbatim>\<open>upgrade/src/structured-merge.ts\<close>.

  \<^bold>\<open>Resilience\<close> (\<^verbatim>\<open>resilience/src\<close>). \<open>CircuitBreaker\<close>, \<open>RateLimit\<close>, \<open>Concurrency\<close> (locale
  \<open>slot_limiter\<close>, interpreted on both limiters), \<open>RetryRules\<close>, \<open>Latency\<close>, \<open>Endpoints\<close> and \<open>Idempotency\<close>
  (locale \<open>idem_repository\<close>) are the parts; \<open>Pipeline\<close> composes breaker, bucket, limiter and retry policy
  the way \<^verbatim>\<open>createResilientCallable\<close> does, as a state machine over all calls of an endpoint, and
  \<open>PipelineProps\<close> has its invariants for every interleaving. \<open>DeadLetter\<close> is the in-memory queue,
  \<open>DurableDeadLetter\<close> the one over the key-value slot of \<open>KvStore\<close> (locale \<open>kv_store\<close>, interpreted on
  \<^verbatim>\<open>weaveInMemoryPersistence\<close>).

  \<^bold>\<open>Human tasks\<close> (\<^verbatim>\<open>human-tasks/src\<close>). \<open>HumanTasks\<close> has tasks, factories and policies, \<open>HumanTaskRepos\<close>
  the three repositories (locale \<open>task_repository\<close>, interpreted on each) and the refinement of the map by
  the file, \<open>HumanTaskQueue\<close> the queue over any of them.

  \<^bold>\<open>Workflows\<close> (\<^verbatim>\<open>workflows/src\<close>). \<open>WorkflowData\<close> has the types of \<^verbatim>\<open>core/src/workflows.ts\<close>, \<open>WorkflowLint\<close>
  the linter and the graph for the editor, \<open>WorkflowPath\<close> paths, input and output maps and the masking of
  secrets, \<open>WorkflowRouting\<close> the state of a run and the choice of the next step, \<open>WorkflowSteps\<close> the execution of
  every kind of step. \<open>WorkflowStores\<close> has the options of the engine and its in-memory stores: runs, checkpoints,
  step locks, idempotency, costs, sleeps. \<open>WorkflowEngine\<close> and \<open>WorkflowLoop\<close> are the class
  \<^verbatim>\<open>DefaultWorkflowEngine\<close>: post-processing of outputs, retries, fallback, error boundary and compensation; pauses,
  generated steps, one turn of the loop, the loop, and starting, resuming, ticking, recovering and cancelling a
  run. A handler is a function of its arguments, the variables and a world that it may change; handlers, the
  evaluator of expressions, the validator of output schemas, the printer of numbers, policies, the clock, fresh
  ids and the queue of human tasks are arguments. The loop takes at most \<^verbatim>\<open>maxSteps\<close> turns (100 unless the policy
  says otherwise), which is its measure, so it needs no fuel.
  \<open>WorkflowFlow\<close> is an abstract machine that knows the position, the trail and the generated steps only;
  \<open>WorkflowRefine\<close> and \<open>WorkflowRuns\<close> prove that the engine refines it and derive that runs come to an end, that
  their history is a walk in the graph and that generated steps keep the graph sound. \<open>WorkflowDurability\<close> has
  step locks, checkpoints after a crash and the order of compensations, \<open>WorkflowLintProps\<close> that the linter's
  searches are exact. \<open>WorkflowExamples\<close> and \<open>WorkflowDivergences\<close> run the engine on concrete workflows: witnesses,
  and the cases where it departs from its documentation. Left out are the resolver registry, the offloading of
  large payloads, contracts, spans, audit and event bus (none of which the run reads back), the rate limiter and
  the run queue in front of \<^verbatim>\<open>startRun\<close>, replays, and the completion of human tasks by the queue's listener.

  \<^bold>\<open>The stream of a run.\<close> On the server, \<open>RunJournal\<close> is the journal of events (\<^verbatim>\<open>core/src/run-journal.ts\<close>)
  over the key-value slot: the locale \<open>expiring_kv\<close> adds expiry to \<open>kv_store\<close>, \<open>journal_slot\<close> proves that reading
  on from a cursor leaves no gap, and both are interpreted on \<^verbatim>\<open>weaveInMemoryPersistence\<close>. \<open>Sse\<close> is the text of the
  stream (\<^verbatim>\<open>core/src/sse-writer.ts\<close>, \<^verbatim>\<open>sse-parser.ts\<close>): what is written is read, wherever the network cuts it; chunks
  are decoded text. \<open>RunAttach\<close> is the client that follows a run over connections that break
  (\<^verbatim>\<open>client/src/run-client.ts\<close>, \<^verbatim>\<open>transport.ts\<close>): a connection is a function from the requested cursor to a response,
  an attachment the list of what it does, and every journaled event is handed over exactly once. \<open>ClientView\<close> has the
  view model, \<open>ClientReducer\<close> the reducer on every kind of event (\<^verbatim>\<open>client/src/reducer.ts\<close>), \<open>ClientProps\<close>
  redelivery and the agreement of the two views. \<open>RunSession\<close> is the session around both
  (\<^verbatim>\<open>client/src/run-session.ts\<close>, \<^verbatim>\<open>cursor.ts\<close>), in which what the code awaits is a step of its own; it composes with
  \<open>RunAttach\<close> to the view of a whole run. \<open>AgUi\<close> translates a run into another protocol (\<^verbatim>\<open>client/src/ag-ui.ts\<close>), whose
  shared state is kept up by the patches of \<open>JsonPatch\<close> and \<open>JsonPatchProps\<close> (\<^verbatim>\<open>core/src/json-patch.ts\<close>; documents are
  trees, and names every object inherits are not keys; \<open>JsNumber\<close> is \<^verbatim>\<open>Number\<close> on strings).

  \<^bold>\<open>Cache\<close> (\<^verbatim>\<open>cache/src/store.ts\<close>). \<open>CacheStore\<close> is the in-memory store with its five eviction policies;
  \<open>CacheProps\<close> and \<open>CacheHistory\<close> carry its invariant through every history of operations, against the map of
  last writes; \<open>CacheGuarantees\<close> has the properties.

  \<^bold>\<open>Loops.\<close> A loop of the source is a total recursive function, over a list or by a measure; the loops that
  evict from the cache until its caps hold are partial functions, proved to end. The drains of the replicated
  documents terminate because each pass that makes progress shortens the buffers; the walk up the tenants
  follows the stored path. No definition uses fuel.

  \<^bold>\<open>Not modelled.\<close> SQL, Redis and file backends, which send statements to a service; providers, protocol
  bridges, tools and user interfaces, which are glue around network calls; agents and live agents, whose
  behaviour is that of the models they call; encryption, which rests on \<^verbatim>\<open>node:crypto\<close>; sign-in and access
  rules; memory, retrieval, prompts and voice. Planned are routing, the cost governor, the parser of truncated
  JSON and the expressions and schemas of workflows.
\<close>

end
